(* ===== verification/Calvin_Prelude.thy ===== *)
theory Calvin_Prelude
  imports Main "HOL-Library.AList" "HOL-Library.Char_ord" "HOL-Library.List_Lexorder"
    "HOL-Library.Product_Lexorder"
begin

text \<open>
  Shared vocabulary of the development: Python exceptions as values, results that carry the
  state also when an exception is raised (a Python object keeps the mutations made before a
  raise), Python dictionaries as association lists (the list order stands for the iteration
  order of the dictionary, which the proofs never fix), list indexing as Python does it, and
  the ring buffers all port queues are built on.  The enumerations \<open>DISCONNECT\<close>
  (runtime/north/plugins/port/__init__.py) and \<open>COMMIT_RESPONSE\<close>
  (plugins/port/queue/common.py) are here because every layer uses them.
\<close>

named_theorems dict_simps \<open>rewriting of dictionary operations\<close>
named_theorems ring_simps \<open>rewriting of ring buffer slices\<close>
named_theorems queue_defs \<open>definitions of the queue operations\<close>

section \<open>Exceptions and results\<close>

datatype exn =
    QueueEmpty string
  | QueueFull
  | KeyError
  | IndexError
  | ValueError
  | ZeroDivisionError
  | TypeError
  | AttributeError string
  | NotImplementedError
  | PyException string

type_synonym 'a res = "exn + 'a"
type_synonym ('a, 's) out = "(exn + 'a) \<times> 's"

text \<open>Sequencing: run \<open>k\<close> on the value and the new state, or stop at the exception.\<close>

definition and_then :: "('a, 's) out \<Rightarrow> ('a \<Rightarrow> 's \<Rightarrow> ('b, 's) out) \<Rightarrow> ('b, 's) out" where
  "and_then r k = (case r of (Inl e, s) \<Rightarrow> (Inl e, s) | (Inr a, s) \<Rightarrow> k a s)"

lemma and_then_simps [simp]:
  "and_then (Inl e, s) k = (Inl e, s)"
  "and_then (Inr a, s) k = k a s"
  by (simp_all add: and_then_def)

lemma and_then_Inr:
  "and_then r k = (Inr b, s') \<longleftrightarrow> (\<exists>a s. r = (Inr a, s) \<and> k a s = (Inr b, s'))"
  by (auto simp: and_then_def split: prod.splits sum.splits)

definition lift_res :: "'a res \<Rightarrow> 's \<Rightarrow> ('a, 's) out" where
  "lift_res r s = (r, s)"

text \<open>A value or its default.\<close>

definition opt_default :: "'a \<Rightarrow> 'a option \<Rightarrow> 'a" where
  "opt_default d x = (case x of None \<Rightarrow> d | Some v \<Rightarrow> v)"

section \<open>Enumerations\<close>

text \<open>\<open>enum(...)\<close> of utilities/utils.py numbers its members in order; \<open>disconnect_ord\<close> is that number.\<close>

datatype disconnect =
    TEMPORARY | TERMINATE | EXHAUST | EXHAUST_PEER
  | EXHAUST_INPORT | EXHAUST_OUTPORT | EXHAUST_PEER_RECV | EXHAUST_PEER_SEND

fun disconnect_ord :: "disconnect \<Rightarrow> nat" where
  "disconnect_ord TEMPORARY = 0"
| "disconnect_ord TERMINATE = 1"
| "disconnect_ord EXHAUST = 2"
| "disconnect_ord EXHAUST_PEER = 3"
| "disconnect_ord EXHAUST_INPORT = 4"
| "disconnect_ord EXHAUST_OUTPORT = 5"
| "disconnect_ord EXHAUST_PEER_RECV = 6"
| "disconnect_ord EXHAUST_PEER_SEND = 7"

datatype commit_response = Handled | Unhandled | Invalid

section \<open>Dictionaries\<close>

type_synonym ('k, 'v) dict = "('k \<times> 'v) list"

abbreviation dict_ok :: "('k, 'v) dict \<Rightarrow> bool" where
  "dict_ok d \<equiv> distinct (map fst d)"

abbreviation dget :: "('k, 'v) dict \<Rightarrow> 'k \<Rightarrow> 'v option" where
  "dget d k \<equiv> map_of d k"

definition dput :: "'k \<Rightarrow> 'v \<Rightarrow> ('k, 'v) dict \<Rightarrow> ('k, 'v) dict" where
  "dput k v d = AList.update k v d"

definition ddel :: "'k \<Rightarrow> ('k, 'v) dict \<Rightarrow> ('k, 'v) dict" where
  "ddel k d = AList.delete k d"

definition dkeys :: "('k, 'v) dict \<Rightarrow> 'k set" where
  "dkeys d = set (map fst d)"

text \<open>\<open>d[k]\<close>: raises KeyError when the key is absent.\<close>

definition dlook :: "('k, 'v) dict \<Rightarrow> 'k \<Rightarrow> 'v res" where
  "dlook d k = (case map_of d k of None \<Rightarrow> Inl KeyError | Some v \<Rightarrow> Inr v)"

text \<open>\<open>d.update(e)\<close>.\<close>

definition dupdate :: "('k, 'v) dict \<Rightarrow> ('k, 'v) dict \<Rightarrow> ('k, 'v) dict" where
  "dupdate d e = fold (\<lambda>(k, v). dput k v) e d"

lemma dget_dput [simp, dict_simps]: "dget (dput k v d) k' = (if k' = k then Some v else dget d k')"
  by (simp add: dput_def update_conv')

lemma dget_ddel [simp, dict_simps]: "dget (ddel k d) k' = (if k' = k then None else dget d k')"
  by (simp add: ddel_def delete_conv')

lemma dict_ok_dput [simp, dict_simps]: "dict_ok (dput k v d) = dict_ok d"
proof
  show "dict_ok (dput k v d) \<Longrightarrow> dict_ok d"
  proof (induction d)
    case (Cons p d)
    then show ?case
      by (cases p) (auto simp: dput_def dom_update split: if_splits)
  qed simp
  show "dict_ok d \<Longrightarrow> dict_ok (dput k v d)"
    by (simp add: dput_def distinct_update)
qed

lemma dict_ok_ddel [simp, dict_simps]: "dict_ok d \<Longrightarrow> dict_ok (ddel k d)"
  by (simp add: ddel_def distinct_delete)

lemma dkeys_dput [simp, dict_simps]: "dkeys (dput k v d) = insert k (dkeys d)"
  by (simp add: dkeys_def dput_def dom_update)

lemma dkeys_ddel [simp, dict_simps]: "dkeys (ddel k d) = dkeys d - {k}"
  by (auto simp: dkeys_def ddel_def delete_keys)

lemma dkeys_Nil [simp, dict_simps]: "dkeys [] = {}"
  by (simp add: dkeys_def)

lemma dkeys_Cons [simp, dict_simps]: "dkeys (p # d) = insert (fst p) (dkeys d)"
  by (simp add: dkeys_def)

lemma dkeys_iff: "k \<in> dkeys d \<longleftrightarrow> (\<exists>v. dget d k = Some v)"
  by (metis dkeys_def image_set map_of_eq_None_iff not_None_eq)

lemma dget_None_iff: "dget d k = None \<longleftrightarrow> k \<notin> dkeys d"
  by (simp add: dkeys_iff)

lemma dlook_Inr [simp, dict_simps]: "dlook d k = Inr v \<longleftrightarrow> dget d k = Some v"
  by (auto simp: dlook_def split: option.splits)

lemma dlook_Some [simp, dict_simps]: "dget d k = Some v \<Longrightarrow> dlook d k = Inr v"
  by simp

lemma dlook_None [simp, dict_simps]: "dget d k = None \<Longrightarrow> dlook d k = Inl KeyError"
  by (simp add: dlook_def)

lemma dvals_iff: "dict_ok d \<Longrightarrow> v \<in> snd ` set d \<longleftrightarrow> (\<exists>k. dget d k = Some v)"
  by (metis (no_types, opaque_lifting) image_iff map_of_SomeD map_of_is_SomeI prod.collapse snd_conv)

text \<open>The value of an integer entry, for stating invariants (0 when absent).\<close>

definition dval :: "('k, int) dict \<Rightarrow> 'k \<Rightarrow> int" where
  "dval d k = (case dget d k of None \<Rightarrow> 0 | Some v \<Rightarrow> v)"

lemma dval_dput [simp, dict_simps]: "dval (dput k v d) k' = (if k' = k then v else dval d k')"
  by (simp add: dval_def)

lemma dval_ddel [simp, dict_simps]: "k' \<noteq> k \<Longrightarrow> dval (ddel k d) k' = dval d k'"
  by (simp add: dval_def)

lemma dget_dval: "k \<in> dkeys d \<Longrightarrow> dget d k = Some (dval d k)"
  by (auto simp: dkeys_iff dval_def)

lemma dlook_dval: "k \<in> dkeys d \<Longrightarrow> dlook d k = Inr (dval d k)"
  by (simp add: dget_dval)

lemma dval_eqI: "dget d k = Some v \<Longrightarrow> dval d k = v"
  by (simp add: dval_def)

text \<open>\<open>min(d.values() or [0])\<close>.\<close>

definition min_values :: "('k, int) dict \<Rightarrow> int" where
  "min_values d = (if d = [] then 0 else Min (set (map snd d)))"

lemma min_values_le: "dget d k = Some v \<Longrightarrow> min_values d \<le> v"
proof -
  assume "dget d k = Some v"
  then have "(k, v) \<in> set d" by (rule map_of_SomeD)
  then have "v \<in> set (map snd d)" and "d \<noteq> []" by force+
  then show ?thesis by (simp add: min_values_def)
qed

lemma min_values_in: "d \<noteq> [] \<Longrightarrow> dict_ok d \<Longrightarrow> \<exists>k. dget d k = Some (min_values d)"
proof -
  assume d: "d \<noteq> []" "dict_ok d"
  have "Min (set (map snd d)) \<in> set (map snd d)"
    by (rule Min_in) (use d in auto)
  then have "min_values d \<in> snd ` set d"
    using d by (simp add: min_values_def)
  then show ?thesis using d(2) by (simp add: dvals_iff)
qed

lemma min_values_dval_le: "k \<in> dkeys d \<Longrightarrow> min_values d \<le> dval d k"
  by (rule min_values_le) (rule dget_dval)

lemma min_values_dval: "d \<noteq> [] \<Longrightarrow> dict_ok d \<Longrightarrow> \<exists>k \<in> dkeys d. min_values d = dval d k"
  by (metis dkeys_iff dval_eqI min_values_in)

section \<open>Indexing\<close>

text \<open>\<open>xs[i]\<close>: a negative index counts from the end, anything else out of range raises IndexError.\<close>

definition py_index :: "'a list \<Rightarrow> int \<Rightarrow> 'a res" where
  "py_index xs i =
     (if i < - int (length xs) \<or> int (length xs) \<le> i then Inl IndexError
      else Inr (xs ! nat (if i < 0 then int (length xs) + i else i)))"

lemma py_index_in [simp]: "0 \<le> i \<Longrightarrow> i < int (length xs) \<Longrightarrow> py_index xs i = Inr (xs ! nat i)"
  by (simp add: py_index_def)

lemma py_index_Inr_mem: "py_index xs i = Inr x \<Longrightarrow> x \<in> set xs"
  by (auto simp: py_index_def Let_def split: if_splits)

lemma py_index_beyond: "int (length xs) \<le> i \<Longrightarrow> py_index xs i = Inl IndexError"
  by (simp add: py_index_def)

lemma distinct_set_singleton:
  assumes "distinct xs" "set xs = {a}"
  shows "xs = [a]"
proof (cases xs)
  case (Cons x ys)
  then have "x = a" and "set ys \<subseteq> {a}" and "a \<notin> set ys" using assms by auto
  then have "ys = []" by (cases ys) auto
  with Cons \<open>x = a\<close> show ?thesis by simp
qed (use assms in simp)

section \<open>Ring buffers\<close>

text \<open>
  All queues keep positions that only grow and reduce them modulo the buffer length when they
  access the buffer.  \<open>ring_slice N xs a b\<close> is the sequence of tokens at the positions
  \<open>a, a+1, \<dots>, b-1\<close>.
\<close>

definition ring_get :: "int \<Rightarrow> 'a list \<Rightarrow> int \<Rightarrow> 'a" where
  "ring_get N xs p = xs ! nat (p mod N)"

definition ring_put :: "int \<Rightarrow> 'a list \<Rightarrow> int \<Rightarrow> 'a \<Rightarrow> 'a list" where
  "ring_put N xs p x = xs[nat (p mod N) := x]"

definition ring_ok :: "int \<Rightarrow> 'a list \<Rightarrow> bool" where
  "ring_ok N xs \<longleftrightarrow> 0 < N \<and> int (length xs) = N"

definition ring_slice :: "int \<Rightarrow> 'a list \<Rightarrow> int \<Rightarrow> int \<Rightarrow> 'a list" where
  "ring_slice N xs a b = map (ring_get N xs) [a..b - 1]"

lemma ring_ok_put [simp]: "ring_ok N (ring_put N xs p x) = ring_ok N xs"
  by (simp add: ring_ok_def ring_put_def)

lemma length_ring_slice [simp, ring_simps]: "length (ring_slice N xs a b) = nat (b - a)"
  by (simp add: ring_slice_def)

lemma ring_slice_empty [simp, ring_simps]: "b \<le> a \<Longrightarrow> ring_slice N xs a b = []"
  by (simp add: ring_slice_def)

lemma ring_slice_head [ring_simps]:
  "a < b \<Longrightarrow> ring_slice N xs a b = ring_get N xs a # ring_slice N xs (a + 1) b"
  by (simp add: ring_slice_def upto_rec1)

lemma ring_slice_tl [ring_simps]: "a < b \<Longrightarrow> tl (ring_slice N xs a b) = ring_slice N xs (a + 1) b"
  by (simp add: ring_slice_head)

lemma ring_slice_drop [ring_simps]:
  "a \<le> c \<Longrightarrow> drop (nat (c - a)) (ring_slice N xs a b) = ring_slice N xs c b"
proof (cases "c \<le> b")
  case True
  assume "a \<le> c"
  then have "[a..b - 1] = [a..c - 1] @ [c..b - 1]"
    using upto_split1 [of a c "b - 1"] upto_split2 [of a "c - 1" "b - 1"] True
    by (cases "c = b") (auto simp: algebra_simps)
  then show ?thesis
    by (simp add: ring_slice_def)
next
  case False
  then show ?thesis by (simp add: ring_slice_def)
qed

lemma ring_slice_nth [ring_simps]:
  "i < nat (b - a) \<Longrightarrow> ring_slice N xs a b ! i = ring_get N xs (a + int i)"
  by (simp add: ring_slice_def)

lemma ring_get_put:
  assumes "ring_ok N xs" "p < b" "b - p < N"
  shows "ring_get N (ring_put N xs b x) p = ring_get N xs p"
proof -
  have "p mod N \<noteq> b mod N"
  proof
    assume "p mod N = b mod N"
    then have "(b - p) mod N = 0" by (metis mod_eq_dvd_iff mod_0_imp_dvd dvd_imp_mod_0)
    with assms show False by (simp add: ring_ok_def)
  qed
  moreover have "0 \<le> p mod N" "0 \<le> b mod N"
    using assms by (simp_all add: ring_ok_def)
  ultimately have "nat (p mod N) \<noteq> nat (b mod N)" by simp
  then show ?thesis by (simp add: ring_get_def ring_put_def)
qed

lemma ring_slice_put:
  assumes "ring_ok N xs" "a \<le> b" "b - a < N"
  shows "ring_slice N (ring_put N xs b x) a (b + 1) = ring_slice N xs a b @ [x]"
proof -
  have split: "[a..b] = [a..b - 1] @ [b]"
    using assms by (simp add: upto_rec2)
  have same: "map (ring_get N (ring_put N xs b x)) [a..b - 1] = map (ring_get N xs) [a..b - 1]"
    by (rule map_cong [OF refl], rule ring_get_put) (use assms in auto)
  have "nat (b mod N) < length xs"
    using assms by (auto simp: ring_ok_def nat_less_iff)
  then have "ring_get N (ring_put N xs b x) b = x"
    by (simp add: ring_get_def ring_put_def)
  with split same show ?thesis by (simp add: ring_slice_def)
qed

end
