(* ===== verification/Calvin_Token.thy ===== *)
theory Calvin_Token
  imports Calvin_Prelude
begin

text \<open>
  Tokens (runtime/north/calvin_token.py): the three token classes, the representation for a
  coder, \<open>encode\<close> and \<open>decode\<close>.  Token values are the JSON values actors exchange.
\<close>

section \<open>Values\<close>

datatype pyval =
    PNone
  | PBool bool
  | PInt int
  | PStr string
  | PList "pyval list"
  | PDict "(pyval \<times> pyval) list"

section \<open>Token classes\<close>

datatype token_class = TokenC | ExceptionTokenC | EOSTokenC

record token =
  tcls :: token_class
  tval :: pyval

text \<open>Constructors with the default values of the source.\<close>

definition Token :: "pyval \<Rightarrow> token" where
  "Token v = \<lparr>tcls = TokenC, tval = v\<rparr>"

definition ExceptionToken :: "pyval \<Rightarrow> token" where
  "ExceptionToken v = \<lparr>tcls = ExceptionTokenC, tval = v\<rparr>"

definition EOSToken :: "pyval \<Rightarrow> token" where
  "EOSToken v = \<lparr>tcls = EOSTokenC, tval = v\<rparr>"

definition default_ExceptionToken :: token where
  "default_ExceptionToken = ExceptionToken (PStr ''Exception'')"

definition default_EOSToken :: token where
  "default_EOSToken = EOSToken (PStr ''End of stream'')"

text \<open>\<open>isinstance(token, ExceptionToken)\<close>: EOSToken is a subclass.\<close>

definition is_exception_token :: "token \<Rightarrow> bool" where
  "is_exception_token t = (tcls t \<in> {ExceptionTokenC, EOSTokenC})"

fun class_name :: "token_class \<Rightarrow> string" where
  "class_name TokenC = ''Token''"
| "class_name ExceptionTokenC = ''ExceptionToken''"
| "class_name EOSTokenC = ''EOSToken''"

section \<open>Encoding\<close>

definition repr_for_coder :: "token \<Rightarrow> pyval" where
  "repr_for_coder t =
     PDict [(PStr ''type'', PStr (class_name (tcls t))), (PStr ''data'', tval t)]"

text \<open>With a coder, a pair of functions supplied by the runtime, the representation is encoded further.\<close>

definition token_encode :: "(pyval \<Rightarrow> 'e) \<Rightarrow> token \<Rightarrow> 'e" where
  "token_encode enc t = enc (repr_for_coder t)"

text \<open>The class table of \<open>decode\<close>; any other type name gives an ExceptionToken.\<close>

definition class_of_name :: "pyval \<Rightarrow> token_class" where
  "class_of_name ty =
     (if ty = PStr ''Token'' then TokenC
      else if ty = PStr ''ExceptionToken'' then ExceptionTokenC
      else if ty = PStr ''EOSToken'' then EOSTokenC
      else ExceptionTokenC)"

fun decode_repr :: "pyval \<Rightarrow> token res" where
  "decode_repr (PDict d) =
     (let token_type = (case dget d (PStr ''type'') of None \<Rightarrow> PStr '''' | Some ty \<Rightarrow> ty);
          payload = (case dget d (PStr ''data'') of None \<Rightarrow> PStr ''Bad Token'' | Some v \<Rightarrow> v)
      in Inr \<lparr>tcls = class_of_name token_type, tval = payload\<rparr>)"
| "decode_repr _ = Inl (AttributeError ''get'')"

definition token_decode :: "('e \<Rightarrow> pyval) \<Rightarrow> 'e \<Rightarrow> token res" where
  "token_decode dec e = decode_repr (dec e)"

section \<open>Lemmas\<close>

lemma class_of_class_name [simp]: "class_of_name (PStr (class_name c)) = c"
  by (cases c) (simp_all add: class_of_name_def)

lemma decode_repr_for_coder [simp]: "decode_repr (repr_for_coder t) = Inr t"
  by (simp add: repr_for_coder_def)

lemma token_val_Token [simp]: "tval (Token v) = v" "tcls (Token v) = TokenC"
  by (simp_all add: Token_def)

lemma is_exception_Token [simp]: "\<not> is_exception_token (Token v)"
  by (simp add: is_exception_token_def Token_def)

text \<open>
  The text encodings: \<open>map decode \<circ> map encode\<close> over a list, as the queues serialise their buffers.
\<close>

fun decode_all :: "pyval list \<Rightarrow> token list res" where
  "decode_all [] = Inr []"
| "decode_all (v # vs) =
     (case decode_repr v of
        Inl e \<Rightarrow> Inl e
      | Inr t \<Rightarrow> (case decode_all vs of Inl e \<Rightarrow> Inl e | Inr ts \<Rightarrow> Inr (t # ts)))"

lemma decode_all_encode [simp]: "decode_all (map repr_for_coder ts) = Inr ts"
  by (induction ts) simp_all

end
