(* ===== verification/Queue_Interface.thy ===== *)
theory Queue_Interface
  imports Calvin_Token
begin

text \<open>
  The contracts between the port queues and their clients.  \<open>com_source\<close> is what an
  endpoint relies on when it takes tokens out of an outport queue with sequence numbers,
  \<open>com_sink\<close> what it relies on when it delivers tokens into an inport queue,
  \<open>action_source\<close> and \<open>action_sink\<close> what an actor's firing relies on.  The queue
  theories interpret them on the model's operations; the endpoint, port and actor theories are
  the clients.
\<close>

section \<open>Taking tokens out by sequence number\<close>

text \<open>
  For a reader \<open>r\<close> of queue \<open>q\<close>: \<open>pending q r\<close> are the tokens not yet committed,
  \<open>peeked q r\<close> how many of them have been handed out tentatively, \<open>base q r\<close> the
  sequence number of the first one.
\<close>

locale com_source =
  fixes inv :: "'q \<Rightarrow> bool"
    and rd :: "'q \<Rightarrow> string \<Rightarrow> bool"
    and pending :: "'q \<Rightarrow> string \<Rightarrow> token list"
    and peeked :: "'q \<Rightarrow> string \<Rightarrow> nat"
    and base :: "'q \<Rightarrow> string \<Rightarrow> int"
    and com_peek :: "'q \<Rightarrow> string \<Rightarrow> (int \<times> token, 'q) out"
    and com_commit :: "'q \<Rightarrow> string \<Rightarrow> int \<Rightarrow> (commit_response option, 'q) out"
    and com_cancel :: "'q \<Rightarrow> string \<Rightarrow> int \<Rightarrow> (commit_response, 'q) out"
  assumes peeked_le: "inv q \<Longrightarrow> rd q r \<Longrightarrow> peeked q r \<le> length (pending q r)"
    and peek_empty: "inv q \<Longrightarrow> rd q r \<Longrightarrow> peeked q r = length (pending q r) \<Longrightarrow>
      com_peek q r = (Inl (QueueEmpty r), q)"
    and peek_some: "inv q \<Longrightarrow> rd q r \<Longrightarrow> peeked q r < length (pending q r) \<Longrightarrow>
      \<exists>q'. com_peek q r = (Inr (base q r + int (peeked q r), pending q r ! peeked q r), q')
        \<and> inv q' \<and> rd q' r \<and> pending q' r = pending q r
        \<and> peeked q' r = Suc (peeked q r) \<and> base q' r = base q r"
    and commit_next: "inv q \<Longrightarrow> rd q r \<Longrightarrow> 0 < peeked q r \<Longrightarrow>
      \<exists>q'. com_commit q r (base q r) = (Inr (Some Handled), q')
        \<and> inv q' \<and> rd q' r \<and> pending q' r = tl (pending q r)
        \<and> peeked q' r = peeked q r - 1 \<and> base q' r = base q r + 1"
    and commit_later: "inv q \<Longrightarrow> rd q r \<Longrightarrow> base q r < n \<Longrightarrow> n < base q r + int (peeked q r) \<Longrightarrow>
      com_commit q r n = (Inr (Some Unhandled), q)"
    and commit_beyond: "inv q \<Longrightarrow> rd q r \<Longrightarrow> base q r + int (peeked q r) \<le> n \<Longrightarrow>
      com_commit q r n = (Inr (Some Invalid), q)"
    and commit_old: "inv q \<Longrightarrow> rd q r \<Longrightarrow> n < base q r \<Longrightarrow>
      com_commit q r n = (Inr (if peeked q r = 0 then None else Some Unhandled), q)"
    and cancel_peeked: "inv q \<Longrightarrow> rd q r \<Longrightarrow> i < peeked q r \<Longrightarrow>
      \<exists>q'. com_cancel q r (base q r + int i) = (Inr Handled, q')
        \<and> inv q' \<and> rd q' r \<and> pending q' r = pending q r
        \<and> peeked q' r = i \<and> base q' r = base q r"
    and cancel_beyond: "inv q \<Longrightarrow> rd q r \<Longrightarrow> base q r + int (peeked q r) \<le> n \<Longrightarrow>
      com_cancel q r n = (Inl (AttributeError ''reader_pos''), q)"

section \<open>Delivering tokens by sequence number\<close>

text \<open>
  For a writer \<open>w\<close>: \<open>held q w\<close> are the tokens delivered and not yet committed by the
  reading actor, \<open>expected q w\<close> the sequence number of the next token to accept,
  \<open>room q w\<close> whether a slot is free.
\<close>

locale com_sink =
  fixes inv :: "'q \<Rightarrow> bool"
    and wr :: "'q \<Rightarrow> string \<Rightarrow> bool"
    and held :: "'q \<Rightarrow> string \<Rightarrow> token list"
    and expected :: "'q \<Rightarrow> string \<Rightarrow> int"
    and room :: "'q \<Rightarrow> string \<Rightarrow> bool"
    and com_write :: "'q \<Rightarrow> token \<Rightarrow> string \<Rightarrow> int \<Rightarrow> (commit_response, 'q) out"
  assumes write_next: "inv q \<Longrightarrow> wr q w \<Longrightarrow> room q w \<Longrightarrow>
      \<exists>q'. com_write q t w (expected q w) = (Inr Handled, q')
        \<and> inv q' \<and> wr q' w \<and> held q' w = held q w @ [t] \<and> expected q' w = expected q w + 1"
    and write_full: "inv q \<Longrightarrow> wr q w \<Longrightarrow> \<not> room q w \<Longrightarrow>
      com_write q t w (expected q w) = (Inl QueueFull, q)"
    and write_old: "inv q \<Longrightarrow> wr q w \<Longrightarrow> n < expected q w \<Longrightarrow>
      com_write q t w n = (Inr Unhandled, q)"
    and write_beyond: "inv q \<Longrightarrow> wr q w \<Longrightarrow> expected q w < n \<Longrightarrow>
      com_write q t w n = (Inr Invalid, q)"

section \<open>An actor's firing\<close>

text \<open>
  \<open>avail q n m\<close> is the queue's guard \<open>tokens_available\<close>; a firing that passed it for
  one token can peek, and commit after it keeps the invariant.
\<close>

locale action_source =
  fixes inv :: "'q \<Rightarrow> bool"
    and rd :: "'q \<Rightarrow> string \<Rightarrow> bool"
    and avail :: "'q \<Rightarrow> int \<Rightarrow> string \<Rightarrow> (bool, 'q) out"
    and peek :: "'q \<Rightarrow> string \<Rightarrow> (token, 'q) out"
    and cancel :: "'q \<Rightarrow> string \<Rightarrow> (unit, 'q) out"
  assumes avail_pure: "inv q \<Longrightarrow> rd q m \<Longrightarrow> \<exists>b. avail q n m = (Inr b, q)"
    and avail_peek: "inv q \<Longrightarrow> rd q m \<Longrightarrow> avail q 1 m = (Inr True, q) \<Longrightarrow>
      \<exists>t q'. peek q m = (Inr t, q') \<and> inv q' \<and> rd q' m"
    and none_empty: "inv q \<Longrightarrow> rd q m \<Longrightarrow> avail q 1 m = (Inr False, q) \<Longrightarrow>
      fst (peek q m) = Inl (QueueEmpty m)"
    and cancel_inv: "inv q \<Longrightarrow> rd q m \<Longrightarrow> \<exists>q'. cancel q m = (Inr (), q') \<and> inv q' \<and> rd q' m"
begin

lemma peek_Empty_iff:
  "inv q \<Longrightarrow> rd q m \<Longrightarrow> fst (peek q m) = Inl (QueueEmpty m) \<longleftrightarrow> avail q 1 m = (Inr False, q)"
  using avail_pure [of q m 1] avail_peek [of q m] none_empty [of q m] by force

end

locale action_sink =
  fixes inv :: "'q \<Rightarrow> bool"
    and accepts :: "'q \<Rightarrow> token \<Rightarrow> bool"
    and slots :: "'q \<Rightarrow> int \<Rightarrow> string \<Rightarrow> (bool, 'q) out"
    and put :: "'q \<Rightarrow> token \<Rightarrow> string \<Rightarrow> (bool, 'q) out"
  assumes slots_pure: "inv q \<Longrightarrow> \<exists>b. slots q n m = (Inr b, q)"
    and slots_write: "inv q \<Longrightarrow> accepts q t \<Longrightarrow> slots q 1 m = (Inr True, q) \<Longrightarrow>
      \<exists>q'. put q t m = (Inr True, q') \<and> inv q'"

end
