(* ===== verification/Fanout_FIFO.thy ===== *)
theory Fanout_FIFO
  imports Queue_Interface
begin

text \<open>
  \<open>FanoutFIFO\<close> (plugins/port/queue/fanout_fifo.py): the default queue, one ring buffer
  written once and read by every reader at its own position.  It serves outports (any number
  of readers) and inports (one reader, the port itself).
\<close>

section \<open>State\<close>

text \<open>
  The port properties a queue constructor reads (the \<open>get\<close> defaults are applied below).
\<close>

record port_props =
  pp_routing :: "string list option"
  pp_queue_length :: "int option"
  pp_direction :: "string option"
  pp_nbr_peers :: "int option"
  pp_tag :: "pyval option"

record fanout_fifo =
  ff_fifo :: "token list"
  ff_N :: int
  ff_direction :: "string option"
  ff_nbr_peers :: int
  ff_readers :: "string list"
  ff_write_pos :: int
  ff_read_pos :: "(string, int) dict"
  ff_tentative :: "(string, int) dict"
  ff_offset :: "(string, int) dict"
  ff_type :: string
  ff_writer :: "string option"
  ff_exhausted :: "(string, (int \<times> token) list) dict"
  ff_termination :: "(string, disconnect \<times> bool) dict"

definition ff_init :: "port_props \<Rightarrow> fanout_fifo" where
  "ff_init pp =
     (let N = opt_default 4 (pp_queue_length pp) + 1
      in \<lparr>ff_fifo = replicate (nat N) (Token (PInt 0)),
          ff_N = N,
          ff_direction = pp_direction pp,
          ff_nbr_peers = opt_default 1 (pp_nbr_peers pp),
          ff_readers = [],
          ff_write_pos = 0,
          ff_read_pos = [], ff_tentative = [], ff_offset = [],
          ff_type = ''fanout_fifo'',
          ff_writer = None,
          ff_exhausted = [], ff_termination = []\<rparr>)"

section \<open>Serialisation\<close>

record ff_state =
  fs_queuetype :: "string option"
  fs_fifo :: "pyval list"
  fs_N :: int
  fs_readers :: "string list"
  fs_write_pos :: int
  fs_read_pos :: "(string, int) dict"
  fs_tentative :: "(string, int) dict"
  fs_offset :: "(string, int) dict option"

definition ff_get_state :: "fanout_fifo \<Rightarrow> ff_state" where
  "ff_get_state q =
     \<lparr>fs_queuetype = Some (ff_type q),
      fs_fifo = map repr_for_coder (ff_fifo q),
      fs_N = ff_N q,
      fs_readers = ff_readers q,
      fs_write_pos = ff_write_pos q,
      fs_read_pos = ff_read_pos q,
      fs_tentative = ff_tentative q,
      fs_offset = Some (ff_offset q)\<rparr>"

definition ff_set_state :: "fanout_fifo \<Rightarrow> ff_state \<Rightarrow> (unit, fanout_fifo) out" where
  "ff_set_state q s =
     (let q1 = q\<lparr>ff_type := opt_default ''fanout_fifo'' (fs_queuetype s)\<rparr>
      in case decode_all (fs_fifo s) of
           Inl e \<Rightarrow> (Inl e, q1)
         | Inr ts \<Rightarrow>
             (Inr (), q1\<lparr>ff_fifo := ts, ff_N := fs_N s, ff_readers := remdups (fs_readers s),
                ff_write_pos := fs_write_pos s, ff_read_pos := fs_read_pos s,
                ff_tentative := fs_tentative s,
                ff_offset := opt_default (map (\<lambda>p. (p, 0)) (remdups (fs_readers s))) (fs_offset s)\<rparr>))"

section \<open>Peers\<close>

definition ff_add_writer :: "fanout_fifo \<Rightarrow> string \<Rightarrow> fanout_fifo" where
  "ff_add_writer q w = q\<lparr>ff_writer := Some w\<rparr>"

definition ff_remove_writer :: "fanout_fifo \<Rightarrow> string \<Rightarrow> fanout_fifo" where
  "ff_remove_writer q w = q"

definition ff_start_reader :: "fanout_fifo \<Rightarrow> string \<Rightarrow> int \<Rightarrow> fanout_fifo" where
  "ff_start_reader q r p =
     q\<lparr>ff_offset := dput r p (ff_offset q), ff_read_pos := dput r p (ff_read_pos q),
       ff_tentative := dput r p (ff_tentative q)\<rparr>"

text \<open>\<open>min(self.read_pos.values())\<close> raises ValueError on an empty dictionary.\<close>

definition ff_add_reader :: "fanout_fifo \<Rightarrow> string \<Rightarrow> (unit, fanout_fifo) out" where
  "ff_add_reader q r =
     (if r \<in> set (ff_readers q) then (Inr (), q)
      else
        let q1 = q\<lparr>ff_readers := ff_readers q @ [r]\<rparr>
        in if int (length (ff_readers q1)) > ff_nbr_peers q1
           then let q2 = q1\<lparr>ff_nbr_peers := int (length (ff_readers q1))\<rparr>
                in if ff_read_pos q2 = [] then (Inl ValueError, q2)
                   else (Inr (), ff_start_reader q2 r (min_values (ff_read_pos q2)))
           else (Inr (), ff_start_reader q1 r 0))"

definition ff_remove_reader :: "fanout_fifo \<Rightarrow> string \<Rightarrow> fanout_fifo" where
  "ff_remove_reader q r =
     (if r \<notin> set (ff_readers q) then q
      else q\<lparr>ff_read_pos := ddel r (ff_read_pos q), ff_tentative := ddel r (ff_tentative q),
             ff_offset := ddel r (ff_offset q), ff_readers := removeAll r (ff_readers q),
             ff_nbr_peers := ff_nbr_peers q - 1\<rparr>)"

definition ff_get_peers :: "fanout_fifo \<Rightarrow> string list option" where
  "ff_get_peers q =
     (if ff_direction q = Some ''out'' then Some (ff_readers q)
      else if ff_direction q = Some ''in'' then map_option (\<lambda>w. [w]) (ff_writer q)
      else None)"

section \<open>Writing and reading\<close>

definition ff_slots_available :: "fanout_fifo \<Rightarrow> int \<Rightarrow> bool" where
  "ff_slots_available q n =
     (let last_readpos = min_values (ff_read_pos q)
      in ff_N q - ((ff_write_pos q - last_readpos) mod ff_N q) - 1 \<ge> n)"

definition ff_write :: "fanout_fifo \<Rightarrow> token \<Rightarrow> (bool, fanout_fifo) out" where
  "ff_write q d =
     (if \<not> ff_slots_available q 1 then (Inl QueueFull, q)
      else (Inr True, q\<lparr>ff_fifo := ring_put (ff_N q) (ff_fifo q) (ff_write_pos q) d,
                        ff_write_pos := ff_write_pos q + 1\<rparr>))"

definition ff_tokens_available :: "fanout_fifo \<Rightarrow> int \<Rightarrow> string \<Rightarrow> bool res" where
  "ff_tokens_available q n m =
     (if ff_readers q = [] then Inr False
      else if m \<notin> set (ff_readers q) then Inl (PyException ''No reader'')
      else case dlook (ff_tentative q) m of
             Inl e \<Rightarrow> Inl e
           | Inr tp \<Rightarrow> Inr (ff_write_pos q - tp \<ge> n))"

definition ff_peek :: "fanout_fifo \<Rightarrow> string \<Rightarrow> (token, fanout_fifo) out" where
  "ff_peek q m =
     (if m \<notin> set (ff_readers q) then (Inl (PyException ''Unknown reader''), q)
      else case ff_tokens_available q 1 m of
             Inl e \<Rightarrow> (Inl e, q)
           | Inr avail \<Rightarrow>
               if \<not> avail then (Inl (QueueEmpty m), q)
               else case dlook (ff_tentative q) m of
                      Inl e \<Rightarrow> (Inl e, q)
                    | Inr rp \<Rightarrow> (Inr (ring_get (ff_N q) (ff_fifo q) rp),
                                q\<lparr>ff_tentative := dput m (rp + 1) (ff_tentative q)\<rparr>))"

section \<open>Sequence-numbered access\<close>

definition ff_com_write :: "fanout_fifo \<Rightarrow> token \<Rightarrow> int \<Rightarrow> (commit_response, fanout_fifo) out" where
  "ff_com_write q d n =
     (if n = ff_write_pos q then and_then (ff_write q d) (\<lambda>_ q'. (Inr Handled, q'))
      else if n < ff_write_pos q then (Inr Unhandled, q)
      else (Inr Invalid, q))"

definition ff_com_peek :: "fanout_fifo \<Rightarrow> string \<Rightarrow> (int \<times> token, fanout_fifo) out" where
  "ff_com_peek q m =
     (case dlook (ff_tentative q) m of
        Inl e \<Rightarrow> (Inl e, q)
      | Inr pos \<Rightarrow>
          (case dlook (ff_offset q) m of
             Inl e \<Rightarrow> (Inl e, q)
           | Inr off \<Rightarrow> and_then (ff_peek q m) (\<lambda>t q'. (Inr (pos - off, t), q'))))"

text \<open>\<open>None\<close> is Python's implicit return when there is nothing tentative to commit.\<close>

definition ff_com_commit :: "fanout_fifo \<Rightarrow> string \<Rightarrow> int \<Rightarrow> (commit_response option, fanout_fifo) out" where
  "ff_com_commit q r n =
     (case (dlook (ff_offset q) r, dlook (ff_tentative q) r, dlook (ff_read_pos q) r) of
        (Inr off, Inr tp, Inr rp) \<Rightarrow>
          (let n' = n + off
           in if n' \<ge> tp then (Inr (Some Invalid), q)
              else if rp < tp
                   then if n' = rp
                        then (Inr (Some Handled), q\<lparr>ff_read_pos := dput r (rp + 1) (ff_read_pos q)\<rparr>)
                        else (Inr (Some Unhandled), q)
                   else (Inr None, q))
      | _ \<Rightarrow> (Inl KeyError, q))"

text \<open>
  The guard reads \<open>self.reader_pos\<close>, an attribute no queue has: whenever its first
  conjunct holds, evaluating the second raises AttributeError.
\<close>

definition ff_com_cancel :: "fanout_fifo \<Rightarrow> string \<Rightarrow> int \<Rightarrow> (commit_response, fanout_fifo) out" where
  "ff_com_cancel q r n =
     (case (dlook (ff_offset q) r, dlook (ff_tentative q) r) of
        (Inr off, Inr tp) \<Rightarrow>
          (let n' = n + off
           in if n' \<ge> tp then (Inl (AttributeError ''reader_pos''), q)
              else (Inr Handled, q\<lparr>ff_tentative := dput r n' (ff_tentative q)\<rparr>))
      | _ \<Rightarrow> (Inl KeyError, q))"

definition ff_com_is_committed :: "fanout_fifo \<Rightarrow> string \<Rightarrow> bool res" where
  "ff_com_is_committed q r =
     (case (dlook (ff_tentative q) r, dlook (ff_read_pos q) r) of
        (Inr tp, Inr rp) \<Rightarrow> Inr (tp = rp)
      | _ \<Rightarrow> Inl KeyError)"

section \<open>Exhaustion\<close>

definition ff_is_exhausting :: "fanout_fifo \<Rightarrow> string option \<Rightarrow> bool" where
  "ff_is_exhausting q peer =
     (case peer of None \<Rightarrow> ff_termination q \<noteq> [] | Some p \<Rightarrow> p \<in> dkeys (ff_termination q))"

definition ff_exhaust :: "fanout_fifo \<Rightarrow> string \<Rightarrow> disconnect \<Rightarrow> ((int \<times> token) list, fanout_fifo) out" where
  "ff_exhaust q p term =
     (let q1 = q\<lparr>ff_termination := dput p (term, False) (ff_termination q)\<rparr>
      in if p \<notin> set (ff_readers q) then (Inr [], q1)
         else if term \<in> {EXHAUST_PEER_SEND, EXHAUST_OUTPORT}
         then case dlook (ff_read_pos q1) p of
                Inl e \<Rightarrow> (Inl e, q1)
              | Inr rp \<Rightarrow>
                  (let tokens = map (\<lambda>k. (k, ring_get (ff_N q1) (ff_fifo q1) k)) [rp..ff_write_pos q1 - 1];
                       q2 = ff_remove_reader q1 p
                   in (Inr tokens, q2\<lparr>ff_termination := ddel p (ff_termination q2)\<rparr>))
         else (Inr [], q1))"

definition ff_any_outstanding :: "fanout_fifo \<Rightarrow> bool" where
  "ff_any_outstanding q = list_ex (\<lambda>(p, t). \<not> snd t) (ff_termination q)"

text \<open>\<open>_transfer_exhaust_tokens\<close>: the tokens that could not be moved yet, and the queue.\<close>

fun ff_transfer :: "fanout_fifo \<Rightarrow> (int \<times> token) list \<Rightarrow> ((int \<times> token) list, fanout_fifo) out" where
  "ff_transfer q [] = (Inr [], q)"
| "ff_transfer q ((pos, t) # ts) =
     (if \<not> ff_slots_available q 1 then (Inr ((pos, t) # ts), q)
      else and_then (ff_com_write q t pos) (\<lambda>_ q'. ff_transfer q' ts))"

text \<open>The loop over \<open>self.exhausted_tokens.items()\<close> and the deletion of the emptied entries.\<close>

fun ff_transfer_all :: "fanout_fifo \<Rightarrow> (string, (int \<times> token) list) dict \<Rightarrow>
    ((string, (int \<times> token) list) dict, fanout_fifo) out" where
  "ff_transfer_all q [] = (Inr [], q)"
| "ff_transfer_all q ((p, ts) # ps) =
     and_then (ff_transfer q ts) (\<lambda>rest q1.
       and_then (ff_transfer_all q1 ps) (\<lambda>others q2.
         (Inr (if rest = [] then others else (p, rest) # others), q2)))"

definition ff_move_exhausted :: "fanout_fifo \<Rightarrow> (unit, fanout_fifo) out" where
  "ff_move_exhausted q =
     and_then (ff_transfer_all q (ff_exhausted q)) (\<lambda>left q'. (Inr (), q'\<lparr>ff_exhausted := left\<rparr>))"

definition ff_confirm_termination :: "fanout_fifo \<Rightarrow> string \<Rightarrow> fanout_fifo" where
  "ff_confirm_termination q p =
     (case dget (ff_termination q) p of
        None \<Rightarrow> q
      | Some t \<Rightarrow> q\<lparr>ff_termination := dput p (fst t, True) (ff_termination q)\<rparr>)"

definition ff_fully_consumed :: "fanout_fifo \<Rightarrow> bool" where
  "ff_fully_consumed q \<longleftrightarrow> min_values (ff_read_pos q) = ff_write_pos q"

definition ff_recv_exhausted :: "fanout_fifo \<Rightarrow> string \<Rightarrow> bool" where
  "ff_recv_exhausted q p =
     (case dget (ff_termination q) p of
        None \<Rightarrow> False | Some t \<Rightarrow> fst t \<in> {EXHAUST_PEER_RECV, EXHAUST_INPORT})"

definition ff_finish_termination :: "fanout_fifo \<Rightarrow> string \<Rightarrow> fanout_fifo" where
  "ff_finish_termination q p =
     (if ff_recv_exhausted q p \<and> ff_fully_consumed q
      then let q1 = q\<lparr>ff_termination := ddel p (ff_termination q)\<rparr>
           in (case ff_readers q1 of [] \<Rightarrow> q1 | r # _ \<Rightarrow> ff_remove_reader q1 r)
      else q)"

definition ff_set_exhausted_tokens :: "fanout_fifo \<Rightarrow> (string, (int \<times> token) list) dict \<Rightarrow> (int, fanout_fifo) out" where
  "ff_set_exhausted_tokens q tokens =
     (let q1 = q\<lparr>ff_exhausted := dupdate (ff_exhausted q) tokens\<rparr>;
          q2 = fold (\<lambda>p q. ff_confirm_termination q p) (map fst tokens) q1
      in and_then (ff_move_exhausted q2) (\<lambda>_ q3.
           let q4 = fold (\<lambda>p q. ff_finish_termination q p) (map fst tokens) q3
           in (Inr (ff_nbr_peers q4), q4)))"

section \<open>Committing and cancelling a firing\<close>

text \<open>
  After a consumed termination the source indexes \<open>self.readers[0]\<close>; \<open>readers\<close> is a
  set, so this raises TypeError, which the handler logs: no reader is removed here.
\<close>

definition ff_commit :: "fanout_fifo \<Rightarrow> string \<Rightarrow> (bool, fanout_fifo) out" where
  "ff_commit q m =
     (case dlook (ff_tentative q) m of
        Inl e \<Rightarrow> (Inl e, q)
      | Inr tp \<Rightarrow>
          and_then (ff_move_exhausted (q\<lparr>ff_read_pos := dput m tp (ff_read_pos q)\<rparr>)) (\<lambda>_ q1.
            if ff_recv_exhausted q1 m \<and> ff_fully_consumed q1
               \<and> (case dget (ff_termination q1) m of None \<Rightarrow> False | Some t \<Rightarrow> snd t)
            then (Inr True, q1\<lparr>ff_termination := ddel m (ff_termination q1)\<rparr>)
            else (Inr False, q1)))"

definition ff_cancel :: "fanout_fifo \<Rightarrow> string \<Rightarrow> (unit, fanout_fifo) out" where
  "ff_cancel q m =
     (case dlook (ff_read_pos q) m of
        Inl e \<Rightarrow> (Inl e, q)
      | Inr rp \<Rightarrow> (Inr (), q\<lparr>ff_tentative := dput m rp (ff_tentative q)\<rparr>))"

section \<open>Invariant\<close>

text \<open>
  The buffer has its length; the three position dictionaries have exactly the readers as keys;
  every reader's committed position is at most its tentative one, which is at most the write
  position; and no reader is a whole buffer behind, so no unread token is overwritten.
\<close>

definition ff_inv :: "fanout_fifo \<Rightarrow> bool" where
  "ff_inv q \<longleftrightarrow>
     ring_ok (ff_N q) (ff_fifo q) \<and> distinct (ff_readers q) \<and> 0 \<le> ff_write_pos q
     \<and> dict_ok (ff_read_pos q) \<and> dict_ok (ff_tentative q) \<and> dict_ok (ff_offset q)
     \<and> dkeys (ff_read_pos q) = set (ff_readers q)
     \<and> dkeys (ff_tentative q) = set (ff_readers q)
     \<and> dkeys (ff_offset q) = set (ff_readers q)
     \<and> (\<forall>r \<in> set (ff_readers q).
          0 \<le> dval (ff_read_pos q) r
          \<and> dval (ff_read_pos q) r \<le> dval (ff_tentative q) r
          \<and> dval (ff_tentative q) r \<le> ff_write_pos q
          \<and> ff_write_pos q - dval (ff_read_pos q) r < ff_N q)"

definition ff_pending :: "fanout_fifo \<Rightarrow> string \<Rightarrow> token list" where
  "ff_pending q r = ring_slice (ff_N q) (ff_fifo q) (dval (ff_read_pos q) r) (ff_write_pos q)"

definition ff_peeked :: "fanout_fifo \<Rightarrow> string \<Rightarrow> nat" where
  "ff_peeked q r = nat (dval (ff_tentative q) r - dval (ff_read_pos q) r)"

definition ff_base :: "fanout_fifo \<Rightarrow> string \<Rightarrow> int" where
  "ff_base q r = dval (ff_read_pos q) r - dval (ff_offset q) r"

definition ff_reader :: "fanout_fifo \<Rightarrow> string \<Rightarrow> bool" where
  "ff_reader q r \<longleftrightarrow> r \<in> set (ff_readers q)"

lemma ff_inv_look:
  assumes "ff_inv q" "r \<in> set (ff_readers q)"
  shows "dlook (ff_read_pos q) r = Inr (dval (ff_read_pos q) r)"
    and "dlook (ff_tentative q) r = Inr (dval (ff_tentative q) r)"
    and "dlook (ff_offset q) r = Inr (dval (ff_offset q) r)"
  using assms by (simp_all add: ff_inv_def dlook_dval)

lemma ff_inv_pos:
  assumes "ff_inv q" "r \<in> set (ff_readers q)"
  shows "0 \<le> dval (ff_read_pos q) r" "dval (ff_read_pos q) r \<le> dval (ff_tentative q) r"
    "dval (ff_tentative q) r \<le> ff_write_pos q" "ff_write_pos q - dval (ff_read_pos q) r < ff_N q"
  using assms by (auto simp: ff_inv_def)

lemma ff_read_pos_nonempty: "ff_inv q \<Longrightarrow> ff_readers q \<noteq> [] \<Longrightarrow> ff_read_pos q \<noteq> []"
  by (auto simp: ff_inv_def)

lemma ff_min_read:
  assumes "ff_inv q" "ff_readers q \<noteq> []"
  shows "\<exists>r \<in> set (ff_readers q). min_values (ff_read_pos q) = dval (ff_read_pos q) r"
  using assms min_values_dval [OF ff_read_pos_nonempty [OF assms]] by (simp add: ff_inv_def)

text \<open>The guard of \<open>write\<close>: the modulus in the source is the identity on reachable states.\<close>

lemma ff_slots_iff:
  assumes "ff_inv q" "ff_readers q \<noteq> []"
  shows "ff_slots_available q n \<longleftrightarrow>
    (\<forall>r \<in> set (ff_readers q). ff_write_pos q - dval (ff_read_pos q) r + n < ff_N q)"
proof -
  obtain r where r: "r \<in> set (ff_readers q)" "min_values (ff_read_pos q) = dval (ff_read_pos q) r"
    using ff_min_read [OF assms] by blast
  have le: "min_values (ff_read_pos q) \<le> dval (ff_read_pos q) r'" if "r' \<in> set (ff_readers q)" for r'
    using assms(1) that by (simp add: ff_inv_def min_values_dval_le)
  have "(ff_write_pos q - dval (ff_read_pos q) r) mod ff_N q = ff_write_pos q - dval (ff_read_pos q) r"
    using ff_inv_pos [OF assms(1) r(1)] by (intro mod_pos_pos_trivial) auto
  then have "ff_slots_available q n \<longleftrightarrow> ff_write_pos q - dval (ff_read_pos q) r + n < ff_N q"
    by (auto simp: ff_slots_available_def Let_def r(2))
  with r le show ?thesis by force
qed

lemma ff_slots_room:
  assumes "ff_inv q" "ff_slots_available q 1" "r \<in> set (ff_readers q)"
  shows "ff_write_pos q - dval (ff_read_pos q) r + 1 < ff_N q"
  using assms ff_slots_iff [of q 1] by (cases "ff_readers q") auto

section \<open>Writing\<close>

definition ff_pushed :: "fanout_fifo \<Rightarrow> token \<Rightarrow> fanout_fifo" where
  "ff_pushed q d = q\<lparr>ff_fifo := ring_put (ff_N q) (ff_fifo q) (ff_write_pos q) d,
                     ff_write_pos := ff_write_pos q + 1\<rparr>"

lemma ff_write_eq:
  "ff_write q d = (if ff_slots_available q 1 then (Inr True, ff_pushed q d) else (Inl QueueFull, q))"
  by (simp add: ff_write_def ff_pushed_def)

lemma ff_pushed_inv: "ff_inv q \<Longrightarrow> ff_slots_available q 1 \<Longrightarrow> ff_inv (ff_pushed q d)"
  using ff_slots_room [of q] unfolding ff_inv_def ff_pushed_def by force

lemma ff_pushed_fields [simp]:
  "ff_readers (ff_pushed q d) = ff_readers q" "ff_write_pos (ff_pushed q d) = ff_write_pos q + 1"
  "ff_read_pos (ff_pushed q d) = ff_read_pos q" "ff_N (ff_pushed q d) = ff_N q"
  "ff_tentative (ff_pushed q d) = ff_tentative q" "ff_offset (ff_pushed q d) = ff_offset q"
  "ff_termination (ff_pushed q d) = ff_termination q" "ff_exhausted (ff_pushed q d) = ff_exhausted q"
  "ff_nbr_peers (ff_pushed q d) = ff_nbr_peers q"
  by (simp_all add: ff_pushed_def)

lemma ff_pushed_pending:
  assumes "ff_inv q" "ff_slots_available q 1" "r \<in> set (ff_readers q)"
  shows "ff_pending (ff_pushed q d) r = ff_pending q r @ [d]"
proof -
  have "ring_slice (ff_N q) (ring_put (ff_N q) (ff_fifo q) (ff_write_pos q) d)
      (dval (ff_read_pos q) r) (ff_write_pos q + 1)
    = ring_slice (ff_N q) (ff_fifo q) (dval (ff_read_pos q) r) (ff_write_pos q) @ [d]"
    by (rule ring_slice_put) (use ff_inv_pos [OF assms(1,3)] assms(1) in \<open>auto simp: ff_inv_def\<close>)
  then show ?thesis by (simp add: ff_pending_def ff_pushed_def)
qed

lemma ff_com_write_cases:
  "ff_com_write q d n =
    (if n = ff_write_pos q
     then if ff_slots_available q 1 then (Inr Handled, ff_pushed q d) else (Inl QueueFull, q)
     else if n < ff_write_pos q then (Inr Unhandled, q) else (Inr Invalid, q))"
  by (simp add: ff_com_write_def ff_write_eq)

section \<open>The contracts\<close>

lemma ff_length_pending: "ff_inv q \<Longrightarrow> r \<in> set (ff_readers q) \<Longrightarrow>
    length (ff_pending q r) = nat (ff_write_pos q - dval (ff_read_pos q) r)"
  by (simp add: ff_pending_def)

lemma ff_readers_nonempty: "r \<in> set (ff_readers q) \<Longrightarrow> ff_readers q \<noteq> []"
  by auto

lemma ff_peek_cases:
  assumes "ff_inv q" "r \<in> set (ff_readers q)"
  shows "ff_peek q r =
    (if dval (ff_tentative q) r < ff_write_pos q
     then (Inr (ring_get (ff_N q) (ff_fifo q) (dval (ff_tentative q) r)),
           q\<lparr>ff_tentative := dput r (dval (ff_tentative q) r + 1) (ff_tentative q)\<rparr>)
     else (Inl (QueueEmpty r), q))"
  using assms(2) by (auto simp: ff_peek_def ff_tokens_available_def ff_inv_look [OF assms])

lemma ff_set_tentative_inv:
  assumes "ff_inv q" "r \<in> set (ff_readers q)" "dval (ff_read_pos q) r \<le> p" "p \<le> ff_write_pos q"
  shows "ff_inv (q\<lparr>ff_tentative := dput r p (ff_tentative q)\<rparr>)"
  using assms by (auto simp: ff_inv_def)

lemma ff_set_read_inv:
  assumes "ff_inv q" "r \<in> set (ff_readers q)" "dval (ff_read_pos q) r \<le> p" "p \<le> dval (ff_tentative q) r"
  shows "ff_inv (q\<lparr>ff_read_pos := dput r p (ff_read_pos q)\<rparr>)"
  using assms unfolding ff_inv_def by auto

lemma ff_com_peek_cases:
  assumes "ff_inv q" "r \<in> set (ff_readers q)"
  shows "ff_com_peek q r =
    (if dval (ff_tentative q) r < ff_write_pos q
     then (Inr (dval (ff_tentative q) r - dval (ff_offset q) r,
                ring_get (ff_N q) (ff_fifo q) (dval (ff_tentative q) r)),
           q\<lparr>ff_tentative := dput r (dval (ff_tentative q) r + 1) (ff_tentative q)\<rparr>)
     else (Inl (QueueEmpty r), q))"
  by (simp add: ff_com_peek_def ff_peek_cases [OF assms] ff_inv_look [OF assms])

lemma ff_com_commit_cases:
  assumes "ff_inv q" "r \<in> set (ff_readers q)"
  shows "ff_com_commit q r n =
    (let n' = n + dval (ff_offset q) r; tp = dval (ff_tentative q) r; rp = dval (ff_read_pos q) r
     in if n' \<ge> tp then (Inr (Some Invalid), q)
        else if rp < tp
             then if n' = rp
                  then (Inr (Some Handled), q\<lparr>ff_read_pos := dput r (rp + 1) (ff_read_pos q)\<rparr>)
                  else (Inr (Some Unhandled), q)
             else (Inr None, q))"
  by (simp add: ff_com_commit_def ff_inv_look [OF assms] Let_def)

lemma ff_com_cancel_cases:
  assumes "ff_inv q" "r \<in> set (ff_readers q)"
  shows "ff_com_cancel q r n =
    (if n + dval (ff_offset q) r \<ge> dval (ff_tentative q) r
     then (Inl (AttributeError ''reader_pos''), q)
     else (Inr Handled, q\<lparr>ff_tentative := dput r (n + dval (ff_offset q) r) (ff_tentative q)\<rparr>))"
  by (simp add: ff_com_cancel_def ff_inv_look [OF assms] Let_def)

lemma ff_peeked_less:
  assumes "ff_inv q" "r \<in> set (ff_readers q)"
  shows "ff_peeked q r < length (ff_pending q r) \<longleftrightarrow> dval (ff_tentative q) r < ff_write_pos q"
  using ff_inv_pos [OF assms] by (auto simp: ff_peeked_def ff_pending_def)

lemma ff_pending_nth:
  assumes "ff_inv q" "r \<in> set (ff_readers q)" "dval (ff_tentative q) r < ff_write_pos q"
  shows "ff_pending q r ! ff_peeked q r = ring_get (ff_N q) (ff_fifo q) (dval (ff_tentative q) r)"
  using ff_inv_pos [OF assms(1,2)] assms(3) by (simp add: ff_pending_def ff_peeked_def ring_slice_nth)

lemmas ff_views = ff_pending_def ff_peeked_def ff_base_def ff_reader_def

interpretation ffs: com_source ff_inv ff_reader ff_pending ff_peeked ff_base
    ff_com_peek ff_com_commit ff_com_cancel
proof unfold_locales
  fix q r n and i :: nat
  assume inv: "ff_inv q" and rd: "ff_reader q r"
  have r: "r \<in> set (ff_readers q)" using rd by (simp add: ff_reader_def)
  note pos = ff_inv_pos [OF inv r]
  show "ff_peeked q r \<le> length (ff_pending q r)"
    using pos by (simp add: ff_peeked_def ff_pending_def)
  show "ff_com_peek q r = (Inl (QueueEmpty r), q)" if "ff_peeked q r = length (ff_pending q r)"
    using that ff_peeked_less [OF inv r] by (simp add: ff_com_peek_cases [OF inv r])
  show "\<exists>q'. ff_com_peek q r = (Inr (ff_base q r + int (ff_peeked q r), ff_pending q r ! ff_peeked q r), q')
      \<and> ff_inv q' \<and> ff_reader q' r \<and> ff_pending q' r = ff_pending q r
      \<and> ff_peeked q' r = Suc (ff_peeked q r) \<and> ff_base q' r = ff_base q r"
    if less: "ff_peeked q r < length (ff_pending q r)"
  proof -
    have tp: "dval (ff_tentative q) r < ff_write_pos q"
      using less ff_peeked_less [OF inv r] by simp
    let ?q = "q\<lparr>ff_tentative := dput r (dval (ff_tentative q) r + 1) (ff_tentative q)\<rparr>"
    have "ff_inv ?q" by (rule ff_set_tentative_inv [OF inv r]) (use pos tp in auto)
    moreover have "ff_base q r + int (ff_peeked q r) = dval (ff_tentative q) r - dval (ff_offset q) r"
      using pos by (simp add: ff_base_def ff_peeked_def)
    ultimately show ?thesis
      using tp r pos by (simp add: ff_com_peek_cases [OF inv r] ff_pending_nth [OF inv r tp])
        (simp add: ff_views nat_diff_distrib' Suc_nat_eq_nat_zadd1)
  qed
  show "\<exists>q'. ff_com_commit q r (ff_base q r) = (Inr (Some Handled), q')
      \<and> ff_inv q' \<and> ff_reader q' r \<and> ff_pending q' r = tl (ff_pending q r)
      \<and> ff_peeked q' r = ff_peeked q r - 1 \<and> ff_base q' r = ff_base q r + 1"
    if "0 < ff_peeked q r"
  proof -
    have lt: "dval (ff_read_pos q) r < dval (ff_tentative q) r"
      using that by (simp add: ff_peeked_def)
    let ?q = "q\<lparr>ff_read_pos := dput r (dval (ff_read_pos q) r + 1) (ff_read_pos q)\<rparr>"
    have "ff_inv ?q" by (rule ff_set_read_inv [OF inv r]) (use lt in auto)
    then show ?thesis
      using lt r pos by (simp add: ff_com_commit_cases [OF inv r] Let_def)
        (auto simp: ff_views ring_slice_tl)
  qed
  show "ff_com_commit q r n = (Inr (Some Unhandled), q)"
    if "ff_base q r < n" "n < ff_base q r + int (ff_peeked q r)"
    using that pos by (simp add: ff_com_commit_cases [OF inv r] Let_def ff_views)
  show "ff_com_commit q r n = (Inr (Some Invalid), q)" if "ff_base q r + int (ff_peeked q r) \<le> n"
    using that pos by (simp add: ff_com_commit_cases [OF inv r] Let_def ff_views)
  show "ff_com_commit q r n = (Inr (if ff_peeked q r = 0 then None else Some Unhandled), q)"
    if "n < ff_base q r"
    using that pos by (simp add: ff_com_commit_cases [OF inv r] Let_def ff_views)
  show "\<exists>q'. ff_com_cancel q r (ff_base q r + int i) = (Inr Handled, q')
      \<and> ff_inv q' \<and> ff_reader q' r \<and> ff_pending q' r = ff_pending q r
      \<and> ff_peeked q' r = i \<and> ff_base q' r = ff_base q r" if "i < ff_peeked q r"
  proof -
    have i: "dval (ff_read_pos q) r + int i < dval (ff_tentative q) r"
      using that by (simp add: ff_peeked_def)
    let ?q = "q\<lparr>ff_tentative := dput r (dval (ff_read_pos q) r + int i) (ff_tentative q)\<rparr>"
    have "ff_inv ?q" by (rule ff_set_tentative_inv [OF inv r]) (use pos i in auto)
    then show ?thesis
      using i r pos by (simp add: ff_com_cancel_cases [OF inv r] ff_views)
  qed
  show "ff_com_cancel q r n = (Inl (AttributeError ''reader_pos''), q)"
    if "ff_base q r + int (ff_peeked q r) \<le> n"
    using that pos by (simp add: ff_com_cancel_cases [OF inv r] ff_views)
qed

text \<open>On an inport the queue has a single reader, the port, whose pending tokens are those held.\<close>

definition ff_held :: "fanout_fifo \<Rightarrow> string \<Rightarrow> token list" where
  "ff_held q w = ff_pending q (hd (ff_readers q))"

definition ff_inport :: "fanout_fifo \<Rightarrow> string \<Rightarrow> bool" where
  "ff_inport q w \<longleftrightarrow> length (ff_readers q) = 1"

lemma ff_inport_reader: "ff_inport q w \<Longrightarrow> hd (ff_readers q) \<in> set (ff_readers q)"
  by (cases "ff_readers q") (auto simp: ff_inport_def)

interpretation ffk: com_sink ff_inv ff_inport ff_held "\<lambda>q w. ff_write_pos q"
    "\<lambda>q w. ff_slots_available q 1" "\<lambda>q t w n. ff_com_write q t n"
  by unfold_locales
    (auto simp: ff_com_write_cases ff_pushed_inv ff_held_def ff_pushed_pending ff_inport_reader,
     simp add: ff_inport_def)

interpretation ffa: action_source ff_inv ff_reader
    "\<lambda>q n m. (ff_tokens_available q n m, q)" ff_peek ff_cancel
proof unfold_locales
  fix q m n
  assume inv: "ff_inv q" and rd: "ff_reader q m"
  have m: "m \<in> set (ff_readers q)" using rd by (simp add: ff_reader_def)
  have av: "ff_tokens_available q n m = Inr (ff_write_pos q - dval (ff_tentative q) m \<ge> n)" for n
    using m by (auto simp: ff_tokens_available_def ff_inv_look [OF inv m])
  note pos = ff_inv_pos [OF inv m]
  show "\<exists>b. (ff_tokens_available q n m, q) = (Inr b, q)"
    by (simp add: av)
  show "\<exists>t q'. ff_peek q m = (Inr t, q') \<and> ff_inv q' \<and> ff_reader q' m"
    if "(ff_tokens_available q 1 m, q) = (Inr True, q)"
    using that m pos by (simp add: av ff_peek_cases [OF inv m] ff_set_tentative_inv [OF inv m] ff_reader_def)
  show "fst (ff_peek q m) = Inl (QueueEmpty m)"
    if "(ff_tokens_available q 1 m, q) = (Inr False, q)"
    using that by (simp add: av ff_peek_cases [OF inv m])
  show "\<exists>q'. ff_cancel q m = (Inr (), q') \<and> ff_inv q' \<and> ff_reader q' m"
    using m pos by (simp add: ff_cancel_def ff_inv_look [OF inv m] ff_set_tentative_inv [OF inv m] ff_reader_def)
qed

interpretation ffw: action_sink ff_inv "\<lambda>q t. True" "\<lambda>q n m. (Inr (ff_slots_available q n), q)"
    "\<lambda>q t m. ff_write q t"
  by unfold_locales (auto simp: ff_write_eq ff_pushed_inv)

section \<open>Readers come and go\<close>

lemma ff_remove_reader_inv: "ff_inv q \<Longrightarrow> ff_inv (ff_remove_reader q r)"
  by (auto simp: ff_inv_def ff_remove_reader_def distinct_removeAll)

lemma ff_start_reader_inv:
  assumes "ff_inv q" "r \<notin> set (ff_readers q)" "0 \<le> p" "p \<le> ff_write_pos q" "ff_write_pos q - p < ff_N q"
  shows "ff_inv (ff_start_reader (q\<lparr>ff_readers := ff_readers q @ [r], ff_nbr_peers := n\<rparr>) r p)"
  using assms by (auto simp: ff_inv_def ff_start_reader_def)

text \<open>
  A reader beyond the announced number of peers starts at the oldest position any reader still
  needs; an announced one starts at 0, which is sound only while nothing has been overwritten.
\<close>

lemma ff_add_reader_inv:
  assumes inv: "ff_inv q" and new: "r \<notin> set (ff_readers q)"
    and early: "int (length (ff_readers q)) < ff_nbr_peers q \<Longrightarrow> ff_write_pos q < ff_N q"
    and some: "int (length (ff_readers q)) < ff_nbr_peers q \<or> ff_readers q \<noteq> []"
  shows "\<exists>q'. ff_add_reader q r = (Inr (), q') \<and> ff_inv q' \<and> ff_readers q' = ff_readers q @ [r]"
proof (cases "int (length (ff_readers q)) < ff_nbr_peers q")
  case True
  let ?q = "ff_start_reader (q\<lparr>ff_readers := ff_readers q @ [r], ff_nbr_peers := ff_nbr_peers q\<rparr>) r 0"
  have "ff_inv ?q"
    by (rule ff_start_reader_inv) (use inv new early [OF True] in \<open>auto simp: ff_inv_def\<close>)
  moreover have "ff_add_reader q r = (Inr (), ?q)"
    using True new by (simp add: ff_add_reader_def Let_def)
  ultimately show ?thesis by (auto simp: ff_start_reader_def)
next
  case False
  then have ne: "ff_readers q \<noteq> []" using some by blast
  obtain b where b: "b \<in> set (ff_readers q)" "min_values (ff_read_pos q) = dval (ff_read_pos q) b"
    using ff_min_read [OF inv ne] by blast
  note pos = ff_inv_pos [OF inv b(1)]
  let ?n = "int (Suc (length (ff_readers q)))"
  let ?q = "ff_start_reader (q\<lparr>ff_readers := ff_readers q @ [r], ff_nbr_peers := ?n\<rparr>) r
              (min_values (ff_read_pos q))"
  have "ff_inv ?q" by (rule ff_start_reader_inv) (use inv new pos b in auto)
  moreover have "ff_add_reader q r = (Inr (), ?q)"
    using False new ff_read_pos_nonempty [OF inv ne] by (simp add: ff_add_reader_def Let_def)
  ultimately show ?thesis by (auto simp: ff_start_reader_def)
qed

section \<open>Moving exhausted tokens\<close>

definition ff_frame :: "fanout_fifo \<Rightarrow> fanout_fifo \<Rightarrow> bool" where
  "ff_frame q q' \<longleftrightarrow> q' = q\<lparr>ff_fifo := ff_fifo q', ff_write_pos := ff_write_pos q'\<rparr>"

lemma ff_frame_fields:
  assumes "ff_frame q q'"
  shows "ff_readers q' = ff_readers q" "ff_read_pos q' = ff_read_pos q" "ff_tentative q' = ff_tentative q"
    "ff_offset q' = ff_offset q" "ff_termination q' = ff_termination q" "ff_exhausted q' = ff_exhausted q"
    "ff_nbr_peers q' = ff_nbr_peers q" "ff_N q' = ff_N q"
  using arg_cong [OF assms [unfolded ff_frame_def], of ff_readers]
    arg_cong [OF assms [unfolded ff_frame_def], of ff_read_pos]
    arg_cong [OF assms [unfolded ff_frame_def], of ff_tentative]
    arg_cong [OF assms [unfolded ff_frame_def], of ff_offset]
    arg_cong [OF assms [unfolded ff_frame_def], of ff_termination]
    arg_cong [OF assms [unfolded ff_frame_def], of ff_exhausted]
    arg_cong [OF assms [unfolded ff_frame_def], of ff_nbr_peers]
    arg_cong [OF assms [unfolded ff_frame_def], of ff_N]
  by simp_all

lemma ff_frame_refl [simp]: "ff_frame q q"
  by (simp add: ff_frame_def)

lemma ff_frame_trans: "ff_frame q q1 \<Longrightarrow> ff_frame q1 q2 \<Longrightarrow> ff_frame q q2"
  unfolding ff_frame_def
  by (metis (no_types, lifting) fanout_fifo.surjective fanout_fifo.update_convs(1,6))

lemma ff_frame_pushed [simp]: "ff_frame q (ff_pushed q d)"
  by (simp add: ff_frame_def ff_pushed_def)

lemma ff_transfer_inv:
  "ff_inv q \<Longrightarrow> \<exists>rest q'. ff_transfer q ts = (Inr rest, q') \<and> ff_inv q' \<and> ff_frame q q'"
proof (induction q ts rule: ff_transfer.induct)
  case (2 q pos t ts)
  show ?case
  proof (cases "ff_slots_available q 1")
    case True
    have "\<exists>c q1. ff_com_write q t pos = (Inr c, q1) \<and> ff_inv q1 \<and> ff_frame q q1"
      using True "2.prems" by (simp add: ff_com_write_cases ff_pushed_inv)
    then obtain c q1 where c: "ff_com_write q t pos = (Inr c, q1)" "ff_inv q1" "ff_frame q q1"
      by blast
    with "2.IH" [of q1] True show ?thesis
      by (fastforce intro: ff_frame_trans)
  qed (use "2.prems" in auto)
qed auto

lemma ff_transfer_all_inv:
  "ff_inv q \<Longrightarrow> \<exists>rest q'. ff_transfer_all q ps = (Inr rest, q') \<and> ff_inv q' \<and> ff_frame q q'"
proof (induction ps arbitrary: q)
  case (Cons p ps)
  obtain k ts where p: "p = (k, ts)" by (cases p)
  obtain rest q1 where 1: "ff_transfer q ts = (Inr rest, q1)" "ff_inv q1" "ff_frame q q1"
    using ff_transfer_inv [OF Cons.prems] by blast
  obtain others q2 where 2: "ff_transfer_all q1 ps = (Inr others, q2)" "ff_inv q2" "ff_frame q1 q2"
    using Cons.IH [OF 1(2)] by blast
  show ?case using 1 2 ff_frame_trans by (auto simp: p)
qed simp

lemma ff_exhausted_upd_inv [simp]: "ff_inv (q\<lparr>ff_exhausted := x\<rparr>) = ff_inv q"
  by (simp add: ff_inv_def)

lemma ff_termination_upd_inv [simp]: "ff_inv (q\<lparr>ff_termination := x\<rparr>) = ff_inv q"
  by (simp add: ff_inv_def)

lemma ff_move_exhausted_inv:
  assumes "ff_inv q"
  shows "\<exists>q'. ff_move_exhausted q = (Inr (), q') \<and> ff_inv q' \<and> ff_readers q' = ff_readers q
    \<and> ff_termination q' = ff_termination q"
  using ff_transfer_all_inv [OF assms, of "ff_exhausted q"] ff_frame_fields
  by (auto simp: ff_move_exhausted_def)

lemma ff_commit_inv:
  assumes "ff_inv q" "r \<in> set (ff_readers q)"
  shows "\<exists>b q'. ff_commit q r = (Inr b, q') \<and> ff_inv q' \<and> ff_readers q' = ff_readers q"
proof -
  let ?q = "q\<lparr>ff_read_pos := dput r (dval (ff_tentative q) r) (ff_read_pos q)\<rparr>"
  have "ff_inv ?q"
    by (rule ff_set_read_inv [OF assms]) (use ff_inv_pos [OF assms] in auto)
  from ff_move_exhausted_inv [OF this] obtain q1 where
    "ff_move_exhausted ?q = (Inr (), q1)" "ff_inv q1" "ff_readers q1 = ff_readers q" by auto
  then show ?thesis by (auto simp: ff_commit_def ff_inv_look [OF assms])
qed

lemma ff_commit_plain:
  assumes "ff_inv q" "r \<in> set (ff_readers q)" "ff_exhausted q = []" "ff_termination q = []"
  shows "ff_commit q r =
    (Inr False, q\<lparr>ff_read_pos := dput r (dval (ff_tentative q) r) (ff_read_pos q), ff_exhausted := []\<rparr>)"
  using assms(3,4)
  by (simp add: ff_commit_def ff_inv_look [OF assms(1,2)] ff_move_exhausted_def ff_recv_exhausted_def)

lemma ff_confirm_inv [simp]: "ff_inv (ff_confirm_termination q p) = ff_inv q"
  by (simp add: ff_confirm_termination_def split: option.splits)

lemma ff_finish_inv: "ff_inv q \<Longrightarrow> ff_inv (ff_finish_termination q p)"
  by (auto simp: ff_finish_termination_def Let_def intro!: ff_remove_reader_inv split: list.splits)

lemma ff_set_exhausted_inv:
  assumes "ff_inv q"
  shows "\<exists>n q'. ff_set_exhausted_tokens q tokens = (Inr n, q') \<and> ff_inv q'"
proof -
  let ?q1 = "q\<lparr>ff_exhausted := dupdate (ff_exhausted q) tokens\<rparr>"
  have confirm: "ff_inv (fold (\<lambda>p q. ff_confirm_termination q p) ps x) = ff_inv x" for ps x
    by (induction ps arbitrary: x) simp_all
  have finish: "ff_inv x \<Longrightarrow> ff_inv (fold (\<lambda>p q. ff_finish_termination q p) ps x)" for ps x
    by (induction ps arbitrary: x) (simp_all add: ff_finish_inv)
  have "ff_inv (fold (\<lambda>p q. ff_confirm_termination q p) (map fst tokens) ?q1)"
    using assms by (simp add: confirm)
  from ff_move_exhausted_inv [OF this] show ?thesis
    by (auto simp: ff_set_exhausted_tokens_def Let_def finish)
qed

text \<open>
  Tokens whose positions continue the write position are appended in order until the queue is
  full; tokens at other positions are dropped.
\<close>

lemma ff_transfer_seq:
  "ff_inv q \<Longrightarrow> map fst ts = [ff_write_pos q..ff_write_pos q + int (length ts) - 1] \<Longrightarrow>
   \<exists>k q'. ff_transfer q ts = (Inr (drop k ts), q') \<and> k \<le> length ts \<and> ff_inv q' \<and> ff_frame q q'
     \<and> ff_write_pos q' = ff_write_pos q + int k
     \<and> (\<forall>r \<in> set (ff_readers q). ff_pending q' r = ff_pending q r @ map snd (take k ts))
     \<and> (k < length ts \<longrightarrow> \<not> ff_slots_available q' 1)"
proof (induction q ts rule: ff_transfer.induct)
  case (2 q pos t ts)
  have pos: "pos = ff_write_pos q" and rest: "map fst ts = [ff_write_pos q + 1..ff_write_pos q + int (length ts)]"
    using "2.prems"(2) by (simp_all add: upto_rec1)
  show ?case
  proof (cases "ff_slots_available q 1")
    case True
    let ?q = "ff_pushed q t"
    have inv: "ff_inv ?q" using "2.prems"(1) True by (rule ff_pushed_inv)
    have cw: "ff_com_write q t pos = (Inr Handled, ?q)"
      using True pos by (simp add: ff_com_write_cases)
    obtain k q' where k: "ff_transfer ?q ts = (Inr (drop k ts), q')" "k \<le> length ts" "ff_inv q'"
      "ff_frame ?q q'" "ff_write_pos q' = ff_write_pos ?q + int k"
      "\<forall>r \<in> set (ff_readers ?q). ff_pending q' r = ff_pending ?q r @ map snd (take k ts)"
      "k < length ts \<longrightarrow> \<not> ff_slots_available q' 1"
      using "2.IH" [of ?q] True inv rest by (auto simp: cw)
    have "ff_frame q q'" using ff_frame_trans [OF ff_frame_pushed k(4)] .
    with k True "2.prems"(1) show ?thesis
      by (intro exI [of _ "Suc k"] exI [of _ q']) (simp add: cw ff_pushed_pending)
  next
    case False
    with "2.prems"(1) show ?thesis by (intro exI [of _ 0] exI [of _ q]) simp
  qed
qed simp

lemma ff_transfer_dropped:
  "ff_slots_available q 1 \<Longrightarrow> \<forall>(p, t) \<in> set ts. p \<noteq> ff_write_pos q \<Longrightarrow> ff_transfer q ts = (Inr [], q)"
  by (induction q ts rule: ff_transfer.induct) (auto simp: ff_com_write_cases)

lemma ff_exhaust_tokens:
  assumes "ff_inv q" "r \<in> set (ff_readers q)" "d \<in> {EXHAUST_PEER_SEND, EXHAUST_OUTPORT}"
  shows "\<exists>ts q'. ff_exhaust q r d = (Inr ts, q') \<and> ff_inv q' \<and> map snd ts = ff_pending q r
    \<and> map fst ts = [dval (ff_read_pos q) r..dval (ff_read_pos q) r + int (length ts) - 1]
    \<and> r \<notin> set (ff_readers q')"
proof -
  let ?rp = "dval (ff_read_pos q) r"
  let ?ts = "map (\<lambda>k. (k, ring_get (ff_N q) (ff_fifo q) k)) [?rp..ff_write_pos q - 1]"
  have ex: "\<exists>q'. ff_exhaust q r d = (Inr ?ts, q') \<and> ff_inv q' \<and> r \<notin> set (ff_readers q')"
    using assms ff_remove_reader_inv [OF assms(1), of r]
    by (auto simp: ff_exhaust_def Let_def ff_inv_look [OF assms(1,2)] ff_remove_reader_def)
  have "map snd ?ts = ff_pending q r"
    by (simp add: ff_pending_def ring_slice_def o_def)
  moreover have "map fst ?ts = [?rp..?rp + int (length ?ts) - 1]"
    using ff_inv_pos [OF assms(1,2)] by (simp add: o_def)
  ultimately show ?thesis using ex by blast
qed

end
