(* ===== verification/Fanout_Dispatch.thy ===== *)
theory Fanout_Dispatch
  imports Fanout_FIFO
begin

text \<open>
  The dispatching outport queues: \<open>FanoutBase\<close> (plugins/port/queue/fanout_base.py) with one
  ring buffer per reader, and its subclasses \<open>FanoutOrderedFIFO\<close>,
  \<open>FanoutRoundRobinFIFO\<close>, \<open>FanoutRandomFIFO\<close>, \<open>FanoutBalancedFIFO\<close> and
  \<open>FanoutMappedFIFO\<close>, each of which sends a token to one reader.  The class of the object is
  the field \<open>fd_kind\<close>; a method a subclass overrides is a case distinction on it.
\<close>

section \<open>State\<close>

datatype dispatch_kind = OrderedK | RoundRobinK | RandomK | BalancedK | MappedK

text \<open>
  \<open>fd_reader_turn\<close> is None where the source has None or no such attribute, \<open>fd_mapping\<close> is
  None until \<open>set_config\<close> has set the attribute.  \<open>fd_rnd\<close> and \<open>fd_draws\<close> stand
  for the random module: draw number \<open>i\<close> of \<open>randrange(n)\<close> is \<open>fd_rnd i mod n\<close>,
  for an arbitrary function.
\<close>

record fanout_disp =
  fd_kind :: dispatch_kind
  fd_fifo :: "(string, token list) dict"
  fd_nbr_peers :: int
  fd_N :: int
  fd_readers :: "string list"
  fd_write_pos :: "(string, int) dict"
  fd_read_pos :: "(string, int) dict"
  fd_tentative :: "(string, int) dict"
  fd_type :: "string option"
  fd_reader_turn :: "int list option"
  fd_turn_pos :: int
  fd_is_ordered :: bool
  fd_mapping :: "(pyval, string) dict option"
  fd_rnd :: "nat \<Rightarrow> nat"
  fd_draws :: nat

fun kind_type :: "dispatch_kind \<Rightarrow> string" where
  "kind_type OrderedK = ''dispatch:ordered''"
| "kind_type RoundRobinK = ''dispatch:round-robin''"
| "kind_type RandomK = ''dispatch:random''"
| "kind_type BalancedK = ''dispatch:balanced''"
| "kind_type MappedK = ''dispatch:mapped''"

definition randrange :: "fanout_disp \<Rightarrow> int \<Rightarrow> (int, fanout_disp) out" where
  "randrange q n =
     (if n \<le> 0 then (Inl ValueError, q)
      else (Inr (int (fd_rnd q (fd_draws q)) mod n), q\<lparr>fd_draws := Suc (fd_draws q)\<rparr>))"

fun randranges :: "nat \<Rightarrow> fanout_disp \<Rightarrow> int \<Rightarrow> (int list, fanout_disp) out" where
  "randranges 0 q n = (Inr [], q)"
| "randranges (Suc k) q n =
     and_then (randrange q n) (\<lambda>x q1. and_then (randranges k q1 n) (\<lambda>xs q2. (Inr (x # xs), q2)))"

text \<open>\<open>[p for n in range(self.N) for p in range(self.nbr_peers)]\<close>.\<close>

definition alternating :: "int \<Rightarrow> int \<Rightarrow> int list" where
  "alternating N k = concat (replicate (nat N) [0..k - 1])"

definition fd_set_turn :: "fanout_disp \<Rightarrow> (unit, fanout_disp) out" where
  "fd_set_turn q =
     (if fd_reader_turn q \<noteq> None then (Inr (), q)
      else case fd_kind q of
        OrderedK \<Rightarrow> (Inr (), q\<lparr>fd_reader_turn := Some (take (nat (fd_N q)) (alternating (fd_N q) (fd_nbr_peers q)))\<rparr>)
      | RoundRobinK \<Rightarrow> (Inr (), q\<lparr>fd_reader_turn := Some (take (nat (fd_N q)) (alternating (fd_N q) (fd_nbr_peers q)))\<rparr>)
      | RandomK \<Rightarrow> and_then (randranges (nat (fd_N q)) q (fd_nbr_peers q))
                    (\<lambda>xs q1. (Inr (), q1\<lparr>fd_reader_turn := Some xs\<rparr>))
      | BalancedK \<Rightarrow> (Inr (), q)
      | MappedK \<Rightarrow> (Inr (), q))"

definition fd_init :: "dispatch_kind \<Rightarrow> (nat \<Rightarrow> nat) \<Rightarrow> port_props \<Rightarrow> (unit, fanout_disp) out" where
  "fd_init k rnd pp =
     fd_set_turn
       \<lparr>fd_kind = k, fd_fifo = [], fd_nbr_peers = opt_default 1 (pp_nbr_peers pp),
        fd_N = opt_default 4 (pp_queue_length pp) + 1, fd_readers = [],
        fd_write_pos = [], fd_read_pos = [], fd_tentative = [],
        fd_type = Some (kind_type k), fd_reader_turn = None, fd_turn_pos = 0, fd_is_ordered = False,
        fd_mapping = None, fd_rnd = rnd, fd_draws = 0\<rparr>"

section \<open>Turns\<close>

text \<open>
  \<open>_ordered\<close> and \<open>_round_robin\<close> have the same body; \<open>_random\<close> replaces the used
  entry by a fresh draw.  The balanced queue never calls its \<open>_update_turn\<close>.
\<close>

definition fd_turn_entry :: "fanout_disp \<Rightarrow> int \<Rightarrow> int res" where
  "fd_turn_entry q i =
     (case fd_reader_turn q of None \<Rightarrow> Inl TypeError | Some rt \<Rightarrow> py_index rt (i mod fd_N q))"

definition fd_put_turn :: "fanout_disp \<Rightarrow> int \<Rightarrow> fanout_disp" where
  "fd_put_turn q x =
     q\<lparr>fd_reader_turn := map_option (\<lambda>rt. rt[nat (fd_turn_pos q mod fd_N q) := x]) (fd_reader_turn q),
       fd_turn_pos := fd_turn_pos q + 1\<rparr>"

definition fd_update_turn :: "fanout_disp \<Rightarrow> (int, fanout_disp) out" where
  "fd_update_turn q =
     (case fd_turn_entry q (fd_turn_pos q) of
        Inl e \<Rightarrow> (Inl e, q)
      | Inr reader \<Rightarrow>
          (case fd_kind q of
             RandomK \<Rightarrow>
               and_then (randrange q (fd_nbr_peers q)) (\<lambda>x q1. (Inr reader, fd_put_turn q1 x))
           | _ \<Rightarrow>
               (case fd_turn_entry q (fd_turn_pos q - 1) of
                  Inl e \<Rightarrow> (Inl e, q)
                | Inr prev \<Rightarrow>
                    if fd_nbr_peers q = 0 then (Inl ZeroDivisionError, q)
                    else (Inr reader, fd_put_turn q ((prev + 1) mod fd_nbr_peers q)))))"

text \<open>
  \<open>_reset_turn\<close>: round-robin and random catch the failure and leave an empty schedule, the
  ordered queue does not.
\<close>

definition fd_reset_turn :: "fanout_disp \<Rightarrow> (unit, fanout_disp) out" where
  "fd_reset_turn q =
     (case fd_kind q of
        RandomK \<Rightarrow>
          (case randranges (nat (fd_N q)) q (fd_nbr_peers q) of
             (Inl e, q1) \<Rightarrow> (Inr (), q1\<lparr>fd_reader_turn := Some [], fd_turn_pos := 0\<rparr>)
           | (Inr xs, q1) \<Rightarrow> (Inr (), q1\<lparr>fd_reader_turn := Some xs, fd_turn_pos := 0\<rparr>))
      | BalancedK \<Rightarrow> (Inr (), q)
      | MappedK \<Rightarrow> (Inr (), q)
      | k \<Rightarrow>
          (case fd_turn_entry q (fd_turn_pos q) of
             Inl e \<Rightarrow> if k = OrderedK then (Inl e, q)
                      else (Inr (), q\<lparr>fd_reader_turn := Some [], fd_turn_pos := 0\<rparr>)
           | Inr pos \<Rightarrow>
               (Inr (), q\<lparr>fd_reader_turn :=
                  Some (take (nat (fd_N q)) (drop (nat pos) (alternating (fd_N q) (fd_nbr_peers q)))),
                  fd_turn_pos := 0\<rparr>)))"

section \<open>Readers and configuration\<close>

definition fd_base_add_reader :: "fanout_disp \<Rightarrow> string \<Rightarrow> fanout_disp" where
  "fd_base_add_reader q r =
     (let q1 = (if r \<in> set (fd_readers q) then q
                else q\<lparr>fd_read_pos := dput r 0 (fd_read_pos q), fd_write_pos := dput r 0 (fd_write_pos q),
                       fd_tentative := dput r 0 (fd_tentative q),
                       fd_fifo := (if r \<in> dkeys (fd_fifo q) then fd_fifo q
                                   else dput r (replicate (nat (fd_N q)) (Token (PInt 0))) (fd_fifo q)),
                       fd_readers := fd_readers q @ [r]\<rparr>)
      in if int (length (fd_readers q1)) > fd_nbr_peers q1
         then q1\<lparr>fd_nbr_peers := int (length (fd_readers q1))\<rparr> else q1)"

definition fd_add_reader :: "fanout_disp \<Rightarrow> string \<Rightarrow> fanout_disp" where
  "fd_add_reader q r =
     (let q1 = fd_base_add_reader q r
      in if fd_kind q1 \<noteq> MappedK \<and> \<not> fd_is_ordered q1 then q1\<lparr>fd_readers := sort (fd_readers q1)\<rparr> else q1)"

definition fd_base_remove_reader :: "fanout_disp \<Rightarrow> string \<Rightarrow> bool \<times> fanout_disp" where
  "fd_base_remove_reader q r =
     (if r \<notin> set (fd_readers q) then (False, q)
      else (True, q\<lparr>fd_read_pos := ddel r (fd_read_pos q), fd_tentative := ddel r (fd_tentative q),
                    fd_write_pos := ddel r (fd_write_pos q), fd_fifo := ddel r (fd_fifo q),
                    fd_readers := remove1 r (fd_readers q), fd_nbr_peers := fd_nbr_peers q - 1\<rparr>))"

definition fd_remove_reader :: "fanout_disp \<Rightarrow> string \<Rightarrow> (bool, fanout_disp) out" where
  "fd_remove_reader q r =
     (let (removed, q1) = fd_base_remove_reader q r
      in if removed \<and> fd_kind q \<noteq> MappedK
         then and_then (fd_reset_turn q1) (\<lambda>_ q2. (Inr removed, q2))
         else (Inr removed, q1))"

record port_config =
  pc_port_mapping :: "(pyval, string) dict option"
  pc_port_order :: "string list option"

definition fd_set_port_mapping :: "fanout_disp \<Rightarrow> (pyval, string) dict \<Rightarrow> (unit, fanout_disp) out" where
  "fd_set_port_mapping q m =
     (if fd_kind q \<noteq> MappedK then (Inl NotImplementedError, q)
      else if set (map snd m) \<noteq> set (fd_readers q)
      then (Inl (PyException ''Illegal port mapping dictionary''), q)
      else (Inr (), q\<lparr>fd_mapping := Some m\<rparr>))"

definition fd_set_port_order :: "fanout_disp \<Rightarrow> string list \<Rightarrow> (unit, fanout_disp) out" where
  "fd_set_port_order q order =
     (if fd_kind q = MappedK then (Inl NotImplementedError, q)
      else if set order \<noteq> set (fd_readers q) then (Inl (PyException ''Illegal port order list''), q)
      else (Inr (), q\<lparr>fd_readers := order, fd_is_ordered := True\<rparr>))"

definition fd_set_config :: "fanout_disp \<Rightarrow> port_config \<Rightarrow> (unit, fanout_disp) out" where
  "fd_set_config q c =
     and_then (case pc_port_mapping c of None \<Rightarrow> (Inr (), q) | Some m \<Rightarrow> fd_set_port_mapping q m)
       (\<lambda>_ q1. case pc_port_order c of None \<Rightarrow> (Inr (), q1) | Some ord \<Rightarrow> fd_set_port_order q1 ord)"

section \<open>Serialisation\<close>

record fd_state =
  ds_queuetype :: "string option"
  ds_fifo :: "(string, pyval list) dict"
  ds_N :: int
  ds_readers :: "string list"
  ds_write_pos :: "(string, int) dict"
  ds_read_pos :: "(string, int) dict"
  ds_tentative :: "(string, int) dict"
  ds_reader_turn :: "int list option"
  ds_turn_pos :: int
  ds_mapping :: "(pyval, string) dict option"

fun decode_fifos :: "(string, pyval list) dict \<Rightarrow> (string, token list) dict res" where
  "decode_fifos [] = Inr []"
| "decode_fifos ((p, vs) # d) =
     (case decode_all vs of
        Inl e \<Rightarrow> Inl e
      | Inr ts \<Rightarrow> (case decode_fifos d of Inl e \<Rightarrow> Inl e | Inr d' \<Rightarrow> Inr ((p, ts) # d')))"

lemma decode_fifos_encode [simp]:
  "decode_fifos (map (\<lambda>(p, ts). (p, map repr_for_coder ts)) d) = Inr d"
  by (induction d) auto

text \<open>A mapped queue without a configured mapping has no attribute \<open>mapping\<close> to serialise.\<close>

definition fd_get_state :: "fanout_disp \<Rightarrow> fd_state res" where
  "fd_get_state q =
     (if fd_kind q = MappedK \<and> fd_mapping q = None then Inl (AttributeError ''mapping'')
      else Inr \<lparr>ds_queuetype = fd_type q,
                ds_fifo = map (\<lambda>(p, ts). (p, map repr_for_coder ts)) (fd_fifo q),
                ds_N = fd_N q, ds_readers = fd_readers q, ds_write_pos = fd_write_pos q,
                ds_read_pos = fd_read_pos q, ds_tentative = fd_tentative q,
                ds_reader_turn = fd_reader_turn q, ds_turn_pos = fd_turn_pos q,
                ds_mapping = fd_mapping q\<rparr>)"

definition fd_base_set_state :: "fanout_disp \<Rightarrow> fd_state \<Rightarrow> (unit, fanout_disp) out" where
  "fd_base_set_state q s =
     (let q1 = q\<lparr>fd_type := ds_queuetype s\<rparr>
      in case decode_fifos (ds_fifo s) of
           Inl e \<Rightarrow> (Inl e, q1)
         | Inr d \<Rightarrow>
             (let q2 = q1\<lparr>fd_fifo := d, fd_N := ds_N s, fd_readers := ds_readers s,
                          fd_write_pos := ds_write_pos s, fd_read_pos := ds_read_pos s,
                          fd_tentative := ds_tentative s\<rparr>
              in (Inr (), if int (length (fd_readers q2)) > fd_nbr_peers q2
                          then q2\<lparr>fd_nbr_peers := int (length (fd_readers q2))\<rparr> else q2)))"

definition fd_set_state :: "fanout_disp \<Rightarrow> fd_state \<Rightarrow> (unit, fanout_disp) out" where
  "fd_set_state q s =
     and_then (fd_base_set_state q s) (\<lambda>_ q1.
       if fd_kind q1 = MappedK
       then (case ds_mapping s of None \<Rightarrow> (Inl KeyError, q1) | Some m \<Rightarrow> (Inr (), q1\<lparr>fd_mapping := Some m\<rparr>))
       else fd_set_turn (q1\<lparr>fd_reader_turn := ds_reader_turn s, fd_turn_pos := ds_turn_pos s\<rparr>))"

section \<open>Writing\<close>

text \<open>
  Free slots of a reader's buffer.  Every reader is a key of the position dictionaries in every
  reachable state (\<open>fd_inv\<close> below), so the lookups of the source do not fail.
\<close>

definition fd_free :: "fanout_disp \<Rightarrow> string \<Rightarrow> int" where
  "fd_free q r = fd_N q - (dval (fd_write_pos q) r - dval (fd_read_pos q) r) - 1"

definition fd_put :: "fanout_disp \<Rightarrow> string \<Rightarrow> token \<Rightarrow> (bool, fanout_disp) out" where
  "fd_put q p d =
     (case (dlook (fd_write_pos q) p, dlook (fd_fifo q) p) of
        (Inr wp, Inr buf) \<Rightarrow>
          (Inr True, q\<lparr>fd_fifo := dput p (ring_put (fd_N q) buf wp d) (fd_fifo q),
                       fd_write_pos := dput p (wp + 1) (fd_write_pos q)\<rparr>)
      | _ \<Rightarrow> (Inl KeyError, q))"

text \<open>The running sum of \<open>FanoutBalancedFIFO.slots_available\<close>.\<close>

fun fd_enough_slots :: "fanout_disp \<Rightarrow> int \<Rightarrow> int \<Rightarrow> string list \<Rightarrow> bool" where
  "fd_enough_slots q n acc [] = False"
| "fd_enough_slots q n acc (r # rs) =
     (let acc' = acc + fd_free q r in if acc' \<ge> n then True else fd_enough_slots q n acc' rs)"

text \<open>The loop over the scheduled peers of \<open>FanoutOrderedFIFO.slots_available\<close>.\<close>

fun fd_turns :: "fanout_disp \<Rightarrow> int list \<Rightarrow> int list res" where
  "fd_turns q [] = Inr []"
| "fd_turns q (i # is) =
     (case fd_turn_entry q i of
        Inl e \<Rightarrow> Inl e
      | Inr p \<Rightarrow> (case fd_turns q is of Inl e \<Rightarrow> Inl e | Inr ps \<Rightarrow> Inr (p # ps)))"

fun fd_peers_free :: "fanout_disp \<Rightarrow> int list \<Rightarrow> int list \<Rightarrow> bool res" where
  "fd_peers_free q peers [] = Inr True"
| "fd_peers_free q peers (p # ps) =
     (case py_index (fd_readers q) p of
        Inl e \<Rightarrow> Inl e
      | Inr peer \<Rightarrow> if fd_free q peer < int (count_list peers p) then Inr False
                    else fd_peers_free q peers ps)"

definition fd_next_reader :: "fanout_disp \<Rightarrow> string res" where
  "fd_next_reader q =
     (case fd_turn_entry q (fd_turn_pos q) of
        Inl e \<Rightarrow> Inl e | Inr i \<Rightarrow> py_index (fd_readers q) i)"

definition fd_ordered_slots :: "fanout_disp \<Rightarrow> int \<Rightarrow> bool res" where
  "fd_ordered_slots q n =
     (if n \<ge> fd_N q then Inr False
      else if n = 1
      then (case fd_next_reader q of
              Inl e \<Rightarrow> Inl e
            | Inr peer \<Rightarrow> Inr (dval (fd_write_pos q) peer - dval (fd_read_pos q) peer < fd_N q - 1))
      else case fd_turns q [fd_turn_pos q..fd_turn_pos q + n - 1] of
             Inl e \<Rightarrow> Inl e | Inr peers \<Rightarrow> fd_peers_free q peers peers)"

definition fd_mapped_slots :: "fanout_disp \<Rightarrow> int \<Rightarrow> string \<Rightarrow> bool" where
  "fd_mapped_slots q n m =
     (if m \<in> set (fd_readers q)
      then dval (fd_write_pos q) m - dval (fd_read_pos q) m < fd_N q - n
      else list_all (\<lambda>r. dval (fd_write_pos q) r - dval (fd_read_pos q) r < fd_N q - n) (fd_readers q))"

definition fd_slots_available :: "fanout_disp \<Rightarrow> int \<Rightarrow> string \<Rightarrow> bool res" where
  "fd_slots_available q n m =
     (case fd_kind q of
        BalancedK \<Rightarrow> Inr (if n \<ge> fd_N q then False else fd_enough_slots q n 0 (fd_readers q))
      | MappedK \<Rightarrow> Inr (fd_mapped_slots q n m)
      | _ \<Rightarrow> fd_ordered_slots q n)"

text \<open>
  \<open>_unwrap_data\<close> of the mapped queue: the value is a dictionary \<open>{selector: value}\<close>;
  \<open>popitem\<close> takes one of its items out of it.  The token object is changed in place, before the
  peer is looked up, so the result has the token as the call leaves it, also when it raises.
\<close>

definition fd_unwrap :: "fanout_disp \<Rightarrow> token \<Rightarrow> (string, token) out" where
  "fd_unwrap q d =
     (case tval d of
        PDict ((select, v) # _) \<Rightarrow>
          (case fd_mapping q of
             None \<Rightarrow> (Inl (AttributeError ''mapping''), d\<lparr>tval := v\<rparr>)
           | Some m \<Rightarrow> (dlook m select, d\<lparr>tval := v\<rparr>))
      | PDict [] \<Rightarrow> (Inl KeyError, d)
      | _ \<Rightarrow> (Inl (AttributeError ''popitem''), d))"

definition fd_write_turn :: "fanout_disp \<Rightarrow> token \<Rightarrow> (bool, fanout_disp) out" where
  "fd_write_turn q d =
     (case fd_ordered_slots q 1 of
        Inl e \<Rightarrow> (Inl e, q)
      | Inr ok \<Rightarrow>
          if \<not> ok then (Inl QueueFull, q)
          else and_then (fd_update_turn q) (\<lambda>i q1.
                 case py_index (fd_readers q1) i of
                   Inl e \<Rightarrow> (Inl e, q1)
                 | Inr peer \<Rightarrow> fd_put q1 peer d))"

definition fd_write_mapped :: "fanout_disp \<Rightarrow> token \<Rightarrow> (bool, fanout_disp \<times> token) out" where
  "fd_write_mapped q d =
     (case fd_unwrap q d of
        (Inl e, data) \<Rightarrow> (Inl e, q, data)
      | (Inr peer, data) \<Rightarrow>
          if \<not> fd_mapped_slots q 1 peer then (Inl QueueFull, q, data)
          else (case fd_put q peer data of (r, q1) \<Rightarrow> (r, q1, data)))"

text \<open>\<open>max(slots)\<close> compares the pairs \<open>(free slots, reader)\<close> lexicographically.\<close>

definition fd_write_balanced :: "fanout_disp \<Rightarrow> token \<Rightarrow> (bool, fanout_disp) out" where
  "fd_write_balanced q d =
     (let slots = map (\<lambda>r. (fd_free q r, r)) (fd_readers q)
      in if list_all (\<lambda>s. \<not> fst s > 0) slots then (Inl QueueFull, q)
         else fd_put q (snd (Max (set slots))) d)"

text \<open>
  \<open>write\<close>, with the token object of the caller as the call leaves it: only the mapped queue changes
  it.  \<open>fd_write\<close> is the effect on the queue alone, all that a caller sees who gives the token away.
\<close>

definition fd_write_token :: "fanout_disp \<Rightarrow> token \<Rightarrow> string \<Rightarrow> (bool, fanout_disp \<times> token) out" where
  "fd_write_token q d m =
     (case fd_kind q of
        MappedK \<Rightarrow> fd_write_mapped q d
      | BalancedK \<Rightarrow> (case fd_write_balanced q d of (r, q1) \<Rightarrow> (r, q1, d))
      | _ \<Rightarrow> (case fd_write_turn q d of (r, q1) \<Rightarrow> (r, q1, d)))"

definition fd_write :: "fanout_disp \<Rightarrow> token \<Rightarrow> string \<Rightarrow> (bool, fanout_disp) out" where
  "fd_write q d m = (case fd_write_token q d m of (r, q1, _) \<Rightarrow> (r, q1))"

lemma fd_write_kinds:
  "fd_kind q = BalancedK \<Longrightarrow> fd_write q d m = fd_write_balanced q d"
  "fd_kind q \<in> {OrderedK, RoundRobinK, RandomK} \<Longrightarrow> fd_write q d m = fd_write_turn q d"
  "fd_kind q = MappedK \<Longrightarrow> fd_write q d m = (case fd_write_mapped q d of (r, q1, _) \<Rightarrow> (r, q1))"
  by (auto simp: fd_write_def fd_write_token_def split: prod.splits)

section \<open>Reading\<close>

definition fd_tokens_available :: "fanout_disp \<Rightarrow> int \<Rightarrow> string \<Rightarrow> bool res" where
  "fd_tokens_available q n m =
     (if m \<notin> set (fd_readers q) then Inl (PyException ''No reader'')
      else case (dlook (fd_write_pos q) m, dlook (fd_tentative q) m) of
             (Inr wp, Inr tp) \<Rightarrow> Inr (wp - tp \<ge> n)
           | _ \<Rightarrow> Inl KeyError)"

definition fd_peek :: "fanout_disp \<Rightarrow> string \<Rightarrow> (token, fanout_disp) out" where
  "fd_peek q m =
     (case fd_tokens_available q 1 m of
        Inl e \<Rightarrow> (Inl e, q)
      | Inr av \<Rightarrow>
          if \<not> av then (Inl (QueueEmpty m), q)
          else case (dlook (fd_tentative q) m, dlook (fd_fifo q) m) of
                 (Inr rp, Inr buf) \<Rightarrow>
                   (Inr (ring_get (fd_N q) buf rp), q\<lparr>fd_tentative := dput m (rp + 1) (fd_tentative q)\<rparr>)
               | _ \<Rightarrow> (Inl KeyError, q))"

definition fd_commit :: "fanout_disp \<Rightarrow> string \<Rightarrow> (bool, fanout_disp) out" where
  "fd_commit q m =
     (case dlook (fd_tentative q) m of
        Inl e \<Rightarrow> (Inl e, q)
      | Inr tp \<Rightarrow> (Inr False, q\<lparr>fd_read_pos := dput m tp (fd_read_pos q)\<rparr>))"

definition fd_cancel :: "fanout_disp \<Rightarrow> string \<Rightarrow> (unit, fanout_disp) out" where
  "fd_cancel q m =
     (case dlook (fd_read_pos q) m of
        Inl e \<Rightarrow> (Inl e, q)
      | Inr rp \<Rightarrow> (Inr (), q\<lparr>fd_tentative := dput m rp (fd_tentative q)\<rparr>))"

section \<open>Sequence-numbered access\<close>

definition fd_com_write :: "fanout_disp \<Rightarrow> token \<Rightarrow> string \<Rightarrow> int \<Rightarrow> (commit_response, fanout_disp) out" where
  "fd_com_write q d m n =
     (if fd_kind q = MappedK then (Inl (AttributeError ''reader_turn''), q)
      else case fd_next_reader q of
        Inl e \<Rightarrow> (Inl e, q)
      | Inr peer \<Rightarrow>
          (case dlook (fd_write_pos q) peer of
             Inl e \<Rightarrow> (Inl e, q)
           | Inr wp \<Rightarrow>
               if n = wp then and_then (fd_write q d m) (\<lambda>_ q1. (Inr Handled, q1))
               else if n < wp then (Inr Unhandled, q)
               else (Inr Invalid, q)))"

definition fd_com_peek :: "fanout_disp \<Rightarrow> string \<Rightarrow> (int \<times> token, fanout_disp) out" where
  "fd_com_peek q m =
     (case dlook (fd_tentative q) m of
        Inl e \<Rightarrow> (Inl e, q)
      | Inr pos \<Rightarrow> and_then (fd_peek q m) (\<lambda>t q1. (Inr (pos, t), q1)))"

definition fd_com_commit :: "fanout_disp \<Rightarrow> string \<Rightarrow> int \<Rightarrow> (commit_response option, fanout_disp) out" where
  "fd_com_commit q r n =
     (case (dlook (fd_tentative q) r, dlook (fd_read_pos q) r) of
        (Inr tp, Inr rp) \<Rightarrow>
          if n \<ge> tp then (Inr (Some Invalid), q)
          else if rp < tp
               then if n = rp
                    then (Inr (Some Handled), q\<lparr>fd_read_pos := dput r (rp + 1) (fd_read_pos q)\<rparr>)
                    else (Inr (Some Unhandled), q)
               else (Inr None, q)
      | _ \<Rightarrow> (Inl KeyError, q))"

text \<open>The same reference to the missing attribute \<open>reader_pos\<close> as in \<open>FanoutFIFO\<close>.\<close>

definition fd_com_cancel :: "fanout_disp \<Rightarrow> string \<Rightarrow> int \<Rightarrow> (commit_response, fanout_disp) out" where
  "fd_com_cancel q r n =
     (case dlook (fd_tentative q) r of
        Inl e \<Rightarrow> (Inl e, q)
      | Inr tp \<Rightarrow>
          if n \<ge> tp then (Inl (AttributeError ''reader_pos''), q)
          else (Inr Handled, q\<lparr>fd_tentative := dput r n (fd_tentative q)\<rparr>))"

definition fd_com_is_committed :: "fanout_disp \<Rightarrow> string \<Rightarrow> bool res" where
  "fd_com_is_committed q r =
     (case (dlook (fd_tentative q) r, dlook (fd_read_pos q) r) of
        (Inr tp, Inr rp) \<Rightarrow> Inr (tp = rp)
      | _ \<Rightarrow> Inl KeyError)"

section \<open>Exhaustion\<close>

definition fd_is_exhausting :: "fanout_disp \<Rightarrow> string option \<Rightarrow> bool" where
  "fd_is_exhausting q p = False"

definition fd_set_exhausted_tokens :: "fanout_disp \<Rightarrow> (string, (int \<times> token) list) dict \<Rightarrow> int" where
  "fd_set_exhausted_tokens q tokens = fd_nbr_peers q"

definition fd_exhaust :: "fanout_disp \<Rightarrow> string \<Rightarrow> disconnect \<Rightarrow> ((int \<times> token) list, fanout_disp) out" where
  "fd_exhaust q p term =
     (if p \<notin> set (fd_readers q) then (Inr [], q)
      else if term = EXHAUST_PEER_SEND \<or> term = EXHAUST_OUTPORT
      then case (dlook (fd_read_pos q) p, dlook (fd_write_pos q) p, dlook (fd_fifo q) p) of
             (Inr rp, Inr wp, Inr buf) \<Rightarrow>
               and_then (fd_remove_reader q p) (\<lambda>_ q1.
                 (Inr (map (\<lambda>k. (k, ring_get (fd_N q) buf k)) [rp..wp - 1]), q1))
           | _ \<Rightarrow> (Inl KeyError, q)
      else and_then (fd_remove_reader q p) (\<lambda>_ q1. (Inr [], q1)))"

section \<open>Invariant\<close>

definition fd_inv :: "fanout_disp \<Rightarrow> bool" where
  "fd_inv q \<longleftrightarrow>
     0 < fd_N q \<and> distinct (fd_readers q)
     \<and> dict_ok (fd_fifo q) \<and> dict_ok (fd_write_pos q) \<and> dict_ok (fd_read_pos q) \<and> dict_ok (fd_tentative q)
     \<and> dkeys (fd_fifo q) = set (fd_readers q) \<and> dkeys (fd_write_pos q) = set (fd_readers q)
     \<and> dkeys (fd_read_pos q) = set (fd_readers q) \<and> dkeys (fd_tentative q) = set (fd_readers q)
     \<and> (\<forall>r \<in> set (fd_readers q).
          ring_ok (fd_N q) (the (dget (fd_fifo q) r))
          \<and> 0 \<le> dval (fd_read_pos q) r
          \<and> dval (fd_read_pos q) r \<le> dval (fd_tentative q) r
          \<and> dval (fd_tentative q) r \<le> dval (fd_write_pos q) r
          \<and> dval (fd_write_pos q) r - dval (fd_read_pos q) r < fd_N q)"

definition fd_pending :: "fanout_disp \<Rightarrow> string \<Rightarrow> token list" where
  "fd_pending q r =
     ring_slice (fd_N q) (the (dget (fd_fifo q) r)) (dval (fd_read_pos q) r) (dval (fd_write_pos q) r)"

definition fd_peeked :: "fanout_disp \<Rightarrow> string \<Rightarrow> nat" where
  "fd_peeked q r = nat (dval (fd_tentative q) r - dval (fd_read_pos q) r)"

definition fd_reader :: "fanout_disp \<Rightarrow> string \<Rightarrow> bool" where
  "fd_reader q r \<longleftrightarrow> r \<in> set (fd_readers q)"

lemma fd_inv_look:
  assumes "fd_inv q" "r \<in> set (fd_readers q)"
  shows "dlook (fd_read_pos q) r = Inr (dval (fd_read_pos q) r)"
    and "dlook (fd_tentative q) r = Inr (dval (fd_tentative q) r)"
    and "dlook (fd_write_pos q) r = Inr (dval (fd_write_pos q) r)"
    and "dlook (fd_fifo q) r = Inr (the (dget (fd_fifo q) r))"
proof -
  have "r \<in> dkeys (fd_fifo q)" using assms by (simp add: fd_inv_def)
  then show "dlook (fd_fifo q) r = Inr (the (dget (fd_fifo q) r))" by (auto simp: dkeys_iff)
qed (use assms in \<open>simp_all add: fd_inv_def dlook_dval\<close>)

lemma fd_inv_pos:
  assumes "fd_inv q" "r \<in> set (fd_readers q)"
  shows "0 \<le> dval (fd_read_pos q) r" "dval (fd_read_pos q) r \<le> dval (fd_tentative q) r"
    "dval (fd_tentative q) r \<le> dval (fd_write_pos q) r"
    "dval (fd_write_pos q) r - dval (fd_read_pos q) r < fd_N q"
    "ring_ok (fd_N q) (the (dget (fd_fifo q) r))"
  using assms by (auto simp: fd_inv_def)

section \<open>Putting a token into one reader's buffer\<close>

definition fd_pushed :: "fanout_disp \<Rightarrow> string \<Rightarrow> token \<Rightarrow> fanout_disp" where
  "fd_pushed q p d =
     q\<lparr>fd_fifo := dput p (ring_put (fd_N q) (the (dget (fd_fifo q) p)) (dval (fd_write_pos q) p) d) (fd_fifo q),
       fd_write_pos := dput p (dval (fd_write_pos q) p + 1) (fd_write_pos q)\<rparr>"

lemma fd_put_eq: "fd_inv q \<Longrightarrow> p \<in> set (fd_readers q) \<Longrightarrow> fd_put q p d = (Inr True, fd_pushed q p d)"
  by (simp add: fd_put_def fd_pushed_def fd_inv_look)

lemma fd_pushed_fields [simp]:
  "fd_readers (fd_pushed q p d) = fd_readers q" "fd_N (fd_pushed q p d) = fd_N q"
  "fd_kind (fd_pushed q p d) = fd_kind q" "fd_reader_turn (fd_pushed q p d) = fd_reader_turn q"
  "fd_turn_pos (fd_pushed q p d) = fd_turn_pos q" "fd_nbr_peers (fd_pushed q p d) = fd_nbr_peers q"
  "fd_mapping (fd_pushed q p d) = fd_mapping q"
  by (simp_all add: fd_pushed_def)

lemma fd_pushed_inv:
  assumes "fd_inv q" "p \<in> set (fd_readers q)" "0 < fd_free q p"
  shows "fd_inv (fd_pushed q p d)"
  using assms unfolding fd_inv_def fd_pushed_def fd_free_def by force

lemma fd_pushed_pending:
  assumes "fd_inv q" "p \<in> set (fd_readers q)" "0 < fd_free q p"
  shows "fd_pending (fd_pushed q p d) r = (if r = p then fd_pending q p @ [d] else fd_pending q r)"
proof (cases "r = p")
  case True
  have "ring_slice (fd_N q) (ring_put (fd_N q) (the (dget (fd_fifo q) p)) (dval (fd_write_pos q) p) d)
      (dval (fd_read_pos q) p) (dval (fd_write_pos q) p + 1)
    = ring_slice (fd_N q) (the (dget (fd_fifo q) p)) (dval (fd_read_pos q) p) (dval (fd_write_pos q) p) @ [d]"
    by (rule ring_slice_put) (use fd_inv_pos [OF assms(1,2)] in auto)
  with True show ?thesis by (simp add: fd_pending_def fd_pushed_def)
qed (simp add: fd_pending_def fd_pushed_def)

text \<open>The turn bookkeeping does not touch the buffers.\<close>

definition fd_same :: "fanout_disp \<Rightarrow> fanout_disp \<Rightarrow> bool" where
  "fd_same q q' \<longleftrightarrow>
     fd_fifo q' = fd_fifo q \<and> fd_N q' = fd_N q \<and> fd_readers q' = fd_readers q
     \<and> fd_write_pos q' = fd_write_pos q \<and> fd_read_pos q' = fd_read_pos q \<and> fd_tentative q' = fd_tentative q
     \<and> fd_nbr_peers q' = fd_nbr_peers q \<and> fd_kind q' = fd_kind q \<and> fd_mapping q' = fd_mapping q"

lemma fd_same_refl [simp]: "fd_same q q"
  by (simp add: fd_same_def)

lemma fd_same_inv: "fd_same q q' \<Longrightarrow> fd_inv q' = fd_inv q"
  by (simp add: fd_same_def fd_inv_def)

lemma fd_same_views: "fd_same q q' \<Longrightarrow> fd_pending q' r = fd_pending q r \<and> fd_free q' r = fd_free q r
    \<and> fd_readers q' = fd_readers q \<and> fd_kind q' = fd_kind q \<and> fd_nbr_peers q' = fd_nbr_peers q
    \<and> fd_N q' = fd_N q \<and> fd_mapping q' = fd_mapping q"
  by (simp add: fd_same_def fd_pending_def fd_free_def)

section \<open>A usable schedule\<close>

text \<open>
  The schedule of the ordered, round-robin and random queues is usable when it has one entry per
  buffer slot and every entry is the index of a connected reader.
\<close>

definition turn_ok :: "fanout_disp \<Rightarrow> bool" where
  "turn_ok q \<longleftrightarrow>
     (case fd_reader_turn q of
        None \<Rightarrow> False
      | Some rt \<Rightarrow> int (length rt) = fd_N q \<and> (\<forall>x \<in> set rt. 0 \<le> x \<and> x < int (length (fd_readers q))))
     \<and> fd_nbr_peers q = int (length (fd_readers q))"

definition uses_turn :: "dispatch_kind \<Rightarrow> bool" where
  "uses_turn k \<longleftrightarrow> k \<in> {OrderedK, RoundRobinK, RandomK}"

definition fd_ready :: "fanout_disp \<Rightarrow> bool" where
  "fd_ready q \<longleftrightarrow> fd_inv q \<and> (uses_turn (fd_kind q) \<longrightarrow> turn_ok q)"

lemma turn_entry_ok:
  assumes "fd_inv q" "turn_ok q"
  shows "\<exists>x. fd_turn_entry q i = Inr x \<and> 0 \<le> x \<and> x < int (length (fd_readers q))
    \<and> x = the (fd_reader_turn q) ! nat (i mod fd_N q)"
proof -
  obtain rt where rt: "fd_reader_turn q = Some rt" "int (length rt) = fd_N q"
    "\<forall>x \<in> set rt. 0 \<le> x \<and> x < int (length (fd_readers q))"
    using assms(2) by (auto simp: turn_ok_def split: option.splits)
  have N: "0 < fd_N q" using assms(1) by (simp add: fd_inv_def)
  then have i: "0 \<le> i mod fd_N q" "i mod fd_N q < int (length rt)" using rt(2) by simp_all
  then have "rt ! nat (i mod fd_N q) \<in> set rt" by (simp add: nat_less_iff)
  with i rt show ?thesis by (simp add: fd_turn_entry_def)
qed

lemma next_reader_ok:
  assumes "fd_inv q" "turn_ok q"
  shows "\<exists>x. fd_turn_entry q (fd_turn_pos q) = Inr x \<and> 0 \<le> x \<and> x < int (length (fd_readers q))
    \<and> fd_next_reader q = Inr (fd_readers q ! nat x) \<and> fd_readers q ! nat x \<in> set (fd_readers q)"
  using turn_entry_ok [OF assms, of "fd_turn_pos q"] by (auto simp: fd_next_reader_def nat_less_iff)

lemma turn_ok_put:
  assumes "turn_ok q" "0 \<le> x" "x < int (length (fd_readers q))"
  shows "turn_ok (fd_put_turn q x)"
  using assms set_update_subset_insert by (fastforce simp: turn_ok_def fd_put_turn_def split: option.splits)

lemma fd_same_put_turn [simp]: "fd_same q (fd_put_turn q x)"
  by (simp add: fd_same_def fd_put_turn_def)

lemma turn_ok_draws [simp]: "turn_ok (q\<lparr>fd_draws := n\<rparr>) = turn_ok q"
  by (simp add: turn_ok_def split: option.splits)

lemma fd_same_draws: "fd_same q (q\<lparr>fd_draws := n\<rparr>)"
  by (simp add: fd_same_def)

lemma update_turn_ok:
  assumes "fd_inv q" "turn_ok q"
  shows "\<exists>x q1. fd_update_turn q = (Inr x, q1) \<and> fd_turn_entry q (fd_turn_pos q) = Inr x
    \<and> turn_ok q1 \<and> fd_same q q1"
proof -
  obtain x where x: "fd_turn_entry q (fd_turn_pos q) = Inr x" "0 \<le> x" "x < int (length (fd_readers q))"
    using turn_entry_ok [OF assms] by blast
  obtain y where y: "fd_turn_entry q (fd_turn_pos q - 1) = Inr y"
    using turn_entry_ok [OF assms] by blast
  have n: "fd_nbr_peers q = int (length (fd_readers q))" using assms(2) by (simp add: turn_ok_def)
  have pos: "0 < fd_nbr_peers q" using x n by linarith
  show ?thesis
  proof (cases "fd_kind q = RandomK")
    case True
    let ?v = "int (fd_rnd q (fd_draws q)) mod fd_nbr_peers q"
    let ?q = "q\<lparr>fd_draws := Suc (fd_draws q)\<rparr>"
    have "turn_ok (fd_put_turn ?q ?v)"
      by (rule turn_ok_put) (use assms(2) pos n in auto)
    moreover have "fd_same q (fd_put_turn ?q ?v)"
      by (simp add: fd_same_def fd_put_turn_def)
    ultimately show ?thesis
      using True x pos by (simp add: fd_update_turn_def randrange_def)
  next
    case False
    have "turn_ok (fd_put_turn q ((y + 1) mod fd_nbr_peers q))"
      by (rule turn_ok_put) (use assms(2) pos n in auto)
    moreover have "fd_update_turn q = (Inr x, fd_put_turn q ((y + 1) mod fd_nbr_peers q))"
      using False x(1) y pos by (cases "fd_kind q") (simp_all add: fd_update_turn_def)
    ultimately show ?thesis using x(1) by simp
  qed
qed

section \<open>Every accepted token goes to exactly one reader\<close>

text \<open>
  \<open>fd_target q d p v\<close>: the queue, in its present state, sends the token \<open>d\<close> as
  \<open>v\<close> to the reader \<open>p\<close>.
\<close>

definition fd_target :: "fanout_disp \<Rightarrow> token \<Rightarrow> string \<Rightarrow> token \<Rightarrow> bool" where
  "fd_target q d p v \<longleftrightarrow>
     p \<in> set (fd_readers q) \<and>
     (case fd_kind q of
        MappedK \<Rightarrow> fd_unwrap q d = (Inr p, v)
      | BalancedK \<Rightarrow> v = d \<and> (\<forall>r \<in> set (fd_readers q). fd_free q r \<le> fd_free q p)
      | _ \<Rightarrow> v = d \<and> fd_next_reader q = Inr p)"

lemma ordered_slots_one:
  assumes "fd_inv q" "turn_ok q"
  shows "\<exists>p \<in> set (fd_readers q). fd_next_reader q = Inr p
    \<and> fd_ordered_slots q 1 = Inr (1 < fd_N q \<and> 0 < fd_free q p)"
proof -
  from next_reader_ok [OF assms] obtain p where "p \<in> set (fd_readers q)" "fd_next_reader q = Inr p"
    by blast
  then show ?thesis
    by (intro bexI [of _ p]) (auto simp: fd_ordered_slots_def fd_free_def)
qed

lemma fd_free_bound: "fd_inv q \<Longrightarrow> p \<in> set (fd_readers q) \<Longrightarrow> 0 \<le> fd_free q p \<and> fd_free q p \<le> fd_N q - 1"
  using fd_inv_pos [of q p] by (simp add: fd_free_def)

lemma turn_ok_pushed [simp]: "turn_ok (fd_pushed q p d) = turn_ok q"
  by (simp add: turn_ok_def split: option.splits)

lemma fd_write_turn_cases:
  assumes "fd_inv q" "turn_ok q"
  shows "\<exists>p q1. p \<in> set (fd_readers q) \<and> fd_next_reader q = Inr p \<and> fd_same q q1 \<and> turn_ok q1
    \<and> fd_write_turn q d = (if 0 < fd_free q p then (Inr True, fd_pushed q1 p d) else (Inl QueueFull, q))"
proof -
  obtain p where p: "p \<in> set (fd_readers q)" "fd_next_reader q = Inr p"
    "fd_ordered_slots q 1 = Inr (1 < fd_N q \<and> 0 < fd_free q p)"
    using ordered_slots_one [OF assms] by blast
  obtain x q1 where x: "fd_update_turn q = (Inr x, q1)" "fd_turn_entry q (fd_turn_pos q) = Inr x"
    "turn_ok q1" "fd_same q q1"
    using update_turn_ok [OF assms] by blast
  have idx: "py_index (fd_readers q) x = Inr p"
    using p(2) x(2) by (simp add: fd_next_reader_def)
  have "fd_put q1 p d = (Inr True, fd_pushed q1 p d)"
    by (rule fd_put_eq) (use assms(1) p(1) fd_same_inv [OF x(4)] fd_same_views [OF x(4)] in auto)
  then have "fd_write_turn q d = (if 0 < fd_free q p then (Inr True, fd_pushed q1 p d) else (Inl QueueFull, q))"
    using p x idx fd_free_bound [OF assms(1) p(1)] fd_same_views [OF x(4)]
    by (simp add: fd_write_turn_def)
  with p x show ?thesis by blast
qed

lemma fd_write_balanced_cases:
  assumes "fd_inv q"
  shows "(\<exists>p \<in> set (fd_readers q). (\<forall>r \<in> set (fd_readers q). fd_free q r \<le> fd_free q p) \<and> 0 < fd_free q p
      \<and> fd_write_balanced q d = (Inr True, fd_pushed q p d))
    \<or> (\<forall>r \<in> set (fd_readers q). fd_free q r = 0) \<and> fd_write_balanced q d = (Inl QueueFull, q)"
proof (cases "\<forall>r \<in> set (fd_readers q). \<not> 0 < fd_free q r")
  case True
  then have "\<forall>r \<in> set (fd_readers q). fd_free q r = 0"
    using fd_free_bound [OF assms] by force
  with True show ?thesis by (simp add: fd_write_balanced_def list_all_iff)
next
  case False
  let ?S = "set (map (\<lambda>r. (fd_free q r, r)) (fd_readers q))"
  have ne: "?S \<noteq> {}" using False by auto
  have "Max ?S \<in> ?S" by (rule Max_in) (use ne in auto)
  then obtain p where p: "p \<in> set (fd_readers q)" "Max ?S = (fd_free q p, p)" by auto
  have le: "fd_free q r \<le> fd_free q p" if "r \<in> set (fd_readers q)" for r
  proof -
    have "(fd_free q r, r) \<le> Max ?S" by (rule Max_ge) (use that in auto)
    then show ?thesis using p(2) by (auto simp: less_eq_prod_def)
  qed
  with False have "0 < fd_free q p" by force
  moreover have "fd_write_balanced q d = (Inr True, fd_pushed q p d)"
    using False p by (simp add: fd_write_balanced_def list_all_iff fd_put_eq [OF assms])
  ultimately show ?thesis using le p(1) by blast
qed

lemma fd_mapped_slots_reader:
  "p \<in> set (fd_readers q) \<Longrightarrow> fd_mapped_slots q 1 p \<longleftrightarrow> 0 < fd_free q p"
  by (auto simp: fd_mapped_slots_def fd_free_def)

lemma fd_ready_pushed:
  assumes "fd_ready q" "p \<in> set (fd_readers q)" "0 < fd_free q p"
  shows "fd_ready (fd_pushed q p d)"
  using assms fd_pushed_inv [of q p d] by (simp add: fd_ready_def)

text \<open>The mapping only names readers; \<open>set_config\<close> checks it.\<close>

definition mapping_ok :: "fanout_disp \<Rightarrow> bool" where
  "mapping_ok q \<longleftrightarrow>
     (case fd_mapping q of None \<Rightarrow> True | Some m \<Rightarrow> set (map snd m) \<subseteq> set (fd_readers q))"

lemma fd_unwrap_reader:
  assumes "mapping_ok q" "fd_unwrap q d = (Inr p, v)"
  shows "p \<in> set (fd_readers q)"
proof -
  obtain m sel where m: "fd_mapping q = Some m" "dget m sel = Some p"
    using assms(2) by (auto simp: fd_unwrap_def dlook_def split: pyval.splits list.splits prod.splits option.splits)
  then have "p \<in> set (map snd m)" by (metis image_eqI image_set map_of_SomeD snd_conv)
  with assms(1) m(1) show ?thesis by (auto simp: mapping_ok_def)
qed

text \<open>The token is left as it was, except by the mapped queue, which has unwrapped it in every case.\<close>

lemma fd_write_token_token:
  "snd (snd (fd_write_token q d m)) = (if fd_kind q = MappedK then snd (fd_unwrap q d) else d)"
  by (cases "fd_kind q") (auto simp: fd_write_token_def fd_write_mapped_def split: prod.splits sum.splits)

lemma fd_write_token_eq:
  "fd_write_token q d m
    = (fst (fd_write q d m), snd (fd_write q d m), if fd_kind q = MappedK then snd (fd_unwrap q d) else d)"
  using fd_write_token_token [of q d m] by (cases "fd_write_token q d m") (simp add: fd_write_def)

lemma fd_write_cases:
  assumes ready: "fd_ready q" and map: "mapping_ok q"
  shows "(\<exists>p v q1. fd_target q d p v \<and> 0 < fd_free q p \<and> fd_same q q1 \<and> fd_ready q1
        \<and> fd_write q d m = (Inr True, fd_pushed q1 p v))
    \<or> (\<exists>e. fd_write q d m = (Inl e, q) \<and> (fd_kind q \<noteq> MappedK \<longrightarrow> e = QueueFull
          \<and> (\<forall>p v. fd_target q d p v \<longrightarrow> fd_free q p = 0))
        \<and> (fd_kind q = MappedK \<longrightarrow> fst (fd_unwrap q d) = Inl e
          \<or> e = QueueFull \<and> (\<exists>p v. fd_target q d p v \<and> fd_free q p = 0)))"
proof -
  have inv: "fd_inv q" using ready by (simp add: fd_ready_def)
  consider (turn) "uses_turn (fd_kind q)" | (bal) "fd_kind q = BalancedK" | (mapped) "fd_kind q = MappedK"
    by (cases "fd_kind q") (auto simp: uses_turn_def)
  then show ?thesis
  proof cases
    case turn
    then have ok: "turn_ok q" using ready by (simp add: fd_ready_def)
    obtain p q1 where p: "p \<in> set (fd_readers q)" "fd_next_reader q = Inr p" "fd_same q q1" "turn_ok q1"
      "fd_write_turn q d = (if 0 < fd_free q p then (Inr True, fd_pushed q1 p d) else (Inl QueueFull, q))"
      using fd_write_turn_cases [OF inv ok] by blast
    have w: "fd_write q d m = fd_write_turn q d"
      using turn by (intro fd_write_kinds(2)) (simp add: uses_turn_def)
    have tgt: "fd_target q d p' v \<longleftrightarrow> p' = p \<and> v = d" for p' v
      using turn p(1,2) by (cases "fd_kind q") (auto simp: fd_target_def uses_turn_def)
    have "fd_ready q1"
      using p(4) inv by (simp add: fd_ready_def fd_same_inv [OF p(3)])
    then show ?thesis
      using p(3,5) w tgt fd_free_bound [OF inv p(1)] by (cases "0 < fd_free q p") auto
  next
    case bal
    then have tgt: "fd_target q d p v \<longleftrightarrow> p \<in> set (fd_readers q) \<and> v = d
        \<and> (\<forall>r \<in> set (fd_readers q). fd_free q r \<le> fd_free q p)" for p v
      by (auto simp: fd_target_def)
    have w: "fd_write q d m = fd_write_balanced q d" using bal by (rule fd_write_kinds(1))
    from fd_write_balanced_cases [OF inv, of d] show ?thesis
    proof (elim disjE bexE conjE)
      fix p
      assume "p \<in> set (fd_readers q)" "\<forall>r \<in> set (fd_readers q). fd_free q r \<le> fd_free q p"
        "0 < fd_free q p" "fd_write_balanced q d = (Inr True, fd_pushed q p d)"
      with tgt w ready show ?thesis
        by (intro disjI1 exI [of _ p] exI [of _ d] exI [of _ q]) simp
    next
      assume "\<forall>r \<in> set (fd_readers q). fd_free q r = 0" "fd_write_balanced q d = (Inl QueueFull, q)"
      with tgt w bal show ?thesis by simp
    qed
  next
    case mapped
    obtain r v where u: "fd_unwrap q d = (r, v)" by (rule prod.exhaust)
    note w = fd_write_kinds(3) [OF mapped, of d m]
    show ?thesis
    proof (cases r)
      case (Inl e)
      with mapped w u show ?thesis by (simp add: fd_write_mapped_def)
    next
      case (Inr p)
      have p: "p \<in> set (fd_readers q)" using fd_unwrap_reader [OF map] Inr u by blast
      have tgt: "fd_target q d p v" using mapped Inr u p by (simp add: fd_target_def)
      show ?thesis
      proof (cases "0 < fd_free q p")
        case True
        then have "fd_write q d m = (Inr True, fd_pushed q p v)"
          using w u Inr p by (simp add: fd_write_mapped_def fd_mapped_slots_reader fd_put_eq [OF inv])
        with tgt True ready show ?thesis by (intro disjI1) (blast intro: fd_same_refl)
      next
        case False
        then have "fd_free q p = 0" using fd_free_bound [OF inv p] by simp
        with False show ?thesis
          using mapped w u Inr p tgt by (auto simp: fd_write_mapped_def fd_mapped_slots_reader)
      qed
    qed
  qed
qed

section \<open>The contracts\<close>

lemma fd_peek_cases:
  assumes "fd_inv q" "r \<in> set (fd_readers q)"
  shows "fd_peek q r =
    (if dval (fd_tentative q) r < dval (fd_write_pos q) r
     then (Inr (ring_get (fd_N q) (the (dget (fd_fifo q) r)) (dval (fd_tentative q) r)),
           q\<lparr>fd_tentative := dput r (dval (fd_tentative q) r + 1) (fd_tentative q)\<rparr>)
     else (Inl (QueueEmpty r), q))"
  using assms(2) by (auto simp: fd_peek_def fd_tokens_available_def fd_inv_look [OF assms])

lemma fd_set_tentative_inv:
  assumes "fd_inv q" "r \<in> set (fd_readers q)" "dval (fd_read_pos q) r \<le> p" "p \<le> dval (fd_write_pos q) r"
  shows "fd_inv (q\<lparr>fd_tentative := dput r p (fd_tentative q)\<rparr>)"
  using assms by (auto simp: fd_inv_def)

lemma fd_set_read_inv:
  assumes "fd_inv q" "r \<in> set (fd_readers q)" "dval (fd_read_pos q) r \<le> p" "p \<le> dval (fd_tentative q) r"
  shows "fd_inv (q\<lparr>fd_read_pos := dput r p (fd_read_pos q)\<rparr>)"
  using assms unfolding fd_inv_def by auto

lemma fd_ready_tentative [simp]:
  "fd_inv (q\<lparr>fd_tentative := t\<rparr>) \<Longrightarrow> fd_ready q \<Longrightarrow> fd_ready (q\<lparr>fd_tentative := t\<rparr>)"
  by (auto simp: fd_ready_def turn_ok_def split: option.splits)

lemma fd_ready_read_pos [simp]:
  "fd_inv (q\<lparr>fd_read_pos := t\<rparr>) \<Longrightarrow> fd_ready q \<Longrightarrow> fd_ready (q\<lparr>fd_read_pos := t\<rparr>)"
  by (auto simp: fd_ready_def turn_ok_def split: option.splits)

lemmas fd_views = fd_pending_def fd_peeked_def fd_reader_def

interpretation fds: com_source fd_inv fd_reader fd_pending fd_peeked "\<lambda>q r. dval (fd_read_pos q) r"
    fd_com_peek fd_com_commit fd_com_cancel
proof unfold_locales
  fix q r n and i :: nat
  assume inv: "fd_inv q" and rd: "fd_reader q r"
  have r: "r \<in> set (fd_readers q)" using rd by (simp add: fd_reader_def)
  note pos = fd_inv_pos [OF inv r] and look = fd_inv_look [OF inv r]
  show "fd_peeked q r \<le> length (fd_pending q r)"
    using pos by (simp add: fd_peeked_def fd_pending_def)
  show "fd_com_peek q r = (Inl (QueueEmpty r), q)" if "fd_peeked q r = length (fd_pending q r)"
    using that pos by (simp add: fd_com_peek_def fd_peek_cases [OF inv r] look fd_views)
  show "\<exists>q'. fd_com_peek q r =
        (Inr (dval (fd_read_pos q) r + int (fd_peeked q r), fd_pending q r ! fd_peeked q r), q')
      \<and> fd_inv q' \<and> fd_reader q' r \<and> fd_pending q' r = fd_pending q r
      \<and> fd_peeked q' r = Suc (fd_peeked q r) \<and> dval (fd_read_pos q') r = dval (fd_read_pos q) r"
    if less: "fd_peeked q r < length (fd_pending q r)"
  proof -
    have tp: "dval (fd_tentative q) r < dval (fd_write_pos q) r"
      using less pos by (simp add: fd_views)
    let ?q = "q\<lparr>fd_tentative := dput r (dval (fd_tentative q) r + 1) (fd_tentative q)\<rparr>"
    have "fd_inv ?q" by (rule fd_set_tentative_inv [OF inv r]) (use pos tp in auto)
    moreover have "fd_pending q r ! fd_peeked q r
        = ring_get (fd_N q) (the (dget (fd_fifo q) r)) (dval (fd_tentative q) r)"
      using pos tp by (simp add: fd_views ring_slice_nth)
    ultimately show ?thesis
      using tp r pos by (simp add: fd_com_peek_def look fd_peek_cases [OF inv r])
        (simp add: fd_views nat_diff_distrib' Suc_nat_eq_nat_zadd1)
  qed
  show "\<exists>q'. fd_com_commit q r (dval (fd_read_pos q) r) = (Inr (Some Handled), q')
      \<and> fd_inv q' \<and> fd_reader q' r \<and> fd_pending q' r = tl (fd_pending q r)
      \<and> fd_peeked q' r = fd_peeked q r - 1 \<and> dval (fd_read_pos q') r = dval (fd_read_pos q) r + 1"
    if "0 < fd_peeked q r"
  proof -
    have lt: "dval (fd_read_pos q) r < dval (fd_tentative q) r"
      using that by (simp add: fd_peeked_def)
    let ?q = "q\<lparr>fd_read_pos := dput r (dval (fd_read_pos q) r + 1) (fd_read_pos q)\<rparr>"
    have "fd_inv ?q" by (rule fd_set_read_inv [OF inv r]) (use lt in auto)
    then show ?thesis
      using lt r pos by (simp add: fd_com_commit_def look) (auto simp: fd_views ring_slice_tl)
  qed
  show "fd_com_commit q r n = (Inr (Some Unhandled), q)"
    if "dval (fd_read_pos q) r < n" "n < dval (fd_read_pos q) r + int (fd_peeked q r)"
    using that pos by (simp add: fd_com_commit_def look fd_views)
  show "fd_com_commit q r n = (Inr (Some Invalid), q)" if "dval (fd_read_pos q) r + int (fd_peeked q r) \<le> n"
    using that pos by (simp add: fd_com_commit_def look fd_views)
  show "fd_com_commit q r n = (Inr (if fd_peeked q r = 0 then None else Some Unhandled), q)"
    if "n < dval (fd_read_pos q) r"
    using that pos by (simp add: fd_com_commit_def look fd_views)
  show "\<exists>q'. fd_com_cancel q r (dval (fd_read_pos q) r + int i) = (Inr Handled, q')
      \<and> fd_inv q' \<and> fd_reader q' r \<and> fd_pending q' r = fd_pending q r
      \<and> fd_peeked q' r = i \<and> dval (fd_read_pos q') r = dval (fd_read_pos q) r" if "i < fd_peeked q r"
  proof -
    have i: "dval (fd_read_pos q) r + int i < dval (fd_tentative q) r"
      using that by (simp add: fd_peeked_def)
    let ?q = "q\<lparr>fd_tentative := dput r (dval (fd_read_pos q) r + int i) (fd_tentative q)\<rparr>"
    have "fd_inv ?q" by (rule fd_set_tentative_inv [OF inv r]) (use pos i in auto)
    then show ?thesis
      using i r pos by (simp add: fd_com_cancel_def look fd_views)
  qed
  show "fd_com_cancel q r n = (Inl (AttributeError ''reader_pos''), q)"
    if "dval (fd_read_pos q) r + int (fd_peeked q r) \<le> n"
    using that pos by (simp add: fd_com_cancel_def look fd_views)
qed

text \<open>A firing that found one free slot writes without an exception.\<close>

definition fd_accepts :: "fanout_disp \<Rightarrow> token \<Rightarrow> bool" where
  "fd_accepts q d \<longleftrightarrow> (fd_kind q = MappedK \<longrightarrow> (\<exists>p v. fd_unwrap q d = (Inr p, v)))"

lemma fd_turns_ok:
  assumes "fd_inv q" "turn_ok q"
  shows "\<exists>ps. fd_turns q is = Inr ps \<and> (\<forall>p \<in> set ps. 0 \<le> p \<and> p < int (length (fd_readers q)))"
proof (induction "is")
  case (Cons i "is")
  then show ?case using turn_entry_ok [OF assms, of i] by auto
qed simp

lemma fd_peers_free_ok:
  "\<forall>p \<in> set ps. 0 \<le> p \<and> p < int (length (fd_readers q)) \<Longrightarrow> \<exists>b. fd_peers_free q peers ps = Inr b"
  by (induction ps) auto

lemma fd_slots_total:
  assumes "fd_ready q"
  shows "\<exists>b. fd_slots_available q n m = Inr b"
proof (cases "uses_turn (fd_kind q)")
  case True
  then have ok: "fd_inv q" "turn_ok q" using assms by (simp_all add: fd_ready_def)
  have "\<exists>b. fd_ordered_slots q n = Inr b"
  proof (cases "n < fd_N q \<and> n \<noteq> 1")
    case True
    obtain ps where "fd_turns q [fd_turn_pos q..fd_turn_pos q + n - 1] = Inr ps"
      "\<forall>p \<in> set ps. 0 \<le> p \<and> p < int (length (fd_readers q))"
      using fd_turns_ok [OF ok] by blast
    with True fd_peers_free_ok show ?thesis by (auto simp: fd_ordered_slots_def)
  next
    case False
    with next_reader_ok [OF ok] show ?thesis by (auto simp: fd_ordered_slots_def)
  qed
  with True show ?thesis by (cases "fd_kind q") (auto simp: fd_slots_available_def uses_turn_def)
next
  case False
  then show ?thesis by (cases "fd_kind q") (auto simp: fd_slots_available_def uses_turn_def)
qed

lemma fd_enough_pos:
  "fd_enough_slots q n acc rs \<Longrightarrow> acc < n \<Longrightarrow> \<exists>r \<in> set rs. 0 < fd_free q r"
  by (induction q n acc rs rule: fd_enough_slots.induct) (force simp: Let_def split: if_splits)+

lemma fd_slots_target:
  assumes ready: "fd_ready q" and slots: "fd_slots_available q 1 m = Inr True"
    and target: "fd_target q d p v" and port: "m \<notin> set (fd_readers q)"
  shows "0 < fd_free q p"
proof -
  have inv: "fd_inv q" and p: "p \<in> set (fd_readers q)"
    using ready target by (simp_all add: fd_ready_def fd_target_def)
  consider (turn) "uses_turn (fd_kind q)" | (bal) "fd_kind q = BalancedK" | (mapped) "fd_kind q = MappedK"
    by (cases "fd_kind q") (auto simp: uses_turn_def)
  then show ?thesis
  proof cases
    case turn
    then have "fd_ordered_slots q 1 = Inr True" "fd_next_reader q = Inr p" "turn_ok q"
      using slots target ready
      by (cases "fd_kind q"; auto simp: fd_slots_available_def fd_target_def uses_turn_def fd_ready_def)+
    with ordered_slots_one [OF inv \<open>turn_ok q\<close>] show ?thesis by auto
  next
    case bal
    then have "fd_enough_slots q 1 0 (fd_readers q)"
      using slots by (simp add: fd_slots_available_def split: if_splits)
    from fd_enough_pos [OF this] obtain r where "r \<in> set (fd_readers q)" "0 < fd_free q r" by auto
    with bal target show ?thesis by (force simp: fd_target_def)
  next
    case mapped
    with slots port p show ?thesis
      by (auto simp: fd_slots_available_def fd_mapped_slots_def list_all_iff fd_free_def)
  qed
qed

end
