(* ===== verification/Dispatch_Schedule.thy ===== *)
theory Dispatch_Schedule
  imports Fanout_Dispatch
begin

text \<open>
  The schedule of the ordered and round-robin queues: the connected readers are served in turn,
  what connecting and removing a reader does to the schedule, and the states in which the schedule
  is broken.
\<close>

section \<open>Alternating lists\<close>

lemma concat_replicate_nth:
  "i < n * length xs \<Longrightarrow> concat (replicate n xs) ! i = xs ! (i mod length xs)"
proof (induction n arbitrary: i)
  case (Suc n)
  show ?case
  proof (cases "i < length xs")
    case True
    then show ?thesis by (simp add: nth_append)
  next
    case False
    then have "i - length xs < n * length xs" using Suc.prems by simp
    with Suc.IH False show ?thesis by (simp add: nth_append le_mod_geq)
  qed
qed simp

lemma length_alternating [simp]: "length (alternating N k) = nat N * nat k"
  by (simp add: alternating_def length_concat sum_list_replicate)

lemma alternating_nth:
  assumes "0 < k" "i < nat N * nat k"
  shows "alternating N k ! i = int i mod k"
proof -
  have "alternating N k ! i = [0..k - 1] ! (i mod nat k)"
    using concat_replicate_nth [of i "nat N" "[0..k - 1]"] assms by (simp add: alternating_def)
  also have "\<dots> = int (i mod nat k)"
    using assms by (subst nth_upto) (auto simp: of_nat_mod)
  finally show ?thesis using assms by (simp add: of_nat_mod)
qed

lemma alternating_take_nth:
  assumes "0 < k" "0 < N" "i < nat N"
  shows "take (nat N) (alternating N k) ! i = int i mod k"
proof -
  have "nat N * 1 \<le> nat N * nat k" using assms by (intro mult_le_mono2) simp
  then have "i < nat N * nat k" using assms(3) by linarith
  then show ?thesis using assms by (simp add: alternating_nth)
qed

lemma length_alternating_take:
  assumes "0 < k" "0 < N" shows "length (take (nat N) (alternating N k)) = nat N"
proof -
  have "nat N * 1 \<le> nat N * nat k" using assms by (intro mult_le_mono2) simp
  then show ?thesis by simp
qed

section \<open>The round-robin order\<close>

text \<open>The schedule, read from the present position, continues \<open>s, s + 1, \<dots>\<close> modulo the number of peers.\<close>

definition rr_sched :: "fanout_disp \<Rightarrow> int \<Rightarrow> bool" where
  "rr_sched q s \<longleftrightarrow>
     (\<forall>i. 0 \<le> i \<and> i < fd_N q \<longrightarrow>
        the (fd_reader_turn q) ! nat ((fd_turn_pos q + i) mod fd_N q) = (s + i) mod fd_nbr_peers q)"

lemma rr_entry:
  assumes "fd_inv q" "turn_ok q" "rr_sched q s" "0 \<le> i" "i < fd_N q"
  shows "fd_turn_entry q (fd_turn_pos q + i) = Inr ((s + i) mod fd_nbr_peers q)"
  using turn_entry_ok [OF assms(1,2), of "fd_turn_pos q + i"] assms(3-5) by (auto simp: rr_sched_def)

lemma rr_next:
  assumes "fd_inv q" "turn_ok q" "rr_sched q s"
  shows "fd_turn_entry q (fd_turn_pos q) = Inr (s mod fd_nbr_peers q)"
proof -
  have "0 < fd_N q" using assms(1) by (simp add: fd_inv_def)
  then show ?thesis using rr_entry [OF assms, of 0] by simp
qed

lemma rr_prev:
  assumes "fd_inv q" "turn_ok q" "rr_sched q s"
  shows "fd_turn_entry q (fd_turn_pos q - 1) = Inr ((s + fd_N q - 1) mod fd_nbr_peers q)"
proof -
  have N: "0 < fd_N q" using assms(1) by (simp add: fd_inv_def)
  have "(fd_turn_pos q + (fd_N q - 1)) mod fd_N q = (fd_turn_pos q - 1) mod fd_N q"
    using mod_add_self2 [of "fd_turn_pos q - 1" "fd_N q"] by (simp add: algebra_simps)
  then have "fd_turn_entry q (fd_turn_pos q - 1) = fd_turn_entry q (fd_turn_pos q + (fd_N q - 1))"
    unfolding fd_turn_entry_def by (simp only:)
  with rr_entry [OF assms, of "fd_N q - 1"] N show ?thesis by (simp add: algebra_simps)
qed

lemma rr_put_turn:
  assumes inv: "fd_inv q" and ok: "turn_ok q" and rr: "rr_sched q s"
  shows "rr_sched (fd_put_turn q ((s + fd_N q) mod fd_nbr_peers q)) (s + 1)"
proof -
  obtain rt where rt: "fd_reader_turn q = Some rt" "int (length rt) = fd_N q"
    using ok by (auto simp: turn_ok_def split: option.splits)
  have N: "0 < fd_N q" using inv by (simp add: fd_inv_def)
  let ?x = "(s + fd_N q) mod fd_nbr_peers q"
  have "rt[nat (fd_turn_pos q mod fd_N q) := ?x] ! nat ((fd_turn_pos q + 1 + i) mod fd_N q)
      = (s + 1 + i) mod fd_nbr_peers q" if i: "0 \<le> i" "i < fd_N q" for i
  proof (cases "i = fd_N q - 1")
    case True
    have "nat (fd_turn_pos q mod fd_N q) < length rt" using N rt(2) by (simp add: nat_less_iff)
    moreover have "fd_turn_pos q + 1 + i = fd_turn_pos q + fd_N q" "s + 1 + i = s + fd_N q"
      using True by simp_all
    ultimately show ?thesis by (simp only: mod_add_self2 nth_list_update_eq)
  next
    case False
    then have i': "0 \<le> i + 1" "i + 1 < fd_N q" using i by auto
    have "(fd_turn_pos q + 1 + i) mod fd_N q \<noteq> fd_turn_pos q mod fd_N q"
    proof
      assume "(fd_turn_pos q + 1 + i) mod fd_N q = fd_turn_pos q mod fd_N q"
      then have "fd_N q dvd (fd_turn_pos q + 1 + i) - fd_turn_pos q" by (simp add: mod_eq_dvd_iff)
      then have "fd_N q dvd i + 1" by (simp add: algebra_simps)
      with i' i(1) show False using zdvd_imp_le [of "fd_N q" "i + 1"] by simp
    qed
    then have "nat (fd_turn_pos q mod fd_N q) \<noteq> nat ((fd_turn_pos q + 1 + i) mod fd_N q)"
      using N by (metis eq_nat_nat_iff pos_mod_sign)
    moreover have "rt ! nat ((fd_turn_pos q + (i + 1)) mod fd_N q) = (s + (i + 1)) mod fd_nbr_peers q"
      using rr i' rt(1) by (simp add: rr_sched_def)
    ultimately show ?thesis by (simp add: add.assoc add.commute [of 1])
  qed
  then show ?thesis by (simp add: rr_sched_def fd_put_turn_def rt(1))
qed

lemma rr_update_turn:
  assumes inv: "fd_inv q" and ok: "turn_ok q" and rr: "rr_sched q s"
    and kind: "fd_kind q \<in> {OrderedK, RoundRobinK}"
  shows "fd_update_turn q = (Inr (s mod fd_nbr_peers q), fd_put_turn q ((s + fd_N q) mod fd_nbr_peers q))"
proof -
  have "fd_nbr_peers q = int (length (fd_readers q))" using ok by (simp add: turn_ok_def)
  then have "fd_nbr_peers q \<noteq> 0" using next_reader_ok [OF inv ok] by auto
  moreover have "((s + fd_N q - 1) mod fd_nbr_peers q + 1) mod fd_nbr_peers q = (s + fd_N q) mod fd_nbr_peers q"
    by (simp add: mod_add_left_eq)
  ultimately show ?thesis
    using kind rr_next [OF inv ok rr] rr_prev [OF inv ok rr]
    by (auto simp: fd_update_turn_def)
qed

lemma rr_sched_pushed [simp]: "rr_sched (fd_pushed q p d) s = rr_sched q s"
  by (simp add: rr_sched_def)

text \<open>One accepted write: it goes to the reader whose turn it is, and the turn moves on.\<close>

lemma rr_write:
  assumes ready: "fd_ready q" and rr: "rr_sched q s" and kind: "fd_kind q \<in> {OrderedK, RoundRobinK}"
    and w: "fd_write q d m = (Inr True, q')"
  shows "fd_ready q' \<and> rr_sched q' (s + 1) \<and> fd_kind q' = fd_kind q \<and> fd_readers q' = fd_readers q
    \<and> fd_nbr_peers q' = fd_nbr_peers q
    \<and> (\<forall>r. fd_pending q' r = fd_pending q r @
          (if r = fd_readers q ! nat (s mod fd_nbr_peers q) then [d] else []))"
proof -
  have inv: "fd_inv q" and ok: "turn_ok q"
    using ready kind by (auto simp: fd_ready_def uses_turn_def)
  let ?q1 = "fd_put_turn q ((s + fd_N q) mod fd_nbr_peers q)"
  let ?p = "fd_readers q ! nat (s mod fd_nbr_peers q)"
  obtain x where x: "fd_turn_entry q (fd_turn_pos q) = Inr x" "0 \<le> x" "x < int (length (fd_readers q))"
    "fd_next_reader q = Inr (fd_readers q ! nat x)" "fd_readers q ! nat x \<in> set (fd_readers q)"
    using next_reader_ok [OF inv ok] by blast
  have xs: "x = s mod fd_nbr_peers q" using x(1) rr_next [OF inv ok rr] by simp
  obtain p q1 where p: "p \<in> set (fd_readers q)" "fd_next_reader q = Inr p" "fd_same q q1" "turn_ok q1"
    "fd_write_turn q d = (if 0 < fd_free q p then (Inr True, fd_pushed q1 p d) else (Inl QueueFull, q))"
    using fd_write_turn_cases [OF inv ok] by blast
  have wt: "fd_write_turn q d = (Inr True, q')" using w kind fd_write_kinds(2) [of q d m] by auto
  then have free: "0 < fd_free q p" using p(5) by (simp split: if_splits)
  have pe: "p = ?p" using p(2) x(4) xs by simp
  have same: "fd_same q ?q1" by simp
  note sv = fd_same_views [OF same]
  have ok1: "turn_ok ?q1"
  proof (rule turn_ok_put [OF ok])
    have "0 < int (length (fd_readers q))" using x(2,3) by linarith
    then show "0 \<le> (s + fd_N q) mod fd_nbr_peers q"
      and "(s + fd_N q) mod fd_nbr_peers q < int (length (fd_readers q))"
      using ok by (simp_all add: turn_ok_def)
  qed
  have inv1: "fd_inv ?q1" using inv fd_same_inv [OF same] by simp
  have q': "q' = fd_pushed ?q1 ?p d"
  proof -
    have os: "fd_ordered_slots q 1 = Inr True"
      using wt by (cases "fd_ordered_slots q 1") (auto simp: fd_write_turn_def split: if_splits)
    have "fd_write_turn q d = fd_put ?q1 ?p d"
      using os x xs sv by (simp add: fd_write_turn_def rr_update_turn [OF inv ok rr kind])
    also have "\<dots> = (Inr True, fd_pushed ?q1 ?p d)"
      by (rule fd_put_eq [OF inv1]) (use x(5) xs sv in simp)
    finally show ?thesis using wt by simp
  qed
  have mem: "?p \<in> set (fd_readers ?q1)" and free1: "0 < fd_free ?q1 ?p"
    using x(5) xs sv free pe by auto
  have "fd_ready q'"
    using q' fd_pushed_inv [OF inv1 mem free1] ok1 by (simp add: fd_ready_def)
  moreover have "rr_sched q' (s + 1)"
    using q' rr_put_turn [OF inv ok rr] by simp
  moreover have "fd_pending q' r = fd_pending q r @ (if r = ?p then [d] else [])" for r
    using q' fd_pushed_pending [OF inv1 mem free1] sv fd_same_views [OF same, of r] by simp
  ultimately show ?thesis using q' sv by simp
qed

lemma fd_write_True: "fd_write q d m = (Inr b, q') \<Longrightarrow> b = True"
  by (cases "fd_kind q")
    (auto simp: fd_write_def fd_write_token_def fd_write_turn_def fd_write_balanced_def fd_write_mapped_def
       fd_put_def Let_def and_then_def split: if_splits sum.splits prod.splits)

definition turn_share :: "int \<Rightarrow> int \<Rightarrow> int \<Rightarrow> 'a list \<Rightarrow> 'a list" where
  "turn_share s k p ds = map (nth ds) (filter (\<lambda>j. (s + int j) mod k = p) [0..<length ds])"

lemma turn_share_Nil [simp]: "turn_share s k p [] = []"
  by (simp add: turn_share_def)

lemma turn_share_Cons: "turn_share s k p (d # ds) = (if s mod k = p then [d] else []) @ turn_share (s + 1) k p ds"
proof -
  have "[0..<length (d # ds)] = 0 # map Suc [0..<length ds]"
    by (simp add: upt_conv_Cons map_Suc_upt del: upt_Suc)
  then show ?thesis
    by (simp add: turn_share_def filter_map o_def add.assoc add.commute [of 1] del: upt_Suc)
qed

lemma turn_share_snoc:
  "turn_share s k p (ds @ [d]) = turn_share s k p ds @ (if (s + int (length ds)) mod k = p then [d] else [])"
  by (induction ds arbitrary: s) (simp_all add: turn_share_Cons add.assoc)

section \<open>Connecting readers\<close>

lemma fd_add_reader_inv:
  assumes "fd_inv q"
  shows "fd_inv (fd_add_reader q r)"
proof -
  have b: "fd_inv (fd_base_add_reader q r)"
    using assms unfolding fd_inv_def fd_base_add_reader_def Let_def
    by (auto simp: ring_ok_def)
  have "fd_inv (x\<lparr>fd_readers := sort (fd_readers x)\<rparr>) = fd_inv x" for x
    by (simp add: fd_inv_def)
  with b show ?thesis by (simp add: fd_add_reader_def Let_def)
qed

text \<open>A schedule that is being filled: entries below the announced number of peers.\<close>

definition turn_planned :: "fanout_disp \<Rightarrow> bool" where
  "turn_planned q \<longleftrightarrow>
     (case fd_reader_turn q of
        None \<Rightarrow> False
      | Some rt \<Rightarrow> int (length rt) = fd_N q \<and> (\<forall>x \<in> set rt. 0 \<le> x \<and> x < fd_nbr_peers q))"

lemma turn_planned_ok:
  "turn_planned q \<Longrightarrow> fd_nbr_peers q = int (length (fd_readers q)) \<Longrightarrow> turn_ok q"
  by (auto simp: turn_planned_def turn_ok_def split: option.splits)

lemma turn_planned_add:
  assumes "turn_planned q"
  shows "turn_planned (fd_add_reader q r)"
  using assms by (fastforce simp: turn_planned_def fd_add_reader_def fd_base_add_reader_def Let_def
      split: option.splits)

lemma turn_planned_take:
  assumes "0 < k" "0 < N"
  shows "\<forall>x \<in> set (take (nat N) (alternating N k)). 0 \<le> x \<and> x < k"
proof
  fix x
  assume "x \<in> set (take (nat N) (alternating N k))"
  then have "x \<in> set (alternating N k)" by (rule in_set_takeD)
  then show "0 \<le> x \<and> x < k" by (auto simp: alternating_def split: if_splits)
qed

section \<open>Removing readers\<close>

lemma fd_base_remove_inv:
  assumes "fd_inv q"
  shows "fd_inv (snd (fd_base_remove_reader q r))"
  using assms by (auto simp: fd_inv_def fd_base_remove_reader_def)

lemma reset_turn_same_inv:
  "fd_inv q \<Longrightarrow> fd_inv (snd (fd_reset_turn q))"
proof -
  have upd: "fd_inv (x\<lparr>fd_reader_turn := a, fd_turn_pos := b\<rparr>) = fd_inv x" for x a b
    by (simp add: fd_inv_def)
  have rnd: "fd_inv (x\<lparr>fd_draws := a\<rparr>) = fd_inv x" for x a
    by (simp add: fd_inv_def)
  have rs: "fd_inv (snd (randranges k x n)) = fd_inv x" for k x n
  proof (induction k arbitrary: x)
    case (Suc k)
    obtain v y where vy: "randranges k (x\<lparr>fd_draws := Suc (fd_draws x)\<rparr>) n = (v, y)" by fastforce
    then have "fd_inv y = fd_inv x" using Suc [of "x\<lparr>fd_draws := Suc (fd_draws x)\<rparr>"] rnd by simp
    with vy show ?case by (cases v) (simp_all add: randrange_def)
  qed simp
  assume inv: "fd_inv q"
  show ?thesis
  proof (cases "fd_kind q = RandomK")
    case True
    then show ?thesis
      using inv rs [of "nat (fd_N q)" q "fd_nbr_peers q"]
      by (auto simp: fd_reset_turn_def upd split: prod.splits sum.splits)
  next
    case False
    with inv show ?thesis
      by (cases "fd_kind q") (auto simp: fd_reset_turn_def upd split: sum.splits)
  qed
qed

lemma fd_remove_reader_inv:
  assumes "fd_inv q"
  shows "fd_inv (snd (fd_remove_reader q r))"
proof -
  obtain b q1 where q1: "fd_base_remove_reader q r = (b, q1)" by fastforce
  have "fd_inv q1" using fd_base_remove_inv [OF assms, of r] q1 by simp
  with reset_turn_same_inv [OF this] show ?thesis
    by (auto simp: fd_remove_reader_def q1 and_then_def split: prod.splits sum.splits)
qed

text \<open>
  With one peer left the alternating list has \<open>N\<close> entries, so a schedule that starts at
  position 1 is one entry short, and the look at the previous entry fails.
\<close>

lemma alternating_one: "alternating N 1 = replicate (nat N) 0"
  by (simp add: alternating_def concat_replicate_single)

lemma fd_shrink_to_one:
  assumes ready: "fd_ready q" and kind: "fd_kind q \<in> {OrderedK, RoundRobinK}"
    and readers: "set (fd_readers q) = {a, b}" "a \<noteq> b" and turn: "fd_turn_entry q (fd_turn_pos q) = Inr 1"
  shows "\<exists>q'. fd_remove_reader q b = (Inr True, q') \<and> fd_readers q' = [a] \<and> fd_turn_pos q' = 0
    \<and> fd_reader_turn q' = Some (replicate (nat (fd_N q) - 1) 0) \<and> fd_nbr_peers q' = 1
    \<and> fd_kind q' = fd_kind q \<and> fd_N q' = fd_N q \<and> fd_free q' a = fd_free q a \<and> fd_inv q'"
proof -
  have inv: "fd_inv q" and ok: "turn_ok q" using ready kind by (auto simp: fd_ready_def uses_turn_def)
  have dist: "distinct (fd_readers q)" using inv by (simp add: fd_inv_def)
  have "length (fd_readers q) = 2"
    using distinct_card [OF dist] readers by simp
  then have n: "fd_nbr_peers q = 2" using ok by (simp add: turn_ok_def)
  have rem: "remove1 b (fd_readers q) = [a]"
    by (rule distinct_set_singleton) (use dist readers in auto)
  let ?q = "snd (fd_base_remove_reader q b)"
  have b: "fd_base_remove_reader q b = (True, ?q)"
    using readers by (auto simp: fd_base_remove_reader_def)
  have fields: "fd_readers ?q = [a]" "fd_nbr_peers ?q = 1" "fd_N ?q = fd_N q" "fd_kind ?q = fd_kind q"
    "fd_reader_turn ?q = fd_reader_turn q" "fd_turn_pos ?q = fd_turn_pos q" "fd_free ?q a = fd_free q a"
    using readers n rem by (auto simp: fd_base_remove_reader_def fd_free_def)
  have entry: "fd_turn_entry ?q (fd_turn_pos ?q) = Inr 1"
    using turn by (simp only: fd_turn_entry_def fields)
  let ?q' = "?q\<lparr>fd_reader_turn := Some (replicate (nat (fd_N q) - 1) 0), fd_turn_pos := 0\<rparr>"
  have reset: "fd_reset_turn ?q = (Inr (), ?q')"
    using kind entry fields by (auto simp: fd_reset_turn_def alternating_one)
  have "fd_inv ?q'"
    using reset_turn_same_inv [OF fd_base_remove_inv [OF inv, of b]] reset by simp
  moreover have "fd_remove_reader q b = (Inr True, ?q')"
    using kind b reset by (auto simp: fd_remove_reader_def split: prod.splits)
  moreover have "fd_free ?q' a = fd_free q a"
    using fields by (simp add: fd_free_def)
  ultimately show ?thesis using fields by (intro exI [of _ ?q']) simp
qed

end
