(* ===== verification/Collect_Queues.thy ===== *)
theory Collect_Queues
  imports Fanout_Dispatch
begin

text \<open>
  The collecting inport queues: \<open>CollectBase\<close> (plugins/port/queue/collect_base.py) with one
  ring buffer per writer, and its subclasses \<open>CollectUnordered\<close>, \<open>CollectTagged\<close>,
  \<open>CollectSynced\<close> and \<open>CollectAny\<close>, which differ in how an action reads: one writer at a
  time in turn, the same with the writer's tag, one token of every writer as a dictionary, or one
  token of every writer that has any.
\<close>

section \<open>State\<close>

datatype collect_kind = UnorderedK | TaggedK | SyncedK | AnyK

record collect_queue =
  cq_kind :: collect_kind
  cq_type :: "string option"
  cq_fifo :: "(string, token list) dict"
  cq_nbr_peers :: int
  cq_N :: int
  cq_writers :: "string list"
  cq_write_pos :: "(string, int) dict"
  cq_read_pos :: "(string, int) dict"
  cq_tentative :: "(string, int) dict"
  cq_tags :: "(string, pyval) dict"
  cq_tags_are_ordering :: bool
  cq_exhausted :: "(string, (int \<times> token) list) dict"
  cq_termination :: "(string, disconnect \<times> bool) dict"
  cq_reader :: "string option"
  cq_turn_pos :: int
  cq_peek_turn_pos :: int

fun collect_type :: "collect_kind \<Rightarrow> string" where
  "collect_type UnorderedK = ''collect:unordered''"
| "collect_type TaggedK = ''collect:tagged''"
| "collect_type SyncedK = ''collect:all-tagged''"
| "collect_type AnyK = ''collect:any-tagged''"

definition cq_init :: "collect_kind \<Rightarrow> port_props \<Rightarrow> collect_queue" where
  "cq_init k pp =
     \<lparr>cq_kind = k, cq_type = Some (collect_type k), cq_fifo = [],
      cq_nbr_peers = opt_default 1 (pp_nbr_peers pp),
      cq_N = opt_default 4 (pp_queue_length pp) + 1,
      cq_writers = [], cq_write_pos = [], cq_read_pos = [], cq_tentative = [],
      cq_tags = [], cq_tags_are_ordering = False, cq_exhausted = [], cq_termination = [],
      cq_reader = None, cq_turn_pos = 0, cq_peek_turn_pos = -1\<rparr>"

section \<open>Writers and configuration\<close>

definition cq_add_writer :: "collect_queue \<Rightarrow> string \<Rightarrow> port_props \<Rightarrow> collect_queue" where
  "cq_add_writer q w pp =
     (let q1 = (if w \<in> set (cq_writers q) then q
                else q\<lparr>cq_read_pos := dput w 0 (cq_read_pos q), cq_write_pos := dput w 0 (cq_write_pos q),
                       cq_tentative := dput w 0 (cq_tentative q),
                       cq_fifo := (if w \<in> dkeys (cq_fifo q) then cq_fifo q
                                   else dput w (replicate (nat (cq_N q)) (Token (PInt 0))) (cq_fifo q)),
                       cq_writers := sort (cq_writers q @ [w])\<rparr>);
          q2 = (if int (length (cq_writers q1)) > cq_nbr_peers q1
                then q1\<lparr>cq_nbr_peers := int (length (cq_writers q1))\<rparr> else q1)
      in if dget (cq_tags q2) w = None \<or> dget (cq_tags q2) w = Some PNone
         then q2\<lparr>cq_tags := dput w (opt_default (PStr w) (pp_tag pp)) (cq_tags q2)\<rparr>
         else q2)"

text \<open>Each \<open>del\<close> raises KeyError for an unknown writer; the first one is on \<open>read_pos\<close>.\<close>

definition cq_remove_writer :: "collect_queue \<Rightarrow> string \<Rightarrow> (unit, collect_queue) out" where
  "cq_remove_writer q w =
     (case dlook (cq_read_pos q) w of
        Inl e \<Rightarrow> (Inl e, q)
      | Inr _ \<Rightarrow>
          (Inr (), q\<lparr>cq_read_pos := ddel w (cq_read_pos q), cq_tentative := ddel w (cq_tentative q),
                     cq_write_pos := ddel w (cq_write_pos q), cq_fifo := ddel w (cq_fifo q),
                     cq_tags := ddel w (cq_tags q), cq_writers := remove1 w (cq_writers q),
                     cq_nbr_peers := cq_nbr_peers q - 1\<rparr>))"

definition cq_add_reader :: "collect_queue \<Rightarrow> string \<Rightarrow> collect_queue" where
  "cq_add_reader q r = q\<lparr>cq_reader := Some r\<rparr>"

definition cq_remove_reader :: "collect_queue \<Rightarrow> string \<Rightarrow> collect_queue" where
  "cq_remove_reader q r = q"

definition invert_mapping :: "(pyval, string) dict \<Rightarrow> (string, pyval) dict" where
  "invert_mapping m = fold (\<lambda>(k, v) d. dput v k d) m []"

text \<open>
  An illegal mapping raises; the error message of \<open>CollectAny\<close> prints \<open>self.readers\<close>, an
  attribute it does not have, so there it is an AttributeError.
\<close>

definition cq_set_port_mapping :: "collect_queue \<Rightarrow> (pyval, string) dict \<Rightarrow> (unit, collect_queue) out" where
  "cq_set_port_mapping q m =
     (if cq_kind q = UnorderedK then (Inl NotImplementedError, q)
      else if set (map snd m) \<noteq> set (cq_writers q)
      then (Inl (if cq_kind q = AnyK then AttributeError ''readers''
                 else PyException ''Illegal port mapping dictionary''), q)
      else (Inr (), q\<lparr>cq_tags := invert_mapping m\<rparr>))"

fun py_list_index :: "'a list \<Rightarrow> 'a \<Rightarrow> int" where
  "py_list_index [] x = 0"
| "py_list_index (y # ys) x = (if y = x then 0 else 1 + py_list_index ys x)"

definition cq_set_port_order :: "collect_queue \<Rightarrow> string list \<Rightarrow> (unit, collect_queue) out" where
  "cq_set_port_order q order =
     (if cq_kind q \<noteq> SyncedK then (Inl NotImplementedError, q)
      else if set order \<noteq> set (cq_writers q) then (Inl (PyException ''Illegal port ordering''), q)
      else (Inr (), q\<lparr>cq_tags_are_ordering := True,
                      cq_tags := fold (\<lambda>v d. dput v (PInt (py_list_index order v)) d) order []\<rparr>))"

definition cq_set_config :: "collect_queue \<Rightarrow> port_config \<Rightarrow> (unit, collect_queue) out" where
  "cq_set_config q c =
     (case pc_port_mapping c of
        Some m \<Rightarrow> cq_set_port_mapping q m
      | None \<Rightarrow> (case pc_port_order c of Some ord \<Rightarrow> cq_set_port_order q ord | None \<Rightarrow> (Inr (), q)))"

section \<open>Serialisation\<close>

record cq_state =
  cs_queuetype :: "string option"
  cs_fifo :: "(string, pyval list) dict"
  cs_N :: int
  cs_writers :: "string list"
  cs_write_pos :: "(string, int) dict"
  cs_read_pos :: "(string, int) dict"
  cs_tentative :: "(string, int) dict"
  cs_tags :: "(string, pyval) dict option"
  cs_tags_are_ordering :: "bool option"
  cs_turn_pos :: "int option"

definition is_turn_kind :: "collect_kind \<Rightarrow> bool" where
  "is_turn_kind k \<longleftrightarrow> k = UnorderedK \<or> k = TaggedK"

definition cq_get_state :: "collect_queue \<Rightarrow> cq_state" where
  "cq_get_state q =
     \<lparr>cs_queuetype = cq_type q,
      cs_fifo = map (\<lambda>(p, ts). (p, map repr_for_coder ts)) (cq_fifo q),
      cs_N = cq_N q, cs_writers = cq_writers q, cs_write_pos = cq_write_pos q,
      cs_read_pos = cq_read_pos q, cs_tentative = cq_tentative q,
      cs_tags = Some (cq_tags q), cs_tags_are_ordering = Some (cq_tags_are_ordering q),
      cs_turn_pos = (if is_turn_kind (cq_kind q) then Some (cq_turn_pos q) else None)\<rparr>"

definition cq_set_state :: "collect_queue \<Rightarrow> cq_state \<Rightarrow> (unit, collect_queue) out" where
  "cq_set_state q s =
     (let q1 = q\<lparr>cq_type := cs_queuetype s\<rparr>
      in case decode_fifos (cs_fifo s) of
           Inl e \<Rightarrow> (Inl e, q1)
         | Inr d \<Rightarrow>
             (let q2 = q1\<lparr>cq_fifo := d, cq_N := cs_N s, cq_writers := cs_writers s,
                          cq_write_pos := cs_write_pos s, cq_read_pos := cs_read_pos s,
                          cq_tentative := cs_tentative s, cq_tags := opt_default [] (cs_tags s),
                          cq_tags_are_ordering := opt_default False (cs_tags_are_ordering s)\<rparr>
              in if is_turn_kind (cq_kind q2)
                 then (case cs_turn_pos s of
                         None \<Rightarrow> (Inl KeyError, q2) | Some t \<Rightarrow> (Inr (), q2\<lparr>cq_turn_pos := t\<rparr>))
                 else (Inr (), q2)))"

section \<open>Writing\<close>

definition cq_slots_available :: "collect_queue \<Rightarrow> int \<Rightarrow> string \<Rightarrow> bool res" where
  "cq_slots_available q n m =
     (if m \<notin> set (cq_writers q) then Inl (PyException ''No writer'')
      else Inr (n < cq_N q \<and> dval (cq_write_pos q) m - dval (cq_read_pos q) m < cq_N q - n))"

definition cq_write :: "collect_queue \<Rightarrow> token \<Rightarrow> string \<Rightarrow> (bool, collect_queue) out" where
  "cq_write q d m =
     (case cq_slots_available q 1 m of
        Inl e \<Rightarrow> (Inl e, q)
      | Inr ok \<Rightarrow>
          if \<not> ok then (Inl QueueFull, q)
          else case (dlook (cq_write_pos q) m, dlook (cq_fifo q) m) of
                 (Inr wp, Inr buf) \<Rightarrow>
                   (Inr True, q\<lparr>cq_fifo := dput m (ring_put (cq_N q) buf wp d) (cq_fifo q),
                                cq_write_pos := dput m (wp + 1) (cq_write_pos q)\<rparr>)
               | _ \<Rightarrow> (Inl KeyError, q))"

definition cq_com_write :: "collect_queue \<Rightarrow> token \<Rightarrow> string \<Rightarrow> int \<Rightarrow> (commit_response, collect_queue) out" where
  "cq_com_write q d m n =
     (case dlook (cq_write_pos q) m of
        Inl e \<Rightarrow> (Inl e, q)
      | Inr wp \<Rightarrow>
          if n = wp then and_then (cq_write q d m) (\<lambda>_ q1. (Inr Handled, q1))
          else if n < wp then (Inr Unhandled, q)
          else (Inr Invalid, q))"

section \<open>Reading\<close>

definition cq_unread :: "collect_queue \<Rightarrow> string \<Rightarrow> int" where
  "cq_unread q w = dval (cq_write_pos q) w - dval (cq_tentative q) w"

fun cq_enough_tokens :: "collect_queue \<Rightarrow> int \<Rightarrow> int \<Rightarrow> string list \<Rightarrow> bool" where
  "cq_enough_tokens q n acc [] = False"
| "cq_enough_tokens q n acc (w # ws) =
     (let acc' = acc + cq_unread q w in if acc' \<ge> n then True else cq_enough_tokens q n acc' ws)"

definition cq_tokens_available :: "collect_queue \<Rightarrow> int \<Rightarrow> bool" where
  "cq_tokens_available q n =
     (if n \<ge> cq_N q then False
      else case cq_kind q of
             SyncedK \<Rightarrow> list_all (\<lambda>w. \<not> cq_unread q w < n) (cq_writers q)
           | AnyK \<Rightarrow> list_ex (\<lambda>w. cq_unread q w \<ge> n) (cq_writers q)
           | _ \<Rightarrow> cq_enough_tokens q n 0 (cq_writers q))"

text \<open>The token at a writer's tentative position, and the position moved on.\<close>

definition cq_head :: "collect_queue \<Rightarrow> string \<Rightarrow> token" where
  "cq_head q w = ring_get (cq_N q) (the (dget (cq_fifo q) w)) (dval (cq_tentative q) w)"

definition cq_advance :: "collect_queue \<Rightarrow> string \<Rightarrow> int \<Rightarrow> collect_queue" where
  "cq_advance q w k = q\<lparr>cq_tentative := dput w (dval (cq_tentative q) w + k) (cq_tentative q)\<rparr>"

definition cq_tag :: "collect_queue \<Rightarrow> string \<Rightarrow> pyval res" where
  "cq_tag q w = dlook (cq_tags q) w"

text \<open>\<open>CollectUnordered.peek\<close> and \<open>CollectTagged.peek\<close>: the loop over \<open>xrange\<close>.\<close>

fun cq_turn_loop :: "collect_queue \<Rightarrow> string \<Rightarrow> int list \<Rightarrow> (token, collect_queue) out" where
  "cq_turn_loop q m [] = (Inl (QueueEmpty m), q)"
| "cq_turn_loop q m (i # is) =
     (let n = int (length (cq_writers q)); w = cq_writers q ! nat (i mod n)
      in if cq_unread q w \<ge> 1
         then let data = cq_head q w;
                  q1 = cq_advance q w 1;
                  q2 = (if cq_peek_turn_pos q1 = -1 then q1\<lparr>cq_peek_turn_pos := cq_turn_pos q1\<rparr> else q1);
                  q3 = q2\<lparr>cq_turn_pos := (i + 1) mod n\<rparr>
              in if cq_kind q = TaggedK
                 then (case cq_tag q w of
                         Inl e \<Rightarrow> (Inl e, q3)
                       | Inr tag \<Rightarrow> (Inr (data\<lparr>tval := PDict [(tag, tval data)]\<rparr>), q3))
                 else (Inr data, q3)
         else cq_turn_loop q m is)"

definition cq_peek_turn :: "collect_queue \<Rightarrow> string \<Rightarrow> (token, collect_queue) out" where
  "cq_peek_turn q m =
     cq_turn_loop q m [cq_turn_pos q..cq_turn_pos q + int (length (cq_writers q)) - 1]"

text \<open>\<open>for w in self.writers: if w is writer: break; self.tentative_read_pos[w] -= 1\<close>.\<close>

fun cq_undo_before :: "collect_queue \<Rightarrow> string \<Rightarrow> string list \<Rightarrow> collect_queue" where
  "cq_undo_before q writer [] = q"
| "cq_undo_before q writer (w # ws) =
     (if w = writer then q else cq_undo_before (cq_advance q w (-1)) writer ws)"

text \<open>An exception token is returned alone, with its tag; the previous peeks are undone.\<close>

definition cq_return_exception :: "collect_queue \<Rightarrow> string \<Rightarrow> token \<Rightarrow> (token, collect_queue) out" where
  "cq_return_exception q w data =
     (let q1 = cq_undo_before q w (cq_writers q)
      in case cq_tag q w of
           Inl e \<Rightarrow> (Inl e, q1)
         | Inr tag \<Rightarrow> (Inr (data\<lparr>tval := PDict [(tag, tval data)]\<rparr>), cq_advance q1 w 1))"

text \<open>
  The loop of \<open>CollectSynced.peek\<close> and \<open>CollectAny.peek\<close>; the latter skips writers without
  a token.  The first component of the result is the dictionary collected, or the exception token.
\<close>

fun cq_collect_loop :: "collect_queue \<Rightarrow> (pyval, pyval) dict \<Rightarrow> string list \<Rightarrow>
    ((pyval, pyval) dict + token, collect_queue) out" where
  "cq_collect_loop q value [] = (Inr (Inl value), q)"
| "cq_collect_loop q value (w # ws) =
     (if cq_kind q = AnyK \<and> cq_unread q w = 0 then cq_collect_loop q value ws
      else let data = cq_head q w
           in if is_exception_token data
              then and_then (cq_return_exception q w data) (\<lambda>t q1. (Inr (Inr t), q1))
              else let q1 = cq_advance q w 1
                   in case cq_tag q w of
                        Inl e \<Rightarrow> (Inl e, q1)
                      | Inr tag \<Rightarrow> cq_collect_loop q1 (dput tag (tval data) value) ws)"

text \<open>After \<open>_set_port_order\<close> the tags are the positions in the ordering.\<close>

fun tag_position :: "pyval \<Rightarrow> int" where
  "tag_position (PInt i) = i"
| "tag_position _ = 0"

definition cq_peek_synced :: "collect_queue \<Rightarrow> string \<Rightarrow> (token, collect_queue) out" where
  "cq_peek_synced q m =
     (if \<not> cq_tokens_available q 1 then (Inl (QueueEmpty m), q)
      else and_then (cq_collect_loop q [] (cq_writers q)) (\<lambda>r q1.
             case r of
               Inr t \<Rightarrow> (Inr t, q1)
             | Inl value \<Rightarrow>
                 (Inr (Token (if cq_tags_are_ordering q
                              then PList (map snd (sort_key (\<lambda>p. tag_position (fst p)) value))
                              else PDict value)), q1)))"

definition cq_peek_any :: "collect_queue \<Rightarrow> string \<Rightarrow> (token, collect_queue) out" where
  "cq_peek_any q m =
     and_then (cq_collect_loop q [] (cq_writers q)) (\<lambda>r q1.
       case r of
         Inr t \<Rightarrow> (Inr t, q1)
       | Inl value \<Rightarrow> if value \<noteq> [] then (Inr (Token (PDict value)), q1) else (Inl (QueueEmpty m), q1))"

definition cq_peek :: "collect_queue \<Rightarrow> string \<Rightarrow> (token, collect_queue) out" where
  "cq_peek q m =
     (case cq_kind q of SyncedK \<Rightarrow> cq_peek_synced q m | AnyK \<Rightarrow> cq_peek_any q m | _ \<Rightarrow> cq_peek_turn q m)"

section \<open>Exhaustion\<close>

definition cq_is_exhausting :: "collect_queue \<Rightarrow> string option \<Rightarrow> bool" where
  "cq_is_exhausting q peer =
     (case peer of None \<Rightarrow> cq_termination q \<noteq> [] | Some p \<Rightarrow> p \<in> dkeys (cq_termination q))"

definition cq_exhaust :: "collect_queue \<Rightarrow> string \<Rightarrow> disconnect \<Rightarrow> (int \<times> token) list \<times> collect_queue" where
  "cq_exhaust q p term = ([], q\<lparr>cq_termination := dput p (term, False) (cq_termination q)\<rparr>)"

definition cq_any_outstanding :: "collect_queue \<Rightarrow> bool" where
  "cq_any_outstanding q = list_ex (\<lambda>(p, t). \<not> snd t) (cq_termination q)"

fun cq_transfer :: "collect_queue \<Rightarrow> string \<Rightarrow> (int \<times> token) list \<Rightarrow> (bool, collect_queue) out" where
  "cq_transfer q p [] = (Inr True, q)"
| "cq_transfer q p ((pos, t) # ts) =
     (case cq_slots_available q 1 p of
        Inl e \<Rightarrow> (Inl e, q)
      | Inr ok \<Rightarrow>
          if \<not> ok then (Inr False, q)
          else and_then (cq_com_write q t p pos) (\<lambda>_ q1.
                 cq_transfer (q1\<lparr>cq_exhausted := dput p ts (cq_exhausted q1)\<rparr>) p ts))"

text \<open>
  The loop over \<open>exhausted_tokens.items()\<close>: the entries to remove.  In
  \<open>set_exhausted_tokens\<close> (\<open>drp\<close>) the entries of unknown writers are removed, too.
\<close>

fun cq_transfer_all :: "bool \<Rightarrow> collect_queue \<Rightarrow> (string, (int \<times> token) list) dict \<Rightarrow>
    (string list, collect_queue) out" where
  "cq_transfer_all drp q [] = (Inr [], q)"
| "cq_transfer_all drp q ((p, ts) # ps) =
     (if drp \<and> p \<notin> set (cq_writers q)
      then and_then (cq_transfer_all drp q ps) (\<lambda>rm q1. (Inr (p # rm), q1))
      else and_then (cq_transfer q p ts) (\<lambda>emptied q1.
             and_then (cq_transfer_all drp q1 ps) (\<lambda>rm q2.
               (Inr (if emptied then p # rm else rm), q2))))"

definition cq_move_exhausted :: "bool \<Rightarrow> collect_queue \<Rightarrow> (unit, collect_queue) out" where
  "cq_move_exhausted drp q =
     and_then (cq_transfer_all drp q (cq_exhausted q)) (\<lambda>rm q1.
       (Inr (), q1\<lparr>cq_exhausted := fold ddel rm (cq_exhausted q1)\<rparr>))"

definition recv_kind :: "disconnect \<Rightarrow> bool" where
  "recv_kind d \<longleftrightarrow> d \<in> {EXHAUST_PEER_RECV, EXHAUST_INPORT}"

fun cq_confirm_all :: "collect_queue \<Rightarrow> string list \<Rightarrow> (unit, collect_queue) out" where
  "cq_confirm_all q [] = (Inr (), q)"
| "cq_confirm_all q (p # ps) =
     (case dlook (cq_termination q) p of
        Inl e \<Rightarrow> (Inl e, q)
      | Inr t \<Rightarrow> cq_confirm_all (q\<lparr>cq_termination := dput p (fst t, True) (cq_termination q)\<rparr>) ps)"

definition cq_drop_writer :: "collect_queue \<Rightarrow> string \<Rightarrow> (unit, collect_queue) out" where
  "cq_drop_writer q p =
     and_then (cq_remove_writer q p) (\<lambda>_ q1. (Inr (), q1\<lparr>cq_termination := ddel p (cq_termination q1)\<rparr>))"

fun cq_finish_all :: "collect_queue \<Rightarrow> string list \<Rightarrow> (unit, collect_queue) out" where
  "cq_finish_all q [] = (Inr (), q)"
| "cq_finish_all q (p # ps) =
     (if p \<notin> set (cq_writers q) then cq_finish_all q ps
      else if dval (cq_write_pos q) p = dval (cq_read_pos q) p
      then (case dlook (cq_termination q) p of
              Inl e \<Rightarrow> (Inl e, q)
            | Inr t \<Rightarrow>
                if recv_kind (fst t) then and_then (cq_drop_writer q p) (\<lambda>_ q1. cq_finish_all q1 ps)
                else cq_finish_all q ps)
      else cq_finish_all q ps)"

definition cq_set_exhausted_tokens :: "collect_queue \<Rightarrow> (string, (int \<times> token) list) dict \<Rightarrow> (int, collect_queue) out" where
  "cq_set_exhausted_tokens q tokens =
     (let q1 = q\<lparr>cq_exhausted := dupdate (cq_exhausted q)
                   (map (\<lambda>(k, v). (k, opt_default [] (dget (cq_exhausted q) k) @ v)) tokens)\<rparr>
      in and_then (cq_confirm_all q1 (map fst tokens)) (\<lambda>_ q2.
           and_then (cq_move_exhausted True q2) (\<lambda>_ q3.
             and_then (cq_finish_all q3 (map fst tokens)) (\<lambda>_ q4. (Inr (cq_nbr_peers q4), q4)))))"

section \<open>Committing and cancelling a firing\<close>

definition cq_commit_reads :: "collect_queue \<Rightarrow> collect_queue" where
  "cq_commit_reads q =
     q\<lparr>cq_read_pos := fold (\<lambda>w d. dput w (dval (cq_tentative q) w) d) (cq_writers q) (cq_read_pos q)\<rparr>"

text \<open>The terminations that are confirmed and whose buffer is fully consumed.\<close>

fun cq_terminated :: "collect_queue \<Rightarrow> (string, disconnect \<times> bool) dict \<Rightarrow> string list res" where
  "cq_terminated q [] = Inr []"
| "cq_terminated q ((p, t) # ps) =
     (case (dlook (cq_write_pos q) p, dlook (cq_read_pos q) p) of
        (Inr wp, Inr rp) \<Rightarrow>
          (case cq_terminated q ps of
             Inl e \<Rightarrow> Inl e
           | Inr rest \<Rightarrow> Inr (if wp = rp \<and> recv_kind (fst t) \<and> snd t then p # rest else rest))
      | _ \<Rightarrow> Inl KeyError)"

fun cq_drop_all :: "collect_queue \<Rightarrow> string list \<Rightarrow> (unit, collect_queue) out" where
  "cq_drop_all q [] = (Inr (), q)"
| "cq_drop_all q (p # ps) = and_then (cq_drop_writer q p) (\<lambda>_ q1. cq_drop_all q1 ps)"

definition cq_base_commit :: "collect_queue \<Rightarrow> (bool, collect_queue) out" where
  "cq_base_commit q =
     and_then (cq_move_exhausted False (cq_commit_reads q)) (\<lambda>_ q1.
       case cq_terminated q1 (cq_termination q1) of
         Inl e \<Rightarrow> (Inl e, q1)
       | Inr rm \<Rightarrow> and_then (cq_drop_all q1 rm) (\<lambda>_ q2. (Inr (rm \<noteq> []), q2)))"

definition cq_commit :: "collect_queue \<Rightarrow> string \<Rightarrow> (bool, collect_queue) out" where
  "cq_commit q m =
     cq_base_commit (if is_turn_kind (cq_kind q) then q\<lparr>cq_peek_turn_pos := -1\<rparr> else q)"

definition cq_base_cancel :: "collect_queue \<Rightarrow> collect_queue" where
  "cq_base_cancel q =
     q\<lparr>cq_tentative := fold (\<lambda>w d. dput w (dval (cq_read_pos q) w) d) (cq_writers q) (cq_tentative q)\<rparr>"

definition cq_cancel :: "collect_queue \<Rightarrow> string \<Rightarrow> (unit, collect_queue) out" where
  "cq_cancel q m =
     (Inr (), cq_base_cancel
        (if is_turn_kind (cq_kind q)
         then q\<lparr>cq_turn_pos := cq_peek_turn_pos q, cq_peek_turn_pos := -1\<rparr> else q))"

text \<open>An inport queue has no sequence-numbered reading side.\<close>

definition cq_com_unsupported :: "collect_queue \<Rightarrow> ('a, collect_queue) out" where
  "cq_com_unsupported q = (Inl NotImplementedError, q)"

end
