(* ===== verification/Collect_Lemmas.thy ===== *)
theory Collect_Lemmas
  imports Collect_Queues
begin

text \<open>
  Correctness of the collecting queues: the invariant and its preservation, the delivery contract,
  the firing contract, what one \<open>peek\<close> of each kind reads, and the moving of exhausted tokens.
\<close>

section \<open>Invariant\<close>

definition cq_inv :: "collect_queue \<Rightarrow> bool" where
  "cq_inv q \<longleftrightarrow>
     0 < cq_N q \<and> distinct (cq_writers q)
     \<and> dict_ok (cq_fifo q) \<and> dict_ok (cq_write_pos q) \<and> dict_ok (cq_read_pos q) \<and> dict_ok (cq_tentative q)
     \<and> dkeys (cq_fifo q) = set (cq_writers q) \<and> dkeys (cq_write_pos q) = set (cq_writers q)
     \<and> dkeys (cq_read_pos q) = set (cq_writers q) \<and> dkeys (cq_tentative q) = set (cq_writers q)
     \<and> set (cq_writers q) \<subseteq> dkeys (cq_tags q)
     \<and> (\<forall>w \<in> set (cq_writers q).
          ring_ok (cq_N q) (the (dget (cq_fifo q) w))
          \<and> 0 \<le> dval (cq_read_pos q) w
          \<and> dval (cq_read_pos q) w \<le> dval (cq_tentative q) w
          \<and> dval (cq_tentative q) w \<le> dval (cq_write_pos q) w
          \<and> dval (cq_write_pos q) w - dval (cq_read_pos q) w < cq_N q)"

text \<open>The tokens of a writer that are not committed, and those not yet peeked.\<close>

definition cq_held :: "collect_queue \<Rightarrow> string \<Rightarrow> token list" where
  "cq_held q w =
     ring_slice (cq_N q) (the (dget (cq_fifo q) w)) (dval (cq_read_pos q) w) (dval (cq_write_pos q) w)"

definition cq_new :: "collect_queue \<Rightarrow> string \<Rightarrow> token list" where
  "cq_new q w =
     ring_slice (cq_N q) (the (dget (cq_fifo q) w)) (dval (cq_tentative q) w) (dval (cq_write_pos q) w)"

definition cq_writer :: "collect_queue \<Rightarrow> string \<Rightarrow> bool" where
  "cq_writer q w \<longleftrightarrow> w \<in> set (cq_writers q)"

definition cq_room :: "collect_queue \<Rightarrow> string \<Rightarrow> bool" where
  "cq_room q w \<longleftrightarrow> dval (cq_write_pos q) w - dval (cq_read_pos q) w < cq_N q - 1"

lemma cq_inv_look:
  assumes "cq_inv q" "w \<in> set (cq_writers q)"
  shows "dlook (cq_read_pos q) w = Inr (dval (cq_read_pos q) w)"
    and "dlook (cq_tentative q) w = Inr (dval (cq_tentative q) w)"
    and "dlook (cq_write_pos q) w = Inr (dval (cq_write_pos q) w)"
    and "dlook (cq_fifo q) w = Inr (the (dget (cq_fifo q) w))"
    and "cq_tag q w = Inr (the (dget (cq_tags q) w))"
proof -
  have "w \<in> dkeys (cq_fifo q)" "w \<in> dkeys (cq_tags q)" using assms by (auto simp: cq_inv_def)
  then show "dlook (cq_fifo q) w = Inr (the (dget (cq_fifo q) w))"
    and "cq_tag q w = Inr (the (dget (cq_tags q) w))" by (auto simp: dkeys_iff cq_tag_def)
qed (use assms in \<open>simp_all add: cq_inv_def dlook_dval\<close>)

lemma cq_inv_pos:
  assumes "cq_inv q" "w \<in> set (cq_writers q)"
  shows "0 \<le> dval (cq_read_pos q) w" "dval (cq_read_pos q) w \<le> dval (cq_tentative q) w"
    "dval (cq_tentative q) w \<le> dval (cq_write_pos q) w"
    "dval (cq_write_pos q) w - dval (cq_read_pos q) w < cq_N q"
    "ring_ok (cq_N q) (the (dget (cq_fifo q) w))"
  using assms by (auto simp: cq_inv_def)

lemma cq_new_held: "cq_inv q \<Longrightarrow> w \<in> set (cq_writers q) \<Longrightarrow>
    cq_new q w = drop (nat (dval (cq_tentative q) w - dval (cq_read_pos q) w)) (cq_held q w)"
  using cq_inv_pos [of q w] by (simp add: cq_new_def cq_held_def ring_slice_drop)

lemma cq_unread_pos: "cq_inv q \<Longrightarrow> w \<in> set (cq_writers q) \<Longrightarrow> cq_unread q w \<ge> 1 \<longleftrightarrow> cq_new q w \<noteq> []"
  by (cases "1 \<le> cq_unread q w") (auto simp: cq_unread_def cq_new_def ring_slice_head ring_slice_empty)

lemma cq_unread_nonneg: "cq_inv q \<Longrightarrow> w \<in> set (cq_writers q) \<Longrightarrow> 0 \<le> cq_unread q w"
  using cq_inv_pos [of q w] by (simp add: cq_unread_def)

lemma cq_new_cons: "cq_inv q \<Longrightarrow> w \<in> set (cq_writers q) \<Longrightarrow> cq_unread q w \<ge> 1 \<Longrightarrow>
    cq_new q w = cq_head q w # cq_new (cq_advance q w 1) w"
  by (simp add: cq_unread_def cq_new_def cq_head_def cq_advance_def ring_slice_head)

section \<open>Writing\<close>

definition cq_pushed :: "collect_queue \<Rightarrow> string \<Rightarrow> token \<Rightarrow> collect_queue" where
  "cq_pushed q w d =
     q\<lparr>cq_fifo := dput w (ring_put (cq_N q) (the (dget (cq_fifo q) w)) (dval (cq_write_pos q) w) d) (cq_fifo q),
       cq_write_pos := dput w (dval (cq_write_pos q) w + 1) (cq_write_pos q)\<rparr>"

lemma cq_slots_eq: "w \<in> set (cq_writers q) \<Longrightarrow> cq_inv q \<Longrightarrow> cq_slots_available q 1 w = Inr (cq_room q w)"
  using cq_inv_pos [of q w] by (auto simp: cq_slots_available_def cq_room_def)

lemma cq_com_write_cases:
  assumes "cq_inv q" "w \<in> set (cq_writers q)"
  shows "cq_com_write q d w n =
    (if n = dval (cq_write_pos q) w
     then if cq_room q w then (Inr Handled, cq_pushed q w d) else (Inl QueueFull, q)
     else if n < dval (cq_write_pos q) w then (Inr Unhandled, q) else (Inr Invalid, q))"
  by (simp add: cq_com_write_def cq_write_def cq_slots_eq [OF assms(2,1)] cq_inv_look [OF assms] cq_pushed_def)

lemma cq_pushed_fields [simp]:
  "cq_writers (cq_pushed q w d) = cq_writers q" "cq_N (cq_pushed q w d) = cq_N q"
  "cq_kind (cq_pushed q w d) = cq_kind q" "cq_read_pos (cq_pushed q w d) = cq_read_pos q"
  "cq_tentative (cq_pushed q w d) = cq_tentative q" "cq_tags (cq_pushed q w d) = cq_tags q"
  "cq_exhausted (cq_pushed q w d) = cq_exhausted q" "cq_termination (cq_pushed q w d) = cq_termination q"
  by (simp_all add: cq_pushed_def)

lemma cq_pushed_pos [simp]: "dval (cq_write_pos (cq_pushed q w d)) v
    = (if v = w then dval (cq_write_pos q) w + 1 else dval (cq_write_pos q) v)"
  by (simp add: cq_pushed_def)

lemma cq_pushed_inv: "cq_inv q \<Longrightarrow> w \<in> set (cq_writers q) \<Longrightarrow> cq_room q w \<Longrightarrow> cq_inv (cq_pushed q w d)"
  unfolding cq_inv_def cq_pushed_def cq_room_def by force

lemma cq_pushed_held:
  assumes "cq_inv q" "w \<in> set (cq_writers q)" "cq_room q w"
  shows "cq_held (cq_pushed q w d) v = cq_held q v @ (if v = w then [d] else [])"
proof (cases "v = w")
  case True
  have "ring_slice (cq_N q) (ring_put (cq_N q) (the (dget (cq_fifo q) w)) (dval (cq_write_pos q) w) d)
      (dval (cq_read_pos q) w) (dval (cq_write_pos q) w + 1)
    = ring_slice (cq_N q) (the (dget (cq_fifo q) w)) (dval (cq_read_pos q) w) (dval (cq_write_pos q) w) @ [d]"
    by (rule ring_slice_put) (use cq_inv_pos [OF assms(1,2)] in auto)
  with True show ?thesis by (simp add: cq_held_def cq_pushed_def)
qed (simp add: cq_held_def cq_pushed_def)

interpretation cqk: com_sink cq_inv cq_writer cq_held "\<lambda>q w. dval (cq_write_pos q) w" cq_room
    cq_com_write
  by unfold_locales
    (auto simp: cq_com_write_cases cq_pushed_inv cq_pushed_held cq_writer_def)

section \<open>Moving tentative positions\<close>

lemma cq_advance_fields [simp]:
  "cq_writers (cq_advance q w k) = cq_writers q" "cq_N (cq_advance q w k) = cq_N q"
  "cq_kind (cq_advance q w k) = cq_kind q" "cq_read_pos (cq_advance q w k) = cq_read_pos q"
  "cq_write_pos (cq_advance q w k) = cq_write_pos q" "cq_fifo (cq_advance q w k) = cq_fifo q"
  "cq_tags (cq_advance q w k) = cq_tags q" "cq_turn_pos (cq_advance q w k) = cq_turn_pos q"
  "cq_peek_turn_pos (cq_advance q w k) = cq_peek_turn_pos q"
  "cq_tags_are_ordering (cq_advance q w k) = cq_tags_are_ordering q"
  by (simp_all add: cq_advance_def)

lemma cq_advance_other [simp]: "v \<noteq> w \<Longrightarrow> cq_unread (cq_advance q w k) v = cq_unread q v"
  "v \<noteq> w \<Longrightarrow> cq_head (cq_advance q w k) v = cq_head q v"
  "v \<noteq> w \<Longrightarrow> cq_new (cq_advance q w k) v = cq_new q v"
  "cq_tag (cq_advance q w k) v = cq_tag q v"
  "cq_held (cq_advance q w k) v = cq_held q v"
  by (simp_all add: cq_advance_def cq_unread_def cq_head_def cq_new_def cq_tag_def cq_held_def)

lemma cq_advance_notin:
  assumes "w \<notin> A" "v \<in> A"
  shows "cq_unread (cq_advance q w k) v = cq_unread q v" "cq_head (cq_advance q w k) v = cq_head q v"
  using assms by (metis cq_advance_other)+

lemma cq_set_tentative_inv:
  assumes "cq_inv q" "\<And>w. w \<in> set (cq_writers q) \<Longrightarrow> dval (cq_read_pos q) w \<le> dval t w \<and> dval t w \<le> dval (cq_write_pos q) w"
    "dict_ok t" "dkeys t = set (cq_writers q)"
  shows "cq_inv (q\<lparr>cq_tentative := t\<rparr>)"
  using assms by (auto simp: cq_inv_def)

lemma cq_advance_inv:
  assumes "cq_inv q" "w \<in> set (cq_writers q)" "cq_unread q w \<ge> 1"
  shows "cq_inv (cq_advance q w 1)"
  unfolding cq_advance_def
proof (rule cq_set_tentative_inv)
  fix v
  assume "v \<in> set (cq_writers q)"
  from cq_inv_pos [OF assms(1) this] cq_inv_pos [OF assms(1,2)] assms(3)
  show "dval (cq_read_pos q) v \<le> dval (dput w (dval (cq_tentative q) w + 1) (cq_tentative q)) v
      \<and> dval (dput w (dval (cq_tentative q) w + 1) (cq_tentative q)) v \<le> dval (cq_write_pos q) v"
    by (simp add: cq_unread_def)
qed (use assms(1,2) in \<open>auto simp: cq_inv_def\<close>)

lemma cq_turn_upd_inv [simp]:
  "cq_inv (q\<lparr>cq_turn_pos := t\<rparr>) = cq_inv q" "cq_inv (q\<lparr>cq_peek_turn_pos := t\<rparr>) = cq_inv q"
  "cq_inv (q\<lparr>cq_exhausted := x\<rparr>) = cq_inv q" "cq_inv (q\<lparr>cq_termination := y\<rparr>) = cq_inv q"
  by (simp_all add: cq_inv_def)

lemma dval_fold_dput:
  "dval (fold (\<lambda>w d. dput w (f w) d) ws d) v = (if v \<in> set ws then f v else dval d v)"
  by (induction ws arbitrary: d) auto

lemma dict_ok_fold_dput [simp]: "dict_ok (fold (\<lambda>w d. dput w (f w) d) ws d) = dict_ok d"
  by (induction ws arbitrary: d) auto

lemma dkeys_fold_dput [simp]: "dkeys (fold (\<lambda>w d. dput w (f w) d) ws d) = dkeys d \<union> set ws"
  by (induction ws arbitrary: d) auto

lemma cq_base_cancel_inv: "cq_inv q \<Longrightarrow> cq_inv (cq_base_cancel q)"
  unfolding cq_base_cancel_def
proof (rule cq_set_tentative_inv)
  fix v
  assume "cq_inv q" "v \<in> set (cq_writers q)"
  from cq_inv_pos [OF this] this(2)
  show "dval (cq_read_pos q) v \<le> dval (fold (\<lambda>w. dput w (dval (cq_read_pos q) w)) (cq_writers q) (cq_tentative q)) v
      \<and> dval (fold (\<lambda>w. dput w (dval (cq_read_pos q) w)) (cq_writers q) (cq_tentative q)) v \<le> dval (cq_write_pos q) v"
    by (simp add: dval_fold_dput)
qed (auto simp: cq_inv_def)

lemma cq_commit_reads_inv: "cq_inv q \<Longrightarrow> cq_inv (cq_commit_reads q)"
  unfolding cq_commit_reads_def cq_inv_def by (auto simp: dval_fold_dput)

section \<open>Reading in turn\<close>

text \<open>
  \<open>turn_served q i w\<close>: the writer at cyclic index \<open>i\<close> is the first from the present turn
  that has a token.
\<close>

definition cq_at :: "collect_queue \<Rightarrow> int \<Rightarrow> string" where
  "cq_at q i = cq_writers q ! nat (i mod int (length (cq_writers q)))"

lemma cq_at_mem: "cq_writers q \<noteq> [] \<Longrightarrow> cq_at q i \<in> set (cq_writers q)"
  by (simp add: cq_at_def nat_less_iff)

definition cq_served :: "collect_queue \<Rightarrow> int \<Rightarrow> collect_queue" where
  "cq_served q i =
     (cq_advance q (cq_at q i) 1)\<lparr>
        cq_peek_turn_pos := (if cq_peek_turn_pos q = -1 then cq_turn_pos q else cq_peek_turn_pos q),
        cq_turn_pos := (i + 1) mod int (length (cq_writers q))\<rparr>"

definition cq_tagged :: "collect_queue \<Rightarrow> string \<Rightarrow> token \<Rightarrow> token" where
  "cq_tagged q w t =
     (if cq_kind q = TaggedK then t\<lparr>tval := PDict [(the (dget (cq_tags q) w), tval t)]\<rparr> else t)"

lemma cq_turn_loop_cases:
  assumes "cq_inv q" "cq_writers q \<noteq> []"
  shows "(\<exists>i \<in> set is. cq_unread q (cq_at q i) \<ge> 1
       \<and> (\<exists>us vs. is = us @ i # vs \<and> (\<forall>j \<in> set us. cq_unread q (cq_at q j) = 0))
       \<and> cq_turn_loop q m is = (Inr (cq_tagged q (cq_at q i) (cq_head q (cq_at q i))), cq_served q i))
    \<or> (\<forall>i \<in> set is. cq_unread q (cq_at q i) = 0) \<and> cq_turn_loop q m is = (Inl (QueueEmpty m), q)"
proof (induction "is")
  case (Cons i "is")
  let ?w = "cq_at q i"
  have w: "?w \<in> set (cq_writers q)" by (rule cq_at_mem [OF assms(2)])
  show ?case
  proof (cases "cq_unread q ?w \<ge> 1")
    case True
    have "cq_turn_loop q m (i # is) = (Inr (cq_tagged q ?w (cq_head q ?w)), cq_served q i)"
      using True cq_inv_look(5) [OF assms(1) w]
      by (auto simp: Let_def cq_at_def [symmetric] cq_tagged_def cq_served_def)
    moreover have "\<exists>us vs. i # is = us @ i # vs \<and> (\<forall>j \<in> set us. cq_unread q (cq_at q j) = 0)"
      by (rule exI [of _ "[]"]) simp
    ultimately show ?thesis using True by (intro disjI1 bexI [of _ i] conjI) simp_all
  next
    case False
    then have z: "cq_unread q ?w = 0" using cq_unread_nonneg [OF assms(1) w] by simp
    have step: "cq_turn_loop q m (i # is) = cq_turn_loop q m is"
      using False by (simp add: Let_def cq_at_def [symmetric])
    from Cons.IH show ?thesis
    proof (elim disjE bexE conjE exE)
      fix k us vs
      assume "k \<in> set is" "cq_unread q (cq_at q k) \<ge> 1" "is = us @ k # vs"
        "\<forall>j \<in> set us. cq_unread q (cq_at q j) = 0"
        "cq_turn_loop q m is = (Inr (cq_tagged q (cq_at q k) (cq_head q (cq_at q k))), cq_served q k)"
      with z step show ?thesis
        by (intro disjI1 bexI [of _ k] conjI exI [of _ "i # us"] exI [of _ vs])
          (simp_all del: cq_turn_loop.simps)
    qed (use z step in \<open>simp del: cq_turn_loop.simps\<close>)
  qed
qed simp

lemma cq_served_inv:
  assumes "cq_inv q" "cq_writers q \<noteq> []" "cq_unread q (cq_at q i) \<ge> 1"
  shows "cq_inv (cq_served q i)"
  using cq_advance_inv [OF assms(1) cq_at_mem [OF assms(2)] assms(3)] by (simp add: cq_served_def)

lemma cq_at_range:
  assumes "w \<in> set (cq_writers q)"
  shows "\<exists>i \<in> set [t..t + int (length (cq_writers q)) - 1]. cq_at q i = w"
proof -
  let ?n = "int (length (cq_writers q))"
  obtain j where j: "j < length (cq_writers q)" "cq_writers q ! j = w"
    using assms by (auto simp: in_set_conv_nth)
  let ?i = "t + (int j - t) mod ?n"
  have n: "0 < ?n" using j(1) by linarith
  have "?i mod ?n = int j mod ?n" by (simp add: mod_add_right_eq)
  also have "\<dots> = int j" using j by simp
  finally have m: "?i mod ?n = int j" .
  have "cq_at q ?i = w" unfolding cq_at_def m using j(2) by simp
  moreover have "?i \<in> set [t..t + ?n - 1]"
    using pos_mod_bound [OF n, of "int j - t"] pos_mod_sign [OF n, of "int j - t"] by simp
  ultimately show ?thesis by blast
qed

lemma cq_peek_turn_cases:
  assumes "cq_inv q"
  shows "(\<exists>i. cq_writers q \<noteq> [] \<and> cq_turn_pos q \<le> i \<and> i < cq_turn_pos q + int (length (cq_writers q))
       \<and> cq_unread q (cq_at q i) \<ge> 1
       \<and> (\<forall>j. cq_turn_pos q \<le> j \<and> j < i \<longrightarrow> cq_unread q (cq_at q j) = 0)
       \<and> cq_peek_turn q m = (Inr (cq_tagged q (cq_at q i) (cq_head q (cq_at q i))), cq_served q i))
    \<or> (\<forall>w \<in> set (cq_writers q). cq_unread q w = 0) \<and> cq_peek_turn q m = (Inl (QueueEmpty m), q)"
proof (cases "cq_writers q = []")
  case True
  then show ?thesis by (simp add: cq_peek_turn_def)
next
  case False
  let ?is = "[cq_turn_pos q..cq_turn_pos q + int (length (cq_writers q)) - 1]"
  from cq_turn_loop_cases [OF assms False, of ?is m] show ?thesis
  proof (elim disjE bexE conjE exE)
    fix i us vs
    assume i: "i \<in> set ?is" "cq_unread q (cq_at q i) \<ge> 1" "?is = us @ i # vs"
      "\<forall>j \<in> set us. cq_unread q (cq_at q j) = 0"
      "cq_turn_loop q m ?is = (Inr (cq_tagged q (cq_at q i) (cq_head q (cq_at q i))), cq_served q i)"
    have b: "cq_turn_pos q \<le> i" "i < cq_turn_pos q + int (length (cq_writers q))" using i(1) by auto
    have "\<forall>j. cq_turn_pos q \<le> j \<and> j < i \<longrightarrow> j \<in> set us"
    proof (intro allI impI)
      fix j
      assume j: "cq_turn_pos q \<le> j \<and> j < i"
      have "j \<in> set ?is" using j i(1) by auto
      then have "j \<in> set us \<or> j = i \<or> j \<in> set vs" using i(3) by auto
      moreover have "\<forall>x \<in> set vs. i < x"
      proof -
        have "sorted_wrt (<) (us @ i # vs)" using i(3) sorted_wrt_upto by metis
        then show ?thesis by (simp add: sorted_wrt_append)
      qed
      ultimately show "j \<in> set us" using j by force
    qed
    moreover have "cq_peek_turn q m = (Inr (cq_tagged q (cq_at q i) (cq_head q (cq_at q i))), cq_served q i)"
      using i(5) by (simp only: cq_peek_turn_def)
    ultimately show ?thesis using b i(2,4) False by (intro disjI1 exI [of _ i]) blast
  next
    assume e: "\<forall>i \<in> set ?is. cq_unread q (cq_at q i) = 0" "cq_turn_loop q m ?is = (Inl (QueueEmpty m), q)"
    have "\<forall>w \<in> set (cq_writers q). cq_unread q w = 0"
      using cq_at_range [of _ q "cq_turn_pos q"] e(1) by metis
    with e(2) show ?thesis by (simp add: cq_peek_turn_def)
  qed
qed

section \<open>Reading every writer\<close>

text \<open>The state after the tentative positions of \<open>ws\<close> moved by \<open>k\<close>.\<close>

definition cq_shift :: "collect_queue \<Rightarrow> int \<Rightarrow> string list \<Rightarrow> collect_queue" where
  "cq_shift q k ws = fold (\<lambda>w q. cq_advance q w k) ws q"

lemma cq_shift_simps [simp]:
  "cq_shift q k [] = q"
  "cq_shift q k (w # ws) = cq_shift (cq_advance q w k) k ws"
  by (simp_all add: cq_shift_def)

lemma cq_shift_fields [simp]:
  "cq_writers (cq_shift q k ws) = cq_writers q" "cq_N (cq_shift q k ws) = cq_N q"
  "cq_kind (cq_shift q k ws) = cq_kind q" "cq_read_pos (cq_shift q k ws) = cq_read_pos q"
  "cq_write_pos (cq_shift q k ws) = cq_write_pos q" "cq_fifo (cq_shift q k ws) = cq_fifo q"
  "cq_tags (cq_shift q k ws) = cq_tags q" "cq_turn_pos (cq_shift q k ws) = cq_turn_pos q"
  "cq_tags_are_ordering (cq_shift q k ws) = cq_tags_are_ordering q"
  "cq_tag (cq_shift q k ws) v = cq_tag q v"
  "cq_held (cq_shift q k ws) v = cq_held q v"
  by (induction ws arbitrary: q) simp_all

lemma cq_shift_tentative: "distinct ws \<Longrightarrow>
    dval (cq_tentative (cq_shift q k ws)) v = dval (cq_tentative q) v + (if v \<in> set ws then k else 0)"
  by (induction ws arbitrary: q) (auto simp: cq_advance_def)

lemma cq_shift_other [simp]: "v \<notin> set ws \<Longrightarrow> cq_unread (cq_shift q k ws) v = cq_unread q v"
  "v \<notin> set ws \<Longrightarrow> cq_head (cq_shift q k ws) v = cq_head q v"
  "v \<notin> set ws \<Longrightarrow> cq_new (cq_shift q k ws) v = cq_new q v"
  by (induction ws arbitrary: q) simp_all

lemma cq_advance_keys [simp]:
  "dict_ok (cq_tentative (cq_advance q w k)) = dict_ok (cq_tentative q)"
  "dkeys (cq_tentative (cq_advance q w k)) = insert w (dkeys (cq_tentative q))"
  by (simp_all add: cq_advance_def)

lemma cq_shift_keys [simp]:
  "dict_ok (cq_tentative (cq_shift q k ws)) = dict_ok (cq_tentative q)"
  "dkeys (cq_tentative (cq_shift q k ws)) = dkeys (cq_tentative q) \<union> set ws"
  by (induction ws arbitrary: q) auto

lemma cq_shift_inv:
  "cq_inv q \<Longrightarrow> distinct ws \<Longrightarrow> \<forall>w \<in> set ws. w \<in> set (cq_writers q) \<and> 1 \<le> cq_unread q w \<Longrightarrow>
   cq_inv (cq_shift q 1 ws)"
proof (induction ws arbitrary: q)
  case (Cons w ws)
  then show ?case using cq_advance_notin [of w "set ws"] by (auto simp: cq_advance_inv)
qed simp

lemma cq_shift_new:
  assumes "cq_inv q" "distinct ws" "w \<in> set ws" "w \<in> set (cq_writers q)" "1 \<le> cq_unread q w"
  shows "cq_new q w = cq_head q w # cq_new (cq_shift q 1 ws) w"
  using assms cq_shift_tentative [OF assms(2), of q 1 w]
  by (simp add: cq_new_def cq_head_def cq_unread_def ring_slice_head)

text \<open>The writers the loop reads, and the dictionary it builds.\<close>

definition cq_picks :: "collect_queue \<Rightarrow> string list \<Rightarrow> string list" where
  "cq_picks q ws = filter (\<lambda>w. \<not> (cq_kind q = AnyK \<and> cq_unread q w = 0)) ws"

definition cq_row :: "collect_queue \<Rightarrow> string list \<Rightarrow> (pyval, pyval) dict \<Rightarrow> (pyval, pyval) dict" where
  "cq_row q ws d = fold (\<lambda>w. dput (the (dget (cq_tags q) w)) (tval (cq_head q w))) ws d"

lemma cq_picks_advance: "w \<notin> set ws \<Longrightarrow> cq_picks (cq_advance q w k) ws = cq_picks q ws"
  unfolding cq_picks_def by (rule filter_cong) (auto simp: cq_advance_notin [of w "set ws"])

lemma cq_row_advance: "w \<notin> set ws \<Longrightarrow> cq_row (cq_advance q w k) ws d = cq_row q ws d"
  unfolding cq_row_def by (rule fold_cong) (auto simp: cq_advance_notin [of w "set ws"])

lemma cq_picks_sub: "set (cq_picks q ws) \<subseteq> set ws"
  by (auto simp: cq_picks_def)

lemma cq_collect_loop_all:
  assumes "distinct ws" "set ws \<subseteq> set (cq_writers q)" "set (cq_writers q) \<subseteq> dkeys (cq_tags q)"
    "\<forall>w \<in> set (cq_picks q ws). \<not> is_exception_token (cq_head q w)"
  shows "cq_collect_loop q d ws = (Inr (Inl (cq_row q (cq_picks q ws) d)), cq_shift q 1 (cq_picks q ws))"
  using assms
proof (induction ws arbitrary: q d)
  case Nil
  then show ?case by (simp add: cq_picks_def cq_row_def)
next
  case (Cons w ws)
  show ?case
  proof (cases "cq_kind q = AnyK \<and> cq_unread q w = 0")
    case True
    then show ?thesis using Cons by (simp add: cq_picks_def)
  next
    case False
    then have p: "cq_picks q (w # ws) = w # cq_picks q ws" by (simp add: cq_picks_def)
    have "w \<in> dkeys (cq_tags q)" using Cons.prems(2,3) by auto
    then obtain tag where tag: "dget (cq_tags q) w = Some tag" by (auto simp: dkeys_iff)
    have h: "\<not> is_exception_token (cq_head q w)" using Cons.prems(4) p by simp
    have out: "w \<notin> set (cq_picks q ws)" using Cons.prems(1) cq_picks_sub [of q ws] by auto
    have "cq_collect_loop (cq_advance q w 1) (dput tag (tval (cq_head q w)) d) ws
      = (Inr (Inl (cq_row (cq_advance q w 1) (cq_picks (cq_advance q w 1) ws) (dput tag (tval (cq_head q w)) d))),
         cq_shift (cq_advance q w 1) 1 (cq_picks (cq_advance q w 1) ws))"
      by (rule Cons.IH) (use Cons.prems p out cq_advance_notin [OF out] in \<open>auto simp: cq_picks_advance\<close>)
    moreover have "cq_picks (cq_advance q w 1) ws = cq_picks q ws"
      using Cons.prems(1) by (simp add: cq_picks_advance)
    ultimately show ?thesis
      using False h tag out p by (auto simp: cq_tag_def cq_row_advance) (simp_all add: cq_row_def)
  qed
qed

text \<open>When an exception token is met: the loop stops and undoes the reads before it.\<close>

lemma cq_collect_loop_exc:
  assumes "distinct (us @ w # vs)" "set (us @ w # vs) \<subseteq> set (cq_writers q)"
    "set (cq_writers q) \<subseteq> dkeys (cq_tags q)"
    "\<forall>u \<in> set (cq_picks q us). \<not> is_exception_token (cq_head q u)"
    "is_exception_token (cq_head q w)" "\<not> (cq_kind q = AnyK \<and> cq_unread q w = 0)"
  shows "cq_collect_loop q d (us @ w # vs) =
    and_then (cq_return_exception (cq_shift q 1 (cq_picks q us)) w (cq_head q w)) (\<lambda>t q1. (Inr (Inr t), q1))"
  using assms
proof (induction us arbitrary: q d)
  case Nil
  then show ?case by (auto simp: cq_picks_def)
next
  case (Cons u us)
  show ?case
  proof (cases "cq_kind q = AnyK \<and> cq_unread q u = 0")
    case True
    then show ?thesis using Cons by (simp add: cq_picks_def)
  next
    case False
    then have p: "cq_picks q (u # us) = u # cq_picks q us" by (simp add: cq_picks_def)
    have "u \<in> dkeys (cq_tags q)" using Cons.prems(2,3) by auto
    then obtain tag where tag: "dget (cq_tags q) u = Some tag" by (auto simp: dkeys_iff)
    have h: "\<not> is_exception_token (cq_head q u)" using Cons.prems(4) p by simp
    have out: "u \<notin> set (cq_picks q us)" using Cons.prems(1) cq_picks_sub [of q us] by auto
    have ne: "u \<noteq> w" "u \<notin> set us" using Cons.prems(1) by auto
    let ?q = "cq_advance q u 1"
    have "cq_collect_loop ?q (dput tag (tval (cq_head q u)) d) (us @ w # vs)
      = and_then (cq_return_exception (cq_shift ?q 1 (cq_picks ?q us)) w (cq_head ?q w))
          (\<lambda>t q1. (Inr (Inr t), q1))"
    proof (rule Cons.IH)
      show "\<forall>x \<in> set (cq_picks ?q us). \<not> is_exception_token (cq_head ?q x)"
        using Cons.prems(4) p out ne cq_advance_notin [OF out] by (auto simp: cq_picks_advance)
    qed (use Cons.prems ne in \<open>simp_all\<close>)
    then show ?thesis
      using False h tag out p ne by (auto simp: cq_tag_def cq_picks_advance)
  qed
qed

lemma cq_undo_before_shift:
  "w \<notin> set us \<Longrightarrow> cq_undo_before q w (us @ w # vs) = cq_shift q (-1) us"
  by (induction us arbitrary: q) auto

text \<open>
  Reading a synchronised row that holds an exception token: the first such token comes out alone,
  tagged, and no other writer's tentative position has moved.
\<close>

lemma cq_peek_synced_exc:
  assumes "cq_inv q" "cq_kind q = SyncedK" "cq_writers q = us @ w # vs"
    "\<forall>v \<in> set (cq_writers q). 1 \<le> cq_unread q v" "1 < cq_N q"
    "\<forall>u \<in> set us. \<not> is_exception_token (cq_head q u)" "is_exception_token (cq_head q w)"
  shows "cq_peek q m =
    (Inr ((cq_head q w)\<lparr>tval := PDict [(the (dget (cq_tags q) w), tval (cq_head q w))]\<rparr>),
     cq_advance (cq_shift (cq_shift q 1 us) (-1) us) w 1)"
proof -
  have inv: "distinct (us @ w # vs)" "set (cq_writers q) \<subseteq> dkeys (cq_tags q)"
    using assms(1,3) by (auto simp: cq_inv_def)
  have p: "cq_picks q us = us" using assms(2) by (simp add: cq_picks_def)
  have tag: "cq_tag q w = Inr (the (dget (cq_tags q) w))"
    using cq_inv_look(5) [OF assms(1)] assms(3) by simp
  have av: "cq_tokens_available q 1" using assms(2,4,5) by (auto simp: cq_tokens_available_def list_all_iff)
  have loop: "cq_collect_loop q [] (us @ w # vs) =
    and_then (cq_return_exception (cq_shift q 1 us) w (cq_head q w)) (\<lambda>t q1. (Inr (Inr t), q1))"
    using cq_collect_loop_exc [of us w vs q "[]"] inv assms(2,3,6,7) p by simp
  have "w \<notin> set us" using inv(1) by simp
  then have "cq_undo_before (cq_shift q 1 us) w (cq_writers (cq_shift q 1 us))
      = cq_shift (cq_shift q 1 us) (-1) us"
    using assms(3) by (simp add: cq_undo_before_shift)
  with loop tag av assms(2,3) show ?thesis
    by (simp add: cq_peek_def cq_peek_synced_def cq_return_exception_def)
qed

lemma cq_shift_back: "distinct us \<Longrightarrow>
    dval (cq_tentative (cq_shift (cq_shift q 1 us) (-1) us)) v = dval (cq_tentative q) v"
  by (simp add: cq_shift_tentative)

lemma cq_new_cong: "cq_N q' = cq_N q \<Longrightarrow> cq_fifo q' = cq_fifo q \<Longrightarrow> cq_write_pos q' = cq_write_pos q \<Longrightarrow>
    dval (cq_tentative q') v = dval (cq_tentative q) v \<Longrightarrow> cq_new q' v = cq_new q v"
  by (simp add: cq_new_def)

lemma cq_exc_new:
  assumes "distinct us" "w \<notin> set us"
  shows "cq_new (cq_advance (cq_shift (cq_shift q 1 us) (-1) us) w 1) v = cq_new (if v = w then cq_advance q w 1 else q) v"
  using cq_shift_back [OF assms(1), of q] by (intro cq_new_cong) (auto simp: cq_advance_def)

text \<open>Reading a synchronised row of normal tokens: one token of every writer, under its tag.\<close>

lemma cq_peek_synced_row:
  assumes "cq_inv q" "cq_kind q = SyncedK" "\<forall>v \<in> set (cq_writers q). 1 \<le> cq_unread q v" "1 < cq_N q"
    "\<forall>v \<in> set (cq_writers q). \<not> is_exception_token (cq_head q v)"
  shows "cq_peek q m =
    (Inr (Token (if cq_tags_are_ordering q
        then PList (map snd (sort_key (\<lambda>p. tag_position (fst p)) (cq_row q (cq_writers q) [])))
        else PDict (cq_row q (cq_writers q) []))), cq_shift q 1 (cq_writers q))"
proof -
  have inv: "distinct (cq_writers q)" "set (cq_writers q) \<subseteq> dkeys (cq_tags q)"
    using assms(1) by (auto simp: cq_inv_def)
  have p: "cq_picks q (cq_writers q) = cq_writers q" using assms(2) by (simp add: cq_picks_def)
  have av: "cq_tokens_available q 1" using assms(2,3,4) by (auto simp: cq_tokens_available_def list_all_iff)
  from cq_collect_loop_all [OF inv(1) _ inv(2), of "[]"] assms(5) p
  have "cq_collect_loop q [] (cq_writers q) =
    (Inr (Inl (cq_row q (cq_writers q) [])), cq_shift q 1 (cq_writers q))" by simp
  with av assms(2) show ?thesis by (simp add: cq_peek_def cq_peek_synced_def)
qed

text \<open>With distinct tags the row maps each writer's tag to the value of its next token.\<close>

lemma cq_row_get:
  assumes "distinct ws" "inj_on (\<lambda>w. the (dget (cq_tags q) w)) (set ws)" "w \<in> set ws"
  shows "dget (cq_row q ws d) (the (dget (cq_tags q) w)) = Some (tval (cq_head q w))"
  using assms
proof (induction ws arbitrary: d rule: rev_induct)
  case (snoc v ws)
  show ?case
  proof (cases "w = v")
    case False
    then have "the (dget (cq_tags q) w) \<noteq> the (dget (cq_tags q) v)"
      using snoc.prems(2,3) by (auto simp: inj_on_def)
    moreover have "dget (cq_row q ws d) (the (dget (cq_tags q) w)) = Some (tval (cq_head q w))"
      by (rule snoc.IH) (use snoc.prems False in \<open>auto simp: inj_on_def\<close>)
    ultimately show ?thesis by (simp add: cq_row_def)
  qed (simp add: cq_row_def)
qed simp

lemma dkeys_cq_row: "dkeys (cq_row q ws d) = dkeys d \<union> (\<lambda>w. the (dget (cq_tags q) w)) ` set ws"
  by (induction ws arbitrary: d) (auto simp: cq_row_def)

section \<open>The firing contract\<close>

definition cq_reads :: "collect_queue \<Rightarrow> bool" where
  "cq_reads q \<longleftrightarrow> cq_inv q \<and> cq_kind q \<noteq> AnyK"

definition cq_avail :: "collect_queue \<Rightarrow> int \<Rightarrow> string \<Rightarrow> (bool, collect_queue) out" where
  "cq_avail q n m = (Inr (cq_tokens_available q n), q)"

lemma cq_enough_tokens_one:
  assumes "\<forall>w \<in> set ws. 0 \<le> cq_unread q w" "0 \<le> acc" "acc < 1"
  shows "cq_enough_tokens q 1 acc ws \<longleftrightarrow> (\<exists>w \<in> set ws. 1 \<le> cq_unread q w)"
  using assms by (induction ws arbitrary: acc) (auto simp: Let_def)

lemma cq_tokens_available_turn:
  assumes "cq_inv q" "is_turn_kind (cq_kind q)"
  shows "cq_tokens_available q 1 \<longleftrightarrow> (\<exists>w \<in> set (cq_writers q). 1 \<le> cq_unread q w)"
proof -
  have "\<forall>w \<in> set (cq_writers q). cq_unread q w < cq_N q"
    using cq_inv_pos [OF assms(1)] by (force simp: cq_unread_def)
  moreover have "cq_enough_tokens q 1 0 (cq_writers q) \<longleftrightarrow> (\<exists>w \<in> set (cq_writers q). 1 \<le> cq_unread q w)"
    using cq_enough_tokens_one [of "cq_writers q" q 0] cq_unread_nonneg [OF assms(1)] by simp
  ultimately show ?thesis
    using assms(2) by (cases "cq_kind q") (force simp: cq_tokens_available_def is_turn_kind_def)+
qed

lemma cq_tokens_available_synced:
  assumes "cq_kind q = SyncedK" "cq_tokens_available q 1"
  shows "\<forall>w \<in> set (cq_writers q). 1 \<le> cq_unread q w" "1 < cq_N q"
  using assms by (auto simp: cq_tokens_available_def list_all_iff split: if_splits)

lemma cq_peek_turn_kind: "is_turn_kind (cq_kind q) \<Longrightarrow> cq_peek q m = cq_peek_turn q m"
  by (cases "cq_kind q") (auto simp: cq_peek_def is_turn_kind_def)

lemma cq_served_kind [simp]: "cq_kind (cq_served q i) = cq_kind q" "cq_writers (cq_served q i) = cq_writers q"
  "cq_N (cq_served q i) = cq_N q" "cq_held (cq_served q i) v = cq_held q v"
  "cq_turn_pos (cq_served q i) = (i + 1) mod int (length (cq_writers q))"
  by (simp_all add: cq_served_def cq_held_def cq_advance_def)

lemma cq_avail_peek:
  assumes "cq_reads q" "cq_tokens_available q 1"
  shows "\<exists>t q'. cq_peek q m = (Inr t, q') \<and> cq_reads q'"
proof (cases "is_turn_kind (cq_kind q)")
  case True
  have inv: "cq_inv q" using assms(1) by (simp add: cq_reads_def)
  have "\<exists>w \<in> set (cq_writers q). cq_unread q w \<noteq> 0"
    using cq_tokens_available_turn [OF inv True] assms(2) by force
  with cq_peek_turn_cases [OF inv, of m] obtain i where
    "cq_writers q \<noteq> []" "cq_unread q (cq_at q i) \<ge> 1"
    "cq_peek_turn q m = (Inr (cq_tagged q (cq_at q i) (cq_head q (cq_at q i))), cq_served q i)" by blast
  then show ?thesis
    using cq_served_inv [OF inv] cq_peek_turn_kind [OF True] assms(1) by (simp add: cq_reads_def)
next
  case False
  then have k: "cq_kind q = SyncedK" using assms(1) by (cases "cq_kind q") (auto simp: is_turn_kind_def cq_reads_def)
  have inv: "cq_inv q" "distinct (cq_writers q)" using assms(1) by (auto simp: cq_reads_def cq_inv_def)
  note av = cq_tokens_available_synced [OF k assms(2)]
  show ?thesis
  proof (cases "\<exists>v \<in> set (cq_writers q). is_exception_token (cq_head q v)")
    case True
    from split_list_first_prop [OF this]
    obtain us w vs where s: "cq_writers q = us @ w # vs" "is_exception_token (cq_head q w)"
      "\<forall>u \<in> set us. \<not> is_exception_token (cq_head q u)" by blast
    let ?q = "cq_shift (cq_shift q 1 us) (-1) us"
    have d: "distinct us" using inv(2) s(1) by simp
    have t: "dval (cq_tentative ?q) v = dval (cq_tentative q) v" for v using cq_shift_back [OF d] .
    have keys: "dict_ok (cq_tentative ?q)" "dkeys (cq_tentative ?q) = dkeys (cq_tentative q)"
      using inv(1) s(1) by (auto simp: cq_inv_def)
    have "cq_inv ?q" using inv(1) t keys by (simp add: cq_inv_def)
    moreover have "1 \<le> cq_unread ?q w" using av(1) s(1) t by (simp add: cq_unread_def)
    ultimately have "cq_inv (cq_advance ?q w 1)" by (intro cq_advance_inv) (simp_all add: s(1))
    then show ?thesis
      using cq_peek_synced_exc [OF inv(1) k s(1) av s(3,2), of m] k by (simp add: cq_reads_def)
  next
    case False
    have "cq_inv (cq_shift q 1 (cq_writers q))" by (rule cq_shift_inv) (use inv av in auto)
    with cq_peek_synced_row [OF inv(1) k av, of m] False k show ?thesis by (simp add: cq_reads_def)
  qed
qed

lemma cq_none_empty:
  assumes "cq_reads q" "\<not> cq_tokens_available q 1"
  shows "fst (cq_peek q m) = Inl (QueueEmpty m)"
proof (cases "is_turn_kind (cq_kind q)")
  case True
  have inv: "cq_inv q" using assms(1) by (simp add: cq_reads_def)
  have "\<not> (\<exists>w \<in> set (cq_writers q). 1 \<le> cq_unread q w)"
    using cq_tokens_available_turn [OF inv True] assms(2) by simp
  then have "cq_peek_turn q m = (Inl (QueueEmpty m), q)"
    using cq_peek_turn_cases [OF inv, of m] cq_at_mem by blast
  then show ?thesis using cq_peek_turn_kind [OF True] by simp
next
  case False
  then have "cq_kind q = SyncedK" using assms(1) by (cases "cq_kind q") (auto simp: is_turn_kind_def cq_reads_def)
  then show ?thesis using assms(2) by (simp add: cq_peek_def cq_peek_synced_def)
qed

lemma cq_cancel_reads: "cq_reads q \<Longrightarrow> \<exists>q'. cq_cancel q m = (Inr (), q') \<and> cq_reads q'"
  by (auto simp: cq_cancel_def cq_reads_def intro!: cq_base_cancel_inv) (simp_all add: cq_base_cancel_def)

interpretation cqa: action_source cq_reads "\<lambda>q m. True" cq_avail cq_peek cq_cancel
proof unfold_locales
  fix q n m
  show "\<exists>b. cq_avail q n m = (Inr b, q)" by (simp add: cq_avail_def)
  assume q: "cq_reads q"
  show "\<exists>t q'. cq_peek q m = (Inr t, q') \<and> cq_reads q' \<and> True" if "cq_avail q 1 m = (Inr True, q)"
    using cq_avail_peek [OF q, of m] that by (simp add: cq_avail_def)
  show "fst (cq_peek q m) = Inl (QueueEmpty m)" if "cq_avail q 1 m = (Inr False, q)"
    using cq_none_empty [OF q, of m] that by (simp add: cq_avail_def)
  show "\<exists>q'. cq_cancel q m = (Inr (), q') \<and> cq_reads q' \<and> True"
    using cq_cancel_reads [OF q, of m] by simp
qed

section \<open>Moving exhausted tokens into the queue\<close>

text \<open>
  \<open>cq_left q w\<close>: the tokens of \<open>w\<close> still waiting outside the ring buffer;
  \<open>cq_cont q w\<close>: their positions continue the write position.
\<close>

definition cq_left :: "collect_queue \<Rightarrow> string \<Rightarrow> token list" where
  "cq_left q w = map snd (opt_default [] (dget (cq_exhausted q) w))"

definition cq_cont :: "collect_queue \<Rightarrow> string \<Rightarrow> bool" where
  "cq_cont q w \<longleftrightarrow>
     map fst (opt_default [] (dget (cq_exhausted q) w))
       = [dval (cq_write_pos q) w..dval (cq_write_pos q) w + int (length (cq_left q w)) - 1]"

definition cq_frame :: "collect_queue \<Rightarrow> collect_queue \<Rightarrow> bool" where
  "cq_frame q q' \<longleftrightarrow> cq_writers q' = cq_writers q \<and> cq_N q' = cq_N q \<and> cq_kind q' = cq_kind q
     \<and> cq_tags q' = cq_tags q \<and> cq_termination q' = cq_termination q \<and> cq_read_pos q' = cq_read_pos q
     \<and> cq_tentative q' = cq_tentative q \<and> cq_nbr_peers q' = cq_nbr_peers q"

lemma cq_frame_refl [simp]: "cq_frame q q"
  by (simp add: cq_frame_def)

lemma cq_frame_trans: "cq_frame q1 q2 \<Longrightarrow> cq_frame q2 q3 \<Longrightarrow> cq_frame q1 q3"
  by (simp add: cq_frame_def)

text \<open>What moving the tokens of \<open>p\<close> leaves as it was, for every other writer.\<close>

definition cq_others :: "string set \<Rightarrow> collect_queue \<Rightarrow> collect_queue \<Rightarrow> bool" where
  "cq_others P q q' \<longleftrightarrow> (\<forall>w. w \<notin> P \<longrightarrow> cq_held q' w = cq_held q w
     \<and> dval (cq_write_pos q') w = dval (cq_write_pos q) w \<and> dget (cq_exhausted q') w = dget (cq_exhausted q) w)"

lemma cq_others_trans: "cq_others P q1 q2 \<Longrightarrow> cq_others R q2 q3 \<Longrightarrow> cq_others (P \<union> R) q1 q3"
  by (simp add: cq_others_def)

lemma cq_others_left: "cq_others P q q' \<Longrightarrow> w \<notin> P \<Longrightarrow>
    cq_held q' w = cq_held q w \<and> cq_left q' w = cq_left q w \<and> cq_cont q' w = cq_cont q w"
  by (simp add: cq_others_def cq_left_def cq_cont_def)

lemma cq_held_exhausted [simp]: "cq_held (q\<lparr>cq_exhausted := x\<rparr>) w = cq_held q w"
  by (simp add: cq_held_def)

lemma cq_transfer_moves:
  "cq_inv q \<Longrightarrow> p \<in> set (cq_writers q) \<Longrightarrow> dget (cq_exhausted q) p = Some ts \<Longrightarrow> cq_cont q p \<Longrightarrow>
   \<exists>b q'. cq_transfer q p ts = (Inr b, q') \<and> cq_inv q' \<and> cq_frame q q' \<and> cq_others {p} q q'
     \<and> cq_held q' p @ cq_left q' p = cq_held q p @ cq_left q p \<and> cq_cont q' p
     \<and> b = (cq_left q' p = []) \<and> (\<not> b \<longrightarrow> \<not> cq_room q' p)"
proof (induction ts arbitrary: q)
  case Nil
  then show ?case by (auto simp: cq_left_def cq_others_def opt_default_def)
next
  case (Cons x ts)
  obtain pos t where x [simp]: "x = (pos, t)" by (cases x)
  let ?wp = "dval (cq_write_pos q) p"
  have pos: "pos = ?wp" and rest: "map fst ts = [?wp + 1..?wp + int (length ts)]"
    using Cons.prems(3,4) by (simp_all add: cq_cont_def cq_left_def opt_default_def upto_rec1)
  show ?case
  proof (cases "cq_room q p")
    case True
    let ?q = "(cq_pushed q p t)\<lparr>cq_exhausted := dput p ts (cq_exhausted q)\<rparr>"
    have inv: "cq_inv ?q" using cq_pushed_inv [OF Cons.prems(1,2) True] by simp
    have st: "cq_transfer q p (x # ts) = cq_transfer ?q p ts"
      using True pos by (simp add: cq_slots_eq [OF Cons.prems(2,1)] cq_com_write_cases [OF Cons.prems(1,2)])
    have h: "cq_held ?q v = cq_held q v @ (if v = p then [t] else [])" for v
      using cq_pushed_held [OF Cons.prems(1,2) True] by simp
    have fr: "cq_frame q ?q" by (simp add: cq_frame_def cq_pushed_def)
    have ot: "cq_others {p} q ?q" using h by (simp add: cq_others_def)
    have l: "cq_left q p = t # cq_left ?q p" using Cons.prems(3) by (simp add: cq_left_def opt_default_def)
    have c: "cq_cont ?q p" using rest by (simp add: cq_cont_def cq_left_def opt_default_def)
    obtain b q' where r: "cq_transfer ?q p ts = (Inr b, q')" "cq_inv q'" "cq_frame ?q q'" "cq_others {p} ?q q'"
      "cq_held q' p @ cq_left q' p = cq_held ?q p @ cq_left ?q p" "cq_cont q' p"
      "b = (cq_left q' p = [])" "\<not> b \<longrightarrow> \<not> cq_room q' p"
      using Cons.IH [OF inv _ _ c] Cons.prems(2) by auto
    have "cq_held q' p @ cq_left q' p = cq_held q p @ cq_left q p" using r(5) h l by simp
    with r st cq_frame_trans [OF fr r(3)] cq_others_trans [OF ot r(4)] show ?thesis
      by (intro exI [of _ b] exI [of _ q']) simp
  next
    case False
    then have "cq_transfer q p (x # ts) = (Inr False, q)" by (simp add: cq_slots_eq [OF Cons.prems(2,1)])
    with False Cons.prems show ?thesis
      by (intro exI [of _ False] exI [of _ q]) (simp add: cq_others_def cq_left_def opt_default_def)
  qed
qed

lemma cq_transfer_all_moves:
  "cq_inv q \<Longrightarrow> dict_ok ps \<Longrightarrow>
   \<forall>(p, ts) \<in> set ps. p \<in> set (cq_writers q) \<and> dget (cq_exhausted q) p = Some ts \<and> cq_cont q p \<Longrightarrow>
   \<exists>rm q'. cq_transfer_all drp q ps = (Inr rm, q') \<and> cq_inv q' \<and> cq_frame q q'
     \<and> cq_others (fst ` set ps) q q'
     \<and> (\<forall>p \<in> fst ` set ps. cq_held q' p @ cq_left q' p = cq_held q p @ cq_left q p \<and> cq_cont q' p)
     \<and> set rm = {p \<in> fst ` set ps. cq_left q' p = []}
     \<and> (\<forall>p \<in> fst ` set ps. cq_left q' p \<noteq> [] \<longrightarrow> \<not> cq_room q' p)"
proof (induction ps arbitrary: q)
  case Nil
  then show ?case by (simp add: cq_others_def)
next
  case (Cons x ps)
  obtain p ts where x [simp]: "x = (p, ts)" by (cases x)
  have p: "p \<in> set (cq_writers q)" "dget (cq_exhausted q) p = Some ts" "cq_cont q p"
    using Cons.prems(3) by auto
  obtain b q1 where 1: "cq_transfer q p ts = (Inr b, q1)" "cq_inv q1" "cq_frame q q1" "cq_others {p} q q1"
    "cq_held q1 p @ cq_left q1 p = cq_held q p @ cq_left q p" "cq_cont q1 p" "b = (cq_left q1 p = [])"
    "\<not> b \<longrightarrow> \<not> cq_room q1 p"
    using cq_transfer_moves [OF Cons.prems(1) p] by blast
  have new: "p \<notin> fst ` set ps" using Cons.prems(2) by simp
  have ps: "\<forall>(r, us) \<in> set ps. r \<in> set (cq_writers q1) \<and> dget (cq_exhausted q1) r = Some us \<and> cq_cont q1 r"
  proof (clarify)
    fix r us
    assume r: "(r, us) \<in> set ps"
    then have "r \<noteq> p" using new by force
    then have "cq_cont q1 r = cq_cont q r" "dget (cq_exhausted q1) r = dget (cq_exhausted q) r"
      using cq_others_left [OF 1(4), of r] 1(4) by (auto simp: cq_others_def)
    with r Cons.prems(3) 1(3)
    show "r \<in> set (cq_writers q1) \<and> dget (cq_exhausted q1) r = Some us \<and> cq_cont q1 r"
      by (auto simp: cq_frame_def)
  qed
  obtain rm q2 where 2: "cq_transfer_all drp q1 ps = (Inr rm, q2)" "cq_inv q2" "cq_frame q1 q2"
    "cq_others (fst ` set ps) q1 q2"
    "\<forall>r \<in> fst ` set ps. cq_held q2 r @ cq_left q2 r = cq_held q1 r @ cq_left q1 r \<and> cq_cont q2 r"
    "set rm = {r \<in> fst ` set ps. cq_left q2 r = []}"
    "\<forall>r \<in> fst ` set ps. cq_left q2 r \<noteq> [] \<longrightarrow> \<not> cq_room q2 r"
    using Cons.IH [OF 1(2) _ ps] Cons.prems(2) by auto
  have room: "cq_room q2 p = cq_room q1 p" using 2(3,4) new by (simp add: cq_room_def cq_frame_def cq_others_def)
  note o2 = cq_others_left [OF 2(4) new]
  have o1: "cq_held q1 r = cq_held q r \<and> cq_left q1 r = cq_left q r" if "r \<in> fst ` set ps" for r
    using cq_others_left [OF 1(4), of r] that new by auto
  show ?case
  proof (intro exI conjI)
    show "cq_transfer_all drp q (x # ps) = (Inr (if b then p # rm else rm), q2)"
      using 1(1) 2(1) p(1) by simp
    show "cq_frame q q2" using cq_frame_trans 1(3) 2(3) by blast
    show "cq_others (fst ` set (x # ps)) q q2" using cq_others_trans [OF 1(4) 2(4)] by simp
    show "\<forall>r \<in> fst ` set (x # ps). cq_held q2 r @ cq_left q2 r = cq_held q r @ cq_left q r \<and> cq_cont q2 r"
      using o2 o1 2(5) 1(5,6) by auto
    show "set (if b then p # rm else rm) = {r \<in> fst ` set (x # ps). cq_left q2 r = []}"
      using 2(6) 1(7) o2 by auto
    show "\<forall>r \<in> fst ` set (x # ps). cq_left q2 r \<noteq> [] \<longrightarrow> \<not> cq_room q2 r"
      using 2(7) 1(7,8) o2 room by auto
  qed (rule 2(2))
qed

lemma dget_fold_ddel: "dget (fold ddel ks d) k = (if k \<in> set ks then None else dget d k)"
  by (induction ks arbitrary: d) auto

lemma dict_ok_fold_ddel: "dict_ok d \<Longrightarrow> dict_ok (fold ddel ks d)"
  by (induction ks arbitrary: d) auto

definition cq_waiting_ok :: "collect_queue \<Rightarrow> bool" where
  "cq_waiting_ok q \<longleftrightarrow> dict_ok (cq_exhausted q) \<and> dkeys (cq_exhausted q) \<subseteq> set (cq_writers q)
     \<and> (\<forall>w \<in> dkeys (cq_exhausted q). cq_cont q w)"

lemma cq_move_exhausted_moves:
  assumes "cq_inv q" "cq_waiting_ok q"
  shows "\<exists>q'. cq_move_exhausted drp q = (Inr (), q') \<and> cq_inv q' \<and> cq_frame q q'
    \<and> (\<forall>w. cq_held q' w @ cq_left q' w = cq_held q w @ cq_left q w)
    \<and> (\<forall>w. cq_left q' w \<noteq> [] \<longrightarrow> \<not> cq_room q' w)"
proof -
  let ?ps = "cq_exhausted q"
  have ok: "dict_ok ?ps" "\<forall>(p, ts) \<in> set ?ps. p \<in> set (cq_writers q) \<and> dget ?ps p = Some ts \<and> cq_cont q p"
    using assms(2) by (auto simp: cq_waiting_ok_def dkeys_def image_iff subset_iff)
  obtain rm q1 where r: "cq_transfer_all drp q ?ps = (Inr rm, q1)" "cq_inv q1" "cq_frame q q1"
    "cq_others (fst ` set ?ps) q q1"
    "\<forall>p \<in> fst ` set ?ps. cq_held q1 p @ cq_left q1 p = cq_held q p @ cq_left q p \<and> cq_cont q1 p"
    "set rm = {p \<in> fst ` set ?ps. cq_left q1 p = []}"
    "\<forall>p \<in> fst ` set ?ps. cq_left q1 p \<noteq> [] \<longrightarrow> \<not> cq_room q1 p"
    using cq_transfer_all_moves [OF assms(1) ok, of drp] by (elim exE conjE) (rule that)
  let ?q = "q1\<lparr>cq_exhausted := fold ddel rm (cq_exhausted q1)\<rparr>"
  have left: "cq_left ?q w = cq_left q1 w" for w
    using r(6) by (auto simp: cq_left_def dget_fold_ddel opt_default_def)
  have all: "cq_held q1 w @ cq_left q1 w = cq_held q w @ cq_left q w" for w
    using r(5) cq_others_left [OF r(4), of w] by (cases "w \<in> fst ` set ?ps") auto
  have none: "cq_left q1 w = []" if "w \<notin> fst ` set ?ps" for w
  proof -
    have "dget ?ps w = None" using that by (simp add: map_of_eq_None_iff)
    then show ?thesis using cq_others_left [OF r(4) that] by (simp add: cq_left_def opt_default_def)
  qed
  have "\<not> cq_room ?q w" if "cq_left ?q w \<noteq> []" for w
  proof -
    have "cq_left q1 w \<noteq> []" using that left by simp
    with none r(7) have "\<not> cq_room q1 w" by blast
    then show ?thesis by (simp add: cq_room_def)
  qed
  moreover have "cq_move_exhausted drp q = (Inr (), ?q)" using r(1) by (simp add: cq_move_exhausted_def)
  moreover have "cq_inv ?q" "cq_frame q ?q" using r(2,3) by (simp_all add: cq_frame_def)
  moreover have "cq_held ?q w @ cq_left ?q w = cq_held q w @ cq_left q w" for w
    by (simp only: left all cq_held_exhausted)
  ultimately show ?thesis by blast
qed

text \<open>
  Committing a firing: the tokens read are gone, the tokens waiting outside move in behind the
  others, and none is lost or reordered.
\<close>

lemma cq_commit_reads_view:
  assumes "cq_inv q" "w \<in> set (cq_writers q)"
  shows "cq_held (cq_commit_reads q) w = cq_new q w"
  using assms(2) by (simp add: cq_commit_reads_def cq_held_def cq_new_def dval_fold_dput)

text \<open>
  The terminations that a commit completes: confirmed by the exhaustion tokens, of a kind that ends
  this side, with nothing left to read.
\<close>

definition cq_confirmed :: "collect_queue \<Rightarrow> string \<Rightarrow> bool" where
  "cq_confirmed q w \<longleftrightarrow> (\<exists>t. dget (cq_termination q) w = Some (t, True) \<and> recv_kind t)"

lemma cq_remove_writer_inv:
  assumes "cq_inv q" "w \<in> set (cq_writers q)"
  shows "\<exists>q'. cq_remove_writer q w = (Inr (), q') \<and> cq_inv q' \<and> set (cq_writers q') = set (cq_writers q) - {w}
    \<and> (\<forall>v. v \<noteq> w \<longrightarrow> cq_held q' v = cq_held q v)"
proof -
  have "distinct (cq_writers q)" using assms(1) by (simp add: cq_inv_def)
  then have s: "set (remove1 w (cq_writers q)) = set (cq_writers q) - {w}" by (rule set_remove1_eq)
  show ?thesis
    using assms s by (auto simp: cq_remove_writer_def cq_inv_look cq_inv_def cq_held_def)
qed

lemma cq_terminated_ok:
  assumes "cq_inv q" "dict_ok ts" "dkeys ts \<subseteq> set (cq_writers q)"
  shows "\<exists>rm. cq_terminated q ts = Inr rm \<and> distinct rm
    \<and> set rm = {w. dval (cq_write_pos q) w = dval (cq_read_pos q) w
        \<and> (\<exists>t. dget ts w = Some (t, True) \<and> recv_kind t)}"
  using assms(2,3)
proof (induction ts)
  case (Cons x ts)
  obtain p t b where x: "x = (p, t, b)" by (rule prod_cases3)
  have p: "p \<in> set (cq_writers q)" "p \<notin> dkeys ts" using Cons.prems x by (auto simp: dkeys_def)
  have n: "dget ts p = None" using p(2) by (cases "dget ts p") (auto simp: dkeys_iff)
  obtain rm where "cq_terminated q ts = Inr rm" "distinct rm"
    "set rm = {w. dval (cq_write_pos q) w = dval (cq_read_pos q) w \<and> (\<exists>t. dget ts w = Some (t, True) \<and> recv_kind t)}"
    using Cons x by (auto simp: dkeys_def)
  then show ?case using x n cq_inv_look(1,3) [OF assms(1) p(1)] by auto
qed simp

lemma cq_drop_all_ok:
  "cq_inv q \<Longrightarrow> distinct rm \<Longrightarrow> set rm \<subseteq> set (cq_writers q) \<Longrightarrow>
   \<exists>q'. cq_drop_all q rm = (Inr (), q') \<and> cq_inv q' \<and> set (cq_writers q') = set (cq_writers q) - set rm
     \<and> cq_kind q' = cq_kind q \<and> (\<forall>w. w \<notin> set rm \<longrightarrow> cq_held q' w = cq_held q w \<and> cq_left q' w = cq_left q w
          \<and> dget (cq_termination q') w = dget (cq_termination q) w)
     \<and> (\<forall>w \<in> set rm. dget (cq_termination q') w = None)"
proof (induction rm arbitrary: q)
  case (Cons p rm)
  have d: "distinct (cq_writers q)" and p: "p \<in> set (cq_writers q)" using Cons.prems by (auto simp: cq_inv_def)
  obtain q1 where q1: "cq_remove_writer q p = (Inr (), q1)" "cq_inv q1" "set (cq_writers q1) = set (cq_writers q) - {p}"
    "\<forall>v. v \<noteq> p \<longrightarrow> cq_held q1 v = cq_held q v"
    using cq_remove_writer_inv [OF Cons.prems(1) p] by blast
  have f: "cq_kind q1 = cq_kind q" "cq_termination q1 = cq_termination q" "cq_exhausted q1 = cq_exhausted q"
    using q1(1) cq_inv_look(1) [OF Cons.prems(1) p] by (auto simp: cq_remove_writer_def)
  let ?q = "q1\<lparr>cq_termination := ddel p (cq_termination q1)\<rparr>"
  have "cq_inv ?q" using q1(2) by simp
  moreover have "set rm \<subseteq> set (cq_writers ?q)" using Cons.prems(2,3) q1(3) by auto
  ultimately obtain q' where q': "cq_drop_all ?q rm = (Inr (), q')" "cq_inv q'"
    "set (cq_writers q') = set (cq_writers ?q) - set rm" "cq_kind q' = cq_kind ?q"
    "\<forall>w. w \<notin> set rm \<longrightarrow> cq_held q' w = cq_held ?q w \<and> cq_left q' w = cq_left ?q w
       \<and> dget (cq_termination q') w = dget (cq_termination ?q) w"
    "\<forall>w \<in> set rm. dget (cq_termination q') w = None"
    using Cons.IH [of ?q] Cons.prems(2) by (simp only: distinct.simps) blast
  have views: "cq_held ?q w = cq_held q1 w" "cq_left ?q w = cq_left q w" for w
    using f by (simp_all add: cq_held_def cq_left_def)
  show ?case
    using q' q1 f views Cons.prems(2)
    by (intro exI [of _ q']) (auto simp: cq_drop_writer_def)
qed simp

lemma cq_inv_termination [simp]: "cq_inv (q\<lparr>cq_termination := x\<rparr>) = cq_inv q"
  by (simp add: cq_inv_def)

lemma cq_commit_moves:
  assumes "cq_inv q" "cq_waiting_ok q" "1 < cq_N q"
    and "dict_ok (cq_termination q)" "dkeys (cq_termination q) \<subseteq> set (cq_writers q)"
  defines "gone \<equiv> {w \<in> set (cq_writers q). cq_confirmed q w \<and> cq_new q w = [] \<and> cq_left q w = []}"
  shows "\<exists>q'. cq_commit q m = (Inr (gone \<noteq> {}), q') \<and> cq_inv q' \<and> cq_kind q' = cq_kind q
    \<and> set (cq_writers q') = set (cq_writers q) - gone
    \<and> (\<forall>w \<in> set (cq_writers q'). cq_held q' w @ cq_left q' w = cq_new q w @ cq_left q w
        \<and> dget (cq_termination q') w = dget (cq_termination q) w)
    \<and> (\<forall>w \<in> gone. dget (cq_termination q') w = None)"
proof -
  let ?p = "if is_turn_kind (cq_kind q) then q\<lparr>cq_peek_turn_pos := -1\<rparr> else q"
  let ?q = "cq_commit_reads ?p"
  have p: "cq_inv ?p" "cq_writers ?p = cq_writers q" "cq_kind ?p = cq_kind q" "cq_termination ?p = cq_termination q"
    "cq_N ?p = cq_N q" using assms(1) by simp_all
  have v: "cq_new ?p w = cq_new q w" "cq_left ?q w = cq_left q w" for w
    by (simp_all add: cq_new_def cq_left_def cq_commit_reads_def)
  have "cq_waiting_ok ?q" using assms(2) by (simp add: cq_waiting_ok_def cq_commit_reads_def cq_cont_def cq_left_def)
  from cq_move_exhausted_moves [OF cq_commit_reads_inv [OF p(1)] this, of False] obtain q1 where
    q1: "cq_move_exhausted False ?q = (Inr (), q1)" "cq_inv q1" "cq_frame ?q q1"
    "\<forall>w. cq_held q1 w @ cq_left q1 w = cq_held ?q w @ cq_left ?q w" "\<forall>w. cq_left q1 w \<noteq> [] \<longrightarrow> \<not> cq_room q1 w"
    by blast
  have f: "cq_writers q1 = cq_writers q" "cq_kind q1 = cq_kind q" "cq_termination q1 = cq_termination q" "cq_N q1 = cq_N q"
    using q1(3) p by (simp_all add: cq_frame_def cq_commit_reads_def)
  have kept: "cq_held q1 w @ cq_left q1 w = cq_new q w @ cq_left q w" if "w \<in> set (cq_writers q)" for w
    using q1(4) v cq_commit_reads_view [OF p(1), of w] that p(2) by simp
  obtain rm where rm: "cq_terminated q1 (cq_termination q1) = Inr rm" "distinct rm"
    "set rm = {w. dval (cq_write_pos q1) w = dval (cq_read_pos q1) w \<and> cq_confirmed q w}"
    using cq_terminated_ok [OF q1(2), of "cq_termination q1"] assms(4,5) f by (auto simp: cq_confirmed_def)
  have empty: "dval (cq_write_pos q1) w = dval (cq_read_pos q1) w \<longleftrightarrow> cq_new q w = [] \<and> cq_left q w = []"
    if w: "w \<in> set (cq_writers q)" for w
  proof -
    have "dval (cq_read_pos q1) w \<le> dval (cq_write_pos q1) w" using cq_inv_pos [OF q1(2), of w] w f by simp
    then have h: "cq_held q1 w = [] \<longleftrightarrow> dval (cq_write_pos q1) w = dval (cq_read_pos q1) w"
      by (auto simp: cq_held_def ring_slice_empty simp flip: length_0_conv)
    moreover have "cq_left q1 w = []" if "dval (cq_write_pos q1) w = dval (cq_read_pos q1) w"
      using that q1(5) assms(3) f(4) by (auto simp: cq_room_def)
    ultimately show ?thesis using kept [OF w] by auto
  qed
  have sub: "set rm = gone"
  proof -
    have "w \<in> set (cq_writers q)" if "cq_confirmed q w" for w
    proof -
      have "w \<in> dkeys (cq_termination q)" using that by (auto simp: cq_confirmed_def dkeys_iff)
      with assms(5) show ?thesis by blast
    qed
    with rm(3) empty show ?thesis by (auto simp: gone_def)
  qed
  obtain q2 where q2: "cq_drop_all q1 rm = (Inr (), q2)" "cq_inv q2" "set (cq_writers q2) = set (cq_writers q1) - set rm"
    "cq_kind q2 = cq_kind q1"
    "\<forall>w. w \<notin> set rm \<longrightarrow> cq_held q2 w = cq_held q1 w \<and> cq_left q2 w = cq_left q1 w
       \<and> dget (cq_termination q2) w = dget (cq_termination q1) w"
    "\<forall>w \<in> set rm. dget (cq_termination q2) w = None"
    using cq_drop_all_ok [OF q1(2) rm(2)] sub f(1) by (auto simp: gone_def)
  have "cq_commit q m = (Inr (gone \<noteq> {}), q2)"
    using q1(1) rm(1) q2(1) sub by (auto simp: cq_commit_def cq_base_commit_def)
  then show ?thesis
    using q2 sub f kept by (intro exI [of _ q2]) simp
qed

section \<open>Fairness of reading in turn\<close>

text \<open>How many writers are before \<open>w\<close> from the present turn.\<close>

definition cq_dist :: "collect_queue \<Rightarrow> string \<Rightarrow> int" where
  "cq_dist q w = (py_list_index (cq_writers q) w - cq_turn_pos q) mod int (length (cq_writers q))"

lemma py_list_index_nth: "x \<in> set xs \<Longrightarrow>
    0 \<le> py_list_index xs x \<and> py_list_index xs x < int (length xs) \<and> xs ! nat (py_list_index xs x) = x"
  by (induction xs) (auto simp: nat_add_distrib)

lemma cq_dist_bounds:
  assumes "w \<in> set (cq_writers q)"
  shows "0 \<le> cq_dist q w" "cq_dist q w < int (length (cq_writers q))" "cq_at q (cq_turn_pos q + cq_dist q w) = w"
proof -
  let ?n = "int (length (cq_writers q))" and ?i = "py_list_index (cq_writers q) w"
  have i: "0 \<le> ?i" "?i < ?n" "cq_writers q ! nat ?i = w" using py_list_index_nth [OF assms] by auto
  then have n: "0 < ?n" by linarith
  show "0 \<le> cq_dist q w" "cq_dist q w < ?n"
    unfolding cq_dist_def using pos_mod_sign [OF n] pos_mod_bound [OF n] by auto
  have "(cq_turn_pos q + cq_dist q w) mod ?n = ?i mod ?n" by (simp add: cq_dist_def mod_add_right_eq)
  also have "\<dots> = ?i" using i by simp
  finally show "cq_at q (cq_turn_pos q + cq_dist q w) = w" using i(3) by (simp add: cq_at_def)
qed

lemma cq_dist_less:
  assumes "w \<in> set (cq_writers q)" "cq_turn_pos q \<le> i" "i < cq_turn_pos q + cq_dist q w"
    "cq_writers q' = cq_writers q" "cq_turn_pos q' = (i + 1) mod int (length (cq_writers q))"
  shows "cq_dist q' w < cq_dist q w"
proof -
  let ?n = "int (length (cq_writers q))" and ?k = "i + 1 - cq_turn_pos q"
  have "cq_dist q' w = (py_list_index (cq_writers q) w - (i + 1)) mod ?n"
    using assms(4,5) by (simp add: cq_dist_def mod_diff_right_eq)
  also have "\<dots> = (cq_dist q w - ?k) mod ?n" unfolding cq_dist_def mod_diff_left_eq by (simp add: algebra_simps)
  also have "\<dots> = cq_dist q w - ?k"
    by (rule mod_pos_pos_trivial) (use assms(2,3) cq_dist_bounds [OF assms(1)] in auto)
  finally show ?thesis using assms(2) by simp
qed

lemma cq_peek_turn_fair:
  assumes "cq_inv q" "is_turn_kind (cq_kind q)" "w \<in> set (cq_writers q)" "1 \<le> cq_unread q w"
  shows "\<exists>v q'. cq_peek q m = (Inr (cq_tagged q v (cq_head q v)), q') \<and> cq_inv q'
    \<and> v \<in> set (cq_writers q) \<and> cq_kind q' = cq_kind q \<and> cq_writers q' = cq_writers q
    \<and> (\<forall>u \<in> set (cq_writers q). cq_new q u = (if u = v then [cq_head q v] else []) @ cq_new q' u)
    \<and> (\<forall>u. cq_unread q' u = cq_unread q u - (if u = v then 1 else 0))
    \<and> (v = w \<or> cq_dist q' w < cq_dist q w)"
proof -
  from cq_peek_turn_cases [OF assms(1), of m] assms(3,4) obtain i where i: "cq_writers q \<noteq> []" "cq_turn_pos q \<le> i"
    "1 \<le> cq_unread q (cq_at q i)" "\<forall>j. cq_turn_pos q \<le> j \<and> j < i \<longrightarrow> cq_unread q (cq_at q j) = 0"
    "cq_peek_turn q m = (Inr (cq_tagged q (cq_at q i) (cq_head q (cq_at q i))), cq_served q i)"
    by force
  let ?v = "cq_at q i" and ?q = "cq_served q i"
  have v: "?v \<in> set (cq_writers q)" by (rule cq_at_mem [OF i(1)])
  have le: "i \<le> cq_turn_pos q + cq_dist q w"
    using i(4) cq_dist_bounds [OF assms(3)] assms(4) by (metis add_increasing2 le_add_same_cancel1 not_le not_one_le_zero)
  have dec: "?v = w \<or> cq_dist ?q w < cq_dist q w"
  proof (cases "i = cq_turn_pos q + cq_dist q w")
    case False
    with le have "cq_dist ?q w < cq_dist q w" by (intro cq_dist_less [OF assms(3) i(2)]) simp_all
    then show ?thesis ..
  qed (use cq_dist_bounds(3) [OF assms(3)] in simp)
  have new: "cq_new q u = (if u = ?v then [cq_head q ?v] else []) @ cq_new ?q u" if "u \<in> set (cq_writers q)" for u
    using cq_new_cons [OF assms(1) v i(3)] by (simp add: cq_served_def cq_new_def cq_advance_def)
  have un: "cq_unread ?q u = cq_unread q u - (if u = ?v then 1 else 0)" for u
    by (simp add: cq_served_def cq_unread_def cq_advance_def)
  show ?thesis
    using i(5) cq_peek_turn_kind [OF assms(2), of m] cq_served_inv [OF assms(1) i(1,3)] v dec new un
    by (intro exI [of _ ?v] exI [of _ ?q]) auto
qed

text \<open>A number of peeks in a row, as an action with several inputs from the port does.\<close>

fun cq_peek_many :: "collect_queue \<Rightarrow> string \<Rightarrow> nat \<Rightarrow> collect_queue" where
  "cq_peek_many q m 0 = q"
| "cq_peek_many q m (Suc k) = cq_peek_many (snd (cq_peek q m)) m k"

lemma cq_served_within_aux:
  "cq_inv q \<Longrightarrow> is_turn_kind (cq_kind q) \<Longrightarrow> w \<in> set (cq_writers q) \<Longrightarrow> 1 \<le> cq_unread q w \<Longrightarrow>
   nat (cq_dist q w) = d \<Longrightarrow>
   \<exists>k \<le> Suc d. cq_unread (cq_peek_many q m k) w = cq_unread q w - 1"
proof (induction d arbitrary: q rule: less_induct)
  case (less d)
  obtain v q' where q': "cq_peek q m = (Inr (cq_tagged q v (cq_head q v)), q')" "cq_inv q'"
    "cq_kind q' = cq_kind q" "cq_writers q' = cq_writers q"
    "\<forall>u. cq_unread q' u = cq_unread q u - (if u = v then 1 else 0)" "v = w \<or> cq_dist q' w < cq_dist q w"
    using cq_peek_turn_fair [OF less.prems(1-4), of m] by blast
  show ?case
  proof (cases "v = w")
    case True
    then show ?thesis using q'(1,5) by (intro exI [of _ "Suc 0"]) simp
  next
    case False
    have d: "nat (cq_dist q' w) < d"
      using q'(6) False less.prems(5) cq_dist_bounds(1) [of w q'] less.prems(3) q'(4) by auto
    have "\<exists>k \<le> Suc (nat (cq_dist q' w)). cq_unread (cq_peek_many q' m k) w = cq_unread q' w - 1"
      by (rule less.IH [OF d]) (use q' less.prems False in simp_all)
    then obtain k where "k \<le> Suc (nat (cq_dist q' w))" "cq_unread (cq_peek_many q' m k) w = cq_unread q w - 1"
      using q'(5) False by auto
    with d q'(1) show ?thesis by (intro exI [of _ "Suc k"]) simp
  qed
qed

lemma cq_served_within:
  assumes "cq_inv q" "is_turn_kind (cq_kind q)" "w \<in> set (cq_writers q)" "1 \<le> cq_unread q w"
  shows "\<exists>k \<le> length (cq_writers q). cq_unread (cq_peek_many q m k) w = cq_unread q w - 1"
proof -
  have "Suc (nat (cq_dist q w)) \<le> length (cq_writers q)" using cq_dist_bounds [OF assms(3)] by linarith
  with cq_served_within_aux [OF assms refl, of m] show ?thesis using le_trans by blast
qed

section \<open>Connecting and disconnecting writers\<close>

lemma cq_init_inv: "0 \<le> opt_default 4 (pp_queue_length pp) \<Longrightarrow> cq_inv (cq_init k pp)"
  by (simp add: cq_inv_def cq_init_def)

lemma cq_inv_cong:
  "cq_writers q' = cq_writers q \<Longrightarrow> cq_N q' = cq_N q \<Longrightarrow> cq_fifo q' = cq_fifo q \<Longrightarrow> cq_tags q' = cq_tags q \<Longrightarrow>
   cq_write_pos q' = cq_write_pos q \<Longrightarrow> cq_read_pos q' = cq_read_pos q \<Longrightarrow> cq_tentative q' = cq_tentative q \<Longrightarrow>
   cq_inv q' = cq_inv q"
  by (simp add: cq_inv_def)

definition cq_new_writer :: "collect_queue \<Rightarrow> string \<Rightarrow> collect_queue" where
  "cq_new_writer q w =
     q\<lparr>cq_read_pos := dput w 0 (cq_read_pos q), cq_write_pos := dput w 0 (cq_write_pos q),
       cq_tentative := dput w 0 (cq_tentative q),
       cq_fifo := dput w (replicate (nat (cq_N q)) (Token (PInt 0))) (cq_fifo q),
       cq_writers := sort (cq_writers q @ [w])\<rparr>"

lemma cq_add_writer_inv:
  assumes "cq_inv q"
  shows "cq_inv (cq_add_writer q w pp)"
    and "set (cq_writers (cq_add_writer q w pp)) = insert w (set (cq_writers q))"
    and "v \<in> set (cq_writers q) \<Longrightarrow> cq_held (cq_add_writer q w pp) v = cq_held q v"
    and "w \<notin> set (cq_writers q) \<Longrightarrow> cq_held (cq_add_writer q w pp) w = []"
proof -
  let ?q = "cq_add_writer q w pp" and ?n = "cq_new_writer q w"
  let ?p = "if w \<in> set (cq_writers q) then q else ?n"
  have f: "w \<in> dkeys (cq_fifo q) \<longleftrightarrow> w \<in> set (cq_writers q)" using assms by (simp add: cq_inv_def)
  have e: "cq_writers ?q = cq_writers ?p" "cq_N ?q = cq_N ?p" "cq_fifo ?q = cq_fifo ?p"
    "cq_write_pos ?q = cq_write_pos ?p" "cq_read_pos ?q = cq_read_pos ?p" "cq_tentative ?q = cq_tentative ?p"
    using f by (auto simp: cq_add_writer_def cq_new_writer_def Let_def)
  have t: "dkeys (cq_tags ?q) = insert w (dkeys (cq_tags q))"
    using f by (auto simp: cq_add_writer_def Let_def dkeys_iff)
  show set: "set (cq_writers ?q) = insert w (set (cq_writers q))" using e by (auto simp: cq_new_writer_def)
  have sub: "set (cq_writers ?q) \<subseteq> dkeys (cq_tags ?q)" using set t assms by (auto simp: cq_inv_def)
  show "cq_inv ?q"
  proof (cases "w \<in> set (cq_writers q)")
    case True
    with e assms sub show ?thesis by (simp add: cq_inv_def)
  next
    case False
    with e assms sub show ?thesis by (auto simp: cq_inv_def cq_new_writer_def ring_ok_def)
  qed
  show "v \<in> set (cq_writers q) \<Longrightarrow> cq_held ?q v = cq_held q v"
    using e by (auto simp: cq_held_def cq_new_writer_def)
  show "w \<notin> set (cq_writers q) \<Longrightarrow> cq_held ?q w = []"
    using e by (simp add: cq_held_def cq_new_writer_def)
qed

section \<open>Serialisation and cancelling\<close>

definition cq_same_buffers :: "collect_queue \<Rightarrow> collect_queue \<Rightarrow> bool" where
  "cq_same_buffers q q' \<longleftrightarrow>
     cq_type q' = cq_type q \<and> cq_fifo q' = cq_fifo q \<and> cq_N q' = cq_N q \<and> cq_writers q' = cq_writers q
     \<and> cq_write_pos q' = cq_write_pos q \<and> cq_read_pos q' = cq_read_pos q \<and> cq_tentative q' = cq_tentative q
     \<and> cq_tags q' = cq_tags q \<and> cq_tags_are_ordering q' = cq_tags_are_ordering q
     \<and> (is_turn_kind (cq_kind q) \<longrightarrow> cq_turn_pos q' = cq_turn_pos q)"

lemma cq_state_round:
  assumes "cq_kind q0 = cq_kind q"
  shows "\<exists>q'. cq_set_state q0 (cq_get_state q) = (Inr (), q') \<and> cq_same_buffers q q' \<and> cq_kind q' = cq_kind q"
  using assms by (simp add: cq_set_state_def cq_get_state_def cq_same_buffers_def Let_def opt_default_def)

text \<open>A cancelled firing gives back everything it read; the turn goes back to where the firing began.\<close>

lemma cq_cancel_view:
  assumes "cq_inv q"
  shows "\<exists>q'. cq_cancel q m = (Inr (), q') \<and> cq_inv q' \<and> (\<forall>w \<in> set (cq_writers q). cq_new q' w = cq_held q w)
    \<and> (is_turn_kind (cq_kind q) \<longrightarrow> cq_turn_pos q' = cq_peek_turn_pos q \<and> cq_peek_turn_pos q' = -1)"
proof -
  let ?p = "if is_turn_kind (cq_kind q) then q\<lparr>cq_turn_pos := cq_peek_turn_pos q, cq_peek_turn_pos := -1\<rparr> else q"
  have p: "cq_inv ?p" using assms by simp
  from cq_base_cancel_inv [OF this] show ?thesis
    by (simp add: cq_cancel_def cq_base_cancel_def cq_new_def cq_held_def dval_fold_dput)
qed

lemma cq_peek_turn_first:
  assumes "cq_inv q" "is_turn_kind (cq_kind q)" "0 \<le> cq_turn_pos q" "cq_peek_turn_pos q = -1"
    "cq_peek q m = (Inr t, q')"
  shows "cq_peek_turn_pos q' = cq_turn_pos q"
  using cq_peek_turn_cases [OF assms(1), of m] assms(4,5) cq_peek_turn_kind [OF assms(2), of m]
  by (auto simp: cq_served_def)

end
