(* ===== verification/Any_Queue.thy ===== *)
theory Any_Queue
  imports Dispatch_Schedule Collect_Lemmas
begin

text \<open>
  The queue of a port, of whichever class the port's routing property selects
  (plugins/port/queue/__init__.py), and the queue interface that ports, endpoints and actors call
  on it.  A method a class does not have is an AttributeError.
\<close>

section \<open>Queues and their states\<close>

datatype queue_state = StNone string | StFifo ff_state | StDisp fd_state | StCollect cq_state

datatype any_queue = QNone queue_state | QFifo fanout_fifo | QDisp fanout_disp | QCollect collect_queue

definition queue_none :: any_queue where
  "queue_none = QNone (StNone ''none'')"

fun on_fifo :: "('a, fanout_fifo) out \<Rightarrow> ('a, any_queue) out" where
  "on_fifo (r, q) = (r, QFifo q)"

fun on_disp :: "('a, fanout_disp) out \<Rightarrow> ('a, any_queue) out" where
  "on_disp (r, q) = (r, QDisp q)"

fun on_collect :: "('a, collect_queue) out \<Rightarrow> ('a, any_queue) out" where
  "on_collect (r, q) = (r, QCollect q)"

section \<open>Selecting the queue class\<close>

datatype queue_class = FanoutFifoC | DispatchC dispatch_kind | CollectC collect_kind

definition select_queue :: "string \<Rightarrow> queue_class" where
  "select_queue routing =
     (if routing = ''round-robin'' then DispatchC RoundRobinK
      else if routing = ''random'' then DispatchC RandomK
      else if routing = ''dispatch-ordered'' then DispatchC OrderedK
      else if routing = ''dispatch-mapped'' then DispatchC MappedK
      else if routing = ''balanced'' then DispatchC BalancedK
      else if routing = ''collect-unordered'' then CollectC UnorderedK
      else if routing = ''collect-tagged'' then CollectC TaggedK
      else if routing = ''collect-all-tagged'' then CollectC SyncedK
      else if routing = ''collect-any-tagged'' then CollectC AnyK
      else FanoutFifoC)"

text \<open>
  Without a routing property \<open>selected_queue\<close> is unbound inside the \<open>try\<close>, so the
  result is None; any error of a constructor gives None, too.  An empty preference list fails
  before the \<open>try\<close>.
\<close>

definition queue_get :: "(nat \<Rightarrow> nat) \<Rightarrow> port_props \<Rightarrow> any_queue option res" where
  "queue_get rnd pp =
     (case pp_routing pp of
        None \<Rightarrow> Inr None
      | Some [] \<Rightarrow> Inl IndexError
      | Some (r # _) \<Rightarrow>
          Inr (case select_queue r of
                 FanoutFifoC \<Rightarrow> Some (QFifo (ff_init pp))
               | DispatchC k \<Rightarrow> (case fd_init k rnd pp of (Inr _, q) \<Rightarrow> Some (QDisp q) | (Inl _, _) \<Rightarrow> None)
               | CollectC k \<Rightarrow> Some (QCollect (cq_init k pp))))"

section \<open>Connecting\<close>

definition q_add_writer :: "any_queue \<Rightarrow> string \<Rightarrow> port_props \<Rightarrow> (unit, any_queue) out" where
  "q_add_writer q w pp =
     (case q of
        QNone _ \<Rightarrow> (Inl (AttributeError ''add_writer''), q)
      | QFifo f \<Rightarrow> (Inr (), QFifo (ff_add_writer f w))
      | QDisp _ \<Rightarrow> (Inr (), q)
      | QCollect c \<Rightarrow> (Inr (), QCollect (cq_add_writer c w pp)))"

definition q_remove_writer :: "any_queue \<Rightarrow> string \<Rightarrow> (unit, any_queue) out" where
  "q_remove_writer q w =
     (case q of
        QNone _ \<Rightarrow> (Inl (AttributeError ''remove_writer''), q)
      | QFifo f \<Rightarrow> (Inr (), QFifo (ff_remove_writer f w))
      | QDisp _ \<Rightarrow> (Inr (), q)
      | QCollect c \<Rightarrow> on_collect (cq_remove_writer c w))"

definition q_add_reader :: "any_queue \<Rightarrow> string \<Rightarrow> (unit, any_queue) out" where
  "q_add_reader q r =
     (case q of
        QNone _ \<Rightarrow> (Inl (AttributeError ''add_reader''), q)
      | QFifo f \<Rightarrow> on_fifo (ff_add_reader f r)
      | QDisp d \<Rightarrow> (Inr (), QDisp (fd_add_reader d r))
      | QCollect c \<Rightarrow> (Inr (), QCollect (cq_add_reader c r)))"

definition q_remove_reader :: "any_queue \<Rightarrow> string \<Rightarrow> (unit, any_queue) out" where
  "q_remove_reader q r =
     (case q of
        QNone _ \<Rightarrow> (Inl (AttributeError ''remove_reader''), q)
      | QFifo f \<Rightarrow> (Inr (), QFifo (ff_remove_reader f r))
      | QDisp d \<Rightarrow> and_then (on_disp (fd_remove_reader d r)) (\<lambda>_ q1. (Inr (), q1))
      | QCollect c \<Rightarrow> (Inr (), QCollect (cq_remove_reader c r)))"

definition q_get_peers :: "any_queue \<Rightarrow> string list option res" where
  "q_get_peers q =
     (case q of
        QNone _ \<Rightarrow> Inl (AttributeError ''get_peers'')
      | QFifo f \<Rightarrow> Inr (ff_get_peers f)
      | QDisp d \<Rightarrow> Inr (Some (fd_readers d))
      | QCollect c \<Rightarrow> Inr (Some (cq_writers c)))"

definition q_set_config :: "any_queue \<Rightarrow> port_config \<Rightarrow> (unit, any_queue) out" where
  "q_set_config q c =
     (case q of
        QDisp d \<Rightarrow> on_disp (fd_set_config d c)
      | QCollect k \<Rightarrow> on_collect (cq_set_config k c)
      | _ \<Rightarrow> (Inl (AttributeError ''set_config''), q))"

section \<open>State\<close>

definition q_get_state :: "any_queue \<Rightarrow> queue_state res" where
  "q_get_state q =
     (case q of
        QNone s \<Rightarrow> Inr s
      | QFifo f \<Rightarrow> Inr (StFifo (ff_get_state f))
      | QDisp d \<Rightarrow> (case fd_get_state d of Inl e \<Rightarrow> Inl e | Inr s \<Rightarrow> Inr (StDisp s))
      | QCollect c \<Rightarrow> Inr (StCollect (cq_get_state c)))"

text \<open>
  A state saved by another queue class fails at the first entry whose shape differs; the model
  rejects it at once.
\<close>

definition q_set_state :: "any_queue \<Rightarrow> queue_state \<Rightarrow> (unit, any_queue) out" where
  "q_set_state q s =
     (case (q, s) of
        (QNone _, _) \<Rightarrow> (Inr (), QNone s)
      | (QFifo f, StFifo st) \<Rightarrow> on_fifo (ff_set_state f st)
      | (QDisp d, StDisp st) \<Rightarrow> on_disp (fd_set_state d st)
      | (QCollect c, StCollect st) \<Rightarrow> on_collect (cq_set_state c st)
      | _ \<Rightarrow> (Inl KeyError, q))"

section \<open>Firing\<close>

definition q_slots_available :: "any_queue \<Rightarrow> int \<Rightarrow> string \<Rightarrow> bool res" where
  "q_slots_available q n m =
     (case q of
        QNone _ \<Rightarrow> Inl (AttributeError ''slots_available'')
      | QFifo f \<Rightarrow> Inr (ff_slots_available f n)
      | QDisp d \<Rightarrow> fd_slots_available d n m
      | QCollect c \<Rightarrow> cq_slots_available c n m)"

definition q_write :: "any_queue \<Rightarrow> token \<Rightarrow> string \<Rightarrow> (bool, any_queue) out" where
  "q_write q t m =
     (case q of
        QNone _ \<Rightarrow> (Inl (AttributeError ''write''), q)
      | QFifo f \<Rightarrow> on_fifo (ff_write f t)
      | QDisp d \<Rightarrow> on_disp (fd_write d t m)
      | QCollect c \<Rightarrow> on_collect (cq_write c t m))"

definition q_tokens_available :: "any_queue \<Rightarrow> int \<Rightarrow> string \<Rightarrow> bool res" where
  "q_tokens_available q n m =
     (case q of
        QNone _ \<Rightarrow> Inl (AttributeError ''tokens_available'')
      | QFifo f \<Rightarrow> ff_tokens_available f n m
      | QDisp d \<Rightarrow> fd_tokens_available d n m
      | QCollect c \<Rightarrow> Inr (cq_tokens_available c n))"

definition q_peek :: "any_queue \<Rightarrow> string \<Rightarrow> (token, any_queue) out" where
  "q_peek q m =
     (case q of
        QNone _ \<Rightarrow> (Inl (AttributeError ''peek''), q)
      | QFifo f \<Rightarrow> on_fifo (ff_peek f m)
      | QDisp d \<Rightarrow> on_disp (fd_peek d m)
      | QCollect c \<Rightarrow> on_collect (cq_peek c m))"

definition q_commit :: "any_queue \<Rightarrow> string \<Rightarrow> (bool, any_queue) out" where
  "q_commit q m =
     (case q of
        QNone _ \<Rightarrow> (Inl (AttributeError ''commit''), q)
      | QFifo f \<Rightarrow> on_fifo (ff_commit f m)
      | QDisp d \<Rightarrow> on_disp (fd_commit d m)
      | QCollect c \<Rightarrow> on_collect (cq_commit c m))"

definition q_cancel :: "any_queue \<Rightarrow> string \<Rightarrow> (unit, any_queue) out" where
  "q_cancel q m =
     (case q of
        QNone _ \<Rightarrow> (Inl (AttributeError ''cancel''), q)
      | QFifo f \<Rightarrow> on_fifo (ff_cancel f m)
      | QDisp d \<Rightarrow> on_disp (fd_cancel d m)
      | QCollect c \<Rightarrow> on_collect (cq_cancel c m))"

section \<open>Communication\<close>

definition q_com_write :: "any_queue \<Rightarrow> token \<Rightarrow> string \<Rightarrow> int \<Rightarrow> (commit_response, any_queue) out" where
  "q_com_write q t m n =
     (case q of
        QNone _ \<Rightarrow> (Inl (AttributeError ''com_write''), q)
      | QFifo f \<Rightarrow> on_fifo (ff_com_write f t n)
      | QDisp d \<Rightarrow> on_disp (fd_com_write d t m n)
      | QCollect c \<Rightarrow> on_collect (cq_com_write c t m n))"

definition q_com_peek :: "any_queue \<Rightarrow> string \<Rightarrow> (int \<times> token, any_queue) out" where
  "q_com_peek q r =
     (case q of
        QNone _ \<Rightarrow> (Inl (AttributeError ''com_peek''), q)
      | QFifo f \<Rightarrow> on_fifo (ff_com_peek f r)
      | QDisp d \<Rightarrow> on_disp (fd_com_peek d r)
      | QCollect c \<Rightarrow> on_collect (cq_com_unsupported c))"

definition q_com_commit :: "any_queue \<Rightarrow> string \<Rightarrow> int \<Rightarrow> (commit_response option, any_queue) out" where
  "q_com_commit q r n =
     (case q of
        QNone _ \<Rightarrow> (Inl (AttributeError ''com_commit''), q)
      | QFifo f \<Rightarrow> on_fifo (ff_com_commit f r n)
      | QDisp d \<Rightarrow> on_disp (fd_com_commit d r n)
      | QCollect c \<Rightarrow> on_collect (cq_com_unsupported c))"

definition q_com_cancel :: "any_queue \<Rightarrow> string \<Rightarrow> int \<Rightarrow> (commit_response, any_queue) out" where
  "q_com_cancel q r n =
     (case q of
        QNone _ \<Rightarrow> (Inl (AttributeError ''com_cancel''), q)
      | QFifo f \<Rightarrow> on_fifo (ff_com_cancel f r n)
      | QDisp d \<Rightarrow> on_disp (fd_com_cancel d r n)
      | QCollect c \<Rightarrow> on_collect (cq_com_unsupported c))"

definition q_com_is_committed :: "any_queue \<Rightarrow> string \<Rightarrow> bool res" where
  "q_com_is_committed q r =
     (case q of
        QNone _ \<Rightarrow> Inl (AttributeError ''com_is_committed'')
      | QFifo f \<Rightarrow> ff_com_is_committed f r
      | QDisp d \<Rightarrow> fd_com_is_committed d r
      | QCollect _ \<Rightarrow> Inl NotImplementedError)"

section \<open>Exhausting\<close>

definition q_is_exhausting :: "any_queue \<Rightarrow> string option \<Rightarrow> bool res" where
  "q_is_exhausting q p =
     (case q of
        QNone _ \<Rightarrow> Inl (AttributeError ''is_exhausting'')
      | QFifo f \<Rightarrow> Inr (ff_is_exhausting f p)
      | QDisp d \<Rightarrow> Inr (fd_is_exhausting d p)
      | QCollect c \<Rightarrow> Inr (cq_is_exhausting c p))"

definition q_exhaust :: "any_queue \<Rightarrow> string \<Rightarrow> disconnect \<Rightarrow> ((int \<times> token) list, any_queue) out" where
  "q_exhaust q p term =
     (case q of
        QNone _ \<Rightarrow> (Inl (AttributeError ''exhaust''), q)
      | QFifo f \<Rightarrow> on_fifo (ff_exhaust f p term)
      | QDisp d \<Rightarrow> on_disp (fd_exhaust d p term)
      | QCollect c \<Rightarrow> (case cq_exhaust c p term of (ts, c1) \<Rightarrow> (Inr ts, QCollect c1)))"

definition q_any_outstanding :: "any_queue \<Rightarrow> bool res" where
  "q_any_outstanding q =
     (case q of
        QFifo f \<Rightarrow> Inr (ff_any_outstanding f)
      | QCollect c \<Rightarrow> Inr (cq_any_outstanding c)
      | _ \<Rightarrow> Inl (AttributeError ''any_outstanding_exhaustion_tokens''))"

definition q_set_exhausted_tokens :: "any_queue \<Rightarrow> (string, (int \<times> token) list) dict \<Rightarrow> (int, any_queue) out" where
  "q_set_exhausted_tokens q tokens =
     (case q of
        QNone _ \<Rightarrow> (Inl (AttributeError ''set_exhausted_tokens''), q)
      | QFifo f \<Rightarrow> on_fifo (ff_set_exhausted_tokens f tokens)
      | QDisp d \<Rightarrow> (Inr (fd_set_exhausted_tokens d tokens), q)
      | QCollect c \<Rightarrow> on_collect (cq_set_exhausted_tokens c tokens))"

end
