(* ===== verification/Local_Endpoint.thy ===== *)
theory Local_Endpoint
  imports Any_Queue
begin

text \<open>
  The endpoints of a connection between two ports of one runtime (plugins/port/endpoint/local.py):
  attaching and detaching, and \<open>communicate\<close>, which moves tokens from the outport's queue into
  the inport's queue until one is empty or the other full.  The transfer loop is proved correct
  once, in the locale of the two queue contracts, and then for the queues of the program.
\<close>

section \<open>Endpoint state\<close>

text \<open>
  The log of queue-full events at the receiving endpoint: a ring of \<open>PRESSURE_LENGTH\<close>
  pairs of sequence number and time, the number of events and the last sequence number seen.
\<close>

definition PRESSURE_LENGTH :: int where
  "PRESSURE_LENGTH = 3"

record pressure_log =
  pl_count :: int
  pl_ring :: "(int option \<times> int) list"
  pl_last :: int

definition pressure_init :: pressure_log where
  "pressure_init = \<lparr>pl_count = 0, pl_ring = replicate (nat PRESSURE_LENGTH) (None, 0), pl_last = 0\<rparr>"

definition pressure_full :: "pressure_log \<Rightarrow> int \<Rightarrow> int \<Rightarrow> bool \<times> pressure_log" where
  "pressure_full pl nbr now =
     (if fst (ring_get PRESSURE_LENGTH (pl_ring pl) (pl_count pl - 1)) \<noteq> Some nbr
      then (True, pl\<lparr>pl_ring := ring_put PRESSURE_LENGTH (pl_ring pl) (pl_count pl) (Some nbr, now),
                     pl_count := pl_count pl + 1\<rparr>)
      else (False, pl))"

type_synonym remaining = "(string, (int \<times> token) list) dict"

section \<open>Attaching and detaching\<close>

definition local_in_attached :: "any_queue \<Rightarrow> string \<Rightarrow> string \<Rightarrow> port_props \<Rightarrow> (unit, any_queue) out" where
  "local_in_attached q port peer peer_props =
     and_then (q_add_reader q port) (\<lambda>_ q1. q_add_writer q1 peer peer_props)"

definition local_in_detached ::
    "any_queue \<Rightarrow> string \<Rightarrow> string \<Rightarrow> disconnect \<Rightarrow> (remaining, any_queue) out" where
  "local_in_detached q port peer term =
     (case term of
        TERMINATE \<Rightarrow> and_then (q_remove_writer q peer) (\<lambda>_ q1. (Inr [], q1))
      | EXHAUST \<Rightarrow> and_then (q_exhaust q peer EXHAUST_INPORT) (\<lambda>ts q1. (Inr [(port, ts)], q1))
      | EXHAUST_PEER \<Rightarrow> and_then (q_exhaust q peer EXHAUST_PEER_RECV) (\<lambda>ts q1. (Inr [(port, ts)], q1))
      | _ \<Rightarrow> (Inr [], q))"

definition local_out_attached :: "any_queue \<Rightarrow> string \<Rightarrow> string \<Rightarrow> port_props \<Rightarrow> (unit, any_queue) out" where
  "local_out_attached q port peer props =
     and_then (q_add_reader q peer) (\<lambda>_ q1. q_add_writer q1 port props)"

definition local_out_detached ::
    "any_queue \<Rightarrow> string \<Rightarrow> string \<Rightarrow> disconnect \<Rightarrow> (remaining, any_queue) out" where
  "local_out_detached q port peer term =
     (case term of
        TEMPORARY \<Rightarrow> and_then (q_cancel q peer) (\<lambda>_ q1. (Inr [], q1))
      | TERMINATE \<Rightarrow>
          and_then (q_cancel q peer) (\<lambda>_ q1. and_then (q_remove_reader q1 peer) (\<lambda>_ q2. (Inr [], q2)))
      | EXHAUST \<Rightarrow> and_then (q_exhaust q peer EXHAUST_OUTPORT) (\<lambda>ts q1. (Inr [(port, ts)], q1))
      | EXHAUST_PEER \<Rightarrow> and_then (q_exhaust q peer EXHAUST_PEER_SEND) (\<lambda>ts q1. (Inr [(port, ts)], q1))
      | _ \<Rightarrow> (Inr [], q))"

section \<open>The transfer loop\<close>

text \<open>
  How the loop ends: nothing left to read, or the peer is full at a sequence number.  The response
  of \<open>com_write\<close> and \<open>com_commit\<close> is not looked at.  \<open>sent\<close> and
  \<open>nbr\<close> are the loop's variables.
\<close>

datatype loop_end = SourceEmpty | PeerFull int

partial_function (option) transfer_loop ::
  "('q \<Rightarrow> string \<Rightarrow> (int \<times> token, 'q) out) \<Rightarrow> ('q \<Rightarrow> string \<Rightarrow> int \<Rightarrow> (commit_response option, 'q) out) \<Rightarrow>
   ('p \<Rightarrow> token \<Rightarrow> string \<Rightarrow> int \<Rightarrow> (commit_response, 'p) out) \<Rightarrow> string \<Rightarrow> string \<Rightarrow>
   bool \<Rightarrow> int option \<Rightarrow> 'q \<Rightarrow> 'p \<Rightarrow> ((loop_end \<times> bool \<times> int option, 'q \<times> 'p) out) option" where
  "transfer_loop peek commit deliver port peer sent nbr q p =
     (case peek q peer of
        (Inl e, q1) \<Rightarrow>
          Some (case e of QueueEmpty _ \<Rightarrow> (Inr (SourceEmpty, sent, nbr), q1, p) | _ \<Rightarrow> (Inl e, q1, p))
      | (Inr (n, t), q1) \<Rightarrow>
          (case deliver p t port n of
             (Inl e, p1) \<Rightarrow>
               Some (case e of QueueFull \<Rightarrow> (Inr (PeerFull n, sent, Some n), q1, p1) | _ \<Rightarrow> (Inl e, q1, p1))
           | (Inr _, p1) \<Rightarrow>
               (case commit q1 peer n of
                  (Inl e, q2) \<Rightarrow> Some (Inl e, q2, p1)
                | (Inr _, q2) \<Rightarrow> transfer_loop peek commit deliver port peer True (Some n) q2 p1)))"

text \<open>
  \<open>communicate\<close>: \<open>eps\<close> are the peer port's endpoints by their peer id, of which the
  sender's is looked up.  The debug message of a full queue reads the endpoint before it is checked
  to exist.  The result is \<open>sent\<close> and whether the scheduler was told of the pressure.
\<close>

definition local_communicate ::
    "int \<Rightarrow> string \<Rightarrow> string \<Rightarrow> any_queue \<Rightarrow> any_queue \<Rightarrow> (string, pressure_log) dict \<Rightarrow>
     ((bool \<times> bool, any_queue \<times> any_queue \<times> (string, pressure_log) dict) out) option" where
  "local_communicate now port peer q p eps =
     (case transfer_loop q_com_peek q_com_commit q_com_write port peer False None q p of
        None \<Rightarrow> None
      | Some (Inl e, q1, p1) \<Rightarrow> Some (Inl e, q1, p1, eps)
      | Some (Inr (SourceEmpty, sent, nbr), q1, p1) \<Rightarrow>
          Some (Inr (sent, False), q1, p1,
            (case (dget eps port, nbr) of (Some pl, Some n) \<Rightarrow> dput port (pl\<lparr>pl_last := n\<rparr>) eps | _ \<Rightarrow> eps))
      | Some (Inr (PeerFull n, sent, nbr), q1, p1) \<Rightarrow>
          (case dget eps port of
             None \<Rightarrow> Some (Inl (AttributeError ''pressure_count''), q1, p1, eps)
           | Some pl \<Rightarrow>
               (case q_com_cancel q1 peer n of
                  (Inl e, q2) \<Rightarrow> Some (Inl e, q2, p1, eps)
                | (Inr _, q2) \<Rightarrow>
                    (case pressure_full pl n now of
                       (trig, pl1) \<Rightarrow>
                         Some (Inr (sent, trig), q2, p1, dput port (pl1\<lparr>pl_last := n\<rparr>) eps)))))"

section \<open>The transfer loop over the queue contracts\<close>

locale token_link =
  src: com_source inv rd pending peeked base com_peek com_commit com_cancel +
  snk: com_sink sinv wr held expected room com_write
  for inv :: "'q \<Rightarrow> bool" and rd pending peeked base com_peek com_commit com_cancel
    and sinv :: "'p \<Rightarrow> bool" and wr held expected room com_write
begin

lemma loop_empty:
  "inv q \<Longrightarrow> rd q r \<Longrightarrow> peeked q r = length (pending q r) \<Longrightarrow>
   transfer_loop com_peek com_commit com_write w r sent nbr q p = Some (Inr (SourceEmpty, sent, nbr), q, p)"
  using src.peek_empty [of q r] by (simp add: transfer_loop.simps)

lemma loop_full:
  assumes "inv q" "rd q r" "peeked q r = 0" "pending q r \<noteq> []" "sinv p" "wr p w" "base q r = expected p w" "\<not> room p w"
  shows "\<exists>q'. transfer_loop com_peek com_commit com_write w r sent nbr q p
      = Some (Inr (PeerFull (base q r), sent, Some (base q r)), q', p)
    \<and> inv q' \<and> rd q' r \<and> pending q' r = pending q r \<and> peeked q' r = 1 \<and> base q' r = base q r"
proof -
  obtain q' where "com_peek q r = (Inr (base q r, pending q r ! 0), q')" "inv q'" "rd q' r"
    "pending q' r = pending q r" "peeked q' r = 1" "base q' r = base q r"
    using src.peek_some [OF assms(1,2)] assms(3,4) by auto
  moreover have "com_write p t w (base q r) = (Inl QueueFull, p)" for t
    using snk.write_full [OF assms(5,6,8)] assms(7) by simp
  ultimately show ?thesis by (simp add: transfer_loop.simps)
qed

text \<open>One round: the next token is delivered, or was delivered before, and is committed.\<close>

lemma loop_step:
  assumes "inv q" "rd q r" "peeked q r = 0" "pending q r = t # ts" "sinv p" "wr p w"
    "base q r < expected p w \<or> base q r = expected p w \<and> room p w"
  shows "\<exists>q' p'. transfer_loop com_peek com_commit com_write w r sent nbr q p
      = transfer_loop com_peek com_commit com_write w r True (Some (base q r)) q' p'
    \<and> inv q' \<and> rd q' r \<and> pending q' r = ts \<and> peeked q' r = 0 \<and> base q' r = base q r + 1
    \<and> sinv p' \<and> wr p' w
    \<and> held p' w = held p w @ (if base q r = expected p w then [t] else [])
    \<and> expected p' w = expected p w + (if base q r = expected p w then 1 else 0)"
proof -
  obtain q1 where q1: "com_peek q r = (Inr (base q r, t), q1)" "inv q1" "rd q1 r"
    "pending q1 r = t # ts" "peeked q1 r = 1" "base q1 r = base q r"
    using src.peek_some [OF assms(1,2)] assms(3,4) by auto
  obtain q2 where q2: "com_commit q1 r (base q r) = (Inr (Some Handled), q2)" "inv q2" "rd q2 r"
    "pending q2 r = ts" "peeked q2 r = 0" "base q2 r = base q r + 1"
    using src.commit_next [OF q1(2,3)] q1(4-6) by auto
  show ?thesis
  proof (cases "base q r = expected p w")
    case True
    then have "room p w" using assms(7) by simp
    from snk.write_next [OF assms(5,6) this, of t] obtain p1 where
      "com_write p t w (expected p w) = (Inr Handled, p1)" "sinv p1" "wr p1 w" "held p1 w = held p w @ [t]"
      "expected p1 w = expected p w + 1" by blast
    with True q1(1) q2 show ?thesis
      by (intro exI [of _ q2] exI [of _ p1]) (simp add: transfer_loop.simps [of com_peek _ _ _ _ _ _ q])
  next
    case False
    then have "base q r < expected p w" using assms(7) by simp
    from snk.write_old [OF assms(5,6) this, of t] False q1(1) q2 assms(5,6) show ?thesis
      by (intro exI [of _ q2] exI [of _ p]) (simp add: transfer_loop.simps [of com_peek _ _ _ _ _ _ q])
  qed
qed

lemma loop_delivers:
  "inv q \<Longrightarrow> rd q r \<Longrightarrow> peeked q r = 0 \<Longrightarrow> sinv p \<Longrightarrow> wr p w \<Longrightarrow> base q r \<le> expected p w \<Longrightarrow>
   expected p w \<le> base q r + int (length (pending q r)) \<Longrightarrow>
   \<exists>e k nbr' q' p'. transfer_loop com_peek com_commit com_write w r sent nbr q p
       = Some (Inr (e, sent \<or> 0 < k, nbr'), q', p')
     \<and> inv q' \<and> rd q' r \<and> sinv p' \<and> wr p' w \<and> k \<le> length (pending q r)
     \<and> pending q' r = drop k (pending q r) \<and> base q' r = base q r + int k \<and> expected p' w = base q' r
     \<and> held p' w = held p w @ drop (nat (expected p w - base q r)) (take k (pending q r))
     \<and> (case e of
           SourceEmpty \<Rightarrow> k = length (pending q r) \<and> peeked q' r = 0
         | PeerFull n \<Rightarrow> n = base q' r \<and> nbr' = Some n \<and> k < length (pending q r) \<and> peeked q' r = 1 \<and> \<not> room p' w)"
proof (induction "pending q r" arbitrary: q p sent nbr)
  case Nil
  then show ?case
    using loop_empty [of q r w sent nbr p] by (intro exI [of _ SourceEmpty] exI [of _ 0]) auto
next
  case (Cons t ts)
  note q = Cons.prems(1-3) and p = Cons.prems(4,5)
  show ?case
  proof (cases "base q r = expected p w \<and> \<not> room p w")
    case True
    have ne: "pending q r \<noteq> []" using Cons.hyps(2) by auto
    from loop_full [OF q this p, of sent nbr] True obtain q' where
      "transfer_loop com_peek com_commit com_write w r sent nbr q p
        = Some (Inr (PeerFull (base q r), sent, Some (base q r)), q', p)"
      "inv q'" "rd q' r" "pending q' r = pending q r" "peeked q' r = 1" "base q' r = base q r" by blast
    with True ne p show ?thesis
      by (intro exI [of _ "PeerFull (base q r)"] exI [of _ 0] exI [of _ "Some (base q r)"] exI [of _ q'] exI [of _ p])
        simp
  next
    case False
    then have "base q r < expected p w \<or> base q r = expected p w \<and> room p w" using Cons.prems(6) by auto
    from loop_step [OF q Cons.hyps(2) [symmetric] p this, of sent nbr] obtain q1 p1 where
      1: "transfer_loop com_peek com_commit com_write w r sent nbr q p
          = transfer_loop com_peek com_commit com_write w r True (Some (base q r)) q1 p1"
        "inv q1" "rd q1 r" "pending q1 r = ts" "peeked q1 r = 0" "base q1 r = base q r + 1" "sinv p1" "wr p1 w"
        "held p1 w = held p w @ (if base q r = expected p w then [t] else [])"
        "expected p1 w = expected p w + (if base q r = expected p w then 1 else 0)" by blast
    let ?d = "nat (expected p w - base q r)" and ?d1 = "nat (expected p1 w - base q1 r)"
    have le: "base q1 r \<le> expected p1 w" "expected p1 w \<le> base q1 r + int (length (pending q1 r))"
      using 1 Cons.prems(6,7) Cons.hyps(2) [symmetric] by auto
    obtain e k nbr' q' p' where
      2: "transfer_loop com_peek com_commit com_write w r True (Some (base q r)) q1 p1
          = Some (Inr (e, True \<or> 0 < k, nbr'), q', p')"
        "inv q'" "rd q' r" "sinv p'" "wr p' w" "k \<le> length ts" "pending q' r = drop k ts"
        "base q' r = base q1 r + int k" "expected p' w = base q' r" "held p' w = held p1 w @ drop ?d1 (take k ts)"
        "case e of SourceEmpty \<Rightarrow> k = length ts \<and> peeked q' r = 0
         | PeerFull n \<Rightarrow> n = base q' r \<and> nbr' = Some n \<and> k < length ts \<and> peeked q' r = 1 \<and> \<not> room p' w"
      using Cons.hyps(1) [of q1 p1 True "Some (base q r)"] 1(2-8) le by auto
    have "drop ?d (t # take k ts) = (if base q r = expected p w then [t] else []) @ drop ?d1 (take k ts)"
    proof (cases "base q r = expected p w")
      case False
      then have "?d = Suc ?d1" using 1(6,10) Cons.prems(6) by simp
      then show ?thesis using False by simp
    qed (use 1(6,10) in simp)
    then have h: "held p' w = held p w @ drop ?d (take (Suc k) (pending q r))"
      using 2(10) 1(9) Cons.hyps(2) [symmetric] by simp
    show ?thesis
      using 1(1,6) 2 h Cons.hyps(2) [symmetric]
      by (intro exI [of _ e] exI [of _ "Suc k"] exI [of _ nbr'] exI [of _ q'] exI [of _ p'])
        (auto split: loop_end.splits)
  qed
qed

end

section \<open>The contracts of the program's queues\<close>

fun q_source_inv :: "any_queue \<Rightarrow> bool" where
  "q_source_inv (QFifo f) = ff_inv f"
| "q_source_inv (QDisp d) = fd_inv d"
| "q_source_inv _ = False"

fun q_reader :: "any_queue \<Rightarrow> string \<Rightarrow> bool" where
  "q_reader (QFifo f) r = ff_reader f r"
| "q_reader (QDisp d) r = fd_reader d r"
| "q_reader _ r = False"

fun q_pending :: "any_queue \<Rightarrow> string \<Rightarrow> token list" where
  "q_pending (QFifo f) r = ff_pending f r"
| "q_pending (QDisp d) r = fd_pending d r"
| "q_pending _ r = []"

fun q_peeked :: "any_queue \<Rightarrow> string \<Rightarrow> nat" where
  "q_peeked (QFifo f) r = ff_peeked f r"
| "q_peeked (QDisp d) r = fd_peeked d r"
| "q_peeked _ r = 0"

fun q_base :: "any_queue \<Rightarrow> string \<Rightarrow> int" where
  "q_base (QFifo f) r = ff_base f r"
| "q_base (QDisp d) r = dval (fd_read_pos d) r"
| "q_base _ r = 0"

lemma q_source_cases:
  assumes "q_source_inv q"
  obtains f where "q = QFifo f" "ff_inv f" | d where "q = QDisp d" "fd_inv d"
  using assms by (cases q) auto

interpretation qs: com_source q_source_inv q_reader q_pending q_peeked q_base q_com_peek q_com_commit q_com_cancel
proof unfold_locales
  fix q r n and i :: nat
  assume inv: "q_source_inv q" and rd: "q_reader q r"
  show "q_peeked q r \<le> length (q_pending q r)"
    using inv rd by (cases q rule: q_source_cases) (auto simp: ffs.peeked_le fds.peeked_le)
  show "q_com_peek q r = (Inl (QueueEmpty r), q)" if "q_peeked q r = length (q_pending q r)"
    using inv rd that by (cases q rule: q_source_cases) (auto simp: q_com_peek_def ffs.peek_empty fds.peek_empty)
  show "\<exists>q'. q_com_peek q r = (Inr (q_base q r + int (q_peeked q r), q_pending q r ! q_peeked q r), q')
      \<and> q_source_inv q' \<and> q_reader q' r \<and> q_pending q' r = q_pending q r
      \<and> q_peeked q' r = Suc (q_peeked q r) \<and> q_base q' r = q_base q r"
    if less: "q_peeked q r < length (q_pending q r)"
    using inv
  proof (cases q rule: q_source_cases)
    case (1 f)
    with ffs.peek_some [of f r] rd less obtain f' where
      "ff_com_peek f r = (Inr (ff_base f r + int (ff_peeked f r), ff_pending f r ! ff_peeked f r), f')" "ff_inv f'"
      "ff_reader f' r" "ff_pending f' r = ff_pending f r" "ff_peeked f' r = Suc (ff_peeked f r)" "ff_base f' r = ff_base f r"
      by auto
    with 1 show ?thesis by (intro exI [of _ "QFifo f'"]) (simp add: q_com_peek_def)
  next
    case (2 d)
    with fds.peek_some [of d r] rd less obtain d' where
      "fd_com_peek d r = (Inr (dval (fd_read_pos d) r + int (fd_peeked d r), fd_pending d r ! fd_peeked d r), d')"
      "fd_inv d'" "fd_reader d' r" "fd_pending d' r = fd_pending d r" "fd_peeked d' r = Suc (fd_peeked d r)"
      "dval (fd_read_pos d') r = dval (fd_read_pos d) r"
      by auto
    with 2 show ?thesis by (intro exI [of _ "QDisp d'"]) (simp add: q_com_peek_def)
  qed
  show "\<exists>q'. q_com_commit q r (q_base q r) = (Inr (Some Handled), q')
      \<and> q_source_inv q' \<and> q_reader q' r \<and> q_pending q' r = tl (q_pending q r)
      \<and> q_peeked q' r = q_peeked q r - 1 \<and> q_base q' r = q_base q r + 1"
    if pos: "0 < q_peeked q r"
    using inv
  proof (cases q rule: q_source_cases)
    case (1 f)
    with ffs.commit_next [of f r] rd pos obtain f' where
      "ff_com_commit f r (ff_base f r) = (Inr (Some Handled), f')" "ff_inv f'" "ff_reader f' r"
      "ff_pending f' r = tl (ff_pending f r)" "ff_peeked f' r = ff_peeked f r - 1" "ff_base f' r = ff_base f r + 1"
      by auto
    with 1 show ?thesis by (intro exI [of _ "QFifo f'"]) (simp add: q_com_commit_def)
  next
    case (2 d)
    with fds.commit_next [of d r] rd pos obtain d' where
      "fd_com_commit d r (dval (fd_read_pos d) r) = (Inr (Some Handled), d')" "fd_inv d'" "fd_reader d' r"
      "fd_pending d' r = tl (fd_pending d r)" "fd_peeked d' r = fd_peeked d r - 1"
      "dval (fd_read_pos d') r = dval (fd_read_pos d) r + 1"
      by auto
    with 2 show ?thesis by (intro exI [of _ "QDisp d'"]) (simp add: q_com_commit_def)
  qed
  show "q_com_commit q r n = (Inr (Some Unhandled), q)" if "q_base q r < n" "n < q_base q r + int (q_peeked q r)"
    using inv rd that by (cases q rule: q_source_cases) (auto simp: q_com_commit_def ffs.commit_later fds.commit_later)
  show "q_com_commit q r n = (Inr (Some Invalid), q)" if "q_base q r + int (q_peeked q r) \<le> n"
    using inv rd that by (cases q rule: q_source_cases) (auto simp: q_com_commit_def ffs.commit_beyond fds.commit_beyond)
  show "q_com_commit q r n = (Inr (if q_peeked q r = 0 then None else Some Unhandled), q)" if "n < q_base q r"
    using inv rd that by (cases q rule: q_source_cases) (auto simp: q_com_commit_def ffs.commit_old fds.commit_old)
  show "\<exists>q'. q_com_cancel q r (q_base q r + int i) = (Inr Handled, q')
      \<and> q_source_inv q' \<and> q_reader q' r \<and> q_pending q' r = q_pending q r
      \<and> q_peeked q' r = i \<and> q_base q' r = q_base q r"
    if less: "i < q_peeked q r"
    using inv
  proof (cases q rule: q_source_cases)
    case (1 f)
    with ffs.cancel_peeked [of f r i] rd less obtain f' where
      "ff_com_cancel f r (ff_base f r + int i) = (Inr Handled, f')" "ff_inv f'" "ff_reader f' r"
      "ff_pending f' r = ff_pending f r" "ff_peeked f' r = i" "ff_base f' r = ff_base f r"
      by auto
    with 1 show ?thesis by (intro exI [of _ "QFifo f'"]) (simp add: q_com_cancel_def)
  next
    case (2 d)
    with fds.cancel_peeked [of d r i] rd less obtain d' where
      "fd_com_cancel d r (dval (fd_read_pos d) r + int i) = (Inr Handled, d')" "fd_inv d'" "fd_reader d' r"
      "fd_pending d' r = fd_pending d r" "fd_peeked d' r = i" "dval (fd_read_pos d') r = dval (fd_read_pos d) r"
      by auto
    with 2 show ?thesis by (intro exI [of _ "QDisp d'"]) (simp add: q_com_cancel_def)
  qed
  show "q_com_cancel q r n = (Inl (AttributeError ''reader_pos''), q)" if "q_base q r + int (q_peeked q r) \<le> n"
    using inv rd that by (cases q rule: q_source_cases) (auto simp: q_com_cancel_def ffs.cancel_beyond fds.cancel_beyond)
qed

fun q_sink_inv :: "any_queue \<Rightarrow> bool" where
  "q_sink_inv (QFifo f) = ff_inv f"
| "q_sink_inv (QCollect c) = cq_inv c"
| "q_sink_inv _ = False"

fun q_writer :: "any_queue \<Rightarrow> string \<Rightarrow> bool" where
  "q_writer (QFifo f) w = ff_inport f w"
| "q_writer (QCollect c) w = cq_writer c w"
| "q_writer _ w = False"

fun q_held :: "any_queue \<Rightarrow> string \<Rightarrow> token list" where
  "q_held (QFifo f) w = ff_held f w"
| "q_held (QCollect c) w = cq_held c w"
| "q_held _ w = []"

fun q_expected :: "any_queue \<Rightarrow> string \<Rightarrow> int" where
  "q_expected (QFifo f) w = ff_write_pos f"
| "q_expected (QCollect c) w = dval (cq_write_pos c) w"
| "q_expected _ w = 0"

fun q_room :: "any_queue \<Rightarrow> string \<Rightarrow> bool" where
  "q_room (QFifo f) w = ff_slots_available f 1"
| "q_room (QCollect c) w = cq_room c w"
| "q_room _ w = False"

lemma q_sink_cases:
  assumes "q_sink_inv q"
  obtains f where "q = QFifo f" "ff_inv f" | c where "q = QCollect c" "cq_inv c"
  using assms by (cases q) auto

interpretation qk: com_sink q_sink_inv q_writer q_held q_expected q_room q_com_write
proof unfold_locales
  fix q w t n
  assume inv: "q_sink_inv q" and wr: "q_writer q w"
  show "\<exists>q'. q_com_write q t w (q_expected q w) = (Inr Handled, q') \<and> q_sink_inv q' \<and> q_writer q' w
      \<and> q_held q' w = q_held q w @ [t] \<and> q_expected q' w = q_expected q w + 1" if room: "q_room q w"
    using inv
  proof (cases q rule: q_sink_cases)
    case (1 f)
    with ffk.write_next [of f w t] wr room obtain f' where
      "ff_com_write f t (ff_write_pos f) = (Inr Handled, f')" "ff_inv f'" "ff_inport f' w"
      "ff_held f' w = ff_held f w @ [t]" "ff_write_pos f' = ff_write_pos f + 1" by auto
    with 1 show ?thesis by (intro exI [of _ "QFifo f'"]) (simp add: q_com_write_def)
  next
    case (2 c)
    with cqk.write_next [of c w t] wr room obtain c' where
      "cq_com_write c t w (dval (cq_write_pos c) w) = (Inr Handled, c')" "cq_inv c'" "cq_writer c' w"
      "cq_held c' w = cq_held c w @ [t]" "dval (cq_write_pos c') w = dval (cq_write_pos c) w + 1" by auto
    with 2 show ?thesis by (intro exI [of _ "QCollect c'"]) (simp add: q_com_write_def)
  qed
  show "q_com_write q t w (q_expected q w) = (Inl QueueFull, q)" if "\<not> q_room q w"
    using inv wr that by (cases q rule: q_sink_cases) (auto simp: q_com_write_def ffk.write_full cqk.write_full)
  show "q_com_write q t w n = (Inr Unhandled, q)" if "n < q_expected q w"
    using inv wr that by (cases q rule: q_sink_cases) (auto simp: q_com_write_def ffk.write_old cqk.write_old)
  show "q_com_write q t w n = (Inr Invalid, q)" if "q_expected q w < n"
    using inv wr that by (cases q rule: q_sink_cases) (auto simp: q_com_write_def ffk.write_beyond cqk.write_beyond)
qed

interpretation ql: token_link q_source_inv q_reader q_pending q_peeked q_base q_com_peek q_com_commit q_com_cancel
    q_sink_inv q_writer q_held q_expected q_room q_com_write
  by unfold_locales

section \<open>Communicating between two local ports\<close>

text \<open>
  Everything the reader had not committed is accounted for: \<open>k\<close> tokens are committed, those of
  them the peer did not have are appended to its queue in order, nothing stays peeked, and tokens
  stay behind only when the peer has no room.
\<close>

definition delivered :: "any_queue \<Rightarrow> any_queue \<Rightarrow> string \<Rightarrow> string \<Rightarrow> nat \<Rightarrow> any_queue \<Rightarrow> any_queue \<Rightarrow> bool" where
  "delivered q p w r k q' p' \<longleftrightarrow>
     q_source_inv q' \<and> q_reader q' r \<and> q_peeked q' r = 0 \<and> q_sink_inv p' \<and> q_writer p' w
     \<and> k \<le> length (q_pending q r) \<and> q_pending q' r = drop k (q_pending q r)
     \<and> q_base q' r = q_base q r + int k \<and> q_expected p' w = q_base q' r
     \<and> q_held p' w = q_held p w @ drop (nat (q_expected p w - q_base q r)) (take k (q_pending q r))
     \<and> (k < length (q_pending q r) \<longrightarrow> \<not> q_room p' w)"

lemma local_communicate_delivers:
  assumes "q_source_inv q" "q_reader q r" "q_peeked q r = 0" "q_sink_inv p" "q_writer p w"
    "q_base q r \<le> q_expected p w" "q_expected p w \<le> q_base q r + int (length (q_pending q r))"
    "dget eps w = Some pl"
  shows "\<exists>k trig q' p' eps'. local_communicate now w r q p eps = Some (Inr (0 < k, trig), q', p', eps')
    \<and> delivered q p w r k q' p'"
proof -
  obtain e k nbr' q1 p1 where l: "transfer_loop q_com_peek q_com_commit q_com_write w r False None q p
       = Some (Inr (e, 0 < k, nbr'), q1, p1)"
    "q_source_inv q1" "q_reader q1 r" "q_sink_inv p1" "q_writer p1 w" "k \<le> length (q_pending q r)"
    "q_pending q1 r = drop k (q_pending q r)" "q_base q1 r = q_base q r + int k" "q_expected p1 w = q_base q1 r"
    "q_held p1 w = q_held p w @ drop (nat (q_expected p w - q_base q r)) (take k (q_pending q r))"
    "case e of SourceEmpty \<Rightarrow> k = length (q_pending q r) \<and> q_peeked q1 r = 0
      | PeerFull n \<Rightarrow> n = q_base q1 r \<and> nbr' = Some n \<and> k < length (q_pending q r) \<and> q_peeked q1 r = 1
          \<and> \<not> q_room p1 w"
    using ql.loop_delivers [OF assms(1-7), of False None] by auto
  show ?thesis
  proof (cases e)
    case SourceEmpty
    with l have "delivered q p w r k q1 p1" by (simp add: delivered_def)
    moreover have "\<exists>eps'. local_communicate now w r q p eps = Some (Inr (0 < k, False), q1, p1, eps')"
      using l(1) SourceEmpty by (simp add: local_communicate_def)
    ultimately show ?thesis by blast
  next
    case (PeerFull n)
    have n: "n = q_base q1 r + int 0" "0 < q_peeked q1 r" using l(11) PeerFull by auto
    from qs.cancel_peeked [OF l(2,3) n(2)] obtain q2 where q2: "q_com_cancel q1 r n = (Inr Handled, q2)"
      "q_source_inv q2" "q_reader q2 r" "q_pending q2 r = q_pending q1 r" "q_peeked q2 r = 0" "q_base q2 r = q_base q1 r"
      using n(1) by auto
    have "delivered q p w r k q2 p1" using l q2 PeerFull by (simp add: delivered_def)
    moreover have "\<exists>trig eps'. local_communicate now w r q p eps = Some (Inr (0 < k, trig), q2, p1, eps')"
      using l(1) q2(1) PeerFull assms(8) by (simp add: local_communicate_def split: prod.splits)
    ultimately show ?thesis by blast
  qed
qed

text \<open>Without an endpoint at the peer a full queue fails, with the token left peeked.\<close>

lemma local_communicate_no_endpoint:
  assumes "q_source_inv q" "q_reader q r" "q_peeked q r = 0" "q_pending q r \<noteq> []" "q_sink_inv p" "q_writer p w"
    "q_base q r = q_expected p w" "\<not> q_room p w" "dget eps w = None"
  shows "\<exists>q'. local_communicate now w r q p eps = Some (Inl (AttributeError ''pressure_count''), q', p, eps)
    \<and> q_peeked q' r = 1"
  using ql.loop_full [OF assms(1-8), of False None] assms(9) by (auto simp: local_communicate_def)

text \<open>The pressure log stays a ring of its length, and one full position is logged once.\<close>

definition pressure_ok :: "pressure_log \<Rightarrow> bool" where
  "pressure_ok pl \<longleftrightarrow> ring_ok PRESSURE_LENGTH (pl_ring pl) \<and> 0 \<le> pl_count pl"

lemma pressure_init_ok: "pressure_ok pressure_init"
  by (simp add: pressure_ok_def pressure_init_def ring_ok_def PRESSURE_LENGTH_def)

lemma pressure_full_once:
  assumes "pressure_ok pl" "pressure_full pl n now = (b, pl1)"
  shows "pressure_ok pl1" and "pressure_full pl1 n now1 = (False, pl1)"
    and "pl_count pl1 = pl_count pl + (if b then 1 else 0)"
proof -
  have r: "ring_ok PRESSURE_LENGTH (pl_ring pl)" using assms(1) by (simp add: pressure_ok_def)
  have "ring_get PRESSURE_LENGTH (ring_put PRESSURE_LENGTH (pl_ring pl) i x) i = x" for i x
    using r by (simp add: ring_get_def ring_put_def ring_ok_def nat_less_iff)
  then show "pressure_ok pl1" "pressure_full pl1 n now1 = (False, pl1)"
    "pl_count pl1 = pl_count pl + (if b then 1 else 0)"
    using assms by (auto simp: pressure_ok_def pressure_full_def split: if_splits)
qed

end
