(* ===== verification/Tunnel_Endpoint.thy ===== *)
theory Tunnel_Endpoint
  imports Local_Endpoint
begin

text \<open>
  The endpoints of a connection between two runtimes (plugins/port/endpoint/tunnel.py).  Tokens
  travel as TOKEN messages with a sequence number and are answered by TOKEN_REPLY messages with ACK
  or NACK.  Calls to the scheduler are recorded as a list of events.
\<close>

section \<open>Messages and endpoint state\<close>

record token_msg =
  tm_token :: pyval
  tm_peer_port_id :: string
  tm_sequencenbr :: int
  tm_port_id :: string

record reply_msg =
  rm_port_id :: string
  rm_peer_port_id :: string
  rm_sequencenbr :: int
  rm_value :: string

datatype sched_event = TunnelRx | TunnelTxAck | TunnelTxNack | TunnelTxThrottle | PressureEvent

text \<open>
  \<open>pressure_last\<close> of a tunnel endpoint starts as a pair, here None, and is a sequence number
  from the first token on.
\<close>

record tunnel_in =
  ti_port_id :: string
  ti_peer_id :: "string option"
  ti_peer_props :: port_props
  ti_pressure :: pressure_log
  ti_last :: "int option"

record tunnel_out =
  to_port_id :: string
  to_peer_id :: string
  to_acked :: "int list"
  to_bulk :: bool

definition tunnel_in_init :: "string \<Rightarrow> string option \<Rightarrow> port_props \<Rightarrow> tunnel_in" where
  "tunnel_in_init port peer props =
     \<lparr>ti_port_id = port, ti_peer_id = peer, ti_peer_props = props, ti_pressure = pressure_init, ti_last = None\<rparr>"

definition tunnel_out_init :: "string \<Rightarrow> string \<Rightarrow> tunnel_out" where
  "tunnel_out_init port peer =
     \<lparr>to_port_id = port, to_peer_id = peer, to_acked = [], to_bulk = True\<rparr>"

section \<open>The receiving endpoint\<close>

definition tunnel_in_attached :: "tunnel_in \<Rightarrow> any_queue \<Rightarrow> (unit, any_queue) out" where
  "tunnel_in_attached e q =
     and_then (q_add_reader q (ti_port_id e)) (\<lambda>_ q1.
       case ti_peer_id e of None \<Rightarrow> (Inr (), q1) | Some peer \<Rightarrow> q_add_writer q1 peer (ti_peer_props e))"

definition tunnel_in_detached :: "tunnel_in \<Rightarrow> any_queue \<Rightarrow> disconnect \<Rightarrow> (remaining, any_queue) out" where
  "tunnel_in_detached e q term =
     (let peer = opt_default '''' (ti_peer_id e)
      in case term of
           TERMINATE \<Rightarrow>
             if ti_peer_id e \<noteq> None then and_then (q_remove_writer q peer) (\<lambda>_ q1. (Inr [], q1))
             else (Inr [], q)
         | EXHAUST \<Rightarrow> and_then (q_exhaust q peer EXHAUST_INPORT) (\<lambda>ts q1. (Inr [(ti_port_id e, ts)], q1))
         | EXHAUST_PEER \<Rightarrow>
             and_then (q_exhaust q peer EXHAUST_PEER_RECV) (\<lambda>ts q1. (Inr [(ti_port_id e, ts)], q1))
         | _ \<Rightarrow> (Inr [], q))"

definition tunnel_in_set_peer :: "tunnel_in \<Rightarrow> any_queue \<Rightarrow> string \<Rightarrow> (unit, tunnel_in \<times> any_queue) out" where
  "tunnel_in_set_peer e q p =
     (if ti_peer_id e = None
      then (case q_add_writer q p (ti_peer_props e) of
              (Inl x, q1) \<Rightarrow> (Inl x, e, q1)
            | (Inr _, q1) \<Rightarrow> (Inr (), e\<lparr>ti_peer_id := Some p\<rparr>, q1))
      else (Inr (), e\<lparr>ti_peer_id := Some p\<rparr>, q))"

definition token_reply :: "token_msg \<Rightarrow> bool \<Rightarrow> reply_msg" where
  "token_reply m ok =
     \<lparr>rm_port_id = tm_port_id m, rm_peer_port_id = tm_peer_port_id m, rm_sequencenbr = tm_sequencenbr m,
      rm_value = (if ok then ''ACK'' else ''NACK'')\<rparr>"

text \<open>An exception other than QueueFull leaves without a reply.\<close>

definition recv_token ::
    "int \<Rightarrow> tunnel_in \<Rightarrow> any_queue \<Rightarrow> token_msg \<Rightarrow> (reply_msg \<times> sched_event list, tunnel_in \<times> any_queue) out" where
  "recv_token now e q m =
     (let n = tm_sequencenbr m
      in case decode_repr (tm_token m) of
           Inl x \<Rightarrow> (Inl x, e, q)
         | Inr t \<Rightarrow>
             (case q_com_write q t (opt_default '''' (ti_peer_id e)) n of
                (Inr r, q1) \<Rightarrow>
                  (Inr (token_reply m (r \<noteq> Invalid), if r = Handled then [TunnelRx] else []),
                   e\<lparr>ti_last := Some n\<rparr>, q1)
              | (Inl x, q1) \<Rightarrow>
                  if x = QueueFull
                  then (case pressure_full (ti_pressure e) n now of
                          (trig, pl) \<Rightarrow>
                            (Inr (token_reply m False, if trig then [PressureEvent] else []),
                             e\<lparr>ti_pressure := pl, ti_last := Some n\<rparr>, q1))
                  else (Inl x, e, q1)))"

section \<open>The sending endpoint\<close>

definition tunnel_out_attached :: "tunnel_out \<Rightarrow> any_queue \<Rightarrow> port_props \<Rightarrow> (unit, any_queue) out" where
  "tunnel_out_attached e q props =
     and_then (q_add_reader q (to_peer_id e)) (\<lambda>_ q1. q_add_writer q1 (to_port_id e) props)"

definition tunnel_out_detached :: "tunnel_out \<Rightarrow> any_queue \<Rightarrow> disconnect \<Rightarrow> (remaining, any_queue) out" where
  "tunnel_out_detached e q term = local_out_detached q (to_port_id e) (to_peer_id e) term"

definition done_response :: "commit_response option \<Rightarrow> bool" where
  "done_response r \<longleftrightarrow> r = Some Handled \<or> r = Some Invalid"

text \<open>The loop of \<open>_reply_ack\<close> over a copy of the acked sequence numbers.\<close>

fun commit_acked :: "tunnel_out \<Rightarrow> any_queue \<Rightarrow> int list \<Rightarrow> (unit, tunnel_out \<times> any_queue) out" where
  "commit_acked e q [] = (Inr (), e, q)"
| "commit_acked e q (n # ns) =
     (case q_com_commit q (to_peer_id e) n of
        (Inl x, q1) \<Rightarrow> (Inl x, e, q1)
      | (Inr r, q1) \<Rightarrow>
          commit_acked (if done_response r then e\<lparr>to_acked := remove1 n (to_acked e)\<rparr> else e) q1 ns)"

definition reply_ack :: "tunnel_out \<Rightarrow> any_queue \<Rightarrow> int \<Rightarrow> (unit, tunnel_out \<times> any_queue) out" where
  "reply_ack e0 q n =
     (let e = e0\<lparr>to_bulk := True\<rparr>
      in case q_com_commit q (to_peer_id e) n of
           (Inl x, q1) \<Rightarrow> (Inl x, e, q1)
         | (Inr r, q1) \<Rightarrow>
             if done_response r then (Inr (), e, q1)
             else (let e1 = e\<lparr>to_acked := sort (to_acked e @ [n])\<rparr> in commit_acked e1 q1 (to_acked e1)))"

definition reply_nack :: "tunnel_out \<Rightarrow> any_queue \<Rightarrow> int \<Rightarrow> (unit, tunnel_out \<times> any_queue) out" where
  "reply_nack e0 q n =
     (let e = e0\<lparr>to_bulk := False\<rparr>
      in case q_com_cancel q (to_peer_id e) n of
           (Inl x, q1) \<Rightarrow> (Inl x, e, q1)
         | (Inr r, q1) \<Rightarrow>
             (Inr (), if r = Handled then e\<lparr>to_acked := filter (\<lambda>k. k < n) (to_acked e)\<rparr> else e, q1))"

text \<open>\<open>reply\<close>: the scheduler is told first, then the queue is updated.\<close>

definition tunnel_reply ::
    "tunnel_out \<Rightarrow> any_queue \<Rightarrow> int \<Rightarrow> string \<Rightarrow> sched_event list \<times> (unit, tunnel_out \<times> any_queue) out" where
  "tunnel_reply e q n status =
     (if status = ''ACK'' then ([TunnelTxAck], reply_ack e q n)
      else if status = ''NACK'' then ([TunnelTxNack], reply_nack e q n)
      else ([], Inr (), e, q))"

definition token_message :: "tunnel_out \<Rightarrow> int \<Rightarrow> token \<Rightarrow> token_msg" where
  "token_message e n t =
     \<lparr>tm_token = repr_for_coder t, tm_peer_port_id = to_peer_id e, tm_sequencenbr = n, tm_port_id = to_port_id e\<rparr>"

definition send_one_token :: "tunnel_out \<Rightarrow> any_queue \<Rightarrow> (token_msg, any_queue) out" where
  "send_one_token e q =
     and_then (q_com_peek q (to_peer_id e)) (\<lambda>(n, t) q1. (Inr (token_message e n t), q1))"

partial_function (option) send_all ::
  "tunnel_out \<Rightarrow> token_msg list \<Rightarrow> any_queue \<Rightarrow> ((exn + unit) \<times> token_msg list \<times> any_queue) option" where
  "send_all e ms q =
     (case q_tokens_available q 1 (to_peer_id e) of
        Inl x \<Rightarrow> Some (Inl x, ms, q)
      | Inr b \<Rightarrow>
          if b
          then (case send_one_token e q of
                  (Inl x, q1) \<Rightarrow> Some (Inl x, ms, q1)
                | (Inr m, q1) \<Rightarrow> send_all e (ms @ [m]) q1)
          else Some (Inr (), ms, q))"

text \<open>\<open>communicate\<close>: the messages sent, whether any was, and the scheduler events.\<close>

definition tunnel_communicate ::
    "tunnel_out \<Rightarrow> any_queue \<Rightarrow> ((exn + bool) \<times> token_msg list \<times> sched_event list \<times> any_queue) option" where
  "tunnel_communicate e q =
     (if to_bulk e
      then (case send_all e [] q of
              None \<Rightarrow> None
            | Some (Inl x, ms, q1) \<Rightarrow> Some (Inl x, ms, [], q1)
            | Some (Inr _, ms, q1) \<Rightarrow> Some (Inr (ms \<noteq> []), ms, [], q1))
      else (case q_tokens_available q 1 (to_peer_id e) of
              Inl x \<Rightarrow> Some (Inl x, [], [], q)
            | Inr False \<Rightarrow> Some (Inr False, [], [], q)
            | Inr True \<Rightarrow>
                (case q_com_is_committed q (to_peer_id e) of
                   Inl x \<Rightarrow> Some (Inl x, [], [], q)
                 | Inr False \<Rightarrow> Some (Inr False, [], [], q)
                 | Inr True \<Rightarrow>
                     (case send_one_token e q of
                        (Inl x, q1) \<Rightarrow> Some (Inl x, [], [], q1)
                      | (Inr m, q1) \<Rightarrow> Some (Inr True, [m], [TunnelTxThrottle], q1)))))"

section \<open>Sending and receiving over the queue contracts\<close>

lemma q_avail_iff:
  assumes "q_source_inv q" "q_reader q r"
  shows "q_tokens_available q 1 r = Inr (q_peeked q r < length (q_pending q r))"
  using assms(1)
proof (cases q rule: q_source_cases)
  case (1 f)
  with assms(2) have r: "r \<in> set (ff_readers f)" by (simp add: ff_reader_def)
  note pos = ff_inv_pos [OF 1(2) r]
  show ?thesis
    using 1 r pos by (auto simp: q_tokens_available_def ff_tokens_available_def ff_inv_look [OF 1(2) r] ff_peeked_def
        ff_pending_def)
next
  case (2 d)
  with assms(2) have r: "r \<in> set (fd_readers d)" by (simp add: fd_reader_def)
  note pos = fd_inv_pos [OF 2(2) r]
  show ?thesis
    using 2 r pos by (auto simp: q_tokens_available_def fd_tokens_available_def fd_inv_look [OF 2(2) r] fd_peeked_def
        fd_pending_def)
qed

lemma q_committed_iff:
  assumes "q_source_inv q" "q_reader q r"
  shows "q_com_is_committed q r = Inr (q_peeked q r = 0)"
  using assms(1)
proof (cases q rule: q_source_cases)
  case (1 f)
  with assms(2) have r: "r \<in> set (ff_readers f)" by (simp add: ff_reader_def)
  show ?thesis
    using 1 ff_inv_pos [OF 1(2) r]
    by (auto simp: q_com_is_committed_def ff_com_is_committed_def ff_inv_look [OF 1(2) r] ff_peeked_def)
next
  case (2 d)
  with assms(2) have r: "r \<in> set (fd_readers d)" by (simp add: fd_reader_def)
  show ?thesis
    using 2 fd_inv_pos [OF 2(2) r]
    by (auto simp: q_com_is_committed_def fd_com_is_committed_def fd_inv_look [OF 2(2) r] fd_peeked_def)
qed

definition token_messages :: "tunnel_out \<Rightarrow> any_queue \<Rightarrow> nat \<Rightarrow> nat \<Rightarrow> token_msg list" where
  "token_messages e q i j =
     map (\<lambda>k. token_message e (q_base q (to_peer_id e) + int k) (q_pending q (to_peer_id e) ! k)) [i..<j]"

definition only_peeked :: "string \<Rightarrow> nat \<Rightarrow> any_queue \<Rightarrow> any_queue \<Rightarrow> bool" where
  "only_peeked r n q q' \<longleftrightarrow> q_source_inv q' \<and> q_reader q' r \<and> q_pending q' r = q_pending q r
     \<and> q_base q' r = q_base q r \<and> q_peeked q' r = n"

lemma send_one_token_ok:
  assumes "q_source_inv q" "q_reader q (to_peer_id e)" "q_peeked q (to_peer_id e) < length (q_pending q (to_peer_id e))"
  shows "\<exists>q'. send_one_token e q =
      (Inr (token_message e (q_base q (to_peer_id e) + int (q_peeked q (to_peer_id e)))
        (q_pending q (to_peer_id e) ! q_peeked q (to_peer_id e))), q')
    \<and> only_peeked (to_peer_id e) (Suc (q_peeked q (to_peer_id e))) q q'"
  using qs.peek_some [OF assms] by (auto simp: send_one_token_def only_peeked_def)

lemma send_all_ok:
  "q_source_inv q \<Longrightarrow> q_reader q (to_peer_id e) \<Longrightarrow>
   q_peeked q (to_peer_id e) + k = length (q_pending q (to_peer_id e)) \<Longrightarrow>
   \<exists>q'. send_all e ms q = Some (Inr (), ms @ token_messages e q (q_peeked q (to_peer_id e))
           (length (q_pending q (to_peer_id e))), q')
     \<and> only_peeked (to_peer_id e) (length (q_pending q (to_peer_id e))) q q'"
proof (induction k arbitrary: q ms)
  case 0
  then show ?case
    using q_avail_iff [OF 0(1,2)]
    by (intro exI [of _ q]) (simp add: send_all.simps token_messages_def only_peeked_def)
next
  case (Suc k)
  let ?r = "to_peer_id e"
  have less: "q_peeked q ?r < length (q_pending q ?r)" using Suc.prems(3) by simp
  obtain q1 where 1: "send_one_token e q = (Inr (token_message e (q_base q ?r + int (q_peeked q ?r))
      (q_pending q ?r ! q_peeked q ?r)), q1)" "only_peeked ?r (Suc (q_peeked q ?r)) q q1"
    using send_one_token_ok [OF Suc.prems(1,2) less] by blast
  let ?m = "token_message e (q_base q ?r + int (q_peeked q ?r)) (q_pending q ?r ! q_peeked q ?r)"
  obtain q2 where 2: "send_all e (ms @ [?m]) q1 = Some (Inr (), (ms @ [?m]) @ token_messages e q1 (q_peeked q1 ?r)
      (length (q_pending q1 ?r)), q2)" "only_peeked ?r (length (q_pending q1 ?r)) q1 q2"
    using Suc.IH [of q1 "ms @ [?m]"] 1(2) Suc.prems(3) by (auto simp: only_peeked_def)
  have "token_messages e q (q_peeked q ?r) (length (q_pending q ?r))
    = ?m # token_messages e q1 (q_peeked q1 ?r) (length (q_pending q1 ?r))"
    using 1(2) less by (simp add: token_messages_def only_peeked_def upt_conv_Cons)
  moreover have "send_all e ms q = send_all e (ms @ [?m]) q1"
    using q_avail_iff [OF Suc.prems(1,2)] less 1(1) by (simp add: send_all.simps [of e ms q])
  ultimately show ?case
    using 2 1(2) by (intro exI [of _ q2]) (simp add: only_peeked_def)
qed

text \<open>
  What a sender transmits: in bulk mode all tokens not yet handed out, throttled at most one, and
  that only when nothing is outstanding.
\<close>

lemma tunnel_communicate_ok:
  assumes "q_source_inv q" "q_reader q (to_peer_id e)"
  shows "\<exists>b ms evs q' n. tunnel_communicate e q = Some (Inr b, ms, evs, q')
    \<and> only_peeked (to_peer_id e) n q q' \<and> q_peeked q (to_peer_id e) \<le> n \<and> n \<le> length (q_pending q (to_peer_id e))
    \<and> ms = token_messages e q (q_peeked q (to_peer_id e)) n \<and> b = (ms \<noteq> [])
    \<and> (to_bulk e \<longrightarrow> n = length (q_pending q (to_peer_id e)))
    \<and> (\<not> to_bulk e \<longrightarrow> length ms \<le> 1 \<and> (ms \<noteq> [] \<longrightarrow> q_peeked q (to_peer_id e) = 0))"
proof -
  let ?r = "to_peer_id e"
  have le: "q_peeked q ?r \<le> length (q_pending q ?r)" by (rule qs.peeked_le [OF assms])
  then obtain k where k: "q_peeked q ?r + k = length (q_pending q ?r)" using le_Suc_ex by metis
  show ?thesis
  proof (cases "to_bulk e")
    case True
    with send_all_ok [OF assms k, of "[]"] le show ?thesis
      by (auto simp: tunnel_communicate_def intro!: exI [of _ "length (q_pending q ?r)"])
  next
    case nb: False
    have same: "only_peeked ?r (q_peeked q ?r) q q" using assms by (simp add: only_peeked_def)
    have nil: "token_messages e q n n = []" for n by (simp add: token_messages_def)
    show ?thesis
    proof (cases "q_peeked q ?r < length (q_pending q ?r) \<and> q_peeked q ?r = 0")
      case True
      then have less: "q_peeked q ?r < length (q_pending q ?r)" and z: "q_peeked q ?r = 0" by auto
      from send_one_token_ok [OF assms less] z obtain q1 where
        1: "send_one_token e q = (Inr (token_message e (q_base q ?r) (q_pending q ?r ! 0)), q1)" "only_peeked ?r (Suc 0) q q1"
        by auto
      have m: "token_messages e q 0 (Suc 0) = [token_message e (q_base q ?r) (q_pending q ?r ! 0)]"
        by (simp add: token_messages_def)
      have "tunnel_communicate e q = Some (Inr True, token_messages e q 0 (Suc 0), [TunnelTxThrottle], q1)"
        using nb 1(1) m q_avail_iff [OF assms] q_committed_iff [OF assms] less z by (simp add: tunnel_communicate_def)
      moreover have "Suc 0 \<le> length (q_pending q ?r)" using less by linarith
      ultimately show ?thesis using 1(2) m z nb
        by (intro exI [of _ True] exI [of _ "token_messages e q 0 (Suc 0)"] exI [of _ "[TunnelTxThrottle]"] exI [of _ q1]
            exI [of _ "Suc 0"]) simp
    next
      case False
      then have "tunnel_communicate e q = Some (Inr False, [], [], q)"
        using nb q_avail_iff [OF assms] q_committed_iff [OF assms] by (auto simp: tunnel_communicate_def split: bool.splits)
      with same nil le nb show ?thesis
        by (intro exI [of _ False] exI [of _ "[]"] exI [of _ "[]"] exI [of _ q] exI [of _ "q_peeked q ?r"]) simp
    qed
  qed
qed

text \<open>
  Receiving: the token is appended exactly when its number is the expected one and there is room;
  an ACK says the receiver has it, a NACK that it does not.
\<close>

lemma recv_token_ok:
  assumes "q_sink_inv q" "q_writer q w" "ti_peer_id e = Some w" "tm_token m = repr_for_coder t"
  shows "\<exists>ok evs e' q'. recv_token now e q m = (Inr (token_reply m ok, evs), e', q')
    \<and> q_sink_inv q' \<and> q_writer q' w \<and> ti_peer_id e' = Some w
    \<and> ok = (tm_sequencenbr m < q_expected q' w)
    \<and> (if tm_sequencenbr m = q_expected q w \<and> q_room q w
       then q_held q' w = q_held q w @ [t] \<and> q_expected q' w = q_expected q w + 1 \<and> evs = [TunnelRx]
       else q' = q)"
proof -
  let ?n = "tm_sequencenbr m"
  consider "?n = q_expected q w" "q_room q w" | "?n = q_expected q w" "\<not> q_room q w"
    | "?n < q_expected q w" | "q_expected q w < ?n" by linarith
  then show ?thesis
  proof cases
    case 1
    from qk.write_next [OF assms(1,2) 1(2), of t] 1 assms(3,4) show ?thesis
      by (auto simp: recv_token_def opt_default_def)
  next
    case 2
    from qk.write_full [OF assms(1,2) 2(2), of t] 2 assms show ?thesis
      by (cases "pressure_full (ti_pressure e) (q_expected q w) now")
        (auto simp: recv_token_def opt_default_def intro!: exI [of _ False])
  next
    case 3
    from qk.write_old [OF assms(1,2) 3, of t] 3 assms show ?thesis
      by (auto simp: recv_token_def opt_default_def)
  next
    case 4
    from qk.write_beyond [OF assms(1,2) 4, of t] 4 assms show ?thesis
      by (auto simp: recv_token_def opt_default_def)
  qed
qed

section \<open>Replies\<close>

text \<open>\<open>committed r k q q'\<close>: the first \<open>k\<close> peeked tokens of \<open>r\<close> are gone.\<close>

definition committed :: "string \<Rightarrow> nat \<Rightarrow> any_queue \<Rightarrow> any_queue \<Rightarrow> bool" where
  "committed r k q q' \<longleftrightarrow> q_source_inv q' \<and> q_reader q' r \<and> k \<le> q_peeked q r
     \<and> q_pending q' r = drop k (q_pending q r) \<and> q_peeked q' r = q_peeked q r - k
     \<and> q_base q' r = q_base q r + int k"

lemma committed_0: "q_source_inv q \<Longrightarrow> q_reader q r \<Longrightarrow> committed r 0 q q"
  by (simp add: committed_def)

lemma committed_trans: "committed r k q1 q2 \<Longrightarrow> committed r l q2 q3 \<Longrightarrow> committed r (k + l) q1 q3"
  by (auto simp: committed_def add.commute)

lemma q_com_commit_cases:
  assumes "q_source_inv q" "q_reader q r"
  shows "\<exists>x q' k. q_com_commit q r n = (Inr x, q') \<and> committed r k q q'
    \<and> (if n = q_base q r \<and> 0 < q_peeked q r then k = 1 \<and> x = Some Handled else k = 0 \<and> q' = q)
    \<and> (x = Some Invalid \<longleftrightarrow> q_base q r + int (q_peeked q r) \<le> n) \<and> (x = Some Handled \<longleftrightarrow> k = 1)"
proof -
  consider "n = q_base q r" "0 < q_peeked q r" | "n < q_base q r"
    | "q_base q r < n" "n < q_base q r + int (q_peeked q r)" | "q_base q r + int (q_peeked q r) \<le> n" by linarith
  then show ?thesis
  proof cases
    case 1
    from qs.commit_next [OF assms 1(2)] 1 show ?thesis
      by (auto simp: committed_def drop_Suc intro!: exI [of _ "Suc 0"])
  next
    case 2
    from qs.commit_old [OF assms 2] 2 committed_0 [OF assms] show ?thesis by (auto intro!: exI [of _ 0])
  next
    case 3
    from qs.commit_later [OF assms 3] 3 committed_0 [OF assms] show ?thesis by (auto intro!: exI [of _ 0])
  next
    case 4
    from qs.commit_beyond [OF assms 4] 4 committed_0 [OF assms] show ?thesis by (auto intro!: exI [of _ 0])
  qed
qed

definition acks_only :: "tunnel_out \<Rightarrow> tunnel_out \<Rightarrow> bool" where
  "acks_only e e' \<longleftrightarrow> to_peer_id e' = to_peer_id e \<and> to_port_id e' = to_port_id e"

lemma commit_acked_ok:
  "q_source_inv q \<Longrightarrow> q_reader q (to_peer_id e) \<Longrightarrow> \<forall>n \<in> set ns. n < X \<Longrightarrow> q_base q (to_peer_id e) \<le> X \<Longrightarrow>
   \<exists>e' q' k. commit_acked e q ns = (Inr (), e', q') \<and> acks_only e e' \<and> set (to_acked e') \<subseteq> set (to_acked e)
     \<and> to_bulk e' = to_bulk e \<and> committed (to_peer_id e) k q q' \<and> q_base q' (to_peer_id e) \<le> X"
proof (induction ns arbitrary: e q)
  case Nil
  then show ?case by (auto simp: acks_only_def intro!: exI [of _ 0] committed_0)
next
  case (Cons n ns)
  let ?r = "to_peer_id e"
  obtain x q1 k where 1: "q_com_commit q ?r n = (Inr x, q1)" "committed ?r k q q1"
    "if n = q_base q ?r \<and> 0 < q_peeked q ?r then k = 1 \<and> x = Some Handled else k = 0 \<and> q1 = q"
    using q_com_commit_cases [OF Cons.prems(1,2)] by blast
  let ?e = "if done_response x then e\<lparr>to_acked := remove1 n (to_acked e)\<rparr> else e"
  have e: "to_peer_id ?e = ?r" "to_port_id ?e = to_port_id e" "set (to_acked ?e) \<subseteq> set (to_acked e)" "to_bulk ?e = to_bulk e"
    using set_remove1_subset [of n "to_acked e"] by auto
  have b: "q_base q1 ?r \<le> X" using 1(2,3) Cons.prems(3,4) by (auto simp: committed_def split: if_splits)
  obtain e' q' l where 2: "commit_acked ?e q1 ns = (Inr (), e', q')" "acks_only ?e e'"
    "set (to_acked e') \<subseteq> set (to_acked ?e)" "to_bulk e' = to_bulk ?e" "committed ?r l q1 q'" "q_base q' ?r \<le> X"
    using Cons.IH [of q1 ?e] 1(2) Cons.prems(3) b e(1) by (auto simp: committed_def)
  have "acks_only e e'" using 2(2) e by (simp add: acks_only_def)
  with 1(1) 2 e committed_trans [OF 1(2) 2(5)] show ?case
    by (intro exI [of _ e'] exI [of _ q'] exI [of _ "k + l"]) auto
qed

lemma reply_ack_ok:
  assumes "q_source_inv q" "q_reader q (to_peer_id e)"
  shows "\<exists>e' q' k. reply_ack e q n = (Inr (), e', q') \<and> acks_only e e' \<and> to_bulk e'
    \<and> set (to_acked e') \<subseteq> insert n (set (to_acked e)) \<and> committed (to_peer_id e) k q q'
    \<and> (\<forall>X. q_base q (to_peer_id e) \<le> X \<longrightarrow> (\<forall>a \<in> insert n (set (to_acked e)). a < X) \<longrightarrow> q_base q' (to_peer_id e) \<le> X)"
proof -
  let ?r = "to_peer_id e"
  obtain x q1 k where 1: "q_com_commit q ?r n = (Inr x, q1)" "committed ?r k q q1"
    "if n = q_base q ?r \<and> 0 < q_peeked q ?r then k = 1 \<and> x = Some Handled else k = 0 \<and> q1 = q"
    using q_com_commit_cases [OF assms] by blast
  show ?thesis
  proof (cases "done_response x")
    case True
    then have "reply_ack e q n = (Inr (), e\<lparr>to_bulk := True\<rparr>, q1)" using 1(1) by (simp add: reply_ack_def Let_def)
    moreover have "q_base q1 ?r \<le> X" if "q_base q ?r \<le> X" "n < X" for X
      using 1(2,3) that by (auto simp: committed_def split: if_splits)
    ultimately show ?thesis using 1(2) by (auto simp: acks_only_def)
  next
    case False
    then have q1: "q1 = q" using 1(3) by (auto simp: done_response_def split: if_splits)
    let ?e = "e\<lparr>to_bulk := True, to_acked := sort (to_acked e @ [n])\<rparr>"
    have st: "reply_ack e q n = commit_acked ?e q (to_acked ?e)"
      using False 1(1) q1 by (simp add: reply_ack_def Let_def)
    define M where "M = Max (insert (q_base q ?r) ((\<lambda>a. a + 1) ` insert n (set (to_acked e))))"
    have M: "q_base q ?r \<le> M" "\<forall>a \<in> insert n (set (to_acked e)). a < M"
    proof -
      have "x \<le> M" if "x \<in> insert (q_base q ?r) ((\<lambda>a. a + 1) ` insert n (set (to_acked e)))" for x
        unfolding M_def using that by (intro Max_ge) auto
      then have "q_base q ?r \<le> M" "a + 1 \<le> M" if "a \<in> insert n (set (to_acked e))" for a using that by blast+
      then show "q_base q ?r \<le> M" "\<forall>a \<in> insert n (set (to_acked e)). a < M" by force+
    qed
    obtain e' q' l where 2: "commit_acked ?e q (to_acked ?e) = (Inr (), e', q')" "acks_only ?e e'"
      "set (to_acked e') \<subseteq> set (to_acked ?e)" "to_bulk e' = to_bulk ?e" "committed ?r l q q'" "q_base q' ?r \<le> M"
      using commit_acked_ok [of q ?e "to_acked ?e" M] assms M by auto
    have "M \<le> X" if "q_base q ?r \<le> X" "\<forall>a \<in> insert n (set (to_acked e)). a < X" for X
      unfolding M_def using that by (subst Max_le_iff) auto
    with 2 st show ?thesis
      by (intro exI [of _ e'] exI [of _ q'] exI [of _ l]) (auto simp: acks_only_def intro: order_trans)
  qed
qed

text \<open>
  A NACK for a token in flight makes the sender start again from it; for a later number it fails on
  the attribute \<open>reader_pos\<close>, and nothing but the transmission mode has changed.
\<close>

lemma reply_nack_ok:
  assumes "q_source_inv q" "q_reader q (to_peer_id e)" "q_base q (to_peer_id e) \<le> n"
  shows "\<exists>x e' q'. reply_nack e q n = (x, e', q') \<and> acks_only e e' \<and> \<not> to_bulk e'
    \<and> set (to_acked e') \<subseteq> set (to_acked e) \<and> (\<exists>i. only_peeked (to_peer_id e) i q q')
    \<and> (if n < q_base q (to_peer_id e) + int (q_peeked q (to_peer_id e))
       then x = Inr () \<and> q_base q' (to_peer_id e) + int (q_peeked q' (to_peer_id e)) = n
       else x = Inl (AttributeError ''reader_pos'') \<and> q' = q)"
proof -
  let ?r = "to_peer_id e"
  obtain i where i: "n = q_base q ?r + int i" using assms(3) zle_iff_zadd by auto
  show ?thesis
  proof (cases "i < q_peeked q ?r")
    case True
    from qs.cancel_peeked [OF assms(1,2) True] i obtain q' where
      "q_com_cancel q ?r n = (Inr Handled, q')" "q_source_inv q'" "q_reader q' ?r" "q_pending q' ?r = q_pending q ?r"
      "q_peeked q' ?r = i" "q_base q' ?r = q_base q ?r" by auto
    with True i show ?thesis by (auto simp: reply_nack_def acks_only_def only_peeked_def)
  next
    case False
    from qs.cancel_beyond [OF assms(1,2), of n] False i assms show ?thesis
      by (auto simp: reply_nack_def acks_only_def only_peeked_def)
  qed
qed

end
