(* ===== verification/Tunnel_Protocol.thy ===== *)
theory Tunnel_Protocol
  imports Tunnel_Endpoint
begin

text \<open>
  A tunnelled connection as a whole: the sending queue and endpoint, the receiving queue and
  endpoint, and the messages between them.  TOKEN messages may be lost, duplicated and reordered;
  replies may be lost and arrive in order.  The handlers are those of \<open>Tunnel_Endpoint\<close>.  Two
  history variables record the tokens the source was given and the tokens the destination accepted.
\<close>

record tunnel_net =
  tn_src :: any_queue
  tn_out :: tunnel_out
  tn_msgs :: "token_msg list"
  tn_replies :: "reply_msg list"
  tn_in :: tunnel_in
  tn_dst :: any_queue
  tn_sent :: "token list"
  tn_got :: "token list"

definition source_given :: "string \<Rightarrow> token list \<Rightarrow> any_queue \<Rightarrow> any_queue \<Rightarrow> bool" where
  "source_given r ts q q' \<longleftrightarrow> q_source_inv q' \<and> q_reader q' r \<and> q_base q' r = q_base q r
     \<and> q_peeked q' r = q_peeked q r \<and> q_pending q' r = q_pending q r @ ts"

definition sink_used :: "string \<Rightarrow> any_queue \<Rightarrow> any_queue \<Rightarrow> bool" where
  "sink_used w p p' \<longleftrightarrow> q_sink_inv p' \<and> q_writer p' w \<and> q_expected p' w = q_expected p w
     \<and> (\<exists>xs. q_held p w = xs @ q_held p' w)"

text \<open>
  \<open>Produce\<close> and \<open>Consume\<close> stand for everything the two actors may do to their own queue,
  \<open>Reconnect\<close> for a temporary disconnect with a fresh sending endpoint after it.
\<close>

inductive tunnel_step :: "string \<Rightarrow> string \<Rightarrow> tunnel_net \<Rightarrow> tunnel_net \<Rightarrow> bool" for w r where
  Produce: "source_given r ts (tn_src s) q' \<Longrightarrow>
    tunnel_step w r s (s\<lparr>tn_src := q', tn_sent := tn_sent s @ ts\<rparr>)"
| Communicate: "tunnel_communicate (tn_out s) (tn_src s) = Some (res, ms, evs, q') \<Longrightarrow>
    tunnel_step w r s (s\<lparr>tn_src := q', tn_msgs := tn_msgs s @ ms\<rparr>)"
| Network: "set ms \<subseteq> set (tn_msgs s) \<Longrightarrow> tunnel_step w r s (s\<lparr>tn_msgs := ms\<rparr>)"
| Receive: "m \<in> set (tn_msgs s) \<Longrightarrow> recv_token now (tn_in s) (tn_dst s) m = (Inr (rp, evs), e', q') \<Longrightarrow>
    tunnel_step w r s (s\<lparr>tn_in := e', tn_dst := q', tn_replies := tn_replies s @ [rp],
      tn_got := tn_got s @ drop (length (q_held (tn_dst s) w)) (q_held q' w)\<rparr>)"
| LoseReply: "tn_replies s = xs @ rp # ys \<Longrightarrow> tunnel_step w r s (s\<lparr>tn_replies := xs @ ys\<rparr>)"
| Reply: "tn_replies s = rp # rs \<Longrightarrow>
    tunnel_reply (tn_out s) (tn_src s) (rm_sequencenbr rp) (rm_value rp) = (evs, res, e', q') \<Longrightarrow>
    tunnel_step w r s (s\<lparr>tn_out := e', tn_src := q', tn_replies := rs\<rparr>)"
| Consume: "sink_used w (tn_dst s) q' \<Longrightarrow> tunnel_step w r s (s\<lparr>tn_dst := q'\<rparr>)"
| Reconnect: "tunnel_out_detached (tn_out s) (tn_src s) TEMPORARY = (Inr rem, q') \<Longrightarrow>
    tunnel_step w r s (s\<lparr>tn_src := q', tn_out := tunnel_out_init (to_port_id (tn_out s)) (to_peer_id (tn_out s))\<rparr>)"

inductive tunnel_reach :: "string \<Rightarrow> string \<Rightarrow> tunnel_net \<Rightarrow> tunnel_net \<Rightarrow> bool" for w r s where
  Start: "tunnel_reach w r s s"
| Step: "tunnel_reach w r s t \<Longrightarrow> tunnel_step w r t u \<Longrightarrow> tunnel_reach w r s u"

inductive_cases tunnel_stepE: "tunnel_step w r s t"

text \<open>A fresh connection: nothing in transit, the receiver expects the first pending token.\<close>

definition tunnel_start :: "string \<Rightarrow> string \<Rightarrow> tunnel_net \<Rightarrow> bool" where
  "tunnel_start w r s \<longleftrightarrow>
     q_source_inv (tn_src s) \<and> q_reader (tn_src s) r \<and> to_peer_id (tn_out s) = r \<and> to_acked (tn_out s) = []
     \<and> q_sink_inv (tn_dst s) \<and> q_writer (tn_dst s) w \<and> ti_peer_id (tn_in s) = Some w
     \<and> q_expected (tn_dst s) w = q_base (tn_src s) r \<and> tn_msgs s = [] \<and> tn_replies s = []
     \<and> tn_sent s = q_pending (tn_src s) r \<and> tn_got s = []"

section \<open>Invariant\<close>

text \<open>
  \<open>b\<close> is the sequence number of the first token of the history.  The source has committed
  \<open>i\<close> of them and the destination has accepted \<open>j\<close>.
\<close>

definition positions_ok :: "string \<Rightarrow> string \<Rightarrow> int \<Rightarrow> tunnel_net \<Rightarrow> nat \<Rightarrow> nat \<Rightarrow> bool" where
  "positions_ok w r b s i j \<longleftrightarrow>
     i \<le> j \<and> j \<le> length (tn_sent s) \<and> q_base (tn_src s) r = b + int i
     \<and> q_expected (tn_dst s) w = b + int j
     \<and> q_pending (tn_src s) r = drop i (tn_sent s) \<and> tn_got s = take j (tn_sent s)"

definition msgs_ok :: "int \<Rightarrow> tunnel_net \<Rightarrow> bool" where
  "msgs_ok b s \<longleftrightarrow> (\<forall>m \<in> set (tn_msgs s). \<exists>k < length (tn_sent s).
     tm_sequencenbr m = b + int k \<and> tm_token m = repr_for_coder (tn_sent s ! k))"

definition acks_ok :: "string \<Rightarrow> string \<Rightarrow> tunnel_net \<Rightarrow> bool" where
  "acks_ok w r s \<longleftrightarrow>
     (\<forall>a \<in> set (to_acked (tn_out s)). a < q_expected (tn_dst s) w)
     \<and> (\<forall>x \<in> set (tn_replies s). rm_value x = ''ACK'' \<longrightarrow> rm_sequencenbr x < q_expected (tn_dst s) w)"

definition nacks_ok :: "string \<Rightarrow> tunnel_net \<Rightarrow> bool" where
  "nacks_ok r s \<longleftrightarrow>
     sorted_wrt (\<lambda>x y. rm_value x = ''ACK'' \<longrightarrow> rm_value y = ''NACK'' \<longrightarrow> rm_sequencenbr x < rm_sequencenbr y)
       (tn_replies s)
     \<and> (\<forall>y \<in> set (tn_replies s). rm_value y = ''NACK'' \<longrightarrow>
          q_base (tn_src s) r \<le> rm_sequencenbr y \<and> (\<forall>a \<in> set (to_acked (tn_out s)). a < rm_sequencenbr y))"

definition ends_ok :: "string \<Rightarrow> string \<Rightarrow> tunnel_net \<Rightarrow> bool" where
  "ends_ok w r s \<longleftrightarrow>
     q_source_inv (tn_src s) \<and> q_reader (tn_src s) r \<and> to_peer_id (tn_out s) = r
     \<and> q_sink_inv (tn_dst s) \<and> q_writer (tn_dst s) w \<and> ti_peer_id (tn_in s) = Some w"

definition tunnel_inv :: "string \<Rightarrow> string \<Rightarrow> int \<Rightarrow> tunnel_net \<Rightarrow> bool" where
  "tunnel_inv w r b s \<longleftrightarrow>
     ends_ok w r s \<and> (\<exists>i j. positions_ok w r b s i j) \<and> msgs_ok b s \<and> acks_ok w r s \<and> nacks_ok r s"

lemmas tunnel_inv_defs = tunnel_inv_def ends_ok_def positions_ok_def msgs_ok_def acks_ok_def nacks_ok_def

lemma tunnel_start_inv: "tunnel_start w r s \<Longrightarrow> tunnel_inv w r (q_base (tn_src s) r) s"
  by (auto simp: tunnel_start_def tunnel_inv_defs intro!: exI [of _ 0])

section \<open>The source side\<close>

lemma q_cancel_source:
  assumes "q_source_inv q" "q_reader q r"
  shows "\<exists>q'. q_cancel q r = (Inr (), q') \<and> only_peeked r 0 q q'"
  using assms(1)
proof (cases q rule: q_source_cases)
  case (1 f)
  with assms(2) have r: "r \<in> set (ff_readers f)" by (simp add: ff_reader_def)
  show ?thesis
    using 1 r ff_inv_pos [OF 1(2) r] ff_inv_look [OF 1(2) r]
    by (auto simp: q_cancel_def ff_cancel_def only_peeked_def ff_views ff_set_tentative_inv)
next
  case (2 d)
  with assms(2) have r: "r \<in> set (fd_readers d)" by (simp add: fd_reader_def)
  show ?thesis
    using 2 r fd_inv_pos [OF 2(2) r] fd_inv_look [OF 2(2) r]
    by (auto simp: q_cancel_def fd_cancel_def only_peeked_def fd_views fd_set_tentative_inv)
qed

lemma only_peeked_fields:
  "only_peeked r n q q' \<Longrightarrow> q_source_inv q' \<and> q_reader q' r \<and> q_pending q' r = q_pending q r \<and> q_base q' r = q_base q r"
  by (simp add: only_peeked_def)

text \<open>A step that leaves what the source has committed and its acknowledgements as they were.\<close>

lemma tunnel_src_same:
  assumes "tunnel_inv w r b s" "only_peeked r n (tn_src s) q'"
  shows "tunnel_inv w r b (s\<lparr>tn_src := q'\<rparr>)"
  using assms only_peeked_fields [OF assms(2)] by (simp add: tunnel_inv_defs)

lemma produce_inv:
  assumes "tunnel_inv w r b s" "source_given r ts (tn_src s) q'"
  shows "tunnel_inv w r b (s\<lparr>tn_src := q', tn_sent := tn_sent s @ ts\<rparr>)"
proof -
  obtain i j where "positions_ok w r b s i j" using assms(1) by (auto simp: tunnel_inv_def)
  then have "positions_ok w r b (s\<lparr>tn_src := q', tn_sent := tn_sent s @ ts\<rparr>) i j"
    using assms(2) by (simp add: positions_ok_def source_given_def)
  moreover have "msgs_ok b (s\<lparr>tn_src := q', tn_sent := tn_sent s @ ts\<rparr>)"
    using assms(1) by (fastforce simp: tunnel_inv_def msgs_ok_def nth_append)
  ultimately show ?thesis
    using assms by (auto simp: tunnel_inv_def ends_ok_def source_given_def acks_ok_def nacks_ok_def)
qed

lemma token_messages_ok:
  assumes "positions_ok w r b s i j" "to_peer_id e = r" "n \<le> length (q_pending (tn_src s) r)"
    "m \<in> set (token_messages e (tn_src s) p n)"
  shows "\<exists>k < length (tn_sent s). tm_sequencenbr m = b + int k \<and> tm_token m = repr_for_coder (tn_sent s ! k)"
proof -
  obtain k where k: "k < n" "m = token_message e (q_base (tn_src s) r + int k) (q_pending (tn_src s) r ! k)"
    using assms(2,4) by (auto simp: token_messages_def)
  have "i + k < length (tn_sent s)" using k(1) assms(1,3) by (simp add: positions_ok_def)
  with k(2) assms(1) show ?thesis
    by (intro exI [of _ "i + k"]) (auto simp: positions_ok_def token_message_def)
qed

lemma communicate_inv:
  assumes "tunnel_inv w r b s" "tunnel_communicate (tn_out s) (tn_src s) = Some (res, ms, evs, q')"
  shows "tunnel_inv w r b (s\<lparr>tn_src := q', tn_msgs := tn_msgs s @ ms\<rparr>)"
proof -
  have src: "q_source_inv (tn_src s)" "q_reader (tn_src s) (to_peer_id (tn_out s))" "to_peer_id (tn_out s) = r"
    using assms(1) by (auto simp: tunnel_inv_def ends_ok_def)
  obtain i j where p: "positions_ok w r b s i j" using assms(1) by (auto simp: tunnel_inv_def)
  obtain n where n: "only_peeked r n (tn_src s) q'" "n \<le> length (q_pending (tn_src s) r)"
    "ms = token_messages (tn_out s) (tn_src s) (q_peeked (tn_src s) r) n"
    using tunnel_communicate_ok [OF src(1,2)] assms(2) src(3) by auto
  have "msgs_ok b (s\<lparr>tn_src := q'\<rparr>)" using assms(1) by (simp add: tunnel_inv_def msgs_ok_def)
  then have "msgs_ok b (s\<lparr>tn_src := q', tn_msgs := tn_msgs s @ ms\<rparr>)"
    using token_messages_ok [OF p src(3) n(2)] n(3) by (auto simp: msgs_ok_def)
  with tunnel_src_same [OF assms(1) n(1)] show ?thesis
    by (simp add: tunnel_inv_def ends_ok_def positions_ok_def acks_ok_def nacks_ok_def)
qed

lemma network_inv: "tunnel_inv w r b s \<Longrightarrow> set ms \<subseteq> set (tn_msgs s) \<Longrightarrow> tunnel_inv w r b (s\<lparr>tn_msgs := ms\<rparr>)"
  by (auto simp: tunnel_inv_defs subset_iff)

lemma lose_reply_inv:
  assumes "tunnel_inv w r b s" "tn_replies s = xs @ rp # ys"
  shows "tunnel_inv w r b (s\<lparr>tn_replies := xs @ ys\<rparr>)"
  using assms by (auto simp: tunnel_inv_defs sorted_wrt_append)

lemma consume_inv:
  assumes "tunnel_inv w r b s" "sink_used w (tn_dst s) q'"
  shows "tunnel_inv w r b (s\<lparr>tn_dst := q'\<rparr>)"
  using assms by (simp add: tunnel_inv_defs sink_used_def)

lemma reconnect_inv:
  assumes "tunnel_inv w r b s" "tunnel_out_detached (tn_out s) (tn_src s) TEMPORARY = (Inr x, q')"
  shows "tunnel_inv w r b (s\<lparr>tn_src := q', tn_out := tunnel_out_init (to_port_id (tn_out s)) (to_peer_id (tn_out s))\<rparr>)"
proof -
  have src: "q_source_inv (tn_src s)" "q_reader (tn_src s) r" "to_peer_id (tn_out s) = r"
    using assms(1) by (auto simp: tunnel_inv_def ends_ok_def)
  from q_cancel_source [OF src(1,2)] assms(2) src(3) have "only_peeked r 0 (tn_src s) q'"
    by (auto simp: tunnel_out_detached_def local_out_detached_def)
  from tunnel_src_same [OF assms(1) this] show ?thesis
    by (simp add: tunnel_inv_defs tunnel_out_init_def)
qed

lemma receive_inv:
  assumes "tunnel_inv w r b s" "m \<in> set (tn_msgs s)"
    "recv_token now (tn_in s) (tn_dst s) m = (Inr (rp, evs), e', q')"
  shows "tunnel_inv w r b (s\<lparr>tn_in := e', tn_dst := q', tn_replies := tn_replies s @ [rp],
      tn_got := tn_got s @ drop (length (q_held (tn_dst s) w)) (q_held q' w)\<rparr>)" (is "tunnel_inv w r b ?t")
proof -
  let ?p = "tn_dst s" and ?n = "tm_sequencenbr m"
  have dst: "q_sink_inv ?p" "q_writer ?p w" "ti_peer_id (tn_in s) = Some w"
    using assms(1) by (auto simp: tunnel_inv_def ends_ok_def)
  obtain i j where p: "positions_ok w r b s i j" using assms(1) by (auto simp: tunnel_inv_def)
  obtain k where k: "k < length (tn_sent s)" "?n = b + int k" "tm_token m = repr_for_coder (tn_sent s ! k)"
    using assms(1,2) by (auto simp: tunnel_inv_def msgs_ok_def)
  from recv_token_ok [OF dst k(3), of now] assms(3) obtain ok where ok:
    "rp = token_reply m ok" "q_sink_inv q'" "q_writer q' w" "ti_peer_id e' = Some w" "ok = (?n < q_expected q' w)"
    "if ?n = q_expected ?p w \<and> q_room ?p w
     then q_held q' w = q_held ?p w @ [tn_sent s ! k] \<and> q_expected q' w = q_expected ?p w + 1 \<and> evs = [TunnelRx]
     else q' = ?p" by auto
  have mono: "q_expected ?p w \<le> q_expected q' w" using ok(6) by (auto split: if_splits)
  have "\<exists>j'. positions_ok w r b ?t i j'"
  proof (cases "?n = q_expected ?p w \<and> q_room ?p w")
    case True
    then have "k = j" using k(2) p by (simp add: positions_ok_def)
    with True ok(6) k(1) p show ?thesis
      by (intro exI [of _ "Suc j"]) (simp add: positions_ok_def take_Suc_conv_app_nth)
  next
    case False
    with ok(6) p show ?thesis by (auto simp: positions_ok_def)
  qed
  moreover have "acks_ok w r ?t"
    using assms(1) mono ok(1,5) by (fastforce simp: tunnel_inv_def acks_ok_def token_reply_def)
  moreover have "nacks_ok r ?t"
  proof -
    have le: "q_base (tn_src s) r \<le> q_expected ?p w" using p by (simp add: positions_ok_def)
    have n: "nacks_ok r s" "acks_ok w r s" using assms(1) by (auto simp: tunnel_inv_def)
    show ?thesis
    proof (cases ok)
      case True
      then have v: "rm_value rp \<noteq> ''NACK''" using ok(1) by (simp add: token_reply_def)
      with n(1) show ?thesis by (auto simp: nacks_ok_def sorted_wrt_append)
    next
      case False
      then have v: "q_expected ?p w \<le> rm_sequencenbr rp" "rm_value rp = ''NACK''"
        using ok(1,5) mono by (auto simp: token_reply_def)
      with n le show ?thesis by (fastforce simp: nacks_ok_def acks_ok_def sorted_wrt_append)
    qed
  qed
  ultimately show ?thesis
    using assms(1) ok(2-4) by (auto simp: tunnel_inv_def ends_ok_def msgs_ok_def)
qed

section \<open>Replies reach the source\<close>

lemma ack_inv:
  assumes "tunnel_inv w r b s" "tn_replies s = rp # rs" "rm_value rp = ''ACK''"
    "reply_ack (tn_out s) (tn_src s) (rm_sequencenbr rp) = (res, e', q')"
  shows "tunnel_inv w r b (s\<lparr>tn_out := e', tn_src := q', tn_replies := rs\<rparr>)"
proof -
  let ?q = "tn_src s" and ?n = "rm_sequencenbr rp" and ?A = "set (to_acked (tn_out s))"
  have src: "q_source_inv ?q" "q_reader ?q (to_peer_id (tn_out s))" "to_peer_id (tn_out s) = r"
    using assms(1) by (auto simp: tunnel_inv_def ends_ok_def)
  obtain i j where p: "positions_ok w r b s i j" using assms(1) by (auto simp: tunnel_inv_def)
  have a: "acks_ok w r s" and na: "nacks_ok r s" using assms(1) by (auto simp: tunnel_inv_def)
  obtain k where 1: "acks_only (tn_out s) e'" "set (to_acked e') \<subseteq> insert ?n ?A" "committed r k ?q q'"
    "\<forall>X. q_base ?q r \<le> X \<longrightarrow> (\<forall>a \<in> insert ?n ?A. a < X) \<longrightarrow> q_base q' r \<le> X"
    using reply_ack_ok [OF src(1,2), of ?n] assms(4) src(3) by auto
  have lt: "\<forall>a \<in> insert ?n ?A. a < q_expected (tn_dst s) w" using a assms(2,3) by (simp add: acks_ok_def)
  have "q_base q' r \<le> q_expected (tn_dst s) w" using 1(4) lt p by (simp add: positions_ok_def)
  then have "positions_ok w r b (s\<lparr>tn_out := e', tn_src := q', tn_replies := rs\<rparr>) (i + k) j"
    using p 1(3) by (simp add: positions_ok_def committed_def add.commute)
  moreover have "nacks_ok r (s\<lparr>tn_out := e', tn_src := q', tn_replies := rs\<rparr>)"
  proof -
    have "q_base q' r \<le> rm_sequencenbr y \<and> (\<forall>a \<in> set (to_acked e'). a < rm_sequencenbr y)"
      if "y \<in> set rs" "rm_value y = ''NACK''" for y
    proof -
      have y: "q_base ?q r \<le> rm_sequencenbr y" "\<forall>a \<in> insert ?n ?A. a < rm_sequencenbr y"
        using na assms(2,3) that by (auto simp: nacks_ok_def)
      with 1(2,4) show ?thesis by blast
    qed
    with na assms(2) show ?thesis by (simp add: nacks_ok_def)
  qed
  moreover have "acks_ok w r (s\<lparr>tn_out := e', tn_src := q', tn_replies := rs\<rparr>)"
    using a lt 1(2) assms(2) by (auto simp: acks_ok_def)
  ultimately show ?thesis
    using assms(1) 1(1,3) src(3) by (auto simp: tunnel_inv_def ends_ok_def committed_def acks_only_def msgs_ok_def)
qed

lemma nack_inv:
  assumes "tunnel_inv w r b s" "tn_replies s = rp # rs" "rm_value rp = ''NACK''"
    "reply_nack (tn_out s) (tn_src s) (rm_sequencenbr rp) = (res, e', q')"
  shows "tunnel_inv w r b (s\<lparr>tn_out := e', tn_src := q', tn_replies := rs\<rparr>)"
proof -
  let ?q = "tn_src s" and ?n = "rm_sequencenbr rp"
  have src: "q_source_inv ?q" "q_reader ?q (to_peer_id (tn_out s))" "to_peer_id (tn_out s) = r"
    using assms(1) by (auto simp: tunnel_inv_def ends_ok_def)
  have "q_base ?q (to_peer_id (tn_out s)) \<le> ?n"
    using assms(1-3) src(3) by (auto simp: tunnel_inv_def nacks_ok_def)
  from reply_nack_ok [OF src(1,2) this] assms(4) src(3) obtain i where
    1: "acks_only (tn_out s) e'" "set (to_acked e') \<subseteq> set (to_acked (tn_out s))" "only_peeked r i ?q q'" by auto
  from tunnel_src_same [OF assms(1) 1(3)] 1(1,2) src(3) assms(2) show ?thesis
    by (auto simp: tunnel_inv_defs acks_only_def subset_iff)
qed

lemma reply_inv:
  assumes "tunnel_inv w r b s" "tn_replies s = rp # rs"
    "tunnel_reply (tn_out s) (tn_src s) (rm_sequencenbr rp) (rm_value rp) = (evs, res, e', q')"
  shows "tunnel_inv w r b (s\<lparr>tn_out := e', tn_src := q', tn_replies := rs\<rparr>)"
proof -
  consider "rm_value rp = ''ACK''" | "rm_value rp = ''NACK''"
    | "rm_value rp \<noteq> ''ACK''" "rm_value rp \<noteq> ''NACK''" by blast
  then show ?thesis
  proof cases
    case 3
    then have "e' = tn_out s" "q' = tn_src s" using assms(3) by (auto simp: tunnel_reply_def)
    with assms(1,2) show ?thesis by (auto simp: tunnel_inv_defs)
  qed (use assms ack_inv nack_inv in \<open>auto simp: tunnel_reply_def\<close>)
qed

section \<open>Exactly once, in order\<close>

lemma tunnel_step_inv: "tunnel_step w r s t \<Longrightarrow> tunnel_inv w r b s \<Longrightarrow> tunnel_inv w r b t"
  by (induction rule: tunnel_step.induct)
    (blast intro: produce_inv communicate_inv network_inv receive_inv lose_reply_inv reply_inv consume_inv reconnect_inv)+

lemma tunnel_reach_inv: "tunnel_reach w r s t \<Longrightarrow> tunnel_inv w r b s \<Longrightarrow> tunnel_inv w r b t"
  by (induction rule: tunnel_reach.induct) (blast intro: tunnel_step_inv)+

text \<open>
  What was accepted is a prefix of what was sent, and what the source still holds is everything
  else, up to a few tokens accepted but not yet acknowledged.
\<close>

lemma tunnel_inv_delivery:
  assumes "tunnel_inv w r b s"
  shows "\<exists>d. tn_sent s = tn_got s @ drop d (q_pending (tn_src s) r)
    \<and> q_expected (tn_dst s) w = q_base (tn_src s) r + int d"
proof -
  obtain i j where p: "positions_ok w r b s i j" using assms by (auto simp: tunnel_inv_def)
  then show ?thesis by (intro exI [of _ "j - i"]) (simp add: positions_ok_def)
qed

end
