(* ===== verification/Actor_Port.thy ===== *)
theory Actor_Port
  imports Tunnel_Protocol
begin

text \<open>
  Actor ports (actor/actorport.py): an inport or outport owns a queue and a list of endpoints, one
  per peer.  Calls of the owning actor (\<open>did_connect\<close>, \<open>did_disconnect\<close>) are returned as a
  flag; the actor theory performs them.
\<close>

section \<open>Ports and endpoints\<close>

datatype endpoint_kind = LocalInE | LocalOutE | TunnelInE | TunnelOutE

text \<open>
  \<open>ep_label\<close> is the peer's name as "actor.port", known for local peers only; \<open>ep_node\<close> is
  'local' or the peer's node.
\<close>

record endpoint =
  ep_kind :: endpoint_kind
  ep_node :: string
  ep_peer_id :: string
  ep_peer_props :: port_props
  ep_label :: "string option"
  ep_pressure :: pressure_log

datatype port_direction = InDir | OutDir

record port =
  pt_direction :: port_direction
  pt_name :: string
  pt_id :: string
  pt_queue :: "any_queue option"
  pt_props :: port_props
  pt_endpoints :: "endpoint list"

text \<open>\<open>dict.update\<close> on properties: entries present in the second win.\<close>

definition opt_over :: "'a option \<Rightarrow> 'a option \<Rightarrow> 'a option" where
  "opt_over old new = (case new of None \<Rightarrow> old | Some v \<Rightarrow> Some v)"

definition props_update :: "port_props \<Rightarrow> port_props \<Rightarrow> port_props" where
  "props_update old new =
     \<lparr>pp_routing = opt_over (pp_routing old) (pp_routing new),
      pp_queue_length = opt_over (pp_queue_length old) (pp_queue_length new),
      pp_direction = opt_over (pp_direction old) (pp_direction new),
      pp_nbr_peers = opt_over (pp_nbr_peers old) (pp_nbr_peers new),
      pp_tag = opt_over (pp_tag old) (pp_tag new)\<rparr>"

definition no_props :: port_props where
  "no_props = \<lparr>pp_routing = None, pp_queue_length = None, pp_direction = None, pp_nbr_peers = None, pp_tag = None\<rparr>"

text \<open>The constructor of an outport sets its routing after the given properties were applied.\<close>

definition port_init :: "port_direction \<Rightarrow> string \<Rightarrow> string \<Rightarrow> port_props \<Rightarrow> port" where
  "port_init dir name uuid props =
     (let p0 = no_props\<lparr>pp_routing := Some [''default''], pp_nbr_peers := Some 1\<rparr>;
          p1 = props_update p0 props;
          p2 = (case dir of
                  InDir \<Rightarrow> p1\<lparr>pp_direction := Some ''in''\<rparr>
                | OutDir \<Rightarrow> p1\<lparr>pp_routing := Some [''fanout''], pp_direction := Some ''out''\<rparr>)
      in \<lparr>pt_direction = dir, pt_name = name, pt_id = uuid, pt_queue = Some queue_none, pt_props = p2,
          pt_endpoints = []\<rparr>)"

section \<open>Queue and configuration\<close>

fun state_type :: "queue_state \<Rightarrow> string option" where
  "state_type (StNone s) = Some s"
| "state_type (StFifo s) = fs_queuetype s"
| "state_type (StDisp s) = ds_queuetype s"
| "state_type (StCollect s) = cs_queuetype s"

fun queue_type :: "any_queue \<Rightarrow> string option" where
  "queue_type (QNone s) = state_type s"
| "queue_type (QFifo f) = Some (ff_type f)"
| "queue_type (QDisp d) = fd_type d"
| "queue_type (QCollect c) = cq_type c"

fun is_queue_none :: "any_queue \<Rightarrow> bool" where
  "is_queue_none (QNone _) = True"
| "is_queue_none _ = False"

text \<open>\<open>queue.get\<close> may have given None, which has no queue type to compare.\<close>

definition port_set_queue :: "port \<Rightarrow> any_queue option \<Rightarrow> (unit, port) out" where
  "port_set_queue p new0 =
     (case (pt_queue p, new0) of
        (None, _) \<Rightarrow> (Inr (), p\<lparr>pt_queue := new0\<rparr>)
      | (Some q, None) \<Rightarrow> (Inl (AttributeError ''queue_type''), p)
      | (Some q, Some new) \<Rightarrow>
          if is_queue_none q \<and> queue_type q = queue_type new
          then (case q_get_state q of
                  Inl e \<Rightarrow> (Inl e, p)
                | Inr s \<Rightarrow>
                    (case q_set_state new s of
                       (Inl e, _) \<Rightarrow> (Inl e, p)
                     | (Inr _, n) \<Rightarrow> (Inr (), p\<lparr>pt_queue := Some n\<rparr>)))
          else if queue_type q = Some ''none'' then (Inr (), p\<lparr>pt_queue := Some new\<rparr>)
          else if queue_type q = queue_type new then (Inr (), p)
          else (Inl NotImplementedError, p))"

text \<open>An operation of the port's queue; a missing queue is an AttributeError of None.\<close>

definition on_queue :: "port \<Rightarrow> (any_queue \<Rightarrow> ('a, any_queue) out) \<Rightarrow> ('a, port) out" where
  "on_queue p f =
     (case pt_queue p of
        None \<Rightarrow> (Inl (AttributeError ''NoneType''), p)
      | Some q \<Rightarrow> (case f q of (r, q1) \<Rightarrow> (r, p\<lparr>pt_queue := Some q1\<rparr>)))"

definition ask_queue :: "port \<Rightarrow> (any_queue \<Rightarrow> 'a res) \<Rightarrow> 'a res" where
  "ask_queue p f = (case pt_queue p of None \<Rightarrow> Inl (AttributeError ''NoneType'') | Some q \<Rightarrow> f q)"

text \<open>
  \<open>set_config\<close> renames "actor.port" to port ids; an endpoint to another runtime has no peer port.
\<close>

fun port_labels :: "endpoint list \<Rightarrow> (string, string) dict \<Rightarrow> (string, string) dict res" where
  "port_labels [] d = Inr d"
| "port_labels (e # es) d =
     (case ep_label e of
        None \<Rightarrow> Inl (AttributeError ''peer_port'')
      | Some l \<Rightarrow> port_labels es (dput l (ep_peer_id e) d))"

fun look_all :: "(string, string) dict \<Rightarrow> string list \<Rightarrow> string list res" where
  "look_all d [] = Inr []"
| "look_all d (k # ks) =
     (case dlook d k of
        Inl e \<Rightarrow> Inl e
      | Inr v \<Rightarrow> (case look_all d ks of Inl e \<Rightarrow> Inl e | Inr vs \<Rightarrow> Inr (v # vs)))"

definition port_set_config :: "port \<Rightarrow> port_config \<Rightarrow> (unit, port) out" where
  "port_set_config p c =
     (case port_labels (pt_endpoints p) [] of
        Inl e \<Rightarrow> (Inl e, p)
      | Inr d \<Rightarrow>
          (case (case pc_port_order c of None \<Rightarrow> Inr None
                 | Some ord \<Rightarrow> (case look_all d ord of Inl e \<Rightarrow> Inl e | Inr ids \<Rightarrow> Inr (Some ids))) of
             Inl e \<Rightarrow> (Inl e, p)
           | Inr ord \<Rightarrow>
               (case (case pc_port_mapping c of None \<Rightarrow> Inr None
                      | Some m \<Rightarrow> (case look_all d (map snd m) of
                                     Inl e \<Rightarrow> Inl e | Inr ids \<Rightarrow> Inr (Some (zip (map fst m) ids)))) of
                  Inl e \<Rightarrow> (Inl e, p)
                | Inr mp \<Rightarrow> on_queue p (\<lambda>q. q_set_config q (c\<lparr>pc_port_order := ord, pc_port_mapping := mp\<rparr>)))))"

section \<open>State\<close>

record port_state =
  ps_name :: string
  ps_id :: string
  ps_queue :: queue_state
  ps_properties :: port_props

definition port_get_state :: "port \<Rightarrow> port_state res" where
  "port_get_state p =
     (case ask_queue p q_get_state of
        Inl e \<Rightarrow> Inl e
      | Inr s \<Rightarrow> Inr \<lparr>ps_name = pt_name p, ps_id = pt_id p, ps_queue = s, ps_properties = pt_props p\<rparr>)"

definition port_set_state :: "port \<Rightarrow> port_state \<Rightarrow> (unit, port) out" where
  "port_set_state p s =
     on_queue (p\<lparr>pt_name := ps_name s, pt_id := ps_id s, pt_props := props_update (pt_props p) (ps_properties s)\<rparr>)
       (\<lambda>q. q_set_state q (ps_queue s))"

section \<open>Endpoints\<close>

definition endpoint_attached :: "port \<Rightarrow> endpoint \<Rightarrow> (unit, port) out" where
  "endpoint_attached p e =
     on_queue p (\<lambda>q.
       case ep_kind e of
         LocalInE \<Rightarrow> local_in_attached q (pt_id p) (ep_peer_id e) (ep_peer_props e)
       | LocalOutE \<Rightarrow> local_out_attached q (pt_id p) (ep_peer_id e) (pt_props p)
       | TunnelInE \<Rightarrow> tunnel_in_attached (tunnel_in_init (pt_id p) (Some (ep_peer_id e)) (ep_peer_props e)) q
       | TunnelOutE \<Rightarrow> tunnel_out_attached (tunnel_out_init (pt_id p) (ep_peer_id e)) q (pt_props p))"

definition endpoint_detached :: "port \<Rightarrow> endpoint \<Rightarrow> disconnect \<Rightarrow> (remaining, port) out" where
  "endpoint_detached p e term =
     on_queue p (\<lambda>q.
       case ep_kind e of
         LocalInE \<Rightarrow> local_in_detached q (pt_id p) (ep_peer_id e) term
       | LocalOutE \<Rightarrow> local_out_detached q (pt_id p) (ep_peer_id e) term
       | TunnelInE \<Rightarrow> tunnel_in_detached (tunnel_in_init (pt_id p) (Some (ep_peer_id e)) (ep_peer_props e)) q term
       | TunnelOutE \<Rightarrow> tunnel_out_detached (tunnel_out_init (pt_id p) (ep_peer_id e)) q term)"

text \<open>Every endpoint class reports itself connected, so only their number counts.\<close>

definition port_is_connected :: "port \<Rightarrow> bool" where
  "port_is_connected p \<longleftrightarrow> \<not> int (length (pt_endpoints p)) < opt_default 1 (pp_nbr_peers (pt_props p))"

definition port_is_connected_to :: "port \<Rightarrow> string \<Rightarrow> bool" where
  "port_is_connected_to p peer \<longleftrightarrow> list_ex (\<lambda>e. ep_peer_id e = peer) (pt_endpoints p)"

fun first_peer :: "string \<Rightarrow> endpoint list \<Rightarrow> endpoint option" where
  "first_peer peer [] = None"
| "first_peer peer (e # es) = (if ep_peer_id e = peer then Some e else first_peer peer es)"

text \<open>
  \<open>attach_endpoint\<close>: the old endpoint of the same peer (None for the void endpoint) and whether
  \<open>did_connect\<close> is called.  \<open>len(None)\<close> is a TypeError.
\<close>

definition port_attach :: "port \<Rightarrow> endpoint \<Rightarrow> (endpoint option \<times> bool, port) out" where
  "port_attach p e =
     (let old = first_peer (ep_peer_id e) (pt_endpoints p);
          p1 = p\<lparr>pt_endpoints := (case old of None \<Rightarrow> pt_endpoints p | Some o1 \<Rightarrow> remove1 o1 (pt_endpoints p)) @ [e]\<rparr>
      in and_then (endpoint_attached p1 e) (\<lambda>_ p2.
           case ask_queue p2 q_get_peers of
             Inl x \<Rightarrow> (Inl x, p2)
           | Inr None \<Rightarrow> (Inl TypeError, p2)
           | Inr (Some peers) \<Rightarrow>
               (let n = int (length peers)
                in if n > opt_default 1 (pp_nbr_peers (pt_props p2))
                   then (Inr (old, False), p2\<lparr>pt_props := (pt_props p2)\<lparr>pp_nbr_peers := Some n\<rparr>\<rparr>)
                   else (Inr (old, True), p2))))"

fun detach_all :: "port \<Rightarrow> disconnect \<Rightarrow> endpoint list \<Rightarrow> ((endpoint \<times> remaining) list, port) out" where
  "detach_all p term [] = (Inr [], p)"
| "detach_all p term (e # es) =
     and_then (endpoint_detached p e term) (\<lambda>rem p1.
       and_then (detach_all p1 term es) (\<lambda>rest p2. (Inr ((e, rem) # rest), p2)))"

text \<open>
  \<open>disconnect\<close>: the endpoints removed with their remaining tokens, and whether
  \<open>did_disconnect\<close> is called.  An inport that is exhausting does not call it yet.
\<close>

definition port_disconnect ::
    "port \<Rightarrow> string list option \<Rightarrow> disconnect \<Rightarrow> ((endpoint \<times> remaining) list \<times> bool, port) out" where
  "port_disconnect p peers term =
     (let es = (case peers of None \<Rightarrow> pt_endpoints p
                | Some ids \<Rightarrow> filter (\<lambda>e. ep_peer_id e \<in> set ids) (pt_endpoints p));
          p1 = p\<lparr>pt_endpoints := filter (\<lambda>e. e \<notin> set es) (pt_endpoints p)\<rparr>
      in and_then (detach_all p1 term es) (\<lambda>rems p2.
           let n = opt_default 1 (pp_nbr_peers (pt_props p2)) - int (length es);
               p3 = (if disconnect_ord term \<ge> disconnect_ord TERMINATE
                     then p2\<lparr>pt_props := (pt_props p2)\<lparr>pp_nbr_peers := Some n\<rparr>\<rparr> else p2)
           in case pt_direction p of
                InDir \<Rightarrow>
                  (case ask_queue p3 (\<lambda>q. q_is_exhausting q None) of
                     Inl x \<Rightarrow> (Inl x, p3)
                   | Inr ex \<Rightarrow> (Inr (rems, pt_endpoints p3 = [] \<and> \<not> ex), p3))
              | OutDir \<Rightarrow> (Inr (rems, pt_endpoints p3 = []), p3)))"

section \<open>Exhaustion\<close>

definition port_any_outstanding :: "port \<Rightarrow> bool res" where
  "port_any_outstanding p =
     (case ask_queue p q_any_outstanding of Inl (AttributeError _) \<Rightarrow> Inr False | r \<Rightarrow> r)"

text \<open>\<open>exhausted_tokens\<close>; the result says whether \<open>did_disconnect\<close> is called.\<close>

definition port_exhausted_tokens :: "port \<Rightarrow> remaining \<Rightarrow> (bool, port) out" where
  "port_exhausted_tokens p tokens =
     and_then (on_queue p (\<lambda>q. q_set_exhausted_tokens q tokens)) (\<lambda>_ p1.
       case pt_direction p of
         OutDir \<Rightarrow> (Inr False, p1)
       | InDir \<Rightarrow>
           (case ask_queue p1 (\<lambda>q. q_is_exhausting q None) of
              Inl x \<Rightarrow> (Inl x, p1)
            | Inr ex \<Rightarrow> (Inr (pt_endpoints p1 = [] \<and> \<not> ex), p1)))"

definition port_finished_exhaustion :: "port \<Rightarrow> bool res" where
  "port_finished_exhaustion p =
     (if pt_endpoints p \<noteq> [] then Inr False
      else case ask_queue p (\<lambda>q. q_is_exhausting q None) of Inl x \<Rightarrow> Inl x | Inr ex \<Rightarrow> Inr (\<not> ex))"

section \<open>Tokens\<close>

definition port_peek :: "port \<Rightarrow> (token, port) out" where
  "port_peek p = on_queue p (\<lambda>q. q_peek q (pt_id p))"

definition port_peek_cancel :: "port \<Rightarrow> (unit, port) out" where
  "port_peek_cancel p = on_queue p (\<lambda>q. q_cancel q (pt_id p))"

definition port_peek_commit :: "port \<Rightarrow> (bool, port) out" where
  "port_peek_commit p = on_queue p (\<lambda>q. q_commit q (pt_id p))"

definition port_read :: "port \<Rightarrow> (token \<times> bool, port) out" where
  "port_read p = and_then (port_peek p) (\<lambda>t p1. and_then (port_peek_commit p1) (\<lambda>ex p2. (Inr (t, ex), p2)))"

definition port_tokens_available :: "port \<Rightarrow> int \<Rightarrow> bool res" where
  "port_tokens_available p n =
     (case pt_direction p of
        InDir \<Rightarrow> ask_queue p (\<lambda>q. q_tokens_available q n (pt_id p))
      | OutDir \<Rightarrow> ask_queue p (\<lambda>q. q_slots_available q n (pt_id p)))"

definition port_write_token :: "port \<Rightarrow> token \<Rightarrow> (unit, port) out" where
  "port_write_token p t = and_then (on_queue p (\<lambda>q. q_write q t (pt_id p))) (\<lambda>_ p1. (Inr (), p1))"

text \<open>
  The peers: those of the endpoints, and the queue's peers that have no endpoint now (as a set in
  the code; here in the queue's order) when there are more of the latter.
\<close>

definition port_get_peers :: "port \<Rightarrow> (string option \<times> string) list res" where
  "port_get_peers p =
     (let peers = map (\<lambda>e. (Some (ep_node e), ep_peer_id e)) (pt_endpoints p)
      in case ask_queue p q_get_peers of
           Inl x \<Rightarrow> Inl x
         | Inr None \<Rightarrow> Inr peers
         | Inr (Some qs) \<Rightarrow>
             Inr (if length peers < length qs
                  then peers @ map (\<lambda>x. (None, x)) (filter (\<lambda>x. x \<notin> snd ` set peers) (remdups qs))
                  else peers))"

end
