(* ===== verification/Actor_Core.thy ===== *)
theory Actor_Core
  imports Actor_Port
begin

text \<open>
  The actor base class (actor/actor.py): the status machine, connecting and disconnecting of ports,
  the decorators \<open>condition\<close> and \<open>stateguard\<close> and the firing of the action list,
  exhaustion, authorization and migration.  What a subclass adds (its variables, guards, action
  bodies and hooks) is a parameter: the variables are the type \<open>'v\<close>.
\<close>

section \<open>Status machine\<close>

datatype status = LOADED | READY | PENDING | ENABLED | DENIED | MIGRATABLE

fun valid_transitions :: "status \<Rightarrow> status list" where
  "valid_transitions LOADED = [READY]"
| "valid_transitions READY = [PENDING, ENABLED, DENIED]"
| "valid_transitions PENDING = [READY, PENDING, ENABLED]"
| "valid_transitions ENABLED = [READY, PENDING, DENIED]"
| "valid_transitions DENIED = [ENABLED, MIGRATABLE, PENDING]"
| "valid_transitions MIGRATABLE = [READY, DENIED]"

record fsm =
  fsm_state :: status
  fsm_allow_invalid :: bool
  fsm_no_transition_checks :: bool
  fsm_no_state_checks :: bool

section \<open>Actions and actors\<close>

text \<open>
  Arguments and productions of an action: a token, or a bare value that the runtime wraps.
\<close>

datatype action_value = TokV token | ValV pyval

fun as_token :: "action_value \<Rightarrow> token" where
  "as_token (TokV t) = t"
| "as_token (ValV v) = Token v"

text \<open>
  \<open>an_guard\<close> is the condition of a \<open>stateguard\<close>; an action without one has None.  A
  body that returns nothing produces the empty list.
\<close>

record 'v action =
  an_name :: string
  an_guard :: "('v \<Rightarrow> bool res) option"
  an_inputs :: "string list"
  an_outputs :: "string list"
  an_body :: "'v \<Rightarrow> action_value list \<Rightarrow> (action_value list, 'v) out"

record 'v actor_class =
  cl_type :: string
  cl_priority :: "'v action list"
  cl_exception_handler :: "'v \<Rightarrow> string \<Rightarrow> action_value list \<Rightarrow> (action_value list, 'v) out"
  cl_will_start :: "'v \<Rightarrow> (unit, 'v) out"
  cl_will_stop :: "'v \<Rightarrow> (unit, 'v) out"

definition default_exception_handler :: "'v \<Rightarrow> string \<Rightarrow> action_value list \<Rightarrow> (action_value list, 'v) out" where
  "default_exception_handler v a args = (Inl (PyException ''ExceptionToken NOT HANDLED''), v)"

text \<open>
  Authorization checks: a list of plugins, or a list of such lists (every one must be satisfied).
  The installed plugins are a function from their id, outside this model.
\<close>

record plugin =
  pg_id :: string
  pg_attributes :: "(string, pyval) dict"

datatype authorization = PluginC plugin | PluginListC "plugin list"

type_synonym authz_plugins = "string \<Rightarrow> ((string, pyval) dict \<Rightarrow> bool res) option"

record 'v actor =
  ac_name :: string
  ac_id :: string
  ac_vars :: 'v
  ac_inports :: "(string, port) dict"
  ac_outports :: "(string, port) dict"
  ac_fsm :: fsm
  ac_has_started :: bool
  ac_exhaust_cb :: bool
  ac_members :: "string list"
  ac_requirements :: "pyval list"
  ac_signature :: "string option"
  ac_migration_info :: "(string, string) dict option"
  ac_authorization :: "authorization list"
  ac_pressure_event :: int
  ac_last_warning :: int

section \<open>Construction and status\<close>

definition actor_init :: "'v \<Rightarrow> string \<Rightarrow> string \<Rightarrow> (string, port_props \<times> string) dict \<Rightarrow>
    (string, port_props \<times> string) dict \<Rightarrow> bool \<Rightarrow> bool \<Rightarrow> bool \<Rightarrow> 'v actor" where
  "actor_init v name uuid ins outs allow no_trans no_state =
     \<lparr>ac_name = name, ac_id = uuid, ac_vars = v,
      ac_inports = map (\<lambda>(p, pp, i). (p, port_init InDir p i pp)) ins,
      ac_outports = map (\<lambda>(p, pp, i). (p, port_init OutDir p i pp)) outs,
      ac_fsm = \<lparr>fsm_state = LOADED, fsm_allow_invalid = allow, fsm_no_transition_checks = no_trans,
                fsm_no_state_checks = no_state\<rparr>,
      ac_has_started = False, ac_exhaust_cb = False, ac_members = [uuid], ac_requirements = [],
      ac_signature = None, ac_migration_info = None, ac_authorization = [], ac_pressure_event = 0,
      ac_last_warning = 0\<rparr>"

definition set_status :: "'v actor \<Rightarrow> status \<Rightarrow> 'v actor" where
  "set_status a st = a\<lparr>ac_fsm := (ac_fsm a)\<lparr>fsm_state := st\<rparr>\<rparr>"

abbreviation status_of :: "'v actor \<Rightarrow> status" where
  "status_of a \<equiv> fsm_state (ac_fsm a)"

text \<open>\<open>_will_start\<close> runs the subclass hook once in the life of the actor.\<close>

definition will_start_once :: "'v actor_class \<Rightarrow> 'v actor \<Rightarrow> (unit, 'v actor) out" where
  "will_start_once c a =
     (if ac_has_started a then (Inr (), a)
      else case cl_will_start c (ac_vars a) of
             (Inl e, v) \<Rightarrow> (Inl e, a\<lparr>ac_vars := v\<rparr>)
           | (Inr _, v) \<Rightarrow> (Inr (), a\<lparr>ac_vars := v, ac_has_started := True\<rparr>))"

definition will_stop_hook :: "'v actor_class \<Rightarrow> 'v actor \<Rightarrow> (unit, 'v actor) out" where
  "will_stop_hook c a = (case cl_will_stop c (ac_vars a) of (r, v) \<Rightarrow> (r, a\<lparr>ac_vars := v\<rparr>))"

definition transition_hook :: "'v actor_class \<Rightarrow> 'v actor \<Rightarrow> status \<Rightarrow> (unit, 'v actor) out" where
  "transition_hook c a new =
     (if status_of a = PENDING \<and> new = ENABLED then will_start_once c a
      else if status_of a = ENABLED \<and> new = PENDING then will_stop_hook c a
      else (Inr (), a))"

text \<open>\<open>FSM.transition_to\<close>: an invalid transition is allowed with a warning, without its hook, or raises.\<close>

definition transition_to :: "'v actor_class \<Rightarrow> 'v actor \<Rightarrow> status \<Rightarrow> (unit, 'v actor) out" where
  "transition_to c a new =
     (if new \<in> set (valid_transitions (status_of a)) \<or> fsm_no_transition_checks (ac_fsm a)
      then and_then (transition_hook c a new) (\<lambda>_ a1. (Inr (), set_status a1 new))
      else if fsm_allow_invalid (ac_fsm a) then (Inr (), set_status a new)
      else (Inl (PyException ''Invalid transition''), a))"

definition setup_complete :: "'v actor_class \<Rightarrow> 'v actor \<Rightarrow> (unit, 'v actor) out" where
  "setup_complete c a = transition_to c a READY"

section \<open>Connecting\<close>

definition all_ports :: "'v actor \<Rightarrow> port list" where
  "all_ports a = map snd (ac_inports a) @ map snd (ac_outports a)"

definition did_connect :: "'v actor_class \<Rightarrow> 'v actor \<Rightarrow> (unit, 'v actor) out" where
  "did_connect c a =
     (if status_of a = ENABLED then (Inr (), a)
      else and_then (if status_of a = READY then transition_to c a PENDING else (Inr (), a)) (\<lambda>_ a1.
             if list_ex (\<lambda>p. \<not> port_is_connected p) (all_ports a1) then (Inr (), a1)
             else transition_to c a1 ENABLED))"

definition did_disconnect :: "'v actor_class \<Rightarrow> 'v actor \<Rightarrow> (unit, 'v actor) out" where
  "did_disconnect c a =
     (if status_of a = MIGRATABLE then (Inr (), a)
      else and_then (if status_of a \<noteq> PENDING then transition_to c a PENDING else (Inr (), a)) (\<lambda>_ a1.
             if list_ex port_is_connected (all_ports a1) then (Inr (), a1)
             else transition_to c a1 READY))"

text \<open>An operation on one port of the actor, which may ask for a callback.\<close>

definition get_port :: "'v actor \<Rightarrow> port_direction \<Rightarrow> string \<Rightarrow> port res" where
  "get_port a d name = dlook (case d of InDir \<Rightarrow> ac_inports a | OutDir \<Rightarrow> ac_outports a) name"

definition put_port :: "'v actor \<Rightarrow> port_direction \<Rightarrow> string \<Rightarrow> port \<Rightarrow> 'v actor" where
  "put_port a d name p =
     (case d of
        InDir \<Rightarrow> a\<lparr>ac_inports := dput name p (ac_inports a)\<rparr>
      | OutDir \<Rightarrow> a\<lparr>ac_outports := dput name p (ac_outports a)\<rparr>)"

definition on_port :: "'v actor \<Rightarrow> port_direction \<Rightarrow> string \<Rightarrow> (port \<Rightarrow> ('a, port) out) \<Rightarrow> ('a, 'v actor) out" where
  "on_port a d name f =
     (case get_port a d name of
        Inl e \<Rightarrow> (Inl e, a)
      | Inr p \<Rightarrow> (case f p of (r, p1) \<Rightarrow> (r, put_port a d name p1)))"

definition attach_endpoint ::
    "'v actor_class \<Rightarrow> 'v actor \<Rightarrow> port_direction \<Rightarrow> string \<Rightarrow> endpoint \<Rightarrow> (endpoint option, 'v actor) out" where
  "attach_endpoint c a d name e =
     and_then (on_port a d name (\<lambda>p. port_attach p e)) (\<lambda>(old, notify) a1.
       and_then (if notify then did_connect c a1 else (Inr (), a1)) (\<lambda>_ a2. (Inr old, a2)))"

definition disconnect_port ::
    "'v actor_class \<Rightarrow> 'v actor \<Rightarrow> port_direction \<Rightarrow> string \<Rightarrow> string list option \<Rightarrow> disconnect \<Rightarrow>
     ((endpoint \<times> remaining) list, 'v actor) out" where
  "disconnect_port c a d name peers term =
     and_then (on_port a d name (\<lambda>p. port_disconnect p peers term)) (\<lambda>(rems, notify) a1.
       and_then (if notify then did_disconnect c a1 else (Inr (), a1)) (\<lambda>_ a2. (Inr rems, a2)))"

definition exhausted_tokens ::
    "'v actor_class \<Rightarrow> 'v actor \<Rightarrow> port_direction \<Rightarrow> string \<Rightarrow> remaining \<Rightarrow> (unit, 'v actor) out" where
  "exhausted_tokens c a d name tokens =
     and_then (on_port a d name (\<lambda>p. port_exhausted_tokens p tokens)) (\<lambda>notify a1.
       if notify then did_disconnect c a1 else (Inr (), a1))"

section \<open>Firing one action\<close>

fun ports_available :: "(string, port) dict \<Rightarrow> string list \<Rightarrow> bool res" where
  "ports_available d [] = Inr True"
| "ports_available d (n # ns) =
     (case dlook d n of
        Inl e \<Rightarrow> Inl e
      | Inr p \<Rightarrow>
          (case port_tokens_available p 1 of
             Inl e \<Rightarrow> Inl e
           | Inr b \<Rightarrow> if b then ports_available d ns else Inr False))"

text \<open>
  Reading the inputs: the arguments so far, whether one was an exception token, and the ports whose
  queue ended its exhaustion.  Each read is committed at once.
\<close>

fun read_inputs :: "'v actor \<Rightarrow> string list \<Rightarrow> (token list \<times> string list, 'v actor) out" where
  "read_inputs a [] = (Inr ([], []), a)"
| "read_inputs a (n # ns) =
     and_then (on_port a InDir n port_read) (\<lambda>(t, ex) a1.
       and_then (read_inputs a1 ns) (\<lambda>(ts, exs) a2.
         (Inr (t # ts, if ex then n # exs else exs), a2)))"

definition as_argument :: "token \<Rightarrow> action_value" where
  "as_argument t = (if is_exception_token t then TokV t else ValV (tval t))"

fun write_outputs :: "'v actor \<Rightarrow> (string \<times> action_value) list \<Rightarrow> (unit, 'v actor) out" where
  "write_outputs a [] = (Inr (), a)"
| "write_outputs a ((n, v) # nvs) =
     and_then (on_port a OutDir n (\<lambda>p. port_write_token p (as_token v))) (\<lambda>_ a1. write_outputs a1 nvs)"

text \<open>The wrapper of \<open>condition\<close>: (did fire, output available, exhausted ports).\<close>

definition fire_condition :: "'v actor_class \<Rightarrow> 'v action \<Rightarrow> 'v actor \<Rightarrow> (bool \<times> bool \<times> string list, 'v actor) out" where
  "fire_condition c act a =
     (case ports_available (ac_inports a) (an_inputs act) of
        Inl e \<Rightarrow> (Inl e, a)
      | Inr input_ok \<Rightarrow>
          (case ports_available (ac_outports a) (an_outputs act) of
             Inl e \<Rightarrow> (Inl e, a)
           | Inr output_ok \<Rightarrow>
               if \<not> input_ok \<or> \<not> output_ok then (Inr (False, output_ok, []), a)
               else and_then (read_inputs a (an_inputs act)) (\<lambda>(ts, exs) a1.
                 let args = map as_argument ts;
                     run = (if list_ex is_exception_token ts
                            then cl_exception_handler c (ac_vars a1) (an_name act) args
                            else an_body act (ac_vars a1) args)
                 in case run of
                      (Inl e, v) \<Rightarrow> (Inl e, a1\<lparr>ac_vars := v\<rparr>)
                    | (Inr production, v) \<Rightarrow>
                        if length (an_outputs act) \<noteq> length production
                        then (Inl (PyException ''invalid production''), a1\<lparr>ac_vars := v\<rparr>)
                        else and_then (write_outputs (a1\<lparr>ac_vars := v\<rparr>) (zip (an_outputs act) production))
                               (\<lambda>_ a2. (Inr (True, True, exs), a2)))))"

definition fire_action :: "'v actor_class \<Rightarrow> 'v action \<Rightarrow> 'v actor \<Rightarrow> (bool \<times> bool \<times> string list, 'v actor) out" where
  "fire_action c act a =
     (case an_guard act of
        None \<Rightarrow> fire_condition c act a
      | Some g \<Rightarrow>
          (case g (ac_vars a) of
             Inl e \<Rightarrow> (Inl e, a)
           | Inr b \<Rightarrow> if b then fire_condition c act a else (Inr (False, True, []), a)))"

text \<open>
  \<open>fire\<close> tries the actions in priority order until one fires; the result of the last one
  tried is returned, and without any action the result variables are unbound.
\<close>

fun fire_list :: "'v actor_class \<Rightarrow> 'v action list \<Rightarrow> 'v actor \<Rightarrow> (bool \<times> bool \<times> string list, 'v actor) out" where
  "fire_list c [] a = (Inl (PyException ''UnboundLocalError''), a)"
| "fire_list c (act # acts) a =
     and_then (fire_action c act a) (\<lambda>(fired, ok, exs) a1.
       if fired \<or> acts = [] then (Inr (fired, ok, exs), a1) else fire_list c acts a1)"

definition fire :: "'v actor_class \<Rightarrow> 'v actor \<Rightarrow> (bool \<times> bool \<times> string list, 'v actor) out" where
  "fire c a = fire_list c (cl_priority c) a"

section \<open>Exhaustion\<close>

text \<open>Errors of \<open>finished_exhaustion\<close> are logged and ignored.\<close>

fun finish_ports :: "'v actor_class \<Rightarrow> 'v actor \<Rightarrow> string list \<Rightarrow> 'v actor" where
  "finish_ports c a [] = a"
| "finish_ports c a (n # ns) =
     (let a1 = (case get_port a InDir n of
                  Inl _ \<Rightarrow> a
                | Inr p \<Rightarrow> (case port_finished_exhaustion p of
                              Inr True \<Rightarrow> snd (did_disconnect c a)
                            | _ \<Rightarrow> a))
      in finish_ports c a1 ns)"

fun any_outstanding :: "port list \<Rightarrow> bool res" where
  "any_outstanding [] = Inr False"
| "any_outstanding (p # ps) =
     (case port_any_outstanding p of
        Inl e \<Rightarrow> Inl e
      | Inr b \<Rightarrow> (case any_outstanding ps of Inl e \<Rightarrow> Inl e | Inr bs \<Rightarrow> Inr (b \<or> bs)))"

text \<open>The result says whether the exhaustion callback was scheduled; it is called at most once.\<close>

definition handle_exhaustion :: "'v actor_class \<Rightarrow> 'v actor \<Rightarrow> string list \<Rightarrow> bool \<Rightarrow> (bool, 'v actor) out" where
  "handle_exhaustion c a0 exs output_ok =
     (let a = finish_ports c a0 exs
      in if output_ok \<and> ac_exhaust_cb a
         then (case any_outstanding (map snd (ac_inports a)) of
                 Inl e \<Rightarrow> (Inl e, a)
               | Inr b \<Rightarrow> if b then (Inr False, a) else (Inr True, a\<lparr>ac_exhaust_cb := False\<rparr>))
         else (Inr False, a))"

definition exhaust_actor :: "'v actor \<Rightarrow> 'v actor" where
  "exhaust_actor a = a\<lparr>ac_exhaust_cb := True\<rparr>"

definition enabled :: "'v actor \<Rightarrow> bool" where
  "enabled a \<longleftrightarrow> status_of a = ENABLED \<or> ac_exhaust_cb a"

section \<open>Authorization and migration\<close>

text \<open>\<open>check_authorization_plugin_list\<close>: any error makes the answer False.\<close>

fun plugin_results :: "authz_plugins \<Rightarrow> plugin list \<Rightarrow> bool list option" where
  "plugin_results ps [] = Some []"
| "plugin_results ps (p # rest) =
     (case ps (pg_id p) of
        None \<Rightarrow> None
      | Some f \<Rightarrow>
          (case f (pg_attributes p) of
             Inl _ \<Rightarrow> None
           | Inr b \<Rightarrow> (case plugin_results ps rest of None \<Rightarrow> None | Some bs \<Rightarrow> Some (b # bs))))"

definition check_plugin_list :: "authz_plugins \<Rightarrow> plugin list \<Rightarrow> bool" where
  "check_plugin_list ps l = (case plugin_results ps l of None \<Rightarrow> False | Some bs \<Rightarrow> True \<in> set bs)"

fun the_plugins :: "authorization list \<Rightarrow> plugin list" where
  "the_plugins [] = []"
| "the_plugins (PluginC p # xs) = p # the_plugins xs"
| "the_plugins (PluginListC _ # xs) = the_plugins xs"

text \<open>A plugin among lists is itself iterated, over its keys, which are no plugins: False.\<close>

definition check_authorization_decision :: "authz_plugins \<Rightarrow> 'v actor \<Rightarrow> bool" where
  "check_authorization_decision ps a =
     (let checks = ac_authorization a
      in if checks = [] then True
         else if list_ex (\<lambda>x. case x of PluginListC _ \<Rightarrow> True | _ \<Rightarrow> False) checks
         then list_all (\<lambda>x. case x of PluginListC l \<Rightarrow> check_plugin_list ps l | PluginC _ \<Rightarrow> False) checks
         else check_plugin_list ps (the_plugins checks))"

text \<open>
  \<open>_authorized\<close>: the last component says whether a search for another runtime was started.
\<close>

definition authorized :: "authz_plugins \<Rightarrow> 'v actor_class \<Rightarrow> 'v actor \<Rightarrow> (bool \<times> bool, 'v actor) out" where
  "authorized ps c a =
     (if check_authorization_decision ps a then (Inr (True, False), a)
      else and_then (transition_to c a DENIED) (\<lambda>_ a1. (Inr (False, True), a1)))"

definition enable_or_migrate :: "authz_plugins \<Rightarrow> 'v actor_class \<Rightarrow> 'v actor \<Rightarrow> (bool, 'v actor) out" where
  "enable_or_migrate ps c a =
     (if check_authorization_decision ps a then and_then (transition_to c a ENABLED) (\<lambda>_ a1. (Inr False, a1))
      else (Inr True, a))"

text \<open>
  \<open>set_migration_info\<close> with the reply of the search, None when there was no reply; the
  result says whether the scheduler's wake-up is delayed.  An empty node id counts as none.
\<close>

definition set_migration_info ::
    "'v actor_class \<Rightarrow> 'v actor \<Rightarrow> (int \<times> (string, string) dict) option \<Rightarrow> (bool, 'v actor) out" where
  "set_migration_info c a reply =
     (case reply of
        None \<Rightarrow> (Inr True, a)
      | Some (st, data) \<Rightarrow>
          if st \<noteq> 200 then (Inr True, a)
          else case dlook data ''node_id'' of
                 Inl e \<Rightarrow> (Inl e, a)
               | Inr node \<Rightarrow>
                   if node = [] then (Inr True, a)
                   else and_then (transition_to c (a\<lparr>ac_migration_info := Some data\<rparr>) MIGRATABLE)
                          (\<lambda>_ a1. (Inr False, a1)))"

definition remove_migration_info :: "'v actor \<Rightarrow> int \<Rightarrow> 'v actor" where
  "remove_migration_info a st = (if st \<noteq> 200 then a\<lparr>ac_migration_info := None\<rparr> else a)"

section \<open>The life of an actor\<close>

text \<open>
  The calls by which the runtime drives the status of an actor, in any order; a call that raises
  leaves the actor as the exception found it.
\<close>

datatype lifecycle = EvSetup | EvConnect | EvDisconnect | EvAuthorize | EvRetry
  | EvReply "(int \<times> (string, string) dict) option"

definition lifecycle_step :: "authz_plugins \<Rightarrow> 'v actor_class \<Rightarrow> lifecycle \<Rightarrow> 'v actor \<Rightarrow> 'v actor" where
  "lifecycle_step ps c ev a =
     (case ev of
        EvSetup \<Rightarrow> snd (setup_complete c a)
      | EvConnect \<Rightarrow> snd (did_connect c a)
      | EvDisconnect \<Rightarrow> snd (did_disconnect c a)
      | EvAuthorize \<Rightarrow> snd (authorized ps c a)
      | EvRetry \<Rightarrow> snd (enable_or_migrate ps c a)
      | EvReply reply \<Rightarrow> snd (set_migration_info c a reply))"

text \<open>
  \<open>verify_status\<close> declares the statuses a call is meant for.  It only logs a call in another
  status and then makes the call all the same.  \<open>_authorized\<close> has no declaration; the scheduler
  calls it just before \<open>fire\<close>, whose declaration is taken for it.
\<close>

fun declared_statuses :: "lifecycle \<Rightarrow> status list" where
  "declared_statuses EvSetup = [LOADED]"
| "declared_statuses EvConnect = [READY, PENDING, ENABLED]"
| "declared_statuses EvDisconnect = [ENABLED, PENDING, DENIED, MIGRATABLE]"
| "declared_statuses EvAuthorize = [ENABLED]"
| "declared_statuses EvRetry = [DENIED]"
| "declared_statuses (EvReply reply) = [DENIED]"

text \<open>Whether the decorator logs the call.\<close>

definition verify_status :: "'v actor \<Rightarrow> lifecycle \<Rightarrow> bool" where
  "verify_status a ev \<longleftrightarrow> \<not> fsm_no_state_checks (ac_fsm a) \<and> status_of a \<notin> set (declared_statuses ev)"

text \<open>A run in which every call comes in a status it is declared for, so that nothing is logged.\<close>

fun as_declared :: "authz_plugins \<Rightarrow> 'v actor_class \<Rightarrow> lifecycle list \<Rightarrow> 'v actor \<Rightarrow> bool" where
  "as_declared ps c [] a = True"
| "as_declared ps c (ev # evs) a =
     (status_of a \<in> set (declared_statuses ev) \<and> as_declared ps c evs (lifecycle_step ps c ev a))"

section \<open>Components, requirements and warnings\<close>

definition component_add :: "'v actor \<Rightarrow> string list \<Rightarrow> 'v actor" where
  "component_add a ids = a\<lparr>ac_members := ac_members a @ filter (\<lambda>i. i \<notin> set (ac_members a)) (remdups ids)\<rparr>"

definition component_remove :: "'v actor \<Rightarrow> string list \<Rightarrow> 'v actor" where
  "component_remove a ids = a\<lparr>ac_members := filter (\<lambda>i. i \<notin> set ids) (ac_members a)\<rparr>"

definition part_of_component :: "'v actor \<Rightarrow> bool" where
  "part_of_component a \<longleftrightarrow> filter (\<lambda>i. i \<noteq> ac_id a) (ac_members a) \<noteq> []"

definition requirements_add :: "'v actor \<Rightarrow> pyval list \<Rightarrow> bool \<Rightarrow> 'v actor" where
  "requirements_add a reqs ext =
     a\<lparr>ac_requirements := (if ext then ac_requirements a @ reqs else reqs)\<rparr>"

definition signature_set :: "'v actor \<Rightarrow> string \<Rightarrow> 'v actor" where
  "signature_set a s = (if ac_signature a = None then a\<lparr>ac_signature := Some s\<rparr> else a)"

text \<open>\<open>_warn_slow_actor\<close>: at most one warning in 120 seconds; times are in seconds.\<close>

definition warn_slow_actor :: "'v actor \<Rightarrow> int \<Rightarrow> bool \<times> 'v actor" where
  "warn_slow_actor a start =
     (if start - ac_last_warning a < 120 then (False, a) else (True, a\<lparr>ac_last_warning := start\<rparr>))"

section \<open>Pressure\<close>

record pressure_entry =
  pe_last :: int
  pe_count :: int
  pe_pressure :: "(int option \<times> int) list"

definition endpoint_pressure :: "pressure_log \<Rightarrow> pressure_entry" where
  "endpoint_pressure pl =
     (let L = int (length (pl_ring pl))
      in \<lparr>pe_last = pl_last pl, pe_count = pl_count pl,
          pe_pressure = map (\<lambda>i. ring_get L (pl_ring pl) i) [max 0 (pl_count pl - L)..pl_count pl - 1]\<rparr>)"

definition port_pressures :: "port \<Rightarrow> (string \<times> pressure_entry) list" where
  "port_pressures p = map (\<lambda>e. (pt_id p @ '','' @ ep_peer_id e, endpoint_pressure (ep_pressure e))) (pt_endpoints p)"

text \<open>Two full events within 10 seconds ask for scaling out, 30 quiet seconds for scaling in.\<close>

definition pressure_reports :: "int \<Rightarrow> int \<Rightarrow> pressure_entry \<Rightarrow> bool" where
  "pressure_reports now event e =
     (let ps = pe_pressure e; n = length ps; lst = ps ! (n - 1); prev = ps ! (n - 2)
      in 2 \<le> n \<and>
         ((snd lst - snd prev < 10 \<and> snd lst > event)
          \<or> (snd lst < now - 30 \<and> pe_last e > opt_default 0 (fst lst) + 3 \<and> snd lst > event)))"

fun first_report :: "int \<Rightarrow> int \<Rightarrow> pressure_entry list \<Rightarrow> int option" where
  "first_report now event [] = None"
| "first_report now event (e # es) =
     (if pressure_reports now event e
      then Some (max (snd (pe_pressure e ! (length (pe_pressure e) - 1))) event)
      else first_report now event es)"

definition get_pressure :: "bool \<Rightarrow> int \<Rightarrow> 'v actor \<Rightarrow> (string, pressure_entry) dict option \<times> 'v actor" where
  "get_pressure watch now a =
     (if \<not> watch then (None, a)
      else (let d = dupdate [] (concat (map (\<lambda>(n, p). port_pressures p) (ac_inports a)))
            in case first_report now (ac_pressure_event a) (map snd d) of
                 None \<Rightarrow> (None, a)
               | Some t \<Rightarrow> (Some d, a\<lparr>ac_pressure_event := t\<rparr>)))"

section \<open>Serialisation\<close>

record 'm actor_state =
  as_inports :: "(string, port_state) dict"
  as_outports :: "(string, port_state) dict"
  as_members :: "string list"
  as_id :: string
  as_name :: string
  as_has_started :: bool
  as_requirements :: "pyval list"
  as_signature :: "string option"
  as_migration_info :: "(string, string) dict option"
  as_vars :: 'm

fun port_states :: "(string, port) dict \<Rightarrow> (string, port_state) dict res" where
  "port_states [] = Inr []"
| "port_states ((n, p) # d) =
     (case port_get_state p of
        Inl e \<Rightarrow> Inl e
      | Inr s \<Rightarrow> (case port_states d of Inl e \<Rightarrow> Inl e | Inr ss \<Rightarrow> Inr ((n, s) # ss)))"

text \<open>
  \<open>serialize\<close>: the private state, and by \<open>save\<close> the managed and custom state of the subclass.
\<close>

definition serialize :: "('v \<Rightarrow> 'm) \<Rightarrow> 'v actor \<Rightarrow> 'm actor_state res" where
  "serialize save a =
     (case port_states (ac_inports a) of
        Inl e \<Rightarrow> Inl e
      | Inr ins \<Rightarrow>
          (case port_states (ac_outports a) of
             Inl e \<Rightarrow> Inl e
           | Inr outs \<Rightarrow>
               Inr \<lparr>as_inports = ins, as_outports = outs, as_members = ac_members a, as_id = ac_id a,
                    as_name = ac_name a, as_has_started = ac_has_started a, as_requirements = ac_requirements a,
                    as_signature = ac_signature a, as_migration_info = ac_migration_info a,
                    as_vars = save (ac_vars a)\<rparr>))"

text \<open>\<open>setdefault\<close> creates ports the actor does not have, as a shadow actor needs.\<close>

fun restore_ports :: "port_direction \<Rightarrow> (string, port_state) dict \<Rightarrow> (string, port) dict \<Rightarrow> (unit, (string, port) dict) out" where
  "restore_ports dir [] d = (Inr (), d)"
| "restore_ports dir ((n, s) # ss) d =
     (let p = (case dget d n of Some p \<Rightarrow> p | None \<Rightarrow> port_init dir n (ps_id s) no_props)
      in case port_set_state p s of
           (Inl e, p1) \<Rightarrow> (Inl e, dput n p1 d)
         | (Inr _, p1) \<Rightarrow> restore_ports dir ss (dput n p1 d))"

definition deserialize :: "('m \<Rightarrow> 'v \<Rightarrow> 'v) \<Rightarrow> 'v actor \<Rightarrow> 'm actor_state \<Rightarrow> (unit, 'v actor) out" where
  "deserialize load a s =
     (case restore_ports InDir (as_inports s) (ac_inports a) of
        (Inl e, ins) \<Rightarrow> (Inl e, a\<lparr>ac_inports := ins\<rparr>)
      | (Inr _, ins) \<Rightarrow>
          (case restore_ports OutDir (as_outports s) (ac_outports a) of
             (Inl e, outs) \<Rightarrow> (Inl e, a\<lparr>ac_inports := ins, ac_outports := outs\<rparr>)
           | (Inr _, outs) \<Rightarrow>
               (Inr (), a\<lparr>ac_inports := ins, ac_outports := outs, ac_members := as_members s, ac_id := as_id s,
                         ac_name := as_name s, ac_has_started := as_has_started s,
                         ac_requirements := as_requirements s, ac_signature := as_signature s,
                         ac_migration_info := as_migration_info s, ac_vars := load (as_vars s) (ac_vars a)\<rparr>)))"

end
