(* ===== verification/Scheduler.thy ===== *)
theory Scheduler
  imports Complex_Main Actor_Core
begin

text \<open>
  The runtime's scheduler (runtime/north/scheduler.py) and event monitor (runtime/north/monitor.py):
  the time-ordered task list and its timer, the rounds of firing an actor, and the back-off of
  endpoints that were refused.  Times are seconds, as rationals; the clock is a parameter, one value
  per entry point.
\<close>

section \<open>Tasks\<close>

datatype task = MaintenanceLoop | CheckReplication | CheckPressure | Strategy | Watchdog

text \<open>\<open>sc_timer\<close>: the delayed call, when it is due and whether it is still active.\<close>

record sched =
  sc_tasks :: "(rat \<times> task) list"
  sc_timer :: "(rat \<times> bool) option"
  sc_done :: bool
  sc_replication_interval :: rat
  sc_maintenance_delay :: rat
  sc_pressure_ids :: "string list"

definition sched_init :: "rat option \<Rightarrow> sched" where
  "sched_init maintenance =
     \<lparr>sc_tasks = [], sc_timer = None, sc_done = False, sc_replication_interval = 2,
      sc_maintenance_delay = (case maintenance of None \<Rightarrow> 300 | Some d \<Rightarrow> if d = 0 then 300 else d),
      sc_pressure_ids = []\<rparr>"

definition schedule_next :: "rat \<Rightarrow> rat \<Rightarrow> sched \<Rightarrow> sched" where
  "schedule_next now delay s = s\<lparr>sc_timer := Some (now + delay, True)\<rparr>"

text \<open>The position before the first task that is due later.\<close>

fun insert_index :: "rat \<Rightarrow> (rat \<times> task) list \<Rightarrow> nat" where
  "insert_index t [] = 0"
| "insert_index t (x # xs) = (if fst x > t then 0 else Suc (insert_index t xs))"

definition insert_task :: "rat \<Rightarrow> task \<Rightarrow> rat \<Rightarrow> sched \<Rightarrow> sched" where
  "insert_task now what delay s =
     (let t = now + delay;
          i = insert_index t (sc_tasks s)
      in if 0 < i \<and> delay = 0 \<and> snd (sc_tasks s ! (i - 1)) = what then s
         else let s1 = s\<lparr>sc_tasks := take i (sc_tasks s) @ (t, what) # drop i (sc_tasks s)\<rparr>
              in if i = 0 then schedule_next now delay s1 else s1)"

definition sched_run :: "rat \<Rightarrow> sched \<Rightarrow> sched" where
  "sched_run now s =
     insert_task now Strategy 0
       (insert_task now CheckReplication (sc_replication_interval s)
         (insert_task now MaintenanceLoop (sc_maintenance_delay s) s))"

text \<open>\<open>stop\<close>: whether the event loop is told to stop, which happens once.\<close>

definition sched_stop :: "sched \<Rightarrow> bool \<times> sched" where
  "sched_stop s = (\<not> sc_done s, s\<lparr>sc_done := True\<rparr>)"

definition replication_direct :: "rat \<Rightarrow> rat \<Rightarrow> sched \<Rightarrow> sched" where
  "replication_direct now delay s = insert_task now CheckReplication delay s"

definition trigger_pressure_event :: "rat \<Rightarrow> string \<Rightarrow> sched \<Rightarrow> sched" where
  "trigger_pressure_event now a s =
     insert_task now CheckPressure 0
       (if a \<in> set (sc_pressure_ids s) then s else s\<lparr>sc_pressure_ids := sc_pressure_ids s @ [a]\<rparr>)"

definition trigger_maintenance_loop :: "rat \<Rightarrow> bool \<Rightarrow> sched \<Rightarrow> sched" where
  "trigger_maintenance_loop now delay s = (if delay then s else insert_task now MaintenanceLoop 0 s)"

section \<open>Running tasks\<close>

text \<open>
  What the tasks do outside the scheduler is a parameter: each changes the world, may ask for tasks in
  turn, and returns or raises an exception (what it did before the exception stays done).
  \<open>hd_strategy\<close> returns whether there was any activity.
\<close>

type_synonym requests = "(task \<times> rat) list"

record 'w handlers =
  hd_replication :: "'w \<Rightarrow> requests \<times> unit res \<times> 'w"
  hd_pressure :: "string list \<Rightarrow> 'w \<Rightarrow> requests \<times> unit res \<times> 'w"
  hd_maintenance :: "'w \<Rightarrow> requests \<times> unit res \<times> 'w"
  hd_strategy :: "'w \<Rightarrow> requests \<times> bool res \<times> 'w"

fun insert_requests :: "rat \<Rightarrow> requests \<Rightarrow> sched \<Rightarrow> sched" where
  "insert_requests now [] s = s"
| "insert_requests now ((what, d) # rs) s = insert_requests now rs (insert_task now what d s)"

definition check_replication :: "'w handlers \<Rightarrow> rat \<Rightarrow> sched \<times> 'w \<Rightarrow> (unit, sched \<times> 'w) out" where
  "check_replication h now = (\<lambda>(s0, w0).
     (case hd_replication h w0 of
        (rs, Inl e, w) \<Rightarrow> (Inl e, insert_requests now rs s0, w)
      | (rs, Inr _, w) \<Rightarrow>
          let s = insert_requests now rs s0;
              tt = now + sc_replication_interval s;
              s1 = (if list_ex (\<lambda>t. snd t = CheckReplication \<and> fst t < tt) (sc_tasks s) then s
                    else insert_task now CheckReplication (sc_replication_interval s) s)
          in (Inr (), insert_task now Strategy 0 s1, w)))"

definition check_pressure :: "'w handlers \<Rightarrow> rat \<Rightarrow> sched \<times> 'w \<Rightarrow> (unit, sched \<times> 'w) out" where
  "check_pressure h now = (\<lambda>(s0, w0).
     (case hd_pressure h (sc_pressure_ids s0) w0 of
        (rs, Inl e, w) \<Rightarrow> (Inl e, insert_requests now rs s0, w)
      | (rs, Inr _, w) \<Rightarrow>
          let s = (insert_requests now rs s0)\<lparr>sc_pressure_ids := []\<rparr>
          in (Inr (), if list_ex (\<lambda>t. snd t = CheckPressure) (sc_tasks s) then s
                      else insert_task now CheckPressure 30 s, w)))"

definition maintenance_loop :: "'w handlers \<Rightarrow> rat \<Rightarrow> sched \<times> 'w \<Rightarrow> (unit, sched \<times> 'w) out" where
  "maintenance_loop h now = (\<lambda>(s0, w0).
     (case hd_maintenance h w0 of
        (rs, Inl e, w) \<Rightarrow> (Inl e, insert_requests now rs s0, w)
      | (rs, Inr _, w) \<Rightarrow>
          let s = insert_requests now rs s0
          in (Inr (), insert_task now MaintenanceLoop (sc_maintenance_delay s) (insert_task now Strategy 0 s), w)))"

definition run_strategy :: "'w handlers \<Rightarrow> rat \<Rightarrow> sched \<times> 'w \<Rightarrow> (unit, sched \<times> 'w) out" where
  "run_strategy h now = (\<lambda>(s0, w0).
     (case hd_strategy h w0 of
        (rs, Inl e, w) \<Rightarrow> (Inl e, insert_requests now rs s0, w)
      | (rs, Inr activity, w) \<Rightarrow>
          let s = insert_requests now rs s0
          in (Inr (), if activity then insert_task now Strategy 0 s else s, w)))"

definition run_task :: "'w handlers \<Rightarrow> rat \<Rightarrow> task \<Rightarrow> sched \<times> 'w \<Rightarrow> (unit, sched \<times> 'w) out" where
  "run_task h now k sw =
     (case k of
        MaintenanceLoop \<Rightarrow> maintenance_loop h now sw
      | CheckReplication \<Rightarrow> check_replication h now sw
      | CheckPressure \<Rightarrow> check_pressure h now sw
      | Strategy \<Rightarrow> run_strategy h now sw
      | Watchdog \<Rightarrow> (Inr (), insert_task now Strategy 0 (fst sw), snd sw))"

text \<open>
  \<open>_process_next\<close> runs when the timer has gone off.  The task is taken off the list before it is
  called; an exception of the task leaves the function before the timer is set again.
\<close>

definition process_next :: "'w handlers \<Rightarrow> rat \<Rightarrow> sched \<times> 'w \<Rightarrow> (task, sched \<times> 'w) out" where
  "process_next h now = (\<lambda>(s0, w0).
     (case sc_tasks s0 of
        [] \<Rightarrow> (Inl IndexError, s0, w0)
      | (_, todo) # rest \<Rightarrow>
          (case run_task h now todo
                  (s0\<lparr>sc_tasks := rest, sc_timer := map_option (\<lambda>(t, _). (t, False)) (sc_timer s0)\<rparr>, w0) of
             (Inl e, s, w) \<Rightarrow> (Inl e, s, w)
           | (Inr _, s, w) \<Rightarrow>
               let s1 = (case sc_tasks s of
                           [] \<Rightarrow> insert_task now Watchdog 60 s
                         | (t, _) # _ \<Rightarrow> schedule_next now (max 0 (t - now)) s)
               in (case sc_timer s1 of
                     Some (_, True) \<Rightarrow> (Inr todo, s1, w)
                   | Some (_, False) \<Rightarrow> (Inl (PyException ''NO SCHEDULED TASK!''), s1, w)
                   | None \<Rightarrow> (Inl (AttributeError ''active''), s1, w)))))"

text \<open>
  A run of the scheduler: the timer goes off, which it does only while it is active, or some part of
  the runtime asks for a task.  An exception of \<open>_process_next\<close> ends in the event loop, which logs
  it and goes on; the result lists what each call returned.
\<close>

datatype sched_input = Tick rat | Ask rat task rat

definition timer_active :: "sched \<Rightarrow> bool" where
  "timer_active s = (case sc_timer s of Some (_, b) \<Rightarrow> b | None \<Rightarrow> False)"

fun sched_steps :: "'w handlers \<Rightarrow> sched_input list \<Rightarrow> sched \<times> 'w \<Rightarrow> task res list \<times> sched \<times> 'w" where
  "sched_steps h [] sw = ([], sw)"
| "sched_steps h (Tick now # xs) sw =
     (if timer_active (fst sw)
      then (case process_next h now sw of (r, sw1) \<Rightarrow> (case sched_steps h xs sw1 of (rs, sw2) \<Rightarrow> (r # rs, sw2)))
      else sched_steps h xs sw)"
| "sched_steps h (Ask now k d # xs) sw = sched_steps h xs (insert_task now k d (fst sw), snd sw)"

section \<open>Firing actors\<close>

text \<open>
  \<open>_fire_actor\<close> and its variants.  \<open>late k\<close>: whether the time slice is used up after the
  \<open>k\<close>-th firing; the non-preemptive variant never looks at the time.
\<close>

partial_function (option) fire_rounds ::
  "'v actor_class \<Rightarrow> (nat \<Rightarrow> bool) \<Rightarrow> nat \<Rightarrow> bool \<Rightarrow> 'v actor \<Rightarrow> ((bool, 'v actor) out) option" where
  "fire_rounds c late k did a =
     (case fire c a of
        (Inl e, a1) \<Rightarrow> Some (Inl e, a1)
      | (Inr (fired, output_ok, exhausted), a1) \<Rightarrow>
          if fired then (if late k then Some (Inr True, a1) else fire_rounds c late (Suc k) True a1)
          else Some (case handle_exhaustion c a1 exhausted output_ok of
                       (Inl e, a2) \<Rightarrow> (Inl e, a2) | (Inr _, a2) \<Rightarrow> (Inr did, a2)))"

definition fire_actor :: "authz_plugins \<Rightarrow> 'v actor_class \<Rightarrow> (nat \<Rightarrow> bool) \<Rightarrow> 'v actor \<Rightarrow> ((bool, 'v actor) out) option" where
  "fire_actor ps c late a =
     (case authorized ps c a of
        (Inl e, a1) \<Rightarrow> Some (Inl e, a1)
      | (Inr (ok, _), a1) \<Rightarrow> if ok then fire_rounds c late 0 False a1 else Some (Inr False, a1))"

definition fire_actor_non_preemptive :: "authz_plugins \<Rightarrow> 'v actor_class \<Rightarrow> 'v actor \<Rightarrow> ((bool, 'v actor) out) option" where
  "fire_actor_non_preemptive ps c a = fire_actor ps c (\<lambda>_. False) a"

definition fire_actor_once :: "authz_plugins \<Rightarrow> 'v actor_class \<Rightarrow> 'v actor \<Rightarrow> (bool, 'v actor) out" where
  "fire_actor_once ps c a =
     and_then (authorized ps c a) (\<lambda>(ok, _) a1.
       if \<not> ok then (Inr False, a1)
       else and_then (fire c a1) (\<lambda>(fired, output_ok, exhausted) a2.
              if fired then (Inr True, a2)
              else and_then (handle_exhaustion c a2 exhausted output_ok) (\<lambda>_ a3. (Inr False, a3))))"

text \<open>
  \<open>_fire_actors\<close>: an exception of one actor is logged and the others still get their turn.  Every
  actor comes with its class; \<open>late\<close> is given per actor, by its id.
\<close>

fun fire_actors :: "authz_plugins \<Rightarrow> (string \<Rightarrow> nat \<Rightarrow> bool) \<Rightarrow> ('v actor_class \<times> 'v actor) list \<Rightarrow>
    (string list \<times> 'v actor list) option" where
  "fire_actors ps late [] = Some ([], [])"
| "fire_actors ps late ((c, a) # as) =
     (case fire_actor ps c (late (ac_id a)) a of
        None \<Rightarrow> None
      | Some (r, a1) \<Rightarrow>
          (case fire_actors ps late as of
             None \<Rightarrow> None
           | Some (ids, bs) \<Rightarrow> Some (if r = Inr True then ac_id a # ids else ids, a1 # bs)))"

section \<open>The event monitor\<close>

text \<open>Endpoints are named by the id of their port and peer.\<close>

type_synonym endpoint_id = "string \<times> string"

record monitor =
  mo_endpoints :: "endpoint_id list"
  mo_backoff :: "(endpoint_id, rat \<times> rat) dict"

definition monitor_init :: monitor where
  "monitor_init = \<lparr>mo_endpoints = [], mo_backoff = []\<rparr>"

definition set_backoff :: "rat \<Rightarrow> endpoint_id \<Rightarrow> monitor \<Rightarrow> monitor" where
  "set_backoff now e m =
     (let bo0 = (case dget (mo_backoff m) e of None \<Rightarrow> 0 | Some (_, b) \<Rightarrow> b);
          bo = min 1 (if bo0 < 1 / 10 then 1 / 10 else bo0 * 2)
      in m\<lparr>mo_backoff := dput e (now + bo, bo) (mo_backoff m)\<rparr>)"

definition clear_backoff :: "endpoint_id \<Rightarrow> monitor \<Rightarrow> monitor" where
  "clear_backoff e m = m\<lparr>mo_backoff := ddel e (mo_backoff m)\<rparr>"

definition next_slot :: "monitor \<Rightarrow> rat option" where
  "next_slot m = (if mo_backoff m = [] then None else Some (Min (set (map (fst \<circ> snd) (mo_backoff m)))))"

definition check_backoff :: "rat \<Rightarrow> monitor \<Rightarrow> monitor" where
  "check_backoff now m =
     m\<lparr>mo_backoff := filter (\<lambda>(e, tc, _). \<not> tc < now) (mo_backoff m)\<rparr>"

definition register_endpoint :: "endpoint_id \<Rightarrow> monitor \<Rightarrow> monitor" where
  "register_endpoint e m = m\<lparr>mo_endpoints := mo_endpoints m @ [e]\<rparr>"

text \<open>\<open>list.remove\<close> raises ValueError for an endpoint that is not there, before the back-off is cleared.\<close>

definition unregister_endpoint :: "endpoint_id \<Rightarrow> monitor \<Rightarrow> (unit, monitor) out" where
  "unregister_endpoint e m =
     (if e \<notin> set (mo_endpoints m) then (Inl ValueError, m)
      else (Inr (), clear_backoff e (m\<lparr>mo_endpoints := remove1 e (mo_endpoints m)\<rparr>)))"

text \<open>
  \<open>communicate\<close> over the given endpoints, skipping those backing off; \<open>talk\<close> is an endpoint's
  \<open>communicate\<close>, which may tell the monitor and change the world.
\<close>

fun communicate_all ::
  "(endpoint_id \<Rightarrow> monitor \<times> 'w \<Rightarrow> (bool, monitor \<times> 'w) out) \<Rightarrow> endpoint_id list \<Rightarrow> monitor \<times> 'w \<Rightarrow> (bool, monitor \<times> 'w) out" where
  "communicate_all talk [] mw = (Inr False, mw)"
| "communicate_all talk (e # es) mw =
     (if e \<in> dkeys (mo_backoff (fst mw)) then communicate_all talk es mw
      else and_then (talk e mw) (\<lambda>b mw1.
             and_then (communicate_all talk es mw1) (\<lambda>bs mw2. (Inr (b \<or> bs), mw2))))"

definition monitor_communicate ::
  "(endpoint_id \<Rightarrow> monitor \<times> 'w \<Rightarrow> (bool, monitor \<times> 'w) out) \<Rightarrow> rat \<Rightarrow> endpoint_id list \<Rightarrow> monitor \<times> 'w \<Rightarrow> (bool, monitor \<times> 'w) out" where
  "monitor_communicate talk now es mw = communicate_all talk es (check_backoff now (fst mw), snd mw)"

section \<open>Events of the simple scheduler\<close>

definition tunnel_rx :: "rat \<Rightarrow> sched \<Rightarrow> sched" where
  "tunnel_rx now s = insert_task now Strategy 0 s"

definition tunnel_tx_ack :: "rat \<Rightarrow> endpoint_id \<Rightarrow> sched \<times> monitor \<Rightarrow> sched \<times> monitor" where
  "tunnel_tx_ack now e = (\<lambda>(s, m). (insert_task now Strategy 0 s, clear_backoff e m))"

text \<open>\<open>if next_slot\<close>: a slot at time 0 counts as none.\<close>

definition tunnel_tx_nack :: "rat \<Rightarrow> endpoint_id \<Rightarrow> sched \<times> monitor \<Rightarrow> sched \<times> monitor" where
  "tunnel_tx_nack now e = (\<lambda>(s, m0).
     (let m = set_backoff now e m0
      in case next_slot m of
           None \<Rightarrow> (s, m)
         | Some slot \<Rightarrow>
             (if slot = 0 then s else insert_task now Strategy (max 0 (slot - now)) s, m)))"

definition tunnel_tx_throttle :: "sched \<times> monitor \<Rightarrow> sched \<times> monitor" where
  "tunnel_tx_throttle sm = sm"

definition schedule_calvinsys :: "rat \<Rightarrow> sched \<Rightarrow> sched" where
  "schedule_calvinsys now s = insert_task now Strategy 0 s"

definition sched_register_endpoint :: "rat \<Rightarrow> endpoint_id \<Rightarrow> bool \<Rightarrow> sched \<times> monitor \<Rightarrow> sched \<times> monitor" where
  "sched_register_endpoint now e owner_enabled = (\<lambda>(s, m).
     (if owner_enabled then insert_task now Strategy 0 s else s, register_endpoint e m))"

end
