(* ===== verification/Actor_Lemmas.thy ===== *)
theory Actor_Lemmas
  imports Actor_Core
begin

text \<open>
  Correctness of the actor base class: what the status machine allows, that the start hook runs
  once, that an action which passed its guards fires without meeting an empty or full queue, and
  that an action that does not fire changes nothing.
\<close>

section \<open>Queues of a firing\<close>

text \<open>
  Reading is peek followed by commit; this extends the contract of \<open>action_source\<close> by commit.
\<close>

locale read_source = action_source inv rd avail peek cancel
  for inv :: "'q \<Rightarrow> bool" and rd avail peek cancel +
  fixes commit :: "'q \<Rightarrow> string \<Rightarrow> (bool, 'q) out"
  assumes commit_inv: "inv q \<Longrightarrow> rd q m \<Longrightarrow> \<exists>b q'. commit q m = (Inr b, q') \<and> inv q' \<and> rd q' m"
begin

lemma read_ok:
  assumes "inv q" "rd q m" "avail q 1 m = (Inr True, q)"
  shows "\<exists>t b q1 q2. peek q m = (Inr t, q1) \<and> commit q1 m = (Inr b, q2) \<and> inv q2 \<and> rd q2 m"
  using avail_peek [OF assms] commit_inv by metis

end

text \<open>
  The inport's queue; left out are the any-tagged queue, whose reads can fail after its guard, and
  queues some peer of which is being exhausted.
\<close>

fun q_in_inv :: "any_queue \<Rightarrow> bool" where
  "q_in_inv (QFifo f) = ff_inv f"
| "q_in_inv (QCollect c) = (cq_reads c \<and> cq_exhausted c = [] \<and> cq_termination c = [])"
| "q_in_inv _ = False"

fun q_in_reader :: "any_queue \<Rightarrow> string \<Rightarrow> bool" where
  "q_in_reader (QFifo f) m = ff_reader f m"
| "q_in_reader (QCollect c) m = True"
| "q_in_reader _ m = False"

lemma q_in_cases:
  assumes "q_in_inv q"
  obtains f where "q = QFifo f" "ff_inv f"
    | c where "q = QCollect c" "cq_reads c" "cq_exhausted c = []" "cq_termination c = []"
  using assms by (cases q) auto

text \<open>Peeking moves tentative positions and turns only.\<close>

lemma cq_turn_loop_keeps: "cq_exhausted (snd (cq_turn_loop q m is)) = cq_exhausted q
    \<and> cq_termination (snd (cq_turn_loop q m is)) = cq_termination q"
  by (induction q m "is" rule: cq_turn_loop.induct)
    (auto simp: Let_def cq_advance_def split: sum.splits)

lemma cq_undo_before_keeps: "cq_exhausted (cq_undo_before q w ws) = cq_exhausted q
    \<and> cq_termination (cq_undo_before q w ws) = cq_termination q"
  by (induction q w ws rule: cq_undo_before.induct) (auto simp: cq_advance_def)

lemma cq_return_exception_keeps: "cq_exhausted (snd (cq_return_exception q w d)) = cq_exhausted q
    \<and> cq_termination (snd (cq_return_exception q w d)) = cq_termination q"
  using cq_undo_before_keeps [of q w "cq_writers q"]
  by (auto simp: cq_return_exception_def Let_def cq_advance_def split: sum.splits)

lemma and_then_keep: "P (snd r) \<Longrightarrow> (\<And>a s. P s \<Longrightarrow> P (snd (k a s))) \<Longrightarrow> P (snd (and_then r k))"
  by (cases r) (auto simp: and_then_def split: sum.splits)

lemma cq_collect_loop_keeps: "cq_exhausted (snd (cq_collect_loop q v ws)) = cq_exhausted q
    \<and> cq_termination (snd (cq_collect_loop q v ws)) = cq_termination q"
proof (induction q v ws rule: cq_collect_loop.induct)
  case (2 q v w ws)
  let ?P = "\<lambda>s. cq_exhausted s = cq_exhausted q \<and> cq_termination s = cq_termination q"
  have "?P (snd (and_then (cq_return_exception q w (cq_head q w)) (\<lambda>t q1. (Inr (Inr t), q1))))"
    by (rule and_then_keep) (simp_all add: cq_return_exception_keeps)
  then have exc: "?P (snd (cq_collect_loop q v (w # ws)))" if "is_exception_token (cq_head q w)"
      "\<not> (cq_kind q = AnyK \<and> cq_unread q w = 0)"
    by (simp only: cq_collect_loop.simps(2) if_not_P [OF that(2)] if_P [OF that(1)] Let_def)
  show ?case
  proof (cases "cq_kind q = AnyK \<and> cq_unread q w = 0")
    case True
    with "2.IH"(1) show ?thesis by simp
  next
    case skip: False
    show ?thesis
    proof (cases "is_exception_token (cq_head q w)")
      case True
      with exc skip show ?thesis by blast
    next
      case False
      show ?thesis
      proof (cases "cq_tag q w")
        case (Inl e)
        then have "cq_collect_loop q v (w # ws) = (Inl e, cq_advance q w 1)"
          by (simp only: cq_collect_loop.simps(2) if_not_P [OF skip] if_not_P [OF False] Let_def sum.case)
        then show ?thesis by (simp add: cq_advance_def del: cq_collect_loop.simps)
      next
        case (Inr tag)
        have adv: "cq_tag q w = Inr tag" "cq_exhausted (cq_advance q w 1) = cq_exhausted q"
          "cq_termination (cq_advance q w 1) = cq_termination q"
          using Inr by (simp_all add: cq_tag_def cq_advance_def)
        have "cq_collect_loop q v (w # ws) = cq_collect_loop (cq_advance q w 1) (dput tag (tval (cq_head q w)) v) ws"
          by (simp only: cq_collect_loop.simps(2) if_not_P [OF skip] if_not_P [OF False] Let_def Inr sum.case)
        with "2.IH"(2) [OF skip refl False refl adv(1)] adv(2,3) show ?thesis
          by (simp del: cq_collect_loop.simps)
      qed
    qed
  qed
qed simp

lemma cq_peek_keeps: "cq_exhausted (snd (cq_peek q m)) = cq_exhausted q
    \<and> cq_termination (snd (cq_peek q m)) = cq_termination q"
proof -
  let ?P = "\<lambda>s. cq_exhausted s = cq_exhausted q \<and> cq_termination s = cq_termination q"
  have "?P (snd (and_then (cq_collect_loop q [] (cq_writers q)) k))"
    if "\<And>r s. snd (k r s) = s" for k :: "_ \<Rightarrow> _ \<Rightarrow> (token, collect_queue) out"
    by (rule and_then_keep) (simp_all only: cq_collect_loop_keeps that simp_thms)
  then have "?P (snd (cq_peek_synced q m))" "?P (snd (cq_peek_any q m))"
    unfolding cq_peek_synced_def cq_peek_any_def by (simp_all split: sum.split)
  then show ?thesis
    by (cases "cq_kind q") (simp_all add: cq_peek_def cq_peek_turn_def cq_turn_loop_keeps)
qed

lemma cq_commit_plain:
  assumes "cq_exhausted q = []" "cq_termination q = []"
  shows "cq_commit q m = (Inr False,
    (cq_commit_reads (if is_turn_kind (cq_kind q) then q\<lparr>cq_peek_turn_pos := -1\<rparr> else q))\<lparr>cq_exhausted := []\<rparr>)"
  using assms by (simp add: cq_commit_def cq_base_commit_def cq_move_exhausted_def cq_commit_reads_def)

lemma cq_commit_plain_inv:
  assumes "cq_reads c" "cq_exhausted c = []" "cq_termination c = []"
  shows "\<exists>q'. cq_commit c m = (Inr False, q') \<and> cq_reads q' \<and> cq_exhausted q' = [] \<and> cq_termination q' = []"
proof -
  let ?p = "if is_turn_kind (cq_kind c) then c\<lparr>cq_peek_turn_pos := -1\<rparr> else c"
  have "cq_inv (cq_commit_reads ?p)" using assms(1) by (intro cq_commit_reads_inv) (simp add: cq_reads_def)
  then show ?thesis
    using assms by (simp add: cq_commit_plain [OF assms(2,3)] cq_reads_def) (simp add: cq_commit_reads_def)
qed

interpretation qi: read_source q_in_inv q_in_reader "\<lambda>q n m. (q_tokens_available q n m, q)" q_peek q_cancel q_commit
proof unfold_locales
  fix q n m
  assume inv: "q_in_inv q" and rd: "q_in_reader q m"
  show "\<exists>b. (q_tokens_available q n m, q) = (Inr b, q)"
    using inv rd ffa.avail_pure by (cases q rule: q_in_cases) (force simp: q_tokens_available_def)+
  show "\<exists>t q'. q_peek q m = (Inr t, q') \<and> q_in_inv q' \<and> q_in_reader q' m"
    if av: "(q_tokens_available q 1 m, q) = (Inr True, q)"
    using inv
  proof (cases q rule: q_in_cases)
    case (1 f)
    with ffa.avail_peek [of f m] rd av obtain t f' where "ff_peek f m = (Inr t, f')" "ff_inv f'" "ff_reader f' m"
      by (auto simp: q_tokens_available_def)
    with 1 show ?thesis by (simp add: q_peek_def)
  next
    case (2 c)
    with cq_avail_peek [of c m] av obtain t c' where "cq_peek c m = (Inr t, c')" "cq_reads c'"
      by (auto simp: q_tokens_available_def)
    with 2 cq_peek_keeps [of c m] show ?thesis by (simp add: q_peek_def)
  qed
  show "fst (q_peek q m) = Inl (QueueEmpty m)" if av: "(q_tokens_available q 1 m, q) = (Inr False, q)"
    using inv
  proof (cases q rule: q_in_cases)
    case (1 f)
    with ffa.none_empty [of f m] rd av show ?thesis
      by (cases "ff_peek f m") (auto simp: q_tokens_available_def q_peek_def)
  next
    case (2 c)
    with cq_none_empty [of c m] av show ?thesis
      by (cases "cq_peek c m") (auto simp: q_tokens_available_def q_peek_def)
  qed
  show "\<exists>q'. q_cancel q m = (Inr (), q') \<and> q_in_inv q' \<and> q_in_reader q' m"
    using inv
  proof (cases q rule: q_in_cases)
    case (1 f)
    with ffa.cancel_inv [of f m] rd obtain f' where "ff_cancel f m = (Inr (), f')" "ff_inv f'" "ff_reader f' m" by auto
    with 1 show ?thesis by (simp add: q_cancel_def)
  next
    case (2 c)
    obtain c' where c: "cq_cancel c m = (Inr (), c')" "cq_reads c'" using cq_cancel_reads [OF 2(2), of m] by blast
    then have "cq_exhausted c' = [] \<and> cq_termination c' = []"
      using 2 by (auto simp: cq_cancel_def cq_base_cancel_def)
    with 2 c show ?thesis by (simp add: q_cancel_def)
  qed
  show "\<exists>b q'. q_commit q m = (Inr b, q') \<and> q_in_inv q' \<and> q_in_reader q' m"
    using inv
  proof (cases q rule: q_in_cases)
    case (1 f)
    with ff_commit_inv [of f m] rd obtain b f' where "ff_commit f m = (Inr b, f')" "ff_inv f'" "ff_readers f' = ff_readers f"
      by (auto simp: ff_reader_def)
    with 1 rd show ?thesis by (simp add: q_commit_def ff_reader_def)
  next
    case (2 c)
    from cq_commit_plain_inv [OF 2(2-4), of m] 2 show ?thesis by (auto simp: q_commit_def)
  qed
qed

text \<open>The outport's queue; the mapped dispatch queue is left out, since its writes depend on the token.\<close>

fun q_out_inv :: "string \<Rightarrow> any_queue \<Rightarrow> bool" where
  "q_out_inv m (QFifo f) = ff_inv f"
| "q_out_inv m (QDisp d) = (fd_ready d \<and> mapping_ok d \<and> fd_kind d \<noteq> MappedK \<and> m \<notin> set (fd_readers d))"
| "q_out_inv m _ = False"

lemma q_out_cases:
  assumes "q_out_inv m q"
  obtains f where "q = QFifo f" "ff_inv f"
    | d where "q = QDisp d" "fd_ready d" "mapping_ok d" "fd_kind d \<noteq> MappedK" "m \<notin> set (fd_readers d)"
  using assms by (cases q) auto

lemma fd_target_exists:
  assumes "fd_ready d" "fd_kind d \<noteq> MappedK"
    "fd_write d t m = (Inl e, d)" "\<forall>p v. fd_target d t p v \<longrightarrow> fd_free d p = 0"
  shows "fd_slots_available d 1 m \<noteq> Inr True"
proof
  assume sl: "fd_slots_available d 1 m = Inr True"
  have inv: "fd_inv d" using assms(1) by (simp add: fd_ready_def)
  consider (turn) "uses_turn (fd_kind d)" | (bal) "fd_kind d = BalancedK"
    using assms(2) by (cases "fd_kind d") (auto simp: uses_turn_def)
  then show False
  proof cases
    case turn
    then have ok: "turn_ok d" using assms(1) by (simp add: fd_ready_def)
    from ordered_slots_one [OF inv ok] obtain p where p: "p \<in> set (fd_readers d)" "fd_next_reader d = Inr p"
      "fd_ordered_slots d 1 = Inr (1 < fd_N d \<and> 0 < fd_free d p)" by blast
    have "fd_target d t p t" using turn p(1,2) by (cases "fd_kind d") (auto simp: fd_target_def uses_turn_def)
    with assms(4) have "fd_free d p = 0" by blast
    moreover have "fd_ordered_slots d 1 = Inr True"
      using turn sl by (cases "fd_kind d") (auto simp: fd_slots_available_def uses_turn_def)
    ultimately show False using p(3) by simp
  next
    case bal
    then have "fd_enough_slots d 1 0 (fd_readers d)" using sl by (simp add: fd_slots_available_def split: if_splits)
    from fd_enough_pos [OF this] obtain r where r: "r \<in> set (fd_readers d)" "0 < fd_free d r" by auto
    let ?m = "Max (fd_free d ` set (fd_readers d))"
    have "?m \<in> fd_free d ` set (fd_readers d)" using r(1) by (intro Max_in) auto
    then obtain p where p: "p \<in> set (fd_readers d)" "fd_free d p = ?m" by auto
    have "\<forall>x \<in> set (fd_readers d). fd_free d x \<le> fd_free d p" using p(2) by simp
    then have "fd_target d t p t" using bal p(1) by (simp add: fd_target_def)
    then have "fd_free d p = 0" using assms(4) by blast
    with p r show False by (metis Max_ge finite_imageI finite_set imageI not_le)
  qed
qed

interpretation qw: action_sink "q_out_inv m" "\<lambda>q t. True" "\<lambda>q n _. (q_slots_available q n m, q)"
    "\<lambda>q t _. q_write q t m" for m
proof unfold_locales
  fix q n and t :: token
  assume inv: "q_out_inv m q"
  show "\<exists>b. (q_slots_available q n m, q) = (Inr b, q)"
    using inv by (cases rule: q_out_cases) (auto simp: q_slots_available_def fd_slots_total)
  show "\<exists>q'. q_write q t m = (Inr True, q') \<and> q_out_inv m q'" if sl: "(q_slots_available q 1 m, q) = (Inr True, q)"
    using inv
  proof (cases rule: q_out_cases)
    case (1 f)
    with sl show ?thesis by (simp add: q_slots_available_def q_write_def ff_write_eq ff_pushed_inv)
  next
    case (2 d)
    from fd_write_cases [OF 2(2,3), of t m] show ?thesis
    proof (elim disjE exE conjE)
      fix p v q1
      assume w: "fd_target d t p v" "0 < fd_free d p" "fd_same d q1" "fd_ready q1"
        "fd_write d t m = (Inr True, fd_pushed q1 p v)"
      have f: "p \<in> set (fd_readers q1)" "0 < fd_free q1 p"
        using w(1-3) fd_same_views [OF w(3)] by (auto simp: fd_target_def)
      have "fd_ready (fd_pushed q1 p v)" by (rule fd_ready_pushed [OF w(4) f])
      moreover have "fd_readers q1 = fd_readers d" "fd_kind q1 = fd_kind d" "fd_mapping q1 = fd_mapping d"
        using fd_same_views [OF w(3)] by auto
      moreover have "mapping_ok (fd_pushed q1 p v)"
        using 2(3) calculation(2-4) by (auto simp: mapping_ok_def split: option.splits)
      ultimately show ?thesis using 2 w(5) by (simp add: q_write_def)
    next
      fix e
      assume e: "fd_write d t m = (Inl e, d)" "fd_kind d \<noteq> MappedK \<longrightarrow> e = QueueFull \<and> (\<forall>p v. fd_target d t p v \<longrightarrow> fd_free d p = 0)"
      then have "fd_slots_available d 1 m \<noteq> Inr True" using fd_target_exists [OF 2(2,4) e(1)] 2(4) by blast
      with sl 2 show ?thesis by (simp add: q_slots_available_def)
    qed
  qed
qed

section \<open>Ports of a firing\<close>

definition inport_ok :: "port \<Rightarrow> bool" where
  "inport_ok p \<longleftrightarrow> pt_direction p = InDir
     \<and> (case pt_queue p of None \<Rightarrow> False | Some q \<Rightarrow> q_in_inv q \<and> q_in_reader q (pt_id p))"

definition outport_ok :: "port \<Rightarrow> bool" where
  "outport_ok p \<longleftrightarrow> pt_direction p = OutDir
     \<and> (case pt_queue p of None \<Rightarrow> False | Some q \<Rightarrow> q_out_inv (pt_id p) q)"

lemma inport_available: "inport_ok p \<Longrightarrow> \<exists>b. port_tokens_available p n = Inr b"
  using qi.avail_pure by (force simp: inport_ok_def port_tokens_available_def ask_queue_def split: option.splits)

lemma inport_read:
  assumes "inport_ok p" "port_tokens_available p 1 = Inr True"
  shows "\<exists>t b p'. port_read p = (Inr (t, b), p') \<and> inport_ok p'"
proof -
  obtain q where q: "pt_queue p = Some q" "q_in_inv q" "q_in_reader q (pt_id p)" "pt_direction p = InDir"
    using assms(1) by (auto simp: inport_ok_def split: option.splits)
  have "(q_tokens_available q 1 (pt_id p), q) = (Inr True, q)"
    using assms(2) q by (simp add: port_tokens_available_def ask_queue_def)
  from qi.read_ok [OF q(2,3) this] obtain t b q1 q2 where
    "q_peek q (pt_id p) = (Inr t, q1)" "q_commit q1 (pt_id p) = (Inr b, q2)" "q_in_inv q2" "q_in_reader q2 (pt_id p)" by blast
  with q show ?thesis
    by (simp add: port_read_def port_peek_def port_peek_commit_def on_queue_def inport_ok_def)
qed

lemma outport_available: "outport_ok p \<Longrightarrow> \<exists>b. port_tokens_available p n = Inr b"
  using qw.slots_pure by (force simp: outport_ok_def port_tokens_available_def ask_queue_def split: option.splits)

lemma outport_write:
  assumes "outport_ok p" "port_tokens_available p 1 = Inr True"
  shows "\<exists>p'. port_write_token p t = (Inr (), p') \<and> outport_ok p'"
proof -
  obtain q where q: "pt_queue p = Some q" "q_out_inv (pt_id p) q" "pt_direction p = OutDir"
    using assms(1) by (auto simp: outport_ok_def split: option.splits)
  have "(q_slots_available q 1 (pt_id p), q) = (Inr True, q)"
    using assms(2) q by (simp add: port_tokens_available_def ask_queue_def)
  from qw.slots_write [OF q(2) TrueI this, of t] q show ?thesis
    by (auto simp: port_write_token_def on_queue_def outport_ok_def)
qed

section \<open>Firing\<close>

definition ports_ok :: "(port \<Rightarrow> bool) \<Rightarrow> (string, port) dict \<Rightarrow> string set \<Rightarrow> bool" where
  "ports_ok ok d N \<longleftrightarrow> (\<forall>n \<in> N. \<exists>p. dget d n = Some p \<and> ok p)"

definition port_free :: "(string, port) dict \<Rightarrow> string \<Rightarrow> bool" where
  "port_free d n \<longleftrightarrow> (\<exists>p. dget d n = Some p \<and> port_tokens_available p 1 = Inr True)"

lemma ports_available_ok:
  assumes "\<And>p. ok p \<Longrightarrow> \<exists>b. port_tokens_available p 1 = Inr b"
  shows "ports_ok ok d N \<Longrightarrow> set ns \<subseteq> N \<Longrightarrow> ports_available d ns = Inr (\<forall>n \<in> set ns. port_free d n)"
proof (induction ns)
  case (Cons n ns)
  obtain p where p: "dget d n = Some p" "ok p" using Cons.prems by (auto simp: ports_ok_def)
  obtain b where b: "port_tokens_available p 1 = Inr b" using assms [OF p(2)] by blast
  show ?case using p(1) b Cons by (auto simp: port_free_def)
qed simp

lemma on_port_in: "dget (ac_inports a) n = Some p \<Longrightarrow> f p = (r, p1) \<Longrightarrow>
    on_port a InDir n f = (r, a\<lparr>ac_inports := dput n p1 (ac_inports a)\<rparr>)"
  by (simp add: on_port_def get_port_def put_port_def)

lemma on_port_out: "dget (ac_outports a) n = Some p \<Longrightarrow> f p = (r, p1) \<Longrightarrow>
    on_port a OutDir n f = (r, a\<lparr>ac_outports := dput n p1 (ac_outports a)\<rparr>)"
  by (simp add: on_port_def get_port_def put_port_def)

lemma read_inputs_ok:
  "distinct ns \<Longrightarrow> set ns \<subseteq> N \<Longrightarrow> ports_ok inport_ok (ac_inports a) N \<Longrightarrow>
   \<forall>n \<in> set ns. port_free (ac_inports a) n \<Longrightarrow>
   \<exists>ts exs d. read_inputs a ns = (Inr (ts, exs), a\<lparr>ac_inports := d\<rparr>) \<and> length ts = length ns
     \<and> set exs \<subseteq> set ns \<and> ports_ok inport_ok d N"
proof (induction ns arbitrary: a)
  case Nil
  then show ?case by (auto intro!: exI [of _ "ac_inports a"])
next
  case (Cons n ns)
  obtain p where p: "dget (ac_inports a) n = Some p" "inport_ok p" "port_tokens_available p 1 = Inr True"
    using Cons.prems by (auto simp: ports_ok_def port_free_def)
  obtain t b p1 where r: "port_read p = (Inr (t, b), p1)" "inport_ok p1" using inport_read [OF p(2,3)] by blast
  let ?a = "a\<lparr>ac_inports := dput n p1 (ac_inports a)\<rparr>"
  have ok: "ports_ok inport_ok (ac_inports ?a) N" using Cons.prems(3) r(2) by (simp add: ports_ok_def)
  have free: "\<forall>k \<in> set ns. port_free (ac_inports ?a) k"
    using Cons.prems(1,4) by (auto simp: port_free_def)
  obtain ts exs d where 2: "read_inputs ?a ns = (Inr (ts, exs), ?a\<lparr>ac_inports := d\<rparr>)" "length ts = length ns"
    "set exs \<subseteq> set ns" "ports_ok inport_ok d N"
    using Cons.IH [OF _ _ ok free] Cons.prems(1,2) by auto
  have "read_inputs a (n # ns) = (Inr (t # ts, if b then n # exs else exs), a\<lparr>ac_inports := d\<rparr>)"
    using on_port_in [of a n p port_read, OF p(1) r(1)] 2(1) by simp
  then show ?case using 2 by (intro exI [of _ "t # ts"]) auto
qed

lemma write_outputs_ok:
  "distinct (map fst nvs) \<Longrightarrow> fst ` set nvs \<subseteq> N \<Longrightarrow> ports_ok outport_ok (ac_outports a) N \<Longrightarrow>
   \<forall>n \<in> fst ` set nvs. port_free (ac_outports a) n \<Longrightarrow>
   \<exists>d. write_outputs a nvs = (Inr (), a\<lparr>ac_outports := d\<rparr>) \<and> ports_ok outport_ok d N"
proof (induction nvs arbitrary: a)
  case Nil
  then show ?case by (auto intro!: exI [of _ "ac_outports a"])
next
  case (Cons x nvs)
  obtain n v where x [simp]: "x = (n, v)" by (cases x)
  obtain p where p: "dget (ac_outports a) n = Some p" "outport_ok p" "port_tokens_available p 1 = Inr True"
    using Cons.prems by (auto simp: ports_ok_def port_free_def)
  obtain p1 where w: "port_write_token p (as_token v) = (Inr (), p1)" "outport_ok p1"
    using outport_write [OF p(2,3)] by blast
  let ?a = "a\<lparr>ac_outports := dput n p1 (ac_outports a)\<rparr>"
  have ok: "ports_ok outport_ok (ac_outports ?a) N" using Cons.prems(3) w(2) by (simp add: ports_ok_def)
  have free: "\<forall>k \<in> fst ` set nvs. port_free (ac_outports ?a) k"
    using Cons.prems(1,4) by (auto simp: port_free_def image_iff)
  obtain d where 2: "write_outputs ?a nvs = (Inr (), ?a\<lparr>ac_outports := d\<rparr>)" "ports_ok outport_ok d N"
    using Cons.IH [OF _ _ ok free] Cons.prems(1,2) by auto
  have "write_outputs a (x # nvs) = (Inr (), a\<lparr>ac_outports := d\<rparr>)"
    using on_port_out [of a n p "\<lambda>p. port_write_token p (as_token v)", OF p(1) w(1)] 2(1) by simp
  then show ?case using 2(2) by blast
qed

text \<open>An action whose body (and exception handler) returns one value for every output.\<close>

definition total_action :: "'v actor_class \<Rightarrow> 'v action \<Rightarrow> bool" where
  "total_action c act \<longleftrightarrow>
     (\<forall>v args. length args = length (an_inputs act) \<longrightarrow>
        (\<exists>ps v'. an_body act v args = (Inr ps, v') \<and> length ps = length (an_outputs act))
        \<and> (\<exists>ps v'. cl_exception_handler c v (an_name act) args = (Inr ps, v') \<and> length ps = length (an_outputs act)))"

lemma fire_condition_ok:
  assumes "ports_ok inport_ok (ac_inports a) I" "ports_ok outport_ok (ac_outports a) U"
    "set (an_inputs act) \<subseteq> I" "set (an_outputs act) \<subseteq> U" "distinct (an_inputs act)" "distinct (an_outputs act)"
    "total_action c act"
  shows "\<exists>fired ok exs a'. fire_condition c act a = (Inr (fired, ok, exs), a')
    \<and> ports_ok inport_ok (ac_inports a') I \<and> ports_ok outport_ok (ac_outports a') U
    \<and> fired = ((\<forall>n \<in> set (an_inputs act). port_free (ac_inports a) n) \<and> (\<forall>n \<in> set (an_outputs act). port_free (ac_outports a) n))
    \<and> ok = (\<forall>n \<in> set (an_outputs act). port_free (ac_outports a) n)
    \<and> (\<not> fired \<longrightarrow> a' = a \<and> exs = []) \<and> ac_fsm a' = ac_fsm a"
proof -
  let ?in = "\<forall>n \<in> set (an_inputs act). port_free (ac_inports a) n"
  let ?out = "\<forall>n \<in> set (an_outputs act). port_free (ac_outports a) n"
  have av: "ports_available (ac_inports a) (an_inputs act) = Inr ?in"
    "ports_available (ac_outports a) (an_outputs act) = Inr ?out"
    using ports_available_ok [of inport_ok, OF inport_available assms(1,3)]
      ports_available_ok [of outport_ok, OF outport_available assms(2,4)] by auto
  show ?thesis
  proof (cases "?in \<and> ?out")
    case False
    then have "fire_condition c act a = (Inr (False, ?out, []), a)" using av by (auto simp: fire_condition_def)
    with False assms(1,2) show ?thesis by blast
  next
    case True
    obtain ts exs d where r: "read_inputs a (an_inputs act) = (Inr (ts, exs), a\<lparr>ac_inports := d\<rparr>)"
      "length ts = length (an_inputs act)" "ports_ok inport_ok d I"
      using read_inputs_ok [OF assms(5,3,1)] True by blast
    let ?args = "map as_argument ts" and ?a = "a\<lparr>ac_inports := d\<rparr>"
    let ?run = "if list_ex is_exception_token ts then cl_exception_handler c (ac_vars ?a) (an_name act) ?args
        else an_body act (ac_vars ?a) ?args"
    obtain ps v where run: "?run = (Inr ps, v)" "length ps = length (an_outputs act)"
      using assms(7) r(2) by (auto simp: total_action_def split: if_splits) (metis length_map)+
    let ?b = "?a\<lparr>ac_vars := v\<rparr>" and ?nvs = "zip (an_outputs act) ps"
    have z: "map fst ?nvs = an_outputs act" using run(2) by simp
    then have zs: "fst ` set ?nvs = set (an_outputs act)" by (metis list.set_map)
    obtain e where w: "write_outputs ?b ?nvs = (Inr (), ?b\<lparr>ac_outports := e\<rparr>)" "ports_ok outport_ok e U"
      using write_outputs_ok [of ?nvs U ?b] z zs assms(2,4,6) True by auto
    have "fire_condition c act a = (Inr (True, True, exs), ?b\<lparr>ac_outports := e\<rparr>)"
      unfolding fire_condition_def av sum.case using True r(1) run w(1) by (simp add: Let_def)
    with True r(3) w(2) show ?thesis
      by (intro exI [of _ True] exI [of _ True] exI [of _ exs] exI [of _ "?b\<lparr>ac_outports := e\<rparr>"]) auto
  qed
qed

section \<open>Actions that do not fire\<close>

lemma fire_condition_unfired:
  "fire_condition c act a = (Inr (False, ok, exs), a') \<Longrightarrow> exs = [] \<and> a' = a"
  by (auto simp: fire_condition_def Let_def and_then_def split: sum.splits if_splits prod.splits)

lemma fire_action_unfired:
  "fire_action c act a = (Inr (False, ok, exs), a') \<Longrightarrow> exs = [] \<and> a' = a"
  by (auto simp: fire_action_def dest: fire_condition_unfired split: option.splits sum.splits if_splits)

lemma fire_list_unfired:
  "fire_list c acts a = (Inr (False, ok, exs), a') \<Longrightarrow> exs = [] \<and> a' = a"
proof (induction acts arbitrary: a)
  case (Cons act acts)
  obtain fired ok1 exs1 a1 where 1: "fire_action c act a = (Inr (fired, ok1, exs1), a1)"
    using Cons.prems by (auto simp: and_then_Inr)
  show ?case
  proof (cases "fired \<or> acts = []")
    case True
    with Cons.prems 1 have "fire_action c act a = (Inr (False, ok, exs), a')" by simp
    then show ?thesis by (rule fire_action_unfired)
  next
    case False
    then have "fire_list c acts a1 = (Inr (False, ok, exs), a')" "a1 = a"
      using Cons.prems 1 fire_action_unfired [of c act a ok1 exs1 a1] by auto
    with Cons.IH show ?thesis by blast
  qed
qed simp

text \<open>The first action that can fire is the one that fires.\<close>

lemma fire_list_first:
  assumes "\<forall>b \<in> set us. \<exists>ok. fire_action c b a = (Inr (False, ok, []), a)"
    "fire_action c act a = (Inr (True, ok, exs), a')"
  shows "fire_list c (us @ act # vs) a = (Inr (True, ok, exs), a')"
  using assms by (induction us) auto

section \<open>Status\<close>

lemma transition_to_strict:
  assumes "\<not> fsm_no_transition_checks (ac_fsm a)" "\<not> fsm_allow_invalid (ac_fsm a)"
    "transition_to c a new = (Inr (), a')"
  shows "new \<in> set (valid_transitions (status_of a)) \<and> status_of a' = new"
  using assms by (auto simp: transition_to_def and_then_def set_status_def split: if_splits sum.splits prod.splits)

definition fsm_flags :: "fsm \<Rightarrow> bool \<times> bool \<times> bool" where
  "fsm_flags m = (fsm_allow_invalid m, fsm_no_transition_checks m, fsm_no_state_checks m)"

text \<open>What a transition may change besides the status: the variables and the started flag.\<close>

lemma will_start_once_cases:
  "will_start_once c a = (r, a1) \<Longrightarrow> ac_fsm a1 = ac_fsm a \<and> (ac_has_started a \<longrightarrow> ac_has_started a1)
    \<and> (r = Inr () \<longrightarrow> ac_has_started a1) \<and> ac_inports a1 = ac_inports a \<and> ac_outports a1 = ac_outports a"
  by (auto simp: will_start_once_def split: if_splits sum.splits prod.splits)

lemma transition_hook_cases:
  assumes "transition_hook c a new = (r, a1)"
  shows "ac_fsm a1 = ac_fsm a" "ac_has_started a \<longrightarrow> ac_has_started a1"
    "r = Inr () \<longrightarrow> status_of a = PENDING \<longrightarrow> new = ENABLED \<longrightarrow> ac_has_started a1"
    "ac_inports a1 = ac_inports a" "ac_outports a1 = ac_outports a"
  using assms will_start_once_cases [of c a r a1]
  by (auto simp: transition_hook_def will_stop_hook_def split: if_splits prod.splits)

lemma transition_to_cases:
  assumes "transition_to c a new = (r, a1)"
  shows "status_of a1 = (if r = Inr () then new else status_of a)" "ac_has_started a \<longrightarrow> ac_has_started a1"
    "r = Inr () \<longrightarrow> status_of a = PENDING \<longrightarrow> new = ENABLED \<longrightarrow> ac_has_started a1"
proof -
  have v: "ENABLED \<in> set (valid_transitions PENDING)" by simp
  obtain r2 a2 where h: "transition_hook c a new = (r2, a2)" by (cases "transition_hook c a new")
  note hc = transition_hook_cases [OF h]
  from assms h hc v
  show "status_of a1 = (if r = Inr () then new else status_of a)" "ac_has_started a \<longrightarrow> ac_has_started a1"
    "r = Inr () \<longrightarrow> status_of a = PENDING \<longrightarrow> new = ENABLED \<longrightarrow> ac_has_started a1"
    by (cases r2; auto simp: transition_to_def set_status_def split: if_splits)+
qed

definition started_ok :: "'v actor \<Rightarrow> bool" where
  "started_ok a \<longleftrightarrow> (status_of a \<in> {ENABLED, DENIED, MIGRATABLE} \<longrightarrow> ac_has_started a)"

lemma did_connect_started:
  assumes "started_ok a" "status_of a \<in> {READY, PENDING, ENABLED}"
  shows "started_ok (snd (did_connect c a))"
proof (cases "status_of a = ENABLED")
  case True
  then show ?thesis using assms by (simp add: did_connect_def)
next
  case False
  obtain r1 a1 where 1: "(if status_of a = READY then transition_to c a PENDING else (Inr (), a)) = (r1, a1)"
    by (cases "if status_of a = READY then transition_to c a PENDING else (Inr (), a)")
  obtain r2 a2 where 2: "transition_to c a1 ENABLED = (r2, a2)" by (cases "transition_to c a1 ENABLED")
  have s1: "status_of a1 = (if r1 = Inr () then PENDING else status_of a)"
    using 1 assms(2) False transition_to_cases(1) [of c a PENDING r1 a1] by (auto split: if_splits)
  have s2: "status_of a2 = (if r2 = Inr () then ENABLED else status_of a1)"
    "r2 = Inr () \<longrightarrow> status_of a1 = PENDING \<longrightarrow> ac_has_started a2"
    using transition_to_cases [OF 2] by auto
  show ?thesis
    unfolding did_connect_def using False 1 2 s1 s2 assms
    by (cases r1) (auto simp: started_ok_def split: if_splits)
qed

lemma did_disconnect_started:
  assumes "started_ok a"
  shows "started_ok (snd (did_disconnect c a))"
proof (cases "status_of a = MIGRATABLE")
  case True
  then show ?thesis using assms by (simp add: did_disconnect_def)
next
  case False
  obtain r1 a1 where 1: "(if status_of a \<noteq> PENDING then transition_to c a PENDING else (Inr (), a)) = (r1, a1)"
    by (cases "if status_of a \<noteq> PENDING then transition_to c a PENDING else (Inr (), a)")
  obtain r2 a2 where 2: "transition_to c a1 READY = (r2, a2)" by (cases "transition_to c a1 READY")
  have s1: "status_of a1 = (if r1 = Inr () then PENDING else status_of a)" "ac_has_started a \<longrightarrow> ac_has_started a1"
    using 1 transition_to_cases [of c a PENDING r1 a1] by (auto split: if_splits)
  have s2: "status_of a2 = (if r2 = Inr () then READY else status_of a1)" using transition_to_cases [OF 2] by auto
  show ?thesis
    unfolding did_disconnect_def using False 1 2 s1 s2 assms
    by (cases r1) (auto simp: started_ok_def split: if_splits)
qed

lemma transition_started:
  assumes "started_ok a" "status_of a \<in> {ENABLED, DENIED, MIGRATABLE}" "transition_to c b new = (r, a1)"
    "ac_has_started b = ac_has_started a"
  shows "ac_has_started a1"
  using assms transition_to_cases(2) [OF assms(3)] by (auto simp: started_ok_def)

lemma lifecycle_step_started:
  assumes "started_ok a" "status_of a \<in> set (declared_statuses ev)"
  shows "started_ok (lifecycle_step ps c ev a)"
proof (cases ev)
  case EvSetup
  obtain r a1 where t: "transition_to c a READY = (r, a1)" by (cases "transition_to c a READY")
  have "started_ok a1"
    using assms(1) transition_to_cases(1,2) [OF t] by (auto simp: started_ok_def split: if_splits)
  with t EvSetup show ?thesis by (simp add: lifecycle_step_def setup_complete_def)
next
  case EvAuthorize
  then have "status_of a = ENABLED" using assms(2) by simp
  obtain r a1 where "transition_to c a DENIED = (r, a1)" by (cases "transition_to c a DENIED")
  with EvAuthorize \<open>status_of a = ENABLED\<close> assms transition_started [OF assms(1) _ this] show ?thesis
    by (cases r) (auto simp: lifecycle_step_def authorized_def started_ok_def)
next
  case EvRetry
  then have "status_of a = DENIED" using assms(2) by simp
  obtain r a1 where "transition_to c a ENABLED = (r, a1)" by (cases "transition_to c a ENABLED")
  with EvRetry \<open>status_of a = DENIED\<close> assms transition_started [OF assms(1) _ this] show ?thesis
    by (cases r) (auto simp: lifecycle_step_def enable_or_migrate_def started_ok_def)
next
  case (EvReply reply)
  then have d: "status_of a = DENIED" using assms(2) by simp
  have "ac_has_started (snd (transition_to c (a\<lparr>ac_migration_info := x\<rparr>) MIGRATABLE))" for x
    using transition_started [OF assms(1), of c "a\<lparr>ac_migration_info := x\<rparr>" MIGRATABLE] d
    by (cases "transition_to c (a\<lparr>ac_migration_info := x\<rparr>) MIGRATABLE") auto
  then have "started_ok (snd (set_migration_info c a reply))" using assms(1)
    by (auto simp: set_migration_info_def started_ok_def and_then_def split: option.splits sum.splits prod.splits)
      (metis snd_conv)+
  with EvReply show ?thesis by (simp add: lifecycle_step_def)
qed (use assms did_connect_started did_disconnect_started in \<open>auto simp: lifecycle_step_def\<close>)

lemma lifecycle_started:
  "started_ok a \<Longrightarrow> as_declared ps c evs a \<Longrightarrow> started_ok (fold (lifecycle_step ps c) evs a)"
  by (induction evs arbitrary: a) (simp_all add: lifecycle_step_started)

text \<open>
  Outside its declaration a call is made all the same: with the invalid transitions allowed, which is
  the default, an actor connected before its set-up is complete is enabled without its start hook.
\<close>

lemma connect_before_setup:
  assumes "status_of a = LOADED" "fsm_allow_invalid (ac_fsm a)" "\<not> fsm_no_transition_checks (ac_fsm a)"
    "list_all port_is_connected (all_ports a)"
  shows "did_connect c a = (Inr (), set_status a ENABLED)" "ac_has_started (set_status a ENABLED) = ac_has_started a"
  using assms by (simp_all add: did_connect_def transition_to_def set_status_def list_ex_iff list_all_iff)

end
