(* ===== verification/Scheduler_Lemmas.thy ===== *)
theory Scheduler_Lemmas
  imports Scheduler Actor_Lemmas
begin

text \<open>
  Correctness of the scheduler: the task list stays in time order, every request is served by a task
  that is due in time, the timer is never lost, the periodic tasks never disappear, and what the
  monitor's back-off does and does not guarantee.
\<close>

section \<open>The task list\<close>

definition tasks_sorted :: "sched \<Rightarrow> bool" where
  "tasks_sorted s \<longleftrightarrow> sorted (map fst (sc_tasks s))"

lemma insert_index_le: "insert_index t xs \<le> length xs"
  by (induction xs) auto

lemma insert_index_before: "x \<in> set (take (insert_index t xs) xs) \<Longrightarrow> fst x \<le> t"
  by (induction xs) (auto split: if_splits)

lemma insert_index_after:
  "sorted (map fst xs) \<Longrightarrow> x \<in> set (drop (insert_index t xs) xs) \<Longrightarrow> t < fst x"
  by (induction xs) (auto split: if_splits intro: less_le_trans)

lemma insert_index_last: "0 < insert_index t xs \<Longrightarrow> fst (xs ! (insert_index t xs - 1)) \<le> t"
proof -
  assume i: "0 < insert_index t xs"
  have "xs ! (insert_index t xs - 1) \<in> set (take (insert_index t xs) xs)"
    using i insert_index_le [of t xs] by (auto simp: in_set_conv_nth intro!: exI [of _ "insert_index t xs - 1"])
  then show ?thesis by (rule insert_index_before)
qed

lemma insert_task_tasks:
  "sc_tasks (insert_task now k d s) = sc_tasks s
   \<or> sc_tasks (insert_task now k d s)
     = take (insert_index (now + d) (sc_tasks s)) (sc_tasks s) @ (now + d, k) # drop (insert_index (now + d) (sc_tasks s)) (sc_tasks s)"
  by (auto simp: insert_task_def Let_def schedule_next_def)

lemma insert_task_sorted:
  assumes "tasks_sorted s"
  shows "tasks_sorted (insert_task now k d s)"
proof -
  let ?i = "insert_index (now + d) (sc_tasks s)"
  have so: "sorted (map fst (sc_tasks s))" using assms by (simp add: tasks_sorted_def)
  then have "sorted (take ?i (map fst (sc_tasks s)))" "sorted (drop ?i (map fst (sc_tasks s)))"
    by (simp_all add: sorted_wrt_take sorted_wrt_drop)
  moreover have before: "\<forall>x \<in> set (take ?i (sc_tasks s)). fst x \<le> now + d" using insert_index_before by blast
  moreover have after: "\<forall>x \<in> set (drop ?i (sc_tasks s)). now + d \<le> fst x"
    using insert_index_after [OF so] less_imp_le by blast
  moreover have "\<forall>x \<in> set (take ?i (sc_tasks s)). \<forall>y \<in> set (drop ?i (sc_tasks s)). fst x \<le> fst y"
    using before after by (meson order_trans)
  ultimately have "sorted (map fst (take ?i (sc_tasks s) @ (now + d, k) # drop ?i (sc_tasks s)))"
    by (simp add: sorted_append take_map drop_map)
  with insert_task_tasks [of now k d s] so show ?thesis by (auto simp: tasks_sorted_def)
qed

text \<open>A request adds at most its own task, keeps the others, and is served by a task due no later.\<close>

lemma insert_task_set:
  "set (sc_tasks s) \<subseteq> set (sc_tasks (insert_task now k d s))"
  "set (sc_tasks (insert_task now k d s)) \<subseteq> insert (now + d, k) (set (sc_tasks s))"
proof -
  have "set (take i xs) \<union> set (drop i xs) = set xs" for i and xs :: "(rat \<times> task) list"
    by (metis append_take_drop_id set_append)
  then show "set (sc_tasks s) \<subseteq> set (sc_tasks (insert_task now k d s))"
    "set (sc_tasks (insert_task now k d s)) \<subseteq> insert (now + d, k) (set (sc_tasks s))"
    using insert_task_tasks [of now k d s] by auto
qed

lemma insert_task_served: "\<exists>t. (t, k) \<in> set (sc_tasks (insert_task now k d s)) \<and> t \<le> now + d"
proof -
  let ?i = "insert_index (now + d) (sc_tasks s)"
  show ?thesis
  proof (cases "0 < ?i \<and> d = 0 \<and> snd (sc_tasks s ! (?i - 1)) = k")
    case True
    have "sc_tasks s ! (?i - 1) \<in> set (sc_tasks s)"
      using True insert_index_le [of "now + d" "sc_tasks s"] by (intro nth_mem) auto
    moreover have "fst (sc_tasks s ! (?i - 1)) \<le> now + d" using insert_index_last True by blast
    moreover have "insert_task now k d s = s" by (simp only: insert_task_def Let_def if_P [OF True])
    ultimately show ?thesis using True by (metis prod.collapse)
  next
    case False
    then have "sc_tasks (insert_task now k d s) = take ?i (sc_tasks s) @ (now + d, k) # drop ?i (sc_tasks s)"
      by (auto simp: insert_task_def Let_def schedule_next_def)
    then show ?thesis by (intro exI [of _ "now + d"]) simp
  qed
qed

lemma insert_task_nonempty: "sc_tasks (insert_task now k d s) \<noteq> []"
  using insert_task_served [of k now d s] by auto

section \<open>The timer\<close>

text \<open>The timer is active and set to the first task, or to the present when that is overdue.\<close>

definition timer_ok :: "rat \<Rightarrow> sched \<Rightarrow> bool" where
  "timer_ok now s \<longleftrightarrow>
     (sc_tasks s \<noteq> [] \<longrightarrow> (\<exists>t. sc_timer s = Some (t, True) \<and> t \<le> max now (fst (hd (sc_tasks s)))))"

lemma timer_ok_mono: "timer_ok now s \<Longrightarrow> now \<le> now' \<Longrightarrow> timer_ok now' s"
  unfolding timer_ok_def by (meson max.mono order_refl order_trans)

lemma insert_task_timer: "timer_ok now s \<Longrightarrow> timer_ok now (insert_task now k d s)"
proof (cases "sc_tasks s")
  case Nil
  then show ?thesis by (simp add: insert_task_def timer_ok_def schedule_next_def)
next
  case (Cons x xs)
  assume "timer_ok now s"
  with Cons show ?thesis
    by (auto simp: insert_task_def timer_ok_def schedule_next_def Let_def)
qed

lemma insert_task_first: "sc_tasks s = [] \<Longrightarrow> timer_ok now (insert_task now k d s)"
  by (simp add: insert_task_def timer_ok_def schedule_next_def)

section \<open>Running the tasks\<close>

text \<open>A property of the scheduler that insertions keep is kept by every task.\<close>

lemma insert_requests_keep:
  "(\<And>k d s. P s \<Longrightarrow> P (insert_task now k d s)) \<Longrightarrow> P s \<Longrightarrow> P (insert_requests now rs s)"
  by (induction now rs s rule: insert_requests.induct) auto

lemma run_task_keep:
  assumes "\<And>k d s. P s \<Longrightarrow> P (insert_task now k d s)" "\<And>x s. P (s\<lparr>sc_pressure_ids := x\<rparr>) = P s" "P (fst sw)"
  shows "P (fst (snd (run_task h now k sw)))"
proof -
  obtain s w where sw: "sw = (s, w)" by (cases sw)
  note keep = insert_requests_keep [of P now, OF assms(1)]
  show ?thesis
    using assms(3) unfolding sw
    by (cases k) (auto simp: run_task_def maintenance_loop_def check_replication_def check_pressure_def run_strategy_def
        Let_def assms(1,2) keep split: prod.splits sum.splits)
qed

lemma tasks_sorted_pressure [simp]: "tasks_sorted (s\<lparr>sc_pressure_ids := x\<rparr>) = tasks_sorted s"
  by (simp add: tasks_sorted_def)

text \<open>
  What a task raises is what its part outside the scheduler raised, and then only the requests made
  before were served.
\<close>

definition handler_raises :: "'w handlers \<Rightarrow> requests \<Rightarrow> exn \<Rightarrow> bool" where
  "handler_raises h rs e \<longleftrightarrow>
     (\<exists>w w'. hd_replication h w = (rs, Inl e, w') \<or> (\<exists>ids. hd_pressure h ids w = (rs, Inl e, w'))
        \<or> hd_maintenance h w = (rs, Inl e, w') \<or> hd_strategy h w = (rs, Inl e, w'))"

lemma run_task_raises:
  assumes "run_task h now k (s, w) = (Inl e, s', w')"
  shows "\<exists>rs. handler_raises h rs e \<and> s' = insert_requests now rs s"
  using assms unfolding handler_raises_def
  by (cases k) (auto simp: run_task_def maintenance_loop_def check_replication_def check_pressure_def run_strategy_def
      Let_def split: prod.splits sum.splits)

lemma process_next_ok:
  assumes "tasks_sorted s" "sc_tasks s = (t, k) # rest" "process_next h now (s, w) = (r, s', w')"
  shows "(\<exists>rs e. r = Inl e \<and> handler_raises h rs e)
    \<or> r = Inr k \<and> tasks_sorted s' \<and> sc_tasks s' \<noteq> [] \<and> timer_ok now s' \<and> set rest \<subseteq> set (sc_tasks s')"
proof -
  let ?s = "s\<lparr>sc_tasks := rest, sc_timer := map_option (\<lambda>(t, _). (t, False)) (sc_timer s)\<rparr>"
  obtain r1 s1 w1 where r: "run_task h now k (?s, w) = (r1, s1, w1)" by (rule prod_cases3)
  have so: "tasks_sorted ?s" using assms(1,2) by (simp add: tasks_sorted_def)
  have "tasks_sorted (fst (snd (run_task h now k (?s, w))))"
    by (rule run_task_keep [of tasks_sorted]) (simp_all add: insert_task_sorted so)
  then have s1: "tasks_sorted s1" using r by simp
  have "set rest \<subseteq> set (sc_tasks (fst (snd (run_task h now k (?s, w)))))"
    by (rule run_task_keep [of "\<lambda>x. set rest \<subseteq> set (sc_tasks x)"]) (auto dest: subsetD [OF insert_task_set(1)])
  then have sub: "set rest \<subseteq> set (sc_tasks s1)" using r by simp
  show ?thesis
  proof (cases r1)
    case (Inl e)
    then show ?thesis using assms(2,3) r run_task_raises by (fastforce simp: process_next_def)
  next
    case (Inr u)
    show ?thesis
    proof (cases "sc_tasks s1")
      case Nil
      have timer: "sc_timer (insert_task now Watchdog 60 s1) = Some (now + 60, True)"
        "sc_tasks (insert_task now Watchdog 60 s1) = [(now + 60, Watchdog)]"
        using Nil by (simp_all add: insert_task_def schedule_next_def)
      have "process_next h now (s, w) = (Inr k, insert_task now Watchdog 60 s1, w1)"
        using assms(2) r Inr Nil timer by (simp add: process_next_def)
      then show ?thesis using Nil sub timer assms(3) by (auto simp: tasks_sorted_def timer_ok_def)
    next
      case (Cons x xs)
      obtain t1 k1 where x: "x = (t1, k1)" by (cases x)
      let ?n = "schedule_next now (max 0 (t1 - now)) s1"
      have "process_next h now (s, w) = (Inr k, ?n, w1)"
        using assms(2) r Inr Cons x by (simp add: process_next_def schedule_next_def)
      moreover have "timer_ok now ?n" using Cons x by (simp add: timer_ok_def schedule_next_def)
      ultimately show ?thesis using Cons sub s1 assms(3) by (simp add: tasks_sorted_def schedule_next_def)
    qed
  qed
qed

section \<open>Periodic tasks\<close>

definition has_task :: "task \<Rightarrow> sched \<Rightarrow> bool" where
  "has_task k s \<longleftrightarrow> (\<exists>t. (t, k) \<in> set (sc_tasks s))"

lemma has_task_insert: "has_task k (insert_task now k d s)"
  using insert_task_served [of k now d s] by (auto simp: has_task_def)

lemma has_task_keep: "has_task k s \<Longrightarrow> has_task k (insert_task now j d s)"
  using insert_task_set(1) [of s now j d] by (auto simp: has_task_def)

lemma run_task_has: "has_task j (fst sw) \<Longrightarrow> has_task j (fst (snd (run_task h now k sw)))"
  by (rule run_task_keep [of "has_task j"]) (simp_all add: has_task_keep, simp add: has_task_def)

text \<open>The periodic tasks put themselves back, unless they raise.\<close>

lemma run_maintenance_again: "run_task h now MaintenanceLoop sw = (Inr u, s, w) \<Longrightarrow> has_task MaintenanceLoop s"
  by (cases sw) (auto simp: run_task_def maintenance_loop_def Let_def has_task_insert split: prod.splits sum.splits)

lemma run_replication_again:
  assumes "run_task h now CheckReplication sw = (Inr u, s', w')"
  shows "has_task CheckReplication s'"
proof -
  obtain s w where sw: "sw = (s, w)" by (cases sw)
  obtain rs v w1 where h: "hd_replication h w = (rs, Inr v, w1)"
    using assms by (auto simp: sw run_task_def check_replication_def split: prod.splits sum.splits)
  let ?s = "insert_requests now rs s"
  show ?thesis
  proof (cases "list_ex (\<lambda>t. snd t = CheckReplication \<and> fst t < now + sc_replication_interval ?s) (sc_tasks ?s)")
    case True
    then have "has_task CheckReplication ?s" by (auto simp: has_task_def list_ex_iff)
    with True h assms show ?thesis by (auto simp: sw run_task_def check_replication_def Let_def has_task_keep)
  next
    case False
    with h assms show ?thesis
      by (auto simp: sw run_task_def check_replication_def Let_def has_task_keep has_task_insert)
  qed
qed

lemma process_next_has:
  assumes "process_next h now (s, w) = (Inr k, s', w')" "has_task j s" "j = k \<longrightarrow> k = MaintenanceLoop \<or> k = CheckReplication"
  shows "has_task j s'"
proof -
  obtain t rest where s: "sc_tasks s = (t, k) # rest"
    using assms(1) by (auto simp: process_next_def Let_def split: list.splits prod.splits option.splits bool.splits sum.splits)
  let ?s = "s\<lparr>sc_tasks := rest, sc_timer := map_option (\<lambda>(t, _). (t, False)) (sc_timer s)\<rparr>"
  obtain u s1 w1 where r: "run_task h now k (?s, w) = (Inr u, s1, w1)"
    using assms(1) s by (cases "run_task h now k (?s, w)") (auto simp: process_next_def split: sum.splits)
  have "has_task j s1"
  proof (cases "j = k")
    case True
    with assms(3) r show ?thesis using run_maintenance_again run_replication_again by metis
  next
    case False
    then have "has_task j ?s" using assms(2) s by (auto simp: has_task_def)
    with r run_task_has [of j "(?s, w)" h now k] show ?thesis by simp
  qed
  moreover have "sc_tasks s' = sc_tasks (case sc_tasks s1 of [] \<Rightarrow> insert_task now Watchdog 60 s1 | _ # _ \<Rightarrow> s1)"
    using assms(1) s r
    by (auto simp: process_next_def Let_def schedule_next_def split: list.splits prod.splits option.splits bool.splits)
  ultimately show ?thesis by (auto simp: has_task_def split: list.splits)
qed

section \<open>Runs\<close>

definition sched_ok :: "sched \<Rightarrow> bool" where
  "sched_ok s \<longleftrightarrow> tasks_sorted s \<and> has_task MaintenanceLoop s \<and> has_task CheckReplication s \<and> timer_active s"

lemma sched_ok_insert: "sched_ok s \<Longrightarrow> sched_ok (insert_task now k d s)"
  using insert_task_sorted [of s now k d] has_task_keep [of _ s now k d]
  by (auto simp: sched_ok_def insert_task_def Let_def schedule_next_def timer_active_def)

lemma sched_ok_process:
  assumes "sched_ok s" "process_next h now (s, w) = (r, s', w')"
  shows "(\<exists>rs e. r = Inl e \<and> handler_raises h rs e) \<or> (\<exists>k. r = Inr k) \<and> sched_ok s'"
proof -
  obtain t k rest where s: "sc_tasks s = (t, k) # rest"
    using assms by (cases "sc_tasks s") (auto simp: sched_ok_def has_task_def)
  have so: "tasks_sorted s" using assms(1) by (simp add: sched_ok_def)
  from process_next_ok [OF so s assms(2)] show ?thesis
  proof
    assume o: "r = Inr k \<and> tasks_sorted s' \<and> sc_tasks s' \<noteq> [] \<and> timer_ok now s' \<and> set rest \<subseteq> set (sc_tasks s')"
    with assms(2) have p: "process_next h now (s, w) = (Inr k, s', w')" by simp
    have "has_task MaintenanceLoop s'" "has_task CheckReplication s'"
      using process_next_has [OF p] assms(1) by (auto simp: sched_ok_def)
    with o show ?thesis by (auto simp: sched_ok_def timer_ok_def timer_active_def)
  qed blast
qed

lemma sched_run_ok: "sched_ok (sched_run now (sched_init d))"
proof -
  let ?s1 = "insert_task now MaintenanceLoop (sc_maintenance_delay (sched_init d)) (sched_init d)"
  let ?s2 = "insert_task now CheckReplication (sc_replication_interval (sched_init d)) ?s1"
  have so: "tasks_sorted (sched_init d)" by (simp add: tasks_sorted_def sched_init_def)
  have t1: "timer_ok now ?s1" by (rule insert_task_first) (simp add: sched_init_def)
  have "timer_ok now (sched_run now (sched_init d))" unfolding sched_run_def by (intro insert_task_timer t1)
  moreover have "sc_tasks (sched_run now (sched_init d)) \<noteq> []" by (simp add: sched_run_def insert_task_nonempty)
  ultimately have "timer_active (sched_run now (sched_init d))" by (auto simp: timer_ok_def timer_active_def)
  then show ?thesis
    unfolding sched_ok_def sched_run_def
    by (auto intro!: insert_task_sorted so has_task_keep [of CheckReplication] has_task_insert)
      (auto intro!: has_task_keep has_task_insert)
qed

text \<open>Up to the first exception of a task, which only its part outside the scheduler can raise.\<close>

lemma sched_steps_ok:
  assumes "sched_ok (fst sw)" "sched_steps h xs sw = (rs, sw')"
  shows "(\<exists>pre e post qs. rs = map Inr pre @ Inl e # post \<and> handler_raises h qs e)
    \<or> (\<exists>ks. rs = map Inr ks) \<and> sched_ok (fst sw')"
  using assms
proof (induction h xs sw arbitrary: rs sw' rule: sched_steps.induct)
  case (1 h sw)
  then show ?case by (auto intro: exI [of _ "[]"])
next
  case (2 h now xs sw)
  obtain s w where sw: "sw = (s, w)" by (cases sw)
  have a: "timer_active (fst sw)" using "2.prems" by (simp add: sched_ok_def)
  obtain r s1 w1 where p: "process_next h now (s, w) = (r, s1, w1)" by (rule prod_cases3)
  obtain rs1 sw2 where q: "sched_steps h xs (s1, w1) = (rs1, sw2)" by (rule prod.exhaust)
  have eq: "rs = r # rs1" "sw' = sw2" using "2.prems"(2) a p q sw by simp_all
  from sched_ok_process [OF _ p] "2.prems"(1) sw
  consider e qs where "r = Inl e" "handler_raises h qs e" | k where "r = Inr k" "sched_ok s1" by auto
  then show ?case
  proof cases
    case (1 e qs)
    then show ?thesis using eq by (intro disjI1 exI [of _ "[]"]) auto
  next
    case (2 k)
    then have "sched_ok (fst (s1, w1))" by simp
    have p': "(r, s1, w1) = process_next h now sw" using p sw by simp
    from "2.IH"(1) [OF a p' \<open>sched_ok (fst (s1, w1))\<close> q]
    consider pre e post qs where "rs1 = map Inr pre @ Inl e # post" "handler_raises h qs e"
      | ks where "rs1 = map Inr ks" "sched_ok (fst sw2)" by fastforce
    then show ?thesis
    proof cases
      case 1
      then have "rs = map Inr (k # pre) @ Inl e # post" using eq 2 by simp
      with 1 show ?thesis by blast
    next
      case (2 ks)
      then have "rs = map Inr (k # ks)" using eq \<open>r = Inr k\<close> by simp
      with 2 eq show ?thesis by (intro disjI2 conjI exI [of _ "k # ks"]) auto
    qed
  qed
next
  case (3 h now k d xs sw)
  then show ?case by (simp add: sched_ok_insert)
qed

section \<open>After an exception\<close>

text \<open>
  The timer is only set again by a task that comes in first; behind an overdue one there is none.
\<close>

definition stalled :: "rat \<Rightarrow> sched \<Rightarrow> bool" where
  "stalled now s \<longleftrightarrow> \<not> timer_active s \<and> (\<exists>t k rest. sc_tasks s = (t, k) # rest \<and> t \<le> now)"

lemma stalled_insert:
  assumes "stalled now s" "now \<le> now'" "0 \<le> d"
  shows "stalled now (insert_task now' k d s)"
  using assms by (auto simp: stalled_def insert_task_def Let_def timer_active_def)

lemma stalled_requests:
  assumes "stalled now s" "now \<le> now'" "\<forall>(k, d) \<in> set rs. 0 \<le> d"
  shows "stalled now (insert_requests now' rs s)"
  using assms by (induction now' rs s rule: insert_requests.induct) (auto simp: stalled_insert)

fun later_request :: "rat \<Rightarrow> sched_input \<Rightarrow> bool" where
  "later_request now (Ask now' k d) = (now \<le> now' \<and> 0 \<le> d)"
| "later_request now (Tick now') = (now \<le> now')"

lemma stalled_steps:
  assumes "stalled now (fst sw)" "list_all (later_request now) xs"
  shows "\<exists>s'. sched_steps h xs sw = ([], s', snd sw) \<and> stalled now s'"
  using assms
  by (induction h xs sw rule: sched_steps.induct) (auto simp: stalled_insert, auto simp: stalled_def)

lemma process_next_raised:
  assumes "process_next h now (s, w) = (Inl e, s', w')" "sc_tasks s = (t, k) # rest"
  shows "run_task h now k (s\<lparr>sc_tasks := rest, sc_timer := map_option (\<lambda>(t, _). (t, False)) (sc_timer s)\<rparr>, w)
    = (Inl e, s', w')"
  using assms by (auto simp: process_next_def Let_def schedule_next_def insert_task_def
      split: list.splits prod.splits option.splits bool.splits sum.splits)

lemma process_next_stalls:
  assumes "process_next h now (s, w) = (Inl e, s', w')" "sc_tasks s = (t, k) # (t1, k1) # rest" "t1 \<le> now"
    and "\<And>rs e. handler_raises h rs e \<Longrightarrow> \<forall>(k, d) \<in> set rs. 0 \<le> d"
  shows "stalled now s'"
proof -
  let ?s = "s\<lparr>sc_tasks := (t1, k1) # rest, sc_timer := map_option (\<lambda>(t, _). (t, False)) (sc_timer s)\<rparr>"
  have "stalled now ?s" using assms(3) by (cases "sc_timer s") (auto simp: stalled_def timer_active_def)
  moreover obtain rs where "handler_raises h rs e" "s' = insert_requests now rs ?s"
    using run_task_raises [OF process_next_raised [OF assms(1,2)]] by blast
  ultimately show ?thesis using stalled_requests [of now ?s now rs] assms(4) by auto
qed

section \<open>Firing rounds\<close>

text \<open>With a time limit that is ever reached, the rounds end.\<close>

lemma fire_rounds_returns:
  assumes "late K" "k \<le> K"
  shows "\<exists>r. fire_rounds c late k did a = Some r"
  using assms(2)
proof (induction "K - k" arbitrary: k did a)
  case 0
  then have "k = K" by simp
  with assms(1) show ?case by (auto simp: fire_rounds.simps split: prod.splits sum.splits)
next
  case (Suc n)
  then have "n = K - Suc k" "Suc k \<le> K" by auto
  from Suc.hyps(1) [OF this] show ?case
    by (auto simp: fire_rounds.simps [of c late k did a] split: prod.splits sum.splits)
qed

text \<open>Without one, an actor that can always fire never gives the processor back.\<close>

lemma fire_rounds_endless:
  assumes "\<And>a. P a \<Longrightarrow> \<exists>ok exs a'. fire c a = (Inr (True, ok, exs), a') \<and> P a'"
  shows "P a \<Longrightarrow> fire_rounds c (\<lambda>_. False) k did a = None"
proof -
  assume "P a"
  have "x = c \<longrightarrow> late = (\<lambda>_. False) \<longrightarrow> \<not> P b" if "fire_rounds x late k did b = Some r" for x late k did b r
    using that
    apply (rule fire_rounds.raw_induct [where P = "\<lambda>x late k did b r. x = c \<longrightarrow> late = (\<lambda>_. False) \<longrightarrow> \<not> P b", rotated])
    subgoal premises p for rounds x late k did b r
    proof (intro impI notI)
      assume x: "x = c" "late = (\<lambda>_. False)" "P b"
      from assms [OF x(3)] obtain ok exs b' where f: "fire c b = (Inr (True, ok, exs), b')" "P b'" by blast
      with x p(2) have "rounds c late (Suc k) True b' = Some r" by simp
      from p(1) [OF this] x f(2) show False by blast
    qed
    done
  then show ?thesis using \<open>P a\<close> by (cases "fire_rounds c (\<lambda>_. False) k did a") blast+
qed

text \<open>
  A round that did not fire reports no exhausted port, and the reports of the rounds that fired are
  dropped: no exhausted port is ever handed on.
\<close>

lemma fire_unfired_state: "fire c a = (Inr (False, ok, exs), a') \<Longrightarrow> exs = [] \<and> a' = a"
  unfolding fire_def by (rule fire_list_unfired)

lemma fire_actor_once_fired:
  assumes "authorized ps c a = (Inr (True, x), a1)" "fire c a1 = (Inr (True, ok, exs), a2)"
  shows "fire_actor_once ps c a = (Inr True, a2)"
  using assms by (simp add: fire_actor_once_def)

lemma fire_actor_once_unfired:
  assumes "authorized ps c a = (Inr (True, x), a1)" "fire c a1 = (Inr (False, ok, exs), a2)"
  shows "fire_actor_once ps c a = and_then (handle_exhaustion c a1 [] ok) (\<lambda>_ a3. (Inr False, a3))"
  using assms fire_unfired_state [OF assms(2)] by (simp add: fire_actor_once_def)

section \<open>Denied actors\<close>

text \<open>
  No status change to DENIED has a hook, so a denied attempt changes the status at most: where the
  table (or one of the switches of the status machine) allows it.
\<close>

definition may_deny :: "'v actor \<Rightarrow> bool" where
  "may_deny a \<longleftrightarrow> DENIED \<in> set (valid_transitions (status_of a)) \<or> fsm_no_transition_checks (ac_fsm a)
     \<or> fsm_allow_invalid (ac_fsm a)"

lemma fire_actor_denied:
  assumes "\<not> check_authorization_decision ps a"
  shows "fire_actor ps c late a =
    Some (if may_deny a then (Inr False, set_status a DENIED) else (Inl (PyException ''Invalid transition''), a))"
  using assms by (auto simp: fire_actor_def authorized_def transition_to_def transition_hook_def may_deny_def)

lemma fire_actors_ids:
  "fire_actors ps late as = Some (ids, bs) \<Longrightarrow> i \<in> set ids \<Longrightarrow>
   \<exists>(c, a) \<in> set as. i = ac_id a \<and> check_authorization_decision ps a"
proof (induction as arbitrary: ids bs)
  case (Cons x as)
  obtain c a where x [simp]: "x = (c, a)" by (cases x)
  obtain r a1 ids1 bs1 where r: "fire_actor ps c (late (ac_id a)) a = Some (r, a1)" "fire_actors ps late as = Some (ids1, bs1)"
      "ids = (if r = Inr True then ac_id a # ids1 else ids1)"
    using Cons.prems(1) by (auto split: option.splits)
  show ?case
  proof (cases "i \<in> set ids1")
    case True
    from Cons.IH [OF r(2) this] show ?thesis by auto
  next
    case False
    then have f: "r = Inr True" "i = ac_id a" using r(3) Cons.prems(2) by (auto split: if_splits)
    then have "check_authorization_decision ps a"
      using r(1) fire_actor_denied [of ps a c "late (ac_id a)"] by (cases "may_deny a") auto
    with f(2) show ?thesis by auto
  qed
qed simp

lemma fire_actors_nth:
  "fire_actors ps late as = Some (ids, bs) \<Longrightarrow> i < length as \<Longrightarrow> as ! i = (c, a) \<Longrightarrow>
   length bs = length as \<and> (\<exists>r. fire_actor ps c (late (ac_id a)) a = Some (r, bs ! i))"
proof (induction as arbitrary: ids bs i)
  case (Cons x as)
  obtain d b where x [simp]: "x = (d, b)" by (cases x)
  obtain r a1 ids1 bs1 where r: "fire_actor ps d (late (ac_id b)) b = Some (r, a1)" "fire_actors ps late as = Some (ids1, bs1)"
      "bs = a1 # bs1"
    using Cons.prems(1) by (auto split: option.splits)
  have len: "length bs1 = length as"
    using r(2) by (induction as arbitrary: ids1 bs1) (auto split: option.splits)
  show ?case
  proof (cases i)
    case 0
    with Cons.prems(3) r len show ?thesis by simp
  next
    case (Suc n)
    with Cons.IH [OF r(2), of n] Cons.prems(2,3) r(3) show ?thesis by simp
  qed
qed simp

section \<open>Back-off\<close>

definition backoff_ok :: "rat \<Rightarrow> monitor \<Rightarrow> bool" where
  "backoff_ok now m \<longleftrightarrow> dict_ok (mo_backoff m)
     \<and> (\<forall>e tc bo. dget (mo_backoff m) e = Some (tc, bo) \<longrightarrow> 1 / 10 \<le> bo \<and> bo \<le> 1 \<and> tc \<le> now + bo)"

lemma set_backoff_ok:
  assumes "backoff_ok now m"
  shows "backoff_ok now (set_backoff now e m)"
    and "\<exists>bo. dget (mo_backoff (set_backoff now e m)) e = Some (now + bo, bo) \<and> 1 / 10 \<le> bo \<and> bo \<le> 1"
proof -
  let ?bo0 = "case dget (mo_backoff m) e of None \<Rightarrow> 0 | Some (_, b) \<Rightarrow> b"
  let ?bo = "min 1 (if ?bo0 < 1 / 10 then 1 / 10 else ?bo0 * 2)"
  have b: "1 / 10 \<le> ?bo" "?bo \<le> 1" by auto
  have m: "mo_backoff (set_backoff now e m) = dput e (now + ?bo, ?bo) (mo_backoff m)"
    by (simp add: set_backoff_def Let_def)
  show "backoff_ok now (set_backoff now e m)" unfolding backoff_ok_def m using assms b by (auto simp: backoff_ok_def)
  show "\<exists>bo. dget (mo_backoff (set_backoff now e m)) e = Some (now + bo, bo) \<and> 1 / 10 \<le> bo \<and> bo \<le> 1"
    unfolding m using b by auto
qed

text \<open>Repeated refusals double the pause, up to one second.\<close>

lemma set_backoff_doubles:
  assumes "dget (mo_backoff m) e = Some (tc, bo)" "1 / 10 \<le> bo"
  shows "dget (mo_backoff (set_backoff now e m)) e = Some (now + min 1 (bo * 2), min 1 (bo * 2))"
  using assms by (simp add: set_backoff_def Let_def)

lemma next_slot_le:
  assumes "dget (mo_backoff m) e = Some (tc, bo)"
  shows "\<exists>slot. next_slot m = Some slot \<and> slot \<le> tc"
proof -
  have "(e, tc, bo) \<in> set (mo_backoff m)" using assms by (rule map_of_SomeD)
  then have "tc \<in> set (map (fst \<circ> snd) (mo_backoff m))" "mo_backoff m \<noteq> []" by force+
  then show ?thesis by (auto simp: next_slot_def intro!: Min_le)
qed

text \<open>
  A refusal schedules the strategy for the earliest pause only: when another endpoint's pause ends
  first, nothing is scheduled for the end of this one.
\<close>

lemma nack_schedules_first_slot:
  assumes "dget (mo_backoff m) other = Some (tc, bo)" "other \<noteq> e" "tunnel_tx_nack now e (s, m) = (s', m')"
    "x \<in> set (sc_tasks s')" "x \<notin> set (sc_tasks s)"
  shows "snd x = Strategy \<and> fst x \<le> max now tc"
proof -
  let ?m = "set_backoff now e m"
  have "dget (mo_backoff ?m) other = Some (tc, bo)" using assms(1,2) by (simp add: set_backoff_def Let_def)
  from next_slot_le [OF this] obtain slot where slot: "next_slot ?m = Some slot" "slot \<le> tc" by blast
  have "x \<in> insert (now + max 0 (slot - now), Strategy) (set (sc_tasks s))"
    using assms(3-5) slot(1) insert_task_set(2) [of now Strategy "max 0 (slot - now)" s]
    by (auto simp: tunnel_tx_nack_def Let_def split: if_splits)
  with assms(5) slot(2) show ?thesis by (auto simp: max_def)
qed

end
