(* ===== verification/Dispatch_Runs.thy ===== *)
theory Dispatch_Runs
  imports Dispatch_Schedule
begin

text \<open>
  Whole runs of a dispatching queue: what connecting the announced readers to a new queue establishes,
  and what sequences of writes and reads do with the tokens.
\<close>

section \<open>A queue with its readers connected\<close>

definition fd_connect :: "dispatch_kind \<Rightarrow> (nat \<Rightarrow> nat) \<Rightarrow> port_props \<Rightarrow> string list \<Rightarrow> fanout_disp" where
  "fd_connect k rnd pp rs = fold (\<lambda>r q. fd_add_reader q r) rs (snd (fd_init k rnd pp))"

text \<open>The port properties announce these readers, and the queue length is not negative.\<close>

definition announced :: "port_props \<Rightarrow> string list \<Rightarrow> bool" where
  "announced pp rs \<longleftrightarrow> distinct rs \<and> rs \<noteq> [] \<and> opt_default 1 (pp_nbr_peers pp) = int (length rs)
     \<and> 0 \<le> opt_default 4 (pp_queue_length pp)"

definition at_start :: "fanout_disp \<Rightarrow> string list \<Rightarrow> bool" where
  "at_start q rs \<longleftrightarrow> fd_inv q \<and> set (fd_readers q) = set rs \<and> length (fd_readers q) = length rs
     \<and> \<not> fd_is_ordered q \<and> (\<forall>r \<in> set rs. dval (fd_write_pos q) r = 0)"

definition same_plan :: "fanout_disp \<Rightarrow> fanout_disp \<Rightarrow> bool" where
  "same_plan q q' \<longleftrightarrow> fd_kind q' = fd_kind q \<and> fd_N q' = fd_N q \<and> fd_reader_turn q' = fd_reader_turn q
     \<and> fd_turn_pos q' = fd_turn_pos q \<and> fd_nbr_peers q' = fd_nbr_peers q"

lemma add_reader_at_start:
  assumes "at_start q rs" "r \<notin> set rs" "int (length (r # rs)) \<le> fd_nbr_peers q"
  shows "at_start (fd_add_reader q r) (r # rs) \<and> same_plan q (fd_add_reader q r)"
proof -
  have "r \<notin> set (fd_readers q)" using assms(1,2) by (simp add: at_start_def)
  then show ?thesis
    using assms fd_add_reader_inv [of q r]
    by (auto simp: at_start_def same_plan_def fd_add_reader_def fd_base_add_reader_def Let_def)
qed

lemma at_start_set: "at_start q rs \<Longrightarrow> set rs = set rs' \<Longrightarrow> length rs = length rs' \<Longrightarrow> at_start q rs'"
  by (simp add: at_start_def)

lemma add_readers_at_start:
  "at_start q prev \<Longrightarrow> distinct rs \<Longrightarrow> set rs \<inter> set prev = {} \<Longrightarrow> int (length rs + length prev) \<le> fd_nbr_peers q \<Longrightarrow>
   at_start (fold (\<lambda>r q. fd_add_reader q r) rs q) (rs @ prev) \<and> same_plan q (fold (\<lambda>r q. fd_add_reader q r) rs q)"
proof (induction rs arbitrary: q prev)
  case (Cons r rs)
  from add_reader_at_start [of q prev r] Cons.prems
  have 1: "at_start (fd_add_reader q r) (r # prev)" "same_plan q (fd_add_reader q r)" by auto
  have "at_start (fold (\<lambda>r q. fd_add_reader q r) rs (fd_add_reader q r)) (rs @ r # prev)
      \<and> same_plan (fd_add_reader q r) (fold (\<lambda>r q. fd_add_reader q r) rs (fd_add_reader q r))"
    by (rule Cons.IH [OF 1(1)]) (use Cons.prems 1(2) in \<open>auto simp: same_plan_def\<close>)
  with 1(2) show ?case using at_start_set [of _ "rs @ r # prev" "r # rs @ prev"] by (auto simp: same_plan_def)
qed (simp add: same_plan_def)

lemma randranges_ok:
  "0 < n \<Longrightarrow> \<exists>xs j. randranges k q n = (Inr xs, q\<lparr>fd_draws := j\<rparr>) \<and> length xs = k \<and> (\<forall>x \<in> set xs. 0 \<le> x \<and> x < n)"
proof (induction k arbitrary: q)
  case (Suc k)
  obtain xs j where "randranges k (q\<lparr>fd_draws := Suc (fd_draws q)\<rparr>) n = (Inr xs, q\<lparr>fd_draws := j\<rparr>)"
      "length xs = k" "\<forall>x \<in> set xs. 0 \<le> x \<and> x < n"
    using Suc.IH [OF Suc.prems, of "q\<lparr>fd_draws := Suc (fd_draws q)\<rparr>"] by auto
  with Suc.prems show ?case by (auto simp: randrange_def)
next
  case 0
  show ?case by (rule exI [of _ "[]"], rule exI [of _ "fd_draws q"]) simp
qed

lemma set_turn_planned:
  assumes "fd_reader_turn q = None" "0 < fd_N q" "0 < fd_nbr_peers q"
  shows "\<exists>t j. fd_set_turn q = (Inr (), q\<lparr>fd_reader_turn := t, fd_draws := j\<rparr>)
    \<and> (uses_turn (fd_kind q) \<longrightarrow> turn_planned (q\<lparr>fd_reader_turn := t, fd_draws := j\<rparr>))
    \<and> (fd_kind q \<in> {OrderedK, RoundRobinK} \<longrightarrow> t = Some (take (nat (fd_N q)) (alternating (fd_N q) (fd_nbr_peers q))))"
proof -
  let ?rt = "take (nat (fd_N q)) (alternating (fd_N q) (fd_nbr_peers q))"
  note at = turn_planned_take [OF assms(3,2)] length_alternating_take [OF assms(3,2)]
  obtain xs j where r: "randranges (nat (fd_N q)) q (fd_nbr_peers q) = (Inr xs, q\<lparr>fd_draws := j\<rparr>)"
      "length xs = nat (fd_N q)" "\<forall>x \<in> set xs. 0 \<le> x \<and> x < fd_nbr_peers q"
    using randranges_ok [OF assms(3)] by blast
  consider "fd_kind q \<in> {OrderedK, RoundRobinK}" | "fd_kind q = RandomK" | "\<not> uses_turn (fd_kind q)"
    by (auto simp: uses_turn_def)
  then show ?thesis
  proof cases
    case 1
    then have "fd_set_turn q = (Inr (), q\<lparr>fd_reader_turn := Some ?rt, fd_draws := fd_draws q\<rparr>)"
      using assms(1) by (auto simp: fd_set_turn_def)
    moreover have "turn_planned (q\<lparr>fd_reader_turn := Some ?rt, fd_draws := fd_draws q\<rparr>)"
      using at assms(2) by (simp add: turn_planned_def)
    ultimately show ?thesis by blast
  next
    case 2
    then have "fd_set_turn q = (Inr (), q\<lparr>fd_reader_turn := Some xs, fd_draws := j\<rparr>)"
      using assms(1) r(1) by (simp add: fd_set_turn_def)
    moreover have "turn_planned (q\<lparr>fd_reader_turn := Some xs, fd_draws := j\<rparr>)"
      using r assms(2) by (simp add: turn_planned_def)
    moreover have "fd_kind q \<notin> {OrderedK, RoundRobinK}" using 2 by simp
    ultimately show ?thesis by blast
  next
    case 3
    then have "fd_set_turn q = (Inr (), q\<lparr>fd_reader_turn := None, fd_draws := fd_draws q\<rparr>)"
      using assms(1) by (cases "fd_kind q") (auto simp: fd_set_turn_def uses_turn_def)
    moreover have "fd_kind q \<notin> {OrderedK, RoundRobinK}" using 3 by (auto simp: uses_turn_def)
    ultimately show ?thesis using 3 by blast
  qed
qed

lemma fd_init_start:
  assumes "announced pp rs" and q_def: "q = snd (fd_init k rnd pp)"
  shows "at_start q []" "fd_kind q = k" "fd_nbr_peers q = int (length rs)" "fd_turn_pos q = 0" "0 < fd_N q"
    "uses_turn k \<longrightarrow> turn_planned q"
    "k \<in> {OrderedK, RoundRobinK} \<longrightarrow> fd_reader_turn q = Some (take (nat (fd_N q)) (alternating (fd_N q) (fd_nbr_peers q)))"
proof -
  let ?q0 = "\<lparr>fd_kind = k, fd_fifo = [], fd_nbr_peers = opt_default 1 (pp_nbr_peers pp),
        fd_N = opt_default 4 (pp_queue_length pp) + 1, fd_readers = [],
        fd_write_pos = [], fd_read_pos = [], fd_tentative = [],
        fd_type = Some (kind_type k), fd_reader_turn = None, fd_turn_pos = 0, fd_is_ordered = False,
        fd_mapping = None, fd_rnd = rnd, fd_draws = 0\<rparr>"
  have pos: "0 < fd_N ?q0" "0 < fd_nbr_peers ?q0" "fd_nbr_peers ?q0 = int (length rs)"
    using assms(1) by (auto simp: announced_def)
  obtain t j where t: "fd_set_turn ?q0 = (Inr (), ?q0\<lparr>fd_reader_turn := t, fd_draws := j\<rparr>)"
      "uses_turn k \<longrightarrow> turn_planned (?q0\<lparr>fd_reader_turn := t, fd_draws := j\<rparr>)"
      "k \<in> {OrderedK, RoundRobinK} \<longrightarrow> t = Some (take (nat (fd_N ?q0)) (alternating (fd_N ?q0) (fd_nbr_peers ?q0)))"
    using set_turn_planned [of ?q0] pos by auto
  have q: "q = ?q0\<lparr>fd_reader_turn := t, fd_draws := j\<rparr>" by (simp add: q_def fd_init_def t(1))
  show "at_start q []" "fd_kind q = k" "fd_nbr_peers q = int (length rs)" "fd_turn_pos q = 0" "0 < fd_N q"
    "uses_turn k \<longrightarrow> turn_planned q"
    "k \<in> {OrderedK, RoundRobinK} \<longrightarrow> fd_reader_turn q = Some (take (nat (fd_N q)) (alternating (fd_N q) (fd_nbr_peers q)))"
    using pos t(2,3) unfolding q by (simp_all add: at_start_def fd_inv_def dkeys_def)
qed

lemma fd_connect_start:
  assumes "announced pp rs"
  shows "at_start (fd_connect k rnd pp rs) rs" "same_plan (snd (fd_init k rnd pp)) (fd_connect k rnd pp rs)"
  using add_readers_at_start [OF fd_init_start(1) [OF assms refl, of k rnd], of rs] fd_init_start(3) [OF assms refl, of k rnd] assms
  by (simp_all add: fd_connect_def announced_def)

lemma fd_connect_fields:
  assumes "announced pp rs" and q_def: "q = fd_connect k rnd pp rs"
  shows "fd_inv q" "fd_kind q = k" "fd_nbr_peers q = int (length rs)" "fd_nbr_peers q = int (length (fd_readers q))"
    "fd_turn_pos q = 0" "set (fd_readers q) = set rs"
  using fd_connect_start [OF assms(1), of k rnd] fd_init_start [OF assms(1) refl, of k rnd]
  by (simp_all add: q_def at_start_def same_plan_def)

lemma fd_connect_ready:
  assumes "announced pp rs"
  shows "fd_ready (fd_connect k rnd pp rs)"
proof -
  have "uses_turn k \<longrightarrow> turn_planned (fd_connect k rnd pp rs)"
    using fd_connect_start(2) [OF assms, of k rnd] fd_init_start(6) [OF assms refl, of k rnd]
    by (auto simp: turn_planned_def same_plan_def split: option.splits)
  then show ?thesis
    using fd_connect_fields [OF assms refl, of k rnd] turn_planned_ok by (auto simp: fd_ready_def)
qed

lemma fd_connect_pending: "announced pp rs \<Longrightarrow> r \<in> set rs \<Longrightarrow>
  fd_pending (fd_connect k rnd pp rs) r = [] \<and> fd_peeked (fd_connect k rnd pp rs) r = 0"
  using fd_connect_start(1) [of pp rs k rnd] fd_inv_pos [of "fd_connect k rnd pp rs" r]
  by (auto simp: at_start_def fd_pending_def fd_peeked_def)

lemma fd_connect_sched:
  assumes "announced pp rs" "k \<in> {OrderedK, RoundRobinK}"
  shows "rr_sched (fd_connect k rnd pp rs) 0"
proof -
  let ?i = "snd (fd_init k rnd pp)" and ?q = "fd_connect k rnd pp rs"
  note i = fd_init_start [OF assms(1) refl, of k rnd]
  have "0 < fd_nbr_peers ?i" using assms(1) i(3) by (simp add: announced_def)
  then have "take (nat (fd_N ?i)) (alternating (fd_N ?i) (fd_nbr_peers ?i)) ! nat j = j mod fd_nbr_peers ?i"
    if "0 \<le> j" "j < fd_N ?i" for j
    using that i(5) by (subst alternating_take_nth) auto
  then show ?thesis
    using i(4,7) assms(2) fd_connect_start(2) [OF assms(1), of k rnd] by (auto simp: rr_sched_def same_plan_def)
qed

text \<open>A port order that names the readers once each only renumbers them; any other is refused.\<close>

lemma fd_order_cases:
  assumes "distinct order"
  shows "snd (fd_set_port_order q order) = q
    \<or> set order = set (fd_readers q) \<and> snd (fd_set_port_order q order) = q\<lparr>fd_readers := order, fd_is_ordered := True\<rparr>"
  by (simp add: fd_set_port_order_def)

section \<open>Runs\<close>

text \<open>
  The operations of an actor and the reading ports; the log keeps the accepted tokens and, per
  reader, what it peeked since its last commit or cancel and what it committed.  \<open>m\<close> is the id
  of the port that owns the queue.
\<close>

datatype disp_op = DWrite token | DPeek string | DCommit string | DCancel string

record disp_log =
  dl_queue :: fanout_disp
  dl_accepted :: "token list"
  dl_taken :: "string \<Rightarrow> token list"
  dl_consumed :: "string \<Rightarrow> token list"

fun disp_step :: "string \<Rightarrow> disp_op \<Rightarrow> disp_log \<Rightarrow> disp_log" where
  "disp_step m (DWrite d) l =
     (case fd_write (dl_queue l) d m of
        (Inr _, q) \<Rightarrow> l\<lparr>dl_queue := q, dl_accepted := dl_accepted l @ [d]\<rparr>
      | (Inl _, q) \<Rightarrow> l\<lparr>dl_queue := q\<rparr>)"
| "disp_step m (DPeek r) l =
     (case fd_peek (dl_queue l) r of
        (Inr t, q) \<Rightarrow> l\<lparr>dl_queue := q, dl_taken := (dl_taken l)(r := dl_taken l r @ [t])\<rparr>
      | (Inl _, q) \<Rightarrow> l\<lparr>dl_queue := q\<rparr>)"
| "disp_step m (DCommit r) l =
     (case fd_commit (dl_queue l) r of
        (Inr _, q) \<Rightarrow> l\<lparr>dl_queue := q, dl_consumed := (dl_consumed l)(r := dl_consumed l r @ dl_taken l r),
                         dl_taken := (dl_taken l)(r := [])\<rparr>
      | (Inl _, q) \<Rightarrow> l\<lparr>dl_queue := q\<rparr>)"
| "disp_step m (DCancel r) l =
     (case fd_cancel (dl_queue l) r of
        (Inr _, q) \<Rightarrow> l\<lparr>dl_queue := q, dl_taken := (dl_taken l)(r := [])\<rparr>
      | (Inl _, q) \<Rightarrow> l\<lparr>dl_queue := q\<rparr>)"

definition disp_run :: "string \<Rightarrow> disp_op list \<Rightarrow> fanout_disp \<Rightarrow> disp_log" where
  "disp_run m ops q =
     fold (disp_step m) ops \<lparr>dl_queue = q, dl_accepted = [], dl_taken = (\<lambda>r. []), dl_consumed = (\<lambda>r. [])\<rparr>"

fun disp_known :: "string list \<Rightarrow> disp_op \<Rightarrow> bool" where
  "disp_known rs (DWrite d) = True"
| "disp_known rs (DPeek r) = (r \<in> set rs)"
| "disp_known rs (DCommit r) = (r \<in> set rs)"
| "disp_known rs (DCancel r) = (r \<in> set rs)"

text \<open>Reader number \<open>p\<close> has committed and pending exactly its share of the accepted tokens.\<close>

definition dealt :: "fanout_disp \<Rightarrow> disp_log \<Rightarrow> bool" where
  "dealt q0 l \<longleftrightarrow> fd_ready (dl_queue l) \<and> rr_sched (dl_queue l) (int (length (dl_accepted l)))
     \<and> fd_kind (dl_queue l) = fd_kind q0 \<and> fd_readers (dl_queue l) = fd_readers q0
     \<and> (\<forall>r \<in> set (fd_readers q0). dl_taken l r = take (fd_peeked (dl_queue l) r) (fd_pending (dl_queue l) r))
     \<and> (\<forall>i < length (fd_readers q0).
          dl_consumed l (fd_readers q0 ! i) @ fd_pending (dl_queue l) (fd_readers q0 ! i)
          = turn_share 0 (int (length (fd_readers q0))) (int i) (dl_accepted l))"

lemma fd_take_nth:
  assumes "fd_inv q" "r \<in> set (fd_readers q)" "dval (fd_tentative q) r < dval (fd_write_pos q) r"
  shows "take (Suc (fd_peeked q r)) (fd_pending q r)
    = take (fd_peeked q r) (fd_pending q r) @ [ring_get (fd_N q) (the (dget (fd_fifo q) r)) (dval (fd_tentative q) r)]"
proof -
  note pos = fd_inv_pos [OF assms(1,2)]
  have lt: "fd_peeked q r < length (fd_pending q r)" using pos assms(3) by (simp add: fd_peeked_def fd_pending_def)
  have "fd_pending q r ! fd_peeked q r = ring_get (fd_N q) (the (dget (fd_fifo q) r)) (dval (fd_tentative q) r)"
    using pos assms(3) by (simp add: fd_pending_def fd_peeked_def ring_slice_nth)
  with lt show ?thesis by (simp add: take_Suc_conv_app_nth)
qed

lemma fd_peeked_le: "fd_inv q \<Longrightarrow> r \<in> set (fd_readers q) \<Longrightarrow> fd_peeked q r \<le> length (fd_pending q r)"
  using fds.peeked_le [of q r] by (simp add: fd_reader_def)

lemma rr_sched_reads [simp]:
  "rr_sched (q\<lparr>fd_tentative := x\<rparr>) s = rr_sched q s" "rr_sched (q\<lparr>fd_read_pos := x\<rparr>) s = rr_sched q s"
  by (simp_all add: rr_sched_def)

lemma fd_pending_tentative [simp]: "fd_pending (q\<lparr>fd_tentative := x\<rparr>) r = fd_pending q r"
  by (simp add: fd_pending_def)

lemma dealt_write:
  assumes l: "dealt q0 l" and kind: "fd_kind q0 \<in> {OrderedK, RoundRobinK}"
  shows "dealt q0 (disp_step m (DWrite d) l)"
proof -
  let ?q = "dl_queue l" and ?k = "int (length (fd_readers q0))" and ?s = "int (length (dl_accepted l))"
  have q: "fd_ready ?q" "rr_sched ?q ?s" "fd_kind ?q \<in> {OrderedK, RoundRobinK}" "fd_readers ?q = fd_readers q0"
    using l kind by (simp_all add: dealt_def)
  then have inv: "fd_inv ?q" and ok: "turn_ok ?q" by (auto simp: fd_ready_def uses_turn_def)
  then have n: "fd_nbr_peers ?q = ?k" and dist: "distinct (fd_readers q0)"
    using q(4) by (simp_all add: turn_ok_def fd_inv_def)
  have w: "fd_write ?q d m = fd_write_turn ?q d" using q(3) by (intro fd_write_kinds(2)) auto
  obtain p q1 where p: "fd_same ?q q1"
    "fd_write_turn ?q d = (if 0 < fd_free ?q p then (Inr True, fd_pushed q1 p d) else (Inl QueueFull, ?q))"
    using fd_write_turn_cases [OF inv ok] by blast
  show ?thesis
  proof (cases "0 < fd_free ?q p")
    case False
    then show ?thesis using l w p(2) by (simp add: dealt_def)
  next
    case True
    let ?q' = "fd_pushed q1 p d"
    have wr: "fd_write ?q d m = (Inr True, ?q')" using w p(2) True by simp
    note step = rr_write [OF q(1-3) wr]
    have k: "0 < ?k" using next_reader_ok [OF inv ok] q(4) by auto
    have idx: "fd_readers q0 ! i = fd_readers q0 ! nat (?s mod ?k) \<longleftrightarrow> ?s mod ?k = int i"
      if "i < length (fd_readers q0)" for i
    proof -
      have "0 \<le> ?s mod ?k" "?s mod ?k < ?k" using k by simp_all
      then show ?thesis using that dist by (subst nth_eq_iff_index_eq) auto
    qed
    have "fd_peeked ?q' r = fd_peeked ?q r" for r
      using p(1) by (simp add: fd_peeked_def fd_same_def fd_pushed_def)
    moreover have "fd_peeked ?q r \<le> length (fd_pending ?q r)" if "r \<in> set (fd_readers q0)" for r
      using fd_peeked_le [OF inv, of r] that q(4) by simp
    moreover have "rr_sched ?q' (1 + ?s)" using step by (simp add: add.commute)
    ultimately show ?thesis
      using l step wr n q(4) idx by (auto simp: dealt_def turn_share_snoc simp flip: append_assoc)
  qed
qed

lemma dealt_peek:
  assumes l: "dealt q0 l" and r: "r \<in> set (fd_readers q0)"
  shows "dealt q0 (disp_step m (DPeek r) l)"
proof -
  let ?q = "dl_queue l" and ?t = "dval (fd_tentative (dl_queue l)) r"
  have inv: "fd_inv ?q" and rq: "r \<in> set (fd_readers ?q)" using l r by (auto simp: dealt_def fd_ready_def)
  note pos = fd_inv_pos [OF inv rq]
  show ?thesis
  proof (cases "?t < dval (fd_write_pos ?q) r")
    case True
    let ?q' = "?q\<lparr>fd_tentative := dput r (?t + 1) (fd_tentative ?q)\<rparr>"
    have "fd_peeked ?q' r' = (if r' = r then Suc (fd_peeked ?q r) else fd_peeked ?q r')" for r'
      using pos by (auto simp: fd_peeked_def)
    moreover have "fd_ready ?q'"
      by (rule fd_ready_tentative [OF fd_set_tentative_inv [OF inv rq]]) (use pos True l in \<open>auto simp: dealt_def\<close>)
    ultimately show ?thesis
      using l True fd_take_nth [OF inv rq True] by (auto simp: dealt_def fd_peek_cases [OF inv rq])
  qed (use l in \<open>simp add: fd_peek_cases [OF inv rq] dealt_def\<close>)
qed

lemma dealt_commit:
  assumes l: "dealt q0 l" and r: "r \<in> set (fd_readers q0)"
  shows "dealt q0 (disp_step m (DCommit r) l)"
proof -
  let ?q = "dl_queue l" and ?t = "dval (fd_tentative (dl_queue l)) r"
  have inv: "fd_inv ?q" and rq: "r \<in> set (fd_readers ?q)" using l r by (auto simp: dealt_def fd_ready_def)
  note pos = fd_inv_pos [OF inv rq]
  let ?q' = "?q\<lparr>fd_read_pos := dput r ?t (fd_read_pos ?q)\<rparr>"
  have c: "fd_commit ?q r = (Inr False, ?q')" using fd_inv_look [OF inv rq] by (simp add: fd_commit_def)
  have ready: "fd_ready ?q'"
    by (rule fd_ready_read_pos [OF fd_set_read_inv [OF inv rq]]) (use pos l in \<open>auto simp: dealt_def\<close>)
  have pend: "fd_pending ?q' r' = (if r' = r then drop (fd_peeked ?q r) (fd_pending ?q r) else fd_pending ?q r')" for r'
    using pos ring_slice_drop [of "dval (fd_read_pos ?q) r" ?t "fd_N ?q" "the (dget (fd_fifo ?q) r)" "dval (fd_write_pos ?q) r"]
    by (simp add: fd_pending_def fd_peeked_def)
  have pk: "fd_peeked ?q' r' = (if r' = r then 0 else fd_peeked ?q r')" for r' by (simp add: fd_peeked_def)
  show ?thesis using l ready by (auto simp: dealt_def c pend pk)
qed

lemma dealt_cancel:
  assumes l: "dealt q0 l" and r: "r \<in> set (fd_readers q0)"
  shows "dealt q0 (disp_step m (DCancel r) l)"
proof -
  let ?q = "dl_queue l"
  have inv: "fd_inv ?q" and rq: "r \<in> set (fd_readers ?q)" using l r by (auto simp: dealt_def fd_ready_def)
  note pos = fd_inv_pos [OF inv rq]
  let ?q' = "?q\<lparr>fd_tentative := dput r (dval (fd_read_pos ?q) r) (fd_tentative ?q)\<rparr>"
  have ready: "fd_ready ?q'"
    by (rule fd_ready_tentative [OF fd_set_tentative_inv [OF inv rq]]) (use pos l in \<open>auto simp: dealt_def\<close>)
  have pk: "fd_peeked ?q' r' = (if r' = r then 0 else fd_peeked ?q r')" for r' by (simp add: fd_peeked_def)
  show ?thesis using l ready by (auto simp: dealt_def fd_cancel_def fd_inv_look [OF inv rq] pk)
qed

lemma dealt_fold:
  "dealt q0 l \<Longrightarrow> fd_kind q0 \<in> {OrderedK, RoundRobinK} \<Longrightarrow> list_all (disp_known (fd_readers q0)) ops \<Longrightarrow>
   dealt q0 (fold (disp_step m) ops l)"
proof (induction ops arbitrary: l)
  case (Cons x ops)
  have "dealt q0 (disp_step m x l)"
    using Cons.prems dealt_write dealt_peek dealt_commit dealt_cancel
    by (cases x) (simp_all only: list.pred_inject disp_known.simps)
  with Cons show ?case by simp
qed simp

lemma dealt_run:
  assumes "announced pp rs" "k \<in> {OrderedK, RoundRobinK}" "distinct order"
    and q: "q = fd_connect k rnd pp rs \<or> q = snd (fd_set_port_order (fd_connect k rnd pp rs) order)"
    and "list_all (disp_known (fd_readers q)) ops"
  shows "dealt q (disp_run m ops q)"
proof -
  let ?q = "fd_connect k rnd pp rs"
  note f = fd_connect_fields [OF assms(1) refl, of k rnd]
  have ready: "fd_ready ?q" and sched: "rr_sched ?q 0"
    using fd_connect_ready [OF assms(1)] fd_connect_sched [OF assms(1,2)] by blast+
  have empty: "fd_pending ?q r = [] \<and> fd_peeked ?q r = 0" if "r \<in> set (fd_readers ?q)" for r
    using fd_connect_pending [OF assms(1), of r k rnd] that f(6) by simp
  let ?o = "?q\<lparr>fd_readers := order, fd_is_ordered := True\<rparr>"
  have "fd_ready ?o \<and> rr_sched ?o 0 \<and> fd_kind ?o = k \<and> (\<forall>r \<in> set order. fd_pending ?o r = [] \<and> fd_peeked ?o r = 0)"
    if o: "set order = set (fd_readers ?q)"
  proof -
    have len: "length order = length (fd_readers ?q)"
      using o assms(3) f(1) by (metis distinct_card fd_inv_def)
    have "fd_inv ?o" using f(1) o assms(3) by (simp add: fd_inv_def)
    moreover have "turn_ok ?o = turn_ok ?q" by (simp add: turn_ok_def len split: option.splits)
    moreover have "rr_sched ?o 0 = rr_sched ?q 0" by (simp add: rr_sched_def)
    ultimately show ?thesis
      using ready sched f(2) empty o by (auto simp: fd_ready_def fd_pending_def fd_peeked_def)
  qed
  then have "fd_ready q \<and> rr_sched q 0 \<and> fd_kind q = k \<and> (\<forall>r \<in> set (fd_readers q). fd_pending q r = [] \<and> fd_peeked q r = 0)"
    using q fd_order_cases [OF assms(3), of ?q] ready sched f(2) empty by (elim disjE) auto
  then show ?thesis
    unfolding disp_run_def using assms(2,5) by (intro dealt_fold) (simp_all add: dealt_def)
qed

end
