(* ===== verification/Fanout_Properties.thy ===== *)
theory Fanout_Properties
  imports Dispatch_Runs
begin

text \<open>
  What the outport queues guarantee, over whole sequences of operations: \<open>FanoutFIFO\<close>
  hands every reader the written tokens once and in order, its guard counts the free slots,
  the tokens of a disconnected reader arrive at the peer, its serialised state restores it; the
  dispatching queues send each token to one reader, in turn where they are ordered.
\<close>

section \<open>Runs of a FanoutFIFO\<close>

text \<open>
  The operations an actor and the reading ports perform.  The log keeps what was accepted by
  \<open>write\<close> and, per reader, what was peeked since its last commit or cancel and what it
  committed.  An operation that raises changes neither the queue nor the log.
\<close>

datatype fifo_op = OWrite token | OPeek string | OCommit string | OCancel string

record fifo_log =
  lg_queue :: fanout_fifo
  lg_written :: "token list"
  lg_taken :: "string \<Rightarrow> token list"
  lg_consumed :: "string \<Rightarrow> token list"

fun log_step :: "fifo_op \<Rightarrow> fifo_log \<Rightarrow> fifo_log" where
  "log_step (OWrite d) l =
     (case ff_write (lg_queue l) d of
        (Inr _, q) \<Rightarrow> l\<lparr>lg_queue := q, lg_written := lg_written l @ [d]\<rparr>
      | (Inl _, q) \<Rightarrow> l\<lparr>lg_queue := q\<rparr>)"
| "log_step (OPeek r) l =
     (case ff_peek (lg_queue l) r of
        (Inr t, q) \<Rightarrow> l\<lparr>lg_queue := q, lg_taken := (lg_taken l)(r := lg_taken l r @ [t])\<rparr>
      | (Inl _, q) \<Rightarrow> l\<lparr>lg_queue := q\<rparr>)"
| "log_step (OCommit r) l =
     (case ff_commit (lg_queue l) r of
        (Inr _, q) \<Rightarrow> l\<lparr>lg_queue := q, lg_consumed := (lg_consumed l)(r := lg_consumed l r @ lg_taken l r),
                         lg_taken := (lg_taken l)(r := [])\<rparr>
      | (Inl _, q) \<Rightarrow> l\<lparr>lg_queue := q\<rparr>)"
| "log_step (OCancel r) l =
     (case ff_cancel (lg_queue l) r of
        (Inr _, q) \<Rightarrow> l\<lparr>lg_queue := q, lg_taken := (lg_taken l)(r := [])\<rparr>
      | (Inl _, q) \<Rightarrow> l\<lparr>lg_queue := q\<rparr>)"

definition log_start :: "fanout_fifo \<Rightarrow> fifo_log" where
  "log_start q = \<lparr>lg_queue = q, lg_written = [], lg_taken = (\<lambda>r. take (ff_peeked q r) (ff_pending q r)),
                  lg_consumed = (\<lambda>r. [])\<rparr>"

definition log_run :: "fifo_op list \<Rightarrow> fanout_fifo \<Rightarrow> fifo_log" where
  "log_run ops q = fold log_step ops (log_start q)"

text \<open>The operations name connected readers.\<close>

fun op_known :: "string list \<Rightarrow> fifo_op \<Rightarrow> bool" where
  "op_known rs (OWrite d) = True"
| "op_known rs (OPeek r) = (r \<in> set rs)"
| "op_known rs (OCommit r) = (r \<in> set rs)"
| "op_known rs (OCancel r) = (r \<in> set rs)"

definition log_inv :: "fanout_fifo \<Rightarrow> fifo_log \<Rightarrow> bool" where
  "log_inv q0 l \<longleftrightarrow> ff_inv (lg_queue l) \<and> ff_readers (lg_queue l) = ff_readers q0
     \<and> ff_exhausted (lg_queue l) = [] \<and> ff_termination (lg_queue l) = []
     \<and> (\<forall>r \<in> set (ff_readers q0).
          lg_taken l r = take (ff_peeked (lg_queue l) r) (ff_pending (lg_queue l) r)
          \<and> ff_pending q0 r @ lg_written l = lg_consumed l r @ ff_pending (lg_queue l) r)"

lemma ff_peeked_le: "ff_inv q \<Longrightarrow> r \<in> set (ff_readers q) \<Longrightarrow> ff_peeked q r \<le> length (ff_pending q r)"
  using ffs.peeked_le [of q r] by (simp add: ff_reader_def)

lemma log_inv_start:
  "ff_inv q \<Longrightarrow> ff_exhausted q = [] \<Longrightarrow> ff_termination q = [] \<Longrightarrow> log_inv q (log_start q)"
  by (simp add: log_inv_def log_start_def)

lemma log_write_inv:
  assumes "log_inv q0 l" shows "log_inv q0 (log_step (OWrite d) l)"
proof -
  let ?q = "lg_queue l"
  have inv: "ff_inv ?q" and rs: "ff_readers ?q = ff_readers q0" using assms by (simp_all add: log_inv_def)
  have pk: "ff_peeked (ff_pushed ?q d) r = ff_peeked ?q r" for r by (simp add: ff_peeked_def)
  show ?thesis
  proof (cases "ff_slots_available ?q 1")
    case True
    then show ?thesis
      using assms ff_pushed_inv [OF inv True, of d] ff_pushed_pending [OF inv True, of _ d] ff_peeked_le [OF inv]
      by (auto simp: log_inv_def ff_write_eq rs pk)
  next
    case False
    then show ?thesis using assms by (simp add: ff_write_eq log_inv_def)
  qed
qed

lemma ff_pending_tentative [simp]: "ff_pending (q\<lparr>ff_tentative := x\<rparr>) r = ff_pending q r"
  by (simp add: ff_pending_def)

lemma take_nth_ring:
  assumes "ff_inv q" "r \<in> set (ff_readers q)" "dval (ff_tentative q) r < ff_write_pos q"
  shows "take (Suc (ff_peeked q r)) (ff_pending q r)
    = take (ff_peeked q r) (ff_pending q r) @ [ring_get (ff_N q) (ff_fifo q) (dval (ff_tentative q) r)]"
proof -
  note pos = ff_inv_pos [OF assms(1,2)]
  have lt: "ff_peeked q r < length (ff_pending q r)"
    using pos assms by (simp add: ff_peeked_def ff_length_pending)
  have "ff_pending q r ! ff_peeked q r = ring_get (ff_N q) (ff_fifo q) (dval (ff_tentative q) r)"
    using pos assms by (simp add: ff_pending_def ff_peeked_def ring_slice_nth)
  with lt show ?thesis by (simp add: take_Suc_conv_app_nth)
qed

lemma log_peek_inv:
  assumes l: "log_inv q0 l" and r: "r \<in> set (ff_readers q0)"
  shows "log_inv q0 (log_step (OPeek r) l)"
proof -
  let ?q = "lg_queue l" and ?t = "dval (ff_tentative (lg_queue l)) r"
  have inv: "ff_inv ?q" and rs: "ff_readers ?q = ff_readers q0" using l by (simp_all add: log_inv_def)
  have rq: "r \<in> set (ff_readers ?q)" using r rs by simp
  note pos = ff_inv_pos [OF inv rq]
  show ?thesis
  proof (cases "?t < ff_write_pos ?q")
    case True
    let ?q' = "?q\<lparr>ff_tentative := dput r (?t + 1) (ff_tentative ?q)\<rparr>"
    have "ff_peeked ?q' r' = (if r' = r then Suc (ff_peeked ?q r) else ff_peeked ?q r')" for r'
      using pos by (auto simp: ff_peeked_def)
    then show ?thesis
      using l True ff_set_tentative_inv [OF inv rq, of "?t + 1"] pos take_nth_ring [OF inv rq True]
      by (auto simp: log_inv_def ff_peek_cases [OF inv rq])
  qed (use l in \<open>simp add: ff_peek_cases [OF inv rq] log_inv_def\<close>)
qed

lemma log_commit_inv:
  assumes l: "log_inv q0 l" and r: "r \<in> set (ff_readers q0)"
  shows "log_inv q0 (log_step (OCommit r) l)"
proof -
  let ?q = "lg_queue l" and ?t = "dval (ff_tentative (lg_queue l)) r"
  have inv: "ff_inv ?q" and rs: "ff_readers ?q = ff_readers q0" and none: "ff_exhausted ?q = []" "ff_termination ?q = []"
    using l by (simp_all add: log_inv_def)
  have rq: "r \<in> set (ff_readers ?q)" using r rs by simp
  note pos = ff_inv_pos [OF inv rq]
  let ?q' = "?q\<lparr>ff_read_pos := dput r ?t (ff_read_pos ?q), ff_exhausted := []\<rparr>"
  have c: "ff_commit ?q r = (Inr False, ?q')" by (rule ff_commit_plain [OF inv rq none])
  have inv': "ff_inv ?q'" using ff_set_read_inv [OF inv rq, of ?t] pos by simp
  have pend: "ff_pending ?q' r' = (if r' = r then drop (ff_peeked ?q r) (ff_pending ?q r) else ff_pending ?q r')" for r'
    using pos ring_slice_drop [of "dval (ff_read_pos ?q) r" ?t "ff_N ?q" "ff_fifo ?q" "ff_write_pos ?q"]
    by (simp add: ff_pending_def ff_peeked_def)
  have pk: "ff_peeked ?q' r' = (if r' = r then 0 else ff_peeked ?q r')" for r'
    by (simp add: ff_peeked_def)
  show ?thesis
    using l inv' none by (auto simp: log_inv_def c pend pk)
qed

lemma log_cancel_inv:
  assumes l: "log_inv q0 l" and r: "r \<in> set (ff_readers q0)"
  shows "log_inv q0 (log_step (OCancel r) l)"
proof -
  let ?q = "lg_queue l"
  have inv: "ff_inv ?q" and rs: "ff_readers ?q = ff_readers q0" using l by (simp_all add: log_inv_def)
  have rq: "r \<in> set (ff_readers ?q)" using r rs by simp
  note pos = ff_inv_pos [OF inv rq]
  let ?q' = "?q\<lparr>ff_tentative := dput r (dval (ff_read_pos ?q) r) (ff_tentative ?q)\<rparr>"
  have inv': "ff_inv ?q'" by (rule ff_set_tentative_inv [OF inv rq]) (use pos in auto)
  have pk: "ff_peeked ?q' r' = (if r' = r then 0 else ff_peeked ?q r')" for r'
    by (simp add: ff_peeked_def)
  show ?thesis
    using l inv' by (auto simp: log_inv_def ff_cancel_def ff_inv_look [OF inv rq] pk)
qed

lemma log_step_inv: "log_inv q0 l \<Longrightarrow> op_known (ff_readers q0) o1 \<Longrightarrow> log_inv q0 (log_step o1 l)"
  by (cases o1) (simp_all only: op_known.simps log_write_inv log_peek_inv log_commit_inv log_cancel_inv)

lemma log_fold_inv: "log_inv q0 l \<Longrightarrow> list_all (op_known (ff_readers q0)) ops \<Longrightarrow> log_inv q0 (fold log_step ops l)"
  by (induction ops arbitrary: l) (simp_all add: log_step_inv del: log_step.simps)

lemma log_run_inv:
  "ff_inv q \<Longrightarrow> ff_exhausted q = [] \<Longrightarrow> ff_termination q = [] \<Longrightarrow> list_all (op_known (ff_readers q)) ops \<Longrightarrow>
   log_inv q (log_run ops q)"
  unfolding log_run_def by (rule log_fold_inv) (simp_all add: log_inv_start)

section \<open>Sequences of writes and transfers\<close>

fun ff_write_all :: "fanout_fifo \<Rightarrow> token list \<Rightarrow> (bool, fanout_fifo) out" where
  "ff_write_all q [] = (Inr True, q)"
| "ff_write_all q (d # ds) = and_then (ff_write q d) (\<lambda>_ q1. ff_write_all q1 ds)"

lemma ff_slots_pushed:
  assumes "ff_inv q" "ff_readers q \<noteq> []" "ff_slots_available q 1"
  shows "ff_slots_available (ff_pushed q d) n = ff_slots_available q (n + 1)"
  using ff_slots_iff [OF ff_pushed_inv [OF assms(1,3), of d]] ff_slots_iff [OF assms(1,2)] assms(2)
  by (auto simp: algebra_simps)

lemma ff_slots_mono: "ff_slots_available q n \<Longrightarrow> m \<le> n \<Longrightarrow> ff_slots_available q m"
  by (simp add: ff_slots_available_def Let_def)

lemma ff_slots_0: "ff_inv q \<Longrightarrow> ff_slots_available q 0"
  by (simp add: ff_slots_available_def Let_def ff_inv_def ring_ok_def)

lemma ff_write_all_iff:
  "ff_inv q \<Longrightarrow> ff_readers q \<noteq> [] \<Longrightarrow>
   (\<exists>q'. ff_write_all q ds = (Inr True, q')) \<longleftrightarrow> ff_slots_available q (int (length ds))"
proof (induction ds arbitrary: q)
  case (Cons d ds)
  show ?case
  proof (cases "ff_slots_available q 1")
    case True
    then show ?thesis
      using Cons.IH [of "ff_pushed q d"] Cons.prems ff_pushed_inv [OF Cons.prems(1) True]
        ff_slots_pushed [OF Cons.prems True]
      by (simp add: ff_write_eq algebra_simps)
  next
    case False
    then show ?thesis using ff_slots_mono [of q "int (length (d # ds))" 1] by (auto simp: ff_write_eq)
  qed
qed (simp add: ff_slots_0)

text \<open>
  The peer may already have received the first of the exhausted tokens: those are recognised by
  their position and dropped, the rest is appended.
\<close>

lemma ff_transfer_known:
  assumes "ff_slots_available q 1" "\<forall>(p, t) \<in> set old. p < ff_write_pos q"
  shows "ff_transfer q (old @ ts) = ff_transfer q ts"
  using assms by (induction old) (auto simp: ff_com_write_cases)

lemma ff_transfer_overlap:
  assumes inv: "ff_inv q" and pos: "map fst ts = [a..a + int (length ts) - 1]"
    and known: "a \<le> ff_write_pos q" "ff_write_pos q \<le> a + int (length ts)"
    and slot: "ff_slots_available q 1"
  shows "\<exists>k q'. let new = drop (nat (ff_write_pos q - a)) ts in
     ff_transfer q ts = (Inr (drop k new), q') \<and> ff_inv q'
     \<and> (\<forall>r \<in> set (ff_readers q). ff_pending q' r = ff_pending q r @ map snd (take k new))
     \<and> (k < length new \<longrightarrow> \<not> ff_slots_available q' 1)"
proof -
  let ?j = "nat (ff_write_pos q - a)" let ?new = "drop ?j ts"
  have split: "map fst ts = map fst (take ?j ts) @ map fst ?new" by (simp flip: map_append)
  have j: "?j \<le> length ts" using known by simp
  have "[a..a + int (length ts) - 1] = [a..ff_write_pos q - 1] @ [ff_write_pos q..a + int (length ts) - 1]"
    using known upto_split1 [of a "ff_write_pos q" "a + int (length ts) - 1"]
      upto_split2 [of a "ff_write_pos q - 1" "a + int (length ts) - 1"]
    by (cases "ff_write_pos q = a + int (length ts)") auto
  moreover have "length (map fst (take ?j ts)) = length [a..ff_write_pos q - 1]" using j by simp
  ultimately have fsts: "map fst (take ?j ts) = [a..ff_write_pos q - 1]"
    "map fst ?new = [ff_write_pos q..a + int (length ts) - 1]"
    using split pos append_eq_append_conv by metis+
  have old: "\<forall>(p, t) \<in> set (take ?j ts). p < ff_write_pos q"
  proof clarify
    fix p t assume "(p, t) \<in> set (take ?j ts)"
    then have "p \<in> set (map fst (take ?j ts))" by force
    then show "p < ff_write_pos q" using fsts(1) by simp
  qed
  have eq: "ff_transfer q ts = ff_transfer q ?new"
    using ff_transfer_known [OF slot old, of ?new] by simp
  have "map fst ?new = [ff_write_pos q..ff_write_pos q + int (length ?new) - 1]"
    using fsts(2) known by (simp add: of_nat_diff add.commute)
  from ff_transfer_seq [OF inv this] eq show ?thesis by (auto simp: Let_def)
qed

section \<open>Properties of FanoutFIFO\<close>

text \<open>
  C6: Over any sequence of write, peek, commit and cancel operations, with any number of readers
  connected, each reader has committed a prefix of exactly the tokens that were accepted by
  \<open>write\<close>, in order and without duplicates; the rest is still pending for it.  Cancelled
  reads are repeated, refused writes leave no trace.
\<close>
theorem fifo_each_reader_gets_all:
  assumes "ff_inv q" "ff_exhausted q = []" "ff_termination q = []"
    and "list_all (op_known (ff_readers q)) ops" "r \<in> set (ff_readers q)"
  shows "ff_pending q r @ lg_written (log_run ops q)
    = lg_consumed (log_run ops q) r @ ff_pending (lg_queue (log_run ops q)) r
    \<and> ff_inv (lg_queue (log_run ops q))"
  using log_run_inv [OF assms(1-4)] assms(5) by (simp add: log_inv_def)

definition sample_props :: port_props where
  "sample_props = \<lparr>pp_routing = None, pp_queue_length = Some 2, pp_direction = Some ''out'',
                   pp_nbr_peers = Some 2, pp_tag = None\<rparr>"

definition sample_fifo :: fanout_fifo where
  "sample_fifo = snd (ff_add_reader (snd (ff_add_reader (ff_init sample_props) ''a'')) ''b'')"

lemma sample_fifo_eq: "sample_fifo =
   \<lparr>ff_fifo = replicate 3 (Token (PInt 0)), ff_N = 3, ff_direction = Some ''out'', ff_nbr_peers = 2,
    ff_readers = [''a'', ''b''], ff_write_pos = 0, ff_read_pos = [(''a'', 0), (''b'', 0)],
    ff_tentative = [(''a'', 0), (''b'', 0)], ff_offset = [(''a'', 0), (''b'', 0)],
    ff_type = ''fanout_fifo'', ff_writer = None, ff_exhausted = [], ff_termination = []\<rparr>"
  by (simp add: sample_fifo_def ff_add_reader_def ff_init_def sample_props_def opt_default_def
      ff_start_reader_def dput_def)

lemma sample_fifo_inv: "ff_inv sample_fifo"
  by (simp add: sample_fifo_eq ff_inv_def ring_ok_def dval_def)

theorem fifo_each_reader_gets_all_witness:
  "lg_consumed (log_run [OWrite (Token (PInt 1)), OPeek ''a'', OCancel ''a'', OPeek ''a'', OCommit ''a''] sample_fifo) ''a''
     @ ff_pending (lg_queue (log_run [OWrite (Token (PInt 1)), OPeek ''a'', OCancel ''a'', OPeek ''a'', OCommit ''a'']
         sample_fifo)) ''a''
   = [Token (PInt 1)]"
proof -
  let ?ops = "[OWrite (Token (PInt 1)), OPeek ''a'', OCancel ''a'', OPeek ''a'', OCommit ''a'']"
  have w: "lg_written (log_run ?ops sample_fifo) = [Token (PInt 1)]" by code_simp
  have p: "ff_pending sample_fifo ''a'' = []" by (simp add: sample_fifo_eq ff_pending_def dval_def)
  show ?thesis
    using fifo_each_reader_gets_all [OF sample_fifo_inv, of ?ops "''a''"] w p
    by (simp add: sample_fifo_eq)
qed

text \<open>
  The guard counts: with at least one reader, \<open>slots_available(n)\<close> holds exactly when
  \<open>n\<close> writes in a row succeed, for every \<open>n\<close> and every position of the ring.
\<close>
theorem slots_available_counts_writes:
  assumes "ff_inv q" "ff_readers q \<noteq> []"
  shows "(\<exists>q'. ff_write_all q ds = (Inr True, q')) \<longleftrightarrow> ff_slots_available q (int (length ds))"
  using ff_write_all_iff [OF assms] .

theorem slots_available_counts_writes_witness:
  "(\<exists>q'. ff_write_all sample_fifo [Token (PInt 1), Token (PInt 2)] = (Inr True, q'))
   \<and> \<not> (\<exists>q'. ff_write_all sample_fifo [Token (PInt 1), Token (PInt 2), Token (PInt 3)] = (Inr True, q'))"
  using slots_available_counts_writes [OF sample_fifo_inv, of "[Token (PInt 1), Token (PInt 2)]"]
    slots_available_counts_writes [OF sample_fifo_inv, of "[Token (PInt 1), Token (PInt 2), Token (PInt 3)]"]
  by (simp add: sample_fifo_eq ff_slots_available_def Let_def min_values_def)

text \<open>
  C12: When an outport reader without offset is exhausted, the tokens handed over are exactly its
  uncommitted ones with their positions, and an inport queue that already holds the first of them
  appends precisely the missing ones, in order, keeping back (also in order) what does not fit.
\<close>
theorem exhausted_tokens_arrive:
  assumes "ff_inv q" "r \<in> set (ff_readers q)" "d \<in> {EXHAUST_PEER_SEND, EXHAUST_OUTPORT}"
    and "ff_exhaust q r d = (Inr ts, q1)"
    and "ff_inv i" "ff_readers i = [port]" "ff_slots_available i 1"
    and "dval (ff_read_pos q) r \<le> ff_write_pos i" "ff_write_pos i \<le> ff_write_pos q"
  shows "\<exists>k i'. let missing = drop (nat (ff_write_pos i - dval (ff_read_pos q) r)) ts in
     ff_transfer i ts = (Inr (drop k missing), i') \<and> ff_inv i'
     \<and> map snd ts = ff_pending q r
     \<and> ff_pending i' port = ff_pending i port @ map snd (take k missing)
     \<and> (k < length missing \<longrightarrow> \<not> ff_slots_available i' 1)"
proof -
  let ?a = "dval (ff_read_pos q) r"
  have ts: "map snd ts = ff_pending q r" "map fst ts = [?a..?a + int (length ts) - 1]"
    using ff_exhaust_tokens [OF assms(1-3)] assms(4) by auto
  have "length ts = nat (ff_write_pos q - ?a)"
    using arg_cong [OF ts(1), of length] ff_length_pending [OF assms(1,2)] by simp
  then have "ff_write_pos i \<le> ?a + int (length ts)" using assms(8,9) by simp
  from ff_transfer_overlap [OF assms(5) ts(2) assms(8) this assms(7)] ts(1) assms(6)
  show ?thesis by (auto simp: Let_def)
qed

definition sample_inport :: fanout_fifo where
  "sample_inport = snd (ff_add_reader (ff_init (sample_props\<lparr>pp_direction := Some ''in'', pp_nbr_peers := Some 1\<rparr>)) ''p'')"

lemma sample_inport_eq: "sample_inport =
   \<lparr>ff_fifo = replicate 3 (Token (PInt 0)), ff_N = 3, ff_direction = Some ''in'', ff_nbr_peers = 1,
    ff_readers = [''p''], ff_write_pos = 0, ff_read_pos = [(''p'', 0)],
    ff_tentative = [(''p'', 0)], ff_offset = [(''p'', 0)],
    ff_type = ''fanout_fifo'', ff_writer = None, ff_exhausted = [], ff_termination = []\<rparr>"
  by (simp add: sample_inport_def ff_add_reader_def ff_init_def sample_props_def opt_default_def
      ff_start_reader_def dput_def)

lemma sample_inport_inv: "ff_inv sample_inport"
  by (simp add: sample_inport_eq ff_inv_def ring_ok_def dval_def)

definition sample_written :: fanout_fifo where
  "sample_written = snd (ff_write sample_fifo (Token (PInt 7)))"

lemma sample_written_inv: "ff_inv sample_written"
  using ff_pushed_inv [OF sample_fifo_inv, of "Token (PInt 7)"]
  by (simp add: sample_written_def ff_write_eq sample_fifo_eq ff_slots_available_def Let_def min_values_def)

theorem exhausted_tokens_arrive_witness:
  "\<exists>k i'. let missing = drop (nat (0 - 0)) [(0, Token (PInt 7))] in
     ff_transfer sample_inport [(0, Token (PInt 7))] = (Inr (drop k missing), i')
     \<and> ff_pending i' ''p'' = ff_pending sample_inport ''p'' @ map snd (take k missing)"
proof -
  have ex: "ff_exhaust sample_written ''a'' EXHAUST_OUTPORT
      = (Inr [(0, Token (PInt 7))], snd (ff_exhaust sample_written ''a'' EXHAUST_OUTPORT))" by code_simp
  have rd: "''a'' \<in> set (ff_readers sample_written)" "dval (ff_read_pos sample_written) ''a'' = 0"
    "ff_write_pos sample_written = 1" by code_simp+
  have i: "ff_readers sample_inport = [''p'']" "ff_slots_available sample_inport 1" "ff_write_pos sample_inport = 0"
    by code_simp+
  from exhausted_tokens_arrive [OF sample_written_inv rd(1) _ ex sample_inport_inv i(1,2)] show ?thesis
    by (simp add: rd i Let_def) blast
qed

text \<open>
  Exhausting a reader that joined late loses tokens: \<open>exhaust\<close> numbers the tokens by the
  raw ring positions, while \<open>com_peek\<close> had numbered them relative to the offset of the reader.
  If the peer has received everything that was committed, every handed over token has a position
  beyond the one the peer expects, and the peer drops them all.
\<close>
theorem exhausted_tokens_of_late_reader_lost:
  assumes "ff_inv q" "r \<in> set (ff_readers q)" "d \<in> {EXHAUST_PEER_SEND, EXHAUST_OUTPORT}"
    and "ff_exhaust q r d = (Inr ts, q1)" and "0 < dval (ff_offset q) r"
    and "ff_slots_available i 1" "ff_write_pos i = ff_base q r"
  shows "ff_transfer i ts = (Inr [], i) \<and> map snd ts = ff_pending q r"
proof -
  let ?a = "dval (ff_read_pos q) r"
  have ts: "map snd ts = ff_pending q r" "map fst ts = [?a..?a + int (length ts) - 1]"
    using ff_exhaust_tokens [OF assms(1-3)] assms(4) by auto
  have "\<forall>(p, t) \<in> set ts. p \<noteq> ff_write_pos i"
  proof clarify
    fix t assume "(ff_write_pos i, t) \<in> set ts"
    then have "ff_write_pos i \<in> set (map fst ts)" by force
    then show False using ts(2) assms(5,7) by (simp add: ff_base_def)
  qed
  then show ?thesis using ff_transfer_dropped [OF assms(6)] ts(1) by blast
qed

text \<open>A queue of one reader, in which a second one joins after the first has committed a token.\<close>

definition sample_late :: fanout_fifo where
  "sample_late =
     (let q0 = ff_init (sample_props\<lparr>pp_nbr_peers := Some 1\<rparr>);
          q1 = snd (ff_write (snd (ff_add_reader q0 ''a'')) (Token (PInt 5)));
          q2 = snd (ff_commit (snd (ff_peek q1 ''a'')) ''a'');
          q3 = snd (ff_add_reader q2 ''b'')
      in snd (ff_write q3 (Token (PInt 6))))"

lemma sample_late_eq: "sample_late =
   \<lparr>ff_fifo = [Token (PInt 5), Token (PInt 6), Token (PInt 0)], ff_N = 3, ff_direction = Some ''out'',
    ff_nbr_peers = 2, ff_readers = [''a'', ''b''], ff_write_pos = 2, ff_read_pos = [(''a'', 1), (''b'', 1)],
    ff_tentative = [(''a'', 1), (''b'', 1)], ff_offset = [(''a'', 0), (''b'', 1)],
    ff_type = ''fanout_fifo'', ff_writer = None, ff_exhausted = [], ff_termination = []\<rparr>"
  by code_simp

lemma sample_late_inv: "ff_inv sample_late"
  by (simp add: sample_late_eq ff_inv_def ring_ok_def dval_def)

theorem exhausted_tokens_of_late_reader_lost_witness:
  "ff_transfer sample_inport [(1, Token (PInt 6))] = (Inr [], sample_inport)
   \<and> ff_pending sample_late ''b'' = [Token (PInt 6)]"
proof -
  have ex: "ff_exhaust sample_late ''b'' EXHAUST_OUTPORT
      = (Inr [(1, Token (PInt 6))], snd (ff_exhaust sample_late ''b'' EXHAUST_OUTPORT))" by code_simp
  have "''b'' \<in> set (ff_readers sample_late)" "0 < dval (ff_offset sample_late) ''b''"
    "ff_slots_available sample_inport 1" "ff_write_pos sample_inport = ff_base sample_late ''b''"
    by code_simp+
  from exhausted_tokens_of_late_reader_lost [OF sample_late_inv this(1) _ ex this(2-4)]
  show ?thesis by auto
qed

text \<open>
  Connecting a reader to a queue whose readers have all been removed raises ValueError: the
  number of peers has gone down with them, so the reader counts as a late one and the oldest
  position of no reader is asked for.  The reader is left connected without positions, and the
  next \<open>tokens_available\<close> for it raises KeyError.
\<close>
theorem reconnect_after_last_reader_fails:
  assumes "ff_inv q" "ff_readers q = [r]" "ff_nbr_peers q = 1"
  shows "\<exists>q'. ff_add_reader (ff_remove_reader q r) s = (Inl ValueError, q')
    \<and> ff_tokens_available q' n s = Inl KeyError"
proof -
  have "dkeys (ff_read_pos q) = {r}" "dkeys (ff_tentative q) = {r}"
    "dict_ok (ff_read_pos q)" "dict_ok (ff_tentative q)"
    using assms by (simp_all add: ff_inv_def)
  then have "dkeys (ddel r (ff_read_pos q)) = {}" "dkeys (ddel r (ff_tentative q)) = {}" by simp_all
  then have "ddel r (ff_read_pos q) = []" "ddel r (ff_tentative q) = []"
    by (simp_all add: dkeys_def)
  then show ?thesis
    using assms(2,3) by (simp add: ff_remove_reader_def ff_add_reader_def ff_tokens_available_def Let_def dlook_def)
qed

theorem reconnect_after_last_reader_fails_witness:
  "\<exists>q'. ff_add_reader (ff_remove_reader sample_inport ''p'') ''p'' = (Inl ValueError, q')
    \<and> ff_tokens_available q' 1 ''p'' = Inl KeyError"
  by (rule reconnect_after_last_reader_fails [OF sample_inport_inv]) (simp_all add: sample_inport_eq)

text \<open>
  A second NACK for a bulk of sent tokens fails: cancelling sequence number \<open>i\<close> rolls the
  tentative position back to it, so cancelling any later number that was sent raises
  AttributeError, because the guard reads the attribute \<open>reader_pos\<close> which no queue has.
\<close>
theorem second_cancel_raises:
  assumes "ff_inv q" "r \<in> set (ff_readers q)" "i < ff_peeked q r" "i < j"
  shows "\<exists>q1. ff_com_cancel q r (ff_base q r + int i) = (Inr Handled, q1)
    \<and> ff_peeked q1 r = i \<and> ff_com_cancel q1 r (ff_base q r + int j) = (Inl (AttributeError ''reader_pos''), q1)"
proof -
  have rd: "ff_reader q r" using assms(2) by (simp add: ff_reader_def)
  obtain q1 where q1: "ff_com_cancel q r (ff_base q r + int i) = (Inr Handled, q1)" "ff_inv q1" "ff_reader q1 r"
    "ff_peeked q1 r = i" "ff_base q1 r = ff_base q r"
    using ffs.cancel_peeked [OF assms(1) rd assms(3)] by blast
  have "ff_com_cancel q1 r (ff_base q r + int j) = (Inl (AttributeError ''reader_pos''), q1)"
    by (rule ffs.cancel_beyond [OF q1(2,3)]) (use q1 assms(4) in simp)
  with q1 show ?thesis by blast
qed

definition sample_sent :: fanout_fifo where
  "sample_sent =
     (let q1 = snd (ff_write sample_fifo (Token (PInt 1)));
          q2 = snd (ff_write q1 (Token (PInt 2)))
      in snd (ff_com_peek (snd (ff_com_peek q2 ''a'')) ''a''))"

lemma sample_sent_eq: "sample_sent =
   \<lparr>ff_fifo = [Token (PInt 1), Token (PInt 2), Token (PInt 0)], ff_N = 3, ff_direction = Some ''out'', ff_nbr_peers = 2,
    ff_readers = [''a'', ''b''], ff_write_pos = 2, ff_read_pos = [(''a'', 0), (''b'', 0)],
    ff_tentative = [(''a'', 2), (''b'', 0)], ff_offset = [(''a'', 0), (''b'', 0)],
    ff_type = ''fanout_fifo'', ff_writer = None, ff_exhausted = [], ff_termination = []\<rparr>"
  by code_simp

lemma sample_sent_inv: "ff_inv sample_sent"
  by (simp add: sample_sent_eq ff_inv_def ring_ok_def dval_def)

theorem second_cancel_raises_witness:
  "\<exists>q1. ff_com_cancel sample_sent ''a'' 0 = (Inr Handled, q1)
    \<and> ff_com_cancel q1 ''a'' 1 = (Inl (AttributeError ''reader_pos''), q1)"
  using second_cancel_raises [OF sample_sent_inv, of "''a''" 0 1]
  by (auto simp: sample_sent_eq ff_peeked_def ff_base_def dval_def)

text \<open>
  A queue state that was serialised and is installed in a fresh queue object (as migration
  does) gives every reader the same pending, peeked and committed tokens and the same sequence
  numbers, accepts the same number of further tokens, and is well formed.
\<close>
theorem fifo_state_round_trip:
  assumes "ff_inv q"
  shows "\<exists>q'. ff_set_state (ff_init pp) (ff_get_state q) = (Inr (), q') \<and> ff_inv q'
    \<and> ff_readers q' = ff_readers q \<and> ff_write_pos q' = ff_write_pos q
    \<and> ff_get_state q' = ff_get_state q
    \<and> (\<forall>r. ff_pending q' r = ff_pending q r \<and> ff_peeked q' r = ff_peeked q r \<and> ff_base q' r = ff_base q r)
    \<and> (\<forall>n. ff_slots_available q' n = ff_slots_available q n)"
proof -
  have "remdups (ff_readers q) = ff_readers q" using assms by (simp add: ff_inv_def distinct_remdups_id)
  then show ?thesis
    using assms
    by (simp add: ff_set_state_def ff_get_state_def ff_init_def Let_def opt_default_def ff_inv_def
        ff_pending_def ff_peeked_def ff_base_def ff_slots_available_def)
qed

theorem fifo_state_round_trip_witness:
  "\<exists>q'. ff_set_state (ff_init sample_props) (ff_get_state sample_sent) = (Inr (), q')
    \<and> ff_pending q' ''a'' = [Token (PInt 1), Token (PInt 2)]"
proof -
  have p: "ff_pending sample_sent ''a'' = [Token (PInt 1), Token (PInt 2)]" by code_simp
  show ?thesis using fifo_state_round_trip [OF sample_sent_inv, of sample_props] p by auto
qed

section \<open>Properties of the dispatching queues\<close>

lemma fd_pushed_same_pending:
  assumes "fd_inv q" "fd_same q q1" "p \<in> set (fd_readers q)" "0 < fd_free q p"
  shows "fd_pending (fd_pushed q1 p v) r = (if r = p then fd_pending q p @ [v] else fd_pending q r)"
proof -
  have "fd_inv q1" "p \<in> set (fd_readers q1)" "0 < fd_free q1 p"
    using assms fd_same_inv [OF assms(2)] fd_same_views [OF assms(2)] by auto
  then show ?thesis using fd_pushed_pending [of q1 p v r] fd_same_views [OF assms(2)] by simp
qed

text \<open>
  C9: Let a dispatching queue of any of the five kinds be in working order: its positions consistent, the
  schedule of the ordered, round-robin and random kinds a full ring of numbers of connected readers,
  a mapping naming only readers (connecting the announced readers establishes this, and writing keeps
  it; removing a reader from an ordered queue can destroy it, and then nothing is claimed).  An
  accepted token is appended for exactly one reader, the one the routing rule designates in that
  state (the reader in turn, the reader with the most free slots, the reader the mapping names, with
  the value unwrapped), and nothing changes for the other readers.  A refused token leaves the queue
  as it was; it is refused when the designated reader has no free slot, in the mapped queue also when
  its value cannot be routed.  The token object itself is left alone except by the mapped queue, which
  has unwrapped it even when it refuses it.
\<close>
theorem dispatch_write_one_reader:
  assumes "fd_ready q" "mapping_ok q"
  shows "let d' = (if fd_kind q = MappedK then snd (fd_unwrap q d) else d) in
    (\<exists>p v q'. fd_write_token q d m = (Inr True, q', d') \<and> fd_target q d p v \<and> fd_ready q'
      \<and> (\<forall>r. fd_pending q' r = (if r = p then fd_pending q p @ [v] else fd_pending q r)))
    \<or> (\<exists>e. fd_write_token q d m = (Inl e, q, d')
      \<and> (fd_kind q \<noteq> MappedK \<longrightarrow> e = QueueFull \<and> (\<forall>p v. fd_target q d p v \<longrightarrow> fd_free q p = 0))
      \<and> (fd_kind q = MappedK \<longrightarrow> fst (fd_unwrap q d) = Inl e
          \<or> e = QueueFull \<and> (\<exists>p v. fd_target q d p v \<and> fd_free q p = 0)))"
proof -
  have inv: "fd_inv q" using assms(1) by (simp add: fd_ready_def)
  define d' where "d' = (if fd_kind q = MappedK then snd (fd_unwrap q d) else d)"
  have t: "fd_write_token q d m = (r, q', d')" if "fd_write q d m = (r, q')" for r q'
    using fd_write_token_eq [of q d m] that by (simp add: d'_def)
  from fd_write_cases [OF assms, of d m]
  have "(\<exists>p v q'. fd_write_token q d m = (Inr True, q', d') \<and> fd_target q d p v \<and> fd_ready q'
      \<and> (\<forall>r. fd_pending q' r = (if r = p then fd_pending q p @ [v] else fd_pending q r)))
    \<or> (\<exists>e. fd_write_token q d m = (Inl e, q, d')
      \<and> (fd_kind q \<noteq> MappedK \<longrightarrow> e = QueueFull \<and> (\<forall>p v. fd_target q d p v \<longrightarrow> fd_free q p = 0))
      \<and> (fd_kind q = MappedK \<longrightarrow> fst (fd_unwrap q d) = Inl e
          \<or> e = QueueFull \<and> (\<exists>p v. fd_target q d p v \<and> fd_free q p = 0)))"
  proof
    assume "\<exists>p v q1. fd_target q d p v \<and> 0 < fd_free q p \<and> fd_same q q1 \<and> fd_ready q1
        \<and> fd_write q d m = (Inr True, fd_pushed q1 p v)"
    then obtain p v q1 where *: "fd_target q d p v" "0 < fd_free q p" "fd_same q q1" "fd_ready q1"
      "fd_write q d m = (Inr True, fd_pushed q1 p v)" by blast
    have p: "p \<in> set (fd_readers q)" using *(1) by (simp add: fd_target_def)
    have "fd_ready (fd_pushed q1 p v)"
      by (rule fd_ready_pushed [OF *(4)]) (use p *(2) fd_same_views [OF *(3)] in auto)
    with * t [OF *(5)] fd_pushed_same_pending [OF inv *(3) p *(2)] show ?thesis by auto
  qed (use t in blast)
  then show ?thesis by (simp only: Let_def d'_def)
qed

definition sample_rr :: fanout_disp where
  "sample_rr = fd_add_reader (fd_add_reader (snd (fd_init RoundRobinK (\<lambda>n. n) sample_props)) ''b'') ''a''"

lemma sample_rr_eq: "sample_rr =
   \<lparr>fd_kind = RoundRobinK, fd_fifo = [(''b'', replicate 3 (Token (PInt 0))), (''a'', replicate 3 (Token (PInt 0)))],
    fd_nbr_peers = 2, fd_N = 3, fd_readers = [''a'', ''b''],
    fd_write_pos = [(''b'', 0), (''a'', 0)], fd_read_pos = [(''b'', 0), (''a'', 0)],
    fd_tentative = [(''b'', 0), (''a'', 0)], fd_type = Some ''dispatch:round-robin'',
    fd_reader_turn = Some [0, 1, 0], fd_turn_pos = 0, fd_is_ordered = False,
    fd_mapping = None, fd_rnd = (\<lambda>n. n), fd_draws = 0\<rparr>"
proof -
  have srt: "sort [''b'', ''a''] = [''a'', ''b'']" by code_simp
  have "insort ''a'' [''b''] = [''a'', ''b'']" using srt by simp
  moreover have "insort ''b'' [] = [''b'']" by simp
  moreover have "take 3 (alternating 3 2) = [0, 1, 0]" by code_simp
  ultimately show ?thesis
    by (simp add: sample_rr_def fd_init_def fd_set_turn_def sample_props_def opt_default_def
        fd_add_reader_def fd_base_add_reader_def dput_def Let_def)
qed

lemma sample_rr_ready: "fd_ready sample_rr" "mapping_ok sample_rr"
  by (auto simp: sample_rr_eq fd_ready_def fd_inv_def ring_ok_def dval_def turn_ok_def mapping_ok_def)

theorem dispatch_write_one_reader_witness:
  "\<exists>p v q'. fd_write_token sample_rr (Token (PInt 3)) ''out'' = (Inr True, q', Token (PInt 3))
    \<and> fd_target sample_rr (Token (PInt 3)) p v"
proof -
  have "fd_write_token sample_rr (Token (PInt 3)) ''out'' \<noteq> (Inl e, sample_rr, d)" for e d
    by (simp add: sample_rr_eq fd_write_token_def fd_write_turn_def fd_ordered_slots_def fd_next_reader_def
        fd_turn_entry_def dval_def fd_update_turn_def fd_put_def fd_put_turn_def dlook_def)
  moreover have "fd_kind sample_rr \<noteq> MappedK" by (simp add: sample_rr_eq)
  ultimately show ?thesis
    using dispatch_write_one_reader [OF sample_rr_ready, of "Token (PInt 3)" "''out''"]
    by (simp only: Let_def if_False) blast
qed

text \<open>
  C10: The ordered and round-robin queues deal the tokens out in turn: in a new queue to which exactly the
  readers its port properties announce have been connected, with or without a port order naming them
  once each, and for any interleaving of writes, peeks, commits and cancels as long as no reader
  comes or goes, reader number \<open>i\<close> of \<open>n\<close> has committed or pending exactly the accepted tokens at
  the indices congruent to \<open>i\<close> modulo \<open>n\<close>, in order (the schedule of the source is a ring of
  one entry per buffer slot that is extended while it is read).
\<close>
theorem round_robin_shares:
  assumes "announced pp rs" "k \<in> {OrderedK, RoundRobinK}" "distinct order"
    and "q = fd_connect k rnd pp rs \<or> q = snd (fd_set_port_order (fd_connect k rnd pp rs) order)"
    and "list_all (disp_known (fd_readers q)) ops" "i < length (fd_readers q)"
  shows "let l = disp_run m ops q; r = fd_readers q ! i
    in dl_consumed l r @ fd_pending (dl_queue l) r
       = turn_share 0 (int (length (fd_readers q))) (int i) (dl_accepted l)"
  using dealt_run [OF assms(1-5)] assms(6) by (simp add: dealt_def Let_def)

lemma sample_rr_connect: "fd_connect RoundRobinK (\<lambda>n. n) sample_props [''b'', ''a''] = sample_rr"
  by (simp add: fd_connect_def sample_rr_def)

theorem round_robin_shares_witness:
  "dl_consumed (disp_run ''out'' [DWrite (Token (PInt 1)), DWrite (Token (PInt 2)), DPeek ''a'', DCommit ''a'',
       DWrite (Token (PInt 3))] sample_rr) ''a''
     @ fd_pending (dl_queue (disp_run ''out'' [DWrite (Token (PInt 1)), DWrite (Token (PInt 2)), DPeek ''a'', DCommit ''a'',
         DWrite (Token (PInt 3))] sample_rr)) ''a'' = [Token (PInt 1), Token (PInt 3)]"
proof -
  let ?ops = "[DWrite (Token (PInt 1)), DWrite (Token (PInt 2)), DPeek ''a'', DCommit ''a'', DWrite (Token (PInt 3))]"
  have "announced sample_props [''b'', ''a'']" by (simp add: announced_def sample_props_def opt_default_def)
  moreover have "list_all (disp_known (fd_readers sample_rr)) ?ops" "fd_readers sample_rr = [''a'', ''b'']"
    by (simp_all add: sample_rr_eq)
  moreover have "dl_accepted (disp_run ''out'' ?ops sample_rr) = [Token (PInt 1), Token (PInt 2), Token (PInt 3)]"
    unfolding sample_rr_eq by code_simp
  ultimately show ?thesis
    using round_robin_shares [of sample_props "[''b'', ''a'']" RoundRobinK "[]" sample_rr "\<lambda>n. n" ?ops 0 "''out''"]
      sample_rr_connect by (simp add: Let_def turn_share_def)
qed

text \<open>
  C32: The guard of a firing is sound for every routing, in a queue in working order (consistent positions, a
  schedule that is a full ring of numbers of connected readers, a mapping that names only readers):
  when \<open>slots_available(1)\<close> holds for the outport, a write right after it is accepted, for a mapped
  queue provided the value can be routed, and leaves the queue in working order.  Connecting the
  announced readers establishes the working order; removing one can destroy it.
\<close>
theorem dispatch_guard_sound:
  assumes "fd_ready q" "mapping_ok q" "fd_accepts q d" "m \<notin> set (fd_readers q)"
    and "fd_slots_available q 1 m = Inr True"
  shows "\<exists>q'. fd_write q d m = (Inr True, q') \<and> fd_ready q'"
proof (rule ccontr)
  assume no: "\<not> ?thesis"
  have ok: "fd_ready (fd_pushed q1 p v)"
    if "fd_target q d p v" "0 < fd_free q p" "fd_same q q1" "fd_ready q1" for p v q1
    by (rule fd_ready_pushed [OF that(4)])
      (use that(1,2) fd_same_views [OF that(3)] in \<open>auto simp: fd_target_def\<close>)
  obtain e where e: "fd_write q d m = (Inl e, q)"
      "fd_kind q \<noteq> MappedK \<longrightarrow> e = QueueFull \<and> (\<forall>p v. fd_target q d p v \<longrightarrow> fd_free q p = 0)"
    using fd_write_cases [OF assms(1,2), of d m] ok no by blast
  show False
  proof (cases "fd_kind q = MappedK")
    case True
    then obtain v p where u: "fd_unwrap q d = (Inr p, v)" using assms(3) by (auto simp: fd_accepts_def)
    then have p: "p \<in> set (fd_readers q)" by (rule fd_unwrap_reader [OF assms(2)])
    then have t: "fd_target q d p v" using u True by (simp add: fd_target_def)
    have "0 < fd_free q p" by (rule fd_slots_target [OF assms(1,5) t assms(4)])
    moreover have "fd_inv q" using assms(1) by (simp add: fd_ready_def)
    ultimately show False
      using e(1) True u p by (simp add: fd_write_kinds(3) fd_write_mapped_def fd_mapped_slots_reader fd_put_eq)
  next
    case False
    then have none: "\<forall>p v. fd_target q d p v \<longrightarrow> fd_free q p = 0" using e(2) by blast
    have "\<exists>p v. fd_target q d p v"
    proof (cases "fd_kind q = BalancedK")
      case True
      have "fd_readers q \<noteq> []" using assms(5) True by (auto simp: fd_slots_available_def split: if_splits)
      then have "Max (fd_free q ` set (fd_readers q)) \<in> fd_free q ` set (fd_readers q)"
        by (intro Max_in) auto
      then obtain p where p: "p \<in> set (fd_readers q)" "Max (fd_free q ` set (fd_readers q)) = fd_free q p"
        by blast
      have "fd_free q r \<le> fd_free q p" if "r \<in> set (fd_readers q)" for r
        using Max_ge [of "fd_free q ` set (fd_readers q)" "fd_free q r"] that p(2) by simp
      with p(1) have "p \<in> set (fd_readers q)" "\<forall>r \<in> set (fd_readers q). fd_free q r \<le> fd_free q p"
        by blast+
      then show ?thesis using True by (auto simp: fd_target_def)
    next
      case nb: False
      then have "turn_ok q" "fd_inv q" using assms(1) False
        by (cases "fd_kind q"; simp add: fd_ready_def uses_turn_def)+
      from next_reader_ok [OF this(2,1)] nb False show ?thesis
        by (cases "fd_kind q") (auto simp: fd_target_def)
    qed
    with none show False using fd_slots_target [OF assms(1,5) _ assms(4)] by force
  qed
qed

theorem dispatch_guard_sound_witness:
  "\<exists>q'. fd_write sample_rr (Token (PInt 3)) ''out'' = (Inr True, q') \<and> fd_ready q'"
  by (rule dispatch_guard_sound [OF sample_rr_ready])
    (simp_all add: sample_rr_eq fd_accepts_def fd_slots_available_def fd_ordered_slots_def fd_next_reader_def
      fd_turn_entry_def dval_def)

text \<open>
  A token the mapped queue refuses because the reader is full is spoiled: it was unwrapped in place, so
  a second attempt with the same token does not find its dictionary any more.
\<close>
theorem mapped_refusal_spoils_token:
  assumes "fd_kind q = MappedK" "fd_mapping q = Some ms" "dget ms sel = Some p" "\<not> fd_mapped_slots q 1 p"
    and "\<forall>items. v \<noteq> PDict items"
  shows "\<exists>d'. fd_write_token q (Token (PDict [(sel, v)])) m = (Inl QueueFull, q, d') \<and> tval d' = v
    \<and> fd_write_token q d' m' = (Inl (AttributeError ''popitem''), q, d')"
  using assms by (cases v) (simp_all add: fd_write_token_def fd_write_mapped_def fd_unwrap_def dlook_def)

text \<open>
  Removing one of two peers of an ordered or round-robin queue at the turn of the second one
  breaks the queue: the new schedule has one entry too few, and the next write raises IndexError
  although there is a free slot.
\<close>
theorem shrink_to_one_peer_breaks_writes:
  assumes "fd_ready q" "fd_kind q \<in> {OrderedK, RoundRobinK}" "set (fd_readers q) = {a, b}" "a \<noteq> b"
    and "fd_turn_entry q (fd_turn_pos q) = Inr 1" "1 < fd_N q" "0 < fd_free q a"
  shows "\<exists>q'. fd_remove_reader q b = (Inr True, q') \<and> fd_write q' d m = (Inl IndexError, q')"
proof -
  obtain q' where q': "fd_remove_reader q b = (Inr True, q')" "fd_readers q' = [a]" "fd_turn_pos q' = 0"
    "fd_reader_turn q' = Some (replicate (nat (fd_N q) - 1) 0)" "fd_nbr_peers q' = 1"
    "fd_kind q' = fd_kind q" "fd_N q' = fd_N q" "fd_free q' a = fd_free q a"
    using fd_shrink_to_one [OF assms(1-5)] by blast
  have e0: "fd_turn_entry q' 0 = Inr 0"
    using q' assms(6) by (simp add: fd_turn_entry_def py_index_def)
  have "- 1 mod fd_N q' = fd_N q' - 1" using q'(7) assms(6) by (simp add: zmod_minus1)
  then have e1: "fd_turn_entry q' (- 1) = Inl IndexError"
    using q' assms(6) by (simp add: fd_turn_entry_def py_index_def Let_def)
  have "fd_ordered_slots q' 1 = Inr True"
    using e0 q' assms(6,7) by (simp add: fd_ordered_slots_def fd_next_reader_def py_index_def fd_free_def)
  moreover have "fd_update_turn q' = (Inl IndexError, q')"
    using e0 e1 q'(3,6) assms(2) by (auto simp: fd_update_turn_def)
  ultimately have "fd_write q' d m = (Inl IndexError, q')"
    using q'(6) assms(2) by (auto simp: fd_write_kinds fd_write_turn_def)
  with q'(1) show ?thesis by blast
qed

definition sample_rr_turn :: fanout_disp where
  "sample_rr_turn = snd (fd_write sample_rr (Token (PInt 1)) ''out'')"

lemma sample_rr_turn_eq: "sample_rr_turn = sample_rr
   \<lparr>fd_fifo := [(''b'', replicate 3 (Token (PInt 0))), (''a'', [Token (PInt 1), Token (PInt 0), Token (PInt 0)])],
    fd_write_pos := [(''b'', 0), (''a'', 1)], fd_reader_turn := Some [1, 1, 0], fd_turn_pos := 1\<rparr>"
  by (simp add: sample_rr_turn_def sample_rr_eq fd_write_def fd_write_token_def fd_write_turn_def fd_ordered_slots_def
      fd_next_reader_def fd_turn_entry_def dval_def fd_update_turn_def fd_put_def fd_put_turn_def dlook_def
      dput_def ring_put_def numeral_3_eq_3)

theorem shrink_to_one_peer_breaks_writes_witness:
  "\<exists>q'. fd_remove_reader sample_rr_turn ''b'' = (Inr True, q')
    \<and> fd_write q' (Token (PInt 2)) ''out'' = (Inl IndexError, q')"
  by (rule shrink_to_one_peer_breaks_writes [where a = "''a''"])
    (auto simp: sample_rr_turn_eq sample_rr_eq fd_ready_def fd_inv_def ring_ok_def dval_def turn_ok_def
      fd_turn_entry_def fd_free_def)

end
