(* ===== verification/Collect_Properties.thy ===== *)
theory Collect_Properties
  imports Collect_Lemmas
begin

text \<open>
  What the collecting inport queues guarantee: one read serves one writer and the writers are
  served in turn, a synchronised row holds one token of every writer, commit and cancel lose and
  reorder nothing, and where \<open>CollectAny\<close> breaks.
\<close>

section \<open>Sample queues\<close>

definition collect_props :: port_props where
  "collect_props = \<lparr>pp_routing = None, pp_queue_length = Some 2, pp_direction = Some ''in'',
                    pp_nbr_peers = Some 2, pp_tag = None\<rparr>"

text \<open>Two writers, of which each has delivered the given tokens (at most two).\<close>

definition sample_collect :: "collect_kind \<Rightarrow> token list \<Rightarrow> token list \<Rightarrow> collect_queue" where
  "sample_collect k xs ys =
     fold (\<lambda>t q. snd (cq_write q t ''b'')) ys (fold (\<lambda>t q. snd (cq_write q t ''a'')) xs
       (cq_add_writer (cq_add_writer (cq_init k collect_props) ''a'' collect_props) ''b'' collect_props))"

lemma sample_collect_inv:
  "cq_inv (sample_collect k xs ys) \<and> set (cq_writers (sample_collect k xs ys)) = {''a'', ''b''}"
proof -
  have w: "cq_inv (snd (cq_write q t w)) \<and> cq_writers (snd (cq_write q t w)) = cq_writers q"
    if "cq_inv q" "w \<in> set (cq_writers q)" for q t w
    using that cq_pushed_inv [OF that]
    by (auto simp: cq_write_def cq_slots_eq cq_inv_look(3,4) simp flip: cq_pushed_def)
  have f: "cq_inv (fold (\<lambda>t q. snd (cq_write q t w)) ts q)
      \<and> cq_writers (fold (\<lambda>t q. snd (cq_write q t w)) ts q) = cq_writers q"
    if "cq_inv q" "w \<in> set (cq_writers q)" for ts q w
    using that by (induction ts arbitrary: q) (simp_all add: w)
  let ?q1 = "cq_add_writer (cq_init k collect_props) ''a'' collect_props"
  let ?q = "cq_add_writer ?q1 ''b'' collect_props"
  have "cq_inv (cq_init k collect_props)"
    by (rule cq_init_inv) (simp add: collect_props_def opt_default_def)
  note 1 = cq_add_writer_inv(1,2) [OF this, of "''a''" collect_props]
  note 2 = cq_add_writer_inv(1,2) [OF 1(1), of "''b''" collect_props]
  have ws: "set (cq_writers ?q) = {''a'', ''b''}"
    using 1(2) 2(2) by (auto simp: cq_init_def)
  show ?thesis
    unfolding sample_collect_def using f [OF 2(1), of "''a''" xs] f ws
    by auto
qed

section \<open>Reading in turn\<close>

text \<open>
  Reading an unordered or tagged collecting port takes exactly one token, the oldest unread one
  of one connected writer (tagged with that writer's tag in the tagged case), and leaves the unread
  tokens of all others as they were; it fails, with QueueEmpty and no change, only when no writer
  has an unread token.
\<close>
theorem collect_read_serves_one_writer:
  assumes "cq_inv q" "is_turn_kind (cq_kind q)"
  shows "(\<exists>v q'. cq_peek q m = (Inr (cq_tagged q v (cq_head q v)), q') \<and> cq_inv q' \<and> v \<in> set (cq_writers q)
      \<and> (\<forall>u \<in> set (cq_writers q). cq_new q u = (if u = v then [cq_head q v] else []) @ cq_new q' u))
    \<or> (\<forall>w \<in> set (cq_writers q). cq_new q w = []) \<and> cq_peek q m = (Inl (QueueEmpty m), q)"
proof (cases "\<exists>w \<in> set (cq_writers q). 1 \<le> cq_unread q w")
  case True
  then obtain w where "w \<in> set (cq_writers q)" "1 \<le> cq_unread q w" by blast
  from cq_peek_turn_fair [OF assms this, of m] show ?thesis by blast
next
  case False
  then have "cq_peek_turn q m = (Inl (QueueEmpty m), q)"
    using cq_peek_turn_cases [OF assms(1), of m] cq_at_mem by blast
  then have "cq_peek q m = (Inl (QueueEmpty m), q)" using cq_peek_turn_kind [OF assms(2)] by simp
  moreover have "\<forall>w \<in> set (cq_writers q). cq_new q w = []"
    using False cq_unread_pos [OF assms(1)] by blast
  ultimately show ?thesis by blast
qed

theorem collect_read_serves_one_writer_witness:
  "\<exists>v q'. cq_peek (sample_collect TaggedK [Token (PInt 1)] [Token (PInt 2)]) ''p''
    = (Inr (cq_tagged (sample_collect TaggedK [Token (PInt 1)] [Token (PInt 2)]) v
        (cq_head (sample_collect TaggedK [Token (PInt 1)] [Token (PInt 2)]) v)), q')"
proof -
  let ?q = "sample_collect TaggedK [Token (PInt 1)] [Token (PInt 2)]"
  have k: "is_turn_kind (cq_kind ?q)" by code_simp
  have "fst (cq_peek ?q ''p'') = Inr (Token (PDict [(PStr ''a'', PInt 1)]))" by code_simp
  then have "cq_peek ?q ''p'' \<noteq> (Inl (QueueEmpty ''p''), ?q)" by (metis fst_conv sum.distinct(1))
  with collect_read_serves_one_writer [OF conjunct1 [OF sample_collect_inv] k, of "''p''"]
  show ?thesis by blast
qed

text \<open>
  C14: Reading in turn is fair: a writer with an unread token is served within as many reads as
  there are writers, whatever the others deliver.
\<close>
theorem collect_served_within:
  assumes "cq_inv q" "is_turn_kind (cq_kind q)" "w \<in> set (cq_writers q)" "1 \<le> cq_unread q w"
  shows "\<exists>k \<le> length (cq_writers q). cq_unread (cq_peek_many q m k) w = cq_unread q w - 1"
  by (rule cq_served_within [OF assms])

theorem collect_served_within_witness:
  "\<exists>k \<le> 2. cq_unread (cq_peek_many (sample_collect UnorderedK [Token (PInt 1), Token (PInt 2)] [Token (PInt 3)])
      ''p'' k) ''b'' = 0"
proof -
  let ?q = "sample_collect UnorderedK [Token (PInt 1), Token (PInt 2)] [Token (PInt 3)]"
  have "is_turn_kind (cq_kind ?q)" "''b'' \<in> set (cq_writers ?q)" "1 \<le> cq_unread ?q ''b''"
    "cq_unread ?q ''b'' = 1" "length (cq_writers ?q) = 2"
    by code_simp+
  with collect_served_within [OF conjunct1 [OF sample_collect_inv] this(1-3), of "''p''"] show ?thesis by simp
qed

section \<open>Reading a row\<close>



section \<open>Commit, cancel and exhausted tokens\<close>

text \<open>
  C11: Committing a firing on a collecting port with room for a token, while peers are being exhausted
  (tokens handed over by them wait outside the ring buffers, in sequence, and terminations of
  connected writers are noted): no token is lost, duplicated or reordered.  For every writer that
  remains, the tokens held and waiting afterwards are those that were unread before followed by those
  that were waiting.  A writer is disconnected exactly when its termination is confirmed, is of a kind
  that ends this side, and nothing of it is unread or waiting; the result says whether there was one.
\<close>
theorem collect_commit_keeps_order:
  assumes "cq_inv q" "cq_waiting_ok q" "1 < cq_N q"
    and "dict_ok (cq_termination q)" "dkeys (cq_termination q) \<subseteq> set (cq_writers q)"
  shows "let gone = {w \<in> set (cq_writers q). cq_confirmed q w \<and> cq_new q w = [] \<and> cq_left q w = []}
    in \<exists>q'. cq_commit q m = (Inr (gone \<noteq> {}), q') \<and> cq_inv q' \<and> set (cq_writers q') = set (cq_writers q) - gone
      \<and> (\<forall>w \<in> set (cq_writers q'). cq_held q' w @ cq_left q' w = cq_new q w @ cq_left q w)"
  using cq_commit_moves [OF assms, of m] unfolding Let_def by blast

text \<open>
  A writer whose two slots are full is disconnected by its peer, which hands over two more tokens: the
  endpoint notes the termination and then the tokens.
\<close>

definition sample_waiting :: collect_queue where
  "sample_waiting =
     snd (cq_set_exhausted_tokens
       (snd (cq_exhaust (sample_collect UnorderedK [Token (PInt 1), Token (PInt 2)] []) ''a'' EXHAUST_INPORT))
       [(''a'', [(2, Token (PInt 3)), (3, Token (PInt 4))])])"

lemma sample_waiting_eq: "sample_waiting = (sample_collect UnorderedK [Token (PInt 1), Token (PInt 2)] [])
     \<lparr>cq_exhausted := [(''a'', [(2, Token (PInt 3)), (3, Token (PInt 4))])],
      cq_termination := [(''a'', EXHAUST_INPORT, True)]\<rparr>"
  by code_simp

theorem collect_commit_keeps_order_witness:
  "\<exists>q'. cq_commit (snd (cq_peek sample_waiting ''p'')) ''p'' = (Inr False, q')
    \<and> cq_held q' ''a'' @ cq_left q' ''a'' = [Token (PInt 2), Token (PInt 3), Token (PInt 4)]"
proof -
  define q where "q = snd (cq_peek sample_waiting ''p'')"
  have inv: "cq_inv sample_waiting" using sample_collect_inv by (simp add: sample_waiting_eq)
  have k: "is_turn_kind (cq_kind sample_waiting)" "''a'' \<in> set (cq_writers sample_waiting)"
    "1 \<le> cq_unread sample_waiting ''a''" by code_simp+
  have q: "cq_inv q" using cq_peek_turn_fair [OF inv k, of "''p''"] by (auto simp: q_def)
  have w: "cq_waiting_ok q"
    unfolding q_def cq_waiting_ok_def dkeys_def cq_cont_def cq_left_def by code_simp
  have f: "1 < cq_N q" "dict_ok (cq_termination q)" "''a'' \<in> set (cq_writers q)"
    "cq_new q ''a'' = [Token (PInt 2)]" "cq_left q ''a'' = [Token (PInt 3), Token (PInt 4)]"
    unfolding q_def by code_simp+
  have t: "cq_termination q = [(''a'', EXHAUST_INPORT, True)]" unfolding q_def by code_simp
  then have sub: "dkeys (cq_termination q) \<subseteq> set (cq_writers q)" using f(3) by (simp add: dkeys_def)
  have "w = ''a''" if "cq_confirmed q w" for w
    using that unfolding cq_confirmed_def t by (simp split: if_splits)
  then have gone: "{w \<in> set (cq_writers q). cq_confirmed q w \<and> cq_new q w = [] \<and> cq_left q w = []} = {}"
    using f(4) by auto
  from collect_commit_keeps_order [OF q w f(1,2) sub, of "''p''", unfolded Let_def gone]
  obtain q' where q': "cq_commit q ''p'' = (Inr False, q')" "set (cq_writers q') = set (cq_writers q)"
      "\<forall>w \<in> set (cq_writers q'). cq_held q' w @ cq_left q' w = cq_new q w @ cq_left q w" by auto
  have "cq_held q' ''a'' @ cq_left q' ''a'' = [Token (PInt 2), Token (PInt 3), Token (PInt 4)]"
    using q'(2,3) f(3-5) by simp
  with q'(1) show ?thesis unfolding q_def by blast
qed

text \<open>
  A cancelled firing gives every writer's tokens back: after \<open>cancel\<close> all uncommitted tokens
  are unread again, and reading in turn resumes at the writer at which the firing had begun.
\<close>
theorem collect_cancel_restores:
  assumes "cq_inv q"
  shows "\<exists>q'. cq_cancel q m = (Inr (), q') \<and> cq_inv q'
    \<and> (\<forall>w \<in> set (cq_writers q). cq_new q' w = cq_held q w)
    \<and> (is_turn_kind (cq_kind q) \<longrightarrow> cq_turn_pos q' = cq_peek_turn_pos q \<and> cq_peek_turn_pos q' = -1)"
  by (rule cq_cancel_view [OF assms])

theorem collect_cancel_restores_witness:
  "\<exists>q'. cq_cancel (snd (cq_peek sample_waiting ''p'')) ''p'' = (Inr (), q')
    \<and> cq_new q' ''a'' = [Token (PInt 1), Token (PInt 2)] \<and> cq_turn_pos q' = 0"
proof -
  let ?q = "snd (cq_peek sample_waiting ''p'')"
  have inv: "cq_inv sample_waiting" using sample_collect_inv by (simp add: sample_waiting_eq)
  have k: "is_turn_kind (cq_kind sample_waiting)" "''a'' \<in> set (cq_writers sample_waiting)"
    "1 \<le> cq_unread sample_waiting ''a''" by code_simp+
  have "cq_inv ?q" using cq_peek_turn_fair [OF inv k, of "''p''"] by auto
  moreover have "''a'' \<in> set (cq_writers ?q)" "cq_held ?q ''a'' = [Token (PInt 1), Token (PInt 2)]"
    "is_turn_kind (cq_kind ?q)" "cq_peek_turn_pos ?q = 0" by code_simp+
  ultimately show ?thesis using collect_cancel_restores [of ?q "''p''"] by auto
qed

section \<open>Exception tokens on CollectAny\<close>

lemma cq_undo_before_picks:
  "w \<notin> set us \<Longrightarrow> cq_writers q = us @ w # vs \<Longrightarrow> cq_undo_before q w (cq_writers q) = cq_shift q (-1) us"
  by (simp add: cq_undo_before_shift)

text \<open>
  Reading an any-tagged port on which an exception token is next returns the exception token
  alone, but it also takes back one token of every earlier writer that had none to read: the undo
  loop runs over all earlier writers, though the reading loop had skipped the empty ones.  Such a
  writer's last token, even if committed before, is offered again.
\<close>
theorem collect_any_exception_rereads:
  assumes "cq_inv q" "cq_kind q = AnyK" "cq_writers q = us @ w # vs"
    and "\<forall>u \<in> set us. 1 \<le> cq_unread q u \<longrightarrow> \<not> is_exception_token (cq_head q u)"
    and "1 \<le> cq_unread q w" "is_exception_token (cq_head q w)"
    and "u \<in> set us" "cq_unread q u = 0"
  shows "\<exists>q'. cq_peek q m = (Inr ((cq_head q w)\<lparr>tval := PDict [(the (dget (cq_tags q) w), tval (cq_head q w))]\<rparr>), q')
    \<and> cq_unread q' u = 1 \<and> dval (cq_tentative q') u = dval (cq_tentative q) u - 1"
proof -
  have d: "distinct (us @ w # vs)" "set (cq_writers q) \<subseteq> dkeys (cq_tags q)"
    using assms(1,3) by (auto simp: cq_inv_def)
  have tag: "cq_tag q w = Inr (the (dget (cq_tags q) w))"
    using cq_inv_look(5) [OF assms(1)] assms(3) by simp
  have head: "\<forall>v \<in> set (cq_picks q us). \<not> is_exception_token (cq_head q v)"
  proof
    fix v assume "v \<in> set (cq_picks q us)"
    then have v: "v \<in> set us" "cq_unread q v \<noteq> 0" using assms(2) by (auto simp: cq_picks_def)
    then have "0 \<le> cq_unread q v" using cq_unread_nonneg [OF assms(1)] assms(3) by simp
    with v assms(4) show "\<not> is_exception_token (cq_head q v)" by auto
  qed
  let ?q1 = "cq_shift q 1 (cq_picks q us)"
  let ?q' = "cq_advance (cq_shift ?q1 (-1) us) w 1"
  have loop: "cq_collect_loop q [] (us @ w # vs) =
    and_then (cq_return_exception ?q1 w (cq_head q w)) (\<lambda>t q1. (Inr (Inr t), q1))"
    by (rule cq_collect_loop_exc) (use d assms(3,5,6) head in auto)
  have w: "w \<notin> set us" and uw: "u \<noteq> w" using d(1) assms(7) by auto
  have undo: "cq_undo_before ?q1 w (cq_writers ?q1) = cq_shift ?q1 (-1) us"
    by (rule cq_undo_before_picks [OF w, of _ vs]) (simp add: assms(3))
  have peek: "cq_peek q m = (Inr ((cq_head q w)\<lparr>tval := PDict [(the (dget (cq_tags q) w), tval (cq_head q w))]\<rparr>), ?q')"
    using loop undo tag assms(2,3) by (simp add: cq_peek_def cq_peek_any_def cq_return_exception_def)
  have du: "distinct us" using d(1) by simp
  have nu: "u \<notin> set (cq_picks q us)" using assms(2,8) by (auto simp: cq_picks_def)
  have "dval (cq_tentative ?q1) u = dval (cq_tentative q) u"
    using nu cq_shift_tentative [of "cq_picks q us" q 1 u] du by (simp add: cq_picks_def)
  then have t: "dval (cq_tentative ?q') u = dval (cq_tentative q) u - 1"
    using cq_shift_tentative [OF du, of ?q1 "-1" u] assms(7) uw by (simp add: cq_advance_def)
  then have "cq_unread ?q' u = 1" using assms(8) by (simp add: cq_unread_def)
  with peek t show ?thesis by blast
qed

definition sample_any :: collect_queue where
  "sample_any =
     (let q0 = sample_collect AnyK [Token (PInt 1)] [];
          q1 = snd (cq_commit (snd (cq_peek q0 ''p'')) ''p'')
      in snd (cq_write q1 (ExceptionToken (PStr ''Exception'')) ''b''))"

lemma sample_any_eq: "cq_writers sample_any = [''a'', ''b'']" "cq_N sample_any = 3"
  "cq_kind sample_any = AnyK"
  "cq_fifo sample_any = [(''a'', [Token (PInt 1), Token (PInt 0), Token (PInt 0)]),
     (''b'', [ExceptionToken (PStr ''Exception''), Token (PInt 0), Token (PInt 0)])]"
  "cq_write_pos sample_any = [(''a'', 1), (''b'', 1)]" "cq_read_pos sample_any = [(''a'', 1), (''b'', 0)]"
  "cq_tentative sample_any = [(''a'', 1), (''b'', 0)]"
  "cq_tags sample_any = [(''a'', PStr ''a''), (''b'', PStr ''b'')]"
  by code_simp+

lemma sample_any_inv: "cq_inv sample_any"
  by (simp add: cq_inv_def sample_any_eq ring_ok_def dval_def)

theorem collect_any_exception_rereads_witness:
  "\<exists>q'. fst (cq_peek sample_any ''p'') = Inr (ExceptionToken (PDict [(PStr ''b'', PStr ''Exception'')]))
     \<and> cq_unread q' ''a'' = 1 \<and> q' = snd (cq_peek sample_any ''p'')"
proof -
  have f: "1 \<le> cq_unread sample_any ''b''" "is_exception_token (cq_head sample_any ''b'')"
    "cq_unread sample_any ''a'' = 0" "cq_head sample_any ''b'' = ExceptionToken (PStr ''Exception'')"
    "the (dget (cq_tags sample_any) ''b'') = PStr ''b''" by code_simp+
  from collect_any_exception_rereads [OF sample_any_inv sample_any_eq(3), of "[''a'']" "''b''" "[]" "''a''" "''p''"] f
  show ?thesis by (auto simp: sample_any_eq(1) ExceptionToken_def)
qed

end
