(* ===== verification/Endpoint_Properties.thy ===== *)
theory Endpoint_Properties
  imports Tunnel_Protocol Fanout_Properties Collect_Properties
begin

text \<open>
  What the connections guarantee: a local transfer and a tunnel deliver every token once and in
  order, a lost or refused token is sent again, and how a queue is chosen for a port.
\<close>

section \<open>Choosing the queue\<close>

text \<open>The queue is empty for every reader and writer.\<close>

fun q_fresh :: "any_queue \<Rightarrow> bool" where
  "q_fresh (QFifo f) = (ff_inv f \<and> ff_readers f = [] \<and> ff_write_pos f = 0)"
| "q_fresh (QDisp d) = (fd_inv d \<and> fd_readers d = [])"
| "q_fresh (QCollect c) = (cq_inv c \<and> cq_writers c = [])"
| "q_fresh (QNone s) = False"

fun q_class :: "any_queue \<Rightarrow> queue_class option" where
  "q_class (QFifo f) = Some FanoutFifoC"
| "q_class (QDisp d) = Some (DispatchC (fd_kind d))"
| "q_class (QCollect c) = Some (CollectC (cq_kind c))"
| "q_class (QNone s) = None"

lemma fd_init_fresh:
  assumes "0 \<le> opt_default 4 (pp_queue_length pp)" "0 < opt_default 1 (pp_nbr_peers pp)"
  shows "\<exists>q. fd_init k rnd pp = (Inr (), q) \<and> fd_inv q \<and> fd_readers q = [] \<and> fd_kind q = k"
proof -
  let ?q = "\<lparr>fd_kind = k, fd_fifo = [], fd_nbr_peers = opt_default 1 (pp_nbr_peers pp),
        fd_N = opt_default 4 (pp_queue_length pp) + 1, fd_readers = [],
        fd_write_pos = [], fd_read_pos = [], fd_tentative = [],
        fd_type = Some (kind_type k), fd_reader_turn = None, fd_turn_pos = 0, fd_is_ordered = False,
        fd_mapping = None, fd_rnd = rnd, fd_draws = 0\<rparr>"
  obtain xs j where xs: "randranges (nat (fd_N ?q)) ?q (fd_nbr_peers ?q) = (Inr xs, ?q\<lparr>fd_draws := j\<rparr>)"
    using randranges_ok [of "fd_nbr_peers ?q" "nat (fd_N ?q)" ?q] assms(2) by auto
  show ?thesis
    using assms xs by (cases k) (simp_all add: fd_init_def fd_set_turn_def fd_inv_def)
qed

text \<open>
  For every routing property with at least one preference, a port gets a fresh, well formed
  queue of the class the first preference names (the default FanoutFIFO for an unknown name); a
  port without a routing property gets None instead of a queue, an empty preference list raises.
\<close>
theorem queue_get_selects:
  assumes "0 \<le> opt_default 4 (pp_queue_length pp)" "0 < opt_default 1 (pp_nbr_peers pp)"
  shows "(case pp_routing pp of
      None \<Rightarrow> queue_get rnd pp = Inr None
    | Some [] \<Rightarrow> queue_get rnd pp = Inl IndexError
    | Some (r # rs) \<Rightarrow> \<exists>q. queue_get rnd pp = Inr (Some q) \<and> q_fresh q \<and> q_class q = Some (select_queue r))"
proof -
  have ff: "ff_inv (ff_init pp)" "ff_readers (ff_init pp) = []" "ff_write_pos (ff_init pp) = 0"
    using assms(1) by (simp_all add: ff_inv_def ff_init_def Let_def ring_ok_def)
  have cq: "cq_inv (cq_init k pp) \<and> cq_writers (cq_init k pp) = [] \<and> cq_kind (cq_init k pp) = k" for k
    using cq_init_inv [OF assms(1)] by (simp add: cq_init_def)
  show ?thesis
  proof (cases "pp_routing pp")
    case (Some rs)
    show ?thesis
    proof (cases rs)
      case (Cons r rs')
      have "\<exists>q. queue_get rnd pp = Inr (Some q) \<and> q_fresh q \<and> q_class q = Some (select_queue r)"
      proof (cases "select_queue r")
        case (DispatchC k)
        obtain q where "fd_init k rnd pp = (Inr (), q)" "fd_inv q" "fd_readers q = []" "fd_kind q = k"
          using fd_init_fresh [OF assms, of k rnd] by blast
        with Some Cons DispatchC show ?thesis by (simp add: queue_get_def)
      qed (use Some Cons ff cq in \<open>simp_all add: queue_get_def\<close>)
      with Some Cons show ?thesis by simp
    qed (use Some in \<open>simp add: queue_get_def\<close>)
  qed (simp add: queue_get_def)
qed

theorem queue_get_selects_witness:
  "\<exists>q. queue_get (\<lambda>n. n) (sample_props\<lparr>pp_routing := Some [''collect-tagged'', ''default'']\<rparr>) = Inr (Some q)
    \<and> q_class q = Some (CollectC TaggedK)"
  using queue_get_selects [of "sample_props\<lparr>pp_routing := Some [''collect-tagged'', ''default'']\<rparr>" "\<lambda>n. n"]
  by (auto simp: sample_props_def opt_default_def select_queue_def)

section \<open>Local connections\<close>

text \<open>
  C7: One run of \<open>communicate\<close> between two local ports, whatever queues they have, ends, moves the
  longest prefix of the uncommitted tokens that fits, in order and without duplicating those the
  peer already had, leaves nothing tentative, and reports whether anything moved.
\<close>
theorem local_transfer_delivers:
  assumes "q_source_inv q" "q_reader q r" "q_peeked q r = 0" "q_sink_inv p" "q_writer p w"
    "q_base q r \<le> q_expected p w" "q_expected p w \<le> q_base q r + int (length (q_pending q r))"
    "dget eps w = Some pl"
  shows "\<exists>k trig q' p' eps'. local_communicate now w r q p eps = Some (Inr (0 < k, trig), q', p', eps')
    \<and> delivered q p w r k q' p'"
  by (rule local_communicate_delivers [OF assms])

definition sample_src :: any_queue where "sample_src = QFifo sample_written"
definition sample_dst :: any_queue where "sample_dst = QFifo sample_inport"

lemma sample_ends:
  "q_source_inv sample_src" "q_reader sample_src ''a''" "q_peeked sample_src ''a'' = 0"
  "q_sink_inv sample_dst" "q_writer sample_dst ''out''" "q_base sample_src ''a'' = 0"
  "q_expected sample_dst ''out'' = 0" "q_pending sample_src ''a'' = [Token (PInt 7)]"
  "q_held sample_dst ''out'' = []" "q_room sample_dst ''out''"
proof -
  show "q_source_inv sample_src" "q_sink_inv sample_dst"
    using sample_written_inv sample_inport_inv by (simp_all add: sample_src_def sample_dst_def)
qed (code_simp)+

theorem local_transfer_delivers_witness:
  "\<exists>k trig q' p' eps'. local_communicate 0 ''out'' ''a'' sample_src sample_dst [(''out'', pressure_init)]
      = Some (Inr (0 < k, trig), q', p', eps') \<and> delivered sample_src sample_dst ''out'' ''a'' k q' p'"
  by (rule local_transfer_delivers [where pl = pressure_init]) (simp_all add: sample_ends)

text \<open>
  If the peer port has no endpoint for the sender and is full, \<open>communicate\<close> raises
  AttributeError (its log message reads the endpoint's pressure count before the endpoint is
  checked to exist) and leaves the refused token peeked, so the sender will not offer it again.
\<close>
theorem local_transfer_without_endpoint:
  assumes "q_source_inv q" "q_reader q r" "q_peeked q r = 0" "q_pending q r \<noteq> []" "q_sink_inv p" "q_writer p w"
    "q_base q r = q_expected p w" "\<not> q_room p w" "dget eps w = None"
  shows "\<exists>q'. local_communicate now w r q p eps = Some (Inl (AttributeError ''pressure_count''), q', p, eps)
    \<and> q_peeked q' r = 1"
  by (rule local_communicate_no_endpoint [OF assms])

definition sample_full :: fanout_fifo where
  "sample_full = (snd (ff_write (snd (ff_write sample_inport (Token (PInt 1)))) (Token (PInt 2))))"

definition sample_ahead :: fanout_fifo where
  "sample_ahead =
     ((snd (ff_write (snd (ff_write (snd (ff_write (sample_fifo\<lparr>ff_N := 5, ff_fifo := replicate 5 (Token (PInt 0))\<rparr>)
       (Token (PInt 1)))) (Token (PInt 2)))) (Token (PInt 3))))
       \<lparr>ff_read_pos := [(''a'', 2), (''b'', 2)], ff_tentative := [(''a'', 2), (''b'', 2)]\<rparr>)"

theorem local_transfer_without_endpoint_witness:
  "\<exists>q'. local_communicate 0 ''out'' ''a'' (QFifo sample_ahead) (QFifo sample_full) []
      = Some (Inl (AttributeError ''pressure_count''), q', QFifo sample_full, [])"
proof -
  have a: "sample_ahead =
   \<lparr>ff_fifo = [Token (PInt 1), Token (PInt 2), Token (PInt 3), Token (PInt 0), Token (PInt 0)], ff_N = 5,
    ff_direction = Some ''out'', ff_nbr_peers = 2,
    ff_readers = [''a'', ''b''], ff_write_pos = 3, ff_read_pos = [(''a'', 2), (''b'', 2)],
    ff_tentative = [(''a'', 2), (''b'', 2)], ff_offset = [(''a'', 0), (''b'', 0)],
    ff_type = ''fanout_fifo'', ff_writer = None, ff_exhausted = [], ff_termination = []\<rparr>" by code_simp
  have f: "sample_full =
   \<lparr>ff_fifo = [Token (PInt 1), Token (PInt 2), Token (PInt 0)], ff_N = 3, ff_direction = Some ''in'', ff_nbr_peers = 1,
    ff_readers = [''p''], ff_write_pos = 2, ff_read_pos = [(''p'', 0)],
    ff_tentative = [(''p'', 0)], ff_offset = [(''p'', 0)],
    ff_type = ''fanout_fifo'', ff_writer = None, ff_exhausted = [], ff_termination = []\<rparr>" by code_simp
  have inv: "q_source_inv (QFifo sample_ahead)" "q_sink_inv (QFifo sample_full)"
    by (simp_all add: a f ff_inv_def ring_ok_def dval_def)
  have v: "q_reader (QFifo sample_ahead) ''a''" "q_peeked (QFifo sample_ahead) ''a'' = 0" "q_pending (QFifo sample_ahead) ''a'' \<noteq> []"
    "q_writer (QFifo sample_full) ''out''" "q_base (QFifo sample_ahead) ''a'' = q_expected (QFifo sample_full) ''out''"
    "\<not> q_room (QFifo sample_full) ''out''" by code_simp+
  show ?thesis
    using local_transfer_without_endpoint [OF inv(1) v(1-3) inv(2) v(4-6), of "[]" 0] by auto
qed
section \<open>Tunnels\<close>

text \<open>
  C1: Over a tunnel that may lose, duplicate and reorder TOKEN messages and lose replies, with
  retransmission, throttling and reconnection, and with both actors working on their queues at any
  time: the tokens accepted by the receiver are a prefix of those sent, each accepted once and in
  order, and every token sent is accepted or still held by the sender, so none is lost.
\<close>
theorem tunnel_exactly_once:
  assumes "tunnel_start w r s" "tunnel_reach w r s t"
  shows "\<exists>d. tn_sent t = tn_got t @ drop d (q_pending (tn_src t) r)
    \<and> q_expected (tn_dst t) w = q_base (tn_src t) r + int d"
  using tunnel_inv_delivery [OF tunnel_reach_inv [OF assms(2) tunnel_start_inv [OF assms(1)]]] .

definition sample_net :: tunnel_net where
  "sample_net =
     \<lparr>tn_src = sample_src, tn_out = tunnel_out_init ''out'' ''a'', tn_msgs = [], tn_replies = [],
      tn_in = tunnel_in_init ''p'' (Some ''out'') sample_props, tn_dst = sample_dst,
      tn_sent = [Token (PInt 7)], tn_got = []\<rparr>"

lemma sample_net_start: "tunnel_start ''out'' ''a'' sample_net"
  by (simp add: tunnel_start_def sample_net_def tunnel_out_init_def tunnel_in_init_def sample_ends)

theorem tunnel_exactly_once_witness:
  "\<exists>t d. tunnel_reach ''out'' ''a'' sample_net t \<and> tn_msgs t \<noteq> []
     \<and> tn_sent t = tn_got t @ drop d (q_pending (tn_src t) ''a'')"
proof -
  obtain b ms evs q' where c: "tunnel_communicate (tn_out sample_net) (tn_src sample_net) = Some (Inr b, ms, evs, q')"
      and ms: "ms = token_messages (tunnel_out_init ''out'' ''a'') sample_src 0 1"
    using tunnel_communicate_ok [of sample_src "tunnel_out_init ''out'' ''a''"]
    by (auto simp: sample_net_def sample_ends tunnel_out_init_def)
  let ?t = "sample_net\<lparr>tn_src := q', tn_msgs := tn_msgs sample_net @ ms\<rparr>"
  have r: "tunnel_reach ''out'' ''a'' sample_net ?t"
    by (rule tunnel_reach.Step [OF tunnel_reach.Start tunnel_step.Communicate [OF c]])
  have "tn_msgs ?t \<noteq> []" by (simp add: ms token_messages_def)
  with tunnel_exactly_once [OF sample_net_start r] r show ?thesis by blast
qed

text \<open>
  C13: Recovery makes progress: a throttled sender with nothing outstanding sends its first
  uncommitted token; if the receiver expects it and has room it accepts it and acknowledges it, and
  the acknowledgement commits exactly this token at the sender and ends the throttling.
\<close>
theorem tunnel_round_trip:
  assumes "q_source_inv q" "q_reader q r" "q_peeked q r = 0" "q_pending q r = t # ts" "to_peer_id e = r" "\<not> to_bulk e"
    and "q_sink_inv p" "q_writer p w" "ti_peer_id i = Some w" "q_expected p w = q_base q r" "q_room p w"
  shows "\<exists>m q1 i' p' e' q'. tunnel_communicate e q = Some (Inr True, [m], [TunnelTxThrottle], q1)
    \<and> recv_token now i p m = (Inr (token_reply m True, [TunnelRx]), i', p') \<and> q_held p' w = q_held p w @ [t]
    \<and> tunnel_reply e q1 (tm_sequencenbr m) ''ACK'' = ([TunnelTxAck], Inr (), e', q')
    \<and> q_pending q' r = ts \<and> q_peeked q' r = 0 \<and> q_base q' r = q_base q r + 1 \<and> to_bulk e'"
proof -
  let ?m = "token_message e (q_base q r) t"
  have lt: "q_peeked q (to_peer_id e) < length (q_pending q (to_peer_id e))" using assms(3-5) by simp
  obtain q1 where q1: "send_one_token e q = (Inr ?m, q1)" "only_peeked r 1 q q1"
    using send_one_token_ok [of q e] assms(1-5) lt by auto
  have com: "tunnel_communicate e q = Some (Inr True, [?m], [TunnelTxThrottle], q1)"
    using q1(1) assms(3-6) q_avail_iff [OF assms(1,2)] q_committed_iff [OF assms(1,2)]
    by (simp add: tunnel_communicate_def)
  have m: "tm_token ?m = repr_for_coder t" "tm_sequencenbr ?m = q_base q r" by (simp_all add: token_message_def)
  obtain ok evs i' p' where p': "recv_token now i p ?m = (Inr (token_reply ?m ok, evs), i', p')"
    "ok = (tm_sequencenbr ?m < q_expected p' w)"
    "q_held p' w = q_held p w @ [t]" "q_expected p' w = q_expected p w + 1" "evs = [TunnelRx]"
    using recv_token_ok [OF assms(7-9) m(1), of now] m(2) assms(10,11) by auto
  have ok: "ok = True" using p'(2,4) m(2) assms(10) by simp
  have q1s: "q_source_inv q1" "q_reader q1 r" "0 < q_peeked q1 r" "q_base q1 r = q_base q r"
    "q_pending q1 r = t # ts" "q_peeked q1 r = 1"
    using q1(2) assms(4) by (simp_all add: only_peeked_def)
  obtain q' where q': "q_com_commit q1 r (q_base q r) = (Inr (Some Handled), q')" "q_pending q' r = ts"
    "q_peeked q' r = 0" "q_base q' r = q_base q r + 1"
    using qs.commit_next [OF q1s(1-3)] q1s by auto
  have "tunnel_reply e q1 (tm_sequencenbr ?m) ''ACK'' = ([TunnelTxAck], Inr (), e\<lparr>to_bulk := True\<rparr>, q')"
    using q'(1) assms(5) m(2) by (simp add: tunnel_reply_def reply_ack_def Let_def done_response_def)
  with com p' ok q' show ?thesis by fastforce
qed

theorem tunnel_round_trip_witness:
  "\<exists>m q1 i' p'. tunnel_communicate ((tunnel_out_init ''out'' ''a'')\<lparr>to_bulk := False\<rparr>) sample_src
      = Some (Inr True, [m], [TunnelTxThrottle], q1)
    \<and> recv_token 0 (tunnel_in_init ''p'' (Some ''out'') sample_props) sample_dst m
      = (Inr (token_reply m True, [TunnelRx]), i', p') \<and> q_held p' ''out'' = [Token (PInt 7)]"
  using tunnel_round_trip [of sample_src "''a''" "Token (PInt 7)" "[]" "(tunnel_out_init ''out'' ''a'')\<lparr>to_bulk := False\<rparr>"
      sample_dst "''out''" "tunnel_in_init ''p'' (Some ''out'') sample_props" 0]
  by (auto simp: sample_ends tunnel_out_init_def tunnel_in_init_def)

text \<open>
  C16: The receiver's reply is truthful: it appends a token exactly when its number is the expected one
  and there is room (one event to the scheduler), otherwise its queue is unchanged; and it
  answers ACK exactly when the token with that number has been accepted, now or before.
\<close>
theorem receiver_reply_truthful:
  assumes "q_sink_inv q" "q_writer q w" "ti_peer_id e = Some w" "tm_token m = repr_for_coder t"
  shows "\<exists>ok evs e' q'. recv_token now e q m = (Inr (token_reply m ok, evs), e', q')
    \<and> q_sink_inv q' \<and> q_writer q' w \<and> ti_peer_id e' = Some w
    \<and> ok = (tm_sequencenbr m < q_expected q' w)
    \<and> (if tm_sequencenbr m = q_expected q w \<and> q_room q w
       then q_held q' w = q_held q w @ [t] \<and> q_expected q' w = q_expected q w + 1 \<and> evs = [TunnelRx]
       else q' = q)"
  by (rule recv_token_ok [OF assms])

theorem receiver_reply_truthful_witness:
  "\<exists>evs e'. recv_token 0 (tunnel_in_init ''p'' (Some ''out'') sample_props) sample_dst
      (token_message (tunnel_out_init ''out'' ''p'') 3 (Token (PInt 9)))
    = (Inr (token_reply (token_message (tunnel_out_init ''out'' ''p'') 3 (Token (PInt 9))) False, evs), e', sample_dst)"
proof -
  let ?m = "token_message (tunnel_out_init ''out'' ''p'') 3 (Token (PInt 9))"
  have m: "tm_token ?m = repr_for_coder (Token (PInt 9))" "tm_sequencenbr ?m = 3"
    by (simp_all add: token_message_def)
  have i: "ti_peer_id (tunnel_in_init ''p'' (Some ''out'') sample_props) = Some ''out''"
    by (simp add: tunnel_in_init_def)
  from receiver_reply_truthful [OF sample_ends(4,5) i m(1), of 0] m(2) sample_ends(7) show ?thesis by auto
qed

section \<open>The actors at the two ends\<close>

text \<open>
  What the sending actor does to its queue is what the tunnel model allows: an accepted write
  at the sending port, of whatever routing, adds one token behind the pending ones of the tunnel's
  reader, or none if it was routed to another reader, and changes neither what is peeked nor the
  sequence numbers.
\<close>
theorem actor_writes_are_produce_steps:
  assumes "q_source_inv q" "q_reader q r" "q_write q t m = (Inr True, q')"
    and "\<forall>d. q = QDisp d \<longrightarrow> fd_ready d \<and> mapping_ok d"
  shows "\<exists>ts. source_given r ts q q' \<and> length ts \<le> 1"
proof (rule q_source_cases [OF assms(1)])
  fix f assume f: "q = QFifo f" "ff_inv f"
  then have s: "ff_slots_available f 1" and q': "q' = QFifo (ff_pushed f t)"
    using assms(3) by (auto simp: q_write_def ff_write_eq split: if_splits)
  have r: "r \<in> set (ff_readers f)" using assms(2) f by (simp add: ff_reader_def)
  have "source_given r [t] q q'"
    using f r ff_pushed_inv [OF f(2) s, of t] ff_pushed_pending [OF f(2) s r, of t]
    by (simp add: source_given_def q' ff_reader_def ff_base_def ff_peeked_def)
  then show ?thesis by (intro exI [of _ "[t]"]) simp
next
  fix d assume d: "q = QDisp d" "fd_inv d"
  then have ok: "fd_ready d" "mapping_ok d" using assms(4) by simp_all
  obtain d' where d': "q' = QDisp d'" "fd_write d t m = (Inr True, d')"
    using assms(3) d by (cases "fd_write d t m") (auto simp: q_write_def)
  obtain p v q1 where w: "fd_target d t p v" "0 < fd_free d p" "fd_same d q1" "fd_ready q1" "d' = fd_pushed q1 p v"
    using fd_write_cases [OF ok, of t m] d'(2) by auto
  have p: "p \<in> set (fd_readers d)" using w(1) by (simp add: fd_target_def)
  have inv: "fd_inv d'"
    unfolding w(5) by (rule fd_pushed_inv) (use w p fd_same_views [OF w(3)] in \<open>auto simp: fd_ready_def\<close>)
  have pend: "fd_pending d' r = fd_pending d r @ (if r = p then [v] else [])"
    using fd_pushed_same_pending [OF d(2) w(3) p w(2), of v r] w(5) by simp
  have "fd_readers d' = fd_readers d" "fd_read_pos d' = fd_read_pos d" "fd_tentative d' = fd_tentative d"
    using w(3,5) by (simp_all add: fd_same_def fd_pushed_def)
  then have "source_given r (if r = p then [v] else []) q q'"
    using d d'(1) inv pend assms(2) by (auto simp: source_given_def fd_reader_def fd_peeked_def)
  then show ?thesis by (intro exI [of _ "if r = p then [v] else []"]) simp
qed

theorem actor_writes_are_produce_steps_witness:
  "\<exists>ts q'. q_write (QDisp sample_rr) (Token (PInt 3)) ''out'' = (Inr True, q') \<and> source_given ''a'' ts (QDisp sample_rr) q'"
proof -
  have w: "q_write (QDisp sample_rr) (Token (PInt 3)) ''out''
      = (Inr True, snd (q_write (QDisp sample_rr) (Token (PInt 3)) ''out''))"
    by (simp add: q_write_def sample_rr_eq fd_write_def fd_write_token_def fd_write_turn_def fd_ordered_slots_def fd_next_reader_def
        fd_turn_entry_def dval_def fd_update_turn_def fd_put_def fd_put_turn_def dlook_def)
  have "q_source_inv (QDisp sample_rr)" "q_reader (QDisp sample_rr) ''a''"
    using sample_rr_ready by (simp_all add: fd_ready_def fd_reader_def sample_rr_eq)
  from actor_writes_are_produce_steps [OF this w] sample_rr_ready w show ?thesis by auto
qed

text \<open>
  What the receiving actor does to a FanoutFIFO inport is what the tunnel model allows: a peek and
  a cancel keep the tokens held for it, a commit removes tokens only from the front, and none of
  them changes the sequence number the tunnel expects next.
\<close>
theorem actor_reads_are_consume_steps:
  assumes "ff_inv f" "ff_readers f = [m]" "ff_exhausted f = []" "ff_termination f = []"
  shows "sink_used w (QFifo f) (snd (q_peek (QFifo f) m)) \<and> sink_used w (QFifo f) (snd (q_cancel (QFifo f) m))
    \<and> sink_used w (QFifo f) (snd (q_commit (QFifo f) m))
    \<and> q_held (snd (q_commit (QFifo f) m)) w = drop (ff_peeked f m) (q_held (QFifo f) w)"
proof -
  have m: "m \<in> set (ff_readers f)" and i: "ff_inport f w" using assms(2) by (simp_all add: ff_inport_def)
  note pos = ff_inv_pos [OF assms(1) m]
  let ?tp = "dval (ff_tentative f) m" and ?rp = "dval (ff_read_pos f) m"
  let ?c = "f\<lparr>ff_read_pos := dput m ?tp (ff_read_pos f), ff_exhausted := []\<rparr>"
  have same: "sink_used w (QFifo f) (QFifo (f\<lparr>ff_tentative := dput m p (ff_tentative f)\<rparr>))"
    if "?rp \<le> p" "p \<le> ff_write_pos f" for p
    using ff_set_tentative_inv [OF assms(1) m that] i
    by (simp add: sink_used_def ff_inport_def ff_held_def)
  have peek: "sink_used w (QFifo f) (snd (q_peek (QFifo f) m))"
    using same [of "?tp + 1"] pos assms(1) i
    by (auto simp: q_peek_def ff_peek_cases [OF assms(1) m] sink_used_def)
  have cancel: "sink_used w (QFifo f) (snd (q_cancel (QFifo f) m))"
    using same [of ?rp] pos by (simp add: q_cancel_def ff_cancel_def ff_inv_look [OF assms(1) m])
  have com: "q_commit (QFifo f) m = (Inr False, QFifo ?c)"
    using ff_commit_plain [OF assms(1) m assms(3,4)] by (simp add: q_commit_def)
  have held: "q_held (QFifo ?c) w = drop (ff_peeked f m) (q_held (QFifo f) w)"
    using pos assms(2) ring_slice_drop [of ?rp ?tp "ff_N f" "ff_fifo f" "ff_write_pos f"]
    by (simp add: ff_held_def ff_pending_def ff_peeked_def)
  have "q_held (QFifo f) w = take (ff_peeked f m) (q_held (QFifo f) w) @ q_held (QFifo ?c) w"
    unfolding held by simp
  moreover have "ff_inv ?c" using ff_set_read_inv [OF assms(1) m, of ?tp] pos by simp
  ultimately have "sink_used w (QFifo f) (QFifo ?c)"
    using i unfolding sink_used_def by (auto simp: ff_inport_def)
  with peek cancel com held show ?thesis by simp
qed

theorem actor_reads_are_consume_steps_witness:
  "sink_used ''out'' (QFifo sample_inport) (snd (q_commit (QFifo sample_inport) ''p''))"
  using actor_reads_are_consume_steps [OF sample_inport_inv, of "''p''" "''out''"]
  by (simp add: sample_inport_eq)

end
