(* ===== verification/Actor_Properties.thy ===== *)
theory Actor_Properties
  imports Actor_Lemmas Endpoint_Properties
begin

text \<open>
  What an actor guarantees: a firing that passed its guards completes, actions are tried in priority
  order and one that does not fire changes nothing, the status machine and the start hook, and the
  migration of a port with the tokens in its queue.
\<close>

section \<open>A sample actor\<close>

text \<open>One action that copies its input to its output, as \<open>std.Identity\<close> does.\<close>

definition copy_action :: "unit action" where
  "copy_action = \<lparr>an_name = ''identity'', an_guard = None, an_inputs = [''token''], an_outputs = [''token''],
                  an_body = (\<lambda>v args. (Inr args, v))\<rparr>"

definition copy_class :: "unit actor_class" where
  "copy_class = \<lparr>cl_type = ''std.Identity'', cl_priority = [copy_action],
                 cl_exception_handler = (\<lambda>v a args. (Inr args, v)),
                 cl_will_start = (\<lambda>v. (Inr (), v)), cl_will_stop = (\<lambda>v. (Inr (), v))\<rparr>"

definition sample_in_port :: "fanout_fifo \<Rightarrow> port" where
  "sample_in_port f = (port_init InDir ''token'' ''p'' no_props)\<lparr>pt_queue := Some (QFifo f)\<rparr>"

definition sample_out_port :: "fanout_fifo \<Rightarrow> port" where
  "sample_out_port f = (port_init OutDir ''token'' ''out'' no_props)\<lparr>pt_queue := Some (QFifo f)\<rparr>"

definition sample_inport_one :: fanout_fifo where
  "sample_inport_one = snd (ff_write sample_inport (Token (PInt 9)))"

lemma sample_inport_one_inv: "ff_inv sample_inport_one"
  using ff_pushed_inv [OF sample_inport_inv, of "Token (PInt 9)"]
  by (simp add: sample_inport_one_def ff_write_eq sample_inport_eq ff_slots_available_def Let_def min_values_def)

definition sample_actor :: "fanout_fifo \<Rightarrow> unit actor" where
  "sample_actor f = (actor_init () ''copy'' ''id'' [] [] False False False)
     \<lparr>ac_inports := [(''token'', sample_in_port f)], ac_outports := [(''token'', sample_out_port sample_fifo)]\<rparr>"

lemma copy_total: "total_action copy_class copy_action"
  by (simp add: total_action_def copy_class_def copy_action_def)

lemma sample_actor_ports:
  assumes "ff_inv f" "ff_reader f ''p''"
  shows "ports_ok inport_ok (ac_inports (sample_actor f)) {''token''}"
    "ports_ok outport_ok (ac_outports (sample_actor f)) {''token''}"
  using assms sample_fifo_inv
  by (simp_all add: ports_ok_def sample_actor_def inport_ok_def outport_ok_def sample_in_port_def
      sample_out_port_def port_init_def Let_def)

lemma sample_actor_free:
  "port_free (ac_inports (sample_actor sample_inport_one)) ''token''"
  "port_free (ac_outports (sample_actor f)) ''token''"
  "\<not> port_free (ac_inports (sample_actor sample_inport)) ''token''"
proof -
  have "q_tokens_available (QFifo sample_inport_one) 1 ''p'' = Inr True"
    "q_tokens_available (QFifo sample_inport) 1 ''p'' = Inr False"
    "q_slots_available (QFifo sample_fifo) 1 ''out'' = Inr True" by code_simp+
  then show "port_free (ac_inports (sample_actor sample_inport_one)) ''token''"
    "port_free (ac_outports (sample_actor f)) ''token''"
    "\<not> port_free (ac_inports (sample_actor sample_inport)) ''token''"
    by (simp_all add: port_free_def sample_actor_def sample_in_port_def sample_out_port_def port_init_def
        port_tokens_available_def ask_queue_def Let_def)
qed

section \<open>Firing\<close>

text \<open>
  C5: A guarded firing is safe when each of its inports has a well formed \<open>FanoutFIFO\<close> that reads for it,
  or an unordered, tagged or all-tagged collecting queue no peer of which is being exhausted, and
  each of its outports a well formed \<open>FanoutFIFO\<close>, or an ordered, round-robin, random or balanced
  dispatching queue in working order.  (Left out, since the guards do not decide whether they raise:
  the mapped queue, where that depends on the value, the any-tagged queue, and ports in the course of
  exhaustion.)  An action whose body and exception handler return one value per output then fires
  exactly when every input has a token and every output a free slot; it completes without any
  exception and leaves all queues well formed, and otherwise it changes nothing and reports whether
  the outputs were available.
\<close>
theorem guarded_firing_safe:
  assumes "ports_ok inport_ok (ac_inports a) I" "ports_ok outport_ok (ac_outports a) U"
    "set (an_inputs act) \<subseteq> I" "set (an_outputs act) \<subseteq> U" "distinct (an_inputs act)" "distinct (an_outputs act)"
    "total_action c act"
  shows "\<exists>fired ok exs a'. fire_condition c act a = (Inr (fired, ok, exs), a')
    \<and> ports_ok inport_ok (ac_inports a') I \<and> ports_ok outport_ok (ac_outports a') U
    \<and> fired = ((\<forall>n \<in> set (an_inputs act). port_free (ac_inports a) n) \<and> (\<forall>n \<in> set (an_outputs act). port_free (ac_outports a) n))
    \<and> ok = (\<forall>n \<in> set (an_outputs act). port_free (ac_outports a) n)
    \<and> (\<not> fired \<longrightarrow> a' = a \<and> exs = []) \<and> ac_fsm a' = ac_fsm a"
  by (rule fire_condition_ok [OF assms])

theorem guarded_firing_safe_witness:
  "\<exists>exs a'. fire_condition copy_class copy_action (sample_actor sample_inport_one) = (Inr (True, True, exs), a')"
proof -
  have "ff_reader sample_inport_one ''p''" by code_simp
  note ports = sample_actor_ports [OF sample_inport_one_inv this]
  have a: "an_inputs copy_action = [''token'']" "an_outputs copy_action = [''token'']"
    by (simp_all add: copy_action_def)
  from guarded_firing_safe [OF ports, of copy_action copy_class] copy_total a sample_actor_free(1,2)
  show ?thesis by auto
qed

text \<open>
  The action list is tried in priority order: if no action before it can fire and an action fires,
  then \<open>fire\<close> has the result and the effect of that action alone.
\<close>
theorem fire_picks_first_ready:
  assumes "cl_priority c = us @ act # vs"
    and "\<forall>b \<in> set us. \<exists>ok. fire_action c b a = (Inr (False, ok, []), a)"
    and "fire_action c act a = (Inr (True, ok, exs), a')"
  shows "fire c a = (Inr (True, ok, exs), a')"
  using fire_list_first [OF assms(2,3), of vs] by (simp add: fire_def assms(1))

definition blocked_action :: "unit action" where
  "blocked_action = copy_action\<lparr>an_guard := Some (\<lambda>v. Inr False)\<rparr>"

definition two_class :: "unit actor_class" where
  "two_class = copy_class\<lparr>cl_priority := [blocked_action, copy_action]\<rparr>"

theorem fire_picks_first_ready_witness:
  "\<exists>exs a'. fire two_class (sample_actor sample_inport_one) = (Inr (True, True, exs), a')"
proof -
  let ?a = "sample_actor sample_inport_one"
  have "ff_reader sample_inport_one ''p''" by code_simp
  note ports = sample_actor_ports [OF sample_inport_one_inv this]
  have a: "an_inputs copy_action = [''token'']" "an_outputs copy_action = [''token'']" "an_guard copy_action = None"
    by (simp_all add: copy_action_def)
  have "total_action two_class copy_action"
    by (simp add: total_action_def two_class_def copy_class_def copy_action_def)
  then obtain exs a' where "fire_condition two_class copy_action ?a = (Inr (True, True, exs), a')"
    using fire_condition_ok [OF ports, of copy_action two_class] a sample_actor_free(1,2) by auto
  then have "fire_action two_class copy_action ?a = (Inr (True, True, exs), a')"
    by (simp add: fire_action_def a)
  moreover have "\<forall>b \<in> set [blocked_action]. \<exists>ok. fire_action two_class b ?a = (Inr (False, ok, []), ?a)"
    by (auto simp: fire_action_def blocked_action_def)
  moreover have "cl_priority two_class = [blocked_action] @ copy_action # []" by (simp add: two_class_def)
  ultimately show ?thesis using fire_picks_first_ready by blast
qed

text \<open>
  A firing attempt that reports that nothing fired has changed nothing: no variable, queue, port
  or status, whatever guards were evaluated on the way.
\<close>
theorem unfired_attempt_changes_nothing:
  assumes "fire c a = (Inr (False, ok, exs), a')"
  shows "a' = a \<and> exs = []"
  using fire_list_unfired [of c "cl_priority c" a ok exs a'] assms by (simp add: fire_def)

theorem unfired_attempt_changes_nothing_witness:
  "\<exists>ok exs a'. fire copy_class (sample_actor sample_inport) = (Inr (False, ok, exs), a')
     \<and> a' = sample_actor sample_inport"
proof -
  let ?a = "sample_actor sample_inport"
  have "ff_reader sample_inport ''p''" by code_simp
  note ports = sample_actor_ports [OF sample_inport_inv this]
  have a: "an_inputs copy_action = [''token'']" "an_outputs copy_action = [''token'']" "an_guard copy_action = None"
    by (simp_all add: copy_action_def)
  obtain ok exs a' where "fire_condition copy_class copy_action ?a = (Inr (False, ok, exs), a')"
    using fire_condition_ok [OF ports, of copy_action copy_class] copy_total a sample_actor_free(3) by auto
  then have "fire copy_class ?a = (Inr (False, ok, exs), a')"
    by (simp add: fire_def copy_class_def fire_action_def a)
  with unfired_attempt_changes_nothing show ?thesis by blast
qed

text \<open>
  An exception in an action body loses the tokens it was given: the inputs are committed before the
  body runs, so when it raises the actor is left with them consumed, with no output written.
\<close>
theorem failing_body_loses_inputs:
  assumes "ports_ok inport_ok (ac_inports a) I" "set (an_inputs act) \<subseteq> I" "distinct (an_inputs act)"
    and "\<forall>n \<in> set (an_inputs act). port_free (ac_inports a) n"
    and "ports_available (ac_outports a) (an_outputs act) = Inr True"
    and "\<And>v args. fst (an_body act v args) = Inl e" "\<And>v n args. fst (cl_exception_handler c v n args) = Inl e"
  shows "\<exists>ts exs d v. read_inputs a (an_inputs act) = (Inr (ts, exs), a\<lparr>ac_inports := d\<rparr>)
    \<and> length ts = length (an_inputs act)
    \<and> fire_condition c act a = (Inl e, a\<lparr>ac_inports := d, ac_vars := v\<rparr>)"
proof -
  have av: "ports_available (ac_inports a) (an_inputs act) = Inr True"
    using ports_available_ok [OF inport_available assms(1,2)] assms(4) by simp
  obtain ts exs d where r: "read_inputs a (an_inputs act) = (Inr (ts, exs), a\<lparr>ac_inports := d\<rparr>)"
      "length ts = length (an_inputs act)"
    using read_inputs_ok [OF assms(3,2,1,4)] by blast
  let ?run = "if list_ex is_exception_token ts
              then cl_exception_handler c (ac_vars a) (an_name act) (map as_argument ts)
              else an_body act (ac_vars a) (map as_argument ts)"
  obtain x v where run: "?run = (x, v)" by (rule prod.exhaust)
  have "fst ?run = Inl e" using assms(6,7) by simp
  then have "?run = (Inl e, v)" using run by (simp del: split_paired_Ex)
  then have "fire_condition c act a = (Inl e, a\<lparr>ac_inports := d, ac_vars := v\<rparr>)"
    using av assms(5) r(1) by (cases "list_ex is_exception_token ts") (simp_all add: fire_condition_def Let_def)
  with r show ?thesis by blast
qed

definition failing_action :: "unit action" where
  "failing_action = copy_action\<lparr>an_body := (\<lambda>v args. (Inl TypeError, v))\<rparr>"

definition failing_class :: "unit actor_class" where
  "failing_class = copy_class\<lparr>cl_exception_handler := (\<lambda>v a args. (Inl TypeError, v))\<rparr>"

theorem failing_body_loses_inputs_witness:
  "\<exists>d v. fire_condition failing_class failing_action (sample_actor sample_inport_one)
    = (Inl TypeError, (sample_actor sample_inport_one)\<lparr>ac_inports := d, ac_vars := v\<rparr>)"
proof -
  let ?a = "sample_actor sample_inport_one"
  have "ff_reader sample_inport_one ''p''" by code_simp
  note ports = sample_actor_ports [OF sample_inport_one_inv this]
  have f: "an_inputs failing_action = [''token'']" "an_outputs failing_action = [''token'']"
    by (simp_all add: failing_action_def copy_action_def)
  have "ports_available (ac_outports ?a) [''token''] = Inr True"
    using sample_actor_free(2) [of sample_inport_one] by (auto simp: port_free_def)
  with failing_body_loses_inputs [OF ports(1), of failing_action TypeError failing_class] f sample_actor_free(1)
  show ?thesis by (auto simp: failing_action_def failing_class_def)
qed
section \<open>Status\<close>

text \<open>
  Unless its checks are switched off, the status machine only follows \<open>VALID_TRANSITIONS\<close>:
  a successful transition goes along an edge of the table and ends in the requested state, and a
  request off the table raises and changes nothing.
\<close>
theorem status_follows_table:
  assumes "\<not> fsm_no_transition_checks (ac_fsm a)" "\<not> fsm_allow_invalid (ac_fsm a)"
    and "transition_to c a new = (r, a')"
  shows "(r = Inr () \<longrightarrow> new \<in> set (valid_transitions (status_of a)) \<and> status_of a' = new)
    \<and> (new \<notin> set (valid_transitions (status_of a)) \<longrightarrow> r = Inl (PyException ''Invalid transition'') \<and> a' = a)"
proof (intro conjI impI)
  show "new \<in> set (valid_transitions (status_of a))" "status_of a' = new" if "r = Inr ()"
    using transition_to_strict [OF assms(1,2)] assms(3) that by blast+
  show "r = Inl (PyException ''Invalid transition'')" "a' = a" if "new \<notin> set (valid_transitions (status_of a))"
    using assms that by (simp_all add: transition_to_def)
qed

theorem status_follows_table_witness:
  "transition_to copy_class (sample_actor sample_inport) ENABLED
    = (Inl (PyException ''Invalid transition''), sample_actor sample_inport)"
proof -
  let ?a = "sample_actor sample_inport"
  have "\<not> fsm_no_transition_checks (ac_fsm ?a)" "\<not> fsm_allow_invalid (ac_fsm ?a)" "status_of ?a = LOADED"
    by (simp_all add: sample_actor_def actor_init_def)
  with status_follows_table [of ?a copy_class ENABLED] show ?thesis
    by (cases "transition_to copy_class ?a ENABLED") auto
qed

text \<open>
  C18: In every run of set-up, connects, disconnects, authorization checks, retries and migration replies
  in which each call comes in a status its \<open>verify_status\<close> decorator declares (the decorator
  itself only logs a violation; the check before a firing counts with \<open>fire\<close>), and whether or not
  invalid transitions are allowed, the actor is never enabled, denied or migratable before its start
  hook has run.
\<close>
theorem enabled_only_after_start:
  assumes "status_of a = LOADED" "as_declared ps c evs a"
  shows "let a' = fold (lifecycle_step ps c) evs a
    in status_of a' \<in> {ENABLED, DENIED, MIGRATABLE} \<longrightarrow> ac_has_started a'"
  using lifecycle_started [OF _ assms(2)] assms(1) by (simp add: Let_def started_ok_def)

theorem enabled_only_after_start_witness:
  "let a' = fold (lifecycle_step (\<lambda>p. None) copy_class) [EvSetup, EvConnect, EvAuthorize, EvConnect]
        (actor_init () ''copy'' ''id'' [] [] True False False)
   in status_of a' = ENABLED \<and> ac_has_started a'"
proof -
  define a :: "unit actor" where "a = actor_init () ''copy'' ''id'' [] [] True False False"
  define evs where "evs = [EvSetup, EvConnect, EvAuthorize, EvConnect]"
  have "status_of a = LOADED" by (simp add: a_def actor_init_def)
  moreover have "as_declared (\<lambda>p. None) copy_class evs a" unfolding a_def evs_def by code_simp
  moreover have "status_of (fold (lifecycle_step (\<lambda>p. None) copy_class) evs a) = ENABLED"
    unfolding a_def evs_def by code_simp
  ultimately show ?thesis
    using enabled_only_after_start [of a "\<lambda>p. None" copy_class evs] by (simp only: Let_def a_def evs_def) blast
qed

section \<open>Migration\<close>

text \<open>
  C17: Migrating a port keeps its tokens: the serialised state of a port with a FanoutFIFO, installed
  in a newly created port and then given a new FanoutFIFO when it is connected, has the same name
  and id, and for every reader the same pending tokens, peeked tokens and sequence numbers.
\<close>
theorem port_migration_keeps_tokens:
  assumes "pt_queue p = Some (QFifo f)" "ff_inv f" "ff_type f = ''fanout_fifo''"
  shows "\<exists>s p1 p2 f2. port_get_state p = Inr s
    \<and> port_set_state (port_init dir n i pp) s = (Inr (), p1)
    \<and> port_set_queue p1 (Some (QFifo (ff_init pp2))) = (Inr (), p2)
    \<and> pt_queue p2 = Some (QFifo f2) \<and> pt_name p2 = pt_name p \<and> pt_id p2 = pt_id p \<and> ff_inv f2
    \<and> ff_readers f2 = ff_readers f \<and> ff_write_pos f2 = ff_write_pos f
    \<and> (\<forall>r. ff_pending f2 r = ff_pending f r \<and> ff_peeked f2 r = ff_peeked f r \<and> ff_base f2 r = ff_base f r)"
proof -
  have rd: "remdups (ff_readers f) = ff_readers f" using assms(2) by (simp add: ff_inv_def distinct_remdups_id)
  let ?s = "\<lparr>ps_name = pt_name p, ps_id = pt_id p, ps_queue = StFifo (ff_get_state f), ps_properties = pt_props p\<rparr>"
  let ?p0 = "port_init dir n i pp"
  let ?p1 = "?p0\<lparr>pt_name := pt_name p, pt_id := pt_id p, pt_props := props_update (pt_props ?p0) (pt_props p),
               pt_queue := Some (QNone (StFifo (ff_get_state f)))\<rparr>"
  let ?f2 = "snd (ff_set_state (ff_init pp2) (ff_get_state f))"
  have get: "port_get_state p = Inr ?s"
    using assms(1) by (simp add: port_get_state_def ask_queue_def q_get_state_def)
  have set: "port_set_state ?p0 ?s = (Inr (), ?p1)"
    by (simp add: port_set_state_def on_queue_def port_init_def Let_def q_set_state_def queue_none_def)
  have f2: "ff_set_state (ff_init pp2) (ff_get_state f) = (Inr (), ?f2)"
    by (simp add: ff_set_state_def ff_get_state_def Let_def)
  have ty: "queue_type (QNone (StFifo (ff_get_state f))) = queue_type (QFifo (ff_init pp2))"
    using assms(3) by (simp add: ff_get_state_def ff_init_def Let_def)
  have q: "port_set_queue ?p1 (Some (QFifo (ff_init pp2))) = (Inr (), ?p1\<lparr>pt_queue := Some (QFifo ?f2)\<rparr>)"
  proof -
    have "q_set_state (QFifo (ff_init pp2)) (StFifo (ff_get_state f)) = (Inr (), QFifo ?f2)"
      unfolding q_set_state_def prod.case any_queue.case queue_state.case by (subst f2) simp
    then show ?thesis
      unfolding port_set_queue_def using ty by (simp add: q_get_state_def del: queue_type.simps)
  qed
  have v: "ff_inv ?f2" "ff_readers ?f2 = ff_readers f" "ff_write_pos ?f2 = ff_write_pos f"
    "ff_pending ?f2 r = ff_pending f r" "ff_peeked ?f2 r = ff_peeked f r" "ff_base ?f2 r = ff_base f r" for r
    using assms(2) rd
    by (simp_all add: ff_set_state_def ff_get_state_def ff_init_def Let_def opt_default_def ff_inv_def
        ff_pending_def ff_peeked_def ff_base_def)
  show ?thesis
    by (intro exI [of _ ?s] exI [of _ ?p1] exI [of _ "?p1\<lparr>pt_queue := Some (QFifo ?f2)\<rparr>"] exI [of _ ?f2]
        conjI allI get set q) (simp_all add: v)
qed

theorem port_migration_keeps_tokens_witness:
  "\<exists>s p1 p2 f2. port_get_state (sample_in_port sample_inport_one) = Inr s
    \<and> port_set_state (port_init InDir ''token'' ''new'' no_props) s = (Inr (), p1)
    \<and> port_set_queue p1 (Some (QFifo (ff_init sample_props))) = (Inr (), p2)
    \<and> pt_queue p2 = Some (QFifo f2) \<and> ff_pending f2 ''p'' = [Token (PInt 9)]"
proof -
  have "ff_pending sample_inport_one ''p'' = [Token (PInt 9)]" "ff_type sample_inport_one = ''fanout_fifo''"
    by code_simp+
  moreover have "pt_queue (sample_in_port sample_inport_one) = Some (QFifo sample_inport_one)"
    by (simp add: sample_in_port_def)
  ultimately show ?thesis
    using port_migration_keeps_tokens [OF _ sample_inport_one_inv, of "sample_in_port sample_inport_one"
        InDir "''token''" "''new''" no_props sample_props] by metis
qed

end
