(* ===== verification/Scheduler_Properties.thy ===== *)
theory Scheduler_Properties
  imports Scheduler_Lemmas Actor_Properties
begin

text \<open>
  What the scheduler guarantees: the task loop cannot stop, every request is served in time, a time
  slice ends, a denied actor stays silent, back-off is bounded; and where wake-ups and exhaustion
  reports get lost.
\<close>

section \<open>The task loop\<close>


text \<open>Handlers that do nothing, and handlers whose strategy raises.\<close>

definition idle_handlers :: "unit handlers" where
  "idle_handlers = \<lparr>hd_replication = (\<lambda>w. ([], Inr (), w)), hd_pressure = (\<lambda>ids w. ([], Inr (), w)),
     hd_maintenance = (\<lambda>w. ([], Inr (), w)), hd_strategy = (\<lambda>w. ([], Inr False, w))\<rparr>"

definition raising_handlers :: "unit handlers" where
  "raising_handlers = idle_handlers\<lparr>hd_strategy := (\<lambda>w. ([], Inl (AttributeError ''pressure_count''), w))\<rparr>"


text \<open>
  C36: One exception can stop the scheduler for good: when a task raises while the next one is already
  overdue, and all that was requested before it raised was asked for with a delay that is not negative,
  the timer is not set again; and since a request only sets it when its task comes in first,
  no sequence of later requests, with delays that are not negative either, gets any task run: they pile up.
\<close>
theorem exception_stops_scheduler:
  assumes "process_next h now (s, w) = (Inl e, s', w')" "sc_tasks s = (t, k) # (t1, k1) # rest" "t1 \<le> now"
    and "\<And>rs e. handler_raises h rs e \<Longrightarrow> \<forall>(k, d) \<in> set rs. 0 \<le> d" "list_all (later_request now) xs"
  shows "\<exists>s2. sched_steps h xs (s', w') = ([], s2, w') \<and> \<not> timer_active s2 \<and> sc_tasks s2 \<noteq> []"
  using stalled_steps [of now "(s', w')" xs h] process_next_stalls [OF assms(1-4)] assms(5)
  by (auto simp: stalled_def)

theorem exception_stops_scheduler_witness:
  "\<exists>s1 s2. process_next raising_handlers 10 (insert_task 0 CheckPressure 5 (insert_task 0 Strategy 1 (sched_init None)), ())
      = (Inl (AttributeError ''pressure_count''), s1, ())
    \<and> sched_steps raising_handlers [Ask 11 Strategy 0, Tick 12, Ask 12 MaintenanceLoop 0, Tick 60] (s1, ()) = ([], s2, ())"
proof -
  let ?s = "insert_task 0 CheckPressure 5 (insert_task 0 Strategy 1 (sched_init None))"
  have tasks: "sc_tasks ?s = [(1, Strategy), (5, CheckPressure)]"
    by (simp add: insert_task_def sched_init_def schedule_next_def Let_def)
  obtain s1 where p: "process_next raising_handlers 10 (?s, ()) = (Inl (AttributeError ''pressure_count''), s1, ())"
    using tasks by (auto simp: process_next_def run_task_def run_strategy_def raising_handlers_def idle_handlers_def)
  have "\<forall>(k, d) \<in> set rs. 0 \<le> d" if "handler_raises raising_handlers rs e" for rs e
    using that by (auto simp: handler_raises_def raising_handlers_def idle_handlers_def)
  with exception_stops_scheduler [OF p tasks, of "[Ask 11 Strategy 0, Tick 12, Ask 12 MaintenanceLoop 0, Tick 60]"] p
  show ?thesis by auto
qed

text \<open>
  A requested task is never forgotten or late: after \<open>insert_task\<close> the list is still in time
  order, has lost nothing, holds the task with a due time no later than asked for, and the timer
  goes off no later than the first task (or at once if that is overdue).
\<close>
theorem requested_task_is_scheduled:
  assumes "tasks_sorted s" "timer_ok now s"
  shows "let s' = insert_task now k delay s
    in tasks_sorted s' \<and> timer_ok now s' \<and> set (sc_tasks s) \<subseteq> set (sc_tasks s')
      \<and> (\<exists>t. (t, k) \<in> set (sc_tasks s') \<and> t \<le> now + delay)"
  using insert_task_sorted [OF assms(1)] insert_task_timer [OF assms(2)] insert_task_set(1) insert_task_served
  by (simp add: Let_def)

theorem requested_task_is_scheduled_witness:
  "\<exists>t. (t, CheckReplication) \<in> set (sc_tasks (insert_task 5 CheckReplication 2 (sched_init None))) \<and> t \<le> 7"
proof -
  have "tasks_sorted (sched_init None)" "timer_ok 5 (sched_init None)"
    by (simp_all add: tasks_sorted_def timer_ok_def sched_init_def)
  from requested_task_is_scheduled [OF this, of CheckReplication 2] show ?thesis by (simp add: Let_def)
qed

section \<open>Firing in time slices\<close>

text \<open>
  C35: The time-sliced firing of an actor returns: if the time is up after the \<open>K\<close>-th firing at the
  latest, \<open>_fire_actor\<close> gives a result, whatever the actor does.
\<close>
theorem time_slice_ends:
  assumes "late K"
  shows "\<exists>r. fire_actor ps c late a = Some r"
  using fire_rounds_returns [where late = late and K = K and k = 0 and c = c and did = False] assms
  by (auto simp: fire_actor_def split: prod.splits sum.splits)

theorem time_slice_ends_witness:
  "\<exists>r. fire_actor (\<lambda>p. None) copy_class (\<lambda>k. 100 \<le> k) (sample_actor sample_inport_one) = Some r"
  by (rule time_slice_ends [of _ 100]) simp

text \<open>
  The non-preemptive variant has no such limit: an authorized actor that is always able to fire
  again (a source, for instance) keeps the scheduler for ever.
\<close>
theorem non_preemptive_may_not_return:
  assumes "\<And>b. P b \<Longrightarrow> \<exists>ok exs b'. fire c b = (Inr (True, ok, exs), b') \<and> P b'"
    and "P a" "check_authorization_decision ps a"
  shows "fire_actor_non_preemptive ps c a = None"
  using fire_rounds_endless [of P c, OF assms(1), of a 0 False] assms(2,3)
  by (simp add: fire_actor_non_preemptive_def fire_actor_def authorized_def)

definition tick_action :: "unit action" where
  "tick_action = \<lparr>an_name = ''tick'', an_guard = None, an_inputs = [], an_outputs = [], an_body = (\<lambda>v args. (Inr [], v))\<rparr>"

definition tick_class :: "unit actor_class" where
  "tick_class = copy_class\<lparr>cl_priority := [tick_action]\<rparr>"

theorem non_preemptive_may_not_return_witness:
  "fire_actor_non_preemptive (\<lambda>p. None) tick_class (sample_actor sample_inport) = None"
proof (rule non_preemptive_may_not_return [where P = "\<lambda>b. True"])
  show "\<exists>ok exs b'. fire tick_class b = (Inr (True, ok, exs), b') \<and> True" for b
    by (auto simp: fire_def tick_class_def fire_action_def tick_action_def fire_condition_def)
  show "check_authorization_decision (\<lambda>p. None) (sample_actor sample_inport)"
    by (simp add: check_authorization_decision_def sample_actor_def actor_init_def)
qed simp

text \<open>
  C19: An actor whose authorization is denied does not fire.  In a round of \<open>_fire_actors\<close> over actors
  with different ids, whatever the other actors do (exceptions included) and whatever actions its own
  class has, a denied actor ends exactly as it was but for its status: no variable, no token of any
  port and no flag has changed.  The status is DENIED, unless the status machine refuses the change;
  the actor is not among those that fired, and it is no longer enabled, unless it is being exhausted.
\<close>
theorem denied_actor_does_not_fire:
  assumes "fire_actors ps late as = Some (ids, bs)" "distinct (map (ac_id \<circ> snd) as)"
    and "i < length as" "as ! i = (c, a)" "\<not> check_authorization_decision ps a"
  shows "bs ! i = (if may_deny a then set_status a DENIED else a) \<and> ac_id a \<notin> set ids
    \<and> (may_deny a \<and> \<not> ac_exhaust_cb a \<longrightarrow> \<not> enabled (bs ! i))"
proof -
  have b: "bs ! i = (if may_deny a then set_status a DENIED else a)"
    using fire_actors_nth [OF assms(1,3,4)] fire_actor_denied [OF assms(5)] by (auto split: if_splits)
  have "ac_id a \<notin> set ids"
  proof
    assume "ac_id a \<in> set ids"
    then obtain d e where m: "(d, e) \<in> set as" "ac_id a = ac_id e" "check_authorization_decision ps e"
      using fire_actors_ids [OF assms(1)] by blast
    then obtain j where j: "j < length as" "as ! j = (d, e)" by (auto simp: in_set_conv_nth)
    then have "map (ac_id \<circ> snd) as ! j = map (ac_id \<circ> snd) as ! i" using m(2) assms(3,4) by simp
    then have "j = i" using nth_eq_iff_index_eq [OF assms(2), of j i] assms(3) j(1) by simp
    with j(2) m(3) assms(4,5) show False by simp
  qed
  with b show ?thesis by (simp add: enabled_def set_status_def)
qed

theorem denied_actor_does_not_fire_witness:
  "\<exists>ids bs. fire_actors (\<lambda>p. None) (\<lambda>i k. True) [(tick_class, (sample_actor sample_inport_one)
        \<lparr>ac_authorization := [PluginC \<lparr>pg_id = ''time_range'', pg_attributes = []\<rparr>], ac_fsm := \<lparr>fsm_state = ENABLED,
          fsm_allow_invalid = True, fsm_no_transition_checks = False, fsm_no_state_checks = False\<rparr>\<rparr>)] = Some (ids, bs)
    \<and> status_of (bs ! 0) = DENIED \<and> ids = []"
proof -
  define a where "a = (sample_actor sample_inport_one)
      \<lparr>ac_authorization := [PluginC \<lparr>pg_id = ''time_range'', pg_attributes = []\<rparr>], ac_fsm := \<lparr>fsm_state = ENABLED,
        fsm_allow_invalid = True, fsm_no_transition_checks = False, fsm_no_state_checks = False\<rparr>\<rparr>"
  have d: "\<not> check_authorization_decision (\<lambda>p. None) a" and m: "may_deny a"
    by (simp_all add: a_def check_authorization_decision_def check_plugin_list_def may_deny_def)
  obtain r b where "fire_actor (\<lambda>p. None) tick_class ((\<lambda>i k. True) (ac_id a)) a = Some (r, b)"
    using fire_actor_denied [OF d] by (metis surj_pair)
  then obtain ids bs where f: "fire_actors (\<lambda>p. None) (\<lambda>i k. True) [(tick_class, a)] = Some (ids, bs)" by simp
  from denied_actor_does_not_fire [OF f, of 0 tick_class a] d m
  have "bs ! 0 = set_status a DENIED" "ac_id a \<notin> set ids" by simp_all
  moreover have "set ids \<subseteq> {ac_id a}" using fire_actors_ids [OF f] by auto
  ultimately have "status_of (bs ! 0) = DENIED" "ids = []" by (simp add: set_status_def, cases ids) auto
  with f show ?thesis unfolding a_def by auto
qed

text \<open>
  The end of an exhaustion is never noticed by firing: \<open>_fire_actor_once\<close> hands exhausted ports on
  only when the attempt did not fire, and then the report is always empty; a firing that did consume
  the last token of an exhausted port returns with its report dropped.
\<close>
theorem exhaustion_reports_dropped:
  assumes "authorized ps c a = (Inr (True, x), a1)" "fire c a1 = (Inr (fired, ok, exs), a2)"
  shows "fire_actor_once ps c a =
    (if fired then (Inr True, a2) else and_then (handle_exhaustion c a1 [] ok) (\<lambda>_ a3. (Inr False, a3)))"
  using fire_actor_once_fired [OF assms(1)] fire_actor_once_unfired [OF assms(1)] assms(2) by (cases fired) auto

theorem exhaustion_reports_dropped_witness:
  "\<exists>a2. fire_actor_once (\<lambda>p. None) tick_class (sample_actor sample_inport) = (Inr True, a2)"
proof -
  let ?a = "sample_actor sample_inport"
  have "authorized (\<lambda>p. None) tick_class ?a = (Inr (True, False), ?a)"
    by (simp add: authorized_def check_authorization_decision_def sample_actor_def actor_init_def)
  moreover have "fire tick_class ?a = (Inr (True, True, []), ?a)"
    by (simp add: fire_def tick_class_def fire_action_def tick_action_def fire_condition_def)
  ultimately show ?thesis using exhaustion_reports_dropped by fastforce
qed

section \<open>Back-off\<close>

text \<open>
  The back-off of a refused endpoint is between a tenth of a second and one second, doubling with
  each refusal in between, so an endpoint is never put off for longer than one second.
\<close>
theorem backoff_bounded:
  assumes "backoff_ok now m"
  shows "backoff_ok now (set_backoff now e m)
    \<and> (\<exists>bo. dget (mo_backoff (set_backoff now e m)) e = Some (now + bo, bo) \<and> 1 / 10 \<le> bo \<and> bo \<le> 1
        \<and> (\<forall>tc old. dget (mo_backoff m) e = Some (tc, old) \<longrightarrow> bo = min 1 (old * 2)))"
proof -
  obtain bo where bo: "dget (mo_backoff (set_backoff now e m)) e = Some (now + bo, bo)" "1 / 10 \<le> bo" "bo \<le> 1"
    using set_backoff_ok(2) [OF assms] by blast
  have "bo = min 1 (old * 2)" if "dget (mo_backoff m) e = Some (tc, old)" for tc old
  proof -
    have "1 / 10 \<le> old" using assms that unfolding backoff_ok_def by blast
    from set_backoff_doubles [OF that this, of now] bo(1) show ?thesis by simp
  qed
  with bo set_backoff_ok(1) [OF assms] show ?thesis by blast
qed

theorem backoff_bounded_witness:
  "\<exists>bo. dget (mo_backoff (set_backoff 3 (''p'', ''q'') (set_backoff 3 (''p'', ''q'') monitor_init))) (''p'', ''q'')
    = Some (3 + bo, bo) \<and> bo \<le> 1"
proof -
  have "backoff_ok 3 monitor_init" by (simp add: backoff_ok_def monitor_init_def)
  from set_backoff_ok(1) [OF this] have "backoff_ok 3 (set_backoff 3 (''p'', ''q'') monitor_init)" .
  from backoff_bounded [OF this, of "(''p'', ''q'')"] show ?thesis by blast
qed

text \<open>
  A wake-up can be missing: after a refusal the strategy is scheduled for the earliest end of all
  back-offs, so when another endpoint's back-off ends first, nothing new is scheduled for the end
  of the refused endpoint's own.
\<close>
theorem nack_schedules_earliest_only:
  assumes "dget (mo_backoff m) other = Some (tc, bo)" "other \<noteq> e" "tunnel_tx_nack now e (s, m) = (s', m')"
    "x \<in> set (sc_tasks s')" "x \<notin> set (sc_tasks s)"
  shows "snd x = Strategy \<and> fst x \<le> max now tc"
  by (rule nack_schedules_first_slot [OF assms])

theorem nack_schedules_earliest_only_witness:
  "\<exists>s' m' x. tunnel_tx_nack 5 (''p'', ''q'') (sched_init None, set_backoff 5 (''a'', ''b'') monitor_init) = (s', m')
    \<and> x \<in> set (sc_tasks s') \<and> fst x \<le> 5 + 1 / 10"
proof -
  let ?m = "set_backoff 5 (''a'', ''b'') monitor_init" and ?e = "(''p'', ''q'')"
  have d: "dget (mo_backoff ?m) (''a'', ''b'') = Some (5 + 1 / 10, 1 / 10)"
    by (simp add: set_backoff_def monitor_init_def dput_def Let_def)
  obtain s' m' where r: "tunnel_tx_nack 5 ?e (sched_init None, ?m) = (s', m')" by (rule prod.exhaust)
  have s': "sc_tasks s' = [(5 + 1 / 10, Strategy)]"
    using r by (auto simp: tunnel_tx_nack_def set_backoff_def monitor_init_def dput_def Let_def next_slot_def
        insert_task_def sched_init_def schedule_next_def)
  have "(5 + 1 / 10, Strategy) \<in> set (sc_tasks s')" "(5 + 1 / 10, Strategy) \<notin> set (sc_tasks (sched_init None))"
    by (simp_all add: s' sched_init_def)
  from nack_schedules_earliest_only [OF d _ r this] r this(1) show ?thesis by auto
qed
end
