(* ===== verification/Attribute_Index.thy ===== *)
theory Attribute_Index
  imports Calvin_Token "HOL-Library.Sublist"
begin

text \<open>
  Node attributes (utilities/attribute_resolver.py): resolving attributes to ordered lists of
  index words, encoding such a list as an index path with escapes, decoding it, and formatting
  search strings.  Text is a list of characters.
\<close>

section \<open>Characters and replacement\<close>

abbreviation bsl :: char where "bsl \<equiv> CHR 0x5C"
abbreviation slash :: char where "slash \<equiv> CHR 0x2F"

text \<open>\<open>s.replace(p, r)\<close> for a non-empty \<open>p\<close>: occurrences from the left, not overlapping.\<close>

function py_replace :: "string \<Rightarrow> string \<Rightarrow> string \<Rightarrow> string" where
  "py_replace p r [] = []"
| "py_replace p r (c # cs) =
     (if p \<noteq> [] \<and> prefix p (c # cs) then r @ py_replace p r (drop (length p) (c # cs))
      else c # py_replace p r cs)"
  by pat_completeness auto
termination
proof (relation "measure (\<lambda>(p, r, s). length s)")
  fix p r :: string and c :: char and cs :: string
  assume "p \<noteq> [] \<and> prefix p (c # cs)"
  then have "0 < length p" by simp
  then show "((p, r, drop (length p) (c # cs)), p, r, c # cs) \<in> measure (\<lambda>(p, r, s). length s)" by simp
qed simp_all

section \<open>Keys\<close>

definition owner_keys :: "string list" where
  "owner_keys = [''organization'', ''organizationalUnit'', ''role'', ''personOrGroup'']"

definition node_name_keys :: "string list" where
  "node_name_keys = [''organization'', ''organizationalUnit'', ''purpose'', ''group'', ''name'']"

definition address_keys :: "string list" where
  "address_keys = [''country'', ''stateOrProvince'', ''locality'', ''street'', ''streetNumber'',
     ''building'', ''floor'', ''room'']"

definition cpuAvail_keys :: "string list" where
  "cpuAvail_keys = [''0'', ''25'', ''50'', ''75'', ''100'']"

definition cpuAffinity_keys :: "string list" where
  "cpuAffinity_keys = [''dedicated'']"

definition cpuTotal_keys :: "string list" where
  "cpuTotal_keys = [''1'', ''1000'', ''100000'', ''1000000'', ''10000000'']"

definition memAvail_keys :: "string list" where
  "memAvail_keys = [''0'', ''25'', ''50'', ''75'', ''100'']"

definition memTotal_keys :: "string list" where
  "memTotal_keys = [''1K'', ''100K'', ''1M'', ''100M'', ''1G'', ''10G'']"

definition resource_list :: "string list" where
  "resource_list = [''cpuAvail'', ''memAvail'']"

definition countries :: "string list" where
  "countries = [
    ''AD'', ''AE'', ''AF'', ''AG'', ''AI'', ''AL'', ''AM'', ''AO'', ''AQ'', ''AR'', ''AS'', ''AT'',
    ''AU'', ''AW'', ''AX'', ''AZ'', ''BA'', ''BB'', ''BD'', ''BE'', ''BF'', ''BG'', ''BH'', ''BI'',
    ''BJ'', ''BL'', ''BM'', ''BN'', ''BO'', ''BQ'', ''BR'', ''BS'', ''BT'', ''BV'', ''BW'', ''BY'',
    ''BZ'', ''CA'', ''CC'', ''CD'', ''CF'', ''CG'', ''CH'', ''CI'', ''CK'', ''CL'', ''CM'', ''CN'',
    ''CO'', ''CR'', ''CU'', ''CV'', ''CW'', ''CX'', ''CY'', ''CZ'', ''DE'', ''DJ'', ''DK'', ''DM'',
    ''DO'', ''DZ'', ''EC'', ''EE'', ''EG'', ''EH'', ''ER'', ''ES'', ''ET'', ''FI'', ''FJ'', ''FK'',
    ''FM'', ''FO'', ''FR'', ''GA'', ''GB'', ''GD'', ''GE'', ''GF'', ''GG'', ''GH'', ''GI'', ''GL'',
    ''GM'', ''GN'', ''GP'', ''GQ'', ''GR'', ''GS'', ''GT'', ''GU'', ''GW'', ''GY'', ''HK'', ''HM'',
    ''HN'', ''HR'', ''HT'', ''HU'', ''ID'', ''IE'', ''IL'', ''IM'', ''IN'', ''IO'', ''IQ'', ''IR'',
    ''IS'', ''IT'', ''JE'', ''JM'', ''JO'', ''JP'', ''KE'', ''KG'', ''KH'', ''KI'', ''KM'', ''KN'',
    ''KP'', ''KR'', ''KW'', ''KY'', ''KZ'', ''LA'', ''LB'', ''LC'', ''LI'', ''LK'', ''LR'', ''LS'',
    ''LT'', ''LU'', ''LV'', ''LY'', ''MA'', ''MC'', ''MD'', ''ME'', ''MF'', ''MG'', ''MH'', ''MK'',
    ''ML'', ''MM'', ''MN'', ''MO'', ''MP'', ''MQ'', ''MR'', ''MS'', ''MT'', ''MU'', ''MV'', ''MW'',
    ''MX'', ''MY'', ''MZ'', ''NA'', ''NC'', ''NE'', ''NF'', ''NG'', ''NI'', ''NL'', ''NO'', ''NP'',
    ''NR'', ''NU'', ''NZ'', ''OM'', ''PA'', ''PE'', ''PF'', ''PG'', ''PH'', ''PK'', ''PL'', ''PM'',
    ''PN'', ''PR'', ''PS'', ''PT'', ''PW'', ''PY'', ''QA'', ''RE'', ''RO'', ''RS'', ''RU'', ''RW'',
    ''SA'', ''SB'', ''SC'', ''SD'', ''SE'', ''SG'', ''SH'', ''SI'', ''SJ'', ''SK'', ''SL'', ''SM'',
    ''SN'', ''SO'', ''SR'', ''SS'', ''ST'', ''SV'', ''SX'', ''SY'', ''SZ'', ''TC'', ''TD'', ''TF'',
    ''TG'', ''TH'', ''TJ'', ''TK'', ''TL'', ''TM'', ''TN'', ''TO'', ''TR'', ''TT'', ''TV'', ''TW'',
    ''TZ'', ''UA'', ''UG'', ''UM'', ''US'', ''UY'', ''UZ'', ''VA'', ''VC'', ''VE'', ''VG'', ''VI'',
    ''VN'', ''VU'', ''WF'', ''WS'', ''YE'', ''YT'', ''ZA'', ''ZM'', ''ZW'']"

section \<open>Resolving\<close>

text \<open>
  \<open>_to_unicode\<close>: text is kept; \<open>str_of\<close> stands for Python's \<open>str\<close> on other values.
\<close>

definition to_unicode :: "(pyval \<Rightarrow> string) \<Rightarrow> pyval \<Rightarrow> string" where
  "to_unicode str_of v = (case v of PStr s \<Rightarrow> s | _ \<Rightarrow> str_of v)"

definition resolve_keys :: "(pyval \<Rightarrow> string) \<Rightarrow> string list \<Rightarrow> (pyval, pyval) dict \<Rightarrow> pyval list" where
  "resolve_keys str_of ks d =
     map (\<lambda>k. case dget d (PStr k) of None \<Rightarrow> PNone | Some v \<Rightarrow> PStr (to_unicode str_of v)) ks"

definition owner_resolver :: "(pyval \<Rightarrow> string) \<Rightarrow> pyval \<Rightarrow> pyval list res" where
  "owner_resolver str_of attr =
     (case attr of
        PDict d \<Rightarrow> Inr (resolve_keys str_of owner_keys d)
      | _ \<Rightarrow> Inl (PyException ''Owner attribute must be a dictionary''))"

definition node_name_resolver :: "(pyval \<Rightarrow> string) \<Rightarrow> pyval \<Rightarrow> pyval list res" where
  "node_name_resolver str_of attr =
     (case attr of
        PDict d \<Rightarrow> Inr (resolve_keys str_of node_name_keys d)
      | _ \<Rightarrow> Inl (PyException ''Node name attribute must be a dictionary''))"

text \<open>\<open>upper\<close> on ASCII letters.\<close>

definition upper_char :: "char \<Rightarrow> char" where
  "upper_char c = (if 97 \<le> (of_char c :: nat) \<and> (of_char c :: nat) \<le> 122 then char_of ((of_char c :: nat) - 32) else c)"

definition py_upper :: "string \<Rightarrow> string" where
  "py_upper s = map upper_char s"

definition address_country :: "(pyval, pyval) dict \<Rightarrow> (pyval, pyval) dict res" where
  "address_country d =
     (case dget d (PStr ''country'') of
        None \<Rightarrow> if PStr ''stateOrProvince'' \<in> dkeys d
                then Inl (PyException ''country required for stateOrProvince'') else Inr d
      | Some (PStr c) \<Rightarrow>
          if py_upper c \<notin> set countries then Inl (PyException ''country must be ISO 3166-1 alpha2'')
          else Inr (dput (PStr ''country'') (PStr (py_upper c)) d)
      | Some _ \<Rightarrow> Inl (AttributeError ''upper''))"

definition address_resolver :: "(pyval \<Rightarrow> string) \<Rightarrow> pyval \<Rightarrow> pyval list res" where
  "address_resolver str_of attr =
     (case attr of
        PDict d \<Rightarrow>
          (case address_country d of Inl e \<Rightarrow> Inl e | Inr d1 \<Rightarrow> Inr (resolve_keys str_of address_keys d1))
      | _ \<Rightarrow> Inl (PyException ''Address attribute must be a dictionary''))"

text \<open>\<open>ks[:ks.index(attr) + 1]\<close> for a level that is in the list.\<close>

fun upto_level :: "string list \<Rightarrow> pyval \<Rightarrow> pyval list option" where
  "upto_level [] v = None"
| "upto_level (k # ks) v =
     (if v = PStr k then Some [PStr k] else map_option (\<lambda>l. PStr k # l) (upto_level ks v))"

definition level_resolver :: "string list \<Rightarrow> pyval \<Rightarrow> pyval list res" where
  "level_resolver ks attr =
     (case upto_level ks attr of None \<Rightarrow> Inl (PyException ''illegal level'') | Some l \<Rightarrow> Inr l)"

definition cpu_avail_resolver :: "pyval \<Rightarrow> pyval list res" where
  "cpu_avail_resolver attr = level_resolver cpuAvail_keys attr"

definition cpu_total_resolver :: "pyval \<Rightarrow> pyval list res" where
  "cpu_total_resolver attr = level_resolver cpuTotal_keys attr"

definition cpu_affi_resolver :: "pyval \<Rightarrow> pyval list res" where
  "cpu_affi_resolver attr =
     (if attr \<in> PStr ` set cpuAffinity_keys then Inr [attr] else Inl (PyException ''illegal level''))"

definition mem_avail_resolver :: "pyval \<Rightarrow> pyval list res" where
  "mem_avail_resolver attr = level_resolver memAvail_keys attr"

definition mem_total_resolver :: "pyval \<Rightarrow> pyval list res" where
  "mem_total_resolver attr = level_resolver memTotal_keys attr"

definition extra_resolver :: "pyval \<Rightarrow> pyval list res" where
  "extra_resolver attr =
     (case attr of
        PList (PList x # rest) \<Rightarrow> Inr (PList x # rest)
      | _ \<Rightarrow> Inl (PyException ''User extra attribute must be a list of ordered attribute lists.''))"

text \<open>The table \<open>attr_resolver\<close>; an unknown type is a KeyError.\<close>

definition attr_resolver :: "(pyval \<Rightarrow> string) \<Rightarrow> string \<Rightarrow> pyval \<Rightarrow> pyval list res" where
  "attr_resolver str_of ty attr =
     (if ty = ''owner'' then owner_resolver str_of attr
      else if ty = ''node_name'' then node_name_resolver str_of attr
      else if ty = ''address'' then address_resolver str_of attr
      else if ty = ''cpuTotal'' then cpu_total_resolver attr
      else if ty = ''cpuAvail'' then cpu_avail_resolver attr
      else if ty = ''cpuAffinity'' then cpu_affi_resolver attr
      else if ty = ''memAvail'' then mem_avail_resolver attr
      else if ty = ''memTotal'' then mem_total_resolver attr
      else if ty = ''user_extra'' then extra_resolver attr
      else Inl KeyError)"

section \<open>Encoding\<close>

definition escape_word :: "string \<Rightarrow> string" where
  "escape_word a = py_replace [slash] [bsl, slash] (py_replace [bsl] [bsl, bsl] a)"

text \<open>
  The words of an index; \<open>set(attr)\<close> raises TypeError for lists and dictionaries, \<open>replace\<close> is
  missing on numbers.
\<close>

fun index_words :: "pyval list \<Rightarrow> string list res" where
  "index_words [] = Inr []"
| "index_words (PNone # vs) = (case index_words vs of Inl e \<Rightarrow> Inl e | Inr ws \<Rightarrow> Inr ([] # ws))"
| "index_words (PStr a # vs) = (case index_words vs of Inl e \<Rightarrow> Inl e | Inr ws \<Rightarrow> Inr (escape_word a # ws))"
| "index_words (_ # vs) = Inl (AttributeError ''replace'')"

fun unhashable :: "pyval \<Rightarrow> bool" where
  "unhashable (PList _) = True"
| "unhashable (PDict _) = True"
| "unhashable _ = False"

definition index_kind :: "pyval list \<Rightarrow> string" where
  "index_kind attr =
     (if list_ex (\<lambda>r. PStr r \<in> set attr) resource_list then ''resource'' else ''attribute'')"

text \<open>\<open>encode_index\<close> as a list of words and as a string.\<close>

definition encode_index_list :: "pyval list \<Rightarrow> string list res" where
  "encode_index_list attr =
     (if list_ex unhashable attr then Inl TypeError
      else case index_words attr of Inl e \<Rightarrow> Inl e | Inr ws \<Rightarrow> Inr (''node'' # index_kind attr # ws))"

definition encode_index :: "pyval list \<Rightarrow> string res" where
  "encode_index attr =
     (case encode_index_list attr of Inl e \<Rightarrow> Inl e | Inr ws \<Rightarrow> Inr (concat (map (\<lambda>w. slash # w) ws)))"

section \<open>Decoding\<close>

text \<open>
  The split at every slash that does not have behind it a backslash which itself follows another
  character than a backslash: \<open>p2\<close> and \<open>p1\<close> are the two characters before the present one.
\<close>

fun split_index :: "char option \<Rightarrow> char option \<Rightarrow> string \<Rightarrow> string \<Rightarrow> string list" where
  "split_index p2 p1 acc [] = [rev acc]"
| "split_index p2 p1 acc (c # cs) =
     (if c = slash \<and> \<not> (p1 = Some bsl \<and> p2 \<noteq> None \<and> p2 \<noteq> Some bsl)
      then rev acc # split_index p1 (Some c) [] cs
      else split_index p1 (Some c) (c # acc) cs)"

definition unescape_word :: "string \<Rightarrow> string" where
  "unescape_word a = py_replace [bsl, bsl] [bsl] (py_replace [bsl, slash] [slash] a)"

definition index_root :: "string \<Rightarrow> string" where
  "index_root kind = slash # ''node'' @ slash # kind"

definition decode_words :: "string \<Rightarrow> string option list" where
  "decode_words s =
     map (\<lambda>a. if unescape_word a = [] then None else Some (unescape_word a)) (split_index None None [] s)"

definition decode_index :: "string \<Rightarrow> string option list res" where
  "decode_index s =
     (if prefix (index_root ''resource'') s
      then Inr (decode_words (drop (length (index_root ''resource'') + 1) s))
      else if prefix (index_root ''attribute'') s
      then Inr (decode_words (drop (length (index_root ''attribute'') + 1) s))
      else Inl (PyException ''Index not a node attribute''))"

section \<open>Search strings\<close>

fun truthy :: "pyval \<Rightarrow> bool" where
  "truthy PNone = False"
| "truthy (PBool b) = b"
| "truthy (PInt i) = (i \<noteq> 0)"
| "truthy (PStr s) = (s \<noteq> [])"
| "truthy (PList l) = (l \<noteq> [])"
| "truthy (PDict d) = (d \<noteq> [])"

text \<open>\<open>[_attr[i] for i in range(len(_attr)) if any(_attr[i:])]\<close>.\<close>

definition trim_index :: "pyval list \<Rightarrow> pyval list" where
  "trim_index attr = map (nth attr) (filter (\<lambda>i. list_ex truthy (drop i attr)) [0..<length attr])"

text \<open>The type and value of the one attribute to search for.\<close>

fun index_pair :: "pyval \<Rightarrow> (pyval \<times> pyval) res" where
  "index_pair (PDict []) = Inl (PyException ''StopIteration'')"
| "index_pair (PDict ((ty, v) # rest)) = Inr (ty, v)"
| "index_pair (PList (ty # v # rest)) = Inr (ty, v)"
| "index_pair (PList _) = Inl IndexError"
| "index_pair _ = Inr (PNone, PNone)"

definition format_index_string :: "(pyval \<Rightarrow> string) \<Rightarrow> pyval \<Rightarrow> bool \<Rightarrow> string res" where
  "format_index_string str_of attr trim =
     (case index_pair attr of
        Inr (PStr ty, v) \<Rightarrow>
          (case attr_resolver str_of ty v of
             Inl e \<Rightarrow> Inl e
           | Inr a \<Rightarrow> encode_index (PStr ty # (if trim then trim_index a else a)))
      | Inr (t, v) \<Rightarrow> Inl (if unhashable t then TypeError else KeyError)
      | Inl e \<Rightarrow> Inl e)"

section \<open>The attribute resolver of a node\<close>

record node_attributes =
  na_indexed :: "(string, pyval list) dict"
  na_public :: pyval
  na_private :: pyval

text \<open>Attributes that cannot be resolved are kept as empty lists.\<close>

fun resolve_indexed_public :: "(pyval \<Rightarrow> string) \<Rightarrow> (pyval, pyval) dict \<Rightarrow> (string, pyval list) dict" where
  "resolve_indexed_public str_of [] = []"
| "resolve_indexed_public str_of ((PStr ty, v) # d) =
     (ty, case attr_resolver str_of ty v of Inl _ \<Rightarrow> [] | Inr l \<Rightarrow> l) # resolve_indexed_public str_of d"
| "resolve_indexed_public str_of (_ # d) = resolve_indexed_public str_of d"

definition resolve_attributes :: "(pyval \<Rightarrow> string) \<Rightarrow> pyval \<Rightarrow> node_attributes res" where
  "resolve_attributes str_of attr =
     (case attr of
        PDict d \<Rightarrow>
          (case (case dget d (PStr ''indexed_public'') of
                   None \<Rightarrow> Inr []
                 | Some v \<Rightarrow> if \<not> truthy v then Inr []
                             else (case v of PDict ip \<Rightarrow> Inr (resolve_indexed_public str_of ip)
                                   | _ \<Rightarrow> Inl (AttributeError ''items''))) of
             Inl e \<Rightarrow> Inl e
           | Inr ip \<Rightarrow> Inr \<lparr>na_indexed = ip,
                              na_public = (case dget d (PStr ''public'') of None \<Rightarrow> PDict [] | Some v \<Rightarrow> v),
                              na_private = (case dget d (PStr ''private'') of None \<Rightarrow> PDict [] | Some v \<Rightarrow> v)\<rparr>)
      | _ \<Rightarrow> Inl (PyException ''Attributes must be a dictionary''))"

definition attributes_init :: "(pyval \<Rightarrow> string) \<Rightarrow> pyval \<Rightarrow> node_attributes res" where
  "attributes_init str_of attr =
     (if attr = PNone then Inr \<lparr>na_indexed = [], na_public = PDict [], na_private = PDict []\<rparr>
      else resolve_attributes str_of attr)"

text \<open>\<open>set_indexed_public\<close> lets the errors of the resolvers through and changes nothing then.\<close>

fun resolve_all :: "(pyval \<Rightarrow> string) \<Rightarrow> (string, pyval) dict \<Rightarrow> (string, pyval list) dict res" where
  "resolve_all str_of [] = Inr []"
| "resolve_all str_of ((ty, v) # d) =
     (case attr_resolver str_of ty v of
        Inl e \<Rightarrow> Inl e
      | Inr l \<Rightarrow> (case resolve_all str_of d of Inl e \<Rightarrow> Inl e | Inr r \<Rightarrow> Inr ((ty, l) # r)))"

definition set_indexed_public ::
    "(pyval \<Rightarrow> string) \<Rightarrow> node_attributes \<Rightarrow> (string, pyval) dict \<Rightarrow> (unit, node_attributes) out" where
  "set_indexed_public str_of na d =
     (case resolve_all str_of d of Inl e \<Rightarrow> (Inl e, na) | Inr r \<Rightarrow> (Inr (), na\<lparr>na_indexed := r\<rparr>))"

text \<open>Access by a path: a missing key is a KeyError, indexing anything but a dictionary a TypeError.\<close>

fun get_attribute_helper :: "string list \<Rightarrow> pyval \<Rightarrow> pyval res" where
  "get_attribute_helper [] v = Inr v"
| "get_attribute_helper (i # is) v =
     (case v of
        PDict d \<Rightarrow> (case dlook d (PStr i) of Inl e \<Rightarrow> Inl e | Inr w \<Rightarrow> get_attribute_helper is w)
      | _ \<Rightarrow> Inl TypeError)"

fun split_slash :: "string \<Rightarrow> string \<Rightarrow> string list" where
  "split_slash acc [] = [rev acc]"
| "split_slash acc (c # cs) = (if c = slash then rev acc # split_slash [] cs else split_slash (c # acc) cs)"

definition index_path :: "string \<Rightarrow> string list" where
  "index_path index = filter (\<lambda>i. i \<noteq> []) (split_slash [] index)"

definition get_attribute :: "string \<Rightarrow> pyval \<Rightarrow> pyval" where
  "get_attribute index v =
     (case get_attribute_helper (index_path index) v of
        Inr w \<Rightarrow> w | Inl KeyError \<Rightarrow> PDict [] | Inl _ \<Rightarrow> PNone)"

definition has_attribute :: "string \<Rightarrow> pyval \<Rightarrow> pyval" where
  "has_attribute index v =
     (case get_attribute_helper (index_path index) v of
        Inr w \<Rightarrow> if truthy w then w else PBool True
      | Inl KeyError \<Rightarrow> PBool False
      | Inl _ \<Rightarrow> PNone)"

definition has_private_attribute :: "node_attributes \<Rightarrow> string \<Rightarrow> pyval" where
  "has_private_attribute na index = has_attribute index (na_private na)"

definition has_public_attribute :: "node_attributes \<Rightarrow> string \<Rightarrow> pyval" where
  "has_public_attribute na index = has_attribute index (na_public na)"

definition get_private :: "node_attributes \<Rightarrow> string option \<Rightarrow> pyval" where
  "get_private na index =
     (case index of
        None \<Rightarrow> na_private na
      | Some i \<Rightarrow> if i = [] then na_private na else get_attribute i (na_private na))"

definition get_public :: "node_attributes \<Rightarrow> string option \<Rightarrow> pyval" where
  "get_public na index =
     (case index of
        None \<Rightarrow> na_public na
      | Some i \<Rightarrow> if i = [] then na_public na else get_attribute i (na_public na))"

fun get_indexed :: "(string, pyval list) dict \<Rightarrow> string list res" where
  "get_indexed [] = Inr []"
| "get_indexed ((ty, v) # d) =
     (case encode_index (PStr ty # v) of
        Inl e \<Rightarrow> Inl e
      | Inr s \<Rightarrow> (case get_indexed d of Inl e \<Rightarrow> Inl e | Inr ss \<Rightarrow> Inr (s # ss)))"

definition get_indexed_public :: "node_attributes \<Rightarrow> string list res" where
  "get_indexed_public na = get_indexed (na_indexed na)"

fun join_dash :: "string list \<Rightarrow> string" where
  "join_dash [] = ''''"
| "join_dash [a] = a"
| "join_dash (a # as) = a @ ''-'' @ join_dash as"

text \<open>Any failure, also a name part that is no text, gives None.\<close>

definition get_node_name_as_str :: "node_attributes \<Rightarrow> string option" where
  "get_node_name_as_str na =
     (case dget (na_indexed na) ''node_name'' of
        None \<Rightarrow> None
      | Some l \<Rightarrow>
          if list_all (\<lambda>v. case v of PNone \<Rightarrow> True | PStr _ \<Rightarrow> True | _ \<Rightarrow> False) l
          then Some (join_dash (map (\<lambda>v. case v of PStr a \<Rightarrow> a | _ \<Rightarrow> '''') l))
          else None)"

definition attribute_keys :: "(string, string list) dict" where
  "attribute_keys =
     [(''owner'', owner_keys), (''node_name'', node_name_keys), (''address'', address_keys),
      (''cpuTotal'', cpuTotal_keys), (''cpuAvail'', cpuAvail_keys), (''cpuAffinity'', cpuAffinity_keys),
      (''memAvail'', memAvail_keys), (''memTotal'', memTotal_keys)]"

text \<open>The names of the set values of one attribute; the key list is looked up for set values only.\<close>

fun keyed_values :: "string \<Rightarrow> nat \<Rightarrow> pyval list \<Rightarrow> (string, pyval) dict res" where
  "keyed_values ty i [] = Inr []"
| "keyed_values ty i (v # vs) =
     (if v = PNone then keyed_values ty (Suc i) vs
      else case dget attribute_keys ty of
             None \<Rightarrow> Inl KeyError
           | Some ks \<Rightarrow>
               (case py_index ks (int i) of
                  Inl e \<Rightarrow> Inl e
                | Inr k \<Rightarrow> (case keyed_values ty (Suc i) vs of
                               Inl e \<Rightarrow> Inl e | Inr r \<Rightarrow> Inr ((ty @ ''.'' @ k, v) # r))))"

fun indexed_with_keys :: "(string, pyval list) dict \<Rightarrow> (string, pyval) dict res" where
  "indexed_with_keys [] = Inr []"
| "indexed_with_keys ((ty, l) # d) =
     (case keyed_values ty 0 l of
        Inl e \<Rightarrow> Inl e
      | Inr kv \<Rightarrow> (case indexed_with_keys d of Inl e \<Rightarrow> Inl e | Inr r \<Rightarrow> Inr (dupdate kv r)))"

definition get_indexed_public_with_keys :: "node_attributes \<Rightarrow> (string, pyval) dict res" where
  "get_indexed_public_with_keys na = indexed_with_keys (na_indexed na)"

end
