(* ===== verification/Policy_Decision.thy ===== *)
theory Policy_Decision
  imports Actor_Core Attribute_Index
begin

text \<open>
  The policy decision point (runtime/north/authorization/policy_decision_point.py): matching of
  targets, evaluation of conditions, combination of rules and policies, requests with several
  requirements and the search for a runtime.  Regular expressions (\<open>re.match(r + '$', x)\<close>),
  Python's \<open>str\<close>, the information point and the stored policies are parameters.
\<close>

section \<open>Policies and requests\<close>

type_synonym attributes = "(string, pyval) dict"
type_synonym request = "(string, attributes) dict"
type_synonym target = "(string, attributes) dict"

text \<open>Entries a policy may leave out are options; a nested condition is one level deep.\<close>

datatype cond_arg = CValue pyval | CCall "string option" "pyval list option"

record condition =
  co_function :: "string option"
  co_args :: "cond_arg list option"

record rule =
  ru_id :: "string option"
  ru_target :: "target option"
  ru_effect :: "string option"
  ru_condition :: "condition option"
  ru_obligations :: "plugin list"

record policy =
  po_target :: "target option"
  po_rules :: "rule list option"
  po_combining :: "string option"

record pdp_env =
  en_match :: "string \<Rightarrow> string \<Rightarrow> bool res"
  en_str :: "pyval \<Rightarrow> string"
  en_info :: "string \<Rightarrow> string \<Rightarrow> pyval res"

type_synonym decision = "string \<times> plugin list"

section \<open>Matching a target\<close>

definition request_value :: "request \<Rightarrow> string \<Rightarrow> string \<Rightarrow> pyval res" where
  "request_value rq ty a = (case dlook rq ty of Inl e \<Rightarrow> Inl e | Inr d \<Rightarrow> dlook d a)"

text \<open>The request's value, or that of the information point; None when neither has it.\<close>

definition find_value :: "pdp_env \<Rightarrow> request \<Rightarrow> string \<Rightarrow> string \<Rightarrow> pyval option" where
  "find_value en rq ty a =
     (case request_value rq ty a of
        Inr v \<Rightarrow> Some v
      | Inl _ \<Rightarrow> (case en_info en ty a of Inl _ \<Rightarrow> None | Inr v \<Rightarrow> Some v))"

fun as_list :: "pyval \<Rightarrow> pyval list" where
  "as_list (PList l) = l"
| "as_list v = [v]"

text \<open>
  \<open>[re.match(r + '$', x) for r in rs for x in xs]\<close>: all of them are evaluated, the first failure
  counts; anything but text is a TypeError.
\<close>

fun match_one :: "pdp_env \<Rightarrow> pyval \<Rightarrow> pyval list \<Rightarrow> bool list res" where
  "match_one en r [] = Inr []"
| "match_one en r (x # xs) =
     (case (r, x) of
        (PStr p, PStr s) \<Rightarrow>
          (case en_match en p s of
             Inl e \<Rightarrow> Inl e
           | Inr b \<Rightarrow> (case match_one en r xs of Inl e \<Rightarrow> Inl e | Inr bs \<Rightarrow> Inr (b # bs)))
      | _ \<Rightarrow> Inl TypeError)"

fun match_lists :: "pdp_env \<Rightarrow> pyval list \<Rightarrow> pyval list \<Rightarrow> bool list res" where
  "match_lists en [] xs = Inr []"
| "match_lists en (r # rs) xs =
     (case match_one en r xs of
        Inl e \<Rightarrow> Inl e
      | Inr bs \<Rightarrow> (case match_lists en rs xs of Inl e \<Rightarrow> Inl e | Inr cs \<Rightarrow> Inr (bs @ cs)))"

text \<open>
  After a TypeError the values are compared as sets, which fails again for lists; \<open>True\<close> and 1 are
  the same element.
\<close>

fun hash_key :: "pyval \<Rightarrow> pyval" where
  "hash_key (PBool b) = PInt (if b then 1 else 0)"
| "hash_key v = v"

definition values_match :: "pdp_env \<Rightarrow> pyval list \<Rightarrow> pyval list \<Rightarrow> bool res" where
  "values_match en rs xs =
     (case match_lists en rs xs of
        Inr bs \<Rightarrow> Inr (True \<in> set bs)
      | Inl TypeError \<Rightarrow>
          if list_ex unhashable (xs @ rs) then Inl TypeError else Inr (list_ex (\<lambda>x. hash_key x \<in> set (map hash_key rs)) xs)
      | Inl e \<Rightarrow> Inl e)"

fun attributes_match :: "pdp_env \<Rightarrow> request \<Rightarrow> string \<Rightarrow> attributes \<Rightarrow> bool res" where
  "attributes_match en rq ty [] = Inr True"
| "attributes_match en rq ty ((a, v) # as) =
     (case find_value en rq ty a of
        None \<Rightarrow> Inr False
      | Some x \<Rightarrow>
          (case values_match en (as_list v) (as_list x) of
             Inl e \<Rightarrow> Inl e
           | Inr b \<Rightarrow> if b then attributes_match en rq ty as else Inr False))"

fun target_matches :: "pdp_env \<Rightarrow> request \<Rightarrow> target \<Rightarrow> bool res" where
  "target_matches en rq [] = Inr True"
| "target_matches en rq ((ty, as) # ts) =
     (case attributes_match en rq ty as of
        Inl e \<Rightarrow> Inl e
      | Inr b \<Rightarrow> if b then target_matches en rq ts else Inr False)"

definition applies :: "pdp_env \<Rightarrow> request \<Rightarrow> target option \<Rightarrow> bool res" where
  "applies en rq t = (case t of None \<Rightarrow> Inr True | Some tg \<Rightarrow> target_matches en rq tg)"

section \<open>Conditions\<close>

fun split_colon :: "string \<Rightarrow> string \<Rightarrow> string list" where
  "split_colon acc [] = [rev acc]"
| "split_colon acc (c # cs) = (if c = CHR '':'' then rev acc # split_colon [] cs else split_colon (c # acc) cs)"

text \<open>
  The value of an argument: None when it names an attribute nobody has.  A path of fewer than three
  parts is an IndexError in every case: \<open>path[1]\<close> or \<open>path[2]\<close> fails in the \<open>try\<close> block, which
  catches a KeyError only; and when the request has no entry \<open>path[1]\<close>, the handler of the KeyError
  fails at \<open>path[2]\<close>, and the inner handler, which catches that, formats \<open>path[2]\<close> into its log
  message before it returns False.
\<close>

definition argument_value :: "pdp_env \<Rightarrow> request \<Rightarrow> pyval \<Rightarrow> pyval option res" where
  "argument_value en rq v =
     (case v of
        PStr s \<Rightarrow>
          if prefix ''attr'' s
          then (case split_colon [] s of
                  _ # ty # a # _ \<Rightarrow> Inr (find_value en rq ty a)
                | _ \<Rightarrow> Inl IndexError)
          else Inr (Some v)
      | _ \<Rightarrow> Inr (Some v))"

definition as_strings :: "pdp_env \<Rightarrow> pyval \<Rightarrow> pyval" where
  "as_strings en v = PList (map (\<lambda>x. PStr (to_unicode (en_str en) x)) (as_list v))"

text \<open>The loop over the arguments; None is the early \<open>return False\<close>.\<close>

fun eval_args :: "pdp_env \<Rightarrow> request \<Rightarrow> bool \<Rightarrow> pyval list \<Rightarrow> pyval list option res" where
  "eval_args en rq logical [] = Inr (Some [])"
| "eval_args en rq logical (v # vs) =
     (case argument_value en rq v of
        Inl e \<Rightarrow> Inl e
      | Inr None \<Rightarrow> Inr None
      | Inr (Some x) \<Rightarrow>
          (case eval_args en rq logical vs of
             Inr (Some xs) \<Rightarrow> Inr (Some ((if logical then x else as_strings en x) # xs))
           | r \<Rightarrow> r))"

fun strings_of :: "pyval \<Rightarrow> string list" where
  "strings_of (PList l) = map (\<lambda>v. case v of PStr s \<Rightarrow> s | _ \<Rightarrow> '''') l"
| "strings_of _ = []"

text \<open>An unknown function gives None.  \<open>True in args\<close> holds for the number 1, too.\<close>

definition evaluate_function :: "pdp_env \<Rightarrow> request \<Rightarrow> string \<Rightarrow> pyval list \<Rightarrow> pyval res" where
  "evaluate_function en rq func args0 =
     (case eval_args en rq (func \<in> {''and'', ''or''}) args0 of
        Inl e \<Rightarrow> Inl e
      | Inr None \<Rightarrow> Inr (PBool False)
      | Inr (Some args) \<Rightarrow>
          if func = ''and'' then Inr (PBool (list_all truthy args))
          else if func = ''or'' then Inr (PBool (list_ex (\<lambda>v. v = PBool True \<or> v = PInt 1) args))
          else if func \<in> {''equal'', ''not_equal'', ''less_than_or_equal'', ''greater_than_or_equal''}
          then (case args of
                  a # b # _ \<Rightarrow>
                    if func \<in> {''equal'', ''not_equal''}
                    then (case match_lists en (as_list b) (as_list a) of
                            Inl e \<Rightarrow> Inl e
                          | Inr bs \<Rightarrow> Inr (PBool ((True \<in> set bs) = (func = ''equal''))))
                    else if func = ''less_than_or_equal'' then Inr (PBool (strings_of a \<le> strings_of b))
                    else Inr (PBool (strings_of b \<le> strings_of a))
                | _ \<Rightarrow> Inl IndexError)
          else Inr PNone)"

fun condition_args :: "pdp_env \<Rightarrow> request \<Rightarrow> cond_arg list \<Rightarrow> pyval list res" where
  "condition_args en rq [] = Inr []"
| "condition_args en rq (CValue v # cs) =
     (case condition_args en rq cs of Inl e \<Rightarrow> Inl e | Inr vs \<Rightarrow> Inr (v # vs))"
| "condition_args en rq (CCall (Some f) (Some as) # cs) =
     (case evaluate_function en rq f as of
        Inl e \<Rightarrow> Inl e
      | Inr v \<Rightarrow> (case condition_args en rq cs of Inl e \<Rightarrow> Inl e | Inr vs \<Rightarrow> Inr (v # vs)))"
| "condition_args en rq (CCall _ _ # cs) = Inl KeyError"

definition condition_holds :: "pdp_env \<Rightarrow> request \<Rightarrow> condition \<Rightarrow> bool res" where
  "condition_holds en rq c =
     (case co_args c of
        None \<Rightarrow> Inl KeyError
      | Some cs \<Rightarrow>
          (case condition_args en rq cs of
             Inl e \<Rightarrow> Inl e
           | Inr args \<Rightarrow>
               (case co_function c of
                  None \<Rightarrow> Inl KeyError
                | Some f \<Rightarrow> (case evaluate_function en rq f args of Inl e \<Rightarrow> Inl e | Inr v \<Rightarrow> Inr (truthy v)))))"

section \<open>Decisions\<close>

text \<open>
  A failing condition is indeterminate.  Without a condition the log message reads the rule's id,
  so a rule without id fails.
\<close>

definition rule_decision :: "pdp_env \<Rightarrow> request \<Rightarrow> rule \<Rightarrow> decision res" where
  "rule_decision en rq r =
     (case ru_condition r of
        Some c \<Rightarrow>
          (case condition_holds en rq c of
             Inl _ \<Rightarrow> Inr (''indeterminate'', [])
           | Inr b \<Rightarrow>
               if b then (case ru_effect r of
                            None \<Rightarrow> Inr (''indeterminate'', []) | Some e \<Rightarrow> Inr (e, ru_obligations r))
               else Inr (''not_applicable'', []))
      | None \<Rightarrow>
          (case (ru_id r, ru_effect r) of
             (Some _, Some e) \<Rightarrow> Inr (e, ru_obligations r) | _ \<Rightarrow> Inl KeyError))"

text \<open>
  Both levels combine in the same way: the final decision from the list of decisions, the obligations
  and the combining algorithm.
\<close>

definition combine :: "string \<Rightarrow> string list \<Rightarrow> plugin list \<Rightarrow> decision" where
  "combine alg ds obs =
     (if ''indeterminate'' \<in> set ds then (''indeterminate'', [])
      else if \<not> list_all (\<lambda>d. d = ''not_applicable'') ds
      then (if alg = ''deny_overrides'' \<or> obs \<noteq> [] then (''permit'', obs) else (''deny'', []))
      else (''not_applicable'', []))"

definition overrides :: "string \<Rightarrow> decision \<Rightarrow> bool" where
  "overrides alg d \<longleftrightarrow>
     fst d = ''permit'' \<and> snd d = [] \<and> alg = ''permit_overrides'' \<or> fst d = ''deny'' \<and> alg = ''deny_overrides''"

text \<open>
  The loop over the rules of a policy.  The combining algorithm is looked up when a rule applies, and
  again at the end when some rule did.
\<close>

fun rules_loop :: "pdp_env \<Rightarrow> request \<Rightarrow> string option \<Rightarrow> rule list \<Rightarrow> string list \<Rightarrow> plugin list \<Rightarrow> decision res" where
  "rules_loop en rq alg [] ds obs = Inr (combine (opt_default '''' alg) ds obs)"
| "rules_loop en rq alg (r # rs) ds obs =
     (case applies en rq (ru_target r) of
        Inl e \<Rightarrow> Inl e
      | Inr False \<Rightarrow> rules_loop en rq alg rs ds obs
      | Inr True \<Rightarrow>
          (case rule_decision en rq r of
             Inl e \<Rightarrow> Inl e
           | Inr d \<Rightarrow>
               (case alg of
                  None \<Rightarrow> Inl (PyException ''No rule_combining in policy'')
                | Some al \<Rightarrow>
                    if overrides al d then Inr (fst d, [])
                    else rules_loop en rq alg rs (ds @ [fst d]) (if fst d = ''permit'' then obs @ snd d else obs))))"

definition policy_decision :: "pdp_env \<Rightarrow> request \<Rightarrow> policy \<Rightarrow> decision res" where
  "policy_decision en rq p =
     (case po_rules p of
        None \<Rightarrow> Inl (PyException ''No rules in policy'')
      | Some rs \<Rightarrow> rules_loop en rq (po_combining p) rs [] [])"

fun policies_loop :: "pdp_env \<Rightarrow> request \<Rightarrow> string \<Rightarrow> policy list \<Rightarrow> string list \<Rightarrow> plugin list \<Rightarrow> decision res" where
  "policies_loop en rq alg [] ds obs = Inr (combine alg ds obs)"
| "policies_loop en rq alg (p # ps) ds obs =
     (case applies en rq (po_target p) of
        Inl e \<Rightarrow> Inl e
      | Inr False \<Rightarrow> policies_loop en rq alg ps ds obs
      | Inr True \<Rightarrow>
          (case policy_decision en rq p of
             Inl e \<Rightarrow> Inl e
           | Inr d \<Rightarrow>
               if overrides alg d then Inr (fst d, [])
               else policies_loop en rq alg ps (ds @ [fst d]) (obs @ snd d)))"

text \<open>Any failure, also of fetching the policies, is indeterminate.\<close>

definition combined_policy_decision :: "pdp_env \<Rightarrow> string \<Rightarrow> policy list res \<Rightarrow> request \<Rightarrow> decision" where
  "combined_policy_decision en alg policies rq =
     (case policies of
        Inl _ \<Rightarrow> (''indeterminate'', [])
      | Inr ps \<Rightarrow> (case policies_loop en rq alg ps [] [] of Inl _ \<Rightarrow> (''indeterminate'', []) | Inr d \<Rightarrow> d))"

section \<open>The information point\<close>

text \<open>
  \<open>PolicyInformationPoint.get_attribute_value\<close>: what the description of the actor says and the time.
  A value is computed once per request, so the date and the time are fixed here.
\<close>

definition information :: "string \<Rightarrow> string \<Rightarrow> attributes option \<Rightarrow> string \<Rightarrow> string \<Rightarrow> pyval res" where
  "information date time desc ty a =
     (if ty = ''subject'' \<and> a = ''actor_signer''
      then (case desc of None \<Rightarrow> Inl TypeError | Some d \<Rightarrow> dlook d ''signer'')
      else if ty = ''action'' \<and> a = ''requires''
      then (case desc of
              None \<Rightarrow> Inl TypeError
            | Some d \<Rightarrow>
                (case dlook d ''requires'' of
                   Inl e \<Rightarrow> Inl e
                 | Inr (PList l) \<Rightarrow> Inr (PList (PStr ''runtime'' # l))
                 | Inr _ \<Rightarrow> Inl TypeError))
      else if ty = ''environment'' \<and> a = ''current_date'' then Inr (PStr date)
      else if ty = ''environment'' \<and> a = ''current_time'' then Inr (PStr time)
      else Inl KeyError)"

section \<open>Authorization requests\<close>

text \<open>
  What the decision point reaches through its node: regular expressions and \<open>str\<close>, the descriptions
  the actor store yields for a signature and a node, the clock, the stored policies and the
  installed authorization plugins.
\<close>

record pdp_world =
  pw_match :: "string \<Rightarrow> string \<Rightarrow> bool res"
  pw_str :: "pyval \<Rightarrow> string"
  pw_lookup :: "pyval \<Rightarrow> pyval \<Rightarrow> attributes list"
  pw_date :: string
  pw_time :: string
  pw_policies :: "policy list res"
  pw_plugins :: authz_plugins

record pdp =
  pd_combining :: string
  pd_registered :: "(string, attributes) dict"

record response =
  rs_decision :: string
  rs_obligations :: "authorization list"

definition pdp_init :: "string option \<Rightarrow> pdp" where
  "pdp_init config = \<lparr>pd_combining = opt_default ''permit_overrides'' config, pd_registered = []\<rparr>"

definition pdp_register_node :: "string \<Rightarrow> attributes \<Rightarrow> pdp \<Rightarrow> pdp" where
  "pdp_register_node nid as p = p\<lparr>pd_registered := dput nid as (pd_registered p)\<rparr>"

text \<open>\<open>actor_desc_lookup\<close>: the last description wins; without a node in the request the lookup fails.\<close>

definition actor_desc_lookup :: "pdp_world \<Rightarrow> request \<Rightarrow> attributes option" where
  "actor_desc_lookup w rq =
     (case request_value rq ''subject'' ''actorstore_signature'' of
        Inl _ \<Rightarrow> None
      | Inr sig \<Rightarrow>
          (case request_value rq ''resource'' ''node_id'' of
             Inl _ \<Rightarrow> None
           | Inr n \<Rightarrow> (case rev (pw_lookup w sig n) of [] \<Rightarrow> None | d # _ \<Rightarrow> Some d)))"

definition request_env :: "pdp_world \<Rightarrow> attributes option \<Rightarrow> pdp_env" where
  "request_env w desc =
     \<lparr>en_match = pw_match w, en_str = pw_str w, en_info = information (pw_date w) (pw_time w) desc\<rparr>"

text \<open>\<open>len(requires) > 1\<close> and the loop over it: text is iterated by characters, a dictionary by its keys.\<close>

fun requirement_list :: "pyval \<Rightarrow> pyval list res" where
  "requirement_list PNone = Inr []"
| "requirement_list (PList l) = Inr l"
| "requirement_list (PStr s) = Inr (map (\<lambda>c. PStr [c]) s)"
| "requirement_list (PDict d) = Inr (map fst d)"
| "requirement_list _ = Inl TypeError"

text \<open>
  The attributes of a registered node replace the resource of the request; they get the node's id,
  also in the table, since it is the same dictionary.
\<close>

definition add_resource :: "pdp \<Rightarrow> request \<Rightarrow> pyval \<Rightarrow> request \<times> pdp" where
  "add_resource p rq nid =
     (case nid of
        PStr n \<Rightarrow>
          (case dget (pd_registered p) n of
             None \<Rightarrow> (rq, p)
           | Some as \<Rightarrow>
               let as' = dput ''node_id'' nid as
               in (dput ''resource'' as' rq, p\<lparr>pd_registered := dput n as' (pd_registered p)\<rparr>))
      | _ \<Rightarrow> (rq, p))"

definition add_requires :: "pdp_env \<Rightarrow> request \<Rightarrow> request \<times> pyval" where
  "add_requires en rq =
     (case request_value rq ''action'' ''requires'' of
        Inr r \<Rightarrow> (rq, r)
      | Inl _ \<Rightarrow>
          (case en_info en ''action'' ''requires'' of
             Inl _ \<Rightarrow> (rq, PNone)
           | Inr r \<Rightarrow> (dput ''action'' [(''requires'', r)] rq, r)))"

definition requirement_request :: "request \<Rightarrow> pyval \<Rightarrow> request" where
  "requirement_request rq q =
     dput ''action'' (dput ''requires'' (PList [q]) (opt_default [] (dget rq ''action''))) rq"

definition create_response :: "string \<Rightarrow> authorization list \<Rightarrow> response" where
  "create_response d obs = \<lparr>rs_decision = d, rs_obligations = obs\<rparr>"

text \<open>
  Several requirements: one decision for each; the answer is theirs when they agree, and
  indeterminate otherwise.  The obligations are then a list of lists.
\<close>

definition requirements_decision :: "pdp_env \<Rightarrow> string \<Rightarrow> policy list res \<Rightarrow> request \<Rightarrow> pyval list \<Rightarrow> response" where
  "requirements_decision en alg ps rq qs =
     (let ds = map (\<lambda>q. combined_policy_decision en alg ps (requirement_request rq q)) qs
      in if list_all (\<lambda>d. fst d = fst (ds ! 0)) ds
         then create_response (fst (ds ! 0)) (map (\<lambda>d. PluginListC (snd d)) (filter (\<lambda>d. snd d \<noteq> []) ds))
         else create_response ''indeterminate'' [])"

definition single_decision :: "pdp_env \<Rightarrow> string \<Rightarrow> policy list res \<Rightarrow> request \<Rightarrow> response" where
  "single_decision en alg ps rq =
     (let d = combined_policy_decision en alg ps rq in create_response (fst d) (map PluginC (snd d)))"

text \<open>
  \<open>_authorize_cont\<close>.  Without a node in the request the handler of the KeyError itself fails, because
  its log message reads the unbound \<open>node_id\<close>.
\<close>

definition authorize_cont :: "pdp_world \<Rightarrow> attributes option \<Rightarrow> request \<Rightarrow> pdp \<Rightarrow> (response, pdp) out" where
  "authorize_cont w desc rq p =
     (case request_value rq ''resource'' ''node_id'' of
        Inl _ \<Rightarrow> (Inl (PyException ''UnboundLocalError''), p)
      | Inr nid \<Rightarrow>
          (let (rq1, p1) = add_resource p rq nid; en = request_env w desc; (rq2, req) = add_requires en rq1
           in case requirement_list req of
                Inl e \<Rightarrow> (Inl e, p1)
              | Inr qs \<Rightarrow>
                  (Inr (if 1 < length qs then requirements_decision en (pd_combining p) (pw_policies w) rq2 qs
                        else single_decision en (pd_combining p) (pw_policies w) rq2), p1)))"

definition authorize :: "pdp_world \<Rightarrow> request \<Rightarrow> pdp \<Rightarrow> (response, pdp) out" where
  "authorize w rq p = authorize_cont w (actor_desc_lookup w rq) rq p"

section \<open>Searching a runtime\<close>

definition obligations_valid :: "authz_plugins \<Rightarrow> authorization list \<Rightarrow> bool" where
  "obligations_valid ps obs =
     (if obs = [] then True
      else if list_ex (\<lambda>x. case x of PluginListC _ \<Rightarrow> True | _ \<Rightarrow> False) obs
      then list_all (\<lambda>x. case x of PluginListC l \<Rightarrow> check_plugin_list ps l | PluginC _ \<Rightarrow> False) obs
      else check_plugin_list ps (the_plugins obs))"

definition forget_attribute :: "string \<Rightarrow> string \<Rightarrow> request \<Rightarrow> request" where
  "forget_attribute ty a rq = (case dget rq ty of None \<Rightarrow> rq | Some as \<Rightarrow> dput ty (ddel a as) rq)"

definition acceptable :: "pdp_world \<Rightarrow> response \<Rightarrow> bool" where
  "acceptable w r \<longleftrightarrow> rs_decision r = ''permit'' \<and> obligations_valid (pw_plugins w) (rs_obligations r)"

fun search_loop :: "pdp_world \<Rightarrow> request \<Rightarrow> string list \<Rightarrow> pdp \<Rightarrow> ((string \<times> response) option, pdp) out" where
  "search_loop w rq [] p = (Inr None, p)"
| "search_loop w rq (n # ns) p =
     and_then (authorize w (dput ''resource'' [(''node_id'', PStr n)] rq) p)
       (\<lambda>r p'. if acceptable w r then (Inr (Some (n, r)), p') else search_loop w rq ns p')"

definition possible_nodes :: "pdp \<Rightarrow> string list \<Rightarrow> string list" where
  "possible_nodes p wl =
     (let regs = map fst (pd_registered p)
      in filter (\<lambda>n. n \<in> set (if wl = [] then regs else wl)) regs)"

text \<open>The first element of an empty list of possible nodes is an IndexError.\<close>

definition runtime_search :: "pdp_world \<Rightarrow> request \<Rightarrow> string list \<Rightarrow> pdp \<Rightarrow> ((string \<times> response) option, pdp) out" where
  "runtime_search w rq wl p =
     (let rq' = forget_attribute ''action'' ''requires'' (forget_attribute ''subject'' ''actor_signer'' rq);
          ns = possible_nodes p wl
      in if ns = [] then (Inl IndexError, p) else search_loop w rq' ns p)"

section \<open>The time range plugin\<close>

definition time_range_check :: "string \<Rightarrow> string \<Rightarrow> string \<Rightarrow> bool" where
  "time_range_check now start_time end_time =
     (if start_time \<le> end_time then start_time \<le> now \<and> now < end_time
      else start_time \<le> now \<or> now < end_time)"

end
