(* ===== verification/Policy_Properties.thy ===== *)
theory Policy_Properties
  imports Policy_Decision
begin

text \<open>
  Properties of the policy decision point.  Rules and policies are combined by the same loop, so
  it is studied once (\<open>comb_loop\<close>), over any list of items that decide; both levels are
  instances of it.  A reference definition says what the two combining algorithms mean.
\<close>

section \<open>One loop for both levels\<close>

fun comb_loop :: "('a \<Rightarrow> decision option res) \<Rightarrow> string \<Rightarrow> 'a list \<Rightarrow> string list \<Rightarrow> plugin list \<Rightarrow> decision res" where
  "comb_loop step alg [] ds obs = Inr (combine alg ds obs)"
| "comb_loop step alg (x # xs) ds obs =
     (case step x of
        Inl e \<Rightarrow> Inl e
      | Inr None \<Rightarrow> comb_loop step alg xs ds obs
      | Inr (Some d) \<Rightarrow>
          if overrides alg d then Inr (fst d, []) else comb_loop step alg xs (ds @ [fst d]) (obs @ snd d))"

text \<open>Obligations count with a permit only.\<close>

definition rule_step :: "pdp_env \<Rightarrow> request \<Rightarrow> rule \<Rightarrow> decision option res" where
  "rule_step en rq r =
     (case applies en rq (ru_target r) of
        Inl e \<Rightarrow> Inl e
      | Inr False \<Rightarrow> Inr None
      | Inr True \<Rightarrow>
          (case rule_decision en rq r of
             Inl e \<Rightarrow> Inl e
           | Inr d \<Rightarrow> Inr (Some (fst d, if fst d = ''permit'' then snd d else []))))"

definition policy_step :: "pdp_env \<Rightarrow> request \<Rightarrow> policy \<Rightarrow> decision option res" where
  "policy_step en rq p =
     (case applies en rq (po_target p) of
        Inl e \<Rightarrow> Inl e
      | Inr False \<Rightarrow> Inr None
      | Inr True \<Rightarrow> (case policy_decision en rq p of Inl e \<Rightarrow> Inl e | Inr d \<Rightarrow> Inr (Some d)))"

lemma overrides_without_obligations:
  "overrides alg (d, if d = ''permit'' then ob else []) = overrides alg (d, ob)"
  by (auto simp: overrides_def)

lemma rules_loop_comb:
  "rules_loop en rq (Some alg) rs ds obs = comb_loop (rule_step en rq) alg rs ds obs"
proof (induction rs arbitrary: ds obs)
  case (Cons r rs)
  show ?case
  proof (cases "applies en rq (ru_target r)")
    case (Inr b)
    show ?thesis
    proof (cases "rule_decision en rq r")
      case dec: (Inr d)
      obtain x ob where "d = (x, ob)" by (cases d)
      with Inr dec Cons show ?thesis
        by (cases b) (simp_all add: rule_step_def overrides_without_obligations)
    qed (use Inr in \<open>cases b; simp add: rule_step_def Cons\<close>)
  qed (simp add: rule_step_def)
qed (simp add: opt_default_def)

lemma policies_loop_comb:
  "policies_loop en rq alg ps ds obs = comb_loop (policy_step en rq) alg ps ds obs"
proof (induction ps arbitrary: ds obs)
  case (Cons p ps)
  show ?case
  proof (cases "applies en rq (po_target p)")
    case (Inr b)
    then show ?thesis by (cases b; cases "policy_decision en rq p") (simp_all add: policy_step_def Cons)
  qed (simp add: policy_step_def)
qed simp

section \<open>The combining algorithms\<close>

text \<open>Items that decide as they should: a known decision, and obligations with a permit only.\<close>

definition known_decision :: "decision \<Rightarrow> bool" where
  "known_decision d \<longleftrightarrow>
     fst d \<in> {''permit'', ''deny'', ''not_applicable'', ''indeterminate''} \<and> (snd d \<noteq> [] \<longrightarrow> fst d = ''permit'')"

text \<open>What the decisions of the applicable items mean together.\<close>

definition reference_decision :: "string \<Rightarrow> decision list \<Rightarrow> decision" where
  "reference_decision alg ds =
     (if alg = ''deny_overrides'' \<and> ''deny'' \<in> fst ` set ds then (''deny'', [])
      else if alg = ''permit_overrides'' \<and> (''permit'', []) \<in> set ds then (''permit'', [])
      else if ''indeterminate'' \<in> fst ` set ds then (''indeterminate'', [])
      else if ''permit'' \<in> fst ` set ds then (''permit'', concat (map snd ds))
      else if ''deny'' \<in> fst ` set ds then (''deny'', [])
      else (''not_applicable'', []))"

fun decided :: "('a \<Rightarrow> decision option res) \<Rightarrow> 'a list \<Rightarrow> decision list res" where
  "decided step [] = Inr []"
| "decided step (x # xs) =
     (case step x of
        Inl e \<Rightarrow> Inl e
      | Inr None \<Rightarrow> decided step xs
      | Inr (Some d) \<Rightarrow> (case decided step xs of Inl e \<Rightarrow> Inl e | Inr ds \<Rightarrow> Inr (d # ds)))"

lemma overrides_reference:
  assumes "d \<in> set ds" "overrides alg d" shows "reference_decision alg ds = (fst d, [])"
proof -
  from assms(2) consider "d = (''permit'', [])" "alg = ''permit_overrides''" | "fst d = ''deny''" "alg = ''deny_overrides''"
    by (cases d) (auto simp: overrides_def)
  then show ?thesis
  proof cases
    case 1
    with assms(1) show ?thesis by (simp add: reference_decision_def)
  next
    case 2
    then have "''deny'' \<in> fst ` set ds" using assms(1) by (metis imageI)
    with 2 show ?thesis by (simp add: reference_decision_def)
  qed
qed

lemma known_obligations:
  "\<forall>d\<in>set ds. known_decision d \<Longrightarrow> concat (map snd ds) \<noteq> [] \<Longrightarrow> ''permit'' \<in> fst ` set ds"
  by (auto simp only: known_decision_def concat_eq_Nil_conv set_map) (force intro: rev_image_eqI)

lemma known_range:
  "\<forall>d\<in>set ds. known_decision d \<Longrightarrow>
   fst ` set ds \<subseteq> {''permit'', ''deny'', ''not_applicable'', ''indeterminate''}"
  unfolding known_decision_def by blast

lemma only_left: "F \<subseteq> {a, b, c, d} \<Longrightarrow> a \<notin> F \<Longrightarrow> b \<notin> F \<Longrightarrow> d \<notin> F \<Longrightarrow> F \<subseteq> {c}"
  by blast

lemma combine_reference:
  assumes known: "\<forall>d\<in>set ds. known_decision d" and free: "\<forall>d\<in>set ds. \<not> overrides alg d"
    and alg: "alg = ''permit_overrides'' \<or> alg = ''deny_overrides''"
  shows "combine alg (map fst ds) (concat (map snd ds)) = reference_decision alg ds"
proof -
  let ?F = "fst ` set ds" and ?O = "concat (map snd ds)"
  have all: "list_all (\<lambda>d. d = ''not_applicable'') (map fst ds) \<longleftrightarrow> ?F \<subseteq> {''not_applicable''}"
    by (auto simp: list_all_iff)
  have free_deny: "alg = ''deny_overrides'' \<Longrightarrow> ''deny'' \<notin> ?F"
    and free_permit: "alg = ''permit_overrides'' \<Longrightarrow> (''permit'', []) \<notin> set ds"
    and obs: "alg = ''permit_overrides'' \<Longrightarrow> ''permit'' \<in> ?F \<Longrightarrow> ?O \<noteq> []"
    using free unfolding overrides_def by force+
  note k = known_obligations[OF known] known_range[OF known]
  show ?thesis
  proof (cases "''indeterminate'' \<in> ?F")
    case True
    then show ?thesis using free_deny free_permit by (simp add: combine_def reference_decision_def)
  next
    case noind: False
    show ?thesis
    proof (cases "''permit'' \<in> ?F")
      case True
      then have "\<not> ?F \<subseteq> {''not_applicable''}" by force
      then show ?thesis using noind True alg obs free_deny free_permit
        by (simp add: combine_def reference_decision_def all) blast
    next
      case noperm: False
      then have o: "?O = []" using k(1) by blast
      show ?thesis
      proof (cases "''deny'' \<in> ?F")
        case True
        then have a: "alg = ''permit_overrides''" and "\<not> ?F \<subseteq> {''not_applicable''}"
          using alg free_deny by force+
        then show ?thesis using noind noperm True o free_permit
          by (simp add: combine_def reference_decision_def all)
      next
        case False
        have na: "?F \<subseteq> {''not_applicable''}" by (rule only_left[OF k(2) noperm False noind])
        have "(''permit'', []) \<notin> set ds" using noperm by force
        with na noind noperm False show ?thesis
          by (simp only: combine_def reference_decision_def all set_map simp_thms if_False if_True)
      qed
    qed
  qed
qed

lemma comb_loop_reference_gen:
  assumes "decided step xs = Inr ds" "\<forall>d\<in>set (es @ ds). known_decision d" "\<forall>d\<in>set es. \<not> overrides alg d"
    and alg: "alg = ''permit_overrides'' \<or> alg = ''deny_overrides''"
  shows "comb_loop step alg xs (map fst es) (concat (map snd es)) = Inr (reference_decision alg (es @ ds))"
  using assms(1-3)
proof (induction xs arbitrary: es ds)
  case Nil
  then show ?case by (simp add: combine_reference alg)
next
  case (Cons x xs)
  show ?case
  proof (cases "step x")
    case (Inr o')
    show ?thesis
    proof (cases o')
      case None
      with Inr Cons show ?thesis by simp
    next
      case (Some d)
      with Inr Cons.prems obtain ds' where ds: "decided step xs = Inr ds'" "ds = d # ds'"
        by (auto split: sum.splits)
      show ?thesis
      proof (cases "overrides alg d")
        case True
        with Inr Some ds show ?thesis by (simp add: overrides_reference[of d])
      next
        case False
        with Inr Some ds Cons.IH[of ds' "es @ [d]"] Cons.prems show ?thesis by simp
      qed
    qed
  qed (use Cons.prems in simp)
qed

lemma comb_loop_reference:
  assumes "decided step xs = Inr ds" "\<forall>d\<in>set ds. known_decision d"
    and "alg = ''permit_overrides'' \<or> alg = ''deny_overrides''"
  shows "comb_loop step alg xs [] [] = Inr (reference_decision alg ds)"
  using comb_loop_reference_gen[of step xs ds "[]" alg] assms by simp

section \<open>What a decision says about the items\<close>

lemma comb_loop_known:
  assumes "comb_loop step alg xs ds obs = Inr d"
    and "\<forall>x\<in>set xs. \<forall>d. step x = Inr (Some d) \<longrightarrow> known_decision d"
  shows "known_decision d"
  using assms
proof (induction xs arbitrary: ds obs)
  case Nil
  then have "d = combine alg ds obs" by simp
  then consider "d = (''indeterminate'', [])" | "d = (''permit'', obs)" | "d = (''deny'', [])" | "d = (''not_applicable'', [])"
    unfolding combine_def by (auto split: if_splits)
  then show ?case by cases (simp_all add: known_decision_def)
next
  case (Cons x xs)
  show ?case
  proof (cases "step x")
    case (Inr o')
    show ?thesis
    proof (cases o')
      case None
      with Inr Cons show ?thesis by simp
    next
      case (Some d')
      show ?thesis
      proof (cases "overrides alg d'")
        case True
        moreover have "known_decision d'" using Cons.prems(2) Inr Some by (meson list.set_intros(1))
        ultimately show ?thesis using Cons.prems(1) Inr Some by (auto simp: known_decision_def)
      next
        case False
        with Inr Some Cons.prems(1) have "comb_loop step alg xs (ds @ [fst d']) (obs @ snd d') = Inr d" by simp
        then show ?thesis by (rule Cons.IH) (use Cons.prems(2) in simp)
      qed
    qed
  qed (use Cons.prems in simp)
qed

text \<open>A permit comes from an item that permits; \<open>ds\<close> and \<open>obs\<close> are those met so far.\<close>

lemma comb_loop_permit:
  assumes "comb_loop step alg xs ds obs = Inr (''permit'', ob)"
    and "\<forall>x\<in>set xs. \<forall>d. step x = Inr (Some d) \<longrightarrow> known_decision d"
    and "set ds \<subseteq> {''permit'', ''deny'', ''not_applicable'', ''indeterminate''}"
    and "alg = ''deny_overrides'' \<Longrightarrow> ''deny'' \<notin> set ds" and "obs \<noteq> [] \<Longrightarrow> ''permit'' \<in> set ds"
  shows "''permit'' \<in> set ds \<or> (\<exists>x\<in>set xs. \<exists>d. step x = Inr (Some d) \<and> fst d = ''permit'')"
  using assms
proof (induction xs arbitrary: ds obs)
  case Nil
  show ?case
  proof (rule ccontr)
    assume "\<not> ?case"
    then have np: "''permit'' \<notin> set ds" by simp
    with Nil have o: "obs = []" by blast
    have i: "''indeterminate'' \<notin> set ds" and a: "alg = ''deny_overrides''" and n: "\<not> list_all (\<lambda>d. d = ''not_applicable'') ds"
      using Nil.prems(1) o by (auto simp: combine_def split: if_splits)
    have "set ds \<subseteq> {''not_applicable''}"
      using only_left[OF Nil.prems(3) np Nil.prems(4)[OF a] i] .
    with n show False by (auto simp: list_all_iff)
  qed
next
  case (Cons x xs)
  show ?case
  proof (cases "step x")
    case (Inr o')
    show ?thesis
    proof (cases o')
      case None
      have "''permit'' \<in> set ds \<or> (\<exists>x\<in>set xs. \<exists>d. step x = Inr (Some d) \<and> fst d = ''permit'')"
      proof (rule Cons.IH[where obs = obs])
        show "comb_loop step alg xs ds obs = Inr (''permit'', ob)" using Cons.prems(1) Inr None by simp
      qed (use Cons.prems in \<open>simp_all\<close>)
      then show ?thesis by auto
    next
      case (Some d)
      have k: "known_decision d" using Cons.prems(2) Inr Some by (meson list.set_intros(1))
      show ?thesis
      proof (cases "fst d = ''permit''")
        case True
        with Inr Some show ?thesis by (meson list.set_intros(1))
      next
        case False
        with k have s: "snd d = []" by (auto simp: known_decision_def)
        have no: "\<not> overrides alg d" using Cons.prems(1) Inr Some False by auto
        have "''permit'' \<in> set (ds @ [fst d]) \<or> (\<exists>x\<in>set xs. \<exists>d. step x = Inr (Some d) \<and> fst d = ''permit'')"
        proof (rule Cons.IH[where obs = obs])
          show "comb_loop step alg xs (ds @ [fst d]) obs = Inr (''permit'', ob)"
            using Cons.prems(1) Inr Some no s by simp
          show "\<forall>x\<in>set xs. \<forall>d. step x = Inr (Some d) \<longrightarrow> known_decision d" using Cons.prems(2) by simp
          show "set (ds @ [fst d]) \<subseteq> {''permit'', ''deny'', ''not_applicable'', ''indeterminate''}"
            using k Cons.prems(3) unfolding known_decision_def by simp
          show "alg = ''deny_overrides'' \<Longrightarrow> ''deny'' \<notin> set (ds @ [fst d])"
            using no Cons.prems(4) unfolding overrides_def by auto
          show "obs \<noteq> [] \<Longrightarrow> ''permit'' \<in> set (ds @ [fst d])" using Cons.prems(5) by simp
        qed
        with False show ?thesis by auto
      qed
    qed
  qed (use Cons.prems in simp)
qed

definition known_effects :: "policy \<Rightarrow> bool" where
  "known_effects p \<longleftrightarrow> (\<forall>r\<in>set (opt_default [] (po_rules p)). ru_effect r = Some ''permit'' \<or> ru_effect r = Some ''deny'')"

lemma rule_decision_cases:
  assumes "rule_decision en rq r = Inr d"
  shows "d = (''indeterminate'', []) \<or> d = (''not_applicable'', [])
    \<or> (\<exists>e. ru_effect r = Some e \<and> d = (e, ru_obligations r)
         \<and> (\<forall>c. ru_condition r = Some c \<longrightarrow> condition_holds en rq c = Inr True))"
  using assms by (auto simp: rule_decision_def split: option.splits sum.splits if_splits bool.splits)

lemma rule_step_known:
  assumes "rule_step en rq r = Inr (Some d)" "ru_effect r = Some ''permit'' \<or> ru_effect r = Some ''deny''"
  shows "known_decision d"
proof -
  obtain d' where d': "rule_decision en rq r = Inr d'" "d = (fst d', if fst d' = ''permit'' then snd d' else [])"
    using assms(1) by (auto simp: rule_step_def split: sum.splits bool.splits)
  then show ?thesis using rule_decision_cases[OF d'(1)] assms(2)
    by (auto simp: known_decision_def)
qed

lemma rules_loop_no_algorithm:
  "rules_loop en rq None rs [] [] = Inr d \<Longrightarrow> d = (''not_applicable'', [])"
  by (induction rs) (auto simp: combine_def split: sum.splits bool.splits)

lemma policy_decision_known:
  assumes "policy_decision en rq p = Inr d" "known_effects p" shows "known_decision d"
proof -
  obtain rs where rs: "po_rules p = Some rs" "rules_loop en rq (po_combining p) rs [] [] = Inr d"
    using assms(1) by (auto simp: policy_decision_def split: option.splits)
  show ?thesis
  proof (cases "po_combining p")
    case None
    with rs rules_loop_no_algorithm show ?thesis by (fastforce simp: known_decision_def)
  next
    case (Some alg)
    with rs have "comb_loop (rule_step en rq) alg rs [] [] = Inr d" by (simp add: rules_loop_comb)
    then show ?thesis
      by (rule comb_loop_known) (use assms(2) rs rule_step_known in \<open>auto simp: known_effects_def opt_default_def\<close>)
  qed
qed

lemma policy_step_known:
  "policy_step en rq p = Inr (Some d) \<Longrightarrow> known_effects p \<Longrightarrow> known_decision d"
  by (auto simp: policy_step_def policy_decision_known split: sum.splits bool.splits)

lemma policy_permit_rule:
  assumes "policy_decision en rq p = Inr (''permit'', ob)" "known_effects p"
  shows "\<exists>rs r. po_rules p = Some rs \<and> r \<in> set rs \<and> applies en rq (ru_target r) = Inr True
    \<and> ru_effect r = Some ''permit'' \<and> (\<forall>c. ru_condition r = Some c \<longrightarrow> condition_holds en rq c = Inr True)"
proof -
  obtain rs where rs: "po_rules p = Some rs" "rules_loop en rq (po_combining p) rs [] [] = Inr (''permit'', ob)"
    using assms(1) by (auto simp: policy_decision_def split: option.splits)
  obtain alg where "po_combining p = Some alg"
    using rs rules_loop_no_algorithm by (cases "po_combining p") fastforce+
  with rs have "comb_loop (rule_step en rq) alg rs [] [] = Inr (''permit'', ob)" by (simp add: rules_loop_comb)
  from comb_loop_permit[OF this] obtain r d where r: "r \<in> set rs" "rule_step en rq r = Inr (Some d)" "fst d = ''permit''"
    using assms(2) rs rule_step_known by (auto simp: known_effects_def opt_default_def)
  then obtain d' where "applies en rq (ru_target r) = Inr True" "rule_decision en rq r = Inr d'" "fst d' = ''permit''"
    by (auto simp: rule_step_def split: sum.splits bool.splits)
  with r(1) rs(1) rule_decision_cases[of en rq r d'] show ?thesis by fastforce
qed

section \<open>Properties of the combined decision\<close>

lemma combined_Inr:
  "combined_policy_decision en alg (Inr ps) rq =
     (case comb_loop (policy_step en rq) alg ps [] [] of Inl _ \<Rightarrow> (''indeterminate'', []) | Inr d \<Rightarrow> d)"
  by (simp add: combined_policy_decision_def policies_loop_comb)

text \<open>
  C24: A permit has a reason.  Whatever the combining algorithms, when the decision point answers
  permit, some stored policy applies to the request and has a rule that applies to it, whose effect is permit and
  whose condition, if it has one, holds.  The effects of the rules must be permit or deny.\<close>
theorem permit_needs_rule:
  assumes "combined_policy_decision en alg policies rq = (''permit'', obs)"
    and "\<forall>ps. policies = Inr ps \<longrightarrow> (\<forall>p\<in>set ps. known_effects p)"
  shows "\<exists>ps p rs r. policies = Inr ps \<and> p \<in> set ps \<and> applies en rq (po_target p) = Inr True
    \<and> po_rules p = Some rs \<and> r \<in> set rs \<and> applies en rq (ru_target r) = Inr True
    \<and> ru_effect r = Some ''permit'' \<and> (\<forall>c. ru_condition r = Some c \<longrightarrow> condition_holds en rq c = Inr True)"
proof -
  obtain ps where ps: "policies = Inr ps" "comb_loop (policy_step en rq) alg ps [] [] = Inr (''permit'', obs)"
    using assms(1) by (cases policies) (auto simp: combined_policy_decision_def policies_loop_comb split: sum.splits)
  from comb_loop_permit[OF ps(2)] obtain p d
    where p: "p \<in> set ps" "policy_step en rq p = Inr (Some d)" "fst d = ''permit''"
    using assms(2) ps(1) policy_step_known by auto
  then have "applies en rq (po_target p) = Inr True" "policy_decision en rq p = Inr (''permit'', snd d)"
    by (cases d; auto simp: policy_step_def split: sum.splits bool.splits)+
  with policy_permit_rule[of en rq p "snd d"] p(1) ps(1) assms(2) show ?thesis by blast
qed

text \<open>
  C25: The decision point implements its combining algorithms.  When no policy fails and all effects are permit or
  deny, the answer is the reference decision over the applicable policies: under
  deny_overrides a deny wins, under permit_overrides a permit without obligations; otherwise an
  indeterminate policy makes the answer indeterminate, then a permit counts, with the
  obligations of all policies, then a deny.\<close>
theorem combined_is_reference:
  assumes "decided (policy_step en rq) ps = Inr ds" "\<forall>p\<in>set ps. known_effects p"
    and "alg = ''permit_overrides'' \<or> alg = ''deny_overrides''"
  shows "combined_policy_decision en alg (Inr ps) rq = reference_decision alg ds"
proof -
  have "decided (policy_step en rq) qs = Inr es \<Longrightarrow> \<forall>p\<in>set qs. known_effects p \<Longrightarrow> \<forall>d\<in>set es. known_decision d" for qs es
    by (induction qs arbitrary: es) (auto split: sum.splits option.splits dest: policy_step_known)
  with assms show ?thesis by (simp add: combined_Inr comb_loop_reference)
qed

definition policy_denies :: "pdp_env \<Rightarrow> request \<Rightarrow> policy \<Rightarrow> bool" where
  "policy_denies en rq p \<longleftrightarrow>
     applies en rq (po_target p) = Inr True \<and> (case policy_decision en rq p of Inl _ \<Rightarrow> False | Inr d \<Rightarrow> fst d = ''deny'')"

definition policy_raises :: "pdp_env \<Rightarrow> request \<Rightarrow> policy \<Rightarrow> bool" where
  "policy_raises en rq p \<longleftrightarrow>
     (case applies en rq (po_target p) of
        Inl _ \<Rightarrow> True | Inr b \<Rightarrow> b \<and> (case policy_decision en rq p of Inl _ \<Rightarrow> True | Inr _ \<Rightarrow> False))"

lemma deny_loop:
  "\<exists>p\<in>set ps. policy_denies en rq p \<Longrightarrow>
   (case policies_loop en rq ''deny_overrides'' ps ds obs of Inl _ \<Rightarrow> (''indeterminate'', []) | Inr d \<Rightarrow> d) =
   (if \<exists>q\<in>set (takeWhile (\<lambda>q. \<not> policy_denies en rq q) ps). policy_raises en rq q then (''indeterminate'', []) else (''deny'', []))"
proof (induction ps arbitrary: ds obs)
  case (Cons p ps)
  show ?case
  proof (cases "policy_denies en rq p")
    case True
    then obtain ob where "applies en rq (po_target p) = Inr True" "policy_decision en rq p = Inr (''deny'', ob)"
      by (auto simp: policy_denies_def split: sum.splits)
    then show ?thesis using True by (simp add: overrides_def)
  next
    case False
    with Cons.prems have later: "\<exists>p\<in>set ps. policy_denies en rq p" by auto
    show ?thesis
    proof (cases "policy_raises en rq p")
      case True
      then show ?thesis using False by (auto simp: policy_raises_def split: sum.splits)
    next
      case ok: False
      then consider "applies en rq (po_target p) = Inr False"
        | d where "applies en rq (po_target p) = Inr True" "policy_decision en rq p = Inr d" "fst d \<noteq> ''deny''"
        using False by (auto simp: policy_raises_def policy_denies_def split: sum.splits)
      then show ?thesis by cases (use False ok Cons.IH[OF later] in \<open>auto simp: overrides_def\<close>)
    qed
  qed
qed simp

text \<open>
  C26: A denial is never overridden.  Under deny_overrides, when some policy that applies denies, the answer is deny, unless the evaluation of
  a policy before the first that denies raised an exception, and is indeterminate then;
  whatever the other policies say, be they indeterminate themselves, fail later or spell their effects in any way.\<close>
theorem denial_wins:
  assumes "p \<in> set ps" "policy_denies en rq p"
  shows "combined_policy_decision en ''deny_overrides'' (Inr ps) rq =
    (if \<exists>q\<in>set (takeWhile (\<lambda>q. \<not> policy_denies en rq q) ps). policy_raises en rq q then (''indeterminate'', []) else (''deny'', []))"
proof -
  have "\<exists>p\<in>set ps. policy_denies en rq p" using assms by blast
  from deny_loop[OF this, of "[]" "[]"] show ?thesis by (simp add: combined_policy_decision_def)
qed

text \<open>
  C40: An effect the code does not know counts as a permit.  Under deny_overrides, a policy whose only rule has any other effect than the
  known decisions (a misspelled deny, say) makes the decision point answer permit.\<close>
theorem unknown_effect_permits:
  assumes "e \<notin> {''permit'', ''deny'', ''not_applicable'', ''indeterminate''}"
  shows "combined_policy_decision en ''deny_overrides''
     (Inr [\<lparr>po_target = None,
            po_rules = Some [\<lparr>ru_id = Some i, ru_target = None, ru_effect = Some e, ru_condition = None, ru_obligations = []\<rparr>],
            po_combining = Some ''deny_overrides''\<rparr>]) rq = (''permit'', [])"
proof -
  have o: "\<not> overrides ''deny_overrides'' (e, [])" "\<not> overrides ''deny_overrides'' (''permit'', [])"
    using assms by (auto simp: overrides_def)
  have c: "combine ''deny_overrides'' [e] [] = (''permit'', [])" "combine ''deny_overrides'' [''permit''] [] = (''permit'', [])"
    using assms by (auto simp: combine_def)
  show ?thesis
    by (simp add: combined_Inr policy_step_def applies_def policy_decision_def rules_loop_comb rule_step_def rule_decision_def
        opt_default_def o c)
qed

section \<open>Requests with several requirements, searching a runtime\<close>

text \<open>Decision points that differ only in the node ids they added to registered attributes.\<close>

definition same_nodes :: "pdp \<Rightarrow> pdp \<Rightarrow> bool" where
  "same_nodes p p' \<longleftrightarrow> pd_combining p = pd_combining p'
     \<and> (\<forall>n. map_option (dput ''node_id'' (PStr n)) (dget (pd_registered p) n)
          = map_option (dput ''node_id'' (PStr n)) (dget (pd_registered p') n))"

lemma same_nodes_refl [simp]: "same_nodes p p"
  by (simp add: same_nodes_def)

lemma same_nodes_trans: "same_nodes p q \<Longrightarrow> same_nodes q r \<Longrightarrow> same_nodes p r"
  by (simp add: same_nodes_def)

lemma dput_twice [simp]: "dput k v (dput k v d) = dput k v d"
proof (induction d)
  case (Cons q d)
  then show ?case by (cases q) (simp add: dput_def)
qed (simp add: dput_def)

lemma add_resource_same:
  assumes "same_nodes p p'" shows "fst (add_resource p rq nid) = fst (add_resource p' rq nid)"
proof (cases nid)
  case (PStr n)
  from assms have "map_option (dput ''node_id'' (PStr n)) (dget (pd_registered p) n)
      = map_option (dput ''node_id'' (PStr n)) (dget (pd_registered p') n)" by (simp add: same_nodes_def)
  then show ?thesis using PStr
    by (cases "dget (pd_registered p) n"; cases "dget (pd_registered p') n") (simp_all add: add_resource_def Let_def)
qed (simp_all add: add_resource_def)

lemma add_resource_keeps: "same_nodes p (snd (add_resource p rq nid))"
proof (cases nid)
  case (PStr n)
  then show ?thesis
    by (cases "dget (pd_registered p) n") (simp_all add: add_resource_def same_nodes_def Let_def)
qed (simp_all add: add_resource_def)

text \<open>The answer for a request whose resource is complete.\<close>

definition answer_for :: "pdp_world \<Rightarrow> attributes option \<Rightarrow> string \<Rightarrow> request \<Rightarrow> response res" where
  "answer_for w desc alg rq =
     (case requirement_list (snd (add_requires (request_env w desc) rq)) of
        Inl e \<Rightarrow> Inl e
      | Inr qs \<Rightarrow>
          Inr (if 1 < length qs
               then requirements_decision (request_env w desc) alg (pw_policies w) (fst (add_requires (request_env w desc) rq)) qs
               else single_decision (request_env w desc) alg (pw_policies w) (fst (add_requires (request_env w desc) rq))))"

lemma authorize_answer:
  "authorize w rq p =
     (case request_value rq ''resource'' ''node_id'' of
        Inl _ \<Rightarrow> (Inl (PyException ''UnboundLocalError''), p)
      | Inr nid \<Rightarrow> (answer_for w (actor_desc_lookup w rq) (pd_combining p) (fst (add_resource p rq nid)), snd (add_resource p rq nid)))"
  by (cases "request_value rq ''resource'' ''node_id''";
      cases "requirement_list (snd (add_requires (request_env w (actor_desc_lookup w rq)) (fst (add_resource p rq (projr (request_value rq ''resource'' ''node_id''))))))")
     (simp_all add: authorize_def authorize_cont_def answer_for_def split_beta Let_def)

lemma authorize_same:
  assumes "same_nodes p p'" shows "fst (authorize w rq p) = fst (authorize w rq p')"
proof (cases "request_value rq ''resource'' ''node_id''")
  case (Inr nid)
  have "pd_combining p = pd_combining p'" using assms by (simp add: same_nodes_def)
  with Inr add_resource_same[OF assms, of rq nid] show ?thesis by (simp add: authorize_answer)
qed (simp add: authorize_answer)

lemma authorize_keeps: "same_nodes p (snd (authorize w rq p))"
proof (cases "request_value rq ''resource'' ''node_id''")
  case (Inr nid)
  with add_resource_keeps[of p rq nid] show ?thesis by (simp add: authorize_answer)
qed (simp add: authorize_answer)

lemma add_resource_action:
  "request_value (fst (add_resource p rq nid)) ''action'' a = request_value rq ''action'' a"
  by (cases nid) (auto simp: add_resource_def request_value_def dlook_def Let_def split: option.splits)

lemma requirements_permit:
  assumes "qs \<noteq> []"
  shows "rs_decision (requirements_decision en alg ps rq qs) = ''permit'' \<longleftrightarrow>
    (\<forall>q\<in>set qs. fst (combined_policy_decision en alg ps (requirement_request rq q)) = ''permit'')"
proof -
  define f where "f q = combined_policy_decision en alg ps (requirement_request rq q)" for q
  obtain q0 qs' where q: "qs = q0 # qs'" using assms by (cases qs) auto
  have "list_all (\<lambda>d. fst d = fst (map f qs ! 0)) (map f qs) \<longleftrightarrow> (\<forall>q\<in>set qs. fst (f q) = fst (f q0))"
    by (simp add: q list_all_iff)
  moreover have "(\<forall>q\<in>set qs. fst (f q) = ''permit'') \<longleftrightarrow> (\<forall>q\<in>set qs. fst (f q) = fst (f q0)) \<and> fst (f q0) = ''permit''"
    by (auto simp: q)
  moreover have "requirements_decision en alg ps rq qs =
      (if list_all (\<lambda>d. fst d = fst (map f qs ! 0)) (map f qs)
       then create_response (fst (f q0)) (map (\<lambda>d. PluginListC (snd d)) (filter (\<lambda>d. snd d \<noteq> []) (map f qs)))
       else create_response ''indeterminate'' [])"
    unfolding requirements_decision_def Let_def f_def by (simp add: q)
  ultimately show ?thesis by (simp add: create_response_def f_def)
qed

text \<open>
  C27: An actor with several requirements is permitted exactly when every requirement is.  For a request
  that names a node and at least two requirements, the decision point answers, and the answer is permit
  if and only if the combined decision for the request with that single requirement is permit, for each of them.\<close>
theorem every_requirement_permitted:
  assumes "request_value rq ''resource'' ''node_id'' = Inr nid"
    and "request_value rq ''action'' ''requires'' = Inr (PList qs)" "1 < length qs"
  shows "\<exists>r p'. authorize w rq p = (Inr r, p') \<and>
    (rs_decision r = ''permit'' \<longleftrightarrow>
      (\<forall>q\<in>set qs. fst (combined_policy_decision (request_env w (actor_desc_lookup w rq)) (pd_combining p)
         (pw_policies w) (requirement_request (fst (add_resource p rq nid)) q)) = ''permit''))"
proof -
  let ?rq = "fst (add_resource p rq nid)" and ?en = "request_env w (actor_desc_lookup w rq)"
  have "add_requires ?en ?rq = (?rq, PList qs)"
    using assms(2) by (simp add: add_requires_def add_resource_action)
  then have "authorize w rq p = (Inr (requirements_decision ?en (pd_combining p) (pw_policies w) ?rq qs), snd (add_resource p rq nid))"
    using assms(1,3) by (simp add: authorize_answer answer_for_def)
  moreover have "qs \<noteq> []" using assms(3) by auto
  ultimately show ?thesis by (simp add: requirements_permit)
qed

definition node_request :: "request \<Rightarrow> string \<Rightarrow> request" where
  "node_request rq n = dput ''resource'' [(''node_id'', PStr n)] rq"

definition node_answer :: "pdp_world \<Rightarrow> request \<Rightarrow> pdp \<Rightarrow> string \<Rightarrow> response res" where
  "node_answer w rq p n = fst (authorize w (node_request rq n) p)"

definition search_request :: "request \<Rightarrow> request" where
  "search_request rq = forget_attribute ''action'' ''requires'' (forget_attribute ''subject'' ''actor_signer'' rq)"

lemma search_loop_first:
  assumes "\<forall>n\<in>set ns. \<exists>r. node_answer w rq p0 n = Inr r" "same_nodes p0 p"
  shows "\<exists>res p'. search_loop w rq ns p = (Inr res, p')
    \<and> (case res of
         None \<Rightarrow> \<forall>n\<in>set ns. \<exists>r. node_answer w rq p0 n = Inr r \<and> \<not> acceptable w r
       | Some (n, r) \<Rightarrow> \<exists>pre post. ns = pre @ n # post \<and> node_answer w rq p0 n = Inr r \<and> acceptable w r
           \<and> (\<forall>m\<in>set pre. \<exists>r'. node_answer w rq p0 m = Inr r' \<and> \<not> acceptable w r'))"
  using assms
proof (induction ns arbitrary: p)
  case (Cons n ns)
  obtain r where r: "node_answer w rq p0 n = Inr r" using Cons.prems(1) by auto
  obtain p1 where p1: "authorize w (node_request rq n) p = (Inr r, p1)" "same_nodes p0 p1"
    using r authorize_same[OF Cons.prems(2)] authorize_keeps[of p w "node_request rq n"] Cons.prems(2) same_nodes_trans
    by (metis node_answer_def prod.collapse snd_conv)
  show ?case
  proof (cases "acceptable w r")
    case True
    then have "search_loop w rq (n # ns) p = (Inr (Some (n, r)), p1)"
      using p1 by (simp add: node_request_def)
    moreover have "\<exists>pre post. n # ns = pre @ n # post \<and> node_answer w rq p0 n = Inr r \<and> acceptable w r
        \<and> (\<forall>m\<in>set pre. \<exists>r'. node_answer w rq p0 m = Inr r' \<and> \<not> acceptable w r')"
      using r True by (intro exI[of _ "[]"] exI[of _ ns]) simp
    ultimately show ?thesis by auto
  next
    case False
    have s: "search_loop w rq (n # ns) p = search_loop w rq ns p1"
      using p1 False by (simp add: node_request_def)
    obtain res p' where res: "search_loop w rq ns p1 = (Inr res, p')"
      and spec: "case res of
         None \<Rightarrow> \<forall>n\<in>set ns. \<exists>r. node_answer w rq p0 n = Inr r \<and> \<not> acceptable w r
       | Some (n, r) \<Rightarrow> \<exists>pre post. ns = pre @ n # post \<and> node_answer w rq p0 n = Inr r \<and> acceptable w r
           \<and> (\<forall>m\<in>set pre. \<exists>r'. node_answer w rq p0 m = Inr r' \<and> \<not> acceptable w r')"
      using Cons.IH[OF _ p1(2)] Cons.prems(1) by auto
    show ?thesis
    proof (cases res)
      case None
      with s res spec r False show ?thesis by simp
    next
      case (Some nr)
      obtain m r' where nr: "nr = (m, r')" by (cases nr)
      with spec Some obtain pre post where pre: "ns = pre @ m # post" "node_answer w rq p0 m = Inr r'" "acceptable w r'"
          "\<forall>m\<in>set pre. \<exists>r'. node_answer w rq p0 m = Inr r' \<and> \<not> acceptable w r'" by auto
      then have "\<exists>pre post. n # ns = pre @ m # post \<and> node_answer w rq p0 m = Inr r' \<and> acceptable w r'
        \<and> (\<forall>m\<in>set pre. \<exists>r'. node_answer w rq p0 m = Inr r' \<and> \<not> acceptable w r')"
        using r False by (intro exI[of _ "n # pre"] exI[of _ post]) simp
      with s res Some nr show ?thesis by simp
    qed
  qed
qed simp

lemma forgotten: "\<exists>e. request_value (search_request rq) ''action'' ''requires'' = Inl e"
  by (auto simp: search_request_def forget_attribute_def request_value_def dlook_def split: option.splits)

lemma information_requires:
  "information date time desc ''action'' ''requires'' = Inr v \<Longrightarrow> \<exists>l. v = PList l"
  by (auto simp: information_def split: option.splits sum.splits pyval.splits)

lemma search_answers: "\<exists>r. node_answer w (search_request rq) p n = Inr r"
proof -
  let ?rq = "node_request (search_request rq) n"
  let ?en = "request_env w (actor_desc_lookup w ?rq)"
  have nid: "request_value ?rq ''resource'' ''node_id'' = Inr (PStr n)"
    by (simp add: node_request_def request_value_def dlook_def)
  obtain e where "request_value (fst (add_resource p ?rq (PStr n))) ''action'' ''requires'' = Inl e"
    using forgotten[of rq] by (auto simp: add_resource_action) (auto simp: node_request_def request_value_def dlook_def)
  then have "\<exists>qs. requirement_list (snd (add_requires ?en (fst (add_resource p ?rq (PStr n))))) = Inr qs"
    using information_requires[of "pw_date w" "pw_time w" "actor_desc_lookup w ?rq"]
    by (auto simp: add_requires_def request_env_def split: sum.splits)
  then show ?thesis by (auto simp: node_answer_def authorize_answer nid answer_for_def)
qed

text \<open>
  C28: The search for a runtime answers with the first acceptable one.  When some registered node is possible (on the whitelist, if there is one),
  the search returns; its result is the first possible node, in the order of the registration
  table, whose authorization answer is permit with obligations that hold now, and
  it is None exactly when no possible node has such an answer.\<close>
theorem runtime_search_first_match:
  assumes "possible_nodes p wl \<noteq> []"
  shows "\<exists>res p'. runtime_search w rq wl p = (Inr res, p')
    \<and> (case res of
         None \<Rightarrow> \<forall>n\<in>set (possible_nodes p wl). \<exists>r. node_answer w (search_request rq) p n = Inr r \<and> \<not> acceptable w r
       | Some (n, r) \<Rightarrow> \<exists>pre post. possible_nodes p wl = pre @ n # post
           \<and> node_answer w (search_request rq) p n = Inr r \<and> acceptable w r
           \<and> (\<forall>m\<in>set pre. \<exists>r'. node_answer w (search_request rq) p m = Inr r' \<and> \<not> acceptable w r'))"
proof -
  have "runtime_search w rq wl p = search_loop w (search_request rq) (possible_nodes p wl) p"
    using assms by (simp add: runtime_search_def search_request_def)
  then show ?thesis using search_loop_first[of "possible_nodes p wl" w "search_request rq" p p] search_answers by simp
qed

text \<open>Without a possible node the search fails instead of answering None.\<close>

lemma runtime_search_no_nodes: "runtime_search w rq wl (pdp_init c) = (Inl IndexError, pdp_init c)"
  by (simp add: runtime_search_def possible_nodes_def pdp_init_def)

section \<open>Witnesses\<close>

definition sample_world :: pdp_world where
  "sample_world = \<lparr>pw_match = \<lambda>p s. Inr (p = s), pw_str = \<lambda>v. '''', pw_lookup = \<lambda>s n. [[(''requires'', PList [PStr ''sys.timer''])]],
     pw_date = ''2017-01-01'', pw_time = ''12:00'',
     pw_policies = Inr
       [\<lparr>po_target = Some [(''subject'', [(''user'', PList [PStr ''ann'', PStr ''bob''])])],
         po_rules = Some
           [\<lparr>ru_id = Some ''r1'', ru_target = Some [(''action'', [(''requires'', PList [PStr ''sys.timer'', PStr ''runtime''])])],
             ru_effect = Some ''permit'', ru_condition =
               Some \<lparr>co_function = Some ''equal'', co_args = Some [CValue (PStr ''attr:resource:country''), CValue (PList [PStr ''SE''])]\<rparr>,
             ru_obligations = []\<rparr>],
         po_combining = Some ''permit_overrides''\<rparr>,
        \<lparr>po_target = Some [(''subject'', [(''user'', PStr ''eve'')])],
         po_rules = Some
           [\<lparr>ru_id = Some ''r2'', ru_target = None, ru_effect = Some ''deny'', ru_condition = None, ru_obligations = []\<rparr>],
         po_combining = Some ''deny_overrides''\<rparr>],
     pw_plugins = \<lambda>i. None\<rparr>"

definition sample_policies :: "policy list" where
  "sample_policies = projr (pw_policies sample_world)"

definition sample_pdp :: pdp where
  "sample_pdp = pdp_register_node ''n2'' [(''country'', PStr ''SE'')]
     (pdp_register_node ''n1'' [(''country'', PStr ''DK'')] (pdp_init (Some ''deny_overrides'')))"

definition sample_request :: "string \<Rightarrow> request" where
  "sample_request u = [(''subject'', [(''user'', PStr u), (''actorstore_signature'', PStr ''sig'')]),
     (''action'', [(''requires'', PList [PStr ''runtime'', PStr ''sys.timer''])]),
     (''resource'', [(''node_id'', PStr ''n2'')])]"

definition sample_full :: "string \<Rightarrow> request" where
  "sample_full u = fst (add_resource sample_pdp (sample_request u) (PStr ''n2''))"

definition sample_env :: pdp_env where
  "sample_env = request_env sample_world (actor_desc_lookup sample_world (sample_request ''ann''))"

definition sample_single :: "string \<Rightarrow> request" where
  "sample_single u = requirement_request (sample_full u) (PStr ''sys.timer'')"

lemma permit_needs_rule_witness:
  "\<exists>ps p rs r. pw_policies sample_world = Inr ps \<and> p \<in> set ps
    \<and> applies sample_env (sample_single ''ann'') (po_target p) = Inr True
    \<and> po_rules p = Some rs \<and> r \<in> set rs \<and> applies sample_env (sample_single ''ann'') (ru_target r) = Inr True
    \<and> ru_effect r = Some ''permit''"
proof -
  have "combined_policy_decision sample_env ''deny_overrides'' (pw_policies sample_world) (sample_single ''ann'') = (''permit'', [])"
    by code_simp
  moreover have "\<forall>ps. pw_policies sample_world = Inr ps \<longrightarrow> (\<forall>p\<in>set ps. known_effects p)"
    by (simp add: sample_world_def known_effects_def opt_default_def)
  ultimately show ?thesis by (blast dest: permit_needs_rule)
qed

lemma combined_is_reference_witness:
  "combined_policy_decision sample_env ''permit_overrides'' (Inr sample_policies) (sample_single ''ann'')
     = reference_decision ''permit_overrides'' [(''permit'', [])]"
proof (rule combined_is_reference)
  show "decided (policy_step sample_env (sample_single ''ann'')) sample_policies = Inr [(''permit'', [])]" by code_simp
  show "\<forall>p\<in>set sample_policies. known_effects p"
    by (simp add: sample_policies_def sample_world_def known_effects_def opt_default_def)
qed simp

lemma denial_wins_witness:
  "combined_policy_decision sample_env ''deny_overrides'' (Inr sample_policies) (sample_single ''eve'')
     = (''deny'', [])"
proof -
  have "sample_policies ! 1 \<in> set sample_policies" by (simp add: sample_policies_def sample_world_def)
  moreover have "policy_denies sample_env (sample_single ''eve'') (sample_policies ! 1)" by code_simp
  moreover have "\<not> list_ex (policy_raises sample_env (sample_single ''eve'')) sample_policies" by code_simp
  ultimately show ?thesis using denial_wins[of "sample_policies ! 1" sample_policies sample_env "sample_single ''eve''"]
    by (auto simp: list_ex_iff dest: set_takeWhileD)
qed

lemma unknown_effect_permits_witness:
  "combined_policy_decision sample_env ''deny_overrides''
     (Inr [\<lparr>po_target = None,
            po_rules = Some [\<lparr>ru_id = Some ''r'', ru_target = None, ru_effect = Some ''Deny'', ru_condition = None, ru_obligations = []\<rparr>],
            po_combining = Some ''deny_overrides''\<rparr>]) (sample_single ''eve'') = (''permit'', [])"
  by (rule unknown_effect_permits) simp

lemma every_requirement_permitted_witness:
  "\<exists>r p'. authorize sample_world (sample_request ''ann'') sample_pdp = (Inr r, p') \<and> rs_decision r = ''permit''
    \<and> fst (combined_policy_decision (request_env sample_world (actor_desc_lookup sample_world (sample_request ''ann'')))
         (pd_combining sample_pdp) (pw_policies sample_world)
         (requirement_request (fst (add_resource sample_pdp (sample_request ''ann'') (PStr ''n2''))) (PStr ''runtime''))) = ''permit''"
proof -
  have "map_sum id rs_decision (fst (authorize sample_world (sample_request ''ann'') sample_pdp)) = Inr ''permit''" by code_simp
  moreover have "request_value (sample_request ''ann'') ''resource'' ''node_id'' = Inr (PStr ''n2'')"
    "request_value (sample_request ''ann'') ''action'' ''requires'' = Inr (PList [PStr ''runtime'', PStr ''sys.timer''])"
    by (simp_all add: sample_request_def request_value_def dlook_def)
  ultimately show ?thesis using every_requirement_permitted[of "sample_request ''ann''" "PStr ''n2''" "[PStr ''runtime'', PStr ''sys.timer'']" sample_world sample_pdp]
    by fastforce
qed

lemma runtime_search_first_match_witness:
  "possible_nodes sample_pdp [] = [''n1'', ''n2'']
    \<and> map_sum id (map_option fst) (fst (runtime_search sample_world (sample_request ''ann'') [] sample_pdp)) = Inr (Some ''n2'')
    \<and> (\<exists>res p'. runtime_search sample_world (sample_request ''ann'') [] sample_pdp = (Inr res, p'))"
proof -
  have n: "possible_nodes sample_pdp [] = [''n1'', ''n2'']"
    by code_simp
  moreover have "map_sum id (map_option fst) (fst (runtime_search sample_world (sample_request ''ann'') [] sample_pdp)) = Inr (Some ''n2'')"
    by code_simp
  moreover have "possible_nodes sample_pdp [] \<noteq> []" using n by simp
  ultimately show ?thesis using runtime_search_first_match[of sample_pdp "[]" sample_world "sample_request ''ann''"] by blast
qed

end
