(* ===== verification/Attribute_Properties.thy ===== *)
theory Attribute_Properties
  imports Attribute_Index
begin

text \<open>
  What the attribute index guarantees: decoding inverts encoding except where a backslash is
  followed by a slash, trimmed search strings are prefixes of the stored ones, a level finds
  the nodes that offer at least as much; and that user attributes cannot be indexed.
\<close>

section \<open>Escaping\<close>

fun escape_char :: "char \<Rightarrow> string" where
  "escape_char c = (if c = bsl then [bsl, bsl] else if c = slash then [bsl, slash] else [c])"

lemma py_replace_single: "py_replace [a] r s = concat (map (\<lambda>c. if c = a then r else [c]) s)"
  by (induction s) auto

lemma escape_word_chars: "escape_word a = concat (map escape_char a)"
  unfolding escape_word_def py_replace_single by (induction a) auto

lemma escape_word_simps [simp]:
  "escape_word [] = []" "escape_word (c # cs) = escape_char c @ escape_word cs"
  by (simp_all add: escape_word_chars)

lemma escape_word_empty [simp]: "escape_word a = [] \<longleftrightarrow> a = []"
  by (cases a) auto

lemma escape_no_slash_head: "escape_word a \<noteq> slash # s"
  by (cases a) (auto split: if_splits)

lemma unescape_slashes:
  "py_replace [bsl, slash] [slash] (escape_word a) = concat (map (\<lambda>c. if c = bsl then [bsl, bsl] else [c]) a)"
proof (induction a)
  case (Cons c a)
  have "py_replace [bsl, slash] [slash] (bsl # escape_word a) = bsl # py_replace [bsl, slash] [slash] (escape_word a)"
    using escape_no_slash_head [of a] by (cases "escape_word a") auto
  with Cons show ?case by auto
qed simp

lemma unescape_escape [simp]: "unescape_word (escape_word a) = a"
  unfolding unescape_word_def unescape_slashes by (induction a) auto

section \<open>Splitting\<close>

text \<open>No backslash is followed by a slash.\<close>

fun clean_word :: "string \<Rightarrow> bool" where
  "clean_word (a # b # s) = (\<not> (a = bsl \<and> b = slash) \<and> clean_word (b # s))"
| "clean_word _ = True"

definition head_ok :: "char option \<Rightarrow> string \<Rightarrow> bool" where
  "head_ok p1 v \<longleftrightarrow> (v \<noteq> [] \<and> hd v = slash \<longrightarrow> p1 \<noteq> None \<and> p1 \<noteq> Some bsl)"

definition end_ok :: "char option \<Rightarrow> char option \<Rightarrow> bool" where
  "end_ok p2 p1 \<longleftrightarrow> (p1 = Some bsl \<longrightarrow> p2 = Some bsl)"

lemma clean_word_tl: "clean_word (c # v) \<Longrightarrow> clean_word v \<and> (c = bsl \<longrightarrow> v = [] \<or> hd v \<noteq> slash)"
  by (cases v) auto

text \<open>Inside an escaped clean word nothing is split.\<close>

lemma split_word:
  assumes "clean_word v" "head_ok p1 v" "end_ok p2 p1"
  shows "\<exists>q2 q1. end_ok q2 q1 \<and>
    (\<forall>rest. split_index p2 p1 acc (escape_word v @ rest) = split_index q2 q1 (rev (escape_word v) @ acc) rest)"
  using assms
proof (induction v arbitrary: p2 p1 acc)
  case (Cons c v)
  note tl = clean_word_tl [OF Cons.prems(1)]
  consider (b) "c = bsl" | (s) "c = slash" | (o) "c \<noteq> bsl" "c \<noteq> slash" by blast
  then show ?case
  proof cases
    case b
    have "head_ok (Some bsl) v" using tl b by (auto simp: head_ok_def)
    from Cons.IH [OF _ this, of "Some bsl" "bsl # bsl # acc"] tl b show ?thesis
      by (auto simp: end_ok_def)
  next
    case s
    then have p1: "p1 \<noteq> None" "p1 \<noteq> Some bsl" using Cons.prems(2) by (auto simp: head_ok_def)
    have "head_ok (Some slash) v" by (simp add: head_ok_def)
    from Cons.IH [OF _ this, of "Some bsl" "slash # bsl # acc"] tl s p1 show ?thesis
      by (auto simp: end_ok_def)
  next
    case o
    have "head_ok (Some c) v" using o by (simp add: head_ok_def)
    from Cons.IH [OF _ this, of p1 "c # acc"] tl o show ?thesis
      by (auto simp: end_ok_def)
  qed
qed auto

fun join_slash :: "string list \<Rightarrow> string" where
  "join_slash [] = []"
| "join_slash (w # ws) = w @ concat (map (\<lambda>w. slash # w) ws)"

lemma split_rest:
  assumes "\<forall>v \<in> set vs. clean_word v" "end_ok q2 q1"
  shows "split_index q2 q1 acc (concat (map (\<lambda>w. slash # escape_word w) vs)) = rev acc # map escape_word vs"
  using assms
proof (induction vs arbitrary: q2 q1 acc)
  case (Cons v vs)
  have sep: "split_index q2 q1 acc (slash # s) = rev acc # split_index q1 (Some slash) [] s" for s
    using Cons.prems(2) by (auto simp: end_ok_def)
  have ok: "clean_word v" "head_ok (Some slash) v" "end_ok q1 (Some slash)"
    using Cons.prems by (simp_all add: head_ok_def end_ok_def)
  obtain r2 r1 where r: "end_ok r2 r1"
      "\<forall>rest. split_index q1 (Some slash) [] (escape_word v @ rest) = split_index r2 r1 (rev (escape_word v) @ []) rest"
    using split_word [OF ok, of "[]"] by blast
  have "split_index r2 r1 (rev (escape_word v)) (concat (map (\<lambda>w. slash # escape_word w) vs))
      = escape_word v # map escape_word vs"
    using Cons.IH [OF _ r(1), of "rev (escape_word v)"] Cons.prems(1) by simp
  then show ?case using sep r(2) by simp
qed simp

lemma split_encoded:
  assumes "clean_word v" "v = [] \<or> hd v \<noteq> slash" "\<forall>v \<in> set vs. clean_word v"
  shows "split_index None None [] (join_slash (map escape_word (v # vs))) = map escape_word (v # vs)"
proof -
  have ok: "head_ok None v" "end_ok None None" using assms(2) by (auto simp: head_ok_def end_ok_def)
  obtain r2 r1 where r: "end_ok r2 r1"
      "\<forall>rest. split_index None None [] (escape_word v @ rest) = split_index r2 r1 (rev (escape_word v) @ []) rest"
    using split_word [OF assms(1) ok, of "[]"] by blast
  show ?thesis using r(2) split_rest [OF assms(3) r(1), of "rev (escape_word v)"] by (simp add: o_def)
qed

section \<open>Encoding and decoding\<close>

text \<open>An index value: nothing, or a text.\<close>

fun index_text :: "pyval \<Rightarrow> string option" where
  "index_text PNone = Some []"
| "index_text (PStr s) = Some s"
| "index_text _ = None"

definition index_value :: "pyval \<Rightarrow> bool" where
  "index_value v \<longleftrightarrow> index_text v \<noteq> None"

lemma index_value_cases: "index_value v \<longleftrightarrow> v = PNone \<or> (\<exists>s. v = PStr s)"
  by (cases v) (auto simp: index_value_def)

lemma index_words_text: "\<forall>v \<in> set vs. index_value v \<Longrightarrow> index_words vs = Inr (map (escape_word \<circ> the \<circ> index_text) vs)"
  by (induction vs) (auto simp: index_value_cases)

lemma encode_index_text:
  assumes "\<forall>v \<in> set vs. index_value v"
  shows "encode_index vs =
    Inr (index_root (index_kind vs) @ concat (map (\<lambda>v. slash # escape_word (the (index_text v))) vs))"
proof -
  have "\<not> list_ex unhashable vs" using assms by (auto simp: list_ex_iff index_value_cases)
  then show ?thesis
    using index_words_text [OF assms]
    by (simp add: encode_index_def encode_index_list_def index_root_def o_def)
qed

lemma decode_index_root:
  assumes "k = ''resource'' \<or> k = ''attribute''"
  shows "decode_index (index_root k @ slash # s) = Inr (decode_words s)"
  using assms by (auto simp: decode_index_def index_root_def)

text \<open>
  C29: Decoding an index gives back the words it was encoded from, absent and empty ones as None, for
  any words in which no backslash is directly followed by a slash (the first word, the type, must
  be non-empty and not begin with a slash).  Slashes and backslashes are escaped and unescaped.
\<close>
theorem index_round_trip:
  assumes "clean_word ty" "ty \<noteq> []" "hd ty \<noteq> slash"
    and "\<forall>v \<in> set vs. index_value v \<and> clean_word (the (index_text v))"
  shows "\<exists>s. encode_index (PStr ty # vs) = Inr s
    \<and> decode_index s = Inr (Some ty # map (\<lambda>v. if the (index_text v) = [] then None else Some (the (index_text v))) vs)"
proof -
  let ?ts = "map (the \<circ> index_text) vs"
  have iv: "\<forall>v \<in> set (PStr ty # vs). index_value v" using assms(4) by (simp add: index_value_def)
  have enc: "encode_index (PStr ty # vs) =
      Inr (index_root (index_kind (PStr ty # vs)) @ slash # join_slash (map escape_word (ty # ?ts)))"
    using encode_index_text [OF iv] by (simp add: o_def)
  have "split_index None None [] (join_slash (map escape_word (ty # ?ts))) = map escape_word (ty # ?ts)"
    by (rule split_encoded) (use assms in auto)
  then have dec: "decode_words (join_slash (map escape_word (ty # ?ts)))
      = Some ty # map (\<lambda>v. if the (index_text v) = [] then None else Some (the (index_text v))) vs"
    using assms(2) by (simp add: decode_words_def)
  have "index_kind (PStr ty # vs) = ''resource'' \<or> index_kind (PStr ty # vs) = ''attribute''"
    by (simp add: index_kind_def)
  from decode_index_root [OF this] enc dec show ?thesis by auto
qed

theorem index_round_trip_witness:
  "\<exists>s. encode_index [PStr ''owner'', PStr [CHR ''a'', slash, CHR ''b''], PNone, PStr [bsl]] = Inr s
    \<and> decode_index s = Inr [Some ''owner'', Some [CHR ''a'', slash, CHR ''b''], None, Some [bsl]]"
  using index_round_trip [of "''owner''" "[PStr [CHR ''a'', slash, CHR ''b''], PNone, PStr [bsl]]"]
  by (simp add: index_value_def)

text \<open>The number of words found does not depend on what was read before a word.\<close>

lemma split_length_acc: "length (split_index p2 p1 acc s) = length (split_index p2 p1 acc' s)"
  by (induction s arbitrary: p2 p1 acc acc') auto

lemma split_length_step: "length (split_index p1 (Some c) [] s) \<le> length (split_index p2 p1 acc (c # s))"
  using split_length_acc [of p1 "Some c" "[]" s "c # acc"] by auto

lemma split_length_suffix:
  "\<exists>q2 q1. length (split_index q2 q1 [] s) \<le> length (split_index p2 p1 acc (xs @ s))"
proof (induction xs arbitrary: p2 p1 acc)
  case Nil
  then show ?case using split_length_acc [of p2 p1 "[]" s acc] by (metis append_Nil order_refl)
next
  case (Cons x xs)
  obtain q2 q1 where "length (split_index q2 q1 [] s) \<le> length (split_index p1 (Some x) [] (xs @ s))"
    using Cons.IH by blast
  also have "\<dots> \<le> length (split_index p2 p1 acc ((x # xs) @ s))"
    using split_length_step [of p1 x "xs @ s" p2 acc] by simp
  finally show ?case by blast
qed

lemma split_length_pos: "1 \<le> length (split_index p2 p1 acc s)"
  by (induction s arbitrary: p2 p1 acc) auto

text \<open>
  A value in which a backslash is followed by a slash does not survive: \<open>decode_index\<close> takes the
  escaped slash for a separator, because the look-behind only inspects two characters, and returns
  at least one word too many.
\<close>
theorem index_round_trip_fails:
  "\<exists>s ws. encode_index [PStr ''owner'', PStr (u @ [bsl, slash] @ w)] = Inr s \<and> decode_index s = Inr ws
    \<and> 3 \<le> length ws"
proof -
  let ?v = "u @ [bsl, slash] @ w"
  let ?tail = "bsl # bsl # bsl # slash # escape_word w"
  have esc: "escape_word ?v = escape_word u @ ?tail" by (simp add: escape_word_chars)
  let ?s = "''owner'' @ slash # escape_word ?v"
  have enc: "encode_index [PStr ''owner'', PStr ?v] = Inr (index_root (index_kind [PStr ''owner'', PStr ?v]) @ slash # ?s)"
    using encode_index_text [of "[PStr ''owner'', PStr ?v]"] by (simp add: index_value_def)
  have k: "index_kind [PStr ''owner'', PStr ?v] = ''resource'' \<or> index_kind [PStr ''owner'', PStr ?v] = ''attribute''"
    by (simp add: index_kind_def)
  obtain q2 q1 where "length (split_index q2 q1 [] ?tail) \<le> length (split_index (Some (CHR ''r'')) (Some slash) [] (escape_word u @ ?tail))"
    using split_length_suffix by blast
  moreover have "2 \<le> length (split_index q2 q1 [] ?tail)"
    using split_length_pos [of "Some bsl" "Some slash" "[]" "escape_word w"] by simp
  moreover have "split_index None None [] ?s
      = ''owner'' # split_index (Some (CHR ''r'')) (Some slash) [] (escape_word u @ ?tail)"
    by (simp add: esc [simplified])
  ultimately have "3 \<le> length (decode_words ?s)" by (simp add: decode_words_def)
  with enc decode_index_root [OF k, of ?s] show ?thesis by blast
qed
section \<open>Searching\<close>

text \<open>Trimming keeps everything up to the last set value.\<close>

lemma trim_index_take: "\<exists>n \<le> length l. trim_index l = take n l \<and> (\<forall>x \<in> set (drop n l). \<not> truthy x)
    \<and> (0 < n \<longrightarrow> truthy (l ! (n - 1)))"
proof (induction l)
  case (Cons x l)
  have t: "trim_index (x # l) = (if list_ex truthy (x # l) then x # trim_index l else trim_index l)"
  proof -
    have u: "[0..<length (x # l)] = 0 # map Suc [0..<length l]"
      by (simp add: upt_conv_Cons map_Suc_upt del: upt_Suc)
    show ?thesis unfolding trim_index_def u by (simp add: filter_map comp_def)
  qed
  obtain n where n: "n \<le> length l" "trim_index l = take n l" "\<forall>x \<in> set (drop n l). \<not> truthy x"
      "0 < n \<longrightarrow> truthy (l ! (n - 1))" using Cons.IH by blast
  show ?case
  proof (cases "list_ex truthy (x # l)")
    case True
    have "0 < n \<or> truthy x"
      using True n(3) by (cases n) (auto simp: list_ex_iff)
    then show ?thesis using True t n by (intro exI [of _ "Suc n"]) (auto simp: nth_Cons')
  next
    case False
    then have "n = 0" using n(1,4) by (auto simp: list_ex_iff)
    then show ?thesis using False t n by (intro exI [of _ 0]) (auto simp: list_ex_iff)
  qed
qed (simp add: trim_index_def)

text \<open>
  Searching finds: when the resolved search words agree with those of a node wherever the search
  sets one (and the node leaves empty what the search skips above a set word), the trimmed search
  string is a prefix of the string the node is stored under, so the prefix search of the registry
  returns the node.
\<close>
theorem index_search_finds:
  assumes "length q = length n" "\<forall>v \<in> set q \<union> set n. index_value v"
    and "\<forall>i < length q. truthy (q ! i) \<longrightarrow> n ! i = q ! i"
    and "\<forall>i < length q. \<not> truthy (q ! i) \<and> list_ex truthy (drop i q) \<longrightarrow> index_text (n ! i) = index_text (q ! i)"
    and "index_kind (PStr ty # trim_index q) = index_kind (PStr ty # n)"
  shows "\<exists>sq sn. encode_index (PStr ty # trim_index q) = Inr sq \<and> encode_index (PStr ty # n) = Inr sn \<and> prefix sq sn"
proof -
  obtain k where k: "k \<le> length q" "trim_index q = take k q" "0 < k \<longrightarrow> truthy (q ! (k - 1))"
    using trim_index_take by blast
  have same: "index_text (n ! i) = index_text (q ! i)" if "i < k" for i
  proof (cases "truthy (q ! i)")
    case False
    have "q ! (k - 1) = drop i q ! (k - 1 - i)" "k - 1 - i < length (drop i q)" using that k(1) by auto
    moreover have "truthy (q ! (k - 1))" using k(3) that by simp
    ultimately have "list_ex truthy (drop i q)" unfolding list_ex_iff by (metis nth_mem)
    then show ?thesis using spec [OF assms(4), of i] False that k(1) by simp
  next
    case True
    then show ?thesis using spec [OF assms(3), of i] that k(1) by simp
  qed
  let ?enc = "\<lambda>v. slash # escape_word (the (index_text v))"
  have "map index_text (take k q) = map index_text (take k n)"
    by (rule nth_equalityI) (use k(1) assms(1) same in auto)
  then have "map (\<lambda>x. slash # escape_word (the x)) (map index_text (take k q))
      = map (\<lambda>x. slash # escape_word (the x)) (map index_text (take k n))" by simp
  then have eq: "map ?enc (take k q) = map ?enc (take k n)" by (simp add: o_def)
  have "concat (map ?enc (take k n @ drop k n)) = concat (map ?enc (take k q)) @ concat (map ?enc (drop k n))"
    by (simp only: map_append concat_append eq)
  then have "concat (map ?enc n) = concat (map ?enc (take k q)) @ concat (map ?enc (drop k n))"
    by simp
  moreover have "\<forall>v \<in> set (PStr ty # trim_index q). index_value v" "\<forall>v \<in> set (PStr ty # n). index_value v"
    using assms(2) k(2) by (auto simp: index_value_def dest: in_set_takeD)
  ultimately show ?thesis
    using encode_index_text [of "PStr ty # trim_index q"] encode_index_text [of "PStr ty # n"] assms(5) k(2)
    by (simp add: prefix_def)
qed

theorem index_search_finds_witness:
  "\<exists>sq sn. encode_index [PStr ''owner'', PStr ''org''] = Inr sq
    \<and> encode_index [PStr ''owner'', PStr ''org'', PNone, PStr ''admin'', PNone] = Inr sn \<and> prefix sq sn"
proof -
  let ?q = "[PStr ''org'', PNone, PNone, PNone]" and ?n = "[PStr ''org'', PNone, PStr ''admin'', PNone]"
  have t: "trim_index ?q = [PStr ''org'']" by code_simp
  have "\<forall>i < 4. i = 0 \<or> i = 1 \<or> i = 2 \<or> i = (3::nat)" by auto
  then have "\<forall>i < length ?q. truthy (?q ! i) \<longrightarrow> ?n ! i = ?q ! i"
    "\<forall>i < length ?q. \<not> truthy (?q ! i) \<and> list_ex truthy (drop i ?q) \<longrightarrow> index_text (?n ! i) = index_text (?q ! i)"
    by (auto simp: less_Suc_eq numeral_2_eq_2 numeral_3_eq_3)
  from index_search_finds [OF _ _ this, of "''owner''"] show ?thesis
    by (simp add: t index_value_def index_kind_def resource_list_def)
qed

lemma upto_level_nth: "distinct ks \<Longrightarrow> i < length ks \<Longrightarrow>
    upto_level ks (PStr (ks ! i)) = Some (map PStr (take (Suc i) ks))"
proof (induction ks arbitrary: i)
  case (Cons k ks)
  then show ?case by (cases i) auto
qed simp

lemma trim_index_set: "\<forall>x \<in> set l. truthy x \<Longrightarrow> trim_index l = l"
proof -
  assume t: "\<forall>x \<in> set l. truthy x"
  obtain n where "n \<le> length l" "trim_index l = take n l" "\<forall>x \<in> set (drop n l). \<not> truthy x"
    using trim_index_take by blast
  moreover from this t have "drop n l = []" by (metis in_set_dropD list.set_intros(1) neq_Nil_conv)
  ultimately show ?thesis by simp
qed

definition level_string :: "string \<Rightarrow> string list \<Rightarrow> nat \<Rightarrow> string" where
  "level_string ty ks i = concat (map (\<lambda>w. slash # escape_word w) (ty # take (Suc i) ks))"

lemma level_string_prefix:
  assumes "i < length ks" "j < length ks"
  shows "prefix (level_string ty ks i) (level_string ty ks j) \<longleftrightarrow> i \<le> j"
proof
  assume "i \<le> j"
  then have "take (Suc j) ks = take (Suc i) ks @ drop (Suc i) (take (Suc j) ks)"
    by (metis Suc_le_mono append_take_drop_id min.absorb1 take_take)
  then show "prefix (level_string ty ks i) (level_string ty ks j)"
    unfolding level_string_def prefix_def by (metis append_Cons concat_append map_append)
next
  assume p: "prefix (level_string ty ks i) (level_string ty ks j)"
  show "i \<le> j"
  proof (rule ccontr)
    assume "\<not> i \<le> j"
    then have "take (Suc i) ks = take (Suc j) ks @ drop (Suc j) (take (Suc i) ks)"
      by (metis Suc_le_mono append_take_drop_id min.absorb1 nat_le_linear take_take)
    moreover have "drop (Suc j) (take (Suc i) ks) \<noteq> []" using \<open>\<not> i \<le> j\<close> assms(1) by simp
    ultimately obtain x xs where "take (Suc i) ks = take (Suc j) ks @ x # xs" by (metis neq_Nil_conv)
    then have "length (level_string ty ks j) < length (level_string ty ks i)" by (simp add: level_string_def)
    with prefix_length_le [OF p] show False by simp
  qed
qed

text \<open>
  Searching by level: for the four resources given by levels, the search string of a level is a
  prefix of the string of a node's level exactly when the node offers at least that level.
\<close>
theorem level_search_finds_at_least:
  assumes "(ty, ks) \<in> {(''cpuAvail'', cpuAvail_keys), (''cpuTotal'', cpuTotal_keys),
      (''memAvail'', memAvail_keys), (''memTotal'', memTotal_keys)}"
    and "i < length ks" "j < length ks"
  shows "\<exists>sq sn. format_index_string str_of (PDict [(PStr ty, PStr (ks ! i))]) True = Inr sq
    \<and> format_index_string str_of (PDict [(PStr ty, PStr (ks ! j))]) False = Inr sn
    \<and> (prefix sq sn \<longleftrightarrow> i \<le> j)"
proof -
  note keys = cpuAvail_keys_def cpuTotal_keys_def memAvail_keys_def memTotal_keys_def
  have ks: "distinct ks" "\<forall>k \<in> set ks. k \<noteq> []" "\<forall>r \<in> set resource_list. r \<notin> set ks"
    using assms(1) by (auto simp: keys resource_list_def)
  have res: "attr_resolver str_of ty v = level_resolver ks v" for v
    using assms(1) by (auto simp: attr_resolver_def cpu_avail_resolver_def cpu_total_resolver_def
        mem_avail_resolver_def mem_total_resolver_def)
  have enc: "format_index_string str_of (PDict [(PStr ty, PStr (ks ! l))]) trim
      = Inr (index_root (index_kind [PStr ty]) @ level_string ty ks l)" if l: "l < length ks" for l trim
  proof -
    let ?vs = "map PStr (take (Suc l) ks)"
    have "trim_index ?vs = ?vs"
      by (rule trim_index_set) (use ks(2) in \<open>auto dest: in_set_takeD\<close>)
    moreover have "index_kind (PStr ty # ?vs) = index_kind [PStr ty]"
      using ks(3) by (auto simp: index_kind_def list_ex_iff image_iff dest: in_set_takeD)
    moreover have "encode_index (PStr ty # ?vs)
        = Inr (index_root (index_kind (PStr ty # ?vs)) @ level_string ty ks l)"
      using encode_index_text [of "PStr ty # ?vs"] by (simp add: index_value_def level_string_def o_def)
    ultimately show ?thesis
      by (simp add: format_index_string_def res level_resolver_def upto_level_nth [OF ks(1) l])
  qed
  show ?thesis using enc [OF assms(2)] enc [OF assms(3)] level_string_prefix [OF assms(2,3)] by simp
qed

theorem level_search_finds_at_least_witness:
  "\<exists>sq sn. format_index_string (\<lambda>v. []) (PDict [(PStr ''memTotal'', PStr ''100K'')]) True = Inr sq
    \<and> format_index_string (\<lambda>v. []) (PDict [(PStr ''memTotal'', PStr ''1G'')]) False = Inr sn \<and> prefix sq sn"
  using level_search_finds_at_least [of "''memTotal''" memTotal_keys 1 4 "\<lambda>v. []"]
  by (simp add: memTotal_keys_def)

section \<open>User attributes\<close>

text \<open>
  A node with user attributes cannot publish its index: \<open>user_extra\<close> is accepted as a list of
  lists, but \<open>encode_index\<close> puts the words into a set, which raises TypeError for lists, so
  \<open>get_indexed_public\<close> fails for all attributes of the node when the others can be encoded.
\<close>
theorem user_extra_breaks_index:
  assumes "attr_resolver str_of ''user_extra'' v = Inr l" "na_indexed na = pre @ (''user_extra'', l) # post"
    and "\<forall>(ty, vs) \<in> set pre. \<forall>v \<in> set vs. index_value v"
  shows "get_indexed_public na = Inl TypeError"
proof -
  obtain x rest where "l = PList x # rest"
    using assms(1) by (auto simp: attr_resolver_def extra_resolver_def split: pyval.splits list.splits)
  then have last: "get_indexed ((''user_extra'', l) # post) = Inl TypeError"
    by (simp add: encode_index_def encode_index_list_def)
  have "get_indexed (pre @ (''user_extra'', l) # post) = Inl TypeError"
    using assms(3)
  proof (induction pre)
    case (Cons p pre)
    obtain ty vs where p: "p = (ty, vs)" by (cases p)
    have "\<forall>v \<in> set (PStr ty # vs). index_value v" using Cons.prems p by (auto simp: index_value_def)
    from encode_index_text [OF this] Cons p show ?case by simp
  qed (simp only: append_Nil last)
  then show ?thesis using assms(2) by (simp add: get_indexed_public_def)
qed

theorem user_extra_breaks_index_witness:
  "\<exists>na. attributes_init (\<lambda>v. []) (PDict [(PStr ''indexed_public'',
       PDict [(PStr ''user_extra'', PList [PList [PStr ''a'']])])]) = Inr na
     \<and> get_indexed_public na = Inl TypeError"
proof -
  let ?na = "\<lparr>na_indexed = [(''user_extra'', [PList [PStr ''a'']])], na_public = PDict [], na_private = PDict []\<rparr>"
  have r: "attr_resolver (\<lambda>v. []) ''user_extra'' (PList [PList [PStr ''a'']]) = Inr [PList [PStr ''a'']]"
    by (simp add: attr_resolver_def extra_resolver_def)
  then have "attributes_init (\<lambda>v. []) (PDict [(PStr ''indexed_public'',
       PDict [(PStr ''user_extra'', PList [PList [PStr ''a'']])])]) = Inr ?na"
    by (simp add: attributes_init_def resolve_attributes_def)
  moreover have "get_indexed_public ?na = Inl TypeError"
    by (rule user_extra_breaks_index [OF r, of ?na "[]" "[]"]) simp_all
  ultimately show ?thesis by blast
qed

end
