(* ===== verification/Registry_Vocabulary.thy ===== *)
theory Registry_Vocabulary
  imports Attribute_Index
begin

text \<open>
  The vocabulary of the registry: responses (requests/calvinresponse.py), keys, the operations a
  storage plugin offers, and the contract of a registry as a locale.  \<open>StorageLocal\<close>
  (plugins/storage/storage_dict_local.py) is modelled here and provides the contract.  The members of sets
  are strings (node ids, actor ids, certificates), as in every call of the program.
\<close>

section \<open>Responses\<close>

text \<open>What a callback gets: a CalvinResponse with its status, a stored value, or a list of members.\<close>

datatype answer = AResponse nat | AValue pyval | AMembers "string set"

definition response_ok :: answer where "response_ok = AResponse 200"
definition response_failed :: answer where "response_failed = AResponse 500"
definition not_found :: answer where "not_found = AResponse 404"

text \<open>\<open>CalvinResponse.__nonzero__\<close> and the truth value of the other answers.\<close>

fun answer_true :: "answer \<Rightarrow> bool" where
  "answer_true (AResponse c) \<longleftrightarrow> 200 \<le> c \<and> c < 207"
| "answer_true (AValue v) \<longleftrightarrow> truthy v"
| "answer_true (AMembers s) \<longleftrightarrow> s \<noteq> {}"

fun isnotfailresponse :: "answer \<Rightarrow> bool" where
  "isnotfailresponse (AResponse c) \<longleftrightarrow> answer_true (AResponse c)"
| "isnotfailresponse _ \<longleftrightarrow> True"

lemma response_simps [simp]:
  "answer_true response_ok" "\<not> answer_true response_failed" "\<not> answer_true not_found"
  "isnotfailresponse response_ok" "\<not> isnotfailresponse response_failed" "\<not> isnotfailresponse not_found"
  by (simp_all add: response_ok_def response_failed_def not_found_def)

section \<open>Keys and operations\<close>

text \<open>A key is a string, or for an index the tuple of its levels.\<close>

datatype skey = KeyS string | KeyT "string list"

fun key_parts :: "skey \<Rightarrow> string list" where
  "key_parts (KeyS s) = map (\<lambda>c. [c]) s"
| "key_parts (KeyT ls) = ls"

text \<open>
  \<open>all(map(lambda x, y: False if x is None else True if y is None else x==y, k, index))\<close>: the shorter
  list is padded with None.
\<close>

fun level_match :: "string list \<Rightarrow> string list \<Rightarrow> bool" where
  "level_match k [] = True"
| "level_match [] (y # ys) = False"
| "level_match (x # xs) (y # ys) = (x = y \<and> level_match xs ys)"

lemma level_match_prefix: "level_match k ix \<longleftrightarrow> prefix ix k"
  by (induction k ix rule: level_match.induct) auto

datatype storage_op =
    OpSet string pyval
  | OpGet string
  | OpDelete string
  | OpGetConcat string
  | OpAppend string "string set"
  | OpRemove string "string set"
  | OpAddIndex "string list" "string set"
  | OpRemoveIndex "string list" "string set"
  | OpGetIndex "string list"

section \<open>The contract of a registry\<close>

text \<open>
  What the program relies on for indices: a successful addition adds, nothing but a removal of a
  member under the same levels removes it, a search finds the members below its levels.
\<close>

locale registry =
  fixes run :: "storage_op \<Rightarrow> 'r \<Rightarrow> answer \<times> 'r"
    and members :: "'r \<Rightarrow> string list \<Rightarrow> string set"
    and inv :: "'r \<Rightarrow> bool"
  assumes run_inv: "inv r \<Longrightarrow> inv (snd (run op r))"
    and run_add: "inv r \<Longrightarrow> answer_true (fst (run (OpAddIndex k vs) r)) \<Longrightarrow> vs \<subseteq> members (snd (run (OpAddIndex k vs) r)) k"
    and run_keeps: "inv r \<Longrightarrow> x \<in> members r k \<Longrightarrow> (\<forall>vs. op = OpRemoveIndex k vs \<longrightarrow> x \<notin> vs) \<Longrightarrow> x \<in> members (snd (run op r)) k"
    and run_search: "inv r \<Longrightarrow> x \<in> members r k \<Longrightarrow> prefix ix k \<Longrightarrow> \<exists>S. fst (run (OpGetIndex ix) r) = AMembers S \<and> x \<in> S"
begin

text \<open>A member stays through any sequence of operations that do not remove it, and every search above it finds it.\<close>

lemma runs_inv: "inv r \<Longrightarrow> inv (fold (\<lambda>op r. snd (run op r)) ops r)"
  by (induction ops arbitrary: r) (auto intro: run_inv)

lemma added_members_stay:
  "inv r \<Longrightarrow> x \<in> members r k \<Longrightarrow> \<forall>op\<in>set ops. \<forall>vs. op = OpRemoveIndex k vs \<longrightarrow> x \<notin> vs \<Longrightarrow>
   x \<in> members (fold (\<lambda>op r. snd (run op r)) ops r) k"
  by (induction ops arbitrary: r) (auto intro: run_keeps run_inv)

lemma added_member_found:
  assumes "inv r" "answer_true (fst (run (OpAddIndex k vs) r))" "x \<in> vs" "prefix ix k"
    and "\<forall>op\<in>set ops. \<forall>ws. op = OpRemoveIndex k ws \<longrightarrow> x \<notin> ws"
  shows "\<exists>S. fst (run (OpGetIndex ix) (fold (\<lambda>op r. snd (run op r)) ops (snd (run (OpAddIndex k vs) r)))) = AMembers S \<and> x \<in> S"
  using assms by (intro run_search[OF _ added_members_stay] runs_inv run_inv) (auto dest: run_add)

end

section \<open>StorageLocal\<close>

datatype stored = Single pyval | Members "string set"

record storage_local =
  sl_data :: "(skey, stored) dict"

definition sl_init :: storage_local where
  "sl_init = \<lparr>sl_data = []\<rparr>"

definition sl_put :: "skey \<Rightarrow> stored \<Rightarrow> storage_local \<Rightarrow> storage_local" where
  "sl_put k v d = d\<lparr>sl_data := dput k v (sl_data d)\<rparr>"

definition sl_set :: "string \<Rightarrow> pyval \<Rightarrow> storage_local \<Rightarrow> (answer, storage_local) out" where
  "sl_set k v d = (Inr response_ok, sl_put (KeyS k) (Single v) d)"

definition sl_get :: "string \<Rightarrow> storage_local \<Rightarrow> (answer, storage_local) out" where
  "sl_get k d =
     (Inr (case dget (sl_data d) (KeyS k) of
             None \<Rightarrow> not_found | Some (Single v) \<Rightarrow> AValue v | Some (Members s) \<Rightarrow> AMembers s), d)"

definition sl_delete :: "string \<Rightarrow> storage_local \<Rightarrow> (answer, storage_local) out" where
  "sl_delete k d =
     (case dget (sl_data d) (KeyS k) of
        None \<Rightarrow> (Inl KeyError, d)
      | Some _ \<Rightarrow> (Inr response_ok, d\<lparr>sl_data := ddel (KeyS k) (sl_data d)\<rparr>))"

definition sl_get_concat :: "string \<Rightarrow> storage_local \<Rightarrow> (answer, storage_local) out" where
  "sl_get_concat k d =
     (Inr (case dget (sl_data d) (KeyS k) of Some (Members s) \<Rightarrow> AMembers s | _ \<Rightarrow> not_found), d)"

text \<open>Adding to a key that holds no set replaces its value; removing from one deletes the key.\<close>

definition sl_add :: "skey \<Rightarrow> string set \<Rightarrow> storage_local \<Rightarrow> (answer, storage_local) out" where
  "sl_add k vs d =
     (Inr response_ok,
      sl_put k (Members (case dget (sl_data d) k of Some (Members s) \<Rightarrow> s \<union> vs | _ \<Rightarrow> vs)) d)"

definition sl_sub :: "skey \<Rightarrow> string set \<Rightarrow> storage_local \<Rightarrow> (answer, storage_local) out" where
  "sl_sub k vs d =
     (case dget (sl_data d) k of
        Some (Members s) \<Rightarrow> (Inr response_ok, sl_put k (Members (s - vs)) d)
      | Some (Single _) \<Rightarrow> (Inr response_ok, d\<lparr>sl_data := ddel k (sl_data d)\<rparr>)
      | None \<Rightarrow> (Inl KeyError, d))"

definition sl_append :: "string \<Rightarrow> string set \<Rightarrow> storage_local \<Rightarrow> (answer, storage_local) out" where
  "sl_append k vs d = sl_add (KeyS k) vs d"

definition sl_remove :: "string \<Rightarrow> string set \<Rightarrow> storage_local \<Rightarrow> (answer, storage_local) out" where
  "sl_remove k vs d = sl_sub (KeyS k) vs d"

definition sl_add_index :: "string \<Rightarrow> string list \<Rightarrow> string set \<Rightarrow> storage_local \<Rightarrow> (answer, storage_local) out" where
  "sl_add_index pre ix vs d = sl_add (KeyT (pre # ix)) vs d"

definition sl_remove_index :: "string \<Rightarrow> string list \<Rightarrow> string set \<Rightarrow> storage_local \<Rightarrow> (answer, storage_local) out" where
  "sl_remove_index pre ix vs d = sl_sub (KeyT (pre # ix)) vs d"

text \<open>
  The union over all matching keys.  A string key is iterated by characters, and none of them
  equals the prefix of an index; its value would have to be iterable.
\<close>

fun stored_members :: "stored \<Rightarrow> string set res" where
  "stored_members (Members s) = Inr s"
| "stored_members (Single (PStr s)) = Inr ((\<lambda>c. [c]) ` set s)"
| "stored_members (Single _) = Inl TypeError"

fun sl_collect :: "string list \<Rightarrow> (skey, stored) dict \<Rightarrow> string set res" where
  "sl_collect ix [] = Inr {}"
| "sl_collect ix ((k, v) # d) =
     (if level_match (key_parts k) ix
      then (case stored_members v of
              Inl e \<Rightarrow> Inl e
            | Inr s \<Rightarrow> (case sl_collect ix d of Inl e \<Rightarrow> Inl e | Inr t \<Rightarrow> Inr (s \<union> t)))
      else sl_collect ix d)"

definition sl_get_index :: "string \<Rightarrow> string list \<Rightarrow> storage_local \<Rightarrow> (answer, storage_local) out" where
  "sl_get_index pre ix d =
     (case sl_collect (pre # ix) (sl_data d) of Inl e \<Rightarrow> (Inl e, d) | Inr s \<Rightarrow> (Inr (AMembers s), d))"
text \<open>An operation as the registry runs it; the prefix of an index is that of storage.py.\<close>

fun sl_do :: "storage_op \<Rightarrow> storage_local \<Rightarrow> (answer, storage_local) out" where
  "sl_do (OpSet k v) d = sl_set k v d"
| "sl_do (OpGet k) d = sl_get k d"
| "sl_do (OpDelete k) d = sl_delete k d"
| "sl_do (OpGetConcat k) d = sl_get_concat k d"
| "sl_do (OpAppend k vs) d = sl_append k vs d"
| "sl_do (OpRemove k vs) d = sl_remove k vs d"
| "sl_do (OpAddIndex ix vs) d = sl_add_index ''index-'' ix vs d"
| "sl_do (OpRemoveIndex ix vs) d = sl_remove_index ''index-'' ix vs d"
| "sl_do (OpGetIndex ix) d = sl_get_index ''index-'' ix d"

definition sl_run :: "storage_op \<Rightarrow> storage_local \<Rightarrow> answer \<times> storage_local" where
  "sl_run op d = (case sl_do op d of (Inl e, d') \<Rightarrow> (response_failed, d') | (Inr a, d') \<Rightarrow> (a, d'))"

definition sl_members :: "storage_local \<Rightarrow> string list \<Rightarrow> string set" where
  "sl_members d k = (case dget (sl_data d) (KeyT (''index-'' # k)) of Some (Members s) \<Rightarrow> s | _ \<Rightarrow> {})"

text \<open>Under a tuple there is always a set.\<close>

definition sl_inv :: "storage_local \<Rightarrow> bool" where
  "sl_inv d \<longleftrightarrow> dict_ok (sl_data d) \<and> (\<forall>k v. dget (sl_data d) (KeyT k) \<noteq> Some (Single v))"

lemma sl_inv_put: "sl_inv d \<Longrightarrow> (\<forall>ls v'. k = KeyT ls \<longrightarrow> v \<noteq> Single v') \<Longrightarrow> sl_inv (sl_put k v d)"
  by (auto simp: sl_inv_def sl_put_def)

lemma sl_inv_del: "sl_inv d \<Longrightarrow> sl_inv (d\<lparr>sl_data := ddel k (sl_data d)\<rparr>)"
  by (auto simp: sl_inv_def)

lemma sl_run_inv: "sl_inv d \<Longrightarrow> sl_inv (snd (sl_run op d))"
  by (cases op)
     (auto simp: sl_run_def sl_set_def sl_get_def sl_delete_def sl_get_concat_def sl_append_def sl_remove_def
        sl_add_def sl_sub_def sl_add_index_def sl_remove_index_def sl_get_index_def sl_inv_put sl_inv_del
        split: option.splits stored.splits sum.splits)

lemma sl_members_put: "sl_members (sl_put k v d) ix =
    (if k = KeyT (''index-'' # ix) then (case v of Members s \<Rightarrow> s | Single _ \<Rightarrow> {}) else sl_members d ix)"
  by (auto simp: sl_members_def sl_put_def split: stored.splits)

lemma sl_members_del: "sl_members (d\<lparr>sl_data := ddel k (sl_data d)\<rparr>) ix = (if k = KeyT (''index-'' # ix) then {} else sl_members d ix)"
  by (auto simp: sl_members_def)

lemma sl_sub_keeps:
  assumes "sl_inv d" "x \<in> sl_members d ix" "k = KeyT (''index-'' # ix) \<Longrightarrow> x \<notin> vs"
  shows "x \<in> sl_members (snd (sl_sub k vs d)) ix"
proof -
  have "\<forall>k v. dget (sl_data d) (KeyT k) \<noteq> Some (Single v)" using assms(1) by (simp add: sl_inv_def)
  with assms(2,3) show ?thesis
    by (auto simp: sl_sub_def sl_members_put sl_members_del sl_members_def[of d] split: option.splits stored.splits)
qed

lemma sl_add_keeps: "x \<in> sl_members d ix \<Longrightarrow> x \<in> sl_members (snd (sl_add k vs d)) ix"
  by (auto simp: sl_add_def sl_members_put sl_members_def[of d] split: option.splits stored.splits)

lemma sl_run_snd: "snd (sl_run op d) = snd (sl_do op d)"
  by (auto simp: sl_run_def split: prod.splits sum.splits)

lemma sl_run_keeps:
  assumes "sl_inv d" "x \<in> sl_members d k" "\<forall>vs. op = OpRemoveIndex k vs \<longrightarrow> x \<notin> vs"
  shows "x \<in> sl_members (snd (sl_run op d)) k"
  using assms
  by (cases op)
     (auto simp: sl_run_snd sl_set_def sl_get_def sl_delete_def sl_get_concat_def sl_append_def sl_remove_def
        sl_add_index_def sl_remove_index_def sl_get_index_def sl_members_put sl_members_del
        intro: sl_add_keeps sl_sub_keeps split: option.splits stored.splits sum.splits)

lemma sl_collect_found:
  assumes "distinct (map fst d)" "\<forall>k v. dget d (KeyT k) \<noteq> Some (Single v)"
  shows "\<exists>S. sl_collect (''index-'' # ix) d = Inr S \<and>
    (\<forall>k s x. dget d (KeyT (''index-'' # k)) = Some (Members s) \<longrightarrow> prefix ix k \<longrightarrow> s \<subseteq> S)"
  using assms
proof (induction d)
  case (Cons kv d)
  obtain k v where kv: "kv = (k, v)" by (cases kv)
  have d: "\<forall>k v. dget d (KeyT k) \<noteq> Some (Single v)"
  proof (intro allI notI)
    fix l w assume "dget d (KeyT l) = Some (Single w)"
    moreover from this have "k \<noteq> KeyT l" using Cons.prems(1) kv by (metis dkeys_def dkeys_iff distinct.simps(2) fst_conv list.simps(9))
    ultimately show False using Cons.prems(2) kv by (auto split: if_splits)
  qed
  then obtain S where S: "sl_collect (''index-'' # ix) d = Inr S"
      "\<And>k s. dget d (KeyT (''index-'' # k)) = Some (Members s) \<Longrightarrow> prefix ix k \<Longrightarrow> s \<subseteq> S"
    using Cons by auto
  show ?case
  proof (cases k)
    case (KeyS s)
    have "\<not> level_match (map (\<lambda>c. [c]) s) (''index-'' # ix)" by (cases s) auto
    with S kv KeyS show ?thesis by auto
  next
    case (KeyT l)
    show ?thesis
    proof (cases v)
      case (Single w)
      then show ?thesis using Cons.prems(2)[rule_format, of l w] kv KeyT by simp
    next
      case (Members s)
      then show ?thesis using S kv KeyT by (auto simp: level_match_prefix split: if_splits)
    qed
  qed
qed simp

lemma sl_run_search:
  assumes "sl_inv d" "x \<in> sl_members d k" "prefix ix k"
  shows "\<exists>S. fst (sl_run (OpGetIndex ix) d) = AMembers S \<and> x \<in> S"
proof -
  obtain S where S: "sl_collect (''index-'' # ix) (sl_data d) = Inr S"
      "\<And>k s. dget (sl_data d) (KeyT (''index-'' # k)) = Some (Members s) \<Longrightarrow> prefix ix k \<Longrightarrow> s \<subseteq> S"
    using sl_collect_found[of "sl_data d" ix] assms(1) by (auto simp: sl_inv_def)
  then have "fst (sl_run (OpGetIndex ix) d) = AMembers S"
    by (simp add: sl_run_def sl_get_index_def)
  moreover have "x \<in> S" using assms S(2)[of k] by (auto simp: sl_members_def split: option.splits stored.splits)
  ultimately show ?thesis by auto
qed

interpretation sl: registry sl_run sl_members sl_inv
proof
  show "vs \<subseteq> sl_members (snd (sl_run (OpAddIndex k vs) r)) k" for k vs r
    by (auto simp: sl_run_snd sl_add_index_def sl_add_def sl_members_put split: option.splits stored.splits)
qed (auto intro: sl_run_inv sl_run_keeps sl_run_search)

end
