(* ===== verification/Registry_Storage.thy ===== *)
theory Registry_Storage
  imports Registry_Vocabulary
begin

text \<open>
  The storage of a runtime (runtime/north/storage.py): values and set updates are kept locally until the
  registry has confirmed them, requests are asynchronous, failed updates are flushed again.
  Requests in flight are a list of operations with their continuations (the CalvinCB objects);
  \<open>storage_reply\<close> runs a continuation.  Calls of the users' callbacks are logged.  Whether the
  plugin accepts a request or raises an exception is a parameter.
\<close>

section \<open>State\<close>

text \<open>
  The sets still to be added and removed under a key.  Continuations of a flush hold a
  reference to such a set, so an entry has an identity.
\<close>

record set_entry =
  en_id :: nat
  en_plus :: "string set"
  en_minus :: "string set"

datatype callback = UserC string | IterC nat string bool

datatype set_ref = Given "string set" | Live nat

datatype continuation =
    SetCont "string option" "pyval option" "callback option"
  | GetCont callback string
  | GetIterCont nat string bool
  | GetConcatCont callback string "string set"
  | AppendCont "string option" "callback option"
  | RemoveCont "string option" "callback option"
  | UserCont "callback option"
  | AddIndexCont set_ref "callback option" "string list" bool
  | RemoveIndexCont set_ref "callback option" "string list" bool
  | GetIndexCont "string set" "callback option"

record pending =
  pe_op :: storage_op
  pe_cont :: continuation

datatype call = Called string "string option" answer | Delayed string "string option" answer

datatype iter_item = Item "string option" answer | FailedItem "string option"

record dyn_iter =
  di_items :: "iter_item list"
  di_members :: "(string option \<times> string) set"
  di_final :: bool

text \<open>Times are multiples of 0.2 seconds, the first flush timeout.\<close>

record storage =
  st_localstore :: "(string, pyval) dict"
  st_sets :: "(skey, set_entry) dict"
  st_started :: bool
  st_starting :: bool
  st_flush_timeout :: nat
  st_flush_delayed :: "nat option"
  st_pending :: "pending list"
  st_calls :: "call list"
  st_iters :: "(nat, dyn_iter) dict"
  st_next_id :: nat

definition storage_init :: "string \<Rightarrow> storage" where
  "storage_init storage_type =
     \<lparr>st_localstore = [], st_sets = [], st_started = False, st_starting = (storage_type \<noteq> ''local''),
      st_flush_timeout = 1, st_flush_delayed = None, st_pending = [], st_calls = [], st_iters = [], st_next_id = 0\<rparr>"

section \<open>Callbacks and requests\<close>

definition new_iter :: "storage \<Rightarrow> nat \<times> storage" where
  "new_iter s = (st_next_id s,
     s\<lparr>st_iters := dput (st_next_id s) \<lparr>di_items = [], di_members = {}, di_final = False\<rparr> (st_iters s),
       st_next_id := st_next_id s + 1\<rparr>)"

definition update_iter :: "nat \<Rightarrow> (dyn_iter \<Rightarrow> dyn_iter) \<Rightarrow> storage \<Rightarrow> storage" where
  "update_iter i f s =
     (case dget (st_iters s) i of None \<Rightarrow> s | Some it \<Rightarrow> s\<lparr>st_iters := dput i (f it) (st_iters s)\<rparr>)"

text \<open>
  \<open>get_index_iter_cb\<close>: a successful response without members cannot be iterated; the exception
  ends the callback before \<open>final\<close>.
\<close>

definition get_index_iter_cb :: "nat \<Rightarrow> string \<Rightarrow> bool \<Rightarrow> answer \<Rightarrow> storage \<Rightarrow> storage" where
  "get_index_iter_cb i org_key include_key ans s =
     (case ans of
        AMembers vs \<Rightarrow>
          update_iter i (\<lambda>it. it\<lparr>di_members := di_members it \<union>
             (\<lambda>v. (if include_key then Some org_key else None, v)) ` vs, di_final := True\<rparr>) s
      | _ \<Rightarrow> if isnotfailresponse ans then s else update_iter i (\<lambda>it. it\<lparr>di_final := True\<rparr>) s)"

definition call_cb :: "callback option \<Rightarrow> string option \<Rightarrow> answer \<Rightarrow> storage \<Rightarrow> storage" where
  "call_cb cb key ans s =
     (case cb of
        None \<Rightarrow> s
      | Some (UserC c) \<Rightarrow> s\<lparr>st_calls := st_calls s @ [Called c key ans]\<rparr>
      | Some (IterC i k inc) \<Rightarrow> get_index_iter_cb i k inc ans s)"

text \<open>\<open>async.DelayedCall(0, cb, ...)\<close>.\<close>

definition delayed_call :: "callback option \<Rightarrow> string option \<Rightarrow> answer \<Rightarrow> storage \<Rightarrow> storage" where
  "delayed_call cb key ans s =
     (case cb of
        None \<Rightarrow> s
      | Some (UserC c) \<Rightarrow> s\<lparr>st_calls := st_calls s @ [Delayed c key ans]\<rparr>
      | Some (IterC i k inc) \<Rightarrow> get_index_iter_cb i k inc ans s)"

definition submit :: "(storage_op \<Rightarrow> bool) \<Rightarrow> storage_op \<Rightarrow> continuation \<Rightarrow> storage \<Rightarrow> (unit, storage) out" where
  "submit acc op cont s =
     (if acc op then (Inr (), s\<lparr>st_pending := st_pending s @ [\<lparr>pe_op = op, pe_cont = cont\<rparr>]\<rparr>)
      else (Inl (PyException ''storage plugin''), s))"

section \<open>Life cycle and flushing\<close>

definition reset_flush_timeout :: "storage \<Rightarrow> storage" where
  "reset_flush_timeout s = s\<lparr>st_flush_timeout := 1\<rparr>"

definition trigger_flush :: "nat option \<Rightarrow> storage \<Rightarrow> storage" where
  "trigger_flush delay s =
     (if st_localstore s \<noteq> [] \<or> st_sets s \<noteq> []
      then (if st_flush_delayed s = None
            then s\<lparr>st_flush_delayed := Some (case delay of None \<Rightarrow> st_flush_timeout s | Some d \<Rightarrow> d)\<rparr> else s)
      else s)"

fun flush_values :: "(storage_op \<Rightarrow> bool) \<Rightarrow> (string, pyval) dict \<Rightarrow> storage \<Rightarrow> (unit, storage) out" where
  "flush_values acc [] s = (Inr (), s)"
| "flush_values acc ((k, v) # d) s =
     and_then (submit acc (OpSet k v) (SetCont None None None) s) (\<lambda>_ s1. flush_values acc d s1)"

text \<open>\<open>_flush_append\<close>, \<open>_flush_remove\<close>, \<open>_flush_add_index\<close> and \<open>_flush_remove_index\<close>: empty sets are not sent.\<close>

definition flush_append :: "(storage_op \<Rightarrow> bool) \<Rightarrow> string \<Rightarrow> string set \<Rightarrow> storage \<Rightarrow> (unit, storage) out" where
  "flush_append acc k vs s = (if vs = {} then (Inr (), s) else submit acc (OpAppend k vs) (AppendCont None None) s)"

definition flush_remove :: "(storage_op \<Rightarrow> bool) \<Rightarrow> string \<Rightarrow> string set \<Rightarrow> storage \<Rightarrow> (unit, storage) out" where
  "flush_remove acc k vs s = (if vs = {} then (Inr (), s) else submit acc (OpRemove k vs) (RemoveCont None None) s)"

definition flush_add_index :: "(storage_op \<Rightarrow> bool) \<Rightarrow> string list \<Rightarrow> set_entry \<Rightarrow> storage \<Rightarrow> (unit, storage) out" where
  "flush_add_index acc k e s =
     (if en_plus e = {} then (Inr (), s)
      else submit acc (OpAddIndex k (en_plus e)) (AddIndexCont (Live (en_id e)) None k True) s)"

definition flush_remove_index :: "(storage_op \<Rightarrow> bool) \<Rightarrow> string list \<Rightarrow> set_entry \<Rightarrow> storage \<Rightarrow> (unit, storage) out" where
  "flush_remove_index acc k e s =
     (if en_minus e = {} then (Inr (), s)
      else submit acc (OpRemoveIndex k (en_minus e)) (RemoveIndexCont (Live (en_id e)) None k True) s)"

fun flush_sets :: "(storage_op \<Rightarrow> bool) \<Rightarrow> (skey, set_entry) dict \<Rightarrow> storage \<Rightarrow> (unit, storage) out" where
  "flush_sets acc [] s = (Inr (), s)"
| "flush_sets acc ((KeyT k, e) # d) s =
     and_then (and_then (flush_add_index acc k e s) (\<lambda>_ s1. flush_remove_index acc k e s1))
       (\<lambda>_ s2. flush_sets acc d s2)"
| "flush_sets acc ((KeyS k, e) # d) s =
     and_then (and_then (flush_append acc k (en_plus e) s) (\<lambda>_ s1. flush_remove acc k (en_minus e) s1))
       (\<lambda>_ s2. flush_sets acc d s2)"

definition flush_localdata :: "(storage_op \<Rightarrow> bool) \<Rightarrow> storage \<Rightarrow> (unit, storage) out" where
  "flush_localdata acc s =
     (let s1 = s\<lparr>st_flush_timeout := (if st_flush_timeout s < 3000 then st_flush_timeout s * 2 else st_flush_timeout s),
                 st_flush_delayed := None\<rparr>
      in and_then (flush_values acc (st_localstore s) s1) (\<lambda>_ s2. flush_sets acc (st_sets s) s2))"

definition started_cb :: "answer \<Rightarrow> callback option \<Rightarrow> storage \<Rightarrow> storage" where
  "started_cb ans org_cb s =
     (if \<not> answer_true ans then s
      else delayed_call org_cb None ans (trigger_flush (Some 0) (s\<lparr>st_started := True\<rparr>)))"

text \<open>
  \<open>start\<close>: whether the plugin was asked to start; then \<open>started_cb\<close> follows.  \<open>stop\<close>: whether it was
  asked to stop.
\<close>

definition storage_start :: "callback option \<Rightarrow> storage \<Rightarrow> bool \<times> storage" where
  "storage_start cb s = (if st_starting s then (True, s) else (False, delayed_call cb None response_ok s))"

definition storage_stop :: "callback option \<Rightarrow> storage \<Rightarrow> bool \<times> storage" where
  "storage_stop cb s =
     (st_started s, (if st_started s then s else call_cb cb None response_ok s)\<lparr>st_started := False\<rparr>)"
section \<open>Single values\<close>

text \<open>A failure restores the value the request carried; a flush carries none.\<close>

definition set_cb :: "string \<Rightarrow> answer \<Rightarrow> string option \<Rightarrow> pyval option \<Rightarrow> callback option \<Rightarrow> storage \<Rightarrow> storage" where
  "set_cb key ans org_key org_value org_cb s =
     (let s1 = (if answer_true ans then reset_flush_timeout (s\<lparr>st_localstore := ddel key (st_localstore s)\<rparr>)
                else (case (org_key, org_value) of
                        (Some k, Some v) \<Rightarrow>
                          if k \<noteq> [] \<and> truthy v then s\<lparr>st_localstore := dput key v (st_localstore s)\<rparr> else s
                      | _ \<Rightarrow> s))
      in trigger_flush None (call_cb org_cb (Some key) ans s1))"

definition storage_set ::
    "(storage_op \<Rightarrow> bool) \<Rightarrow> string \<Rightarrow> string \<Rightarrow> pyval \<Rightarrow> callback option \<Rightarrow> storage \<Rightarrow> (unit, storage) out" where
  "storage_set acc pre key v cb s =
     (let s1 = s\<lparr>st_sets := ddel (KeyS (pre @ key)) (st_sets s),
                 st_localstore := dput (pre @ key) v (st_localstore s)\<rparr>
      in if st_started s1 then submit acc (OpSet (pre @ key) v) (SetCont (Some key) (Some v) cb) s1
         else (Inr (), delayed_call cb (Some key) response_ok s1))"

definition storage_get ::
    "(storage_op \<Rightarrow> bool) \<Rightarrow> string \<Rightarrow> string \<Rightarrow> callback option \<Rightarrow> storage \<Rightarrow> (unit, storage) out" where
  "storage_get acc pre key cb s =
     (case cb of
        None \<Rightarrow> (Inr (), s)
      | Some c \<Rightarrow>
          (case dget (st_localstore s) (pre @ key) of
             Some v \<Rightarrow> (Inr (), delayed_call cb (Some key) (AValue v) s)
           | None \<Rightarrow>
               (case submit acc (OpGet (pre @ key)) (GetCont c key) s of
                  (Inr u, s1) \<Rightarrow> (Inr u, s1)
                | (Inl _, s1) \<Rightarrow> (Inr (), delayed_call cb (Some key) not_found s1))))"

definition get_cb :: "answer \<Rightarrow> callback \<Rightarrow> string \<Rightarrow> storage \<Rightarrow> storage" where
  "get_cb ans org_cb org_key s = call_cb (Some org_cb) (Some org_key) ans s"

definition append_item :: "nat \<Rightarrow> iter_item \<Rightarrow> storage \<Rightarrow> storage" where
  "append_item i x s = update_iter i (\<lambda>it. it\<lparr>di_items := di_items it @ [x]\<rparr>) s"

definition get_iter_cb :: "string \<Rightarrow> answer \<Rightarrow> nat \<Rightarrow> bool \<Rightarrow> storage \<Rightarrow> storage" where
  "get_iter_cb key ans i include_key s =
     (let k = (if include_key then Some key else None)
      in append_item i (if isnotfailresponse ans then Item k ans else FailedItem k) s)"

definition get_iter ::
    "(storage_op \<Rightarrow> bool) \<Rightarrow> string \<Rightarrow> string \<Rightarrow> nat \<Rightarrow> bool \<Rightarrow> storage \<Rightarrow> (unit, storage) out" where
  "get_iter acc pre key i include_key s =
     (let k = (if include_key then Some key else None)
      in case dget (st_localstore s) (pre @ key) of
           Some v \<Rightarrow> (Inr (), append_item i (Item k (AValue v)) s)
         | None \<Rightarrow>
             (case submit acc (OpGet (pre @ key)) (GetIterCont i key include_key) s of
                (Inr u, s1) \<Rightarrow> (Inr u, s1)
              | (Inl _, s1) \<Rightarrow> (Inr (), append_item i (FailedItem k) s1)))"

definition storage_delete ::
    "(storage_op \<Rightarrow> bool) \<Rightarrow> string \<Rightarrow> string \<Rightarrow> callback option \<Rightarrow> storage \<Rightarrow> (unit, storage) out" where
  "storage_delete acc pre key cb s =
     (let s1 = s\<lparr>st_localstore := ddel (pre @ key) (st_localstore s), st_sets := ddel (KeyS (pre @ key)) (st_sets s)\<rparr>
      in if st_started s1 then submit acc (OpDelete (pre @ key)) (UserCont cb) s1
         else (Inr (), call_cb cb (Some key) response_ok s1))"

section \<open>Sets\<close>

text \<open>Adding takes the members off the removals and the other way round; a new entry gets a new identity.\<close>

definition plan_add :: "skey \<Rightarrow> string set \<Rightarrow> storage \<Rightarrow> storage" where
  "plan_add k vs s =
     (case dget (st_sets s) k of
        Some e \<Rightarrow> s\<lparr>st_sets := dput k (e\<lparr>en_plus := en_plus e \<union> vs, en_minus := en_minus e - vs\<rparr>) (st_sets s)\<rparr>
      | None \<Rightarrow> s\<lparr>st_sets := dput k \<lparr>en_id = st_next_id s, en_plus = vs, en_minus = {}\<rparr> (st_sets s),
                  st_next_id := st_next_id s + 1\<rparr>)"

definition plan_remove :: "skey \<Rightarrow> string set \<Rightarrow> storage \<Rightarrow> storage" where
  "plan_remove k vs s =
     (case dget (st_sets s) k of
        Some e \<Rightarrow> s\<lparr>st_sets := dput k (e\<lparr>en_plus := en_plus e - vs, en_minus := en_minus e \<union> vs\<rparr>) (st_sets s)\<rparr>
      | None \<Rightarrow> s\<lparr>st_sets := dput k \<lparr>en_id = st_next_id s, en_plus = {}, en_minus = vs\<rparr> (st_sets s),
                  st_next_id := st_next_id s + 1\<rparr>)"

definition local_plus :: "skey \<Rightarrow> storage \<Rightarrow> string set" where
  "local_plus k s = (case dget (st_sets s) k of None \<Rightarrow> {} | Some e \<Rightarrow> en_plus e)"

definition local_minus :: "skey \<Rightarrow> storage \<Rightarrow> string set" where
  "local_minus k s = (case dget (st_sets s) k of None \<Rightarrow> {} | Some e \<Rightarrow> en_minus e)"

definition get_concat ::
    "(storage_op \<Rightarrow> bool) \<Rightarrow> string \<Rightarrow> string \<Rightarrow> callback option \<Rightarrow> storage \<Rightarrow> (unit, storage) out" where
  "get_concat acc pre key cb s =
     (case cb of
        None \<Rightarrow> (Inr (), s)
      | Some c \<Rightarrow>
          (let local = local_plus (KeyS (pre @ key)) s
           in case submit acc (OpGetConcat (pre @ key)) (GetConcatCont c key local) s of
                (Inr u, s1) \<Rightarrow> (Inr u, s1)
              | (Inl _, s1) \<Rightarrow> (Inr (), delayed_call cb (Some key) (AMembers local) s1)))"

definition get_concat_cb :: "answer \<Rightarrow> callback \<Rightarrow> string \<Rightarrow> string set \<Rightarrow> storage \<Rightarrow> storage" where
  "get_concat_cb ans org_cb org_key local s =
     call_cb (Some org_cb) (Some org_key) (AMembers (case ans of AMembers vs \<Rightarrow> vs \<union> local | _ \<Rightarrow> local)) s"

text \<open>A confirmed append empties the additions of its key, a confirmed removal the removals.\<close>

definition append_cb :: "string \<Rightarrow> answer \<Rightarrow> string option \<Rightarrow> callback option \<Rightarrow> storage \<Rightarrow> storage" where
  "append_cb key ans org_key org_cb s =
     (let s1 = (if answer_true ans
                then (case dget (st_sets s) (KeyS key) of
                        None \<Rightarrow> s
                      | Some e \<Rightarrow>
                          reset_flush_timeout
                            (if en_minus e \<noteq> {} then s\<lparr>st_sets := dput (KeyS key) (e\<lparr>en_plus := {}\<rparr>) (st_sets s)\<rparr>
                             else s\<lparr>st_sets := ddel (KeyS key) (st_sets s)\<rparr>))
                else s)
      in trigger_flush None (call_cb org_cb org_key ans s1))"

definition storage_append ::
    "(storage_op \<Rightarrow> bool) \<Rightarrow> string \<Rightarrow> string \<Rightarrow> string set \<Rightarrow> callback option \<Rightarrow> storage \<Rightarrow> (unit, storage) out" where
  "storage_append acc pre key vs cb s =
     (let s1 = plan_add (KeyS (pre @ key)) vs s
      in if st_started s1
         then submit acc (OpAppend (pre @ key) (local_plus (KeyS (pre @ key)) s1)) (AppendCont (Some key) cb) s1
         else (Inr (), call_cb cb (Some key) response_ok s1))"

definition remove_cb :: "string \<Rightarrow> answer \<Rightarrow> string option \<Rightarrow> callback option \<Rightarrow> storage \<Rightarrow> storage" where
  "remove_cb key ans org_key org_cb s =
     (let s1 = (if answer_true ans
                then reset_flush_timeout
                  (case dget (st_sets s) (KeyS key) of
                     None \<Rightarrow> s
                   | Some e \<Rightarrow>
                       (if en_plus e \<noteq> {} then s\<lparr>st_sets := dput (KeyS key) (e\<lparr>en_minus := {}\<rparr>) (st_sets s)\<rparr>
                        else s\<lparr>st_sets := ddel (KeyS key) (st_sets s)\<rparr>))
                else s)
      in trigger_flush None (call_cb org_cb org_key ans s1))"

definition storage_remove ::
    "(storage_op \<Rightarrow> bool) \<Rightarrow> string \<Rightarrow> string \<Rightarrow> string set \<Rightarrow> callback option \<Rightarrow> storage \<Rightarrow> (unit, storage) out" where
  "storage_remove acc pre key vs cb s =
     (let s1 = plan_remove (KeyS (pre @ key)) vs s
      in if st_started s1
         then submit acc (OpRemove (pre @ key) (local_minus (KeyS (pre @ key)) s1)) (RemoveCont (Some key) cb) s1
         else (Inr (), call_cb cb (Some key) response_ok s1))"

section \<open>Indices\<close>

text \<open>An index is a string, split at unescaped slashes, or a list, which is changed in place.\<close>

datatype index = IStr string | IList "string list"

fun join_levels :: "string list \<Rightarrow> string" where
  "join_levels [] = ''''"
| "join_levels [a] = a"
| "join_levels (a # as) = a @ slash # join_levels as"

definition root_levels :: "nat \<Rightarrow> string list \<Rightarrow> string list" where
  "root_levels n items = (if 0 < n then join_levels (take n items) # drop n items else items)"

definition index_strings :: "index \<Rightarrow> nat \<Rightarrow> string list \<times> index" where
  "index_strings ix n =
     (case ix of
        IStr s \<Rightarrow> (root_levels n (split_index None None [] (dropWhile (\<lambda>c. c = slash) s)), IStr s)
      | IList items \<Rightarrow> (root_levels n items, IList (root_levels n items)))"

datatype index_value = One string | Many "string list"

fun value_set :: "index_value \<Rightarrow> string set" where
  "value_set (One v) = {v}"
| "value_set (Many vs) = set vs"

text \<open>What a continuation finds in the set it refers to.\<close>

fun plus_ref :: "set_ref \<Rightarrow> set_entry \<Rightarrow> string set" where
  "plus_ref (Given vs) e = vs"
| "plus_ref (Live i) e = (if en_id e = i then en_plus e else {})"

fun minus_ref :: "set_ref \<Rightarrow> set_entry \<Rightarrow> string set" where
  "minus_ref (Given vs) e = vs"
| "minus_ref (Live i) e = (if en_id e = i then en_minus e else {})"

definition put_or_drop :: "skey \<Rightarrow> set_entry \<Rightarrow> storage \<Rightarrow> storage" where
  "put_or_drop k e s =
     s\<lparr>st_sets := (if en_minus e = {} \<and> en_plus e = {} then ddel k (st_sets s) else dput k e (st_sets s))\<rparr>"

text \<open>
  A failure that is not silent is logged as \<open>"Failed to update %s" % key\<close> with a tuple as key:
  a TypeError unless the tuple has one element.  CalvinCB swallows it, so neither the user's
  callback nor \<open>trigger_flush\<close> is called then.
\<close>

definition warning_raises :: "bool \<Rightarrow> string list \<Rightarrow> bool" where
  "warning_raises silent items \<longleftrightarrow> \<not> silent \<and> length items \<noteq> 1"

definition add_index_cb :: "answer \<Rightarrow> set_ref \<Rightarrow> callback option \<Rightarrow> string list \<Rightarrow> bool \<Rightarrow> storage \<Rightarrow> storage" where
  "add_index_cb ans org org_cb items silent s =
     (if answer_true ans
      then (let s1 = (case dget (st_sets s) (KeyT items) of
                        None \<Rightarrow> s
                      | Some e \<Rightarrow> reset_flush_timeout (put_or_drop (KeyT items) (e\<lparr>en_plus := en_plus e - plus_ref org e\<rparr>) s))
            in trigger_flush None (call_cb org_cb None ans s1))
      else if warning_raises silent items then s
      else trigger_flush None (call_cb org_cb None ans s))"

definition remove_index_cb :: "answer \<Rightarrow> set_ref \<Rightarrow> callback option \<Rightarrow> string list \<Rightarrow> bool \<Rightarrow> storage \<Rightarrow> storage" where
  "remove_index_cb ans org org_cb items silent s =
     (if answer_true ans
      then (let s1 = (case dget (st_sets s) (KeyT items) of
                        None \<Rightarrow> s
                      | Some e \<Rightarrow> reset_flush_timeout (put_or_drop (KeyT items) (e\<lparr>en_minus := en_minus e - minus_ref org e\<rparr>) s))
            in trigger_flush None (call_cb org_cb None ans s1))
      else if warning_raises silent items then s
      else trigger_flush None (call_cb org_cb None ans s))"

definition add_index ::
    "(storage_op \<Rightarrow> bool) \<Rightarrow> index \<Rightarrow> index_value \<Rightarrow> nat \<Rightarrow> callback option \<Rightarrow> storage \<Rightarrow> (unit, storage) out" where
  "add_index acc ix v level cb s =
     (let items = fst (index_strings ix level); s1 = plan_add (KeyT items) (value_set v) s
      in if st_started s1
         then submit acc (OpAddIndex items (value_set v)) (AddIndexCont (Given (value_set v)) cb items False) s1
         else (Inr (), call_cb cb None response_ok s1))"

definition remove_index ::
    "(storage_op \<Rightarrow> bool) \<Rightarrow> index \<Rightarrow> index_value \<Rightarrow> nat \<Rightarrow> callback option \<Rightarrow> storage \<Rightarrow> (unit, storage) out" where
  "remove_index acc ix v level cb s =
     (let items = fst (index_strings ix level); s1 = plan_remove (KeyT items) (value_set v) s
      in if st_started s1
         then submit acc (OpRemoveIndex items (value_set v)) (RemoveIndexCont (Given (value_set v)) cb items False) s1
         else (Inr (), call_cb cb None response_ok s1))"

definition delete_index :: "index \<Rightarrow> storage \<Rightarrow> (unit, storage) out" where
  "delete_index ix s = (Inl NotImplementedError, s)"

text \<open>The local members of all keys that extend the index.\<close>

definition local_members :: "string list \<Rightarrow> storage \<Rightarrow> string set" where
  "local_members items s =
     \<Union> (set (map (\<lambda>(k, e). en_plus e) (filter (\<lambda>(k, e). level_match (key_parts k) items) (st_sets s))))"

definition get_index :: "(storage_op \<Rightarrow> bool) \<Rightarrow> index \<Rightarrow> nat \<Rightarrow> callback option \<Rightarrow> storage \<Rightarrow> (unit, storage) out" where
  "get_index acc ix level cb s =
     (let items = fst (index_strings ix level); local = local_members items s
      in if st_started s then submit acc (OpGetIndex items) (GetIndexCont local cb) s
         else (Inr (), call_cb cb None (AMembers local) s))"

text \<open>A successful response that is no list cannot be made a set: the callback fails silently.\<close>

definition get_index_cb :: "answer \<Rightarrow> string set \<Rightarrow> callback option \<Rightarrow> storage \<Rightarrow> storage" where
  "get_index_cb ans local org_cb s =
     (if answer_true ans
      then (case ans of AMembers vs \<Rightarrow> call_cb org_cb None (AMembers (vs \<union> local)) s | _ \<Rightarrow> s)
      else call_cb org_cb None (AMembers local) s)"

text \<open>The index is resolved twice: for the key of the iterator, and again by \<open>get_index\<close>, on the changed list.\<close>

definition get_index_iter ::
    "(storage_op \<Rightarrow> bool) \<Rightarrow> index \<Rightarrow> bool \<Rightarrow> nat \<Rightarrow> storage \<Rightarrow> (nat, storage) out" where
  "get_index_iter acc ix include_key level s =
     (let (items, ix') = index_strings ix level; (i, s1) = new_iter s
      in and_then (get_index acc ix' level (Some (IterC i (join_levels items) include_key)) s1) (\<lambda>_ s2. (Inr i, s2)))"

section \<open>Replies\<close>

fun op_key :: "storage_op \<Rightarrow> string" where
  "op_key (OpSet k v) = k"
| "op_key (OpGet k) = k"
| "op_key (OpDelete k) = k"
| "op_key (OpGetConcat k) = k"
| "op_key (OpAppend k vs) = k"
| "op_key (OpRemove k vs) = k"
| "op_key (OpAddIndex ix vs) = ''''"
| "op_key (OpRemoveIndex ix vs) = ''''"
| "op_key (OpGetIndex ix) = ''''"

text \<open>The plugin answers a request with its key and a value; the continuation of the request runs.\<close>

fun storage_reply :: "continuation \<Rightarrow> string \<Rightarrow> answer \<Rightarrow> storage \<Rightarrow> storage" where
  "storage_reply (SetCont ok ov cb) key ans s = set_cb key ans ok ov cb s"
| "storage_reply (GetCont cb ok) key ans s = get_cb ans cb ok s"
| "storage_reply (GetIterCont i ok inc) key ans s = get_iter_cb key ans i inc s"
| "storage_reply (GetConcatCont cb ok local) key ans s = get_concat_cb ans cb ok local s"
| "storage_reply (AppendCont ok cb) key ans s = append_cb key ans ok cb s"
| "storage_reply (RemoveCont ok cb) key ans s = remove_cb key ans ok cb s"
| "storage_reply (UserCont cb) key ans s = call_cb cb (Some key) ans s"
| "storage_reply (AddIndexCont org cb items silent) key ans s = add_index_cb ans org cb items silent s"
| "storage_reply (RemoveIndexCont org cb items silent) key ans s = remove_index_cb ans org cb items silent s"
| "storage_reply (GetIndexCont local cb) key ans s = get_index_cb ans local cb s"

end
