(* ===== verification/Storage_Protocol.thy ===== *)
theory Storage_Protocol
  imports Registry_Storage
begin

text \<open>
  The storage of a runtime together with a registry that answers requests in any order, loses
  some of them, and loses the answers of others.  A trace lists every event with the storage
  before it, so that assumptions on a run are conditions on its trace.
\<close>

declare map_of_eq_Some_iff [simp del]

section \<open>Events\<close>

datatype user_op =
    USet string string pyval "callback option"
  | UGet string string "callback option"
  | UGetIter string string nat bool
  | UDelete string string "callback option"
  | UGetConcat string string "callback option"
  | UAppend string string "string set" "callback option"
  | URemove string string "string set" "callback option"
  | UAddIndex index index_value nat "callback option"
  | URemoveIndex index index_value nat "callback option"
  | UGetIndex index nat "callback option"
  | UGetIndexIter index bool nat
  | UStart "callback option"
  | UStarted answer "callback option"
  | UStop "callback option"

fun user_step :: "(storage_op \<Rightarrow> bool) \<Rightarrow> user_op \<Rightarrow> storage \<Rightarrow> storage" where
  "user_step acc (USet pre key v cb) s = snd (storage_set acc pre key v cb s)"
| "user_step acc (UGet pre key cb) s = snd (storage_get acc pre key cb s)"
| "user_step acc (UGetIter pre key i inc) s = snd (get_iter acc pre key i inc s)"
| "user_step acc (UDelete pre key cb) s = snd (storage_delete acc pre key cb s)"
| "user_step acc (UGetConcat pre key cb) s = snd (get_concat acc pre key cb s)"
| "user_step acc (UAppend pre key vs cb) s = snd (storage_append acc pre key vs cb s)"
| "user_step acc (URemove pre key vs cb) s = snd (storage_remove acc pre key vs cb s)"
| "user_step acc (UAddIndex ix v level cb) s = snd (add_index acc ix v level cb s)"
| "user_step acc (URemoveIndex ix v level cb) s = snd (remove_index acc ix v level cb s)"
| "user_step acc (UGetIndex ix level cb) s = snd (get_index acc ix level cb s)"
| "user_step acc (UGetIndexIter ix inc level) s = snd (get_index_iter acc ix inc level s)"
| "user_step acc (UStart cb) s = snd (storage_start cb s)"
| "user_step acc (UStarted ans cb) s = started_cb ans cb s"
| "user_step acc (UStop cb) s = snd (storage_stop cb s)"

text \<open>
  The delayed flush runs, request \<open>i\<close> in flight is answered, is lost (the plugin reports a failure),
  or is carried out although a failure is reported.
\<close>

datatype event =
    EUser "storage_op \<Rightarrow> bool" user_op
  | EFlush "storage_op \<Rightarrow> bool"
  | EReply nat
  | ELost nat
  | EUnconfirmed nat

definition take_pending :: "nat \<Rightarrow> storage \<Rightarrow> storage" where
  "take_pending i s = s\<lparr>st_pending := take i (st_pending s) @ drop (Suc i) (st_pending s)\<rparr>"

definition reply_to :: "pending \<Rightarrow> answer \<Rightarrow> storage \<Rightarrow> storage" where
  "reply_to p ans s = storage_reply (pe_cont p) (op_key (pe_op p)) ans s"

fun event_step ::
    "(storage_op \<Rightarrow> 'r \<Rightarrow> answer \<times> 'r) \<Rightarrow> event \<Rightarrow> storage \<times> 'r \<Rightarrow> (storage \<times> 'r) option" where
  "event_step run (EUser acc op) (s, r) = Some (user_step acc op s, r)"
| "event_step run (EFlush acc) (s, r) =
     (if st_flush_delayed s = None then None else Some (snd (flush_localdata acc s), r))"
| "event_step run (EReply i) (s, r) =
     (if i < length (st_pending s)
      then (let p = st_pending s ! i; (ans, r') = run (pe_op p) r in Some (reply_to p ans (take_pending i s), r'))
      else None)"
| "event_step run (ELost i) (s, r) =
     (if i < length (st_pending s) then Some (reply_to (st_pending s ! i) response_failed (take_pending i s), r) else None)"
| "event_step run (EUnconfirmed i) (s, r) =
     (if i < length (st_pending s)
      then (let p = st_pending s ! i in Some (reply_to p response_failed (take_pending i s), snd (run (pe_op p) r)))
      else None)"

inductive storage_trace ::
    "(storage_op \<Rightarrow> 'r \<Rightarrow> answer \<times> 'r) \<Rightarrow> storage \<times> 'r \<Rightarrow> (storage \<times> event) list \<Rightarrow> storage \<times> 'r \<Rightarrow> bool"
  for run c where
  trace_start: "storage_trace run c [] c"
| trace_more: "storage_trace run c tr c' \<Longrightarrow> event_step run ev c' = Some c'' \<Longrightarrow> storage_trace run c (tr @ [(fst c', ev)]) c''"

inductive_cases storage_trace_snocE: "storage_trace run c (tr @ [e]) c'"

text \<open>A run from a list of events, to evaluate traces.\<close>

fun run_events ::
    "(storage_op \<Rightarrow> 'r \<Rightarrow> answer \<times> 'r) \<Rightarrow> event list \<Rightarrow> storage \<times> 'r \<Rightarrow> ((storage \<times> event) list \<times> storage \<times> 'r) option" where
  "run_events run [] c = Some ([], c)"
| "run_events run (ev # evs) c =
     (case event_step run ev c of
        None \<Rightarrow> None
      | Some c' \<Rightarrow> (case run_events run evs c' of None \<Rightarrow> None | Some (tr, c'') \<Rightarrow> Some ((fst c, ev) # tr, c'')))"

lemma trace_append:
  "storage_trace run c' tr' c'' \<Longrightarrow> storage_trace run c tr c' \<Longrightarrow> storage_trace run c (tr @ tr') c''"
proof (induction rule: storage_trace.induct)
  case (trace_more tr' c1 ev c2)
  then have "storage_trace run c (tr @ tr') c1" by simp
  from storage_trace.trace_more[OF this trace_more(2)] show ?case by simp
qed simp

lemma run_events_trace: "run_events run evs c = Some (tr, c') \<Longrightarrow> storage_trace run c tr c'"
proof (induction evs arbitrary: c tr)
  case Nil
  then show ?case by (simp add: trace_start)
next
  case (Cons ev evs)
  then obtain c1 tr1 where c1: "event_step run ev c = Some c1" "run_events run evs c1 = Some (tr1, c')" "tr = (fst c, ev) # tr1"
    by (auto split: option.splits)
  have "storage_trace run c [(fst c, ev)] c1"
    using trace_more[OF trace_start c1(1)] by simp
  from trace_append[OF Cons.IH[OF c1(2)] this] c1(3) show ?case by simp
qed

lemma run_events_events: "run_events run evs c = Some (tr, c') \<Longrightarrow> map snd tr = evs"
  by (induction evs arbitrary: c tr) (auto split: option.splits)

section \<open>What the bookkeeping leaves alone\<close>

named_theorems storage_frame \<open>fields an operation does not change\<close>

lemma update_iter_frame [storage_frame, simp]:
  "st_sets (update_iter i f s) = st_sets s" "st_pending (update_iter i f s) = st_pending s"
  "st_next_id (update_iter i f s) = st_next_id s" "st_localstore (update_iter i f s) = st_localstore s"
  "st_started (update_iter i f s) = st_started s" "st_flush_delayed (update_iter i f s) = st_flush_delayed s"
  "st_flush_timeout (update_iter i f s) = st_flush_timeout s"
  by (simp_all add: update_iter_def split: option.splits)

lemma call_cb_frame [storage_frame, simp]:
  "st_sets (call_cb cb k a s) = st_sets s" "st_pending (call_cb cb k a s) = st_pending s"
  "st_next_id (call_cb cb k a s) = st_next_id s" "st_localstore (call_cb cb k a s) = st_localstore s"
  "st_started (call_cb cb k a s) = st_started s" "st_flush_delayed (call_cb cb k a s) = st_flush_delayed s"
  "st_flush_timeout (call_cb cb k a s) = st_flush_timeout s"
  by (simp_all add: call_cb_def get_index_iter_cb_def split: option.splits callback.splits answer.splits)

lemma delayed_call_frame [storage_frame, simp]:
  "st_sets (delayed_call cb k a s) = st_sets s" "st_pending (delayed_call cb k a s) = st_pending s"
  "st_next_id (delayed_call cb k a s) = st_next_id s" "st_localstore (delayed_call cb k a s) = st_localstore s"
  "st_started (delayed_call cb k a s) = st_started s" "st_flush_delayed (delayed_call cb k a s) = st_flush_delayed s"
  "st_flush_timeout (delayed_call cb k a s) = st_flush_timeout s"
  by (simp_all add: delayed_call_def get_index_iter_cb_def split: option.splits callback.splits answer.splits)

lemma trigger_flush_frame [storage_frame, simp]:
  "st_sets (trigger_flush d s) = st_sets s" "st_pending (trigger_flush d s) = st_pending s"
  "st_next_id (trigger_flush d s) = st_next_id s" "st_localstore (trigger_flush d s) = st_localstore s"
  "st_started (trigger_flush d s) = st_started s" "st_flush_timeout (trigger_flush d s) = st_flush_timeout s"
  by (simp_all add: trigger_flush_def)

lemma reset_flush_frame [storage_frame, simp]:
  "st_sets (reset_flush_timeout s) = st_sets s" "st_pending (reset_flush_timeout s) = st_pending s"
  "st_next_id (reset_flush_timeout s) = st_next_id s" "st_localstore (reset_flush_timeout s) = st_localstore s"
  "st_started (reset_flush_timeout s) = st_started s" "st_flush_delayed (reset_flush_timeout s) = st_flush_delayed s"
  by (simp_all add: reset_flush_timeout_def)

lemma take_pending_frame [storage_frame, simp]:
  "st_sets (take_pending i s) = st_sets s" "st_next_id (take_pending i s) = st_next_id s"
  "st_localstore (take_pending i s) = st_localstore s" "st_started (take_pending i s) = st_started s"
  "st_flush_delayed (take_pending i s) = st_flush_delayed s" "st_flush_timeout (take_pending i s) = st_flush_timeout s"
  by (simp_all add: take_pending_def)

lemma set_take_pending: "set (st_pending (take_pending i s)) \<subseteq> set (st_pending s)"
  by (auto simp: take_pending_def dest: in_set_takeD in_set_dropD)

lemma snd_submit:
  "snd (submit acc op cont s) =
     (if acc op then s\<lparr>st_pending := st_pending s @ [\<lparr>pe_op = op, pe_cont = cont\<rparr>]\<rparr> else s)"
  by (simp add: submit_def)
section \<open>Bookkeeping of one member of an index\<close>

text \<open>
  For a member \<open>x\<close> under the levels \<open>k\<close>: what every request in flight may claim.  A confirmed
  addition takes off what it has sent; a flush refers to the live set, so nothing may be there
  that was not sent.
\<close>

definition ref_ok :: "string \<Rightarrow> string list \<Rightarrow> storage \<Rightarrow> pending \<Rightarrow> bool" where
  "ref_ok x k s p \<longleftrightarrow>
     (\<forall>org cb silent. pe_cont p = AddIndexCont org cb k silent \<longrightarrow>
        (\<exists>vs. pe_op p = OpAddIndex k vs \<and>
          (org = Given vs \<or>
           (\<exists>i. org = Live i \<and> i < st_next_id s \<and>
              (\<forall>e. dget (st_sets s) (KeyT k) = Some e \<longrightarrow> en_id e = i \<longrightarrow> x \<in> en_plus e \<longrightarrow> x \<in> vs)))))
     \<and> (\<forall>vs. pe_op p = OpRemoveIndex k vs \<longrightarrow> x \<notin> vs)"

definition book_ok :: "string \<Rightarrow> string list \<Rightarrow> storage \<Rightarrow> bool" where
  "book_ok x k s \<longleftrightarrow>
     dict_ok (st_sets s) \<and> x \<notin> local_minus (KeyT k) s
     \<and> (\<forall>e. dget (st_sets s) (KeyT k) = Some e \<longrightarrow> en_id e < st_next_id s)
     \<and> (\<forall>p\<in>set (st_pending s). ref_ok x k s p)"

definition harmless :: "string \<Rightarrow> string list \<Rightarrow> pending \<Rightarrow> bool" where
  "harmless x k p \<longleftrightarrow>
     (\<forall>org cb silent. pe_cont p \<noteq> AddIndexCont org cb k silent) \<and> (\<forall>vs. pe_op p = OpRemoveIndex k vs \<longrightarrow> x \<notin> vs)"

text \<open>\<open>carries x k s s'\<close>: the bookkeeping stays right and the member stays planned.\<close>

definition carries :: "string \<Rightarrow> string list \<Rightarrow> storage \<Rightarrow> storage \<Rightarrow> bool" where
  "carries x k s s' \<longleftrightarrow> book_ok x k s' \<and> (x \<in> local_plus (KeyT k) s \<longrightarrow> x \<in> local_plus (KeyT k) s')"

lemma harmless_ref_ok: "harmless x k p \<Longrightarrow> ref_ok x k s p"
  by (simp add: harmless_def ref_ok_def)

lemma ref_ok_mono:
  assumes r: "ref_ok x k s p" and n: "st_next_id s \<le> st_next_id s'"
    and e: "\<And>e. dget (st_sets s') (KeyT k) = Some e \<Longrightarrow> en_id e < st_next_id s \<Longrightarrow> x \<in> en_plus e
      \<Longrightarrow> \<exists>e0. dget (st_sets s) (KeyT k) = Some e0 \<and> en_id e0 = en_id e \<and> x \<in> en_plus e0"
  shows "ref_ok x k s' p"
  unfolding ref_ok_def
proof (intro conjI allI impI)
  fix org cb silent assume "pe_cont p = AddIndexCont org cb k silent"
  with r obtain vs where vs: "pe_op p = OpAddIndex k vs"
    and org: "org = Given vs \<or> (\<exists>i. org = Live i \<and> i < st_next_id s \<and>
        (\<forall>e. dget (st_sets s) (KeyT k) = Some e \<longrightarrow> en_id e = i \<longrightarrow> x \<in> en_plus e \<longrightarrow> x \<in> vs))"
    unfolding ref_ok_def by blast
  show "\<exists>vs. pe_op p = OpAddIndex k vs \<and> (org = Given vs \<or>
      (\<exists>i. org = Live i \<and> i < st_next_id s' \<and>
        (\<forall>e. dget (st_sets s') (KeyT k) = Some e \<longrightarrow> en_id e = i \<longrightarrow> x \<in> en_plus e \<longrightarrow> x \<in> vs)))"
  proof (cases "org = Given vs")
    case True
    with vs show ?thesis by simp
  next
    case False
    with org obtain i where i: "org = Live i" "i < st_next_id s"
      and old: "\<And>e. dget (st_sets s) (KeyT k) = Some e \<Longrightarrow> en_id e = i \<Longrightarrow> x \<in> en_plus e \<Longrightarrow> x \<in> vs" by blast
    have "x \<in> vs" if "dget (st_sets s') (KeyT k) = Some e'" "en_id e' = i" "x \<in> en_plus e'" for e'
      using e[OF that(1)] that i(2) old by auto
    with i n vs show ?thesis by auto
  qed
next
  fix vs assume "pe_op p = OpRemoveIndex k vs"
  with r show "x \<notin> vs" by (simp add: ref_ok_def)
qed

lemma carries_frame:
  assumes "book_ok x k s" "dict_ok (st_sets s')" "dget (st_sets s') (KeyT k) = dget (st_sets s) (KeyT k)"
    and "st_next_id s \<le> st_next_id s'" "\<forall>p\<in>set (st_pending s'). p \<in> set (st_pending s) \<or> harmless x k p"
  shows "carries x k s s'"
proof -
  have "ref_ok x k s' p" if "p \<in> set (st_pending s')" for p
  proof (cases "p \<in> set (st_pending s)")
    case True
    then have "ref_ok x k s p" using assms(1) by (simp add: book_ok_def)
    then show ?thesis by (rule ref_ok_mono) (use assms(3,4) in auto)
  next
    case False
    then show ?thesis using assms(5) that harmless_ref_ok by blast
  qed
  moreover have "\<forall>e. dget (st_sets s') (KeyT k) = Some e \<longrightarrow> en_id e < st_next_id s'"
    using assms by (auto simp: book_ok_def intro: order_less_le_trans)
  ultimately show ?thesis
    using assms by (simp add: carries_def book_ok_def local_plus_def local_minus_def)
qed

lemma plan_frame:
  "dict_ok (st_sets s) \<Longrightarrow> dict_ok (st_sets (plan_add k vs s))"
  "dict_ok (st_sets s) \<Longrightarrow> dict_ok (st_sets (plan_remove k vs s))"
  "k' \<noteq> k \<Longrightarrow> dget (st_sets (plan_add k vs s)) k' = dget (st_sets s) k'"
  "k' \<noteq> k \<Longrightarrow> dget (st_sets (plan_remove k vs s)) k' = dget (st_sets s) k'"
  "st_next_id s \<le> st_next_id (plan_add k vs s)" "st_next_id s \<le> st_next_id (plan_remove k vs s)"
  "st_pending (plan_add k vs s) = st_pending s" "st_pending (plan_remove k vs s) = st_pending s"
  "st_started (plan_add k vs s) = st_started s" "st_started (plan_remove k vs s) = st_started s"
  by (auto simp: plan_add_def plan_remove_def split: option.splits)

lemma snd_if_started: "snd (if b then submit acc op cont s else (Inr u, t)) = (if b then snd (submit acc op cont s) else t)"
  by simp

lemmas user_defs = storage_set_def storage_get_def get_iter_def storage_delete_def get_concat_def
  storage_append_def storage_remove_def add_index_def remove_index_def get_index_def get_index_iter_def
  storage_start_def storage_stop_def started_cb_def append_item_def new_iter_def Let_def snd_submit submit_def
  plan_frame and_then_def

text \<open>Operations on values and string sets do not touch index entries.\<close>

lemma carries_user_other:
  assumes "book_ok x k s"
    and "\<forall>ix v level cb. op = UAddIndex ix v level cb \<or> op = URemoveIndex ix v level cb \<longrightarrow> fst (index_strings ix level) \<noteq> k"
  shows "carries x k s (user_step acc op s)"
proof -
  have d: "dict_ok (st_sets s)" using assms(1) by (simp add: book_ok_def)
  have g: "snd (case submit acc o1 c1 s1 of (Inr u, s1) \<Rightarrow> (Inr u, s1) | (Inl e, s1) \<Rightarrow> (Inr (), f s1))
      = (if acc o1 then snd (submit acc o1 c1 s1) else f s1)" for o1 c1 s1 and f :: "storage \<Rightarrow> storage"
    by (simp add: submit_def)
  show ?thesis
  proof (rule carries_frame[OF assms(1)])
    show "dict_ok (st_sets (user_step acc op s))"
      using d by (cases op) (auto simp: user_defs
          split: option.splits prod.splits)
    show "dget (st_sets (user_step acc op s)) (KeyT k) = dget (st_sets s) (KeyT k)"
      using assms(2) by (cases op) (auto simp: user_defs
          split: option.splits prod.splits)
    show "st_next_id s \<le> st_next_id (user_step acc op s)"
      by (cases op) (auto simp: user_defs
          split: option.splits prod.splits)
    show "\<forall>p\<in>set (st_pending (user_step acc op s)). p \<in> set (st_pending s) \<or> harmless x k p"
      using assms(2) by (cases op) (auto simp: user_defs
          harmless_def split: option.splits prod.splits)
  qed
qed

definition flush_in_flight :: "string list \<Rightarrow> storage \<Rightarrow> bool" where
  "flush_in_flight k s \<longleftrightarrow> list_ex (\<lambda>p. case pe_cont p of AddIndexCont (Live i) cb items silent \<Rightarrow> items = k | _ \<Rightarrow> False) (st_pending s)"

lemma no_flush_in_flight:
  "\<not> flush_in_flight k s \<Longrightarrow> p \<in> set (st_pending s) \<Longrightarrow> pe_cont p \<noteq> AddIndexCont (Live i) cb k silent"
  by (auto simp: flush_in_flight_def list_ex_iff)

lemma book_ok_submit:
  "book_ok x k s \<Longrightarrow> ref_ok x k s \<lparr>pe_op = op, pe_cont = cont\<rparr> \<Longrightarrow> book_ok x k (snd (submit acc op cont s))"
  by (auto simp: snd_submit book_ok_def ref_ok_def local_minus_def)

lemma submit_sets [simp]: "st_sets (snd (submit acc op cont s)) = st_sets s"
  by (simp add: snd_submit)

lemma book_ok_call: "book_ok x k s \<Longrightarrow> book_ok x k (call_cb cb key ans s)"
  by (auto simp: book_ok_def ref_ok_def local_minus_def)

lemma book_ok_plan_add:
  assumes "book_ok x k s" "x \<in> vs \<Longrightarrow> \<not> flush_in_flight k s"
  shows "book_ok x k (plan_add (KeyT k) vs s)"
proof -
  let ?s = "plan_add (KeyT k) vs s"
  have "ref_ok x k ?s p" if p: "p \<in> set (st_pending s)" for p
  proof (cases "x \<in> vs")
    case True
    then have "ref_ok x k s p" "\<And>i cb silent. pe_cont p \<noteq> AddIndexCont (Live i) cb k silent"
      using assms p no_flush_in_flight by (auto simp: book_ok_def)
    then show ?thesis unfolding ref_ok_def by blast
  next
    case False
    have "ref_ok x k s p" using assms(1) p by (simp add: book_ok_def)
    then show ?thesis
      by (rule ref_ok_mono) (use False in \<open>auto simp: plan_add_def split: option.splits\<close>)
  qed
  then show ?thesis using assms(1)
    by (auto simp: book_ok_def local_minus_def plan_frame) (auto simp: plan_add_def split: option.splits if_splits)
qed

lemma local_plus_plan_add: "local_plus k (plan_add k vs s) = local_plus k s \<union> vs"
  by (auto simp: local_plus_def plan_add_def split: option.splits)

lemma local_plus_call [simp]: "local_plus k (call_cb cb key ans s) = local_plus k s"
  by (simp add: local_plus_def)

lemma local_plus_submit [simp]: "local_plus k (snd (submit acc op cont s)) = local_plus k s"
  by (simp add: local_plus_def)

lemma carries_add:
  assumes "book_ok x k s" "fst (index_strings ix level) = k" "x \<in> value_set v \<Longrightarrow> \<not> flush_in_flight k s"
  shows "carries x k s (user_step acc (UAddIndex ix v level cb) s)
    \<and> (x \<in> value_set v \<longrightarrow> x \<in> local_plus (KeyT k) (user_step acc (UAddIndex ix v level cb) s))"
proof -
  let ?s1 = "plan_add (KeyT k) (value_set v) s"
  have b: "book_ok x k ?s1" using book_ok_plan_add[OF assms(1)] assms(3) by blast
  have r: "ref_ok x k ?s1 \<lparr>pe_op = OpAddIndex k (value_set v), pe_cont = AddIndexCont (Given (value_set v)) cb k False\<rparr>"
    by (simp add: ref_ok_def)
  have "user_step acc (UAddIndex ix v level cb) s =
      (if st_started ?s1 then snd (submit acc (OpAddIndex k (value_set v)) (AddIndexCont (Given (value_set v)) cb k False) ?s1)
       else call_cb cb None response_ok ?s1)"
    using assms(2) by (simp add: add_index_def Let_def)
  then show ?thesis using book_ok_submit[OF b r] book_ok_call[OF b]
    by (auto simp: carries_def local_plus_plan_add)
qed

lemma carries_remove:
  assumes "book_ok x k s" "fst (index_strings ix level) = k" "x \<notin> value_set v"
  shows "carries x k s (user_step acc (URemoveIndex ix v level cb) s)"
proof -
  let ?s1 = "plan_remove (KeyT k) (value_set v) s"
  have "ref_ok x k ?s1 p" if "p \<in> set (st_pending s)" for p
  proof -
    have "ref_ok x k s p" using assms(1) that by (simp add: book_ok_def)
    then show ?thesis
      by (rule ref_ok_mono) (auto simp: plan_remove_def split: option.splits)
  qed
  then have b: "book_ok x k ?s1" using assms(1,3)
    by (auto simp: book_ok_def local_minus_def plan_frame) (auto simp: plan_remove_def split: option.splits if_splits)
  have r: "ref_ok x k ?s1 \<lparr>pe_op = OpRemoveIndex k (value_set v), pe_cont = RemoveIndexCont (Given (value_set v)) cb k False\<rparr>"
    using assms(3) by (simp add: ref_ok_def)
  have l: "x \<in> local_plus (KeyT k) s \<Longrightarrow> x \<in> local_plus (KeyT k) ?s1"
    using assms(3) by (auto simp: local_plus_def plan_remove_def split: option.splits)
  have "user_step acc (URemoveIndex ix v level cb) s =
      (if st_started ?s1 then snd (submit acc (OpRemoveIndex k (value_set v)) (RemoveIndexCont (Given (value_set v)) cb k False) ?s1)
       else call_cb cb None response_ok ?s1)"
    using assms(2) by (simp add: remove_index_def Let_def)
  then show ?thesis using book_ok_submit[OF b r] book_ok_call[OF b] l by (auto simp: carries_def)
qed

section \<open>Flushing keeps the bookkeeping\<close>

text \<open>A flush only adds requests, and only such as fit the entries.\<close>

definition only_adds :: "(pending \<Rightarrow> bool) \<Rightarrow> storage \<Rightarrow> storage \<Rightarrow> bool" where
  "only_adds P s s' \<longleftrightarrow> (\<exists>ps. s' = s\<lparr>st_pending := st_pending s @ ps\<rparr> \<and> (\<forall>p\<in>set ps. P p))"

lemma only_adds_refl [simp]: "only_adds P s s"
  by (auto simp: only_adds_def intro: exI[of _ "[]"])

lemma only_adds_trans: "only_adds P s s1 \<Longrightarrow> only_adds P s1 s2 \<Longrightarrow> only_adds P s s2"
proof -
  assume "only_adds P s s1" "only_adds P s1 s2"
  then obtain ps qs where "s1 = s\<lparr>st_pending := st_pending s @ ps\<rparr>" "\<forall>p\<in>set ps. P p"
      "s2 = s1\<lparr>st_pending := st_pending s1 @ qs\<rparr>" "\<forall>p\<in>set qs. P p" by (auto simp: only_adds_def)
  then show ?thesis by (auto simp: only_adds_def intro!: exI[of _ "ps @ qs"])
qed

lemma only_adds_submit: "P \<lparr>pe_op = op, pe_cont = cont\<rparr> \<Longrightarrow> only_adds P s (snd (submit acc op cont s))"
  by (auto simp: snd_submit only_adds_def intro: exI[of _ "[]"])

lemma only_adds_then:
  assumes "only_adds P s (snd r)" "\<And>s1. only_adds P s1 (snd (f s1))"
  shows "only_adds P s (snd (and_then r (\<lambda>_. f)))"
  using assms by (cases r; cases "fst r") (auto simp: and_then_def intro: only_adds_trans)

definition flushed_ok :: "(skey, set_entry) dict \<Rightarrow> pending \<Rightarrow> bool" where
  "flushed_ok d p \<longleftrightarrow>
     (\<exists>k v. p = \<lparr>pe_op = OpSet k v, pe_cont = SetCont None None None\<rparr>)
     \<or> (\<exists>k vs. p = \<lparr>pe_op = OpAppend k vs, pe_cont = AppendCont None None\<rparr>)
     \<or> (\<exists>k vs. p = \<lparr>pe_op = OpRemove k vs, pe_cont = RemoveCont None None\<rparr>)
     \<or> (\<exists>k e. (KeyT k, e) \<in> set d \<and> p = \<lparr>pe_op = OpAddIndex k (en_plus e), pe_cont = AddIndexCont (Live (en_id e)) None k True\<rparr>)
     \<or> (\<exists>k e. (KeyT k, e) \<in> set d \<and> p = \<lparr>pe_op = OpRemoveIndex k (en_minus e), pe_cont = RemoveIndexCont (Live (en_id e)) None k True\<rparr>)"

lemma flush_values_adds: "only_adds (flushed_ok d) s (snd (flush_values acc vs s))"
proof (induction vs arbitrary: s)
  case (Cons kv vs)
  obtain k v where kv: "kv = (k, v)" by (cases kv)
  have "only_adds (flushed_ok d) s (snd (submit acc (OpSet k v) (SetCont None None None) s))"
    by (rule only_adds_submit) (auto simp: flushed_ok_def)
  then show ?case unfolding kv flush_values.simps by (rule only_adds_then) (rule Cons.IH)
qed simp

lemma flush_sets_adds: "set d' \<subseteq> set d \<Longrightarrow> only_adds (flushed_ok d) s (snd (flush_sets acc d' s))"
proof (induction d' arbitrary: s)
  case (Cons ke d')
  obtain k e where ke: "ke = (k, e)" by (cases ke)
  show ?case
  proof (cases k)
    case (KeyT ls)
    have m: "(KeyT ls, e) \<in> set d" using Cons.prems ke KeyT by simp
    have a: "only_adds (flushed_ok d) s (snd (flush_add_index acc ls e s))" for s
      unfolding flush_add_index_def using m by (auto simp: flushed_ok_def intro!: only_adds_submit)
    have b: "only_adds (flushed_ok d) s (snd (flush_remove_index acc ls e s))" for s
      unfolding flush_remove_index_def using m by (auto simp: flushed_ok_def intro!: only_adds_submit)
    show ?thesis unfolding ke KeyT flush_sets.simps
      by (rule only_adds_then, rule only_adds_then, rule a, rule b, rule Cons.IH) (use Cons.prems in simp)
  next
    case (KeyS ks)
    have a: "only_adds (flushed_ok d) s (snd (flush_append acc ks vs s))" for s vs
      unfolding flush_append_def by (auto simp: flushed_ok_def intro!: only_adds_submit)
    have b: "only_adds (flushed_ok d) s (snd (flush_remove acc ks vs s))" for s vs
      unfolding flush_remove_def by (auto simp: flushed_ok_def intro!: only_adds_submit)
    show ?thesis unfolding ke KeyS flush_sets.simps
      by (rule only_adds_then, rule only_adds_then, rule a, rule b, rule Cons.IH) (use Cons.prems in simp)
  qed
qed simp

definition flush_start :: "storage \<Rightarrow> storage" where
  "flush_start s = s\<lparr>st_flush_timeout := (if st_flush_timeout s < 3000 then st_flush_timeout s * 2 else st_flush_timeout s),
     st_flush_delayed := None\<rparr>"

lemma flush_adds: "only_adds (flushed_ok (st_sets s)) (flush_start s) (snd (flush_localdata acc s))"
  unfolding flush_localdata_def Let_def flush_start_def[symmetric]
  by (rule only_adds_then, rule flush_values_adds, rule flush_sets_adds) simp

lemma carries_flush:
  assumes "book_ok x k s" shows "carries x k s (snd (flush_localdata acc s))"
proof -
  obtain ps where s': "snd (flush_localdata acc s) = (flush_start s)\<lparr>st_pending := st_pending s @ ps\<rparr>"
    and ps: "\<forall>p\<in>set ps. flushed_ok (st_sets s) p"
    using flush_adds[of s acc] by (auto simp: only_adds_def flush_start_def)
  have d: "dict_ok (st_sets s)" using assms by (simp add: book_ok_def)
  have "ref_ok x k s p" if "p \<in> set ps" for p
    using ps that d assms unfolding flushed_ok_def ref_ok_def book_ok_def local_minus_def
    by (auto dest!: bspec) 
  then show ?thesis using assms
    by (auto simp: s' carries_def book_ok_def ref_ok_def local_minus_def local_plus_def flush_start_def)
qed

section \<open>Replies keep the bookkeeping\<close>

lemmas reply_defs = set_cb_def get_cb_def get_iter_cb_def get_concat_cb_def append_cb_def remove_cb_def
  add_index_cb_def remove_index_cb_def get_index_cb_def append_item_def put_or_drop_def Let_def

definition index_reply_at :: "string list \<Rightarrow> continuation \<Rightarrow> bool" where
  "index_reply_at k c \<longleftrightarrow>
     (\<exists>org cb silent. c = AddIndexCont org cb k silent \<or> c = RemoveIndexCont org cb k silent)"

lemma reply_frame:
  assumes "\<not> index_reply_at k c" "dict_ok (st_sets s)"
  shows "dict_ok (st_sets (storage_reply c key ans s))"
    and "dget (st_sets (storage_reply c key ans s)) (KeyT k) = dget (st_sets s) (KeyT k)"
    and "st_next_id (storage_reply c key ans s) = st_next_id s"
    and "st_pending (storage_reply c key ans s) = st_pending s"
  using assms
  by (cases c; auto simp: reply_defs index_reply_at_def split: option.splits answer.splits)+

lemma put_or_drop_at:
  "dget (st_sets (put_or_drop k e s)) k = (if en_minus e = {} \<and> en_plus e = {} then None else Some e)"
  by (simp add: put_or_drop_def)

lemma put_or_drop_next [simp]: "st_next_id (put_or_drop k e s) = st_next_id s"
  by (simp add: put_or_drop_def)

lemma carries_shrink:
  assumes b: "book_ok x k s" and e: "dget (st_sets s) (KeyT k) = Some e"
    and shrink: "en_id e' = en_id e" "en_plus e' \<subseteq> en_plus e" "en_minus e' \<subseteq> en_minus e"
  shows "book_ok x k (put_or_drop (KeyT k) e' s)"
proof -
  let ?s = "put_or_drop (KeyT k) e' s"
  have "ref_ok x k ?s p" if "p \<in> set (st_pending s)" for p
  proof -
    have "ref_ok x k s p" using b that by (simp add: book_ok_def)
    then show ?thesis
    proof (rule ref_ok_mono)
      show "st_next_id s \<le> st_next_id ?s" by (simp add: put_or_drop_def)
      fix a assume "dget (st_sets ?s) (KeyT k) = Some a" "x \<in> en_plus a"
      then have "a = e'" by (simp add: put_or_drop_at split: if_splits)
      with \<open>x \<in> en_plus a\<close> e shrink show "\<exists>e0. dget (st_sets s) (KeyT k) = Some e0 \<and> en_id e0 = en_id a \<and> x \<in> en_plus e0"
        by auto
    qed
  qed
  moreover have "dict_ok (st_sets ?s)" using b by (simp add: book_ok_def put_or_drop_def)
  moreover have "x \<notin> local_minus (KeyT k) ?s" using b e shrink
    by (auto simp: book_ok_def local_minus_def put_or_drop_at)
  moreover have "\<forall>a. dget (st_sets ?s) (KeyT k) = Some a \<longrightarrow> en_id a < st_next_id ?s"
    using b e shrink by (auto simp: book_ok_def put_or_drop_at put_or_drop_next)
  moreover have "st_pending ?s = st_pending s" by (simp add: put_or_drop_def)
  ultimately show ?thesis by (simp add: book_ok_def)
qed

lemma book_ok_cong:
  assumes "book_ok x k s" "st_sets s' = st_sets s" "st_next_id s' = st_next_id s" "set (st_pending s') \<subseteq> set (st_pending s)"
  shows "book_ok x k s'"
  using assms by (auto simp: book_ok_def ref_ok_def local_minus_def)

lemma local_plus_cong: "st_sets s' = st_sets s \<Longrightarrow> local_plus k s' = local_plus k s"
  by (simp add: local_plus_def)

lemma reply_carries:
  assumes b: "book_ok x k s" and p: "p \<in> set (st_pending s)" "set (st_pending s0) \<subseteq> set (st_pending s)"
    and s0: "st_sets s0 = st_sets s" "st_next_id s0 = st_next_id s"
  shows "book_ok x k (reply_to p ans s0) \<and>
    (x \<in> local_plus (KeyT k) s \<longrightarrow> x \<in> local_plus (KeyT k) (reply_to p ans s0)
      \<or> (\<exists>vs. pe_op p = OpAddIndex k vs \<and> x \<in> vs \<and> answer_true ans))"
proof -
  have b0: "book_ok x k s0" using book_ok_cong[OF b] s0 p by simp
  have l0: "local_plus (KeyT k) s0 = local_plus (KeyT k) s" using s0 by (simp add: local_plus_def)
  have r: "ref_ok x k s p" using b p by (simp add: book_ok_def)
  have finish: "book_ok x k (trigger_flush None (call_cb cb None ans s1))
      \<and> local_plus (KeyT k) (trigger_flush None (call_cb cb None ans s1)) = local_plus (KeyT k) s1"
    if "book_ok x k s1" for s1 cb
    using book_ok_cong[OF that, of "trigger_flush None (call_cb cb None ans s1)"] by (simp add: local_plus_def)
  show ?thesis
  proof (cases "index_reply_at k (pe_cont p)")
    case False
    have "carries x k s0 (reply_to p ans s0)"
      unfolding reply_to_def
      by (rule carries_frame[OF b0]) (use reply_frame[OF False] b0 in \<open>simp_all add: book_ok_def\<close>)
    then show ?thesis using l0 by (simp add: carries_def)
  next
    case True
    then consider org cb silent where "pe_cont p = AddIndexCont org cb k silent"
      | org cb silent where "pe_cont p = RemoveIndexCont org cb k silent"
      by (auto simp: index_reply_at_def)
    then show ?thesis
    proof cases
      case 1
      show ?thesis
      proof (cases "answer_true ans")
        case False
        then have "reply_to p ans s0 = s0 \<or> reply_to p ans s0 = trigger_flush None (call_cb cb None ans s0)"
          using 1 by (simp add: reply_to_def add_index_cb_def)
        then show ?thesis using b0 finish[OF b0] l0 by auto
      next
        case ans: True
        show ?thesis
        proof (cases "dget (st_sets s0) (KeyT k)")
          case None
          then have "reply_to p ans s0 = trigger_flush None (call_cb cb None ans s0)"
            using 1 ans by (simp add: reply_to_def add_index_cb_def)
          then show ?thesis using finish[OF b0] l0 by simp
        next
          case (Some e)
          let ?e = "e\<lparr>en_plus := en_plus e - plus_ref org e\<rparr>"
          let ?s1 = "reset_flush_timeout (put_or_drop (KeyT k) ?e s0)"
          have "book_ok x k (put_or_drop (KeyT k) ?e s0)" by (rule carries_shrink[OF b0 Some]) auto
          then have b1: "book_ok x k ?s1" by (rule book_ok_cong) auto
          have eq: "reply_to p ans s0 = trigger_flush None (call_cb cb None ans ?s1)"
            using 1 ans Some by (simp add: reply_to_def add_index_cb_def)
          obtain vs where vs: "pe_op p = OpAddIndex k vs"
            and org: "org = Given vs \<or> (\<exists>i. org = Live i \<and>
               (\<forall>e. dget (st_sets s) (KeyT k) = Some e \<longrightarrow> en_id e = i \<longrightarrow> x \<in> en_plus e \<longrightarrow> x \<in> vs))"
            using r 1 unfolding ref_ok_def by blast
          have "x \<in> local_plus (KeyT k) ?s1 \<or> x \<in> vs" if "x \<in> local_plus (KeyT k) s"
          proof -
            have xe: "x \<in> en_plus e" using that Some s0 by (simp add: local_plus_def)
            show ?thesis
            proof (cases "x \<in> plus_ref org e")
              case True
              then show ?thesis using org Some s0 by (auto split: if_splits)
            next
              case False
              then show ?thesis using xe by (simp add: local_plus_def put_or_drop_at) auto
            qed
          qed
          then show ?thesis using finish[OF b1] eq vs ans by auto
        qed
      qed
    next
      case 2
      show ?thesis
      proof (cases "answer_true ans \<and> dget (st_sets s0) (KeyT k) \<noteq> None")
        case False
        then have "reply_to p ans s0 = s0 \<or> reply_to p ans s0 = trigger_flush None (call_cb cb None ans s0)"
          using 2 by (auto simp: reply_to_def remove_index_cb_def)
        then show ?thesis using b0 finish[OF b0] l0 by auto
      next
        case True
        then obtain e where e: "dget (st_sets s0) (KeyT k) = Some e" by auto
        let ?e = "e\<lparr>en_minus := en_minus e - minus_ref org e\<rparr>"
        let ?s1 = "reset_flush_timeout (put_or_drop (KeyT k) ?e s0)"
        have "book_ok x k (put_or_drop (KeyT k) ?e s0)" by (rule carries_shrink[OF b0 e]) auto
        then have b1: "book_ok x k ?s1" by (rule book_ok_cong) auto
        have eq: "reply_to p ans s0 = trigger_flush None (call_cb cb None ans ?s1)"
          using 2 True e by (simp add: reply_to_def remove_index_cb_def)
        have "x \<in> local_plus (KeyT k) ?s1" if "x \<in> local_plus (KeyT k) s"
          using that e s0 by (auto simp: local_plus_def put_or_drop_at)
        then show ?thesis using finish[OF b1] eq by simp
      qed
    qed
  qed
qed

section \<open>A member that is never removed\<close>

fun removes :: "string \<Rightarrow> string list \<Rightarrow> event \<Rightarrow> bool" where
  "removes x k (EUser acc (URemoveIndex ix v level cb)) \<longleftrightarrow> fst (index_strings ix level) = k \<and> x \<in> value_set v"
| "removes x k _ \<longleftrightarrow> False"

fun adds :: "string \<Rightarrow> string list \<Rightarrow> event \<Rightarrow> bool" where
  "adds x k (EUser acc (UAddIndex ix v level cb)) \<longleftrightarrow> fst (index_strings ix level) = k \<and> x \<in> value_set v"
| "adds x k _ \<longleftrightarrow> False"

text \<open>The member is never removed, and not added while a flush of its levels is in flight.\<close>

definition careful :: "string \<Rightarrow> string list \<Rightarrow> storage \<times> event \<Rightarrow> bool" where
  "careful x k se \<longleftrightarrow> \<not> removes x k (snd se) \<and> (adds x k (snd se) \<longrightarrow> \<not> flush_in_flight k (fst se))"

lemma user_event_carries:
  assumes "book_ok x k s" "careful x k (s, EUser acc op)"
  shows "carries x k s (user_step acc op s) \<and>
    (adds x k (EUser acc op) \<longrightarrow> x \<in> local_plus (KeyT k) (user_step acc op s))"
proof (cases "\<exists>ix v level cb. op = UAddIndex ix v level cb \<and> fst (index_strings ix level) = k")
  case True
  then obtain ix v level cb where op: "op = UAddIndex ix v level cb" "fst (index_strings ix level) = k" by blast
  with carries_add[OF assms(1) op(2)] assms(2) show ?thesis by (auto simp: careful_def)
next
  case noadd: False
  show ?thesis
  proof (cases "\<exists>ix v level cb. op = URemoveIndex ix v level cb \<and> fst (index_strings ix level) = k")
    case True
    then obtain ix v level cb where op: "op = URemoveIndex ix v level cb" "fst (index_strings ix level) = k" by blast
    with carries_remove[OF assms(1) op(2)] assms(2) show ?thesis by (auto simp: careful_def)
  next
    case False
    with noadd have "carries x k s (user_step acc op s)" by (intro carries_user_other[OF assms(1)]) blast
    moreover have "\<not> adds x k (EUser acc op)" using noadd by (cases op) auto
    ultimately show ?thesis by blast
  qed
qed

lemma book_ok_init: "book_ok x k (storage_init ty)"
  by (simp add: book_ok_def storage_init_def local_minus_def)

context registry begin

text \<open>The invariant of a trace: the bookkeeping, and the member is planned or in the registry once added.\<close>

definition member_safe :: "string \<Rightarrow> string list \<Rightarrow> bool \<Rightarrow> storage \<times> 'r \<Rightarrow> bool" where
  "member_safe x k b c \<longleftrightarrow> book_ok x k (fst c) \<and> inv (snd c)
     \<and> (b \<longrightarrow> x \<in> local_plus (KeyT k) (fst c) \<or> x \<in> members (snd c) k)"

lemma pending_keeps:
  assumes "book_ok x k s" "p \<in> set (st_pending s)" "inv r" "x \<in> members r k"
  shows "x \<in> members (snd (run (pe_op p) r)) k"
  using assms by (intro run_keeps) (auto simp: book_ok_def ref_ok_def)

lemma event_safe:
  assumes "member_safe x k b (s, r)" "careful x k (s, ev)" "event_step run ev (s, r) = Some c'"
  shows "member_safe x k (b \<or> adds x k ev) c'"
proof -
  have b: "book_ok x k s" and i: "inv r" and m: "b \<Longrightarrow> x \<in> local_plus (KeyT k) s \<or> x \<in> members r k"
    using assms(1) by (auto simp: member_safe_def)
  have reply: "member_safe x k b (reply_to (st_pending s ! n) ans (take_pending n s), r')"
    if n: "n < length (st_pending s)" and r': "inv r'" "x \<in> members r k \<Longrightarrow> x \<in> members r' k"
      and a: "\<And>vs. pe_op (st_pending s ! n) = OpAddIndex k vs \<Longrightarrow> answer_true ans \<Longrightarrow> vs \<subseteq> members r' k" for n ans r'
    using reply_carries[OF b, of "st_pending s ! n" "take_pending n s" ans] n r' a m set_take_pending[of n s]
    by (fastforce simp: member_safe_def)
  show ?thesis
  proof (cases ev)
    case (EUser acc op)
    then have c': "c' = (user_step acc op s, r)" using assms(3) by simp
    from user_event_carries[OF b, of acc op] assms(2) EUser m i c' show ?thesis
      by (auto simp: member_safe_def carries_def)
  next
    case (EFlush acc)
    then have "c' = (snd (flush_localdata acc s), r)" using assms(3) by (simp split: if_splits)
    with carries_flush[OF b, of acc] EFlush m i show ?thesis by (auto simp: member_safe_def carries_def)
  next
    case (EReply n)
    then have n: "n < length (st_pending s)" using assms(3) by (simp split: if_splits)
    let ?p = "st_pending s ! n"
    have c': "c' = (reply_to ?p (fst (run (pe_op ?p) r)) (take_pending n s), snd (run (pe_op ?p) r))"
      using assms(3) EReply n by (simp add: split_beta Let_def)
    have "member_safe x k b c'" unfolding c'
      by (rule reply[OF n]) (use n i b in \<open>auto intro: run_inv pending_keeps dest: run_add[OF i]\<close>)
    then show ?thesis using EReply by simp
  next
    case (ELost n)
    then have n: "n < length (st_pending s)" using assms(3) by (simp split: if_splits)
    then have c': "c' = (reply_to (st_pending s ! n) response_failed (take_pending n s), r)" using assms(3) ELost by simp
    have "member_safe x k b c'" unfolding c' by (rule reply[OF n]) (use i in auto)
    then show ?thesis using ELost by simp
  next
    case (EUnconfirmed n)
    then have n: "n < length (st_pending s)" using assms(3) by (simp split: if_splits)
    let ?p = "st_pending s ! n"
    have c': "c' = (reply_to ?p response_failed (take_pending n s), snd (run (pe_op ?p) r))"
      using assms(3) EUnconfirmed n by (simp add: Let_def)
    have "member_safe x k b c'" unfolding c'
      by (rule reply[OF n]) (use n i b in \<open>auto intro: run_inv pending_keeps\<close>)
    then show ?thesis using EUnconfirmed by simp
  qed
qed

lemma trace_safe:
  "storage_trace run (storage_init ty, r0) tr c \<Longrightarrow> inv r0 \<Longrightarrow> \<forall>se\<in>set tr. careful x k se \<Longrightarrow>
   member_safe x k (\<exists>se\<in>set tr. adds x k (snd se)) c"
proof (induction rule: storage_trace.induct)
  case trace_start
  then show ?case by (simp add: member_safe_def book_ok_init)
next
  case (trace_more tr c' ev c'')
  obtain s r where c': "c' = (s, r)" by (cases c')
  from trace_more have "member_safe x k (\<exists>se\<in>set tr. adds x k (snd se)) (s, r)" "careful x k (s, ev)"
    using c' by auto
  from event_safe[OF this] trace_more(2) c' have "member_safe x k ((\<exists>se\<in>set tr. adds x k (snd se)) \<or> adds x k ev) c''" by simp
  then show ?case by (simp add: disj_commute)
qed

lemma member_never_lost:
  assumes "storage_trace run (storage_init ty, r0) tr (s, r)" "inv r0"
    and "\<forall>se\<in>set tr. careful x k se" "\<exists>se\<in>set tr. adds x k (snd se)"
  shows "x \<in> local_plus (KeyT k) s \<or> x \<in> members r k"
  using trace_safe[OF assms(1-3)] assms(4) by (simp add: member_safe_def)

end

section \<open>Updates are never forgotten\<close>

definition updating :: "continuation \<Rightarrow> bool" where
  "updating c \<longleftrightarrow>
     (case c of SetCont _ _ _ \<Rightarrow> True | AppendCont _ _ \<Rightarrow> True | RemoveCont _ _ \<Rightarrow> True
      | AddIndexCont _ _ _ _ \<Rightarrow> True | RemoveIndexCont _ _ _ _ \<Rightarrow> True | _ \<Rightarrow> False)"

definition planned :: "storage \<Rightarrow> bool" where
  "planned s \<longleftrightarrow> st_localstore s \<noteq> [] \<or> (\<exists>(k, e)\<in>set (st_sets s). en_plus e \<noteq> {} \<or> en_minus e \<noteq> {})"

definition update_in_flight :: "storage \<Rightarrow> bool" where
  "update_in_flight s \<longleftrightarrow> (\<exists>p\<in>set (st_pending s). updating (pe_cont p))"

definition awake :: "storage \<Rightarrow> bool" where
  "awake s \<longleftrightarrow> (st_started s \<and> planned s \<longrightarrow> st_flush_delayed s \<noteq> None \<or> update_in_flight s)"

fun accepting :: "event \<Rightarrow> bool" where
  "accepting (EUser acc op) \<longleftrightarrow> acc = (\<lambda>_. True)"
| "accepting (EFlush acc) \<longleftrightarrow> acc = (\<lambda>_. True)"
| "accepting _ \<longleftrightarrow> True"

lemma planned_nonempty: "planned s \<Longrightarrow> st_localstore s \<noteq> [] \<or> st_sets s \<noteq> []"
  by (auto simp: planned_def)

lemma trigger_flush_scheduled: "st_localstore s \<noteq> [] \<or> st_sets s \<noteq> [] \<Longrightarrow> st_flush_delayed (trigger_flush d s) \<noteq> None"
  by (simp add: trigger_flush_def)

lemma awake_trigger [simp]: "awake (trigger_flush d s)"
  using trigger_flush_scheduled[of s d] planned_nonempty[of "trigger_flush d s"] by (auto simp: awake_def)

lemma awake_delayed_call [simp]: "awake (delayed_call cb k a s) \<longleftrightarrow> awake s"
  by (simp add: awake_def planned_def update_in_flight_def)

lemma awake_call_cb [simp]: "awake (call_cb cb k a s) \<longleftrightarrow> awake s"
  by (simp add: awake_def planned_def update_in_flight_def)

lemma awake_update_iter [simp]: "awake (update_iter i f s) \<longleftrightarrow> awake s"
  by (simp add: awake_def planned_def update_in_flight_def)

lemma awake_submit: "awake s \<Longrightarrow> awake (snd (submit acc op cont s))"
  by (auto simp: awake_def planned_def update_in_flight_def snd_submit)

lemma awake_submit_update: "updating cont \<Longrightarrow> awake (snd (submit (\<lambda>_. True) op cont s))"
  by (auto simp: awake_def update_in_flight_def snd_submit)

lemma awake_idle: "\<not> st_started s \<Longrightarrow> awake s"
  by (simp add: awake_def)

lemma awake_less:
  "awake s \<Longrightarrow> st_started s' = st_started s \<Longrightarrow> st_flush_delayed s' = st_flush_delayed s \<Longrightarrow>
   st_pending s' = st_pending s \<Longrightarrow> (planned s' \<Longrightarrow> planned s) \<Longrightarrow> awake s'"
  by (auto simp: awake_def update_in_flight_def)

lemma set_ddel: "set (ddel k d) \<subseteq> set d"
  by (induction d) (auto simp: ddel_def)

lemma awake_user: "awake s \<Longrightarrow> awake (user_step (\<lambda>_. True) op s)"
proof (cases op)
  case (USet pre key v cb)
  then show ?thesis by (auto simp: storage_set_def Let_def awake_submit_update updating_def awake_idle)
next
  case (UGet pre key cb)
  assume "awake s"
  with UGet show ?thesis using awake_submit[of s "\<lambda>_. True"]
    by (auto simp: storage_get_def submit_def split: option.splits)
next
  case (UGetIter pre key i inc)
  assume "awake s"
  with UGetIter show ?thesis using awake_submit[of s "\<lambda>_. True"]
    by (auto simp: get_iter_def Let_def append_item_def submit_def split: option.splits)
next
  case (UDelete pre key cb)
  let ?s = "s\<lparr>st_localstore := ddel (pre @ key) (st_localstore s), st_sets := ddel (KeyS (pre @ key)) (st_sets s)\<rparr>"
  assume "awake s"
  moreover have "planned ?s \<Longrightarrow> planned s"
    using set_ddel[of "KeyS (pre @ key)" "st_sets s"] set_ddel[of "pre @ key" "st_localstore s"]
    by (fastforce simp: planned_def)
  ultimately have "awake ?s" by (auto intro: awake_less)
  with UDelete show ?thesis by (auto simp: storage_delete_def Let_def awake_submit)
next
  case (UGetConcat pre key cb)
  assume "awake s"
  with UGetConcat show ?thesis using awake_submit[of s "\<lambda>_. True"]
    by (auto simp: get_concat_def Let_def submit_def split: option.splits)
next
  case (UAppend pre key vs cb)
  then show ?thesis by (auto simp: storage_append_def Let_def awake_submit_update updating_def awake_idle plan_frame)
next
  case (URemove pre key vs cb)
  then show ?thesis by (auto simp: storage_remove_def Let_def awake_submit_update updating_def awake_idle plan_frame)
next
  case (UAddIndex ix v level cb)
  then show ?thesis by (auto simp: add_index_def Let_def awake_submit_update updating_def awake_idle plan_frame)
next
  case (URemoveIndex ix v level cb)
  then show ?thesis by (auto simp: remove_index_def Let_def awake_submit_update updating_def awake_idle plan_frame)
next
  case (UGetIndex ix level cb)
  assume "awake s"
  with UGetIndex show ?thesis by (auto simp: get_index_def Let_def awake_submit)
next
  case (UGetIndexIter ix inc level)
  assume "awake s"
  then have "awake (snd (new_iter s))" by (auto simp: new_iter_def intro: awake_less simp: planned_def)
  with UGetIndexIter show ?thesis
    by (auto simp: get_index_iter_def get_index_def Let_def split_beta and_then_def submit_def awake_submit
        awake_submit[where acc = "\<lambda>_. True", unfolded submit_def, simplified])
next
  case (UStart cb)
  assume "awake s"
  with UStart show ?thesis by (simp add: storage_start_def)
next
  case (UStarted ans cb)
  assume "awake s"
  with UStarted show ?thesis by (simp add: started_cb_def)
next
  case (UStop cb)
  then show ?thesis by (simp add: storage_stop_def awake_def)
qed

text \<open>A flush sends something when something is planned.\<close>

lemma only_adds_in_flight: "only_adds P s s' \<Longrightarrow> update_in_flight s \<Longrightarrow> update_in_flight s'"
  by (auto simp: only_adds_def update_in_flight_def)

lemma and_then_total: "(\<exists>u. fst r = Inr u) \<Longrightarrow> snd (and_then r (\<lambda>_. f)) = snd (f (snd r))"
  by (cases r) (auto simp: and_then_def)

lemma submit_total: "submit (\<lambda>_. True) op cont s = (Inr (), snd (submit (\<lambda>_. True) op cont s))"
  by (simp add: submit_def)

lemma submit_in_flight: "updating cont \<Longrightarrow> update_in_flight (snd (submit (\<lambda>_. True) op cont s))"
  by (simp add: snd_submit update_in_flight_def)

lemma flush_values_total: "fst (flush_values (\<lambda>_. True) d s) = Inr ()"
  by (induction "\<lambda>_::storage_op. True" d s rule: flush_values.induct) (simp_all add: submit_def)

lemma flush_values_in_flight: "d \<noteq> [] \<Longrightarrow> update_in_flight (snd (flush_values (\<lambda>_. True) d s))"
proof (cases d)
  case (Cons kv d')
  obtain k v where kv: "kv = (k, v)" by (cases kv)
  have "update_in_flight (snd (submit (\<lambda>_. True) (OpSet k v) (SetCont None None None) s))"
    by (rule submit_in_flight) (simp add: updating_def)
  then show ?thesis unfolding Cons kv flush_values.simps
    using only_adds_in_flight[OF flush_values_adds] by (simp add: submit_def)
qed simp

lemma flush_parts_total:
  "fst (flush_append (\<lambda>_. True) k vs s) = Inr ()" "fst (flush_remove (\<lambda>_. True) k vs s) = Inr ()"
  "fst (flush_add_index (\<lambda>_. True) ls e s) = Inr ()" "fst (flush_remove_index (\<lambda>_. True) ls e s) = Inr ()"
  by (simp_all add: flush_append_def flush_remove_def flush_add_index_def flush_remove_index_def submit_def)

lemma flush_parts_in_flight:
  "vs \<noteq> {} \<Longrightarrow> update_in_flight (snd (flush_append (\<lambda>_. True) k vs s))"
  "vs \<noteq> {} \<Longrightarrow> update_in_flight (snd (flush_remove (\<lambda>_. True) k vs s))"
  "en_plus e \<noteq> {} \<Longrightarrow> update_in_flight (snd (flush_add_index (\<lambda>_. True) ls e s))"
  "en_minus e \<noteq> {} \<Longrightarrow> update_in_flight (snd (flush_remove_index (\<lambda>_. True) ls e s))"
  by (simp_all add: flush_append_def flush_remove_def flush_add_index_def flush_remove_index_def submit_in_flight updating_def)

lemma flush_parts_keep:
  "update_in_flight s \<Longrightarrow> update_in_flight (snd (flush_remove (\<lambda>_. True) k vs s))"
  "update_in_flight s \<Longrightarrow> update_in_flight (snd (flush_remove_index (\<lambda>_. True) ls e s))"
  by (auto simp: flush_remove_def flush_remove_index_def snd_submit update_in_flight_def)

lemma flush_entry_in_flight:
  "vs \<noteq> {} \<or> ws \<noteq> {} \<Longrightarrow> update_in_flight
     (snd (and_then (flush_append (\<lambda>_. True) k vs s) (\<lambda>_ s1. flush_remove (\<lambda>_. True) k ws s1)))"
  "en_plus e \<noteq> {} \<or> en_minus e \<noteq> {} \<Longrightarrow> update_in_flight
     (snd (and_then (flush_add_index (\<lambda>_. True) ls e s) (\<lambda>_ s1. flush_remove_index (\<lambda>_. True) ls e s1)))"
  by (simp_all add: and_then_total flush_parts_total) (use flush_parts_in_flight flush_parts_keep in metis)+

lemma flush_entry_total:
  "fst (and_then (flush_append (\<lambda>_. True) k vs s) (\<lambda>_ s1. flush_remove (\<lambda>_. True) k ws s1)) = Inr ()"
  "fst (and_then (flush_add_index (\<lambda>_. True) ls e s) (\<lambda>_ s1. flush_remove_index (\<lambda>_. True) ls e s1)) = Inr ()"
  using flush_parts_total by (simp_all add: and_then_def split: prod.splits sum.splits) (metis fst_conv sum.simps(4))+

lemma flush_sets_in_flight:
  "\<exists>(k, e)\<in>set d. en_plus e \<noteq> {} \<or> en_minus e \<noteq> {} \<Longrightarrow> update_in_flight (snd (flush_sets (\<lambda>_. True) d s))"
proof (induction d arbitrary: s)
  case (Cons ke d)
  obtain k e where ke: "ke = (k, e)" by (cases ke)
  have keep: "update_in_flight s1 \<Longrightarrow> update_in_flight (snd (flush_sets (\<lambda>_. True) d s1))" for s1
    using only_adds_in_flight[OF flush_sets_adds[of d d]] by simp
  show ?case
  proof (cases "en_plus e \<noteq> {} \<or> en_minus e \<noteq> {}")
    case True
    then show ?thesis unfolding ke
      by (cases k) (simp_all add: and_then_total flush_entry_total keep flush_entry_in_flight)
  next
    case False
    then have "\<exists>(k, e)\<in>set d. en_plus e \<noteq> {} \<or> en_minus e \<noteq> {}" using Cons.prems ke by auto
    then show ?thesis unfolding ke
      by (cases k) (simp_all add: and_then_total flush_entry_total Cons.IH)
  qed
qed simp

lemma awake_flush: "awake (snd (flush_localdata (\<lambda>_. True) s))"
proof -
  obtain ps where s': "snd (flush_localdata (\<lambda>_. True) s) = (flush_start s)\<lparr>st_pending := st_pending s @ ps\<rparr>"
    using flush_adds[of s "\<lambda>_. True"] by (auto simp: only_adds_def flush_start_def)
  have "update_in_flight (snd (flush_localdata (\<lambda>_. True) s))" if "planned s"
  proof -
    have eq: "snd (flush_localdata (\<lambda>_. True) s)
        = snd (flush_sets (\<lambda>_. True) (st_sets s) (snd (flush_values (\<lambda>_. True) (st_localstore s) (flush_start s))))"
      unfolding flush_localdata_def Let_def flush_start_def[symmetric] by (simp add: and_then_total flush_values_total)
    show ?thesis
    proof (cases "st_localstore s = []")
      case True
      with that show ?thesis unfolding eq planned_def by (simp add: flush_sets_in_flight)
    next
      case False
      then show ?thesis unfolding eq
        using only_adds_in_flight[OF flush_sets_adds[of "st_sets s" "st_sets s"]] flush_values_in_flight by simp
    qed
  qed
  then show ?thesis unfolding awake_def s' planned_def flush_start_def by simp
qed

text \<open>
  The callback of a failed index update raises before it triggers a flush, unless the update
  belongs to a flush or names one level.
\<close>

definition logs_error :: "continuation \<Rightarrow> bool" where
  "logs_error c \<longleftrightarrow>
     (case c of AddIndexCont org cb items silent \<Rightarrow> warning_raises silent items
      | RemoveIndexCont org cb items silent \<Rightarrow> warning_raises silent items | _ \<Rightarrow> False)"

fun callback_raises :: "(storage_op \<Rightarrow> 'r \<Rightarrow> answer \<times> 'r) \<Rightarrow> storage \<times> event \<Rightarrow> bool" where
  "callback_raises run (s, EReply i) \<longleftrightarrow>
     i < length (st_pending s) \<and> logs_error (pe_cont (st_pending s ! i))
     \<and> (\<exists>r. \<not> answer_true (fst (run (pe_op (st_pending s ! i)) r)))"
| "callback_raises run (s, ELost i) \<longleftrightarrow> i < length (st_pending s) \<and> logs_error (pe_cont (st_pending s ! i))"
| "callback_raises run (s, EUnconfirmed i) \<longleftrightarrow> i < length (st_pending s) \<and> logs_error (pe_cont (st_pending s ! i))"
| "callback_raises run (s, ev) \<longleftrightarrow> False"

text \<open>The answers to updates, and the flushes: after any of them the storage is awake, unless a callback raised.\<close>

fun wakes :: "storage \<times> event \<Rightarrow> bool" where
  "wakes (s, EUser acc op) \<longleftrightarrow> False"
| "wakes (s, EFlush acc) \<longleftrightarrow> True"
| "wakes (s, EReply i) \<longleftrightarrow> updating (pe_cont (st_pending s ! i))"
| "wakes (s, ELost i) \<longleftrightarrow> updating (pe_cont (st_pending s ! i))"
| "wakes (s, EUnconfirmed i) \<longleftrightarrow> updating (pe_cont (st_pending s ! i))"

lemma awake_update_reply:
  assumes "updating (pe_cont p)" "logs_error (pe_cont p) \<Longrightarrow> answer_true ans"
  shows "awake (reply_to p ans s)"
  using assms
  by (cases "pe_cont p") (auto simp: updating_def logs_error_def reply_to_def reply_defs)

lemma awake_other_reply:
  assumes "\<not> updating (pe_cont (st_pending s ! n))" "awake s" "n < length (st_pending s)"
  shows "awake (reply_to (st_pending s ! n) ans (take_pending n s))"
proof -
  have "update_in_flight (take_pending n s)" if "update_in_flight s"
  proof -
    have "set (st_pending s) = set (st_pending (take_pending n s)) \<union> {st_pending s ! n}"
      using assms(3) by (simp add: take_pending_def) (metis Un_insert_right id_take_nth_drop list.simps(15) set_append)
    with that assms(1) show ?thesis by (auto simp: update_in_flight_def)
  qed
  with assms(2) have "awake (take_pending n s)" by (auto simp: awake_def planned_def)
  then show ?thesis using assms(1)
    by (cases "pe_cont (st_pending s ! n)")
       (simp_all add: updating_def reply_to_def reply_defs split: answer.splits)
qed

lemma awake_event:
  assumes "accepting ev" "event_step run ev (s, r) = Some (s', r')" "\<not> callback_raises run (s, ev)"
    and "awake s \<or> wakes (s, ev)"
  shows "awake s'"
proof (cases ev)
  case (EUser acc op)
  with assms show ?thesis by (auto simp: awake_user)
next
  case (EFlush acc)
  with assms show ?thesis by (auto simp: awake_flush split: if_splits)
next
  case (EReply i)
  with assms(2) obtain ans where i: "i < length (st_pending s)"
      "s' = reply_to (st_pending s ! i) ans (take_pending i s)" "ans = fst (run (pe_op (st_pending s ! i)) r)"
    by (auto simp: Let_def split: if_splits prod.splits)
  with assms(3,4) EReply show ?thesis
    by (cases "updating (pe_cont (st_pending s ! i))") (auto intro: awake_update_reply awake_other_reply)
next
  case (ELost i)
  with assms show ?thesis
    by (cases "updating (pe_cont (st_pending s ! i))")
       (auto intro: awake_update_reply awake_other_reply split: if_splits)
next
  case (EUnconfirmed i)
  with assms show ?thesis
    by (cases "updating (pe_cont (st_pending s ! i))")
       (auto simp: Let_def intro: awake_update_reply awake_other_reply split: if_splits)
qed

definition stalled_since :: "(storage_op \<Rightarrow> 'r \<Rightarrow> answer \<times> 'r) \<Rightarrow> (storage \<times> event) list \<Rightarrow> bool" where
  "stalled_since run tr \<longleftrightarrow>
     (\<exists>tr1 se tr2. tr = tr1 @ se # tr2 \<and> callback_raises run se \<and> (\<forall>se'\<in>set tr2. \<not> wakes se'))"

lemma stalled_now: "callback_raises run se \<Longrightarrow> stalled_since run (tr @ [se])"
  unfolding stalled_since_def by (rule exI[of _ tr], rule exI[of _ se], rule exI[of _ "[]"]) simp

lemma stalled_still: "stalled_since run tr \<Longrightarrow> \<not> wakes se \<Longrightarrow> stalled_since run (tr @ [se])"
proof -
  assume "stalled_since run tr" "\<not> wakes se"
  then obtain tr1 se1 tr2 where "tr = tr1 @ se1 # tr2" "callback_raises run se1" "\<forall>se'\<in>set (tr2 @ [se]). \<not> wakes se'"
    by (auto simp: stalled_since_def)
  then show ?thesis unfolding stalled_since_def
    by (intro exI[of _ tr1] exI[of _ se1] exI[of _ "tr2 @ [se]"]) simp
qed

lemma awake_trace:
  "storage_trace run (storage_init ty, r0) tr c \<Longrightarrow> \<forall>se\<in>set tr. accepting (snd se) \<Longrightarrow>
   awake (fst c) \<or> stalled_since run tr"
proof (induction rule: storage_trace.induct)
  case trace_start
  then show ?case by (simp add: awake_def storage_init_def)
next
  case (trace_more tr c' ev c'')
  obtain s r s' r' where c: "c' = (s, r)" "c'' = (s', r')" by (cases c'; cases c'')
  with trace_more have a: "awake s \<or> stalled_since run tr" "accepting ev"
      "event_step run ev (s, r) = Some (s', r')" by auto
  show ?case
  proof (cases "callback_raises run (s, ev)")
    case True
    from stalled_now[OF this] show ?thesis by (simp add: c)
  next
    case False
    then show ?thesis
      using a(1) awake_event[OF a(2,3) False] stalled_still[of run tr "(s, ev)"] c by auto
  qed
qed

end
