(* ===== verification/Storage_Properties.thy ===== *)
theory Storage_Properties
  imports Storage_Protocol
begin

text \<open>
  Properties of the storage: members of an index survive lost requests, nothing planned is
  forgotten, the flush interval is bounded; and the runs in which the bookkeeping loses updates.
\<close>

section \<open>What holds\<close>

text \<open>
  C22: A member of an index is never lost.  Let a registry satisfy its contract, and take any run of the storage with it, in which requests are
  answered in any order, lost, or carried out without a confirmation.  If \<open>x\<close> was added
  under the levels \<open>k\<close>, never removed, and never added while a flush of these levels was in flight, then
  at the end it is planned locally or in the registry, so every search for levels above \<open>k\<close>
  finds it locally or in the registry.\<close>
theorem index_member_never_lost:
  assumes "registry run members ok" "ok r0"
    and "storage_trace run (storage_init ty, r0) tr (s, r)"
    and "\<forall>se\<in>set tr. careful x k se" "\<exists>se\<in>set tr. adds x k (snd se)" "prefix ix k"
  shows "x \<in> local_members ix s \<or> (\<exists>S. fst (run (OpGetIndex ix) r) = AMembers S \<and> x \<in> S)"
proof -
  have i: "ok r" using registry.trace_safe[OF assms(1,3,2,4)] by (simp add: registry.member_safe_def[OF assms(1)])
  from registry.member_never_lost[OF assms(1,3,2,4,5)] show ?thesis
  proof
    assume "x \<in> local_plus (KeyT k) s"
    then obtain e where "dget (st_sets s) (KeyT k) = Some e" "x \<in> en_plus e"
      by (auto simp: local_plus_def split: option.splits)
    then have "(KeyT k, e) \<in> set (st_sets s)" "x \<in> en_plus e" by (auto dest: map_of_SomeD)
    then have "x \<in> local_members ix s"
      using assms(6) by (force simp: local_members_def level_match_prefix)
    then show ?thesis by simp
  next
    assume "x \<in> members r k"
    from registry.run_search[OF assms(1) i this assms(6)] show ?thesis by simp
  qed
qed

text \<open>
  C23: The storage stalls in one way only.  In any run in which the plugin accepts the requests, whenever the storage is
  started and has a value or a change of a set that is not yet confirmed, a flush is scheduled, or a
  request for an update is in flight, or the last answer to an update since the last flush was a failure
  whose callback raised: the answer to an index update of the user's, of other than one
  level (the warning formats the key, a tuple).\<close>
theorem storage_never_stalls:
  assumes "storage_trace run (storage_init ty, r0) tr (s, r)" "\<forall>se\<in>set tr. accepting (snd se)"
    and "st_started s" "planned s"
  shows "st_flush_delayed s \<noteq> None \<or> update_in_flight s
    \<or> (\<exists>tr1 se tr2. tr = tr1 @ se # tr2 \<and> callback_raises run se \<and> (\<forall>se'\<in>set tr2. \<not> wakes se'))"
  using awake_trace[OF assms(1,2)] assms(3,4) by (auto simp: awake_def stalled_since_def)

lemma timeout_submit [simp]: "st_flush_timeout (snd (submit acc op cont s)) = st_flush_timeout s"
  by (simp add: snd_submit)

lemma timeout_plan [simp]:
  "st_flush_timeout (plan_add k vs s) = st_flush_timeout s" "st_flush_timeout (plan_remove k vs s) = st_flush_timeout s"
  by (simp_all add: plan_add_def plan_remove_def split: option.splits)

lemma timeout_user: "st_flush_timeout (user_step acc op s) = st_flush_timeout s"
  by (cases op) (auto simp: user_defs split: option.splits prod.splits)

lemma timeout_reply: "st_flush_timeout (storage_reply c key ans s) \<in> {1, st_flush_timeout s}"
  by (cases c) (auto simp: reply_defs reset_flush_timeout_def split: option.splits answer.splits)

text \<open>
  The flush interval is bounded.  Whatever happens, the interval is 0.2 seconds times a power of two, and at most 4096 times 0.2
  seconds.\<close>
theorem flush_interval_bounded:
  assumes "storage_trace run (storage_init ty, r0) tr c"
  shows "\<exists>n\<le>12. st_flush_timeout (fst c) = 2 ^ n"
  using assms
proof (induction rule: storage_trace.induct)
  case trace_start
  then show ?case by (auto simp: storage_init_def intro!: exI[of _ 0])
next
  case (trace_more tr c' ev c'')
  obtain s r s' r' where c: "c' = (s, r)" "c'' = (s', r')" by (cases c'; cases c'')
  from trace_more c obtain n where n: "n \<le> 12" "st_flush_timeout s = 2 ^ n" by auto
  have one: "\<exists>n\<le>12. (1::nat) = 2 ^ n" by (rule exI[of _ 0]) simp
  have reply: "\<exists>n\<le>12. st_flush_timeout (reply_to p ans (take_pending i s)) = 2 ^ n" for p ans i
  proof -
    have "st_flush_timeout (reply_to p ans (take_pending i s)) \<in> {1, st_flush_timeout s}"
      using timeout_reply[of "pe_cont p" "op_key (pe_op p)" ans "take_pending i s"] by (simp add: reply_to_def)
    then show ?thesis
    proof (elim insertE)
      assume "st_flush_timeout (reply_to p ans (take_pending i s)) = 1"
      then show ?thesis using one by simp
    qed (use n in auto)
  qed
  have flush: "\<exists>n\<le>12. st_flush_timeout (snd (flush_localdata acc s)) = 2 ^ n" for acc
  proof -
    have f: "st_flush_timeout (snd (flush_localdata acc s)) = st_flush_timeout (flush_start s)"
      using flush_adds[of s acc] by (auto simp: only_adds_def)
    show ?thesis
    proof (cases "n \<le> 11")
      case True
      have "(2::nat) ^ n \<le> 2 ^ 11" using True by (rule power_increasing) simp
      then have "st_flush_timeout (flush_start s) = 2 ^ Suc n" using n by (simp add: flush_start_def)
      with f True show ?thesis by (intro exI[of _ "Suc n"]) simp
    next
      case False
      then have "n = 12" using n by simp
      then have "st_flush_timeout (flush_start s) = 2 ^ n" using n by (simp add: flush_start_def)
      with f n show ?thesis by (intro exI[of _ n]) simp
    qed
  qed
  show ?case using trace_more(2) c n reply flush
    by (cases ev) (auto simp: timeout_user Let_def split: if_splits prod.splits)
qed

text \<open>
  An iterator over a list of levels searches deeper than asked.  The levels of the
  prefix are joined twice, because the first resolution has changed the list: with the default of two, the request names the first three levels as
  one.  That is the key of members registered with three prefix levels, such as capabilities and replicas, and it is
  not the key a plain search for the same list would use.\<close>
theorem index_iter_joins_twice:
  assumes "st_started s" "3 \<le> length items"
  shows "map pe_op (st_pending (snd (get_index_iter (\<lambda>_. True) (IList items) inc 2 s)))
      = map pe_op (st_pending s) @ [OpGetIndex (root_levels 3 items)]
    \<and> map pe_op (st_pending (snd (add_index (\<lambda>_. True) (IList items) v 3 cb s)))
      = map pe_op (st_pending s) @ [OpAddIndex (root_levels 3 items) (value_set v)]
    \<and> map pe_op (st_pending (snd (get_index (\<lambda>_. True) (IList items) 2 cb s)))
      = map pe_op (st_pending s) @ [OpGetIndex (root_levels 2 items)]
    \<and> root_levels 2 items \<noteq> root_levels 3 items"
proof (intro conjI)
  obtain a b c rest where i: "items = a # b # c # rest"
    using assms(2) by (cases items; cases "tl items"; cases "tl (tl items)") auto
  show "map pe_op (st_pending (snd (get_index_iter (\<lambda>_. True) (IList items) inc 2 s)))
      = map pe_op (st_pending s) @ [OpGetIndex (root_levels 3 items)]"
    using assms(1) by (simp add: i get_index_iter_def get_index_def index_strings_def root_levels_def new_iter_def
        submit_def and_then_def Let_def numeral_3_eq_3 numeral_2_eq_2)
  show "map pe_op (st_pending (snd (add_index (\<lambda>_. True) (IList items) v 3 cb s)))
      = map pe_op (st_pending s) @ [OpAddIndex (root_levels 3 items) (value_set v)]"
    using assms(1) by (simp add: add_index_def index_strings_def submit_def Let_def plan_frame)
  show "map pe_op (st_pending (snd (get_index (\<lambda>_. True) (IList items) 2 cb s)))
      = map pe_op (st_pending s) @ [OpGetIndex (root_levels 2 items)]"
    using assms(1) by (simp add: get_index_def index_strings_def submit_def Let_def)
  have "length (root_levels 2 items) \<noteq> length (root_levels 3 items)" by (simp add: i root_levels_def)
  then show "root_levels 2 items \<noteq> root_levels 3 items" by auto
qed

text \<open>A value that is set is what a get returns until the registry has answered.\<close>

lemma get_after_set:
  "st_calls (snd (storage_get acc' pre key (Some (UserC c)) (snd (storage_set acc pre key v None s))))
    = st_calls s @ [Delayed c (Some key) (AValue v)]"
  by (simp add: storage_get_def storage_set_def delayed_call_def Let_def snd_submit)
section \<open>Runs that lose updates\<close>

lemma trace_check:
  assumes "case run_events run evs c of None \<Rightarrow> False | Some (tr, s, r) \<Rightarrow> P tr s r"
  shows "\<exists>tr s r. storage_trace run c tr (s, r) \<and> P tr s r"
  using assms by (auto split: option.splits dest: run_events_trace)

lemma take_pending_last: "st_pending s = ps @ [p] \<Longrightarrow> n = length ps \<Longrightarrow> st_pending (take_pending n s) = ps"
  by (simp add: take_pending_def)

text \<open>
  C37: A flush in flight can swallow a member.  Let the storage be started, an update of the levels
  \<open>k\<close> by a flush be in flight (request \<open>i\<close>, referring to the live entry of \<open>k\<close>), and add a
  member \<open>x\<close> under \<open>k\<close>.  The successful answer to the flush takes off everything the
  entry holds by then, although the flush sent only \<open>vs\<close>: when the request of \<open>x\<close> is
  then lost, \<open>x\<close> is not planned any more and the registry has only carried out the flush.\<close>
theorem flush_aliasing_loses_member:
  assumes s: "st_started s" "dict_ok (st_sets s)" "dget (st_sets s) (KeyT k) = Some e"
    and i: "i < length (st_pending s)" "st_pending s ! i = \<lparr>pe_op = OpAddIndex k vs, pe_cont = AddIndexCont (Live (en_id e)) None k True\<rparr>"
    and k: "fst (index_strings ix level) = k"
    and r: "answer_true (fst (run (OpAddIndex k vs) r))"
  shows "\<exists>tr s'. run_events run [EUser (\<lambda>_. True) (UAddIndex ix (One x) level cb), EReply i, ELost (length (st_pending s) - 1)] (s, r)
      = Some (tr, s', snd (run (OpAddIndex k vs) r)) \<and> local_plus (KeyT k) s' = {}
    \<and> st_pending s' = take i (st_pending s) @ drop (Suc i) (st_pending s)"
proof -
  let ?own = "\<lparr>pe_op = OpAddIndex k {x}, pe_cont = AddIndexCont (Given {x}) cb k False\<rparr>"
  let ?rest = "take i (st_pending s) @ drop (Suc i) (st_pending s)"
  define s1 where "s1 = user_step (\<lambda>_. True) (UAddIndex ix (One x) level cb) s"
  define s2 where "s2 = reply_to (st_pending s1 ! i) (fst (run (OpAddIndex k vs) r)) (take_pending i s1)"
  define s3 where "s3 = reply_to (st_pending s2 ! (length (st_pending s) - 1)) response_failed (take_pending (length (st_pending s) - 1) s2)"
  have s1: "st_pending s1 = st_pending s @ [?own]"
      "dget (st_sets s1) (KeyT k) = Some (e\<lparr>en_plus := en_plus e \<union> {x}, en_minus := en_minus e - {x}\<rparr>)"
    using s k by (simp_all add: s1_def add_index_def Let_def snd_submit plan_frame) (simp add: plan_add_def)
  have n: "st_pending s1 ! i = st_pending s ! i" using s1 i by (simp add: nth_append)
  have s2: "local_plus (KeyT k) s2 = {}" "st_pending s2 = ?rest @ [?own]"
    using s1(2) i r unfolding s2_def n
    by (simp_all add: s1(1) reply_to_def add_index_cb_def Let_def local_plus_def put_or_drop_at)
       (simp_all add: put_or_drop_def take_pending_def s1(1))
  have l: "length ?rest = length (st_pending s) - 1" using i by simp
  have own: "st_pending s2 ! (length (st_pending s) - 1) = ?own"
    unfolding s2(2) using l by (metis nth_append_length)
  have s3: "local_plus (KeyT k) s3 = {}" "st_pending s3 = ?rest"
    using s2(1) take_pending_last[OF s2(2) l[symmetric]] unfolding s3_def own
    by (simp_all add: reply_to_def add_index_cb_def local_plus_def)
  have e1: "event_step run (EUser (\<lambda>_. True) (UAddIndex ix (One x) level cb)) (s, r) = Some (s1, r)"
    by (simp only: event_step.simps s1_def)
  have op: "i < length (st_pending s1)" "pe_op (st_pending s1 ! i) = OpAddIndex k vs" using i n s1 by simp_all
  then have e2: "event_step run (EReply i) (s1, r) = Some (s2, snd (run (OpAddIndex k vs) r))"
    unfolding event_step.simps s2_def by (simp add: Let_def split_beta)
  have "length (st_pending s) - 1 < length (st_pending s2)" using s2(2) l by simp
  then have e3: "event_step run (ELost (length (st_pending s) - 1)) (s2, snd (run (OpAddIndex k vs) r))
      = Some (s3, snd (run (OpAddIndex k vs) r))"
    unfolding event_step.simps s3_def by simp
  show ?thesis using s3 by (simp only: run_events.simps e1 e2 e3 option.case prod.case) simp
qed

definition append_events :: "event list" where
  "append_events =
     [EUser (\<lambda>_. True) (UStarted response_ok None),
      EUser (\<lambda>_. True) (UAppend ''p-'' ''k'' {''a''} None), EUser (\<lambda>_. True) (UAppend ''p-'' ''k'' {''b''} None),
      EReply 0, ELost 0]"

text \<open>
  A confirmed append can swallow a later one.  Two appends to the same key are in flight; the
  confirmation of the first drops the whole local entry, the second is lost, and its member is neither planned nor
  in the registry.\<close>
theorem append_confirmation_loses_member:
  "\<exists>tr s r. storage_trace sl_run (storage_init ''dht'', sl_init) tr (s, r)
    \<and> st_sets s = [] \<and> st_pending s = [] \<and> st_flush_delayed s = None
    \<and> dget (sl_data r) (KeyS ''p-k'') = Some (Members {''a''})"
  by (rule trace_check[where evs = append_events]) code_simp

definition stale_events :: "event list" where
  "stale_events =
     [EUser (\<lambda>_. True) (UStarted response_ok None),
      EUser (\<lambda>_. True) (USet ''p-'' ''k'' (PInt 1) (Some (UserC ''c1''))),
      EUser (\<lambda>_. True) (USet ''p-'' ''k'' (PInt 2) (Some (UserC ''c2''))),
      EReply 1, ELost 0, EFlush (\<lambda>_. True), EReply 0]"

text \<open>
  The failure of an old value can undo a new one.  A value is set and then set again; the second is confirmed, the first is reported as failed and is
  kept for the next flush, which overwrites the registry with the old value.  Nothing is left to correct it, and
  the callbacks got the key with its prefix.\<close>
theorem stale_failure_overwrites:
  "\<exists>tr s r. storage_trace sl_run (storage_init ''dht'', sl_init) tr (s, r)
    \<and> dget (sl_data r) (KeyS ''p-k'') = Some (Single (PInt 1)) \<and> st_localstore s = [] \<and> st_pending s = []
    \<and> st_calls s = [Called ''c2'' (Some ''p-k'') response_ok, Called ''c1'' (Some ''p-k'') response_failed]"
  by (rule trace_check[where evs = stale_events]) code_simp

section \<open>Witnesses\<close>

definition sample_events :: "event list" where
  "sample_events =
     [EUser (\<lambda>_. True) (UAddIndex (IStr ''/node/attribute/x'') (One ''n1'') 2 None),
      EUser (\<lambda>_. True) (UStarted response_ok None),
      EFlush (\<lambda>_. True), ELost 0,
      EUser (\<lambda>_. True) (USet ''p-'' ''k'' (PInt 1) None), EUnconfirmed 0]"

lemma index_member_never_lost_witness:
  "\<exists>s r. ''n1'' \<in> local_members [''node/attribute''] s \<or> (\<exists>S. fst (sl_run (OpGetIndex [''node/attribute'']) r) = AMembers S \<and> ''n1'' \<in> S)"
proof -
  have "case run_events sl_run sample_events (storage_init ''dht'', sl_init) of None \<Rightarrow> False
      | Some (tr, s, r) \<Rightarrow> list_all (careful ''n1'' [''node/attribute'', ''x'']) tr
          \<and> list_ex (\<lambda>se. adds ''n1'' [''node/attribute'', ''x''] (snd se)) tr" by code_simp
  from trace_check[OF this] obtain tr s r where t: "storage_trace sl_run (storage_init ''dht'', sl_init) tr (s, r)"
      "\<forall>se\<in>set tr. careful ''n1'' [''node/attribute'', ''x''] se" "\<exists>se\<in>set tr. adds ''n1'' [''node/attribute'', ''x''] (snd se)"
    by (auto simp: list_all_iff list_ex_iff)
  have "sl_inv sl_init" by (simp add: sl_inv_def sl_init_def)
  from index_member_never_lost[OF sl.registry_axioms this t, of "[''node/attribute'']"] show ?thesis by auto
qed

definition no_error :: "storage \<times> event \<Rightarrow> bool" where
  "no_error se \<longleftrightarrow>
     (case snd se of EReply i \<Rightarrow> False | ELost i \<Rightarrow> \<not> logs_error (pe_cont (st_pending (fst se) ! i))
      | EUnconfirmed i \<Rightarrow> \<not> logs_error (pe_cont (st_pending (fst se) ! i)) | _ \<Rightarrow> True)"

lemma no_error_raises: "no_error se \<Longrightarrow> \<not> callback_raises run se"
  by (cases se; cases "snd se") (auto simp: no_error_def)

lemma storage_never_stalls_witness:
  "\<exists>s. planned s \<and> (st_flush_delayed s \<noteq> None \<or> update_in_flight s)"
proof -
  have "case run_events sl_run sample_events (storage_init ''dht'', sl_init) of None \<Rightarrow> False
      | Some (tr, s, r) \<Rightarrow> st_started s \<and> st_localstore s \<noteq> [] \<and> list_all no_error tr" by code_simp
  then obtain tr s r where e: "run_events sl_run sample_events (storage_init ''dht'', sl_init) = Some (tr, s, r)"
      "st_started s" "planned s" "\<forall>se\<in>set tr. no_error se"
    by (auto simp: planned_def list_all_iff split: option.splits)
  have "map snd tr = sample_events" using e(1) run_events_events by blast
  then have "\<forall>ev\<in>set (map snd tr). accepting ev" by (simp add: sample_events_def)
  then have "\<forall>se\<in>set tr. accepting (snd se)" by simp
  from storage_never_stalls[OF run_events_trace[OF e(1)] this e(2,3)] e(3,4) no_error_raises[of _ sl_run]
  show ?thesis by auto
qed

lemma flush_aliasing_loses_member_witness:
  "\<exists>tr s s' r'. planned s \<and> run_events sl_run [EUser (\<lambda>_. True) (UAddIndex (IList [''node'', ''attribute'', ''x'']) (One ''n2'') 2 None),
      EReply 0, ELost 0] (s, sl_init) = Some (tr, s', r') \<and> local_plus (KeyT [''node/attribute'', ''x'']) s' = {} \<and> st_pending s' = []"
proof -
  let ?k = "[''node/attribute'', ''x'']"
  have "case run_events sl_run (take 3 sample_events) (storage_init ''dht'', sl_init) of None \<Rightarrow> False
      | Some (tr, s, r) \<Rightarrow> st_started s \<and> length (st_sets s) = 1 \<and> fst (hd (st_sets s)) = KeyT ?k
          \<and> en_plus (snd (hd (st_sets s))) = {''n1''}
          \<and> st_pending s = [\<lparr>pe_op = OpAddIndex ?k {''n1''}, pe_cont = AddIndexCont (Live (en_id (snd (hd (st_sets s))))) None ?k True\<rparr>]"
    by code_simp
  from trace_check[OF this] obtain s :: storage where s: "st_started s" "length (st_sets s) = 1" "fst (hd (st_sets s)) = KeyT ?k"
      "en_plus (snd (hd (st_sets s))) = {''n1''}"
      "st_pending s = [\<lparr>pe_op = OpAddIndex ?k {''n1''}, pe_cont = AddIndexCont (Live (en_id (snd (hd (st_sets s))))) None ?k True\<rparr>]"
    by (elim exE conjE) (rule that; assumption)
  define e where "e = snd (hd (st_sets s))"
  obtain kv where kv: "st_sets s = [kv]" using s(2) by (metis One_nat_def length_0_conv length_Suc_conv)
  have sets: "st_sets s = [(KeyT ?k, e)]" "en_plus e = {''n1''}" "dict_ok (st_sets s)" "dget (st_sets s) (KeyT ?k) = Some e"
    using s(3,4) by (simp_all only: kv e_def list.sel) (cases kv, simp)+
  have pending: "0 < length (st_pending s)" "st_pending s ! 0 = \<lparr>pe_op = OpAddIndex ?k {''n1''}, pe_cont = AddIndexCont (Live (en_id e)) None ?k True\<rparr>"
    using s(5) by (simp_all add: e_def)
  have k: "fst (index_strings (IList [''node'', ''attribute'', ''x'']) 2) = ?k" by code_simp
  have a: "answer_true (fst (sl_run (OpAddIndex ?k {''n1''}) sl_init))" by code_simp
  have "planned s" using sets by (simp add: planned_def)
  moreover have n: "length (st_pending s) - 1 = 0" "take 0 (st_pending s) @ drop (Suc 0) (st_pending s) = []"
    using s(5) by simp_all
  moreover from flush_aliasing_loses_member[where run = sl_run and r = sl_init and cb = None and x = "''n2''",
      OF s(1) sets(3,4) pending k a, unfolded n] obtain tr s' where
    "run_events sl_run [EUser (\<lambda>_. True) (UAddIndex (IList [''node'', ''attribute'', ''x'']) (One ''n2'') 2 None),
      EReply 0, ELost 0] (s, sl_init) = Some (tr, s', snd (sl_run (OpAddIndex ?k {''n1''}) sl_init))"
    "local_plus (KeyT ?k) s' = {}" "st_pending s' = []" by (elim exE conjE)
  ultimately show ?thesis by blast
qed

lemma flush_interval_bounded_witness: "\<exists>n\<le>12. st_flush_timeout (storage_init ''dht'') = 2 ^ n"
  using flush_interval_bounded[OF trace_start[of sl_run "(storage_init ''dht'', sl_init)"]] by simp

lemma index_iter_joins_twice_witness:
  "map pe_op (st_pending (snd (get_index_iter (\<lambda>_. True) (IList [''node'', ''capabilities'', ''io'']) False 2
      (started_cb response_ok None (storage_init ''dht''))))) = [OpGetIndex [''node/capabilities/io'']]"
  using index_iter_joins_twice[of "started_cb response_ok None (storage_init ''dht'')" "[''node'', ''capabilities'', ''io'']" False "One ''n''" None]
  by (simp add: started_cb_def storage_init_def trigger_flush_def delayed_call_def root_levels_def)

end
