(* ===== verification/Storage_Objects.thy ===== *)
theory Storage_Objects
  imports Storage_Properties
begin

text \<open>
  How the objects of a runtime are kept in the registry (storage.py, \<open>Calvin object handling\<close>): nodes
  with their indices, applications, actors, ports and replicas.  Objects are their stored
  values; the security configuration and the installed capabilities are parameters.
\<close>

section \<open>Sequences of storage calls\<close>

type_synonym accepts = "storage_op \<Rightarrow> bool"

fun each :: "('a \<Rightarrow> storage \<Rightarrow> (unit, storage) out) \<Rightarrow> 'a list \<Rightarrow> storage \<Rightarrow> (unit, storage) out" where
  "each f [] s = (Inr (), s)"
| "each f (x # xs) s = and_then (f x s) (\<lambda>_ s1. each f xs s1)"

text \<open>\<open>try: ... except: pass\<close>.\<close>

definition ignoring :: "(unit, storage) out \<Rightarrow> (unit, storage) out" where
  "ignoring r = (Inr (), snd r)"

section \<open>Nodes\<close>

text \<open>\<open>accept_external_requests\<close> and \<open>procedure\<close> of the authentication or authorization configuration.\<close>

record server_conf =
  sv_external :: bool
  sv_procedure :: "string option"

record node_info =
  nd_id :: string
  nd_uris :: "pyval"
  nd_control_uri :: pyval
  nd_attributes :: node_attributes
  nd_capabilities :: "string list"
  nd_port_capabilities :: "string list"
  nd_super_class :: "nat option"
  nd_authentication :: "server_conf option"
  nd_authorization :: "server_conf option"
  nd_certificate :: "string option"

text \<open>The classes are digits; class 1 is given to nodes with a proxy storage.\<close>

definition super_index :: "nat \<Rightarrow> index" where
  "super_index c = IList (''supernode'' # map (\<lambda>i. [char_of (48 + i)]) [0..<c + 1])"

definition add_super_node :: "accepts \<Rightarrow> bool \<Rightarrow> node_info \<Rightarrow> storage \<Rightarrow> (node_info, storage) out" where
  "add_super_node acc proxy n s =
     (let c = (if proxy then 1 else 0)
      in and_then (add_index acc (super_index c) (One (nd_id n)) 1 None s) (\<lambda>_ s1. (Inr (n\<lparr>nd_super_class := Some c\<rparr>), s1)))"

definition remove_super_node :: "accepts \<Rightarrow> node_info \<Rightarrow> storage \<Rightarrow> (unit, storage) out" where
  "remove_super_node acc n s =
     (case nd_super_class n of
        None \<Rightarrow> (Inr (), s) | Some c \<Rightarrow> remove_index acc (super_index c) (One (nd_id n)) 1 None s)"

definition get_super_node :: "accepts \<Rightarrow> nat \<Rightarrow> callback option \<Rightarrow> storage \<Rightarrow> (unit, storage) out" where
  "get_super_node acc c cb s = get_index acc (super_index c) 1 cb s"

definition capability_index :: "string \<Rightarrow> index" where
  "capability_index c = IList [''node'', ''capabilities'', c]"

definition add_capabilities :: "accepts \<Rightarrow> string \<Rightarrow> string list \<Rightarrow> storage \<Rightarrow> (unit, storage) out" where
  "add_capabilities acc nid cs s = ignoring (each (\<lambda>c. add_index acc (capability_index c) (One nid) 3 None) cs s)"

text \<open>The index strings are computed outside the try block: their failure is the caller's.\<close>

definition add_node_index :: "accepts \<Rightarrow> node_info \<Rightarrow> storage \<Rightarrow> (unit, storage) out" where
  "add_node_index acc n s =
     (case get_indexed_public (nd_attributes n) of
        Inl e \<Rightarrow> (Inl e, s)
      | Inr indexes \<Rightarrow>
          and_then (ignoring (each (\<lambda>ix. add_index acc (IStr ix) (One (nd_id n)) 2 None) indexes s))
            (\<lambda>_ s1. and_then (add_capabilities acc (nd_id n) (nd_capabilities n) s1)
              (\<lambda>_ s2. add_capabilities acc (nd_id n) (nd_port_capabilities n) s2)))"

definition remove_node_index :: "accepts \<Rightarrow> node_info \<Rightarrow> storage \<Rightarrow> (unit, storage) out" where
  "remove_node_index acc n s =
     (case get_indexed_public (nd_attributes n) of
        Inl e \<Rightarrow> (Inl e, s)
      | Inr indexes \<Rightarrow> ignoring (each (\<lambda>ix. remove_index acc (IStr ix) (One (nd_id n)) 2 None) indexes s))"

definition add_authentication :: "accepts \<Rightarrow> node_info \<Rightarrow> callback option \<Rightarrow> storage \<Rightarrow> (unit, storage) out" where
  "add_authentication acc n cb s =
     (case nd_authentication n of
        Some c \<Rightarrow>
          if sv_external c
          then and_then (add_index acc (IList [''external_authentication_server'']) (One (nd_id n)) 1 cb s)
                 (\<lambda>_ s1. add_index acc (IList [''authentication_server'']) (One (nd_id n)) 1 cb s1)
          else (Inr (), s)
      | None \<Rightarrow> (Inr (), s))"

definition add_authorization :: "accepts \<Rightarrow> node_info \<Rightarrow> callback option \<Rightarrow> storage \<Rightarrow> (unit, storage) out" where
  "add_authorization acc n cb s =
     (case nd_authorization n of
        Some c \<Rightarrow>
          if sv_external c
          then and_then (add_index acc (IList [''external_authorization_server'']) (One (nd_id n)) 1 cb s)
                 (\<lambda>_ s1. add_index acc (IList [''authorization_server'']) (One (nd_id n)) 1 cb s1)
          else if sv_procedure c = Some ''local''
          then add_index acc (IList [''authorization_server'']) (One (nd_id n)) 1 cb s
          else (Inr (), s)
      | None \<Rightarrow> (Inr (), s))"

text \<open>\<open>add_node\<close>; \<open>export\<close> is the actor store's, which writes through the storage as well.\<close>

definition add_node ::
    "accepts \<Rightarrow> bool \<Rightarrow> (storage \<Rightarrow> (unit, storage) out) \<Rightarrow> node_info \<Rightarrow> callback option \<Rightarrow> storage \<Rightarrow> (node_info, storage) out" where
  "add_node acc proxy export n cb s =
     (case get_indexed_public (nd_attributes n) of
        Inl e \<Rightarrow> (Inl e, s)
      | Inr indexes \<Rightarrow>
          (let value = PDict [(PStr ''uris'', nd_uris n), (PStr ''control_uris'', PList [nd_control_uri n]),
                 (PStr ''attributes'', PDict [(PStr ''public'', na_public (nd_attributes n)),
                    (PStr ''indexed_public'', PList (map PStr indexes))])]
           in and_then (storage_set acc ''node-'' (nd_id n) value cb s)
                (\<lambda>_ s1. and_then (add_super_node acc proxy n s1)
                  (\<lambda>n' s2. and_then (add_node_index acc n' s2)
                    (\<lambda>_ s3. and_then (export s3)
                      (\<lambda>_ s4. and_then (add_authentication acc n' cb s4)
                        (\<lambda>_ s5. and_then (add_authorization acc n' cb s5)
                          (\<lambda>_ s6. (case nd_certificate n' of
                                     None \<Rightarrow> (Inr n', s6)
                                   | Some c \<Rightarrow> and_then (add_index acc (IList [''certificate'', nd_id n']) (One c) 2 cb s6)
                                       (\<lambda>_ s7. (Inr n', s7)))))))))))"

definition get_node :: "accepts \<Rightarrow> string \<Rightarrow> callback option \<Rightarrow> storage \<Rightarrow> (unit, storage) out" where
  "get_node acc nid cb s = storage_get acc ''node-'' nid cb s"

text \<open>
  \<open>_delete_node_index\<close> counts the confirmations; the callback that is called when all have come, or
  after a second, is the argument \<open>counting\<close> here.
\<close>

definition delete_node_index :: "accepts \<Rightarrow> node_info \<Rightarrow> string list \<Rightarrow> callback option \<Rightarrow> storage \<Rightarrow> (unit, storage) out" where
  "delete_node_index acc n indexes counting s =
     ignoring (each (\<lambda>ix. remove_index acc (IStr ix) (One (nd_id n)) 2 counting) indexes s)"

text \<open>For an authorization server the last call adds the node again.\<close>

definition delete_authorization :: "accepts \<Rightarrow> node_info \<Rightarrow> callback option \<Rightarrow> storage \<Rightarrow> (unit, storage) out" where
  "delete_authorization acc n cb s =
     (case nd_authorization n of
        Some c \<Rightarrow>
          if sv_external c
          then and_then (remove_index acc (IList [''external_authorization_server'', ''nodes'']) (One (nd_id n)) 2 cb s)
                 (\<lambda>_ s1. add_index acc (IList [''authorization_server'']) (One (nd_id n)) 1 cb s1)
          else if sv_procedure c = Some ''local''
          then remove_index acc (IList [''authorization_server'']) (One (nd_id n)) 1 cb s
          else (Inr (), s)
      | None \<Rightarrow> (Inr (), s))"

definition delete_node ::
    "accepts \<Rightarrow> node_info \<Rightarrow> callback option \<Rightarrow> callback option \<Rightarrow> storage \<Rightarrow> (unit, storage) out" where
  "delete_node acc n cb counting s =
     (case get_indexed_public (nd_attributes n) of
        Inl e \<Rightarrow> (Inl e, s)
      | Inr indexes \<Rightarrow>
          and_then (storage_delete acc ''node-'' (nd_id n) (if indexes = [] then cb else None) s)
            (\<lambda>_ s1. and_then (remove_super_node acc n s1)
              (\<lambda>_ s2. and_then (if indexes = [] then (Inr (), s2) else delete_node_index acc n indexes counting s2)
                (\<lambda>_ s3. delete_authorization acc n cb s3))))"

section \<open>Applications, actors and ports\<close>

record app_info =
  ap_id :: string
  ap_name :: string
  ap_ns :: pyval
  ap_actors :: "(pyval \<times> pyval) list"
  ap_origin_node :: string

definition add_application :: "accepts \<Rightarrow> app_info \<Rightarrow> callback option \<Rightarrow> storage \<Rightarrow> (unit, storage) out" where
  "add_application acc a cb s =
     storage_set acc ''application-'' (ap_id a)
       (PDict [(PStr ''name'', PStr (ap_name a)), (PStr ''ns'', ap_ns a), (PStr ''actors'', PList (map fst (ap_actors a))),
          (PStr ''actors_name_map'', PDict (ap_actors a)), (PStr ''origin_node_id'', PStr (ap_origin_node a))]) cb s"

definition get_application :: "accepts \<Rightarrow> string \<Rightarrow> callback option \<Rightarrow> storage \<Rightarrow> (unit, storage) out" where
  "get_application acc i cb s = storage_get acc ''application-'' i cb s"

definition delete_application :: "accepts \<Rightarrow> string \<Rightarrow> callback option \<Rightarrow> storage \<Rightarrow> (unit, storage) out" where
  "delete_application acc i cb s = storage_delete acc ''application-'' i cb s"

record port_info =
  pi_id :: string
  pi_name :: string
  pi_connected :: bool
  pi_properties :: pyval
  pi_peers :: "(string \<times> string) list"

definition add_port ::
    "accepts \<Rightarrow> port_info \<Rightarrow> string \<Rightarrow> string \<Rightarrow> string list option \<Rightarrow> callback option \<Rightarrow> storage \<Rightarrow> (unit, storage) out" where
  "add_port acc p node_id actor_id exhausting cb s =
     (let data = [(PStr ''name'', PStr (pi_name p)), (PStr ''connected'', PBool (pi_connected p)),
            (PStr ''node_id'', PStr node_id), (PStr ''actor_id'', PStr actor_id), (PStr ''properties'', pi_properties p)];
          ex = opt_default [] exhausting;
          peers = [(PStr ''peers'', PList (map (\<lambda>(n, q). PList [PStr n, PStr q]) (filter (\<lambda>(n, q). q \<notin> set ex) (pi_peers p))))]
      in storage_set acc ''port-'' (pi_id p) (PDict (if pi_connected p then data @ peers else data)) cb s)"

definition get_port :: "accepts \<Rightarrow> string \<Rightarrow> callback option \<Rightarrow> storage \<Rightarrow> (unit, storage) out" where
  "get_port acc i cb s = storage_get acc ''port-'' i cb s"

definition delete_port :: "accepts \<Rightarrow> string \<Rightarrow> callback option \<Rightarrow> storage \<Rightarrow> (unit, storage) out" where
  "delete_port acc i cb s = storage_delete acc ''port-'' i cb s"

record actor_info =
  ai_id :: string
  ai_name :: string
  ai_type :: string
  ai_inports :: "port_info list"
  ai_outports :: "port_info list"
  ai_shadow :: bool
  ai_replication :: "(string \<times> string \<times> int) option"

definition port_summary :: "port_info \<Rightarrow> pyval" where
  "port_summary p = PDict [(PStr ''id'', PStr (pi_id p)), (PStr ''name'', PStr (pi_name p))]"

definition actor_value :: "actor_info \<Rightarrow> string \<Rightarrow> pyval" where
  "actor_value a node_id =
     PDict ([(PStr ''name'', PStr (ai_name a)), (PStr ''type'', PStr (ai_type a)), (PStr ''node_id'', PStr node_id),
         (PStr ''inports'', PList (map port_summary (ai_inports a))),
         (PStr ''outports'', PList (map port_summary (ai_outports a))), (PStr ''is_shadow'', PBool (ai_shadow a))]
       @ (case ai_replication a of
            None \<Rightarrow> []
          | Some (rid, master, ix) \<Rightarrow> [(PStr ''replication_id'', PStr rid), (PStr ''replication_master_id'', PStr master),
              (PStr ''replication_index'', PInt ix)]))"

text \<open>The ports are stored first, inports before outports, then the actor.\<close>

definition add_actor :: "accepts \<Rightarrow> actor_info \<Rightarrow> string \<Rightarrow> callback option \<Rightarrow> storage \<Rightarrow> (unit, storage) out" where
  "add_actor acc a node_id cb s =
     and_then (each (\<lambda>p. add_port acc p node_id (ai_id a) None None) (ai_inports a) s)
       (\<lambda>_ s1. and_then (each (\<lambda>p. add_port acc p node_id (ai_id a) None None) (ai_outports a) s1)
         (\<lambda>_ s2. storage_set acc ''actor-'' (ai_id a) (actor_value a node_id) cb s2))"

definition get_actor :: "accepts \<Rightarrow> string \<Rightarrow> callback option \<Rightarrow> storage \<Rightarrow> (unit, storage) out" where
  "get_actor acc i cb s = storage_get acc ''actor-'' i cb s"

definition add_actor_requirements :: "accepts \<Rightarrow> string \<Rightarrow> pyval \<Rightarrow> callback option \<Rightarrow> storage \<Rightarrow> (unit, storage) out" where
  "add_actor_requirements acc i reqs cb s = storage_set acc ''actorreq-'' i reqs cb s"

definition get_actor_requirements :: "accepts \<Rightarrow> string \<Rightarrow> callback option \<Rightarrow> storage \<Rightarrow> (unit, storage) out" where
  "get_actor_requirements acc i cb s = storage_get acc ''actorreq-'' i cb s"

definition delete_actor_requirements :: "accepts \<Rightarrow> string \<Rightarrow> callback option \<Rightarrow> storage \<Rightarrow> (unit, storage) out" where
  "delete_actor_requirements acc i cb s = storage_delete acc ''actorreq-'' i cb s"

section \<open>Replicas\<close>

definition replica_index :: "string \<Rightarrow> string \<Rightarrow> index" where
  "replica_index kind rid = IList [''replicas'', kind, rid]"

definition add_replica ::
    "accepts \<Rightarrow> string \<Rightarrow> string \<Rightarrow> string \<Rightarrow> string option \<Rightarrow> callback option \<Rightarrow> storage \<Rightarrow> (unit, storage) out" where
  "add_replica acc own_id rid actor_id node_id cb s =
     and_then (add_index acc (replica_index ''actors'' rid) (One actor_id) 3 cb s)
       (\<lambda>_ s1. add_index acc (replica_index ''nodes'' rid) (One (opt_default own_id node_id)) 3 cb s1)"

definition remove_replica :: "accepts \<Rightarrow> string \<Rightarrow> string \<Rightarrow> callback option \<Rightarrow> storage \<Rightarrow> (unit, storage) out" where
  "remove_replica acc rid actor_id cb s = remove_index acc (replica_index ''actors'' rid) (One actor_id) 3 cb s"

text \<open>
  The node is removed when no other replica is left on it: the replicas of the replication
  manager without this one and the original actor.  A failing removal from the list leaves the rest.
\<close>

definition other_replicas :: "string list \<Rightarrow> string \<Rightarrow> string option \<Rightarrow> string list" where
  "other_replicas replicas actor_id original =
     (if actor_id \<in> set replicas
      then (let rest = remove1 actor_id replicas
            in case original of None \<Rightarrow> rest | Some og \<Rightarrow> if og \<in> set rest then remove1 og rest else rest)
      else replicas)"

definition remove_replica_node ::
    "accepts \<Rightarrow> string \<Rightarrow> string option \<Rightarrow> string list \<Rightarrow> string \<Rightarrow> string option \<Rightarrow> callback option \<Rightarrow> storage \<Rightarrow> (unit, storage) out" where
  "remove_replica_node acc own_id rid replicas actor_id original cb s =
     (case rid of
        None \<Rightarrow> (Inr (), s)
      | Some r \<Rightarrow>
          if other_replicas replicas actor_id original = []
          then remove_index acc (replica_index ''nodes'' r) (One own_id) 3 cb s else (Inr (), s))"

definition remove_replica_node_force :: "accepts \<Rightarrow> string option \<Rightarrow> string \<Rightarrow> callback option \<Rightarrow> storage \<Rightarrow> (unit, storage) out" where
  "remove_replica_node_force acc rid node_id cb s =
     (case rid of None \<Rightarrow> (Inr (), s) | Some r \<Rightarrow> remove_index acc (replica_index ''nodes'' r) (One node_id) 3 cb s)"

definition get_replica :: "accepts \<Rightarrow> string \<Rightarrow> callback option \<Rightarrow> storage \<Rightarrow> (unit, storage) out" where
  "get_replica acc rid cb s = get_index acc (replica_index ''actors'' rid) 3 cb s"

definition get_replica_nodes :: "accepts \<Rightarrow> string \<Rightarrow> callback option \<Rightarrow> storage \<Rightarrow> (unit, storage) out" where
  "get_replica_nodes acc rid cb s = get_index acc (replica_index ''nodes'' rid) 3 cb s"

text \<open>
  \<open>delete_actor\<close>: \<open>replica\<close> is the replication id, the original actor and the replicas here, as far as
  the actor is known to the actor manager.
\<close>

definition delete_actor ::
    "accepts \<Rightarrow> string \<Rightarrow> string \<Rightarrow> (string option \<times> string \<times> string list) option \<Rightarrow> callback option \<Rightarrow> storage \<Rightarrow> (unit, storage) out" where
  "delete_actor acc own_id actor_id replica cb s =
     and_then (storage_delete acc ''actor-'' actor_id cb s)
       (\<lambda>_ s1. and_then (delete_actor_requirements acc actor_id None s1)
         (\<lambda>_ s2. (case replica of
                    Some (Some rid, original, replicas) \<Rightarrow>
                      if original = actor_id then (Inr (), s2)
                      else ignoring (and_then (remove_replica acc rid actor_id None s2)
                             (\<lambda>_ s3. remove_replica_node acc own_id (Some rid) replicas actor_id (Some original) None s3))
                  | _ \<Rightarrow> (Inr (), s2))))"
definition set_replication_data :: "accepts \<Rightarrow> string \<Rightarrow> (pyval \<times> pyval) list \<Rightarrow> callback option \<Rightarrow> storage \<Rightarrow> (unit, storage) out" where
  "set_replication_data acc rid state cb s =
     storage_set acc ''replicationdata-'' rid (PDict (filter (\<lambda>(k, v). k \<noteq> PStr ''instances'') state)) cb s"

definition delete_replication_data :: "accepts \<Rightarrow> string \<Rightarrow> callback option \<Rightarrow> storage \<Rightarrow> (unit, storage) out" where
  "delete_replication_data acc rid cb s = storage_delete acc ''replicationdata-'' rid cb s"

definition get_replication_data :: "accepts \<Rightarrow> string \<Rightarrow> callback option \<Rightarrow> storage \<Rightarrow> (unit, storage) out" where
  "get_replication_data acc rid cb s = storage_get acc ''replicationdata-'' rid cb s"

section \<open>What is found again\<close>

lemma each_total: "(\<And>x s. fst (f x s) = Inr ()) \<Longrightarrow> fst (each f xs s) = Inr ()"
proof (induction xs arbitrary: s)
  case (Cons x xs)
  then have "\<exists>u. fst (f x s) = Inr u" by auto
  then show ?case using Cons by (auto simp: and_then_def split: prod.splits sum.splits) (metis fst_conv sum.simps(4))
qed simp

lemma accepted_total:
  "fst (add_index (\<lambda>_. True) ix v level cb s) = Inr ()" "fst (remove_index (\<lambda>_. True) ix v level cb s) = Inr ()"
  "fst (storage_delete (\<lambda>_. True) pre key cb s) = Inr ()" "fst (storage_set (\<lambda>_. True) pre key w cb s) = Inr ()"
  "fst (remove_super_node (\<lambda>_. True) n s) = Inr ()" "fst (delete_node_index (\<lambda>_. True) n ixs cb s) = Inr ()"
  by (simp_all add: add_index_def remove_index_def storage_delete_def storage_set_def submit_def Let_def
      remove_super_node_def delete_node_index_def ignoring_def split: option.splits)

lemma add_index_plans: "value_set v \<subseteq> local_plus (KeyT (fst (index_strings ix level))) (snd (add_index acc ix v level cb s))"
  by (auto simp: add_index_def Let_def local_plus_plan_add)

lemma local_plus_found: "x \<in> local_plus (KeyT k) s \<Longrightarrow> prefix ix k \<Longrightarrow> x \<in> local_members ix s"
  by (auto simp: local_plus_def local_members_def level_match_prefix split: option.splits dest!: map_of_SomeD) force

lemma local_plus_found_at: "x \<in> local_plus (KeyT k) s \<Longrightarrow> x \<in> local_members k s"
  by (rule local_plus_found) auto

lemma add_index_found:
  "x \<in> value_set v \<Longrightarrow> x \<in> local_members (fst (index_strings ix level)) (snd (add_index acc ix v level cb s))"
  using add_index_plans by (blast intro: local_plus_found_at)

lemma local_plus_add_other:
  "x \<in> local_plus k s \<Longrightarrow> x \<in> local_plus k (snd (add_index acc ix v level cb s))"
  by (auto simp: add_index_def Let_def local_plus_def plan_add_def split: option.splits)

text \<open>
  A replica is found where it was stored.  After a replica was added, and until its changes are confirmed, the local part of a search
  for the actors of the replication contains the actor, and one for its nodes contains the
  node: the given one, or this runtime.\<close>
theorem replica_found:
  "actor_id \<in> local_members (fst (index_strings (replica_index ''actors'' rid) 3))
      (snd (add_replica (\<lambda>_. True) own_id rid actor_id node_id cb s))
   \<and> opt_default own_id node_id \<in> local_members (fst (index_strings (replica_index ''nodes'' rid) 3))
      (snd (add_replica (\<lambda>_. True) own_id rid actor_id node_id cb s))"
proof -
  let ?s1 = "snd (add_index (\<lambda>_. True) (replica_index ''actors'' rid) (One actor_id) 3 cb s)"
  have eq: "snd (add_replica (\<lambda>_. True) own_id rid actor_id node_id cb s)
      = snd (add_index (\<lambda>_. True) (replica_index ''nodes'' rid) (One (opt_default own_id node_id)) 3 cb ?s1)"
    unfolding add_replica_def by (rule and_then_total) (simp add: accepted_total)
  have "actor_id \<in> local_plus (KeyT (fst (index_strings (replica_index ''actors'' rid) 3))) ?s1"
    using add_index_plans[of "One actor_id"] by auto
  from local_plus_found_at[OF local_plus_add_other[OF this]] show ?thesis
    unfolding eq by (intro conjI add_index_found) auto
qed

text \<open>
  C39: Deleting the node of an authorization server registers it as one.  When a node that accepts external
  authorization requests is deleted, the last storage call adds it to the index of authorization
  servers, so a search for them still finds the node.\<close>
theorem deleted_server_registered:
  assumes "nd_authorization n = Some c" "sv_external c" "get_indexed_public (nd_attributes n) = Inr indexes"
  shows "nd_id n \<in> local_members [''authorization_server''] (snd (delete_node (\<lambda>_. True) n cb counting s))"
proof -
  let ?s1 = "snd (storage_delete (\<lambda>_. True) ''node-'' (nd_id n) (if indexes = [] then cb else None) s)"
  let ?s2 = "snd (remove_super_node (\<lambda>_. True) n ?s1)"
  let ?s3 = "snd (if indexes = [] then (Inr (), ?s2) else delete_node_index (\<lambda>_. True) n indexes counting ?s2)"
  let ?s4 = "snd (remove_index (\<lambda>_. True) (IList [''external_authorization_server'', ''nodes'']) (One (nd_id n)) 2 cb ?s3)"
  have "snd (delete_node (\<lambda>_. True) n cb counting s)
      = snd (add_index (\<lambda>_. True) (IList [''authorization_server'']) (One (nd_id n)) 1 cb ?s4)"
    using assms by (simp add: delete_node_def delete_authorization_def and_then_total accepted_total)
  moreover have "fst (index_strings (IList [''authorization_server'']) 1) = [''authorization_server'']"
    by (simp add: index_strings_def root_levels_def)
  ultimately show ?thesis
    using add_index_found[of "nd_id n" "One (nd_id n)" "IList [''authorization_server'']" 1 "\<lambda>_. True" cb ?s4] by simp
qed

definition sample_node :: node_info where
  "sample_node = \<lparr>nd_id = ''n1'', nd_uris = PList [], nd_control_uri = PNone,
     nd_attributes = \<lparr>na_indexed = [(''owner'', [PStr ''me''])], na_public = PDict [], na_private = PDict []\<rparr>,
     nd_capabilities = [], nd_port_capabilities = [], nd_super_class = Some 0,
     nd_authentication = None, nd_authorization = Some \<lparr>sv_external = True, sv_procedure = None\<rparr>, nd_certificate = None\<rparr>"

lemma deleted_server_registered_witness:
  "''n1'' \<in> local_members [''authorization_server''] (snd (delete_node (\<lambda>_. True) sample_node None None (storage_init ''dht'')))"
proof -
  have "get_indexed_public (nd_attributes sample_node) = Inr [''/node/attribute/owner/me'']" by code_simp
  from deleted_server_registered[OF _ _ this, of "\<lparr>sv_external = True, sv_procedure = None\<rparr>"] show ?thesis
    by (simp add: sample_node_def)
qed

end
