(* ===== verification/Node_Search.thy ===== *)
theory Node_Search
  imports Attribute_Properties Storage_Objects
begin

text \<open>
  Lemmas that connect the index strings of attributes with the levels of the registry: an encoded index is split
  into its escaped words, a prefix of the words is a prefix of the levels, and the node index
  plans the node under every index string.
\<close>

section \<open>Levels of an encoded index\<close>

definition word_path :: "string list \<Rightarrow> string" where
  "word_path ws = concat (map (\<lambda>w. slash # escape_word w) ws)"

definition word_levels :: "string list \<Rightarrow> string list" where
  "word_levels ws = root_levels 2 (map escape_word ws)"

lemma index_strings_path:
  assumes "a \<noteq> []" "hd a \<noteq> slash" "clean_word a" "\<forall>w\<in>set ws. clean_word w"
  shows "fst (index_strings (IStr (word_path (a # ws))) 2) = word_levels (a # ws)"
proof -
  have "escape_word a \<noteq> []" "hd (escape_word a) \<noteq> slash"
    using assms(1) by (cases a; auto split: if_splits)+
  then have "dropWhile (\<lambda>c. c = slash) (escape_word a @ rest) = escape_word a @ rest" for rest
    by (cases "escape_word a") auto
  then have "dropWhile (\<lambda>c. c = slash) (word_path (a # ws)) = Attribute_Properties.join_slash (map escape_word (a # ws))"
    by (simp add: word_path_def o_def)
  with split_encoded[of a ws] assms show ?thesis by (simp add: index_strings_def word_levels_def)
qed

lemma word_levels_prefix: "prefix (word_levels (a # b # us)) (word_levels (a # b # us @ ws))"
  by (auto simp: word_levels_def root_levels_def numeral_2_eq_2)

lemma encode_index_path:
  assumes "\<forall>v\<in>set vs. index_value v"
  shows "encode_index vs = Inr (word_path (''node'' # index_kind vs # map (the \<circ> index_text) vs))"
proof -
  have "escape_word (index_kind vs) = index_kind vs" "escape_word ''node'' = ''node''"
    by (simp_all add: index_kind_def)
  then show ?thesis using encode_index_text[OF assms]
    by (simp add: word_path_def index_root_def o_def)
qed

lemma index_words_values: "index_words vs = Inr ws \<Longrightarrow> \<forall>v\<in>set vs. index_value v"
  by (induction vs arbitrary: ws rule: index_words.induct) (auto simp: index_value_cases split: sum.splits)

lemma encode_index_values: "encode_index vs = Inr s \<Longrightarrow> \<forall>v\<in>set vs. index_value v"
  by (auto simp: encode_index_def encode_index_list_def split: sum.splits if_splits dest: index_words_values)

lemma get_indexed_member:
  "get_indexed d = Inr ss \<Longrightarrow> (ty, vs) \<in> set d \<Longrightarrow> \<exists>s\<in>set ss. encode_index (PStr ty # vs) = Inr s"
  by (induction d arbitrary: ss rule: get_indexed.induct) (auto split: sum.splits)

lemma index_kind_same:
  assumes "ty \<in> set resource_list \<or> (\<forall>r\<in>set resource_list. PStr r \<notin> set vs)" "set us \<subseteq> set vs \<union> {PNone, PStr []}"
  shows "index_kind (PStr ty # us) = index_kind (PStr ty # vs)"
  using assms by (auto simp: index_kind_def resource_list_def)

section \<open>The node index plans the node\<close>

lemma local_plus_each_add:
  assumes "ix \<in> set ixs"
  shows "x \<in> local_plus (KeyT (fst (index_strings (f ix) level)))
     (snd (each (\<lambda>ix. add_index (\<lambda>_. True) (f ix) (One x) level None) ixs s))"
  using assms
proof (induction ixs arbitrary: s)
  case (Cons i ixs)
  let ?s1 = "snd (add_index (\<lambda>_. True) (f i) (One x) level None s)"
  have eq: "snd (each (\<lambda>ix. add_index (\<lambda>_. True) (f ix) (One x) level None) (i # ixs) s)
      = snd (each (\<lambda>ix. add_index (\<lambda>_. True) (f ix) (One x) level None) ixs ?s1)"
    by (simp add: and_then_total accepted_total)
  have keep: "y \<in> local_plus k s \<Longrightarrow> y \<in> local_plus k (snd (each (\<lambda>ix. add_index (\<lambda>_. True) (f ix) (One x) level None) js s))"
    for y k s js
    by (induction js arbitrary: s) (simp_all add: and_then_total accepted_total local_plus_add_other)
  show ?case
  proof (cases "ix = i")
    case True
    have "x \<in> local_plus (KeyT (fst (index_strings (f i) level))) ?s1"
      using add_index_plans[of "One x"] by auto
    with True show ?thesis unfolding eq by (simp add: keep)
  next
    case False
    with Cons show ?thesis unfolding eq by simp
  qed
qed simp

lemma local_plus_capabilities:
  "y \<in> local_plus k s \<Longrightarrow> y \<in> local_plus k (snd (add_capabilities (\<lambda>_. True) x cs s))"
  unfolding add_capabilities_def ignoring_def snd_conv
  by (induction cs arbitrary: s) (simp_all add: and_then_total accepted_total local_plus_add_other)

lemma node_index_plans:
  assumes "get_indexed_public (nd_attributes n) = Inr indexes" "ix \<in> set indexes"
  shows "nd_id n \<in> local_plus (KeyT (fst (index_strings (IStr ix) 2))) (snd (add_node_index (\<lambda>_. True) n s))"
proof -
  let ?s1 = "snd (each (\<lambda>ix. add_index (\<lambda>_. True) (IStr ix) (One (nd_id n)) 2 None) indexes s)"
  have "snd (add_node_index (\<lambda>_. True) n s)
      = snd (add_capabilities (\<lambda>_. True) (nd_id n) (nd_port_capabilities n)
          (snd (add_capabilities (\<lambda>_. True) (nd_id n) (nd_capabilities n) ?s1)))"
    using assms(1) by (simp add: add_node_index_def and_then_total ignoring_def add_capabilities_def)
  then show ?thesis using local_plus_each_add[OF assms(2), where f = IStr]
    by (simp add: local_plus_capabilities)
qed

lemma planned_under_prefix:
  assumes "get_indexed_public (nd_attributes n) = Inr indexes" "(ty, vs) \<in> set (na_indexed (nd_attributes n))"
    and clean: "clean_word ty" "\<forall>v\<in>set vs. clean_word (the (index_text v))"
    and us: "map index_text us = map index_text (take (length us) vs)"
    and kind: "index_kind (PStr ty # us) = index_kind (PStr ty # vs)"
  shows "\<exists>sq. encode_index (PStr ty # us) = Inr sq
    \<and> nd_id n \<in> local_members (fst (index_strings (IStr sq) 2)) (snd (add_node_index (\<lambda>_. True) n s))"
proof -
  obtain ix where ix: "ix \<in> set indexes" "encode_index (PStr ty # vs) = Inr ix"
    using get_indexed_member[OF _ assms(2)] assms(1) unfolding get_indexed_public_def by blast
  have vals: "\<forall>v\<in>set (PStr ty # vs). index_value v" using encode_index_values[OF ix(2)] .
  have uvals: "\<forall>v\<in>set (PStr ty # us). index_value v"
  proof -
    have "index_text ` set us \<subseteq> index_text ` set vs"
      using us by (metis image_mono list.set_map set_take_subset)
    then have "\<forall>u\<in>set us. index_value u" using vals unfolding index_value_def by force
    then show ?thesis by (simp add: index_value_def)
  qed
  let ?k = "index_kind (PStr ty # vs)" and ?t = "the \<circ> index_text"
  have texts: "map ?t us = map ?t (take (length us) vs)"
    using us by (metis list.map_comp)
  have split: "map ?t vs = map ?t us @ map ?t (drop (length us) vs)"
    unfolding texts by (metis append_take_drop_id map_append)
  have "set (map ?t us) \<subseteq> ?t ` set vs"
    unfolding texts by (metis image_mono list.set_map set_take_subset)
  then have uclean: "\<forall>t\<in>set (map ?t us). clean_word t" using clean(2) by (metis comp_apply image_iff subsetD)
  have cw: "clean_word ''node''" "clean_word ?k" by (simp_all add: index_kind_def)
  have lv: "fst (index_strings (IStr ix) 2) = word_levels (''node'' # ?k # ty # map ?t vs)"
    using index_strings_path[of "''node''" "?k # ty # map ?t vs"] encode_index_path[OF vals] ix(2) clean cw by auto
  have "encode_index (PStr ty # us) = Inr (word_path (''node'' # ?k # ty # map ?t us))"
    using encode_index_path[OF uvals] kind by simp
  moreover have "fst (index_strings (IStr (word_path (''node'' # ?k # ty # map ?t us))) 2) = word_levels (''node'' # ?k # ty # map ?t us)"
    using clean(1) cw uclean by (intro index_strings_path) auto
  moreover have "prefix (word_levels (''node'' # ?k # ty # map ?t us)) (word_levels (''node'' # ?k # ty # map ?t vs))"
    using word_levels_prefix[of "''node''" ?k "ty # map ?t us" "map ?t (drop (length us) vs)"] split by simp
  ultimately show ?thesis
    using node_index_plans[OF assms(1) ix(1), of s] unfolding lv by (auto intro: local_plus_found)
qed

lemma kind_of_match:
  assumes "ty \<in> set resource_list \<or> (\<forall>r\<in>set resource_list. PStr r \<notin> set vs)"
    and "map index_text us = map index_text (take (length us) vs)"
  shows "index_kind (PStr ty # us) = index_kind (PStr ty # vs)"
proof (cases "ty \<in> set resource_list")
  case True
  then show ?thesis by (auto simp: index_kind_def resource_list_def)
next
  case False
  have sub: "set (map index_text us) \<subseteq> index_text ` set vs"
    unfolding assms(2) by (auto dest: in_set_takeD)
  have "PStr r \<in> set vs" if "PStr r \<in> set us" "r \<noteq> []" for r
  proof -
    have "index_text (PStr r) \<in> index_text ` set vs" using sub that(1) by auto
    then obtain v where "v \<in> set vs" "index_text v = Some r" by auto
    with that(2) show ?thesis by (cases v) auto
  qed
  with False assms(1) show ?thesis by (auto simp: index_kind_def resource_list_def)
qed

end
