(* ===== verification/Dynops.thy ===== *)
theory Dynops
  imports Calvin_Prelude
begin

text \<open>
  The dynamic iterables of utilities/dynops.py.  An iterable is asked for its next element; it gives one, or
  pauses (an element may still be filled in by a pending answer), or stops, or lets an exception through.
  The set operations are modelled over the \<open>next\<close> of their children, so that they compose to trees of any
  height; \<open>None\<close> as the value of \<open>next\<close> means that the call does not return.  An \<open>InfiniteElement()\<close>
  is a fresh object each time and is compared by identity: it is never among the elements seen before.  A dictionary that
  is keyed by the identities of the children is kept with the children; a child occurs once in a tree.  The
  sets of the program are lists without order: \<open>pop\<close> takes the element that a parameter picks.
\<close>

datatype 'a elem = Elem 'a | Infinity

datatype 'e outcome = Next 'e | Paused | Stopped | Raised exn

type_synonym ('e, 's) step = "('e outcome \<times> 's) option"

definition seen :: "'a elem \<Rightarrow> 'a elem list \<Rightarrow> bool" where
  "seen e es \<longleftrightarrow> e \<noteq> Infinity \<and> e \<in> set es"

section \<open>DynOps\<close>

text \<open>The fields \<open>infinite_set\<close> and \<open>infinite_sent\<close>.\<close>

datatype dynops = DynOps (infinite_set: bool) (infinite_sent: bool)

definition dynops_init :: dynops where
  "dynops_init = DynOps False False"

definition dynops_next ::
  "('s \<Rightarrow> dynops) \<Rightarrow> (dynops \<Rightarrow> 's \<Rightarrow> 's) \<Rightarrow> ('s \<Rightarrow> ('a elem, 's) step) \<Rightarrow> 's \<Rightarrow> ('a elem, 's) step" where
  "dynops_next base put op s =
     (if infinite_set (base s)
      then Some (if infinite_sent (base s) then (Stopped, s) else (Next Infinity, put (DynOps True True) s))
      else op s)"

section \<open>List\<close>

datatype 'e dlist = DList (elems: "'e list") (is_final: bool) (index: nat) (max_length: "nat option")

definition list_init :: "'e list \<Rightarrow> 'e dlist" where
  "list_init es = DList es False 0 None"

text \<open>Appending, extending and finishing return whether the trigger is called.\<close>

definition list_append :: "'e \<Rightarrow> 'e dlist \<Rightarrow> bool \<times> 'e dlist" where
  "list_append e l =
     (if is_final l then (False, l) else (True, DList (elems l @ [e]) False (index l) (max_length l)))"

definition list_extend :: "'e list \<Rightarrow> 'e dlist \<Rightarrow> bool \<times> 'e dlist" where
  "list_extend es l =
     (if is_final l then (False, l) else (True, DList (elems l @ es) False (index l) (max_length l)))"

definition list_final :: "'e dlist \<Rightarrow> bool \<times> 'e dlist" where
  "list_final l = (if is_final l then (False, l) else (True, DList (elems l) True (index l) (max_length l)))"

definition list_auto_final :: "nat \<Rightarrow> 'e dlist \<Rightarrow> bool \<times> 'e dlist" where
  "list_auto_final m l =
     (let l' = DList (elems l) (is_final l) (index l) (Some m)
      in if m \<le> index l then list_final l' else (False, l'))"

definition list_op :: "'e dlist \<Rightarrow> ('e, 'e dlist) step" where
  "list_op l =
     Some (if (case max_length l of None \<Rightarrow> False | Some m \<Rightarrow> m \<le> index l)
           then (Stopped, DList (elems l) True (index l) (max_length l))
           else if index l < length (elems l)
           then (Next (elems l ! index l), DList (elems l) (is_final l) (Suc (index l)) (max_length l))
           else (if is_final l then Stopped else Paused, l))"

section \<open>Union\<close>

datatype ('a, 's) union =
  Union (un_base: dynops) (un_iters: "'s list") (un_set: "'a elem list") (un_final: bool)

text \<open>
  \<open>getattr(v, 'infinite_set', False)\<close>: \<open>attr\<close> gives the attribute of an iterator, \<open>None\<close> when it has none, as
  the iterator of a plain list.
\<close>

definition is_infinite :: "('s \<Rightarrow> bool option) \<Rightarrow> 's \<Rightarrow> bool" where
  "is_infinite attr v = opt_default False (attr v)"

definition union_init :: "('s \<Rightarrow> bool option) \<Rightarrow> 's list \<Rightarrow> ('a, 's) union" where
  "union_init attr its =
     (let i = list_ex (is_infinite attr) its in Union (DynOps i False) its [] i)"

text \<open>The inner loop: draw from one child until an element is new.\<close>

partial_function (option) union_draw ::
  "('s \<Rightarrow> ('a elem, 's) step) \<Rightarrow> 'a elem list \<Rightarrow> 's \<Rightarrow> ('a elem, 's) step" where
  "union_draw nxt es v =
     Option.bind (nxt v) (\<lambda>(out, v').
       case out of
         Next n \<Rightarrow> if seen n es then union_draw nxt es v' else Some (Next n, v')
       | _ \<Rightarrow> Some (out, v'))"

fun union_children ::
  "('s \<Rightarrow> ('a elem, 's) step) \<Rightarrow> 'a elem list \<Rightarrow> bool \<Rightarrow> 's list \<Rightarrow> ('a elem, 's list) step" where
  "union_children nxt es paused [] = Some (if paused then Paused else Stopped, [])"
| "union_children nxt es paused (v # vs) =
     Option.bind (union_draw nxt es v) (\<lambda>(out, v').
       case out of
         Next n \<Rightarrow> Some (Next n, v' # vs)
       | Raised e \<Rightarrow> Some (Raised e, v' # vs)
       | Paused \<Rightarrow> map_option (map_prod id ((#) v')) (union_children nxt es True vs)
       | Stopped \<Rightarrow> map_option (map_prod id ((#) v')) (union_children nxt es paused vs))"

definition union_op :: "('s \<Rightarrow> ('a elem, 's) step) \<Rightarrow> ('a, 's) union \<Rightarrow> ('a elem, ('a, 's) union) step" where
  "union_op nxt u =
     Option.bind (union_children nxt (un_set u) False (un_iters u)) (\<lambda>(out, vs).
       Some (out, Union (un_base u) vs (case out of Next n \<Rightarrow> un_set u @ [n] | _ \<Rightarrow> un_set u)
                    (un_final u \<or> out = Stopped)))"

definition union_next :: "('s \<Rightarrow> ('a elem, 's) step) \<Rightarrow> ('a, 's) union \<Rightarrow> ('a elem, ('a, 's) union) step" where
  "union_next nxt = dynops_next un_base (\<lambda>b u. Union b (un_iters u) (un_set u) (un_final u)) (union_op nxt)"

section \<open>Intersection\<close>

datatype ('a, 's) slot =
  Slot (ch_iter: 's) (ch_drawn: "'a elem list") (ch_final: bool) (ch_inf: bool)

datatype ('a, 's) inter =
  Inter (in_base: dynops) (in_slots: "('a, 's) slot list") (in_set: "'a elem list")
    (in_candidates: "'a elem list") (in_final: bool)

definition inter_init :: "('s \<Rightarrow> bool option) \<Rightarrow> 's list \<Rightarrow> ('a, 's) inter" where
  "inter_init attr its =
     (let kept = filter (Not \<circ> is_infinite attr) its
      in Inter (DynOps (kept = [] \<and> its \<noteq> []) False) (map (\<lambda>v. Slot v [] False False) kept) [] [] False)"

definition set_pop :: "('a elem list \<Rightarrow> nat) \<Rightarrow> 'a elem list \<Rightarrow> 'a elem \<times> 'a elem list" where
  "set_pop pick es = (let i = pick es mod length es in (es ! i, take i es @ drop (Suc i) es))"

text \<open>One element from every child that is not final; whether any gave one.\<close>

fun inter_draw ::
  "('s \<Rightarrow> ('a elem, 's) step) \<Rightarrow> ('a, 's) slot list \<Rightarrow> (bool res \<times> ('a, 's) slot list) option" where
  "inter_draw nxt [] = Some (Inr False, [])"
| "inter_draw nxt (c # cs) =
     (let rest = (\<lambda>active c'. map_option (map_prod (map_sum id (\<lambda>a. active \<or> a)) ((#) c')) (inter_draw nxt cs))
      in if ch_final c then rest False c
         else Option.bind (nxt (ch_iter c)) (\<lambda>(out, v).
           case out of
             Next n \<Rightarrow> rest True (Slot v (List.insert n (ch_drawn c)) (n = Infinity) (ch_inf c \<or> n = Infinity))
           | Paused \<Rightarrow> rest False (Slot v (ch_drawn c) False (ch_inf c))
           | Stopped \<Rightarrow> rest False (Slot v (ch_drawn c) True (ch_inf c))
           | Raised e \<Rightarrow> Some (Inl e, Slot v (ch_drawn c) False (ch_inf c) # cs)))"

text \<open>\<open>set.intersection\<close> of what was drawn from the children that are not infinite.\<close>

definition drawn_by_all :: "('a, 's) slot list \<Rightarrow> 'a elem list" where
  "drawn_by_all cs =
     (case filter (Not \<circ> ch_inf) cs of
        [] \<Rightarrow> []
      | c # more \<Rightarrow> filter (\<lambda>e. list_all (\<lambda>c'. e \<in> set (ch_drawn c')) more) (ch_drawn c))"

definition slot_remove :: "'a elem list \<Rightarrow> ('a, 's) slot \<Rightarrow> ('a, 's) slot" where
  "slot_remove es c = Slot (ch_iter c) (filter (\<lambda>e. e \<notin> set es) (ch_drawn c)) (ch_final c) (ch_inf c)"

definition inter_emit :: "('a elem list \<Rightarrow> nat) \<Rightarrow> ('a, 's) inter \<Rightarrow> 'a elem outcome \<times> ('a, 's) inter" where
  "inter_emit pick x =
     (let (e, rest) = set_pop pick (in_candidates x)
      in (Next e, Inter (in_base x) (in_slots x) (List.insert e (in_set x)) rest (in_final x)))"

partial_function (option) inter_loop ::
  "('s \<Rightarrow> ('a elem, 's) step) \<Rightarrow> ('a elem list \<Rightarrow> nat) \<Rightarrow> ('a, 's) inter \<Rightarrow> ('a elem, ('a, 's) inter) step" where
  "inter_loop nxt pick x =
     Option.bind (inter_draw nxt (in_slots x)) (\<lambda>(r, cs).
       case r of
         Inl e \<Rightarrow> Some (Raised e, Inter (in_base x) cs (in_set x) (in_candidates x) (in_final x))
       | Inr active \<Rightarrow>
           if list_all ch_inf cs
           then Some (if infinite_sent (in_base x)
                      then (Stopped, Inter (DynOps True True) cs (in_set x) (in_candidates x) (in_final x))
                      else (Next Infinity, Inter (DynOps True True) cs (in_set x) (in_candidates x) (in_final x)))
           else (let common = in_candidates x @ drawn_by_all cs;
                     x' = Inter (in_base x) (map (slot_remove common) cs) (in_set x)
                            (filter (\<lambda>e. e \<notin> set (in_set x)) common) (in_final x)
                 in if in_candidates x' \<noteq> [] then Some (inter_emit pick x')
                    else if \<not> active \<or> list_all ch_final cs
                    then Some (if list_all ch_final cs
                               then (Stopped, Inter (in_base x) (in_slots x') (in_set x) [] True)
                               else (Paused, x'))
                    else inter_loop nxt pick x'))"

definition inter_op ::
  "('s \<Rightarrow> ('a elem, 's) step) \<Rightarrow> ('a elem list \<Rightarrow> nat) \<Rightarrow> ('a, 's) inter \<Rightarrow> ('a elem, ('a, 's) inter) step" where
  "inter_op nxt pick x = (if in_candidates x \<noteq> [] then Some (inter_emit pick x) else inter_loop nxt pick x)"

definition inter_next ::
  "('s \<Rightarrow> ('a elem, 's) step) \<Rightarrow> ('a elem list \<Rightarrow> nat) \<Rightarrow> ('a, 's) inter \<Rightarrow> ('a elem, ('a, 's) inter) step" where
  "inter_next nxt pick =
     dynops_next in_base (\<lambda>b x. Inter b (in_slots x) (in_set x) (in_candidates x) (in_final x)) (inter_op nxt pick)"

section \<open>Difference\<close>

datatype ('a, 's) diff =
  Diff (di_base: dynops) (di_first: 's) (di_iters: "('s \<times> bool) list") (di_zero: bool) (di_remove: "'a elem list")

text \<open>
  \<open>self.first.infinite_set\<close> raises when the first iterable is a plain list; the test for an infinite
  first set looks for an attribute of that boolean and never finds one.
\<close>

definition difference_init :: "('s \<Rightarrow> bool option) \<Rightarrow> 's \<Rightarrow> 's list \<Rightarrow> ('a, 's) diff res" where
  "difference_init attr first its =
     (case attr first of
        None \<Rightarrow> Inl (AttributeError ''infinite_set'')
      | Some _ \<Rightarrow> Inr (Diff dynops_init first (map (\<lambda>v. (v, False)) its) (list_ex (is_infinite attr) its) []))"

partial_function (option) diff_filter ::
  "('s \<Rightarrow> ('a elem, 's) step) \<Rightarrow> 'a elem list \<Rightarrow> 's \<Rightarrow> ('a elem, 'a elem list \<times> 's) step" where
  "diff_filter nxt es v =
     Option.bind (nxt v) (\<lambda>(out, v').
       case out of
         Next n \<Rightarrow> if seen n es then diff_filter nxt es v' else Some (Next n, List.insert n es, v')
       | _ \<Rightarrow> Some (out, es, v'))"

partial_function (option) diff_draw ::
  "('s \<Rightarrow> ('a elem, 's) step) \<Rightarrow> 'a elem list \<Rightarrow> 's \<Rightarrow> ('a elem, 'a elem list \<times> 's) step" where
  "diff_draw nxt es v =
     Option.bind (nxt v) (\<lambda>(out, v').
       case out of
         Next n \<Rightarrow> diff_draw nxt (List.insert n es) v'
       | _ \<Rightarrow> Some (out, es, v'))"

text \<open>Collect the elements to remove from every child: whether one paused, or the exception of one.\<close>

fun diff_collect ::
  "('s \<Rightarrow> ('a elem, 's) step) \<Rightarrow> 'a elem list \<Rightarrow> ('s \<times> bool) list \<Rightarrow>
   (bool res \<times> 'a elem list \<times> ('s \<times> bool) list) option" where
  "diff_collect nxt es [] = Some (Inr False, es, [])"
| "diff_collect nxt es ((v, f) # vs) =
     Option.bind (diff_draw nxt es v) (\<lambda>(out, es', v').
       case out of
         Raised e \<Rightarrow> Some (Inl e, es', (v', f) # vs)
       | Stopped \<Rightarrow> map_option (map_prod id (map_prod id ((#) (v', True)))) (diff_collect nxt es' vs)
       | _ \<Rightarrow> map_option (map_prod (map_sum id (\<lambda>_. True)) (map_prod id ((#) (v', f)))) (diff_collect nxt es' vs))"

partial_function (option) diff_op ::
  "('s \<Rightarrow> ('a elem, 's) step) \<Rightarrow> ('a, 's) diff \<Rightarrow> ('a elem, ('a, 's) diff) step" where
  "diff_op nxt d =
     (if di_zero d then Some (Stopped, d)
      else if list_all snd (di_iters d)
      then Option.bind (diff_filter nxt (di_remove d) (di_first d)) (\<lambda>(out, es, v).
             Some (out, Diff (di_base d) v (di_iters d) (di_zero d) es))
      else Option.bind (diff_collect nxt (di_remove d) (di_iters d)) (\<lambda>(r, es, vs).
             let d' = Diff (di_base d) (di_first d) vs (di_zero d) es
             in case r of
                  Inl e \<Rightarrow> Some (Raised e, d')
                | Inr paused \<Rightarrow> if paused then Some (Paused, d') else diff_op nxt d'))"

definition diff_next :: "('s \<Rightarrow> ('a elem, 's) step) \<Rightarrow> ('a, 's) diff \<Rightarrow> ('a elem, ('a, 's) diff) step" where
  "diff_next nxt =
     dynops_next di_base (\<lambda>b d. Diff b (di_first d) (di_iters d) (di_zero d) (di_remove d)) (diff_op nxt)"

text \<open>The loops as equations to compute with.\<close>

declare union_draw.simps [code] inter_loop.simps [code] diff_filter.simps [code] diff_draw.simps [code] diff_op.simps [code]

end
