(* ===== verification/Dynops_Contract.thy ===== *)
theory Dynops_Contract
  imports Dynops
begin

text \<open>
  The contract of a dynamic iterable, as a locale, and the proofs that the set operations provide it when their children do.
  The contract speaks about the set an iterable stands for with what is known now (\<open>den\<close>), what no call
  changes (\<open>shape\<close>), the elements given so far
  (\<open>taken\<close>), whether that set is fixed (\<open>ended\<close>), whether the iterable never answers with an infinite element
  (\<open>definite\<close>), whether it pauses only when it has given all it stands for (\<open>prompt\<close>; a difference is not as long as it
  collects what to remove), and a bound on the elements still to come without further answers (\<open>left\<close>).
\<close>

section \<open>The contract\<close>

text \<open>An infinite element stands for everything.\<close>

definition cover :: "'a elem set \<Rightarrow> 'a set" where
  "cover E = (if Infinity \<in> E then UNIV else {a. Elem a \<in> E})"

text \<open>What a call of \<open>next\<close> does to the abstraction.\<close>

definition good_step ::
  "('s \<Rightarrow> bool) \<Rightarrow> ('s \<Rightarrow> 'a set) \<Rightarrow> ('s \<Rightarrow> 'h) \<Rightarrow> ('s \<Rightarrow> 'a elem set) \<Rightarrow> ('s \<Rightarrow> bool) \<Rightarrow> ('s \<Rightarrow> bool) \<Rightarrow>
   ('s \<Rightarrow> bool) \<Rightarrow> ('s \<Rightarrow> nat) \<Rightarrow> 's \<Rightarrow> 'a elem outcome \<Rightarrow> 's \<Rightarrow> bool" where
  "good_step ok den shape taken ended definite prompt left s out s' \<longleftrightarrow>
     ok s' \<and> den s' = den s \<and> shape s' = shape s \<and> (ended s \<longrightarrow> ended s') \<and> (definite s \<longrightarrow> definite s') \<and>
     (prompt s \<longrightarrow> prompt s') \<and>
     (case out of
        Next e \<Rightarrow> taken s' = insert e (taken s) \<and> left s' < left s
      | Paused \<Rightarrow> taken s' = taken s \<and> left s' \<le> left s \<and> (prompt s \<longrightarrow> cover (taken s) = den s) \<and> \<not> ended s
      | Stopped \<Rightarrow> taken s' = taken s \<and> left s' \<le> left s \<and> cover (taken s) = den s \<and> ended s'
      | Raised _ \<Rightarrow> False)"

locale iterable =
  fixes nxt :: "'s \<Rightarrow> ('a elem, 's) step"
    and ok :: "'s \<Rightarrow> bool"
    and den :: "'s \<Rightarrow> 'a set"
    and shape :: "'s \<Rightarrow> 'h"
    and taken :: "'s \<Rightarrow> 'a elem set"
    and ended definite prompt :: "'s \<Rightarrow> bool"
    and left :: "'s \<Rightarrow> nat"
  assumes next_good: "ok s \<Longrightarrow> \<exists>out s'. nxt s = Some (out, s') \<and> good_step ok den shape taken ended definite prompt left s out s'"
    and taken_den: "ok s \<Longrightarrow> Elem a \<in> taken s \<Longrightarrow> a \<in> den s"
    and taken_infinity: "ok s \<Longrightarrow> Infinity \<in> taken s \<Longrightarrow> den s = UNIV"
    and definite_taken: "ok s \<Longrightarrow> definite s \<Longrightarrow> Infinity \<notin> taken s"
begin

abbreviation good :: "'s \<Rightarrow> 'a elem outcome \<Rightarrow> 's \<Rightarrow> bool" where
  "good \<equiv> good_step ok den shape taken ended definite prompt left"

lemma next_cases:
  assumes "ok s"
  obtains (Next) e s' where "nxt s = Some (Next e, s')" "ok s'" "den s' = den s" "shape s' = shape s" "ended s \<Longrightarrow> ended s'"
      "definite s \<Longrightarrow> definite s'" "prompt s \<Longrightarrow> prompt s'" "taken s' = insert e (taken s)" "left s' < left s"
    | (Paused) s' where "nxt s = Some (Paused, s')" "ok s'" "den s' = den s" "shape s' = shape s" "\<not> ended s"
      "definite s \<Longrightarrow> definite s'" "prompt s \<Longrightarrow> prompt s'" "taken s' = taken s" "left s' \<le> left s" "prompt s \<Longrightarrow> cover (taken s) = den s"
    | (Stopped) s' where "nxt s = Some (Stopped, s')" "ok s'" "den s' = den s" "shape s' = shape s" "ended s'"
      "definite s \<Longrightarrow> definite s'" "prompt s \<Longrightarrow> prompt s'" "taken s' = taken s" "left s' \<le> left s" "cover (taken s) = den s"
proof -
  obtain out s' where n: "nxt s = Some (out, s')" "good s out s'" using next_good[OF assms] by blast
  show thesis
    by (cases out) (use n that in \<open>auto simp: good_step_def\<close>)
qed

lemma cover_taken: "ok s \<Longrightarrow> cover (taken s) \<subseteq> den s"
  by (auto simp: cover_def taken_den taken_infinity)

text \<open>What a parent sees of a child it has called any number of times.\<close>

definition advanced :: "'s \<Rightarrow> 's \<Rightarrow> bool" where
  "advanced s s' \<longleftrightarrow> ok s' \<and> den s' = den s \<and> shape s' = shape s \<and> (ended s \<longrightarrow> ended s') \<and> (definite s \<longrightarrow> definite s')
     \<and> (prompt s \<longrightarrow> prompt s') \<and> taken s \<subseteq> taken s' \<and> left s' \<le> left s"

lemma advanced_refl: "ok s \<Longrightarrow> advanced s s"
  by (simp add: advanced_def)

lemma advanced_trans: "advanced s t \<Longrightarrow> advanced t u \<Longrightarrow> advanced s u"
  by (auto simp: advanced_def)

lemma advanced_all:
  assumes "list_all2 advanced vs vs'"
  shows "list_all ok vs'" "map den vs' = map den vs" "map shape vs' = map shape vs" "list_all ended vs \<Longrightarrow> list_all ended vs'"
    "list_all definite vs \<Longrightarrow> list_all definite vs'" "list_all prompt vs \<Longrightarrow> list_all prompt vs'" "\<Union> (taken ` set vs) \<subseteq> \<Union> (taken ` set vs')"
    "sum_list (map left vs') \<le> sum_list (map left vs)"
  using assms by (induction rule: list_all2_induct) (auto simp: advanced_def)

end

section \<open>Union\<close>

definition union_ok :: "('s \<Rightarrow> bool) \<Rightarrow> ('s \<Rightarrow> 'a elem set) \<Rightarrow> ('a, 's) union \<Rightarrow> bool" where
  "union_ok ok taken u \<longleftrightarrow> list_all ok (un_iters u) \<and>
     (if infinite_set (un_base u) then un_set u = []
      else \<not> infinite_sent (un_base u) \<and> set (un_set u) = \<Union> (taken ` set (un_iters u)))"

definition union_den :: "('s \<Rightarrow> 'a set) \<Rightarrow> ('a, 's) union \<Rightarrow> 'a set" where
  "union_den den u = (if infinite_set (un_base u) then UNIV else \<Union> (set (map den (un_iters u))))"

text \<open>A shape is made from those of the children in any way.\<close>

definition union_shape :: "(bool \<Rightarrow> 'h list \<Rightarrow> 'k) \<Rightarrow> ('s \<Rightarrow> 'h) \<Rightarrow> ('a, 's) union \<Rightarrow> 'k" where
  "union_shape mk shape u = mk (infinite_set (un_base u)) (map shape (un_iters u))"

definition union_taken :: "('a, 's) union \<Rightarrow> 'a elem set" where
  "union_taken u = set (un_set u) \<union> (if infinite_sent (un_base u) then {Infinity} else {})"

definition union_ended :: "('s \<Rightarrow> bool) \<Rightarrow> ('a, 's) union \<Rightarrow> bool" where
  "union_ended ended u \<longleftrightarrow> infinite_set (un_base u) \<or> list_all ended (un_iters u)"

definition union_definite :: "('s \<Rightarrow> bool) \<Rightarrow> ('a, 's) union \<Rightarrow> bool" where
  "union_definite definite u \<longleftrightarrow> \<not> infinite_set (un_base u) \<and> list_all definite (un_iters u)"

definition union_prompt :: "('s \<Rightarrow> bool) \<Rightarrow> ('a, 's) union \<Rightarrow> bool" where
  "union_prompt prompt u \<longleftrightarrow> list_all prompt (un_iters u)"

definition union_left :: "('s \<Rightarrow> nat) \<Rightarrow> ('a, 's) union \<Rightarrow> nat" where
  "union_left left u = sum_list (map left (un_iters u)) + (if infinite_sent (un_base u) then 0 else 1)"

lemmas union_abs = union_ok_def union_den_def union_shape_def union_taken_def union_ended_def union_definite_def union_prompt_def union_left_def

context iterable
begin

lemma union_draw_good:
  assumes "ok v" "taken v \<subseteq> set es"
  shows "\<exists>out v'. union_draw nxt es v = Some (out, v') \<and> advanced v v' \<and>
    (case out of
       Next n \<Rightarrow> \<not> seen n es \<and> n \<in> taken v' \<and> taken v' \<subseteq> insert n (set es) \<and> left v' < left v
     | Paused \<Rightarrow> taken v' \<subseteq> set es \<and> (prompt v \<longrightarrow> cover (taken v') = den v') \<and> \<not> ended v
     | Stopped \<Rightarrow> taken v' \<subseteq> set es \<and> cover (taken v') = den v' \<and> ended v'
     | Raised _ \<Rightarrow> False)"
  using assms
proof (induction "left v" arbitrary: v rule: less_induct)
  case less
  from less.prems(1) show ?case
  proof (cases rule: next_cases)
    case (Next e v1)
    show ?thesis
    proof (cases "seen e es")
      case True
      then have "taken v1 \<subseteq> set es" using Next less.prems by (auto simp: seen_def)
      from less.hyps[OF Next(9,2) this] obtain out v' where
        v': "union_draw nxt es v1 = Some (out, v')" "advanced v1 v'" and
        o: "case out of
          Next n \<Rightarrow> \<not> seen n es \<and> n \<in> taken v' \<and> taken v' \<subseteq> insert n (set es) \<and> left v' < left v1
        | Paused \<Rightarrow> taken v' \<subseteq> set es \<and> (prompt v1 \<longrightarrow> cover (taken v') = den v') \<and> \<not> ended v1
        | Stopped \<Rightarrow> taken v' \<subseteq> set es \<and> cover (taken v') = den v' \<and> ended v'
        | Raised _ \<Rightarrow> False" by blast
      have "advanced v v1" using Next by (auto simp: advanced_def)
      with v' have "advanced v v'" by (blast intro: advanced_trans)
      with True v' o Next show ?thesis
        by (subst union_draw.simps) (auto split: outcome.splits)
    next
      case False
      with Next less.prems show ?thesis
        by (subst union_draw.simps) (auto simp: advanced_def)
    qed
  qed (use less.prems in \<open>subst union_draw.simps, auto simp: advanced_def\<close>)+
qed

lemma union_children_good:
  assumes "list_all ok vs" "\<Union> (taken ` set vs) \<subseteq> set es"
  shows "\<exists>out vs'. union_children nxt es p vs = Some (out, vs') \<and> list_all2 advanced vs vs' \<and>
    (case out of
       Next n \<Rightarrow> \<not> seen n es \<and> n \<in> \<Union> (taken ` set vs') \<and> \<Union> (taken ` set vs') \<subseteq> insert n (set es)
         \<and> sum_list (map left vs') < sum_list (map left vs)
     | Paused \<Rightarrow> \<Union> (taken ` set vs') \<subseteq> set es \<and> (list_all prompt vs \<longrightarrow> (\<forall>v\<in>set vs'. cover (taken v) = den v)) \<and> (p \<or> \<not> list_all ended vs)
     | Stopped \<Rightarrow> \<Union> (taken ` set vs') \<subseteq> set es \<and> (\<forall>v\<in>set vs'. cover (taken v) = den v) \<and> \<not> p \<and> list_all ended vs'
     | Raised _ \<Rightarrow> False)"
  using assms
proof (induction vs arbitrary: p)
  case (Cons v vs)
  obtain out v' where v': "union_draw nxt es v = Some (out, v')" "advanced v v'" and
    o: "case out of
       Next n \<Rightarrow> \<not> seen n es \<and> n \<in> taken v' \<and> taken v' \<subseteq> insert n (set es) \<and> left v' < left v
     | Paused \<Rightarrow> taken v' \<subseteq> set es \<and> (prompt v \<longrightarrow> cover (taken v') = den v') \<and> \<not> ended v
     | Stopped \<Rightarrow> taken v' \<subseteq> set es \<and> cover (taken v') = den v' \<and> ended v'
     | Raised _ \<Rightarrow> False"
    using union_draw_good[of v es] Cons.prems by auto
  have le: "left v' \<le> left v" using v'(2) by (simp add: advanced_def)
  show ?case
  proof (cases "\<exists>n. out = Next n")
    case True
    then obtain n where n: "out = Next n" by blast
    have "list_all2 advanced vs vs" using Cons.prems(1)
      by (auto simp: list_all2_same list_all_iff advanced_refl)
    with n v' o Cons.prems show ?thesis by auto
  next
    case False
    define q where "q = (p \<or> out = Paused)"
    obtain out2 vs' where r: "union_children nxt es q vs = Some (out2, vs')" "list_all2 advanced vs vs'" and
      o2: "case out2 of
       Next n \<Rightarrow> \<not> seen n es \<and> n \<in> \<Union> (taken ` set vs') \<and> \<Union> (taken ` set vs') \<subseteq> insert n (set es)
         \<and> sum_list (map left vs') < sum_list (map left vs)
     | Paused \<Rightarrow> \<Union> (taken ` set vs') \<subseteq> set es \<and> (list_all prompt vs \<longrightarrow> (\<forall>v\<in>set vs'. cover (taken v) = den v)) \<and> (q \<or> \<not> list_all ended vs)
     | Stopped \<Rightarrow> \<Union> (taken ` set vs') \<subseteq> set es \<and> (\<forall>v\<in>set vs'. cover (taken v) = den v) \<and> \<not> q \<and> list_all ended vs'
     | Raised _ \<Rightarrow> False"
      using Cons.IH[of q] Cons.prems by auto
    have "union_children nxt es p (v # vs) = Some (out2, v' # vs')"
      using False o v' r by (cases out) (auto simp: q_def)
    moreover have "taken v' \<subseteq> set es" "prompt v \<or> out = Stopped \<Longrightarrow> cover (taken v') = den v'" "out = Stopped \<Longrightarrow> ended v'" "out = Paused \<Longrightarrow> \<not> ended v"
        "out = Paused \<or> out = Stopped"
      using False o by (auto split: outcome.splits)
    ultimately show ?thesis using v'(2) r(2) o2 le by (cases out2) (auto simp: q_def simp del: union_children.simps)
  qed
qed simp

lemma union_op_good:
  assumes "union_ok ok taken u" "\<not> infinite_set (un_base u)"
  shows "\<exists>out u'. union_op nxt u = Some (out, u') \<and>
    good_step (union_ok ok taken) (union_den den) (union_shape mk shape) union_taken (union_ended ended) (union_definite definite) (union_prompt prompt) (union_left left) u out u'"
proof -
  obtain out vs' where r: "union_children nxt (un_set u) False (un_iters u) = Some (out, vs')" "list_all2 advanced (un_iters u) vs'" and
    o: "case out of
       Next n \<Rightarrow> \<not> seen n (un_set u) \<and> n \<in> \<Union> (taken ` set vs') \<and> \<Union> (taken ` set vs') \<subseteq> insert n (set (un_set u))
         \<and> sum_list (map left vs') < sum_list (map left (un_iters u))
     | Paused \<Rightarrow> \<Union> (taken ` set vs') \<subseteq> set (un_set u) \<and> (list_all prompt (un_iters u) \<longrightarrow> (\<forall>v\<in>set vs'. cover (taken v) = den v)) \<and> (False \<or> \<not> list_all ended (un_iters u))
     | Stopped \<Rightarrow> \<Union> (taken ` set vs') \<subseteq> set (un_set u) \<and> (\<forall>v\<in>set vs'. cover (taken v) = den v) \<and> \<not> False \<and> list_all ended vs'
     | Raised _ \<Rightarrow> False"
    using union_children_good[of "un_iters u" "un_set u" False] assms by (auto simp: union_ok_def)
  have sub: "set (un_set u) \<subseteq> \<Union> (taken ` set vs')" and set: "set (un_set u) = \<Union> (taken ` set (un_iters u))"
    using advanced_all(7)[OF r(2)] assms by (auto simp: union_ok_def)
  have op: "union_op nxt u = Some (out, Union (un_base u) vs' (case out of Next n \<Rightarrow> un_set u @ [n] | _ \<Rightarrow> un_set u) (un_final u \<or> out = Stopped))"
    using r(1) by (simp add: union_op_def)
  have cov: "cover (\<Union> (taken ` set vs')) = \<Union> (set (map den vs'))" if "\<forall>v\<in>set vs'. cover (taken v) = den v"
    using that by (auto simp: cover_def split: if_splits)
  note facts = advanced_all[OF r(2)]
  show ?thesis
  proof (cases out)
    case (Next n)
    have "set (un_set u @ [n]) = \<Union> (taken ` set vs')" using o sub unfolding Next by auto
    with Next op o facts assms show ?thesis by (auto simp: good_step_def union_abs)
  next
    case Paused
    then have eq: "set (un_set u) = \<Union> (taken ` set vs')" using o sub by auto
    then have c: "union_prompt prompt u \<Longrightarrow> cover (set (un_set u)) = \<Union> (set (map den (un_iters u)))"
      using cov o facts(2) unfolding Paused by (auto simp: union_prompt_def)
    show ?thesis using Paused op o facts assms eq c by (auto simp: good_step_def union_abs)
  next
    case Stopped
    then have eq: "set (un_set u) = \<Union> (taken ` set vs')" using o sub by auto
    then have c: "cover (set (un_set u)) = \<Union> (set (map den (un_iters u)))" using cov o facts(2) unfolding Stopped by auto
    show ?thesis using Stopped op o facts assms eq c by (auto simp: good_step_def union_abs)
  qed (use o in simp)
qed

lemma union_iterable:
  "iterable (union_next nxt) (union_ok ok taken) (union_den den) (union_shape mk shape) union_taken (union_ended ended) (union_definite definite) (union_prompt prompt) (union_left left)"
proof
  fix u assume ok: "union_ok ok taken u"
  show "\<exists>out u'. union_next nxt u = Some (out, u') \<and>
    good_step (union_ok ok taken) (union_den den) (union_shape mk shape) union_taken (union_ended ended) (union_definite definite) (union_prompt prompt) (union_left left) u out u'"
  proof (cases "infinite_set (un_base u)")
    case True
    then show ?thesis using ok by (auto simp: union_next_def dynops_next_def good_step_def union_abs cover_def)
  next
    case False
    then show ?thesis using union_op_good[OF ok] by (simp add: union_next_def dynops_next_def)
  qed
qed (auto simp: union_abs list_all_iff intro: taken_den dest: taken_infinity definite_taken split: if_splits)

end

section \<open>Intersection\<close>

text \<open>Everything that was once drawn from all children.\<close>

definition inter_all :: "('a, 's) inter \<Rightarrow> 'a elem set" where
  "inter_all x = set (in_set x) \<union> set (in_candidates x)"

definition slot_ok ::
  "('s \<Rightarrow> bool) \<Rightarrow> ('s \<Rightarrow> 'a set) \<Rightarrow> ('s \<Rightarrow> 'a elem set) \<Rightarrow> ('s \<Rightarrow> bool) \<Rightarrow> 'a elem set \<Rightarrow> ('a, 's) slot \<Rightarrow> bool" where
  "slot_ok ok den taken ended R c \<longleftrightarrow>
     ok (ch_iter c) \<and> (ch_inf c \<longleftrightarrow> Infinity \<in> taken (ch_iter c)) \<and> (ch_inf c \<longrightarrow> ch_final c) \<and>
     (ch_final c \<and> \<not> ch_inf c \<longrightarrow> ended (ch_iter c) \<and> cover (taken (ch_iter c)) = den (ch_iter c)) \<and>
     set (ch_drawn c) \<subseteq> taken (ch_iter c) \<and>
     (\<not> ch_inf c \<longrightarrow> R \<subseteq> taken (ch_iter c) \<and> taken (ch_iter c) \<subseteq> set (ch_drawn c) \<union> R)"

definition inter_ok ::
  "('s \<Rightarrow> bool) \<Rightarrow> ('s \<Rightarrow> 'a set) \<Rightarrow> ('s \<Rightarrow> 'a elem set) \<Rightarrow> ('s \<Rightarrow> bool) \<Rightarrow> ('a, 's) inter \<Rightarrow> bool" where
  "inter_ok ok den taken ended x \<longleftrightarrow>
     list_all (slot_ok ok den taken ended (inter_all x)) (in_slots x) \<and> Infinity \<notin> inter_all x \<and>
     (infinite_sent (in_base x) \<longrightarrow> infinite_set (in_base x)) \<and> (infinite_set (in_base x) \<longrightarrow> list_all ch_inf (in_slots x))"

definition inter_den :: "('s \<Rightarrow> 'a set) \<Rightarrow> ('a, 's) inter \<Rightarrow> 'a set" where
  "inter_den den x = \<Inter> (set (map (den \<circ> ch_iter) (in_slots x)))"

definition inter_shape :: "('h list \<Rightarrow> 'k) \<Rightarrow> ('s \<Rightarrow> 'h) \<Rightarrow> ('a, 's) inter \<Rightarrow> 'k" where
  "inter_shape mk shape x = mk (map (shape \<circ> ch_iter) (in_slots x))"

definition inter_taken :: "('a, 's) inter \<Rightarrow> 'a elem set" where
  "inter_taken x = set (in_set x) \<union> (if infinite_sent (in_base x) then {Infinity} else {})"

definition inter_ended :: "('s \<Rightarrow> bool) \<Rightarrow> ('a, 's) inter \<Rightarrow> bool" where
  "inter_ended ended x \<longleftrightarrow> list_all (\<lambda>c. ended (ch_iter c) \<or> ch_inf c) (in_slots x)"

definition inter_definite :: "('s \<Rightarrow> bool) \<Rightarrow> ('a, 's) inter \<Rightarrow> bool" where
  "inter_definite definite x \<longleftrightarrow> \<not> infinite_set (in_base x) \<and> list_ex (definite \<circ> ch_iter) (in_slots x)"

definition inter_prompt :: "('s \<Rightarrow> bool) \<Rightarrow> ('a, 's) inter \<Rightarrow> bool" where
  "inter_prompt prompt x \<longleftrightarrow> list_all (prompt \<circ> ch_iter) (in_slots x)"

definition slot_weight :: "('s \<Rightarrow> nat) \<Rightarrow> ('a, 's) slot \<Rightarrow> nat" where
  "slot_weight left c = 2 * left (ch_iter c) + length (ch_drawn c)"

definition inter_left :: "('s \<Rightarrow> nat) \<Rightarrow> ('a, 's) inter \<Rightarrow> nat" where
  "inter_left left x = sum_list (map (slot_weight left) (in_slots x)) + length (in_candidates x)
     + (if infinite_sent (in_base x) then 0 else 1)"

lemmas inter_abs = inter_ok_def inter_den_def inter_shape_def inter_taken_def inter_ended_def inter_definite_def inter_prompt_def inter_left_def inter_all_def

lemma set_pop:
  assumes "es \<noteq> []" "set_pop pick es = (e, rest)"
  shows "set es = insert e (set rest)" "length es = Suc (length rest)"
proof -
  let ?i = "pick es mod length es"
  have i: "?i < length es" using assms(1) by simp
  have e: "e = es ! ?i" "rest = take ?i es @ drop (Suc ?i) es" using assms(2) by (simp_all add: set_pop_def Let_def)
  have "set (take ?i es @ es ! ?i # drop (Suc ?i) es) = insert e (set rest)" by (simp add: e)
  then show "set es = insert e (set rest)" unfolding id_take_nth_drop[OF i, symmetric] .
  show "length es = Suc (length rest)" using i by (simp add: e)
qed

lemma drawn_by_all:
  assumes "\<not> list_all ch_inf cs"
  shows "e \<in> set (drawn_by_all cs) \<longleftrightarrow> (\<forall>c\<in>set cs. \<not> ch_inf c \<longrightarrow> e \<in> set (ch_drawn c))"
proof -
  obtain c more where f: "filter (Not \<circ> ch_inf) cs = c # more"
    using assms by (cases "filter (Not \<circ> ch_inf) cs") (auto simp: filter_empty_conv list_all_iff)
  have "set (c # more) = {c \<in> set cs. \<not> ch_inf c}" unfolding f[symmetric] by auto
  then show ?thesis unfolding drawn_by_all_def f by (auto simp: list_all_iff)
qed

text \<open>What all have drawn leaves the drawn elements of at least one child.\<close>

lemma removed_weight:
  assumes "\<not> list_all ch_inf cs"
  shows "sum_list (map (slot_weight left) (map (slot_remove (drawn_by_all cs)) cs)) + length (drawn_by_all cs)
    \<le> sum_list (map (slot_weight left) cs)"
proof -
  obtain c more where f: "filter (Not \<circ> ch_inf) cs = c # more"
    using assms by (cases "filter (Not \<circ> ch_inf) cs") (auto simp: filter_empty_conv list_all_iff)
  let ?P = "\<lambda>e. list_all (\<lambda>c'. e \<in> set (ch_drawn c')) more" and ?w = "slot_weight left"
  let ?r = "slot_remove (drawn_by_all cs)"
  have d: "drawn_by_all cs = filter ?P (ch_drawn c)" by (simp add: drawn_by_all_def f)
  have "length (filter (\<lambda>e. e \<notin> set (filter ?P (ch_drawn c))) (ch_drawn c)) = length (filter (Not \<circ> ?P) (ch_drawn c))"
    by (rule arg_cong[where f = length], rule filter_cong) auto
  then have c: "?w (?r c) + length (drawn_by_all cs) = ?w c"
    using sum_length_filter_compl[of ?P "ch_drawn c"] by (simp add: slot_weight_def slot_remove_def d o_def)
  have le: "?w (slot_remove es b) \<le> ?w b" for es and b :: "('a, 'b) slot" by (simp add: slot_weight_def slot_remove_def)
  have "c \<in> set cs" using f by (metis filter_is_subset list.set_intros(1) subsetD)
  then obtain xs ys where cs: "cs = xs @ c # ys" by (auto simp: in_set_conv_decomp)
  have "sum_list (map ?w (map ?r zs)) \<le> sum_list (map ?w zs)" for zs
    by (induction zs) (auto intro: add_mono le)
  from this[of xs] this[of ys] c show ?thesis by (simp add: cs)
qed

lemma inter_emit_weight:
  assumes "in_candidates x \<noteq> []" "inter_emit pick x = (out, x')"
  shows "\<exists>e. out = Next e \<and> e \<in> set (in_candidates x) \<and> in_slots x' = in_slots x \<and> in_base x' = in_base x
    \<and> inter_all x' = inter_all x \<and> set (in_set x') = insert e (set (in_set x)) \<and> inter_left left x' < inter_left left x"
proof -
  obtain e rest where p: "set_pop pick (in_candidates x) = (e, rest)" by (cases "set_pop pick (in_candidates x)")
  have "inter_emit pick x = (Next e, Inter (in_base x) (in_slots x) (List.insert e (in_set x)) rest (in_final x))"
    by (simp add: inter_emit_def p)
  with set_pop[OF assms(1) p] assms(2) show ?thesis by (auto simp: inter_abs)
qed

context iterable
begin

abbreviation slot_good :: "'a elem set \<Rightarrow> ('a, 's) slot \<Rightarrow> bool" where
  "slot_good \<equiv> slot_ok ok den taken ended"

abbreviation inter_good :: "('a, 's) inter \<Rightarrow> bool" where
  "inter_good \<equiv> inter_ok ok den taken ended"

abbreviation inter_step :: "('h list \<Rightarrow> 'k) \<Rightarrow> ('a, 's) inter \<Rightarrow> 'a elem outcome \<Rightarrow> ('a, 's) inter \<Rightarrow> bool" where
  "inter_step mk \<equiv> good_step inter_good (inter_den den) (inter_shape mk shape) inter_taken (inter_ended ended) (inter_definite definite) (inter_prompt prompt) (inter_left left)"

text \<open>A slot before and after a round of drawing; \<open>dry\<close>: it gave nothing.\<close>

definition slot_next :: "'a elem set \<Rightarrow> ('a, 's) slot \<Rightarrow> ('a, 's) slot \<Rightarrow> bool" where
  "slot_next R c c' \<longleftrightarrow> slot_good R c' \<and> den (ch_iter c') = den (ch_iter c) \<and> shape (ch_iter c') = shape (ch_iter c) \<and> (ended (ch_iter c) \<longrightarrow> ended (ch_iter c')) \<and>
     (definite (ch_iter c) \<longrightarrow> definite (ch_iter c')) \<and> (prompt (ch_iter c) \<longrightarrow> prompt (ch_iter c')) \<and> (ch_inf c \<longrightarrow> ch_inf c') \<and> slot_weight left c' \<le> slot_weight left c"

definition dry :: "('a, 's) slot \<Rightarrow> ('a, 's) slot \<Rightarrow> bool" where
  "dry c c' \<longleftrightarrow> ch_final c' \<or> (prompt (ch_iter c) \<longrightarrow> cover (taken (ch_iter c')) = den (ch_iter c')) \<and> \<not> ended (ch_iter c)"

lemma slot_draw:
  assumes "slot_good R c" "Infinity \<notin> R" "\<not> ch_final c"
  shows "\<exists>out v. nxt (ch_iter c) = Some (out, v) \<and>
    (case out of
       Next n \<Rightarrow> slot_next R c (Slot v (List.insert n (ch_drawn c)) (n = Infinity) (ch_inf c \<or> n = Infinity))
         \<and> slot_weight left (Slot v (List.insert n (ch_drawn c)) (n = Infinity) (ch_inf c \<or> n = Infinity)) < slot_weight left c
     | Paused \<Rightarrow> slot_next R c (Slot v (ch_drawn c) False (ch_inf c)) \<and> dry c (Slot v (ch_drawn c) False (ch_inf c))
     | Stopped \<Rightarrow> slot_next R c (Slot v (ch_drawn c) True (ch_inf c))
     | Raised e \<Rightarrow> False)"
proof -
  have c: "ok (ch_iter c)" "Infinity \<notin> taken (ch_iter c)" "\<not> ch_inf c" using assms by (auto simp: slot_ok_def)
  from c(1) show ?thesis
  proof (cases rule: next_cases)
    case (Next e v)
    moreover have "length (List.insert e (ch_drawn c)) \<le> Suc (length (ch_drawn c))"
      by (simp add: List.insert_def)
    ultimately show ?thesis using assms c
      by (cases "e = Infinity") (auto simp: slot_next_def slot_ok_def slot_weight_def)
  qed (use assms c in \<open>auto simp: slot_next_def slot_ok_def slot_weight_def dry_def\<close>)
qed

lemma slot_next_refl: "slot_good R c \<Longrightarrow> slot_next R c c"
  by (simp add: slot_next_def)

lemma inter_draw_good:
  assumes "list_all (slot_good R) cs" "Infinity \<notin> R"
  shows "\<exists>active cs'. inter_draw nxt cs = Some (Inr active, cs') \<and> list_all2 (slot_next R) cs cs' \<and>
    (if active then sum_list (map (slot_weight left) cs') < sum_list (map (slot_weight left) cs) else list_all2 dry cs cs')"
  using assms
proof (induction cs)
  case (Cons c cs)
  obtain active cs' where IH: "inter_draw nxt cs = Some (Inr active, cs')" "list_all2 (slot_next R) cs cs'"
    "if active then sum_list (map (slot_weight left) cs') < sum_list (map (slot_weight left) cs) else list_all2 dry cs cs'"
    using Cons by auto
  have le: "sum_list (map (slot_weight left) cs') \<le> sum_list (map (slot_weight left) cs)"
    using IH(2) by (induction rule: list_all2_induct) (auto simp: slot_next_def)
  show ?case
  proof (cases "ch_final c")
    case True
    then show ?thesis using IH Cons.prems by (auto simp: slot_next_refl dry_def)
  next
    case False
    then obtain out v where n: "nxt (ch_iter c) = Some (out, v)" and
      o: "case out of
       Next n \<Rightarrow> slot_next R c (Slot v (List.insert n (ch_drawn c)) (n = Infinity) (ch_inf c \<or> n = Infinity))
         \<and> slot_weight left (Slot v (List.insert n (ch_drawn c)) (n = Infinity) (ch_inf c \<or> n = Infinity)) < slot_weight left c
     | Paused \<Rightarrow> slot_next R c (Slot v (ch_drawn c) False (ch_inf c)) \<and> dry c (Slot v (ch_drawn c) False (ch_inf c))
     | Stopped \<Rightarrow> slot_next R c (Slot v (ch_drawn c) True (ch_inf c))
     | Raised e \<Rightarrow> False"
      using slot_draw[of R c] Cons.prems by auto
    show ?thesis
    proof (cases out)
      case (Next n)
      then show ?thesis using n o IH False le by auto
    next
      case Paused
      moreover have "slot_weight left (Slot v (ch_drawn c) False (ch_inf c)) \<le> slot_weight left c"
        using o Paused by (simp add: slot_next_def)
      ultimately show ?thesis using n o IH False by (auto split: if_splits)
    next
      case Stopped
      moreover have "slot_weight left (Slot v (ch_drawn c) True (ch_inf c)) \<le> slot_weight left c"
        using o Stopped by (simp add: slot_next_def)
      ultimately show ?thesis using n o IH False by (auto simp: dry_def split: if_splits)
    qed (use o in simp)
  qed
next
  case Nil
  show ?case by (rule exI[of _ False]) simp
qed

lemma slots_next:
  assumes "list_all2 (slot_next R) cs cs'"
  shows "map (den \<circ> ch_iter) cs' = map (den \<circ> ch_iter) cs" "list_all (slot_good R) cs'"
    "list_all (\<lambda>c. ended (ch_iter c) \<or> ch_inf c) cs \<Longrightarrow> list_all (\<lambda>c. ended (ch_iter c) \<or> ch_inf c) cs'"
    "list_ex (definite \<circ> ch_iter) cs \<Longrightarrow> list_ex (definite \<circ> ch_iter) cs'"
    "list_all (prompt \<circ> ch_iter) cs \<Longrightarrow> list_all (prompt \<circ> ch_iter) cs'"
    "map (shape \<circ> ch_iter) cs' = map (shape \<circ> ch_iter) cs"
    "sum_list (map (slot_weight left) cs') \<le> sum_list (map (slot_weight left) cs)"
  using assms by (induction rule: list_all2_induct) (auto simp: slot_next_def)

lemma dry_ended: "list_all2 dry cs cs' \<Longrightarrow> list_all2 (slot_next R) cs cs' \<Longrightarrow> \<not> list_all ch_final cs' \<Longrightarrow>
    \<not> list_all (\<lambda>c. ended (ch_iter c) \<or> ch_inf c) cs"
  by (induction rule: list_all2_induct) (auto simp: dry_def slot_next_def slot_ok_def)

lemma dry_cover: "list_all2 dry cs cs' \<Longrightarrow> list_all (prompt \<circ> ch_iter) cs \<Longrightarrow> list_all (slot_good R) cs' \<Longrightarrow> c \<in> set cs' \<Longrightarrow> \<not> ch_inf c \<Longrightarrow>
    cover (taken (ch_iter c)) = den (ch_iter c)"
  by (induction rule: list_all2_induct) (auto simp: dry_def slot_ok_def)

lemma final_cover: "list_all ch_final cs' \<Longrightarrow> list_all (slot_good R) cs' \<Longrightarrow> c \<in> set cs' \<Longrightarrow> \<not> ch_inf c \<Longrightarrow>
    cover (taken (ch_iter c)) = den (ch_iter c)"
  by (auto simp: slot_ok_def list_all_iff)

lemma slot_remove_good:
  assumes "slot_good R c" "\<not> ch_inf c \<Longrightarrow> set es \<subseteq> set (ch_drawn c)"
  shows "slot_good (R \<union> set es) (slot_remove es c)"
  using assms by (auto simp: slot_ok_def slot_remove_def)

lemma slot_remove_maps [simp]:
  "map (den \<circ> ch_iter) (map (slot_remove es) cs) = map (den \<circ> ch_iter) cs"
  "map (shape \<circ> ch_iter) (map (slot_remove es) cs) = map (shape \<circ> ch_iter) cs"
  "list_all (\<lambda>c. ended (ch_iter c) \<or> ch_inf c) (map (slot_remove es) cs) = list_all (\<lambda>c. ended (ch_iter c) \<or> ch_inf c) cs"
  "list_ex (definite \<circ> ch_iter) (map (slot_remove es) cs) = list_ex (definite \<circ> ch_iter) cs"
  "list_all (prompt \<circ> ch_iter) (map (slot_remove es) cs) = list_all (prompt \<circ> ch_iter) cs"
  "list_all ch_final (map (slot_remove es) cs) = list_all ch_final cs"
  "list_all ch_inf (map (slot_remove es) cs) = list_all ch_inf cs"
  by (induction cs) (auto simp: slot_remove_def)

end

context iterable
begin

lemma slot_inf: "slot_good R c \<Longrightarrow> ch_inf c \<Longrightarrow> den (ch_iter c) = UNIV"
  by (simp add: slot_ok_def taken_infinity)

lemma slot_sound:
  assumes "slot_good R c" "Elem a \<in> R"
  shows "a \<in> den (ch_iter c)"
proof (cases "ch_inf c")
  case True
  then show ?thesis using slot_inf[OF assms(1)] by simp
next
  case False
  then have "Elem a \<in> taken (ch_iter c)" "ok (ch_iter c)" using assms by (auto simp: slot_ok_def)
  then show ?thesis by (rule taken_den[rotated])
qed

lemma inter_pause_cover:
  assumes "\<forall>c\<in>set cs. \<not> ch_inf c \<longrightarrow> cover (taken (ch_iter c)) = den (ch_iter c)"
    and "list_all (slot_good R) cs" "\<not> list_all ch_inf cs" "set (drawn_by_all cs) \<subseteq> R" "Infinity \<notin> R"
  shows "cover R = \<Inter> (set (map (den \<circ> ch_iter) cs))"
proof
  have "a \<in> den (ch_iter c)" if "c \<in> set cs" "Elem a \<in> R" for a c
    using that assms(2) slot_sound unfolding list_all_iff by blast
  then show "cover R \<subseteq> \<Inter> (set (map (den \<circ> ch_iter) cs))" using assms(5) by (auto simp: cover_def)
  have "Elem a \<in> R" if a: "\<forall>c\<in>set cs. a \<in> den (ch_iter c)" for a
  proof (rule ccontr)
    assume "Elem a \<notin> R"
    then have "Elem a \<in> set (ch_drawn c)" if "c \<in> set cs" "\<not> ch_inf c" for c
    proof -
      have "Elem a \<in> taken (ch_iter c)" "taken (ch_iter c) \<subseteq> set (ch_drawn c) \<union> R"
        using a assms(1,2) that by (auto simp: cover_def list_all_iff slot_ok_def split: if_splits)
      with \<open>Elem a \<notin> R\<close> show ?thesis by auto
    qed
    then have "Elem a \<in> set (drawn_by_all cs)" using drawn_by_all[OF assms(3)] by blast
    with assms(4) \<open>Elem a \<notin> R\<close> show False by blast
  qed
  then show "\<Inter> (set (map (den \<circ> ch_iter) cs)) \<subseteq> cover R" using assms(5) by (auto simp: cover_def)
qed

lemma inter_emit_good:
  assumes "inter_good x" "\<not> infinite_set (in_base x)" "in_candidates x \<noteq> []"
  shows "\<exists>out x'. Some (inter_emit pick x) = Some (out, x') \<and> inter_step mk x out x'"
proof -
  obtain out x' where x': "inter_emit pick x = (out, x')" by (cases "inter_emit pick x")
  then obtain e where "out = Next e" "e \<in> set (in_candidates x)" "in_slots x' = in_slots x" "in_base x' = in_base x"
    "inter_all x' = inter_all x" "set (in_set x') = insert e (set (in_set x))" "inter_left left x' < inter_left left x"
    using inter_emit_weight[OF assms(3), where left = left] by blast
  with x' assms(1,2) show ?thesis
    by (auto simp: good_step_def inter_ok_def inter_den_def inter_shape_def inter_taken_def inter_ended_def inter_definite_def inter_prompt_def)
qed

lemma inter_step_after:
  assumes "inter_step mk y out z" "inter_den den y = inter_den den x" "inter_shape mk shape y = inter_shape mk shape x" "inter_taken y = inter_taken x"
    "inter_ended ended x \<Longrightarrow> inter_ended ended y" "inter_definite definite x \<Longrightarrow> inter_definite definite y"
    "inter_prompt prompt x \<Longrightarrow> inter_prompt prompt y"
    "inter_left left y \<le> inter_left left x"
  shows "inter_step mk x out z"
  using assms by (auto simp: good_step_def split: outcome.splits)

lemma inter_round_good:
  assumes x: "inter_good x" "\<not> infinite_set (in_base x)" "in_candidates x = []"
    and cs: "list_all2 (slot_next (inter_all x)) (in_slots x) cs" "\<not> list_all ch_inf cs"
    and x': "x' = Inter (in_base x) (map (slot_remove (drawn_by_all cs)) cs) (in_set x)
                            (filter (\<lambda>e. e \<notin> set (in_set x)) (drawn_by_all cs)) (in_final x)"
  shows "inter_good x'" "inter_den den x' = inter_den den x" "inter_shape mk shape x' = inter_shape mk shape x" "inter_taken x' = inter_taken x"
    "inter_ended ended x \<Longrightarrow> inter_ended ended x'" "inter_definite definite x \<Longrightarrow> inter_definite definite x'"
    "inter_prompt prompt x \<Longrightarrow> inter_prompt prompt x'"
    "inter_left left x' \<le> sum_list (map (slot_weight left) cs) + 1" "inter_left left x' \<le> inter_left left x"
    "\<not> infinite_set (in_base x')"
proof -
  note sn = slots_next[OF cs(1)]
  have all: "inter_all x' = inter_all x \<union> set (drawn_by_all cs)" using x(3) by (auto simp: x' inter_all_def)
  have d: "set (drawn_by_all cs) \<subseteq> set (ch_drawn c)" if "c \<in> set cs" "\<not> ch_inf c" for c
    using drawn_by_all[OF cs(2)] that by blast
  have "slot_good (inter_all x') (slot_remove (drawn_by_all cs) c)" if "c \<in> set cs" for c
    unfolding all using sn(2) that d by (intro slot_remove_good) (auto simp: list_all_iff)
  moreover have "Infinity \<notin> set (drawn_by_all cs)"
  proof -
    obtain c where c: "c \<in> set cs" "\<not> ch_inf c" using cs(2) by (auto simp: list_all_iff)
    with sn(2) have "Infinity \<notin> set (ch_drawn c)" by (auto simp: slot_ok_def list_all_iff)
    with d[OF c] show ?thesis by blast
  qed
  ultimately show "inter_good x'" using x(1,2) unfolding inter_ok_def all by (auto simp: x' list_all_iff)
  show "inter_den den x' = inter_den den x" using sn(1) by (simp add: inter_den_def x' slot_remove_def comp_def)
  show "inter_shape mk shape x' = inter_shape mk shape x" using sn(6) by (simp add: inter_shape_def x' slot_remove_def comp_def)
  show "inter_taken x' = inter_taken x" by (simp add: inter_taken_def x')
  show "inter_ended ended x \<Longrightarrow> inter_ended ended x'" using sn(3) by (simp add: inter_ended_def x')
  show "inter_definite definite x \<Longrightarrow> inter_definite definite x'" using sn(4) x(2) by (simp add: inter_definite_def x')
  show "inter_prompt prompt x \<Longrightarrow> inter_prompt prompt x'" using sn(5) by (simp add: inter_prompt_def x')
  have "sum_list (map (slot_weight left) (map (slot_remove (drawn_by_all cs)) cs))
      + length (filter (\<lambda>e. e \<notin> set (in_set x)) (drawn_by_all cs)) \<le> sum_list (map (slot_weight left) cs)"
    using removed_weight[OF cs(2), of left] length_filter_le[of "\<lambda>e. e \<notin> set (in_set x)" "drawn_by_all cs"] by linarith
  with sn(7) x(1,2,3)
  show "inter_left left x' \<le> sum_list (map (slot_weight left) cs) + 1" "inter_left left x' \<le> inter_left left x"
    by (auto simp: inter_left_def x' inter_ok_def)
  show "\<not> infinite_set (in_base x')" using x(2) by (simp add: x')
qed

lemma inter_loop_good:
  assumes "inter_good x" "\<not> infinite_set (in_base x)" "in_candidates x = []"
  shows "\<exists>out x'. inter_loop nxt pick x = Some (out, x') \<and> inter_step mk x out x'"
  using assms
proof (induction "inter_left left x" arbitrary: x rule: less_induct)
  case less
  have R: "list_all (slot_good (inter_all x)) (in_slots x)" "Infinity \<notin> inter_all x" "\<not> infinite_sent (in_base x)"
    using less.prems by (auto simp: inter_ok_def)
  obtain active cs where cs: "inter_draw nxt (in_slots x) = Some (Inr active, cs)" "list_all2 (slot_next (inter_all x)) (in_slots x) cs"
    "if active then sum_list (map (slot_weight left) cs) < sum_list (map (slot_weight left) (in_slots x)) else list_all2 dry (in_slots x) cs"
    using inter_draw_good[OF R(1,2)] by blast
  note sn = slots_next[OF cs(2)]
  show ?case
  proof (cases "list_all ch_inf cs")
    case True
    have "inter_loop nxt pick x = Some (Next Infinity, Inter (DynOps True True) cs (in_set x) (in_candidates x) (in_final x))"
      using True R(3) by (subst inter_loop.simps) (simp add: cs(1))
    moreover have univ: "\<forall>c\<in>set cs. den (ch_iter c) = UNIV"
      using True sn(2) slot_inf unfolding list_all_iff by blast
    moreover have "\<Inter> (set (map (den \<circ> ch_iter) (in_slots x))) = UNIV" using univ unfolding sn(1)[symmetric] by auto
    moreover have "\<not> list_ex (definite \<circ> ch_iter) cs" using True sn(2) definite_taken
      by (auto simp: list_all_iff list_ex_iff slot_ok_def)
    moreover have "\<not> list_ex (definite \<circ> ch_iter) (in_slots x)" using sn(4) calculation by blast
    ultimately show ?thesis using sn R less.prems True by (simp add: good_step_def inter_abs)
  next
    case False
    define x' where "x' = Inter (in_base x) (map (slot_remove (drawn_by_all cs)) cs) (in_set x)
                            (filter (\<lambda>e. e \<notin> set (in_set x)) (drawn_by_all cs)) (in_final x)"
    note rd = inter_round_good[OF less.prems cs(2) False x'_def]
    have loop: "inter_loop nxt pick x = (if in_candidates x' \<noteq> [] then Some (inter_emit pick x')
                    else if \<not> active \<or> list_all ch_final cs
                    then Some (if list_all ch_final cs
                               then (Stopped, Inter (in_base x) (in_slots x') (in_set x) [] True)
                               else (Paused, x'))
                    else inter_loop nxt pick x')"
      using False less.prems(3) by (subst inter_loop.simps) (simp add: cs(1) x'_def Let_def)
    show ?thesis
    proof (cases "in_candidates x' = []")
      case cand: True
      show ?thesis
      proof (cases "\<not> active \<or> list_all ch_final cs")
        case True
        have "inter_prompt prompt x \<or> list_all ch_final cs \<Longrightarrow>
            \<forall>c\<in>set cs. \<not> ch_inf c \<longrightarrow> cover (taken (ch_iter c)) = den (ch_iter c)"
          using True cs(3) sn(2) by (auto simp: inter_prompt_def dest: dry_cover final_cover split: if_splits)
        moreover have "set (drawn_by_all cs) \<subseteq> inter_all x" "inter_all x = set (in_set x)"
          using cand less.prems(3) by (auto simp: x'_def inter_all_def filter_empty_conv)
        ultimately have cov: "inter_prompt prompt x \<or> list_all ch_final cs \<Longrightarrow> cover (set (in_set x)) = inter_den den x"
          using inter_pause_cover[OF _ sn(2) False _ R(2)] sn(1) by (simp add: inter_den_def)
        have tk: "inter_taken x = set (in_set x)" using R(3) by (simp add: inter_taken_def)
        show ?thesis
        proof (cases "list_all ch_final cs")
          case fin: True
          let ?y = "Inter (in_base x) (in_slots x') (in_set x) [] True"
          have "inter_all ?y = inter_all x'" using cand by (simp add: inter_all_def x'_def)
          then have "inter_good ?y" "inter_den den ?y = inter_den den x" "inter_shape mk shape ?y = inter_shape mk shape x" "inter_taken ?y = inter_taken x" "inter_left left ?y \<le> inter_left left x"
            "inter_definite definite x \<Longrightarrow> inter_definite definite ?y"
            "inter_prompt prompt x \<Longrightarrow> inter_prompt prompt ?y"
            using rd cand by (auto simp: inter_ok_def inter_den_def inter_shape_def inter_taken_def inter_left_def inter_definite_def inter_prompt_def x'_def)
          moreover have "inter_ended ended ?y"
            using fin sn(2) by (auto simp: inter_ended_def x'_def list_all_iff slot_ok_def slot_remove_def)
          ultimately show ?thesis using loop cand fin cov tk by (auto simp: good_step_def)
        next
          case nf: False
          then have "\<not> inter_ended ended x" using True cs(3) dry_ended[OF _ cs(2)] by (auto simp: inter_ended_def)
          then show ?thesis using loop cand nf True cov tk rd by (auto simp: good_step_def)
        qed
      next
        case act: False
        then have "inter_left left x' < inter_left left x" using cs(3) rd(8) R(3) less.prems(3) by (auto simp: inter_left_def)
        from less.hyps[OF this rd(1,10) cand] obtain out y where
          "inter_loop nxt pick x' = Some (out, y)" "inter_step mk x' out y" by blast
        with act cand loop show ?thesis using inter_step_after[OF _ rd(2,3,4,5,6,7,9)] by auto
      qed
    next
      case cand: False
      obtain out y where "Some (inter_emit pick x') = Some (out, y)" "inter_step mk x' out y"
        using inter_emit_good[OF rd(1,10) cand] by blast
      with cand loop show ?thesis using inter_step_after[OF _ rd(2,3,4,5,6,7,9)] by auto
    qed
  qed
qed

end

context iterable
begin

lemma inter_iterable:
  "iterable (inter_next nxt pick) inter_good (inter_den den) (inter_shape mk shape) inter_taken (inter_ended ended) (inter_definite definite) (inter_prompt prompt) (inter_left left)"
proof
  fix x assume ok: "inter_good x"
  show "\<exists>out x'. inter_next nxt pick x = Some (out, x') \<and> inter_step mk x out x'"
  proof (cases "infinite_set (in_base x)")
    case True
    then have inf: "list_all ch_inf (in_slots x)" and R: "list_all (slot_good (inter_all x)) (in_slots x)" "Infinity \<notin> inter_all x"
      using ok by (auto simp: inter_ok_def)
    have den: "inter_den den x = UNIV"
      using inf R(1) slot_inf by (auto simp: inter_den_def list_all_iff)
    have ended: "inter_ended ended x" using inf by (auto simp: inter_ended_def list_all_iff)
    show ?thesis
    proof (cases "infinite_sent (in_base x)")
      case sent: True
      then show ?thesis using True ok den ended
        by (auto simp: inter_next_def dynops_next_def good_step_def inter_taken_def cover_def)
    next
      case False
      then show ?thesis using True ok den ended
        by (auto simp: inter_next_def dynops_next_def good_step_def inter_abs)
    qed
  next
    case False
    then show ?thesis using inter_loop_good[OF ok] inter_emit_good[OF ok]
      by (auto simp: inter_next_def dynops_next_def inter_op_def)
  qed
next
  fix x a assume "inter_good x" "Elem a \<in> inter_taken x"
  then have "Elem a \<in> inter_all x" "list_all (slot_good (inter_all x)) (in_slots x)"
    by (auto simp: inter_taken_def inter_all_def inter_ok_def split: if_splits)
  then have "a \<in> den (ch_iter c)" if "c \<in> set (in_slots x)" for c
    using that slot_sound unfolding list_all_iff by blast
  then show "a \<in> inter_den den x" by (auto simp: inter_den_def)
next
  fix x assume ok: "inter_good x" and i: "Infinity \<in> inter_taken x"
  then have "list_all ch_inf (in_slots x)" "list_all (slot_good (inter_all x)) (in_slots x)"
    by (auto simp: inter_taken_def inter_all_def inter_ok_def split: if_splits)
  then show "inter_den den x = UNIV" using slot_inf unfolding inter_den_def list_all_iff by auto
next
  fix x assume "inter_good x" "inter_definite definite x"
  then show "Infinity \<notin> inter_taken x" by (auto simp: inter_taken_def inter_all_def inter_ok_def inter_definite_def split: if_splits)
qed

end

section \<open>Difference\<close>

text \<open>
  A difference is only right for definite children: an infinite element among the elements to remove is
  ignored, and one given by the first child is passed on whatever is to be removed.  While
  elements to remove are collected nothing has been given, after that all children of the second kind have ended; \<open>given\<close> are the
  elements given, which the program keeps among the removed ones.
\<close>

definition diff_gone :: "('s \<Rightarrow> 'a elem set) \<Rightarrow> ('a, 's) diff \<Rightarrow> 'a elem set" where
  "diff_gone taken d = \<Union> ((taken \<circ> fst) ` set (di_iters d))"

definition diff_taken :: "('s \<Rightarrow> 'a elem set) \<Rightarrow> ('a, 's) diff \<Rightarrow> 'a elem set" where
  "diff_taken taken d = (if di_zero d then {} else taken (di_first d) - diff_gone taken d)"

definition diff_ok ::
  "('s \<Rightarrow> bool) \<Rightarrow> ('s \<Rightarrow> 'a set) \<Rightarrow> ('s \<Rightarrow> 'a elem set) \<Rightarrow> ('s \<Rightarrow> bool) \<Rightarrow> ('s \<Rightarrow> bool) \<Rightarrow> ('a, 's) diff \<Rightarrow> bool" where
  "diff_ok ok den taken ended definite d \<longleftrightarrow>
     di_base d = dynops_init \<and> ok (di_first d) \<and> list_all (ok \<circ> fst) (di_iters d) \<and> (di_zero d \<or>
     definite (di_first d) \<and> list_all (\<lambda>(v, f). ok v \<and> definite v) (di_iters d) \<and>
     list_all (\<lambda>(v, f). f \<longrightarrow> ended v \<and> cover (taken v) = den v) (di_iters d) \<and>
     (\<not> list_all snd (di_iters d) \<longrightarrow> taken (di_first d) = {}) \<and>
     set (di_remove d) = diff_gone taken d \<union> taken (di_first d))"

definition diff_den :: "('s \<Rightarrow> 'a set) \<Rightarrow> ('a, 's) diff \<Rightarrow> 'a set" where
  "diff_den den d = (if di_zero d then {} else den (di_first d) - \<Union> (set (map (den \<circ> fst) (di_iters d))))"

definition diff_shape :: "(bool \<Rightarrow> 'h \<Rightarrow> 'h list \<Rightarrow> 'k) \<Rightarrow> ('s \<Rightarrow> 'h) \<Rightarrow> ('a, 's) diff \<Rightarrow> 'k" where
  "diff_shape mk shape d = mk (di_zero d) (shape (di_first d)) (map (shape \<circ> fst) (di_iters d))"

definition diff_ended :: "('s \<Rightarrow> bool) \<Rightarrow> ('a, 's) diff \<Rightarrow> bool" where
  "diff_ended ended d \<longleftrightarrow> di_zero d \<or> ended (di_first d) \<and> list_all (ended \<circ> fst) (di_iters d)"

definition diff_left :: "('s \<Rightarrow> nat) \<Rightarrow> ('a, 's) diff \<Rightarrow> nat" where
  "diff_left left d = left (di_first d) + sum_list (map (left \<circ> fst) (di_iters d))"

definition diff_prompt :: "('s \<Rightarrow> bool) \<Rightarrow> ('a, 's) diff \<Rightarrow> bool" where
  "diff_prompt prompt d \<longleftrightarrow> di_zero d \<or> prompt (di_first d) \<and> list_all snd (di_iters d)"

lemmas diff_abs = diff_ok_def diff_den_def diff_shape_def diff_taken_def diff_ended_def diff_left_def diff_gone_def diff_prompt_def

context iterable
begin

abbreviation diff_good :: "('a, 's) diff \<Rightarrow> bool" where
  "diff_good \<equiv> diff_ok ok den taken ended definite"

abbreviation diff_step :: "(bool \<Rightarrow> 'h \<Rightarrow> 'h list \<Rightarrow> 'k) \<Rightarrow> ('a, 's) diff \<Rightarrow> 'a elem outcome \<Rightarrow> ('a, 's) diff \<Rightarrow> bool" where
  "diff_step mk \<equiv> good_step diff_good (diff_den den) (diff_shape mk shape) (diff_taken taken) (diff_ended ended) (\<lambda>_. True) (diff_prompt prompt) (diff_left left)"

lemma diff_draw_good:
  assumes "ok v" "taken v \<subseteq> set es"
  shows "\<exists>out es' v'. diff_draw nxt es v = Some (out, es', v') \<and> advanced v v' \<and> set es' = set es \<union> taken v' \<and>
    (out = Paused \<and> \<not> ended v \<or> out = Stopped \<and> ended v' \<and> cover (taken v') = den v')"
  using assms
proof (induction "left v" arbitrary: v es rule: less_induct)
  case less
  from less.prems(1) show ?case
  proof (cases rule: next_cases)
    case (Next e v1)
    then have "taken v1 \<subseteq> set (List.insert e es)" using less.prems by auto
    from less.hyps[OF Next(9,2) this] obtain out es' v' where
      v': "diff_draw nxt (List.insert e es) v1 = Some (out, es', v')" "advanced v1 v'" "set es' = set (List.insert e es) \<union> taken v'"
      "out = Paused \<and> \<not> ended v1 \<or> out = Stopped \<and> ended v' \<and> cover (taken v') = den v'" by blast
    have "advanced v v1" using Next by (auto simp: advanced_def)
    with v'(2) have "advanced v v'" by (blast intro: advanced_trans)
    moreover have "e \<in> taken v'" using v'(2) Next by (auto simp: advanced_def)
    ultimately show ?thesis using v' Next by (subst diff_draw.simps) auto
  qed (use less.prems in \<open>subst diff_draw.simps, auto simp: advanced_def\<close>)+
qed

lemma diff_filter_good:
  assumes "ok v" "definite v" "taken v \<subseteq> set es"
  shows "\<exists>out es' v'. diff_filter nxt es v = Some (out, es', v') \<and> advanced v v' \<and>
    (case out of
       Next n \<Rightarrow> n \<notin> set es \<and> n \<in> taken v' \<and> taken v' \<subseteq> insert n (set es) \<and> left v' < left v \<and> set es' = insert n (set es)
     | Paused \<Rightarrow> taken v' \<subseteq> set es \<and> (prompt v \<longrightarrow> cover (taken v') = den v') \<and> \<not> ended v \<and> es' = es
     | Stopped \<Rightarrow> taken v' \<subseteq> set es \<and> cover (taken v') = den v' \<and> ended v' \<and> es' = es
     | Raised _ \<Rightarrow> False)"
  using assms
proof (induction "left v" arbitrary: v rule: less_induct)
  case less
  from less.prems(1) show ?case
  proof (cases rule: next_cases)
    case (Next e v1)
    have e: "e \<noteq> Infinity" using definite_taken[OF Next(2) Next(6)] less.prems Next(8) by auto
    show ?thesis
    proof (cases "seen e es")
      case True
      then have "taken v1 \<subseteq> set es" using Next less.prems by (auto simp: seen_def)
      from less.hyps[OF Next(9,2) Next(6) this] less.prems(2) obtain out es' v' where
        v': "diff_filter nxt es v1 = Some (out, es', v')" "advanced v1 v'" and
        o: "case out of
          Next n \<Rightarrow> n \<notin> set es \<and> n \<in> taken v' \<and> taken v' \<subseteq> insert n (set es) \<and> left v' < left v1 \<and> set es' = insert n (set es)
        | Paused \<Rightarrow> taken v' \<subseteq> set es \<and> (prompt v1 \<longrightarrow> cover (taken v') = den v') \<and> \<not> ended v1 \<and> es' = es
        | Stopped \<Rightarrow> taken v' \<subseteq> set es \<and> cover (taken v') = den v' \<and> ended v' \<and> es' = es
        | Raised _ \<Rightarrow> False" by blast
      have "advanced v v1" using Next by (auto simp: advanced_def)
      with v'(2) have "advanced v v'" by (blast intro: advanced_trans)
      with True v' o Next show ?thesis
        by (subst diff_filter.simps) (auto split: outcome.splits)
    next
      case False
      with Next e less.prems show ?thesis
        by (subst diff_filter.simps) (auto simp: advanced_def seen_def)
    qed
  qed (use less.prems in \<open>subst diff_filter.simps, auto simp: advanced_def\<close>)+
qed

text \<open>One child among those to remove, and all of them, after a round of collecting.\<close>

definition remove_next :: "'s \<times> bool \<Rightarrow> 's \<times> bool \<Rightarrow> bool" where
  "remove_next p p' \<longleftrightarrow> advanced (fst p) (fst p') \<and> (snd p \<longrightarrow> snd p') \<and> (snd p' \<longrightarrow> ended (fst p') \<and> cover (taken (fst p')) = den (fst p'))"

lemma diff_collect_good:
  assumes "list_all (\<lambda>(v, f). ok v \<and> (f \<longrightarrow> ended v)) vs" "\<Union> ((taken \<circ> fst) ` set vs) \<subseteq> set es"
  shows "\<exists>p es' vs'. diff_collect nxt es vs = Some (Inr p, es', vs') \<and> list_all2 remove_next vs vs' \<and>
    set es' = set es \<union> \<Union> ((taken \<circ> fst) ` set vs') \<and> (if p then \<not> list_all (ended \<circ> fst) vs else list_all snd vs')"
  using assms
proof (induction vs arbitrary: es)
  case (Cons q vs)
  obtain v f where q: "q = (v, f)" by (cases q)
  obtain out es1 v' where v': "diff_draw nxt es v = Some (out, es1, v')" "advanced v v'" "set es1 = set es \<union> taken v'"
    "out = Paused \<and> \<not> ended v \<or> out = Stopped \<and> ended v' \<and> cover (taken v') = den v'"
    using diff_draw_good[of v es] Cons.prems q by auto
  obtain p es' vs' where r: "diff_collect nxt es1 vs = Some (Inr p, es', vs')" "list_all2 remove_next vs vs'"
    "set es' = set es1 \<union> \<Union> ((taken \<circ> fst) ` set vs')" "if p then \<not> list_all (ended \<circ> fst) vs else list_all snd vs'"
  proof -
    have "list_all (\<lambda>(v, f). ok v \<and> (f \<longrightarrow> ended v)) vs" "\<Union> ((taken \<circ> fst) ` set vs) \<subseteq> set es1"
      using Cons.prems v'(3) by auto
    from Cons.IH[OF this] show thesis using that by blast
  qed
  from v'(4) show ?case
  proof
    assume o: "out = Paused \<and> \<not> ended v"
    then have "\<not> f" using Cons.prems q by auto
    then have "remove_next q (v', f)" using v'(2) by (simp add: remove_next_def q)
    moreover have "diff_collect nxt es (q # vs) = Some (Inr True, es', (v', f) # vs')"
      using o v'(1) r(1) by (simp add: q)
    ultimately show ?thesis using r v'(3) o q by (intro exI[of _ True] exI[of _ es'] exI[of _ "(v', f) # vs'"]) auto
  next
    assume o: "out = Stopped \<and> ended v' \<and> cover (taken v') = den v'"
    then have "remove_next q (v', True)" using v'(2) by (simp add: remove_next_def q)
    moreover have "diff_collect nxt es (q # vs) = Some (Inr p, es', (v', True) # vs')"
      using o v'(1) r(1) by (simp add: q)
    ultimately show ?thesis using r v'(3) o by (intro exI[of _ p] exI[of _ es'] exI[of _ "(v', True) # vs'"]) auto
  qed
next
  case Nil
  show ?case by (rule exI[of _ False]) simp
qed

lemma removes_next:
  assumes "list_all2 remove_next vs vs'"
  shows "map (den \<circ> fst) vs' = map (den \<circ> fst) vs" "map (shape \<circ> fst) vs' = map (shape \<circ> fst) vs" "list_all (ended \<circ> fst) vs \<Longrightarrow> list_all (ended \<circ> fst) vs'"
    "list_all (\<lambda>(v, f). ok v \<and> definite v) vs \<Longrightarrow> list_all (\<lambda>(v, f). ok v \<and> definite v) vs'"
    "list_all (\<lambda>(v, f). f \<longrightarrow> ended v \<and> cover (taken v) = den v) vs'" "list_all (ok \<circ> fst) vs'"
    "sum_list (map (left \<circ> fst) vs') \<le> sum_list (map (left \<circ> fst) vs)"
    "\<Union> ((taken \<circ> fst) ` set vs) \<subseteq> \<Union> ((taken \<circ> fst) ` set vs')"
    "list_all snd vs \<Longrightarrow> list_all snd vs'"
  using assms by (induction rule: list_all2_induct) (auto simp: remove_next_def advanced_def)

lemma diff_cover:
  assumes "Infinity \<notin> A" "list_all (\<lambda>(v, f). ok v \<and> definite v) vs" "list_all (\<lambda>(v, f). f \<longrightarrow> ended v \<and> cover (taken v) = den v) vs" "list_all snd vs"
  shows "cover (A - \<Union> ((taken \<circ> fst) ` set vs)) = cover A - \<Union> (set (map (den \<circ> fst) vs))"
proof -
  have "den v = {a. Elem a \<in> taken v}" if "(v, f) \<in> set vs" for v f
  proof -
    have "ok v" "definite v" "cover (taken v) = den v" using assms(2-4) that unfolding list_all_iff by fastforce+
    moreover from this have "Infinity \<notin> taken v" using definite_taken by blast
    ultimately show ?thesis by (simp add: cover_def)
  qed
  then have "\<Union> (set (map (den \<circ> fst) vs)) = {a. Elem a \<in> \<Union> ((taken \<circ> fst) ` set vs)}" by force
  with assms(1) show ?thesis by (auto simp: cover_def)
qed

lemma diff_collected_good:
  assumes "diff_good d" "\<not> di_zero d" "\<not> list_all snd (di_iters d)"
  obtains p es vs d' where "diff_collect nxt (di_remove d) (di_iters d) = Some (Inr p, es, vs)"
    "d' = Diff (di_base d) (di_first d) vs (di_zero d) es" "diff_good d'" "diff_den den d' = diff_den den d" "diff_shape mk shape d' = diff_shape mk shape d"
    "diff_ended ended d \<Longrightarrow> diff_ended ended d'" "\<not> diff_prompt prompt d" "diff_taken taken d = {}" "diff_taken taken d' = {}"
    "diff_left left d' \<le> diff_left left d" "if p then \<not> diff_ended ended d else list_all snd vs"
proof -
  have d: "list_all (\<lambda>(v, f). ok v \<and> definite v) (di_iters d)" "set (di_remove d) = diff_gone taken d \<union> taken (di_first d)"
    "list_all (\<lambda>(v, f). f \<longrightarrow> ended v \<and> cover (taken v) = den v) (di_iters d)" "taken (di_first d) = {}" "di_base d = dynops_init"
    "ok (di_first d)" "definite (di_first d)"
    using assms by (auto simp: diff_ok_def)
  have "list_all (\<lambda>(v, f). ok v \<and> (f \<longrightarrow> ended v)) (di_iters d)" "\<Union> ((taken \<circ> fst) ` set (di_iters d)) \<subseteq> set (di_remove d)"
    using d(1-3) by (auto simp: list_all_iff diff_gone_def)
  from diff_collect_good[OF this] obtain p es vs where c: "diff_collect nxt (di_remove d) (di_iters d) = Some (Inr p, es, vs)"
    "list_all2 remove_next (di_iters d) vs" "set es = set (di_remove d) \<union> \<Union> ((taken \<circ> fst) ` set vs)"
    "if p then \<not> list_all (ended \<circ> fst) (di_iters d) else list_all snd vs" by blast
  note rn = removes_next[OF c(2)]
  have "set es = \<Union> ((taken \<circ> fst) ` set vs)" using c(3) d(2,4) rn(8) by (auto simp: diff_gone_def)
  then show thesis using c(1,4) d rn assms(2,3)
    by (intro that[OF c(1) refl]) (auto simp: diff_abs)
qed

lemma diff_filtered_good:
  assumes "diff_good d" "\<not> di_zero d" "list_all snd (di_iters d)"
  shows "\<exists>out d'. diff_op nxt d = Some (out, d') \<and> diff_step mk d out d'"
proof -
  have d: "list_all (\<lambda>(v, f). ok v \<and> definite v) (di_iters d)" "set (di_remove d) = diff_gone taken d \<union> taken (di_first d)"
    "list_all (\<lambda>(v, f). f \<longrightarrow> ended v \<and> cover (taken v) = den v) (di_iters d)" "di_base d = dynops_init"
    "ok (di_first d)" "definite (di_first d)"
    using assms by (auto simp: diff_ok_def)
  have "taken (di_first d) \<subseteq> set (di_remove d)" using d(2) by blast
  from diff_filter_good[OF d(5,6) this] obtain out es v where
    f: "diff_filter nxt (di_remove d) (di_first d) = Some (out, es, v)" "advanced (di_first d) v" and
    o: "case out of
       Next n \<Rightarrow> n \<notin> set (di_remove d) \<and> n \<in> taken v \<and> taken v \<subseteq> insert n (set (di_remove d)) \<and> left v < left (di_first d)
          \<and> set es = insert n (set (di_remove d))
     | Paused \<Rightarrow> taken v \<subseteq> set (di_remove d) \<and> (prompt (di_first d) \<longrightarrow> cover (taken v) = den v) \<and> \<not> ended (di_first d) \<and> es = di_remove d
     | Stopped \<Rightarrow> taken v \<subseteq> set (di_remove d) \<and> cover (taken v) = den v \<and> ended v \<and> es = di_remove d
     | Raised _ \<Rightarrow> False" by blast
  let ?d = "Diff (di_base d) v (di_iters d) (di_zero d) es"
  have op: "diff_op nxt d = Some (out, ?d)" using assms f(1) by (subst diff_op.simps) simp
  have v: "ok v" "den v = den (di_first d)" "shape v = shape (di_first d)" "definite v" "prompt (di_first d) \<Longrightarrow> prompt v" "ended (di_first d) \<Longrightarrow> ended v"
    "taken (di_first d) \<subseteq> taken v" "left v \<le> left (di_first d)"
    using f(2) d(6) by (auto simp: advanced_def)
  have "list_all (\<lambda>(v, f). f \<longrightarrow> ended v) (di_iters d)" using d(3) by (auto simp: list_all_iff)
  then have fin: "list_all (ended \<circ> fst) (di_iters d)" using assms(3) unfolding list_all_iff by fastforce
  have cov: "cover (taken (di_first d) - diff_gone taken d) = diff_den den d"
    if "taken v \<subseteq> set (di_remove d)" "cover (taken v) = den v"
  proof -
    have "taken v - diff_gone taken d = taken (di_first d) - diff_gone taken d" using that(1) v(7) d(2) by auto
    moreover have "Infinity \<notin> taken v" using definite_taken[OF v(1,4)] .
    ultimately show ?thesis using diff_cover[OF _ d(1,3) assms(3)] that(2) v(2) assms(2)
      by (metis diff_den_def diff_gone_def)
  qed
  show ?thesis
  proof (cases out)
    case (Next n)
    have "set es = diff_gone taken d \<union> taken v" "taken v - diff_gone taken d = insert n (taken (di_first d) - diff_gone taken d)"
      using o v(7) d(2) unfolding Next by auto
    with Next op o v d assms fin show ?thesis by (auto simp: good_step_def diff_abs)
  next
    case Paused
    have "set es = diff_gone taken d \<union> taken v" "taken v - diff_gone taken d = taken (di_first d) - diff_gone taken d"
      using o v(7) d(2) unfolding Paused by auto
    with Paused op o v d assms fin cov show ?thesis by (auto simp: good_step_def diff_abs)
  next
    case Stopped
    have "set es = diff_gone taken d \<union> taken v" "taken v - diff_gone taken d = taken (di_first d) - diff_gone taken d"
      using o v(7) d(2) unfolding Stopped by auto
    with Stopped op o v d assms fin cov show ?thesis by (auto simp: good_step_def diff_abs)
  qed (use o in simp)
qed

lemma diff_op_good:
  assumes "diff_good d"
  shows "\<exists>out d'. diff_op nxt d = Some (out, d') \<and> diff_step mk d out d'"
proof (cases "di_zero d")
  case True
  then show ?thesis using assms by (subst diff_op.simps) (simp add: good_step_def diff_abs cover_def)
next
  case zero: False
  show ?thesis
  proof (cases "list_all snd (di_iters d)")
    case True
    then show ?thesis using diff_filtered_good assms zero by blast
  next
    case False
    show ?thesis
    proof (rule diff_collected_good[OF assms zero False])
      fix p es vs d'
      assume c: "diff_collect nxt (di_remove d) (di_iters d) = Some (Inr p, es, vs)" "d' = Diff (di_base d) (di_first d) vs (di_zero d) es"
        and d': "diff_good d'" "diff_den den d' = diff_den den d" "diff_shape mk shape d' = diff_shape mk shape d" "diff_ended ended d \<Longrightarrow> diff_ended ended d'" "\<not> diff_prompt prompt d"
        "diff_taken taken d = {}" "diff_taken taken d' = {}" "diff_left left d' \<le> diff_left left d"
        "if p then \<not> diff_ended ended d else list_all snd vs"
      have op: "diff_op nxt d = (if p then Some (Paused, d') else diff_op nxt d')"
        using zero False c by (subst diff_op.simps) simp
      show ?thesis
      proof (cases p)
        case True
        then show ?thesis using op d' by (simp add: good_step_def)
      next
        case p: False
        then have "list_all snd (di_iters d')" "\<not> di_zero d'" using d' zero c(2) by auto
        then obtain out y where y: "diff_op nxt d' = Some (out, y)" "diff_step mk d' out y"
          using diff_filtered_good d'(1) by blast
        moreover have "diff_step mk d out y" using y(2) d' by (auto simp: good_step_def split: outcome.splits)
        ultimately show ?thesis using op p by simp
      qed
    qed
  qed
qed

lemma diff_iterable:
  "iterable (diff_next nxt) diff_good (diff_den den) (diff_shape mk shape) (diff_taken taken) (diff_ended ended) (\<lambda>_. True) (diff_prompt prompt) (diff_left left)"
proof
  fix d assume ok: "diff_good d"
  then show "\<exists>out d'. diff_next nxt d = Some (out, d') \<and> diff_step mk d out d'"
    using diff_op_good[OF ok] by (auto simp: diff_next_def dynops_next_def diff_ok_def dynops_init_def)
  fix a assume a: "Elem a \<in> diff_taken taken d"
  show "a \<in> diff_den den d"
  proof (cases "di_zero d")
    case False
    then have d: "taken (di_first d) \<noteq> {}" "Elem a \<in> taken (di_first d)" "Elem a \<notin> diff_gone taken d" using a by (auto simp: diff_taken_def)
    then have fin: "list_all snd (di_iters d)" "list_all (\<lambda>(v, f). ok v \<and> definite v) (di_iters d)"
      "list_all (\<lambda>(v, f). f \<longrightarrow> ended v \<and> cover (taken v) = den v) (di_iters d)" "ok (di_first d)"
      using ok False by (auto simp: diff_ok_def)
    have "Elem a \<in> {Elem a} - \<Union> ((taken \<circ> fst) ` set (di_iters d))" using d(3) by (auto simp: diff_gone_def)
    then have "a \<in> cover ({Elem a} - \<Union> ((taken \<circ> fst) ` set (di_iters d)))" by (auto simp: cover_def)
    then have "a \<notin> \<Union> (set (map (den \<circ> fst) (di_iters d)))" using diff_cover[OF _ fin(2,3,1), of "{Elem a}"] by auto
    with taken_den[OF fin(4) d(2)] False show ?thesis by (simp add: diff_den_def)
  qed (use a in \<open>simp add: diff_taken_def\<close>)
next
  have no: "Infinity \<notin> diff_taken taken d" if "diff_good d" for d
    using that definite_taken by (auto simp: diff_ok_def diff_taken_def)
  fix d assume "diff_good d"
  then show "Infinity \<notin> diff_taken taken d" by (rule no)
  show "Infinity \<in> diff_taken taken d \<Longrightarrow> diff_den den d = UNIV" using no[OF \<open>diff_good d\<close>] by simp
qed

end

end
