(* ===== verification/Dynops_Tree.thy ===== *)
theory Dynops_Tree
  imports Dynops_Contract "HOL-Library.Sublist"
begin

text \<open>
  Trees of dynamic iterables, as the program builds them from the set operations over lists that are filled in by
  pending answers.  A list that a pending request will fill carries the number of the request: it is the list the
  callback of the request holds.  The tree provides the contract of \<open>Dynops_Contract\<close>.
\<close>

section \<open>Trees of iterables\<close>

datatype 'a dyn =
    PlainIter "'a elem list" nat
  | DynList "nat option" "'a elem dlist"
  | DynInfinite dynops
  | DynUnion "('a, 'a dyn) union"
  | DynInter "('a, 'a dyn) inter"
  | DynDiff "('a, 'a dyn) diff"

text \<open>The attribute \<open>infinite_set\<close>, which the iterator of a plain list does not have.\<close>

fun infinite_attr :: "'a dyn \<Rightarrow> bool option" where
  "infinite_attr (PlainIter es i) = None"
| "infinite_attr (DynList r l) = Some False"
| "infinite_attr (DynInfinite b) = Some (infinite_set b)"
| "infinite_attr (DynUnion u) = Some (infinite_set (un_base u))"
| "infinite_attr (DynInter x) = Some (infinite_set (in_base x))"
| "infinite_attr (DynDiff d) = Some (infinite_set (di_base d))"

definition dyn_list :: "'a elem list \<Rightarrow> 'a dyn" where
  "dyn_list es = DynList None (list_init es)"

definition dyn_infinite :: "'a dyn" where
  "dyn_infinite = DynInfinite (DynOps True False)"

definition dyn_union :: "'a dyn list \<Rightarrow> 'a dyn" where
  "dyn_union ts = DynUnion (union_init infinite_attr ts)"

definition dyn_inter :: "'a dyn list \<Rightarrow> 'a dyn" where
  "dyn_inter ts = DynInter (inter_init infinite_attr ts)"

definition dyn_diff :: "'a dyn \<Rightarrow> 'a dyn list \<Rightarrow> 'a dyn res" where
  "dyn_diff t ts = map_sum id DynDiff (difference_init infinite_attr t ts)"

text \<open>\<open>next\<close> of a tree whose height is below the number.\<close>

primrec dyn_step :: "nat \<Rightarrow> ('a elem list \<Rightarrow> nat) \<Rightarrow> 'a dyn \<Rightarrow> ('a elem, 'a dyn) step" where
  "dyn_step 0 pick t = None"
| "dyn_step (Suc n) pick t =
     (case t of
        PlainIter es i \<Rightarrow> Some (if i < length es then (Next (es ! i), PlainIter es (Suc i)) else (Stopped, t))
      | DynList r l \<Rightarrow> map_option (map_prod id (DynList r)) (list_op l)
      | DynInfinite b \<Rightarrow> map_option (map_prod id DynInfinite) (dynops_next id (\<lambda>b _. b) (\<lambda>b. Some (Stopped, b)) b)
      | DynUnion u \<Rightarrow> map_option (map_prod id DynUnion) (union_next (dyn_step n pick) u)
      | DynInter x \<Rightarrow> map_option (map_prod id DynInter) (inter_next (dyn_step n pick) pick x)
      | DynDiff d \<Rightarrow> map_option (map_prod id DynDiff) (diff_next (dyn_step n pick) d))"

lemma size_union_child [termination_simp]: "v \<in> set (un_iters u) \<Longrightarrow> size v < Suc (size_union (\<lambda>x. 0) size u)"
  using size_list_estimation'[of v "un_iters u" "size v" size] by (cases u) auto

lemma size_inter_child [termination_simp]:
  assumes "c \<in> set (in_slots x)"
  shows "size (ch_iter c) < Suc (size_inter (\<lambda>x. 0) size x)"
proof -
  have "size (ch_iter c) \<le> size_slot (\<lambda>_. 0) size c" by (cases c) simp
  with assms size_list_estimation'[of c "in_slots x" "size (ch_iter c)" "size_slot (\<lambda>_. 0) size"] show ?thesis by (cases x) auto
qed

lemma size_diff_first [termination_simp]: "size (di_first d) < Suc (size_diff (\<lambda>x. 0) size d)"
  by (cases d) auto

lemma size_diff_child [termination_simp]:
  assumes "(v, f) \<in> set (di_iters d)"
  shows "size v < Suc (size_diff (\<lambda>x. 0) size d)"
proof -
  have "size v \<le> size_prod size (\<lambda>_. 0) (v, f)" by simp
  with assms size_list_estimation'[of "(v, f)" "di_iters d" "size v" "size_prod size (\<lambda>_. 0)"] show ?thesis by (cases d) auto
qed

fun height :: "'a dyn \<Rightarrow> nat" where
  "height (DynUnion u) = Suc (foldr max (map height (un_iters u)) 0)"
| "height (DynInter x) = Suc (foldr max (map (\<lambda>c. height (ch_iter c)) (in_slots x)) 0)"
| "height (DynDiff d) = Suc (max (height (di_first d)) (foldr max (map (\<lambda>(v, f). height v) (di_iters d)) 0))"
| "height _ = 0"

definition dyn_next :: "('a elem list \<Rightarrow> nat) \<Rightarrow> 'a dyn \<Rightarrow> ('a elem, 'a dyn) step" where
  "dyn_next pick t = dyn_step (Suc (height t)) pick t"

section \<open>Filling in answers\<close>

text \<open>What happens to the list of a request, in a tree where every operation is triggered by its children.\<close>

fun dyn_update :: "nat \<Rightarrow> ('a elem dlist \<Rightarrow> 'a elem dlist) \<Rightarrow> 'a dyn \<Rightarrow> 'a dyn" where
  "dyn_update r f (DynList q l) = DynList q (if q = Some r then f l else l)"
| "dyn_update r f (DynUnion u) =
     DynUnion (Union (un_base u) (map (dyn_update r f) (un_iters u)) (un_set u) (un_final u))"
| "dyn_update r f (DynInter x) =
     DynInter (Inter (in_base x)
       (map (\<lambda>c. Slot (dyn_update r f (ch_iter c)) (ch_drawn c) (ch_final c) (ch_inf c)) (in_slots x))
       (in_set x) (in_candidates x) (in_final x))"
| "dyn_update r f (DynDiff d) =
     DynDiff (Diff (di_base d) (dyn_update r f (di_first d)) (map (\<lambda>(v, b). (dyn_update r f v, b)) (di_iters d))
       (di_zero d) (di_remove d))"
| "dyn_update r f t = t"

section \<open>The abstraction of a tree\<close>

text \<open>How far a list can be read: to its end, or to the maximal length it was given.\<close>

definition readable :: "'e dlist \<Rightarrow> nat" where
  "readable l = (case max_length l of None \<Rightarrow> length (elems l) | Some m \<Rightarrow> min (length (elems l)) (max m (index l)))"

definition list_ended :: "'e dlist \<Rightarrow> bool" where
  "list_ended l \<longleftrightarrow> is_final l \<or> (case max_length l of None \<Rightarrow> False | Some m \<Rightarrow> m \<le> length (elems l))"

lemma union_congs [fundef_cong]:
  "u = u' \<Longrightarrow> (\<And>v. v \<in> set (un_iters u') \<Longrightarrow> f v = g v) \<Longrightarrow> union_den f u = union_den g u'"
  "u = u' \<Longrightarrow> (\<And>v. v \<in> set (un_iters u') \<Longrightarrow> p v = q v) \<Longrightarrow> union_ended p u = union_ended q u'"
  "u = u' \<Longrightarrow> (\<And>v. v \<in> set (un_iters u') \<Longrightarrow> p v = q v) \<Longrightarrow> union_definite p u = union_definite q u'"
  "u = u' \<Longrightarrow> (\<And>v. v \<in> set (un_iters u') \<Longrightarrow> p v = q v) \<Longrightarrow> union_prompt p u = union_prompt q u'"
  "u = u' \<Longrightarrow> (\<And>v. v \<in> set (un_iters u') \<Longrightarrow> l v = m v) \<Longrightarrow> union_left l u = union_left m u'"
  by (auto simp: union_abs list_all_iff intro!: arg_cong[where f = sum_list])

lemma shape_congs [fundef_cong]:
  "u = u' \<Longrightarrow> (\<And>v. v \<in> set (un_iters u') \<Longrightarrow> f v = g v) \<Longrightarrow> union_shape U f u = union_shape U g u'"
  "x = x' \<Longrightarrow> (\<And>c. c \<in> set (in_slots x') \<Longrightarrow> f (ch_iter c) = g (ch_iter c)) \<Longrightarrow> inter_shape N f x = inter_shape N g x'"
  "d = d' \<Longrightarrow> f (di_first d') = g (di_first d') \<Longrightarrow> (\<And>v b. (v, b) \<in> set (di_iters d') \<Longrightarrow> f v = g v) \<Longrightarrow>
     diff_shape D f d = diff_shape D g d'"
  by (auto simp: union_shape_def inter_shape_def diff_shape_def intro!: arg_cong[where f = "U _"] arg_cong[where f = N] arg_cong[where f = "D _ _"])

lemma inter_congs [fundef_cong]:
  "x = x' \<Longrightarrow> (\<And>c. c \<in> set (in_slots x') \<Longrightarrow> f (ch_iter c) = g (ch_iter c)) \<Longrightarrow> inter_den f x = inter_den g x'"
  "x = x' \<Longrightarrow> (\<And>c. c \<in> set (in_slots x') \<Longrightarrow> p (ch_iter c) = q (ch_iter c)) \<Longrightarrow> inter_ended p x = inter_ended q x'"
  "x = x' \<Longrightarrow> (\<And>c. c \<in> set (in_slots x') \<Longrightarrow> p (ch_iter c) = q (ch_iter c)) \<Longrightarrow> inter_definite p x = inter_definite q x'"
  "x = x' \<Longrightarrow> (\<And>c. c \<in> set (in_slots x') \<Longrightarrow> p (ch_iter c) = q (ch_iter c)) \<Longrightarrow> inter_prompt p x = inter_prompt q x'"
  "x = x' \<Longrightarrow> (\<And>c. c \<in> set (in_slots x') \<Longrightarrow> l (ch_iter c) = m (ch_iter c)) \<Longrightarrow> inter_left l x = inter_left m x'"
  by (auto simp: inter_abs list_all_iff list_ex_iff slot_weight_def intro!: arg_cong[where f = sum_list])

lemma diff_congs [fundef_cong]:
  "d = d' \<Longrightarrow> f (di_first d') = g (di_first d') \<Longrightarrow> (\<And>v b. (v, b) \<in> set (di_iters d') \<Longrightarrow> f v = g v) \<Longrightarrow> diff_den f d = diff_den g d'"
  "d = d' \<Longrightarrow> h (di_first d') = k (di_first d') \<Longrightarrow> (\<And>v b. (v, b) \<in> set (di_iters d') \<Longrightarrow> h v = k v) \<Longrightarrow> diff_taken h d = diff_taken k d'"
  "d = d' \<Longrightarrow> p (di_first d') = q (di_first d') \<Longrightarrow> (\<And>v b. (v, b) \<in> set (di_iters d') \<Longrightarrow> p v = q v) \<Longrightarrow> diff_ended p d = diff_ended q d'"
  "d = d' \<Longrightarrow> p (di_first d') = q (di_first d') \<Longrightarrow> diff_prompt p d = diff_prompt q d'"
  "d = d' \<Longrightarrow> l (di_first d') = m (di_first d') \<Longrightarrow> (\<And>v b. (v, b) \<in> set (di_iters d') \<Longrightarrow> l v = m v) \<Longrightarrow> diff_left l d = diff_left m d'"
  by (force simp: diff_abs list_all_iff intro!: arg_cong[where f = sum_list])+

fun dyn_den :: "'a dyn \<Rightarrow> 'a set" where
  "dyn_den (PlainIter es i) = cover (set es)"
| "dyn_den (DynList r l) = cover (set (take (readable l) (elems l)))"
| "dyn_den (DynInfinite b) = UNIV"
| "dyn_den (DynUnion u) = union_den dyn_den u"
| "dyn_den (DynInter x) = inter_den dyn_den x"
| "dyn_den (DynDiff d) = diff_den dyn_den d"

text \<open>
  The shape of a tree: its operations over the contents of its lists, with their requests, whether they have ended, and their maximal length.
  Asking for elements does not change it.
\<close>

datatype 'a skel =
    SLeaf "nat option" "'a elem list" bool "nat option"
  | SAll
  | SUnion bool "'a skel list"
  | SInter "'a skel list"
  | SDiff bool "'a skel" "'a skel list"

fun dyn_shape :: "'a dyn \<Rightarrow> 'a skel" where
  "dyn_shape (PlainIter es i) = SLeaf None es True None"
| "dyn_shape (DynList r l) = SLeaf r (elems l) (list_ended l) (max_length l)"
| "dyn_shape (DynInfinite b) = SAll"
| "dyn_shape (DynUnion u) = union_shape SUnion dyn_shape u"
| "dyn_shape (DynInter x) = inter_shape SInter dyn_shape x"
| "dyn_shape (DynDiff d) = diff_shape SDiff dyn_shape d"

text \<open>The meaning of a shape when request \<open>q\<close> is answered with the set \<open>ans q\<close>.\<close>

fun skel_mean :: "(nat \<Rightarrow> 'a set) \<Rightarrow> 'a skel \<Rightarrow> 'a set" where
  "skel_mean ans (SLeaf r es e m) = (case r of None \<Rightarrow> cover (set es) | Some q \<Rightarrow> ans q)"
| "skel_mean ans SAll = UNIV"
| "skel_mean ans (SUnion i ss) = (if i then UNIV else \<Union> (set (map (skel_mean ans) ss)))"
| "skel_mean ans (SInter ss) = \<Inter> (set (map (skel_mean ans) ss))"
| "skel_mean ans (SDiff z s ss) = (if z then {} else skel_mean ans s - \<Union> (set (map (skel_mean ans) ss)))"

abbreviation dyn_mean :: "(nat \<Rightarrow> 'a set) \<Rightarrow> 'a dyn \<Rightarrow> 'a set" where
  "dyn_mean ans t \<equiv> skel_mean ans (dyn_shape t)"

text \<open>All requests of a shape have been answered, each \<open>q\<close> with the set \<open>ans q\<close>.\<close>

fun skel_answered :: "(nat \<Rightarrow> 'a set) \<Rightarrow> 'a skel \<Rightarrow> bool" where
  "skel_answered ans (SLeaf r es e m) \<longleftrightarrow> e \<and> m = None \<and> (case r of None \<Rightarrow> True | Some q \<Rightarrow> cover (set es) = ans q)"
| "skel_answered ans SAll \<longleftrightarrow> True"
| "skel_answered ans (SUnion i ss) \<longleftrightarrow> list_all (skel_answered ans) ss"
| "skel_answered ans (SInter ss) \<longleftrightarrow> list_all (skel_answered ans) ss"
| "skel_answered ans (SDiff z s ss) \<longleftrightarrow> skel_answered ans s \<and> list_all (skel_answered ans) ss"

fun dyn_taken :: "'a dyn \<Rightarrow> 'a elem set" where
  "dyn_taken (PlainIter es i) = set (take i es)"
| "dyn_taken (DynList r l) = set (take (index l) (elems l))"
| "dyn_taken (DynInfinite b) = (if infinite_sent b then {Infinity} else {})"
| "dyn_taken (DynUnion u) = union_taken u"
| "dyn_taken (DynInter x) = inter_taken x"
| "dyn_taken (DynDiff d) = diff_taken dyn_taken d"

fun dyn_ended :: "'a dyn \<Rightarrow> bool" where
  "dyn_ended (DynList r l) = list_ended l"
| "dyn_ended (DynUnion u) = union_ended dyn_ended u"
| "dyn_ended (DynInter x) = inter_ended dyn_ended x"
| "dyn_ended (DynDiff d) = diff_ended dyn_ended d"
| "dyn_ended _ = True"

fun dyn_definite :: "'a dyn \<Rightarrow> bool" where
  "dyn_definite (PlainIter es i) = (Infinity \<notin> set es)"
| "dyn_definite (DynList r l) = (Infinity \<notin> set (elems l))"
| "dyn_definite (DynInfinite b) = False"
| "dyn_definite (DynUnion u) = union_definite dyn_definite u"
| "dyn_definite (DynInter x) = inter_definite dyn_definite x"
| "dyn_definite (DynDiff d) = True"

fun dyn_prompt :: "'a dyn \<Rightarrow> bool" where
  "dyn_prompt (DynUnion u) = union_prompt dyn_prompt u"
| "dyn_prompt (DynInter x) = inter_prompt dyn_prompt x"
| "dyn_prompt (DynDiff d) = diff_prompt dyn_prompt d"
| "dyn_prompt _ = True"

fun dyn_left :: "'a dyn \<Rightarrow> nat" where
  "dyn_left (PlainIter es i) = length es - i"
| "dyn_left (DynList r l) = length (elems l) - index l"
| "dyn_left (DynInfinite b) = (if infinite_sent b then 0 else 1)"
| "dyn_left (DynUnion u) = union_left dyn_left u"
| "dyn_left (DynInter x) = inter_left dyn_left x"
| "dyn_left (DynDiff d) = diff_left dyn_left d"

section \<open>A tree is an iterable\<close>

lemma ok_congs [fundef_cong]:
  "u = u' \<Longrightarrow> (\<And>v. v \<in> set (un_iters u') \<Longrightarrow> p v = q v) \<Longrightarrow> union_ok p tk u = union_ok q tk u'"
  "x = x' \<Longrightarrow> (\<And>c. c \<in> set (in_slots x') \<Longrightarrow> p (ch_iter c) = q (ch_iter c)) \<Longrightarrow> inter_ok p dn tk en x = inter_ok q dn tk en x'"
  "d = d' \<Longrightarrow> p (di_first d') = q (di_first d') \<Longrightarrow> (\<And>v b. (v, b) \<in> set (di_iters d') \<Longrightarrow> p v = q v) \<Longrightarrow>
     diff_ok p dn tk en df d = diff_ok q dn tk en df d'"
proof -
  show "u = u' \<Longrightarrow> (\<And>v. v \<in> set (un_iters u') \<Longrightarrow> p v = q v) \<Longrightarrow> union_ok p tk u = union_ok q tk u'"
    by (simp add: union_ok_def list_all_iff)
  show "x = x' \<Longrightarrow> (\<And>c. c \<in> set (in_slots x') \<Longrightarrow> p (ch_iter c) = q (ch_iter c)) \<Longrightarrow> inter_ok p dn tk en x = inter_ok q dn tk en x'"
    by (simp add: inter_ok_def slot_ok_def list_all_iff)
  show "d = d' \<Longrightarrow> p (di_first d') = q (di_first d') \<Longrightarrow> (\<And>v b. (v, b) \<in> set (di_iters d') \<Longrightarrow> p v = q v) \<Longrightarrow>
     diff_ok p dn tk en df d = diff_ok q dn tk en df d'"
    by (auto simp: diff_ok_def list_all_iff)
qed

text \<open>
  The trees the operations keep in order.  A Difference is among them when it is empty from the
  start (\<open>di_zero\<close>) or when its first argument and all the others are definite: they can never give
  an infinite element.  The constructor of Difference means to refuse other arguments, but the test it
  makes never fails, so trees outside \<open>dyn_ok\<close> can be built; for them an infinite
  element comes through although the set is not everything (\<open>only_minus_ignored\<close> has such a tree).
\<close>

fun dyn_ok :: "'a dyn \<Rightarrow> bool" where
  "dyn_ok (PlainIter es i) = (i \<le> length es)"
| "dyn_ok (DynList r l) = (index l \<le> length (elems l))"
| "dyn_ok (DynInfinite b) = infinite_set b"
| "dyn_ok (DynUnion u) = union_ok dyn_ok dyn_taken u"
| "dyn_ok (DynInter x) = inter_ok dyn_ok dyn_den dyn_taken dyn_ended x"
| "dyn_ok (DynDiff d) = diff_ok dyn_ok dyn_den dyn_taken dyn_ended dyn_definite d"

definition below :: "nat \<Rightarrow> 'a dyn \<Rightarrow> bool" where
  "below n t \<longleftrightarrow> dyn_ok t \<and> height t < n"

lemma foldr_max_less: "foldr max xs 0 < (n::nat) \<longleftrightarrow> 0 < n \<and> (\<forall>x\<in>set xs. x < n)"
  by (induction xs) auto

lemma below_union: "below (Suc n) (DynUnion u) \<longleftrightarrow> union_ok (below n) dyn_taken u \<and> 0 < n"
  by (auto simp: below_def union_ok_def list_all_iff foldr_max_less)

lemma below_inter: "below (Suc n) (DynInter x) \<longleftrightarrow> inter_ok (below n) dyn_den dyn_taken dyn_ended x \<and> 0 < n"
  by (auto simp: below_def inter_ok_def slot_ok_def list_all_iff foldr_max_less)

lemma below_diff: "below (Suc n) (DynDiff d) \<longleftrightarrow> diff_ok (below n) dyn_den dyn_taken dyn_ended dyn_definite d"
  by (auto simp: below_def diff_ok_def list_all_iff foldr_max_less)

abbreviation dyn_good :: "nat \<Rightarrow> 'a dyn \<Rightarrow> 'a elem outcome \<Rightarrow> 'a dyn \<Rightarrow> bool" where
  "dyn_good n \<equiv> good_step (below n) dyn_den dyn_shape dyn_taken dyn_ended dyn_definite dyn_prompt dyn_left"

lemma set_take_nth: "i < length xs \<Longrightarrow> set (take (Suc i) xs) = insert (xs ! i) (set (take i xs))"
  by (simp add: take_Suc_conv_app_nth)

lemma list_op_good:
  assumes "index l \<le> length (elems l)"
  shows "\<exists>out l'. list_op l = Some (out, l') \<and> dyn_good (Suc n) (DynList r l) out (DynList r l')"
  using assms set_take_nth[of "index l" "elems l"]
  by (cases "max_length l")
     (auto simp: list_op_def good_step_def below_def readable_def list_ended_def cover_def split: option.splits)

lemma plain_good:
  assumes "i \<le> length es"
  shows "\<exists>out t'. dyn_step (Suc n) pick (PlainIter es i) = Some (out, t') \<and> dyn_good (Suc n) (PlainIter es i) out t'"
  using assms set_take_nth[of i es] by (auto simp: good_step_def below_def)

lemma infinite_good:
  assumes "infinite_set b"
  shows "\<exists>out t'. dyn_step (Suc n) pick (DynInfinite b) = Some (out, t') \<and> dyn_good (Suc n) (DynInfinite b) out t'"
  using assms by (auto simp: good_step_def below_def dynops_next_def cover_def)

lemma leaf_laws:
  assumes "dyn_ok t" "height t = 0"
  shows "Elem a \<in> dyn_taken t \<Longrightarrow> a \<in> dyn_den t" "Infinity \<in> dyn_taken t \<Longrightarrow> dyn_den t = UNIV"
    "dyn_definite t \<Longrightarrow> Infinity \<notin> dyn_taken t"
proof -
  have "dyn_taken t \<subseteq> set es" if "t = PlainIter es i" for es i using that by (auto dest: in_set_takeD)
  moreover have "dyn_taken t \<subseteq> set (take (readable l) (elems l)) \<and> dyn_taken t \<subseteq> set (elems l)" if "t = DynList r l" for r l
    using that assms(1) set_take_subset_set_take[of "index l" "readable l" "elems l"]
    by (auto simp: readable_def dest: in_set_takeD split: option.splits)
  ultimately show "Elem a \<in> dyn_taken t \<Longrightarrow> a \<in> dyn_den t" "Infinity \<in> dyn_taken t \<Longrightarrow> dyn_den t = UNIV"
    "dyn_definite t \<Longrightarrow> Infinity \<notin> dyn_taken t"
    using assms(2) by (cases t; auto simp: cover_def; blast)+
qed

lemma tree_iterable:
  "iterable (dyn_step n pick) (below n) dyn_den dyn_shape dyn_taken dyn_ended dyn_definite dyn_prompt dyn_left"
proof (induction n)
  case 0
  show ?case by unfold_locales (simp_all add: below_def)
next
  case (Suc n)
  note U = iterable.union_iterable[OF Suc, of SUnion] and I = iterable.inter_iterable[OF Suc, of pick SInter]
    and D = iterable.diff_iterable[OF Suc, of SDiff]
  show ?case
  proof
    fix t :: "'a dyn" assume t: "below (Suc n) t"
    show "\<exists>out t'. dyn_step (Suc n) pick t = Some (out, t') \<and> dyn_good (Suc n) t out t'"
    proof (cases t)
      case (DynUnion u)
      with t have ok: "below (Suc n) (DynUnion u)" by simp
      obtain out w where w: "union_next (dyn_step n pick) u = Some (out, w)" and
        g: "good_step (union_ok (below n) dyn_taken) (union_den dyn_den) (union_shape SUnion dyn_shape) union_taken
          (union_ended dyn_ended) (union_definite dyn_definite) (union_prompt dyn_prompt) (union_left dyn_left) u out w"
        using iterable.next_good[OF U, of u] ok by (auto simp: below_union)
      have "dyn_step (Suc n) pick t = Some (out, DynUnion w)" using w DynUnion by simp
      moreover have "dyn_good (Suc n) t out (DynUnion w)" using g ok DynUnion by (cases out) (simp_all add: below_union good_step_def)
      ultimately show ?thesis by blast
    next
      case (DynInter x)
      with t have ok: "below (Suc n) (DynInter x)" by simp
      obtain out w where w: "inter_next (dyn_step n pick) pick x = Some (out, w)" and
        g: "good_step (inter_ok (below n) dyn_den dyn_taken dyn_ended) (inter_den dyn_den) (inter_shape SInter dyn_shape) inter_taken
          (inter_ended dyn_ended) (inter_definite dyn_definite) (inter_prompt dyn_prompt) (inter_left dyn_left) x out w"
        using iterable.next_good[OF I, of x] ok by (auto simp: below_inter)
      have "dyn_step (Suc n) pick t = Some (out, DynInter w)" using w DynInter by simp
      moreover have "dyn_good (Suc n) t out (DynInter w)" using g ok DynInter by (cases out) (simp_all add: below_inter good_step_def)
      ultimately show ?thesis by blast
    next
      case (DynDiff d)
      with t have ok: "below (Suc n) (DynDiff d)" by simp
      obtain out w where w: "diff_next (dyn_step n pick) d = Some (out, w)" and
        g: "good_step (diff_ok (below n) dyn_den dyn_taken dyn_ended dyn_definite) (diff_den dyn_den) (diff_shape SDiff dyn_shape) (diff_taken dyn_taken)
          (diff_ended dyn_ended) (\<lambda>_. True) (diff_prompt dyn_prompt) (diff_left dyn_left) d out w"
        using iterable.next_good[OF D, of d] ok by (auto simp: below_diff)
      have "dyn_step (Suc n) pick t = Some (out, DynDiff w)" using w DynDiff by simp
      moreover have "dyn_good (Suc n) t out (DynDiff w)" using g ok DynDiff by (cases out) (simp_all add: below_diff good_step_def)
      ultimately show ?thesis by blast
    next
      case (DynList r l)
      then show ?thesis using list_op_good[where l = l and r = r and n = n] t by (auto simp: below_def)
    next
      case (PlainIter es i)
      then show ?thesis using plain_good[of i es n pick] t by (simp only: below_def dyn_ok.simps)
    next
      case (DynInfinite b)
      then show ?thesis using infinite_good[of b n pick] t by (simp only: below_def dyn_ok.simps)
    qed
    show "a \<in> dyn_den t" if "Elem a \<in> dyn_taken t" for a
    proof (cases t)
      case (DynUnion u)
      then show ?thesis using iterable.taken_den[OF U, of u] t that by (simp add: below_union)
    next
      case (DynInter x)
      then show ?thesis using iterable.taken_den[OF I, of x] t that by (simp add: below_inter)
    next
      case (DynDiff d)
      then show ?thesis using iterable.taken_den[OF D, of d] t that by (simp add: below_diff)
    qed (use t leaf_laws(1)[of t] that in \<open>simp_all add: below_def\<close>)
    show "dyn_den t = UNIV" if "Infinity \<in> dyn_taken t"
    proof (cases t)
      case (DynUnion u)
      then show ?thesis using iterable.taken_infinity[OF U, of u] t that by (simp add: below_union)
    next
      case (DynInter x)
      then show ?thesis using iterable.taken_infinity[OF I, of x] t that by (simp add: below_inter)
    next
      case (DynDiff d)
      then show ?thesis using iterable.taken_infinity[OF D, of d] t that by (simp add: below_diff)
    qed (use t leaf_laws(2)[of t] that in \<open>simp_all add: below_def\<close>)
    show "Infinity \<notin> dyn_taken t" if "dyn_definite t"
    proof (cases t)
      case (DynUnion u)
      then show ?thesis using iterable.definite_taken[OF U, of u] t that by (simp add: below_union)
    next
      case (DynInter x)
      then show ?thesis using iterable.definite_taken[OF I, of x] t that by (simp add: below_inter)
    next
      case (DynDiff d)
      then show ?thesis using iterable.definite_taken[OF D, of d] t by (simp add: below_diff)
    qed (use t leaf_laws(3)[of t] that in \<open>simp_all add: below_def\<close>)
  qed
qed

text \<open>\<open>next\<close> of a whole tree.\<close>

lemma dyn_iterable: "iterable (dyn_next pick) dyn_ok dyn_den dyn_shape dyn_taken dyn_ended dyn_definite dyn_prompt dyn_left"
proof
  fix t :: "'a dyn" assume "dyn_ok t"
  then have t: "below (Suc (height t)) t" by (simp add: below_def)
  note T = tree_iterable[of "Suc (height t)" pick]
  from iterable.next_good[OF T t] obtain out t' where
    "dyn_step (Suc (height t)) pick t = Some (out, t')" "dyn_good (Suc (height t)) t out t'" by blast
  then show "\<exists>out t'. dyn_next pick t = Some (out, t') \<and>
      good_step dyn_ok dyn_den dyn_shape dyn_taken dyn_ended dyn_definite dyn_prompt dyn_left t out t'"
    by (auto simp: dyn_next_def good_step_def below_def simp del: dyn_step.simps)
  show "Elem a \<in> dyn_taken t \<Longrightarrow> a \<in> dyn_den t" for a by (rule iterable.taken_den[OF T t])
  show "Infinity \<in> dyn_taken t \<Longrightarrow> dyn_den t = UNIV" by (rule iterable.taken_infinity[OF T t])
  show "dyn_definite t \<Longrightarrow> Infinity \<notin> dyn_taken t" by (rule iterable.definite_taken[OF T t])
qed

interpretation dyn: iterable "dyn_next pick" dyn_ok dyn_den dyn_shape dyn_taken dyn_ended dyn_definite dyn_prompt dyn_left
  for pick
  by (rule dyn_iterable)

section \<open>New trees\<close>

text \<open>
  The constructors give trees that have not been asked for anything; one that knows to be infinite stands for
  everything.
\<close>

definition fresh :: "'a dyn \<Rightarrow> bool" where
  "fresh t \<longleftrightarrow> dyn_ok t \<and> dyn_taken t = {} \<and>
     (infinite_attr t = Some True \<longrightarrow> dyn_den t = UNIV \<and> (\<forall>ans. dyn_mean ans t = UNIV) \<and> \<not> dyn_definite t)"

lemma fresh_infinite_attr: "fresh t \<Longrightarrow> is_infinite infinite_attr t \<Longrightarrow> dyn_den t = UNIV \<and> dyn_mean ans t = UNIV \<and> \<not> dyn_definite t"
  by (auto simp: fresh_def is_infinite_def opt_default_def split: option.splits)

lemma fresh_list: "fresh (DynList r (list_init es))"
  by (simp add: fresh_def list_init_def)

lemma fresh_infinite: "fresh dyn_infinite"
  by (simp add: fresh_def dyn_infinite_def)

lemma fresh_union: "\<forall>t\<in>set ts. fresh t \<Longrightarrow> fresh (dyn_union ts)"
  by (auto simp: fresh_def dyn_union_def union_init_def union_abs Let_def list_all_iff)

lemma fresh_inter: "\<forall>t\<in>set ts. fresh t \<Longrightarrow> fresh (dyn_inter ts)"
  by (auto simp: fresh_def dyn_inter_def inter_init_def inter_abs slot_ok_def Let_def list_all_iff)

lemma mean_union:
  assumes "\<forall>t\<in>set ts. fresh t"
  shows "dyn_mean ans (dyn_union ts) = (\<Union>t\<in>set ts. dyn_mean ans t)"
proof -
  have "dyn_mean ans t = UNIV" if "t \<in> set ts" "is_infinite infinite_attr t" for t
    using assms that fresh_infinite_attr by blast
  then show ?thesis by (auto simp: dyn_union_def union_init_def union_shape_def Let_def list_ex_iff)
qed

lemma mean_inter:
  assumes "\<forall>t\<in>set ts. fresh t"
  shows "dyn_mean ans (dyn_inter ts) = (\<Inter>t\<in>set ts. dyn_mean ans t)"
proof -
  have "dyn_mean ans t = UNIV" if "t \<in> set ts" "is_infinite infinite_attr t" for t
    using assms that fresh_infinite_attr by blast
  then show ?thesis by (auto simp: dyn_inter_def inter_init_def inter_shape_def Let_def)
qed

text \<open>A difference needs children that are definite.\<close>

lemma fresh_diff:
  assumes "fresh t" "\<forall>v\<in>set ts. fresh v" "dyn_diff t ts = Inr d"
    and "list_ex (is_infinite infinite_attr) ts \<or> dyn_definite t \<and> (\<forall>v\<in>set ts. dyn_definite v)"
  shows "fresh d" "dyn_mean ans d = dyn_mean ans t - (\<Union>v\<in>set ts. dyn_mean ans v)"
proof -
  obtain a where a: "infinite_attr t = Some a" "d = DynDiff (Diff dynops_init t (map (\<lambda>v. (v, False)) ts) (list_ex (is_infinite infinite_attr) ts) [])"
    using assms(3) by (auto simp: dyn_diff_def difference_init_def split: option.splits)
  show "fresh d" using assms by (auto simp: fresh_def a diff_abs dynops_init_def list_all_iff)
  show "dyn_mean ans d = dyn_mean ans t - (\<Union>v\<in>set ts. dyn_mean ans v)"
  proof -
    have "dyn_mean ans t = UNIV" if "t \<in> set ts" "is_infinite infinite_attr t" for t
      using assms(2) that fresh_infinite_attr by blast
    then show ?thesis by (auto simp: a diff_shape_def list_ex_iff)
  qed
qed

section \<open>Answers\<close>

text \<open>What an answer does to the list of its request: it grows at its end or finishes, unless it was final before.\<close>

definition list_grows :: "('a elem dlist \<Rightarrow> 'a elem dlist) \<Rightarrow> bool" where
  "list_grows f \<longleftrightarrow> (\<forall>l. index l \<le> length (elems l) \<longrightarrow>
     index (f l) = index l \<and> prefix (elems l) (elems (f l)) \<and> (Infinity \<notin> set (elems l) \<longrightarrow> Infinity \<notin> set (elems (f l)))
     \<and> (list_ended l \<longrightarrow> list_ended (f l) \<and> take (readable (f l)) (elems (f l)) = take (readable l) (elems l)))"

lemma list_grows_extend: "Infinity \<notin> set es \<Longrightarrow> list_grows (\<lambda>l. snd (list_extend es l))"
  by (auto simp: list_grows_def list_extend_def list_ended_def readable_def min_def max_def split: option.splits)

lemma list_grows_final: "list_grows (\<lambda>l. snd (list_final l))"
  by (auto simp: list_grows_def list_final_def list_ended_def readable_def split: option.splits)

lemma grown_list:
  assumes "list_grows f" "index l \<le> length (elems l)"
  shows "index (f l) = index l" "index l \<le> length (elems (f l))" "take (index l) (elems (f l)) = take (index l) (elems l)"
    "Infinity \<notin> set (elems l) \<Longrightarrow> Infinity \<notin> set (elems (f l))"
    "list_ended l \<Longrightarrow> list_ended (f l)" "list_ended l \<Longrightarrow> take (readable (f l)) (elems (f l)) = take (readable l) (elems l)"
proof -
  have f: "index (f l) = index l" "prefix (elems l) (elems (f l))" "Infinity \<notin> set (elems l) \<longrightarrow> Infinity \<notin> set (elems (f l))"
    "list_ended l \<longrightarrow> list_ended (f l) \<and> take (readable (f l)) (elems (f l)) = take (readable l) (elems l)"
    using assms unfolding list_grows_def by blast+
  then show "index (f l) = index l" "Infinity \<notin> set (elems l) \<Longrightarrow> Infinity \<notin> set (elems (f l))"
    "list_ended l \<Longrightarrow> list_ended (f l)" "list_ended l \<Longrightarrow> take (readable (f l)) (elems (f l)) = take (readable l) (elems l)"
    by blast+
  obtain ws where "elems (f l) = elems l @ ws" using f(2) by (auto simp: prefix_def)
  with assms(2) show "index l \<le> length (elems (f l))" "take (index l) (elems (f l)) = take (index l) (elems l)" by simp_all
qed

definition grown :: "'a dyn \<Rightarrow> 'a dyn \<Rightarrow> bool" where
  "grown t t' \<longleftrightarrow> dyn_ok t' \<and> dyn_taken t' = dyn_taken t \<and> (dyn_ended t \<longrightarrow> dyn_ended t' \<and> dyn_den t' = dyn_den t)
     \<and> (dyn_definite t \<longrightarrow> dyn_definite t')"

lemma grown_inter:
  assumes "\<forall>c\<in>set (in_slots x). grown (ch_iter c) (g (ch_iter c))" "dyn_ok (DynInter x)"
  shows "grown (DynInter x) (DynInter (Inter (in_base x) (map (\<lambda>c. Slot (g (ch_iter c)) (ch_drawn c) (ch_final c) (ch_inf c)) (in_slots x))
       (in_set x) (in_candidates x) (in_final x)))" (is "grown _ (DynInter ?x)")
proof -
  have ok: "inter_ok dyn_ok dyn_den dyn_taken dyn_ended ?x"
    using assms by (auto simp: inter_abs list_all_iff slot_ok_def grown_def)
  have "dyn_den (g (ch_iter c)) = dyn_den (ch_iter c)" if "c \<in> set (in_slots x)" "dyn_ended (ch_iter c) \<or> ch_inf c" for c
  proof (cases "ch_inf c")
    case True
    then have "Infinity \<in> dyn_taken (ch_iter c)" "dyn_ok (ch_iter c)" using assms(2) that(1)
      by (auto simp: inter_ok_def list_all_iff slot_ok_def)
    then show ?thesis using assms(1) that(1) dyn.taken_infinity by (metis grown_def)
  qed (use that assms(1) in \<open>auto simp: grown_def\<close>)
  then show ?thesis using assms ok
    by (auto simp: grown_def inter_den_def inter_ended_def inter_definite_def inter_taken_def list_all_iff list_ex_iff)
qed

lemma grown_union:
  assumes "\<forall>v\<in>set (un_iters u). grown v (g v)" "dyn_ok (DynUnion u)"
  shows "grown (DynUnion u) (DynUnion (Union (un_base u) (map g (un_iters u)) (un_set u) (un_final u)))"
  using assms by (auto simp: grown_def union_abs list_all_iff)

lemma grown_diff:
  assumes "grown (di_first d) (g (di_first d))" "\<forall>(v, b)\<in>set (di_iters d). grown v (g v)" "dyn_ok (DynDiff d)"
  shows "grown (DynDiff d) (DynDiff (Diff (di_base d) (g (di_first d)) (map (\<lambda>(v, b). (g v, b)) (di_iters d)) (di_zero d) (di_remove d)))"
    (is "grown _ (DynDiff ?d)")
proof -
  have eq: "dyn_taken (g v) = dyn_taken v" "dyn_ended v \<Longrightarrow> dyn_den (g v) = dyn_den v"
    if "(v, b) \<in> set (di_iters d)" for v b
    using assms(2) that by (auto simp: grown_def)
  have gone: "diff_gone dyn_taken ?d = diff_gone dyn_taken d" using eq by (force simp: diff_gone_def)
  have maps: "map (h \<circ> fst) (di_iters ?d) = map (h \<circ> fst) (di_iters d)"
    if "\<And>v b. (v, b) \<in> set (di_iters d) \<Longrightarrow> h (g v) = h v" for h :: "'a dyn \<Rightarrow> 'a set"
    using that by auto
  have den: "dyn_den (DynDiff ?d) = dyn_den (DynDiff d)" if "dyn_ended (DynDiff d)"
  proof (cases "di_zero d")
    case False
    then have e: "dyn_ended (di_first d)" "\<And>v b. (v, b) \<in> set (di_iters d) \<Longrightarrow> dyn_ended v"
      using that by (auto simp: diff_ended_def list_all_iff)
    then have "map (dyn_den \<circ> fst) (di_iters ?d) = map (dyn_den \<circ> fst) (di_iters d)"
      using eq(2) by (intro maps) blast
    with e(1) assms(1) show ?thesis unfolding dyn_den.simps diff_den_def grown_def by simp
  qed (simp add: diff_den_def)
  have ok: "diff_ok dyn_ok dyn_den dyn_taken dyn_ended dyn_definite d" using assms(3) by simp
  have all: "list_all P (map (\<lambda>(v, b). (g v, b)) (di_iters d))"
    if "list_all Q (di_iters d)" "\<And>v b. grown v (g v) \<Longrightarrow> Q (v, b) \<Longrightarrow> P (g v, b)" for P Q :: "'a dyn \<times> bool \<Rightarrow> bool"
    using that assms(2) unfolding list_all_iff by fastforce
  have "list_all (dyn_ok \<circ> fst) (di_iters ?d)" unfolding diff.sel
    using ok by (intro all[of "dyn_ok \<circ> fst"]) (auto simp: diff_ok_def grown_def)
  moreover have "list_all (\<lambda>(v, f). dyn_ok v \<and> dyn_definite v) (di_iters ?d)" if "\<not> di_zero d" unfolding diff.sel
    using ok that by (intro all[of "\<lambda>(v, f). dyn_ok v \<and> dyn_definite v"]) (auto simp: diff_ok_def grown_def)
  moreover have "list_all (\<lambda>(v, f). f \<longrightarrow> dyn_ended v \<and> cover (dyn_taken v) = dyn_den v) (di_iters ?d)" if "\<not> di_zero d"
    unfolding diff.sel using ok that
    by (intro all[of "\<lambda>(v, f). f \<longrightarrow> dyn_ended v \<and> cover (dyn_taken v) = dyn_den v"]) (auto simp: diff_ok_def grown_def)
  moreover have "list_all snd (di_iters ?d) = list_all snd (di_iters d)" unfolding diff.sel list_all_iff by auto
  ultimately have "dyn_ok (DynDiff ?d)" using ok gone assms(1)
    unfolding dyn_ok.simps diff_ok_def by (cases "di_zero d") (auto simp: grown_def)
  moreover have "dyn_ended (DynDiff d) \<longrightarrow> dyn_ended (DynDiff ?d)"
    using assms(1,2) by (force simp: diff_ended_def list_all_iff grown_def)
  moreover have "dyn_taken (DynDiff ?d) = dyn_taken (DynDiff d)"
    using assms(1) unfolding dyn_taken.simps diff_taken_def gone by (simp add: grown_def)
  moreover have "dyn_definite (DynDiff ?d)" by simp
  ultimately show ?thesis using den unfolding grown_def by blast
qed

lemma dyn_update_grown: "list_grows f \<Longrightarrow> dyn_ok t \<Longrightarrow> grown t (dyn_update r f t)"
proof (induction r f t rule: dyn_update.induct)
  case (1 r f q l)
  then show ?case using grown_list[of f l] by (auto simp: grown_def cover_def split: option.splits)
next
  case (2 r f u)
  have "\<forall>v\<in>set (un_iters u). grown v (dyn_update r f v)"
    using 2 by (auto simp: union_ok_def list_all_iff)
  then show ?case using grown_union[of u "dyn_update r f"] 2(3) by simp
next
  case (3 r f x)
  have "\<forall>c\<in>set (in_slots x). grown (ch_iter c) (dyn_update r f (ch_iter c))"
    using 3 by (auto simp: inter_ok_def slot_ok_def list_all_iff)
  then show ?case using grown_inter[of x "dyn_update r f"] 3(3) by simp
next
  case (4 r f d)
  have "grown (di_first d) (dyn_update r f (di_first d))" "\<forall>(v, b)\<in>set (di_iters d). grown v (dyn_update r f v)"
    using 4 by (auto simp: diff_ok_def list_all_iff)
  then show ?case using grown_diff[of d "dyn_update r f"] 4(4) by simp
qed (auto simp: grown_def)

text \<open>The same on shapes.\<close>

fun skel_extend :: "nat \<Rightarrow> 'a elem list \<Rightarrow> 'a skel \<Rightarrow> 'a skel" where
  "skel_extend r es (SLeaf q xs e m) = SLeaf q (if q = Some r \<and> \<not> e then xs @ es else xs) e m"
| "skel_extend r es SAll = SAll"
| "skel_extend r es (SUnion i ss) = SUnion i (map (skel_extend r es) ss)"
| "skel_extend r es (SInter ss) = SInter (map (skel_extend r es) ss)"
| "skel_extend r es (SDiff z s ss) = SDiff z (skel_extend r es s) (map (skel_extend r es) ss)"

fun skel_final :: "nat \<Rightarrow> 'a skel \<Rightarrow> 'a skel" where
  "skel_final r (SLeaf q xs e m) = SLeaf q xs (e \<or> q = Some r) m"
| "skel_final r SAll = SAll"
| "skel_final r (SUnion i ss) = SUnion i (map (skel_final r) ss)"
| "skel_final r (SInter ss) = SInter (map (skel_final r) ss)"
| "skel_final r (SDiff z s ss) = SDiff z (skel_final r s) (map (skel_final r) ss)"

text \<open>No list has a maximal length, as in the trees that are built from requirements.\<close>

fun skel_plain :: "'a skel \<Rightarrow> bool" where
  "skel_plain (SLeaf r es e m) \<longleftrightarrow> m = None"
| "skel_plain SAll \<longleftrightarrow> True"
| "skel_plain (SUnion i ss) \<longleftrightarrow> list_all skel_plain ss"
| "skel_plain (SInter ss) \<longleftrightarrow> list_all skel_plain ss"
| "skel_plain (SDiff z s ss) \<longleftrightarrow> skel_plain s \<and> list_all skel_plain ss"

lemma skel_updates_mean [simp]:
  "skel_plain (skel_extend r es s) = skel_plain s" "skel_plain (skel_final r s) = skel_plain s"
  by (induction s) (auto simp: list_all_iff)

lemma shape_extend:
  "skel_plain (dyn_shape t) \<Longrightarrow> dyn_shape (dyn_update r (\<lambda>l. snd (list_extend es l)) t) = skel_extend r es (dyn_shape t)"
proof (induction t rule: dyn_shape.induct)
  case (2 r l)
  then show ?case by (cases l) (auto simp: list_extend_def list_ended_def)
next
  case (4 u)
  then show ?case by (auto simp: union_shape_def list_all_iff)
next
  case (5 x)
  then show ?case by (auto simp: inter_shape_def list_all_iff)
next
  case (6 d)
  then show ?case by (auto simp: diff_shape_def list_all_iff)
qed simp_all

lemma shape_final:
  "skel_plain (dyn_shape t) \<Longrightarrow> dyn_shape (dyn_update r (\<lambda>l. snd (list_final l)) t) = skel_final r (dyn_shape t)"
proof (induction t rule: dyn_shape.induct)
  case (2 r l)
  then show ?case by (cases l) (auto simp: list_final_def list_ended_def)
next
  case (4 u)
  then show ?case by (auto simp: union_shape_def list_all_iff)
next
  case (5 x)
  then show ?case by (auto simp: inter_shape_def list_all_iff)
next
  case (6 d)
  then show ?case by (auto simp: diff_shape_def list_all_iff)
qed simp_all

text \<open>When all is answered, the set a tree stands for is fixed, and it is what the shape means with these answers.\<close>

lemma answered_ended: "skel_answered ans (dyn_shape t) \<Longrightarrow> dyn_ended t"
proof (induction t rule: dyn_shape.induct)
  case (6 d)
  then have "\<And>v b. (v, b) \<in> set (di_iters d) \<Longrightarrow> dyn_ended v" "dyn_ended (di_first d)"
    by (force simp: diff_shape_def list_all_iff)+
  then show ?case by (force simp: diff_ended_def list_all_iff)
qed (auto simp: union_shape_def union_ended_def inter_shape_def inter_ended_def list_all_iff)

lemma answered_den: "skel_answered ans (dyn_shape t) \<Longrightarrow> dyn_den t = dyn_mean ans t"
proof (induction t rule: dyn_shape.induct)
  case (2 r l)
  then show ?case by (auto simp: readable_def split: option.splits)
next
  case (4 u)
  then show ?case by (auto simp: union_shape_def union_den_def list_all_iff)
next
  case (5 x)
  then show ?case by (auto simp: inter_shape_def inter_den_def list_all_iff)
next
  case (6 d)
  then have "\<And>v b. (v, b) \<in> set (di_iters d) \<Longrightarrow> dyn_den v = dyn_mean ans v" "dyn_den (di_first d) = dyn_mean ans (di_first d)"
    by (force simp: diff_shape_def list_all_iff)+
  then have "map (dyn_den \<circ> fst) (di_iters d) = map (dyn_mean ans \<circ> fst) (di_iters d)" by auto
  with \<open>dyn_den (di_first d) = dyn_mean ans (di_first d)\<close> show ?case by (simp add: diff_shape_def diff_den_def o_def)
qed simp_all

end
