(* ===== verification/Requirement_Match.thy ===== *)
theory Requirement_Match
  imports Dynops_Tree Registry_Storage
begin

text \<open>
  Where an actor may be placed: the placement requirements (runtime/north/plugins/requirements) as trees of
  dynamic iterables over index lookups, and ReqMatch (utilities/requirement_matching.py), which builds the tree of a
  list of requirements and collects its elements as the answers come in.  The requirement
  \<open>shadow_actor_reqs_match\<close> is not modelled; an operation that is not a placement requirement, or is unknown, raises.
\<close>

section \<open>Lookups\<close>

text \<open>A request to the storage whose answer fills a list; requests are numbered in the order they are made.\<close>

datatype lookup = LookIndex "string list" | LookActor string

type_synonym 'a building = "lookup list \<Rightarrow> 'a \<times> lookup list"

definition new_request :: "lookup \<Rightarrow> string dyn building" where
  "new_request l ls = (DynList (Some (length ls)) (list_init []), ls @ [l])"

text \<open>\<open>get_index_iter\<close> resolves a list of levels twice.\<close>

definition iter_levels :: "index \<Rightarrow> string list" where
  "iter_levels ix = fst (index_strings (snd (index_strings ix 2)) 2)"

definition index_lookup :: "index \<Rightarrow> string dyn building" where
  "index_lookup ix = new_request (LookIndex (iter_levels ix))"

fun index_lookups :: "index list \<Rightarrow> string dyn list building" where
  "index_lookups [] ls = ([], ls)"
| "index_lookups (ix # ixs) ls =
     (let (t, ls1) = index_lookup ix ls; (ts, ls2) = index_lookups ixs ls1 in (t # ts, ls2))"

definition empty_list :: "string dyn" where
  "empty_list = DynList None (snd (list_final (list_init [])))"

section \<open>Requirement operations\<close>

datatype req_call =
    AllNodes
  | CurrentNode
  | NodeAttrMatch pyval
  | RuntimeName pyval
  | ActorReqsMatch "string list"
  | PortPropertyMatch "string list"
  | ReplicaNodes "string option"
  | ActorNodes
  | OtherOp

text \<open>The runtime that matches, and the actor for which it does.\<close>

record match_env =
  me_str_of :: "pyval \<Rightarrow> string"
  me_node_id :: string
  me_links :: "string list option"
  me_actor_id :: "string option"

definition all_nodes :: "match_env \<Rightarrow> string dyn res building" where
  "all_nodes env ls =
     (case format_index_string (me_str_of env) (PList [PStr ''node_name'', PDict []]) True of
        Inl e \<Rightarrow> (Inl e, ls)
      | Inr s \<Rightarrow> map_prod Inr id (index_lookup (IStr s) ls))"

definition current_node :: "match_env \<Rightarrow> string dyn res building" where
  "current_node env ls = (Inr (DynList None (snd (list_final (list_init [Elem (me_node_id env)])))), ls)"

definition node_attr_match :: "match_env \<Rightarrow> pyval \<Rightarrow> string dyn res building" where
  "node_attr_match env ix ls =
     (case format_index_string (me_str_of env) ix True of
        Inl e \<Rightarrow> (Inl e, ls)
      | Inr s \<Rightarrow> map_prod Inr id (index_lookup (IStr s) ls))"

definition runtime_name :: "match_env \<Rightarrow> pyval \<Rightarrow> string dyn res building" where
  "runtime_name env name = node_attr_match env (PDict [(PStr ''node_name'', PDict [(PStr ''name'', name)])])"

definition required_capability :: "string \<Rightarrow> index" where
  "required_capability c = IList [''node'', ''capabilities'', c]"

definition actor_reqs_match :: "match_env \<Rightarrow> string list \<Rightarrow> string dyn res building" where
  "actor_reqs_match env requires ls =
     (if requires = [] then (Inr dyn_infinite, ls)
      else map_prod (Inr \<circ> dyn_inter) id (index_lookups (map required_capability requires) ls))"

definition port_property_match :: "match_env \<Rightarrow> string list \<Rightarrow> string dyn res building" where
  "port_property_match env properties ls =
     (let (its, ls1) = index_lookups (map required_capability properties) ls
      in (Inr (if 1 < length its then dyn_union its else if length its = 1 then hd its else empty_list), ls1))"

definition replica_nodes :: "match_env \<Rightarrow> string option \<Rightarrow> string dyn res building" where
  "replica_nodes env rid ls =
     (case rid of
        None \<Rightarrow> (Inr empty_list, ls)
      | Some r \<Rightarrow> map_prod Inr id (index_lookup (IList [''replicas'', ''nodes'', r]) ls))"

definition actor_nodes :: "match_env \<Rightarrow> string dyn res building" where
  "actor_nodes env ls =
     (case me_actor_id env of
        None \<Rightarrow> (Inr empty_list, ls)
      | Some a \<Rightarrow> if a = [] then (Inr empty_list, ls) else map_prod Inr id (new_request (LookActor a) ls))"

fun req_op :: "match_env \<Rightarrow> req_call \<Rightarrow> string dyn res building" where
  "req_op env AllNodes = all_nodes env"
| "req_op env CurrentNode = current_node env"
| "req_op env (NodeAttrMatch ix) = node_attr_match env ix"
| "req_op env (RuntimeName n) = runtime_name env n"
| "req_op env (ActorReqsMatch rs) = actor_reqs_match env rs"
| "req_op env (PortPropertyMatch ps) = port_property_match env ps"
| "req_op env (ReplicaNodes r) = replica_nodes env r"
| "req_op env ActorNodes = actor_nodes env"
| "req_op env OtherOp = (\<lambda>ls. (Inl KeyError, ls))"

section \<open>Building the match\<close>

datatype req_type = Plus | Minus | UnknownType

datatype requirement = Single req_call req_type | UnionGroup "req_call list"

text \<open>
  The name of an iterable ends in the actor id: without one the operation is called, and then naming its
  iterable raises.
\<close>

definition named_op :: "match_env \<Rightarrow> req_call \<Rightarrow> string dyn res building" where
  "named_op env c ls =
     (let (r, ls1) = req_op env c ls
      in (case r of Inl e \<Rightarrow> (Inl e, ls1) | Inr t \<Rightarrow> (if me_actor_id env = None then Inl TypeError else Inr t, ls1)))"

fun union_iters :: "match_env \<Rightarrow> req_call list \<Rightarrow> string dyn list building" where
  "union_iters env [] ls = ([], ls)"
| "union_iters env (c # cs) ls =
     (let (r, ls1) = named_op env c ls; (ts, ls2) = union_iters env cs ls1
      in (case r of Inl e \<Rightarrow> ts | Inr t \<Rightarrow> t # ts, ls2))"

definition build_union_match :: "match_env \<Rightarrow> req_call list \<Rightarrow> string dyn building" where
  "build_union_match env cs ls = map_prod dyn_union id (union_iters env cs ls)"

text \<open>A requirement that fails is dropped, but for the name of a union.\<close>

fun req_iters :: "match_env \<Rightarrow> requirement list \<Rightarrow> (string dyn list \<times> string dyn list) res building" where
  "req_iters env [] ls = (Inr ([], []), ls)"
| "req_iters env (UnionGroup cs # rs) ls =
     (let (t, ls1) = build_union_match env cs ls
      in if me_actor_id env = None then (Inl TypeError, ls1)
         else map_prod (map_sum id (map_prod ((#) t) id)) id (req_iters env rs ls1))"
| "req_iters env (Single c ty # rs) ls =
     (let (r, ls1) = named_op env c ls
      in map_prod (map_sum id (\<lambda>(ps, ms).
           case r of
             Inl e \<Rightarrow> (ps, ms)
           | Inr t \<Rightarrow> (if ty = Plus then t # ps else ps, if ty = Minus then t # ms else ms)))
         id (req_iters env rs ls1))"

definition build_match :: "match_env \<Rightarrow> requirement list \<Rightarrow> string dyn res building" where
  "build_match env reqs ls =
     (let (r, ls1) = req_iters env reqs ls
      in (case r of
            Inl e \<Rightarrow> Inl e
          | Inr (ps, ms) \<Rightarrow>
              if me_actor_id env = None then Inl TypeError
              else if ms = [] then Inr (dyn_inter ps) else dyn_diff (dyn_inter ps) ms, ls1))"

section \<open>Collecting placements\<close>

text \<open>
  \<open>rm_timer\<close> is the delay of the pending DelayedCall in milliseconds, \<open>rm_calls\<close> the calls of the callback with
  the placements and the status.  The trigger of the tree is set when the tree has been built.
\<close>

record rmatch =
  rm_env :: match_env
  rm_replace :: bool
  rm_callback :: bool
  rm_lookups :: "lookup list"
  rm_tree :: "string dyn"
  rm_wired :: bool
  rm_placements :: "string elem list"
  rm_done :: bool
  rm_counter :: nat
  rm_last_value :: nat
  rm_timer :: "nat option"
  rm_calls :: "(string elem list \<times> answer) list"

text \<open>The inner loop: take elements until the tree pauses or stops.\<close>

partial_function (option) take_nodes ::
  "('s \<Rightarrow> ('a elem, 's) step) \<Rightarrow> 'a elem list \<Rightarrow> 's \<Rightarrow> ('a elem, 'a elem list \<times> 's) step" where
  "take_nodes nxt es v =
     Option.bind (nxt v) (\<lambda>(out, v').
       case out of Next n \<Rightarrow> take_nodes nxt (List.insert n es) v' | _ \<Rightarrow> Some (out, es, v'))"

declare take_nodes.simps [code]

definition retry_delay :: "rmatch \<Rightarrow> nat" where
  "retry_delay s = (if rm_last_value s + 100 < rm_counter s then 0 else 200)"

text \<open>An infinite element among the placements is replaced, with all others, by the known nodes.\<close>

definition known_nodes :: "match_env \<Rightarrow> string elem list" where
  "known_nodes env = map Elem (remdups ((case me_links env of None \<Rightarrow> [] | Some ks \<Rightarrow> ks) @ [me_node_id env]))"

definition final_placements :: "rmatch \<Rightarrow> string elem list \<Rightarrow> string elem list" where
  "final_placements s es = (if rm_replace s \<and> Infinity \<in> set es then known_nodes (rm_env s) else es)"

definition collect_placements :: "(string elem list \<Rightarrow> nat) \<Rightarrow> rmatch \<Rightarrow> rmatch option" where
  "collect_placements pick s =
     (let s1 = s\<lparr>rm_timer := None\<rparr>
      in if rm_done s then Some s1
         else Option.bind (take_nodes (dyn_next pick) (rm_placements s) (rm_tree s)) (\<lambda>(out, es, t).
                let s2 = s1\<lparr>rm_placements := es, rm_tree := t\<rparr>
                in Some (case out of
                     Paused \<Rightarrow> s2\<lparr>rm_timer := Some (retry_delay s), rm_counter := Suc (rm_counter s)\<rparr>
                   | Stopped \<Rightarrow>
                       (let es' = final_placements s es
                        in s2\<lparr>rm_done := True, rm_placements := es',
                              rm_calls := rm_calls s @ (if rm_callback s then [(es', if es' = [] then response_failed else response_ok)] else [])\<rparr>)
                   | _ \<Rightarrow> s2)))"

text \<open>
  \<open>match\<close>: \<open>None\<close> stands for requirements that are no list.  A failing build raises; otherwise the trigger is set
  and the placements are collected for the first time.  Lists may be answered already before that.
\<close>

definition match_init :: "match_env \<Rightarrow> bool \<Rightarrow> bool \<Rightarrow> rmatch" where
  "match_init env replace cb =
     \<lparr>rm_env = env, rm_replace = replace, rm_callback = cb, rm_lookups = [], rm_tree = empty_list, rm_wired = False,
      rm_placements = [], rm_done = False, rm_counter = 0, rm_last_value = 0, rm_timer = None, rm_calls = []\<rparr>"

definition match_build :: "requirement list option \<Rightarrow> rmatch \<Rightarrow> (bool, rmatch) out" where
  "match_build reqs s =
     (case reqs of
        None \<Rightarrow> (Inr False, s\<lparr>rm_calls := rm_calls s @ (if rm_callback s then [([], AResponse 400)] else [])\<rparr>)
      | Some rs \<Rightarrow>
          (case build_match (rm_env s) rs (rm_lookups s) of
             (Inl e, ls) \<Rightarrow> (Inl e, s\<lparr>rm_lookups := ls\<rparr>)
           | (Inr t, ls) \<Rightarrow>
               (Inr True, s\<lparr>rm_lookups := ls, rm_tree := t, rm_placements := [], rm_done := False, rm_counter := 0, rm_last_value := 0,
                            rm_timer := None\<rparr>)))"

datatype match_event = Started | Answered nat "string list option" | TimerFired

text \<open>Whether the list of a request is in the tree and open: only then a change of it triggers the root.\<close>

fun skel_open :: "nat \<Rightarrow> 'a skel \<Rightarrow> bool" where
  "skel_open r (SLeaf q es e m) \<longleftrightarrow> q = Some r \<and> \<not> e"
| "skel_open r SAll \<longleftrightarrow> False"
| "skel_open r (SUnion i ss) \<longleftrightarrow> list_ex (skel_open r) ss"
| "skel_open r (SInter ss) \<longleftrightarrow> list_ex (skel_open r) ss"
| "skel_open r (SDiff z s ss) \<longleftrightarrow> skel_open r s \<or> list_ex (skel_open r) ss"

definition change_list ::
  "(string elem list \<Rightarrow> nat) \<Rightarrow> nat \<Rightarrow> (string elem dlist \<Rightarrow> string elem dlist) \<Rightarrow> rmatch \<Rightarrow> rmatch option" where
  "change_list pick r f s =
     (if skel_open r (dyn_shape (rm_tree s))
      then (let s1 = s\<lparr>rm_tree := dyn_update r f (rm_tree s)\<rparr>
            in if rm_wired s then collect_placements pick s1 else Some s1)
      else Some s)"

text \<open>The callbacks of the lookups: \<open>get_index_iter_cb\<close>, and \<open>_got_actor\<close> of \<open>actor_nodes\<close>.\<close>

definition answer_list :: "(string elem list \<Rightarrow> nat) \<Rightarrow> nat \<Rightarrow> string list option \<Rightarrow> rmatch \<Rightarrow> rmatch option" where
  "answer_list pick r v s =
     Option.bind
       (case v of None \<Rightarrow> Some s | Some vs \<Rightarrow> change_list pick r (\<lambda>l. snd (list_extend (map Elem vs) l)) s)
       (change_list pick r (\<lambda>l. snd (list_final l)))"

fun match_step :: "(string elem list \<Rightarrow> nat) \<Rightarrow> match_event \<Rightarrow> rmatch \<Rightarrow> rmatch option" where
  "match_step pick Started s = (if rm_wired s then Some s else collect_placements pick (s\<lparr>rm_wired := True\<rparr>))"
| "match_step pick (Answered r v) s = answer_list pick r v s"
| "match_step pick TimerFired s = (if rm_timer s = None then Some s else collect_placements pick (s\<lparr>rm_timer := None\<rparr>))"

fun match_run :: "(string elem list \<Rightarrow> nat) \<Rightarrow> match_event list \<Rightarrow> rmatch \<Rightarrow> rmatch option" where
  "match_run pick [] s = Some s"
| "match_run pick (e # es) s = Option.bind (match_step pick e s) (match_run pick es)"

section \<open>Matching for an actor\<close>

text \<open>
  \<open>match_for_actor\<close> with the requirements of the local actors; \<open>match_actor_registry\<close> asks the registry for those of others and
  goes on in \<open>got_requirements\<close> with what it answers: \<open>None\<close> when the answer fails, otherwise the requirements, if they are a list.
\<close>

definition add_call :: "string elem list \<Rightarrow> answer \<Rightarrow> rmatch \<Rightarrow> rmatch" where
  "add_call es st s = s\<lparr>rm_calls := rm_calls s @ (if rm_callback s then [(es, st)] else [])\<rparr>"

definition match_for_actor :: "(string \<Rightarrow> requirement list option option) \<Rightarrow> string \<Rightarrow> rmatch \<Rightarrow> (bool, rmatch) out" where
  "match_for_actor actors a s =
     (case actors a of
        None \<Rightarrow> (Inr False, add_call [] response_failed s)
      | Some reqs \<Rightarrow> match_build reqs (s\<lparr>rm_env := (rm_env s)\<lparr>me_actor_id := Some a\<rparr>\<rparr>))"

definition got_requirements :: "string \<Rightarrow> answer + requirement list option \<Rightarrow> rmatch \<Rightarrow> (bool, rmatch) out" where
  "got_requirements a v s =
     (case v of
        Inl failure \<Rightarrow> (Inr False, add_call [] failure s)
      | Inr reqs \<Rightarrow>
          (case match_build reqs (s\<lparr>rm_env := (rm_env s)\<lparr>me_actor_id := Some a\<rparr>\<rparr>) of
             (Inl e, s1) \<Rightarrow> (Inr False, add_call [] (AResponse 400) s1)
           | (Inr b, s1) \<Rightarrow> (Inr b, s1)))"

text \<open>Whether the registry is asked.\<close>

definition match_actor_registry :: "(string \<Rightarrow> requirement list option option) \<Rightarrow> string \<Rightarrow> rmatch \<Rightarrow> (bool, rmatch) out \<times> bool" where
  "match_actor_registry actors a s =
     (if actors a \<noteq> None then (match_for_actor actors a s, False) else ((Inr False, s), True))"

end
