(* ===== verification/Requirement_Lemmas.thy ===== *)
theory Requirement_Lemmas
  imports Requirement_Match
begin

text \<open>
  The lemmas about requirement matching: what the requirements mean, that the trees built from them mean the same, how answers
  change the shape of a tree, and the invariant of a match, which every event keeps.
\<close>

section \<open>Collecting from an iterable\<close>

context iterable
begin

lemma take_nodes_good:
  assumes "ok v" "set es = taken v"
  shows "\<exists>out es' v'. take_nodes nxt es v = Some (out, es', v') \<and> ok v' \<and> den v' = den v \<and> shape v' = shape v \<and> set es' = taken v' \<and>
    (definite v \<longrightarrow> definite v') \<and> (ended v \<longrightarrow> ended v') \<and>
    (out = Paused \<and> \<not> ended v \<and> (prompt v \<longrightarrow> cover (taken v') = den v') \<or> out = Stopped \<and> ended v' \<and> cover (taken v') = den v')"
  using assms
proof (induction "left v" arbitrary: v es rule: less_induct)
  case less
  from less.prems(1) show ?case
  proof (cases rule: next_cases)
    case (Next e v1)
    then have "set (List.insert e es) = taken v1" using less.prems by auto
    from less.hyps[OF Next(9,2) this] obtain out es' v' where
      v': "take_nodes nxt (List.insert e es) v1 = Some (out, es', v')" "ok v'" "den v' = den v1" "shape v' = shape v1" "set es' = taken v'"
      "definite v1 \<longrightarrow> definite v'" "ended v1 \<longrightarrow> ended v'"
      "out = Paused \<and> \<not> ended v1 \<and> (prompt v1 \<longrightarrow> cover (taken v') = den v') \<or> out = Stopped \<and> ended v' \<and> cover (taken v') = den v'" by blast
    moreover have "take_nodes nxt es v = take_nodes nxt (List.insert e es) v1"
      using Next(1) by (subst take_nodes.simps) simp
    ultimately show ?thesis using Next by auto
  qed (use less.prems in \<open>subst take_nodes.simps, auto\<close>)+
qed

end

section \<open>The meaning of requirements\<close>

text \<open>Which nodes satisfy a requirement, when the registry answers a lookup \<open>l\<close> with the set \<open>ans l\<close>.\<close>

definition attr_mean :: "match_env \<Rightarrow> (lookup \<Rightarrow> string set) \<Rightarrow> pyval \<Rightarrow> string set" where
  "attr_mean env ans ix =
     (case format_index_string (me_str_of env) ix True of
        Inl e \<Rightarrow> {} | Inr s \<Rightarrow> ans (LookIndex (iter_levels (IStr s))))"

definition attr_ok :: "match_env \<Rightarrow> pyval \<Rightarrow> bool" where
  "attr_ok env ix \<longleftrightarrow> (case format_index_string (me_str_of env) ix True of Inl e \<Rightarrow> False | Inr s \<Rightarrow> True)"

definition all_names :: pyval where
  "all_names = PList [PStr ''node_name'', PDict []]"

definition name_is :: "pyval \<Rightarrow> pyval" where
  "name_is n = PDict [(PStr ''node_name'', PDict [(PStr ''name'', n)])]"

fun call_mean :: "match_env \<Rightarrow> (lookup \<Rightarrow> string set) \<Rightarrow> req_call \<Rightarrow> string set" where
  "call_mean env ans AllNodes = attr_mean env ans all_names"
| "call_mean env ans CurrentNode = {me_node_id env}"
| "call_mean env ans (NodeAttrMatch ix) = attr_mean env ans ix"
| "call_mean env ans (RuntimeName n) = attr_mean env ans (name_is n)"
| "call_mean env ans (ActorReqsMatch rs) = (\<Inter>r\<in>set rs. ans (LookIndex (iter_levels (required_capability r))))"
| "call_mean env ans (PortPropertyMatch ps) = (\<Union>p\<in>set ps. ans (LookIndex (iter_levels (required_capability p))))"
| "call_mean env ans (ReplicaNodes r) =
     (case r of None \<Rightarrow> {} | Some i \<Rightarrow> ans (LookIndex (iter_levels (IList [''replicas'', ''nodes'', i]))))"
| "call_mean env ans ActorNodes =
     (case me_actor_id env of None \<Rightarrow> {} | Some a \<Rightarrow> if a = [] then {} else ans (LookActor a))"
| "call_mean env ans OtherOp = {}"

text \<open>The calls that do not raise, and those that bound the placements.\<close>

fun call_ok :: "match_env \<Rightarrow> req_call \<Rightarrow> bool" where
  "call_ok env AllNodes \<longleftrightarrow> attr_ok env all_names"
| "call_ok env (NodeAttrMatch ix) \<longleftrightarrow> attr_ok env ix"
| "call_ok env (RuntimeName n) \<longleftrightarrow> attr_ok env (name_is n)"
| "call_ok env OtherOp \<longleftrightarrow> False"
| "call_ok env _ \<longleftrightarrow> True"

fun bounded_call :: "req_call \<Rightarrow> bool" where
  "bounded_call (ActorReqsMatch rs) \<longleftrightarrow> rs \<noteq> []"
| "bounded_call _ \<longleftrightarrow> True"

section \<open>Shapes of new trees\<close>

text \<open>
  The requests in \<open>A\<close> have been answered, \<open>q\<close> with the set \<open>val q\<close>, the others not; the labels of a shape.
\<close>

fun skel_tracks :: "nat set \<Rightarrow> (nat \<Rightarrow> 'a set) \<Rightarrow> 'a skel \<Rightarrow> bool" where
  "skel_tracks A val (SLeaf r es e m) \<longleftrightarrow> m = None \<and>
     (case r of None \<Rightarrow> e | Some q \<Rightarrow> if q \<in> A then e \<and> cover (set es) = val q else \<not> e \<and> es = [])"
| "skel_tracks A val SAll \<longleftrightarrow> True"
| "skel_tracks A val (SUnion i ss) \<longleftrightarrow> list_all (skel_tracks A val) ss"
| "skel_tracks A val (SInter ss) \<longleftrightarrow> list_all (skel_tracks A val) ss"
| "skel_tracks A val (SDiff z s ss) \<longleftrightarrow> skel_tracks A val s \<and> list_all (skel_tracks A val) ss"

fun skel_labels :: "'a skel \<Rightarrow> nat set" where
  "skel_labels (SLeaf r es e m) = set_option r"
| "skel_labels SAll = {}"
| "skel_labels (SUnion i ss) = \<Union> (set (map skel_labels ss))"
| "skel_labels (SInter ss) = \<Union> (set (map skel_labels ss))"
| "skel_labels (SDiff z s ss) = skel_labels s \<union> \<Union> (set (map skel_labels ss))"

lemma tracks_plain: "skel_tracks A val s \<Longrightarrow> skel_plain s"
  by (induction s) (auto simp: list_all_iff)

lemma tracks_answered: "skel_tracks A val s \<Longrightarrow> skel_labels s \<subseteq> A \<Longrightarrow> skel_answered val s"
proof (induction s)
  case (SDiff z s ss)
  then have "\<forall>t\<in>set ss. skel_labels t \<subseteq> A" by auto
  with SDiff show ?case by (simp add: list_all_iff)
qed (auto simp: list_all_iff UN_subset_iff split: option.splits)

lemma tracks_answer:
  assumes "skel_tracks A val s" "cover (set es) = val r"
  shows "skel_tracks (insert r A) val (skel_final r (skel_extend r es s))"
  using assms(1)
proof (induction s)
  case (SLeaf q xs e m)
  then show ?case using assms(2) by (cases q) (auto split: if_splits)
qed (simp_all add: list_all_iff)

lemma cover_empty: "cover {} = {}"
  by (simp add: cover_def)

lemma tracks_final:
  assumes "skel_tracks A val s" "val r = {}"
  shows "skel_tracks (insert r A) val (skel_final r s)"
  using assms by (induction s) (auto simp: list_all_iff cover_empty split: option.splits if_splits)

lemma labels_same [simp]: "skel_labels (skel_extend r es s) = skel_labels s" "skel_labels (skel_final r s) = skel_labels s"
  by (induction s) auto

text \<open>Answers change neither the requests of a shape nor its meaning.\<close>

definition same_skel :: "'a skel \<Rightarrow> 'a skel \<Rightarrow> bool" where
  "same_skel s s' \<longleftrightarrow> skel_labels s' = skel_labels s \<and> (\<forall>val. skel_mean val s' = skel_mean val s)"

lemma same_skel_refl [simp]: "same_skel s s"
  by (simp add: same_skel_def)

lemma same_skel_trans [trans]: "same_skel s t \<Longrightarrow> same_skel t u \<Longrightarrow> same_skel s u"
  by (simp add: same_skel_def)

lemma skel_mean_final [simp]: "skel_mean val (skel_final r s) = skel_mean val s"
  by (induction s) auto

lemma skel_mean_extend [simp]: "skel_mean val (skel_extend r es s) = skel_mean val s"
  by (induction s) (auto split: option.splits)

lemma same_skel_answer [simp]: "same_skel s (skel_final r s)" "same_skel s (skel_final r (skel_extend r es s))"
  by (simp_all add: same_skel_def)

lemma closed_same:
  assumes "\<not> skel_open r s"
  shows "skel_extend r es s = s" "skel_final r s = s"
  using assms by (induction s) (auto simp: list_ex_iff intro!: map_idI)

section \<open>What the operations build\<close>

text \<open>
  A new tree over requests that were made while it was built, with its meaning for all answers, and
  definite if it bounds the placements.
\<close>

definition builds :: "((lookup \<Rightarrow> string set) \<Rightarrow> string set) \<Rightarrow> bool \<Rightarrow> lookup list \<Rightarrow> string dyn \<Rightarrow> lookup list \<Rightarrow> bool" where
  "builds M bounded ls t ls1 \<longleftrightarrow> prefix ls ls1 \<and> fresh t \<and> (\<forall>val. skel_tracks {} val (dyn_shape t)) \<and>
     skel_labels (dyn_shape t) \<subseteq> {..<length ls1} \<and> (bounded \<longrightarrow> dyn_definite t) \<and>
     (\<forall>ans full. prefix ls1 full \<longrightarrow> dyn_mean (\<lambda>r. ans (full ! r)) t = M ans)"

lemma builds_later: "builds M b ls t ls1 \<Longrightarrow> prefix ls1 ls2 \<Longrightarrow> builds M b ls t ls2"
  unfolding builds_def by (meson lessThan_subset_iff order_trans prefix_length_le prefix_order.trans)

lemma builds_earlier: "builds M b ls1 t ls2 \<Longrightarrow> prefix ls ls1 \<Longrightarrow> builds M b ls t ls2"
  unfolding builds_def by (meson prefix_order.trans)

lemma new_request_builds: "new_request l ls = (t, ls1) \<Longrightarrow> builds (\<lambda>ans. ans l) True ls t ls1"
  using fresh_list[of "Some (length ls)" "[]"]
  by (auto simp: new_request_def builds_def list_init_def list_ended_def nth_append prefix_def)

text \<open>Lists of trees, each with its meaning.\<close>

definition builds_all :: "((lookup \<Rightarrow> string set) \<Rightarrow> string set) list \<Rightarrow> bool list \<Rightarrow> lookup list \<Rightarrow> string dyn list \<Rightarrow> lookup list \<Rightarrow> bool" where
  "builds_all Ms bs ls ts ls1 \<longleftrightarrow> prefix ls ls1 \<and> list_all2 (\<lambda>(M, b) t. builds M b ls t ls1) (zip Ms bs) ts \<and> length Ms = length bs"

lemma builds_all_Nil [simp]: "builds_all [] [] ls [] ls"
  by (simp add: builds_all_def)

lemma builds_all_Cons:
  assumes "builds M b ls t ls1" "builds_all Ms bs ls1 ts ls2"
  shows "builds_all (M # Ms) (b # bs) ls (t # ts) ls2"
proof -
  have "prefix ls ls1" "prefix ls1 ls2" using assms by (auto simp: builds_def builds_all_def)
  moreover have "list_all2 (\<lambda>(M, b) t. builds M b ls t ls2) (zip Ms bs) ts"
    using assms(2) \<open>prefix ls ls1\<close> unfolding builds_all_def
    by (auto elim!: list_all2_mono intro: builds_earlier)
  ultimately show ?thesis using assms by (auto simp: builds_all_def intro: builds_later)
qed

lemma builds_all_parts:
  assumes "builds_all Ms bs ls ts ls1"
  shows "\<forall>t\<in>set ts. fresh t" "\<forall>t\<in>set ts. skel_tracks {} val (dyn_shape t)" "\<forall>t\<in>set ts. skel_labels (dyn_shape t) \<subseteq> {..<length ls1}"
    "list_all id bs \<Longrightarrow> \<forall>t\<in>set ts. dyn_definite t" "list_ex id bs \<Longrightarrow> \<exists>t\<in>set ts. dyn_definite t"
    "prefix ls1 full \<Longrightarrow> map (dyn_mean (\<lambda>r. ans (full ! r))) ts = map (\<lambda>M. M ans) Ms" "prefix ls ls1" "length ts = length Ms"
proof -
  have a: "list_all2 (\<lambda>(M, b) t. builds M b ls t ls1) (zip Ms bs) ts" and l: "length Ms = length bs" and "prefix ls ls1"
    using assms by (auto simp: builds_all_def)
  then show "prefix ls ls1" by simp
  from a l show "length ts = length Ms" by (simp add: list_all2_lengthD[symmetric])
  have n: "builds (Ms ! i) (bs ! i) ls (ts ! i) ls1" if "i < length ts" for i
    using list_all2_nthD2[OF a that] that l \<open>length ts = length Ms\<close> by simp
  then show "\<forall>t\<in>set ts. fresh t" "\<forall>t\<in>set ts. skel_tracks {} val (dyn_shape t)" "\<forall>t\<in>set ts. skel_labels (dyn_shape t) \<subseteq> {..<length ls1}"
    unfolding builds_def all_set_conv_all_nth by blast+
  show "list_all id bs \<Longrightarrow> \<forall>t\<in>set ts. dyn_definite t"
    using n l \<open>length ts = length Ms\<close> unfolding builds_def all_set_conv_all_nth by (simp add: list_all_length)
  show "list_ex id bs \<Longrightarrow> \<exists>t\<in>set ts. dyn_definite t"
    using n l \<open>length ts = length Ms\<close> unfolding builds_def list_ex_length by (metis id_apply nth_mem)
  show "prefix ls1 full \<Longrightarrow> map (dyn_mean (\<lambda>r. ans (full ! r))) ts = map (\<lambda>M. M ans) Ms"
    using n \<open>length ts = length Ms\<close> unfolding builds_def by (intro nth_equalityI) auto
qed

lemma image_map: "map f xs = map g ys \<Longrightarrow> f ` set xs = g ` set ys"
  by (metis list.set_map)

lemma union_definite: "\<forall>t\<in>set ts. fresh t \<Longrightarrow> \<forall>t\<in>set ts. dyn_definite t \<Longrightarrow> dyn_definite (dyn_union ts)"
  using fresh_infinite_attr by (auto simp: dyn_union_def union_init_def union_definite_def Let_def list_all_iff list_ex_iff)

lemma inter_definite:
  assumes "\<forall>t\<in>set ts. fresh t" "\<exists>t\<in>set ts. dyn_definite t"
  shows "dyn_definite (dyn_inter ts)"
proof -
  obtain t where t: "t \<in> set ts" "dyn_definite t" "\<not> is_infinite infinite_attr t"
    using assms fresh_infinite_attr by blast
  then have "filter (Not \<circ> is_infinite infinite_attr) ts \<noteq> []" by (auto simp: filter_empty_conv)
  with t show ?thesis by (auto simp: dyn_inter_def inter_init_def inter_definite_def Let_def list_ex_iff)
qed

lemma union_builds:
  assumes "builds_all Ms bs ls ts ls1"
  shows "builds (\<lambda>ans. \<Union>M\<in>set Ms. M ans) (list_all id bs) ls (dyn_union ts) ls1"
proof -
  note p = builds_all_parts[OF assms]
  have "dyn_mean (\<lambda>r. ans (full ! r)) (dyn_union ts) = (\<Union>M\<in>set Ms. M ans)" if "prefix ls1 full" for ans full
    unfolding mean_union[OF p(1)] using image_map[OF p(6)[OF that]] by simp
  moreover have "skel_tracks {} val (dyn_shape (dyn_union ts))" for val
    using p(2) by (auto simp: dyn_union_def union_init_def union_shape_def Let_def list_all_iff)
  moreover have "skel_labels (dyn_shape (dyn_union ts)) \<subseteq> {..<length ls1}"
    using p(3) by (auto simp: dyn_union_def union_init_def union_shape_def Let_def)
  ultimately show ?thesis using p fresh_union[OF p(1)] union_definite[OF p(1)] by (auto simp: builds_def)
qed

lemma inter_builds:
  assumes "builds_all Ms bs ls ts ls1"
  shows "builds (\<lambda>ans. \<Inter>M\<in>set Ms. M ans) (list_ex id bs) ls (dyn_inter ts) ls1"
proof -
  note p = builds_all_parts[OF assms]
  have "dyn_mean (\<lambda>r. ans (full ! r)) (dyn_inter ts) = (\<Inter>M\<in>set Ms. M ans)" if "prefix ls1 full" for ans full
    unfolding mean_inter[OF p(1)] using image_map[OF p(6)[OF that]] by simp
  moreover have "skel_tracks {} val (dyn_shape (dyn_inter ts))" for val
    using p(2) by (auto simp: dyn_inter_def inter_init_def inter_shape_def Let_def list_all_iff)
  moreover have "skel_labels (dyn_shape (dyn_inter ts)) \<subseteq> {..<length ls1}"
    using p(3) by (auto simp: dyn_inter_def inter_init_def inter_shape_def Let_def)
  ultimately show ?thesis using p fresh_inter[OF p(1)] inter_definite[OF p(1)] by (auto simp: builds_def)
qed

lemma builds_all_earlier: "builds_all Ms bs ls1 ts ls2 \<Longrightarrow> prefix ls ls1 \<Longrightarrow> builds_all Ms bs ls ts ls2"
  unfolding builds_all_def by (auto elim!: list_all2_mono intro: builds_earlier)

lemma static_builds: "fresh t \<Longrightarrow> dyn_shape t = SLeaf None es True None \<Longrightarrow> cover (set es) = S \<Longrightarrow> dyn_definite t \<Longrightarrow> builds (\<lambda>_. S) True ls t ls"
  by (auto simp: builds_def)

lemma empty_builds: "builds (\<lambda>_. {}) True ls empty_list ls"
  by (rule static_builds[where es = "[]"])
     (auto simp: empty_list_def list_final_def list_init_def list_ended_def fresh_def cover_empty)

lemma current_builds: "current_node env ls = (r, ls1) \<Longrightarrow> \<exists>t. r = Inr t \<and> builds (\<lambda>_. {me_node_id env}) True ls t ls1"
  unfolding current_node_def prod.inject
  by (elim conjE, rule exI, rule conjI, erule sym, hypsubst, rule static_builds[where es = "[Elem (me_node_id env)]"])
     (auto simp: list_final_def list_init_def list_ended_def fresh_def cover_def)

lemma infinite_builds: "builds (\<lambda>_. UNIV) False ls dyn_infinite ls"
  using fresh_infinite by (auto simp: builds_def dyn_infinite_def)

lemma index_lookups_builds:
  "index_lookups ixs ls = (ts, ls1) \<Longrightarrow>
   builds_all (map (\<lambda>ix ans. ans (LookIndex (iter_levels ix))) ixs) (map (\<lambda>_. True) ixs) ls ts ls1"
proof (induction ixs arbitrary: ls ts ls1)
  case (Cons ix ixs)
  obtain t ls2 where t: "index_lookup ix ls = (t, ls2)" by (cases "index_lookup ix ls")
  obtain us ls3 where us: "index_lookups ixs ls2 = (us, ls3)" by (cases "index_lookups ixs ls2")
  have "builds (\<lambda>ans. ans (LookIndex (iter_levels ix))) True ls t ls2"
    using t new_request_builds by (simp add: index_lookup_def)
  from builds_all_Cons[OF this Cons.IH[OF us]] Cons.prems t us show ?case by auto
qed simp

lemma attr_builds:
  assumes "attr_ok env ix" "node_attr_match env ix ls = (r, ls1)"
  shows "\<exists>t. r = Inr t \<and> builds (\<lambda>ans. attr_mean env ans ix) True ls t ls1"
proof -
  obtain s where s: "format_index_string (me_str_of env) ix True = Inr s"
    using assms(1) by (auto simp: attr_ok_def split: sum.splits)
  obtain t where "index_lookup (IStr s) ls = (t, ls1)" "r = Inr t"
    using assms(2) s by (auto simp: node_attr_match_def map_prod_def split: prod.splits)
  with s show ?thesis using new_request_builds by (auto simp: index_lookup_def attr_mean_def)
qed

lemma all_nodes_attr: "all_nodes env = node_attr_match env all_names"
  by (simp add: fun_eq_iff all_nodes_def node_attr_match_def all_names_def)

lemma runtime_name_attr: "runtime_name env n = node_attr_match env (name_is n)"
  by (simp add: runtime_name_def name_is_def)

lemma reqs_builds:
  assumes "actor_reqs_match env rs ls = (r, ls1)"
  shows "\<exists>t. r = Inr t \<and> builds (\<lambda>ans. \<Inter>c\<in>set rs. ans (LookIndex (iter_levels (required_capability c)))) (rs \<noteq> []) ls t ls1
    \<and> (rs = [] \<longrightarrow> is_infinite infinite_attr t)"
proof (cases "rs = []")
  case True
  then show ?thesis using assms infinite_builds
    by (auto simp: actor_reqs_match_def is_infinite_def dyn_infinite_def opt_default_def)
next
  case False
  obtain ts ls2 where ts: "index_lookups (map required_capability rs) ls = (ts, ls2)"
    by (cases "index_lookups (map required_capability rs) ls")
  with assms False have "r = Inr (dyn_inter ts)" "ls2 = ls1" by (auto simp: actor_reqs_match_def)
  moreover have "list_ex id (map (\<lambda>_. True) (map required_capability rs))" using False by (cases rs) auto
  ultimately show ?thesis using inter_builds[OF index_lookups_builds[OF ts]] False by (simp add: image_image)
qed

lemma property_builds:
  assumes "port_property_match env ps ls = (r, ls1)"
  shows "\<exists>t. r = Inr t \<and> builds (\<lambda>ans. \<Union>p\<in>set ps. ans (LookIndex (iter_levels (required_capability p)))) True ls t ls1"
proof -
  obtain ts ls2 where ts: "index_lookups (map required_capability ps) ls = (ts, ls2)"
    by (cases "index_lookups (map required_capability ps) ls")
  note b = index_lookups_builds[OF ts]
  have r: "r = Inr (if 1 < length ts then dyn_union ts else if length ts = 1 then hd ts else empty_list)" "ls2 = ls1"
    using assms ts by (auto simp: port_property_match_def Let_def)
  have len: "length ts = length ps" using builds_all_parts(8)[OF b] by simp
  consider "1 < length ts" | p where "ps = [p]" | "ps = []"
    using len by (cases ps; cases "tl ps") auto
  then show ?thesis
  proof cases
    case 1
    have "list_all id (map (\<lambda>_. True) (map required_capability ps))" by (simp add: list_all_iff)
    with 1 show ?thesis using union_builds[OF b] r by (simp add: image_image)
  next
    case 2
    then show ?thesis using ts r new_request_builds by (auto simp: index_lookup_def split: prod.splits)
  next
    case 3
    then show ?thesis using ts r empty_builds by auto
  qed
qed

lemma req_op_builds:
  assumes "call_ok env c" "req_op env c ls = (r, ls1)"
  shows "\<exists>t. r = Inr t \<and> builds (\<lambda>ans. call_mean env ans c) (bounded_call c) ls t ls1 \<and> (bounded_call c \<or> is_infinite infinite_attr t)"
proof (cases c)
  case CurrentNode
  then show ?thesis using assms current_builds by simp
next
  case (ActorReqsMatch rs)
  then show ?thesis using assms reqs_builds[of env rs ls r ls1] by auto
next
  case (PortPropertyMatch ps)
  then show ?thesis using assms property_builds[of env ps ls r ls1] by auto
next
  case (ReplicaNodes i)
  then show ?thesis using assms new_request_builds empty_builds
    by (cases i) (fastforce simp: replica_nodes_def index_lookup_def map_prod_def split: prod.splits)+
next
  case ActorNodes
  then show ?thesis using assms new_request_builds empty_builds
    by (fastforce simp: actor_nodes_def map_prod_def split: prod.splits option.splits if_splits)
qed (use assms attr_builds in \<open>auto simp: all_nodes_attr runtime_name_attr\<close>)

section \<open>What a list of requirements builds\<close>

fun req_plus :: "match_env \<Rightarrow> (lookup \<Rightarrow> string set) \<Rightarrow> requirement list \<Rightarrow> string set" where
  "req_plus env ans [] = UNIV"
| "req_plus env ans (UnionGroup cs # rs) = (\<Union>c\<in>set cs. call_mean env ans c) \<inter> req_plus env ans rs"
| "req_plus env ans (Single c ty # rs) = (if ty = Plus then call_mean env ans c \<inter> req_plus env ans rs else req_plus env ans rs)"

fun req_minus :: "match_env \<Rightarrow> (lookup \<Rightarrow> string set) \<Rightarrow> requirement list \<Rightarrow> string set" where
  "req_minus env ans [] = {}"
| "req_minus env ans (UnionGroup cs # rs) = req_minus env ans rs"
| "req_minus env ans (Single c ty # rs) = (if ty = Minus then call_mean env ans c \<union> req_minus env ans rs else req_minus env ans rs)"

text \<open>The nodes that satisfy all requirements.\<close>

definition req_mean :: "match_env \<Rightarrow> (lookup \<Rightarrow> string set) \<Rightarrow> requirement list \<Rightarrow> string set" where
  "req_mean env ans rs = req_plus env ans rs - req_minus env ans rs"

fun req_ok :: "match_env \<Rightarrow> requirement \<Rightarrow> bool" where
  "req_ok env (UnionGroup cs) = list_all (call_ok env) cs"
| "req_ok env (Single c ty) = call_ok env c"

fun bounds :: "requirement \<Rightarrow> bool" where
  "bounds (UnionGroup cs) = list_all bounded_call cs"
| "bounds (Single c ty) = (ty = Plus \<and> bounded_call c)"

fun takes_away :: "requirement \<Rightarrow> bool" where
  "takes_away (UnionGroup cs) = False"
| "takes_away (Single c ty) = (ty = Minus)"

lemma named_op_builds:
  assumes "call_ok env c" "me_actor_id env = Some a" "named_op env c ls = (r, ls1)"
  shows "\<exists>t. r = Inr t \<and> builds (\<lambda>ans. call_mean env ans c) (bounded_call c) ls t ls1 \<and> (bounded_call c \<or> is_infinite infinite_attr t)"
proof -
  obtain r1 ls2 where o: "req_op env c ls = (r1, ls2)" by (cases "req_op env c ls")
  with req_op_builds[OF assms(1) o] assms(2,3) show ?thesis by (auto simp: named_op_def)
qed

lemma union_iters_builds:
  "list_all (call_ok env) cs \<Longrightarrow> me_actor_id env = Some a \<Longrightarrow> union_iters env cs ls = (ts, ls1) \<Longrightarrow>
   builds_all (map (\<lambda>c ans. call_mean env ans c) cs) (map bounded_call cs) ls ts ls1"
proof (induction cs arbitrary: ls ts ls1)
  case (Cons c cs)
  obtain r ls2 where r: "named_op env c ls = (r, ls2)" by (cases "named_op env c ls")
  obtain us ls3 where us: "union_iters env cs ls2 = (us, ls3)" by (cases "union_iters env cs ls2")
  obtain t where t: "r = Inr t" "builds (\<lambda>ans. call_mean env ans c) (bounded_call c) ls t ls2"
    using named_op_builds[OF _ Cons.prems(2) r] Cons.prems(1) by auto
  from builds_all_Cons[OF t(2) Cons.IH[OF _ Cons.prems(2) us]] Cons.prems t(1) r us show ?case by auto
qed simp

lemma group_builds:
  assumes "list_all (call_ok env) cs" "me_actor_id env = Some a" "build_union_match env cs ls = (t, ls1)"
  shows "builds (\<lambda>ans. \<Union>c\<in>set cs. call_mean env ans c) (list_all bounded_call cs) ls t ls1"
proof -
  obtain ts where ts: "union_iters env cs ls = (ts, ls1)" "t = dyn_union ts"
    using assms(3) by (auto simp: build_union_match_def map_prod_def split: prod.splits)
  show ?thesis using union_builds[OF union_iters_builds[OF assms(1,2) ts(1)]] by (simp add: ts(2) list.pred_map image_image o_def)
qed

text \<open>What the requirements build: the iterables to intersect, and those to remove.\<close>

definition parts_for ::
  "match_env \<Rightarrow> requirement list \<Rightarrow> lookup list \<Rightarrow> string dyn list \<Rightarrow> string dyn list \<Rightarrow> lookup list \<Rightarrow> bool" where
  "parts_for env rs ls ps ms ls1 \<longleftrightarrow>
     (\<exists>Ps Pb Ms Mb. builds_all Ps Pb ls ps ls1 \<and> builds_all Ms Mb ls ms ls1 \<and>
        (\<forall>ans. (\<Inter>P\<in>set Ps. P ans) = req_plus env ans rs \<and> (\<Union>M\<in>set Ms. M ans) = req_minus env ans rs) \<and>
        list_ex id Pb = list_ex bounds rs \<and> (ms = [] \<longleftrightarrow> \<not> list_ex takes_away rs) \<and>
        (\<forall>t\<in>set ms. dyn_definite t \<or> is_infinite infinite_attr t))"

lemma parts_forE:
  assumes "parts_for env rs ls ps ms ls1"
  obtains Ps Pb Ms Mb where "builds_all Ps Pb ls ps ls1" "builds_all Ms Mb ls ms ls1"
    "\<forall>ans. (\<Inter>P\<in>set Ps. P ans) = req_plus env ans rs \<and> (\<Union>M\<in>set Ms. M ans) = req_minus env ans rs"
    "list_ex id Pb = list_ex bounds rs" "ms = [] \<longleftrightarrow> \<not> list_ex takes_away rs"
    "\<forall>t\<in>set ms. dyn_definite t \<or> is_infinite infinite_attr t"
  using assms unfolding parts_for_def by (elim exE conjE) (rule that)

lemma parts_plus:
  assumes "builds P b ls t ls1" "parts_for env rs ls1 ps ms ls2" "b = bounds r" "\<not> takes_away r"
    "\<And>ans. req_plus env ans (r # rs) = P ans \<inter> req_plus env ans rs" "\<And>ans. req_minus env ans (r # rs) = req_minus env ans rs"
  shows "parts_for env (r # rs) ls (t # ps) ms ls2"
proof -
  obtain Ps Pb Ms Mb where p: "builds_all Ps Pb ls1 ps ls2" "builds_all Ms Mb ls1 ms ls2"
    "\<forall>ans. (\<Inter>P\<in>set Ps. P ans) = req_plus env ans rs \<and> (\<Union>M\<in>set Ms. M ans) = req_minus env ans rs"
    "list_ex id Pb = list_ex bounds rs" "ms = [] \<longleftrightarrow> \<not> list_ex takes_away rs"
    "\<forall>t\<in>set ms. dyn_definite t \<or> is_infinite infinite_attr t"
    using assms(2) by (rule parts_forE)
  have "prefix ls ls1" using assms(1) by (simp add: builds_def)
  note pre = this
  show ?thesis unfolding parts_for_def
  proof (intro exI conjI)
    show "builds_all (P # Ps) (b # Pb) ls (t # ps) ls2" by (rule builds_all_Cons[OF assms(1) p(1)])
    show "builds_all Ms Mb ls ms ls2" by (rule builds_all_earlier[OF p(2) pre])
    show "\<forall>ans. (\<Inter>P\<in>set (P # Ps). P ans) = req_plus env ans (r # rs) \<and> (\<Union>M\<in>set Ms. M ans) = req_minus env ans (r # rs)"
      using p(3) assms by simp
    show "list_ex id (b # Pb) = list_ex bounds (r # rs)" using p(4) assms(3) by simp
    show "ms = [] \<longleftrightarrow> \<not> list_ex takes_away (r # rs)" using p(5) assms(4) by simp
    show "\<forall>t\<in>set ms. dyn_definite t \<or> is_infinite infinite_attr t" using p(6) assms by simp
  qed
qed

lemma parts_minus:
  assumes "builds M b ls t ls1" "parts_for env rs ls1 ps ms ls2" "\<not> bounds r" "takes_away r"
    "\<And>ans. req_plus env ans (r # rs) = req_plus env ans rs" "\<And>ans. req_minus env ans (r # rs) = M ans \<union> req_minus env ans rs"
    "dyn_definite t \<or> is_infinite infinite_attr t"
  shows "parts_for env (r # rs) ls ps (t # ms) ls2"
proof -
  obtain Ps Pb Ms Mb where p: "builds_all Ps Pb ls1 ps ls2" "builds_all Ms Mb ls1 ms ls2"
    "\<forall>ans. (\<Inter>P\<in>set Ps. P ans) = req_plus env ans rs \<and> (\<Union>M\<in>set Ms. M ans) = req_minus env ans rs"
    "list_ex id Pb = list_ex bounds rs" "ms = [] \<longleftrightarrow> \<not> list_ex takes_away rs"
    "\<forall>t\<in>set ms. dyn_definite t \<or> is_infinite infinite_attr t"
    using assms(2) by (rule parts_forE)
  have "prefix ls ls1" using assms(1) by (simp add: builds_def)
  note pre = this
  show ?thesis unfolding parts_for_def
  proof (intro exI conjI)
    show "builds_all Ps Pb ls ps ls2" by (rule builds_all_earlier[OF p(1) pre])
    show "builds_all (M # Ms) (b # Mb) ls (t # ms) ls2" by (rule builds_all_Cons[OF assms(1) p(2)])
    show "\<forall>ans. (\<Inter>P\<in>set Ps. P ans) = req_plus env ans (r # rs) \<and> (\<Union>M\<in>set (M # Ms). M ans) = req_minus env ans (r # rs)"
      using p(3) assms by simp
    show "list_ex id Pb = list_ex bounds (r # rs)" using p(4) assms(3) by simp
    show "(t # ms) = [] \<longleftrightarrow> \<not> list_ex takes_away (r # rs)" using p(5) assms(4) by simp
    show "\<forall>t\<in>set (t # ms). dyn_definite t \<or> is_infinite infinite_attr t" using p(6) assms by simp
  qed
qed

lemma parts_skip:
  assumes "parts_for env rs ls1 ps ms ls2" "prefix ls ls1" "\<not> bounds r" "\<not> takes_away r"
    "\<And>ans. req_plus env ans (r # rs) = req_plus env ans rs" "\<And>ans. req_minus env ans (r # rs) = req_minus env ans rs"
  shows "parts_for env (r # rs) ls ps ms ls2"
proof -
  obtain Ps Pb Ms Mb where p: "builds_all Ps Pb ls1 ps ls2" "builds_all Ms Mb ls1 ms ls2"
    "\<forall>ans. (\<Inter>P\<in>set Ps. P ans) = req_plus env ans rs \<and> (\<Union>M\<in>set Ms. M ans) = req_minus env ans rs"
    "list_ex id Pb = list_ex bounds rs" "ms = [] \<longleftrightarrow> \<not> list_ex takes_away rs"
    "\<forall>t\<in>set ms. dyn_definite t \<or> is_infinite infinite_attr t"
    using assms(1) by (rule parts_forE)
  show ?thesis unfolding parts_for_def
  proof (intro exI conjI)
    show "builds_all Ps Pb ls ps ls2" by (rule builds_all_earlier[OF p(1) assms(2)])
    show "builds_all Ms Mb ls ms ls2" by (rule builds_all_earlier[OF p(2) assms(2)])
    show "\<forall>ans. (\<Inter>P\<in>set Ps. P ans) = req_plus env ans (r # rs) \<and> (\<Union>M\<in>set Ms. M ans) = req_minus env ans (r # rs)"
      using p(3) assms by simp
    show "list_ex id Pb = list_ex bounds (r # rs)" using p(4) assms(3) by simp
    show "ms = [] \<longleftrightarrow> \<not> list_ex takes_away (r # rs)" using p(5) assms(4) by simp
    show "\<forall>t\<in>set ms. dyn_definite t \<or> is_infinite infinite_attr t" using p(6) assms by simp
  qed
qed

lemma req_iters_parts:
  "me_actor_id env = Some a \<Longrightarrow> list_all (req_ok env) rs \<Longrightarrow> req_iters env rs ls = (r, ls1) \<Longrightarrow>
    \<exists>ps ms. r = Inr (ps, ms) \<and> parts_for env rs ls ps ms ls1"
proof (induction rs arbitrary: ls r)
  case Nil
  have "parts_for env [] ls [] [] ls" unfolding parts_for_def
  proof (intro exI conjI)
    show "builds_all [] [] ls [] ls" "builds_all [] [] ls [] ls" by simp_all
  qed simp_all
  moreover have "r = Inr ([], [])" "ls = ls1" using Nil(3) by auto
  ultimately show ?case by simp
next
  case (Cons q rs)
  show ?case
  proof (cases q)
    case (UnionGroup cs)
    obtain t ls2 where t: "build_union_match env cs ls = (t, ls2)" by (cases "build_union_match env cs ls")
    obtain r1 ls3 where r1: "req_iters env rs ls2 = (r1, ls3)" by (cases "req_iters env rs ls2")
    have "ls3 = ls1" "r = map_sum id (map_prod ((#) t) id) r1" using Cons.prems t r1 by (auto simp: UnionGroup)
    moreover from this obtain ps ms where "r1 = Inr (ps, ms)" "parts_for env rs ls2 ps ms ls1"
      using Cons.IH[of ls2 r1] Cons.prems r1 by auto
    moreover have "builds (\<lambda>ans. \<Union>c\<in>set cs. call_mean env ans c) (bounds q) ls t ls2"
      using group_builds[OF _ Cons.prems(1) t] Cons.prems(2) by (simp add: UnionGroup)
    ultimately show ?thesis using parts_plus[of "\<lambda>ans. \<Union>c\<in>set cs. call_mean env ans c" "bounds q" ls t ls2 env rs ps ms ls1 q]
      by (simp add: UnionGroup)
  next
    case (Single c ty)
    obtain r0 ls2 where r0: "named_op env c ls = (r0, ls2)" by (cases "named_op env c ls")
    obtain r1 ls3 where r1: "req_iters env rs ls2 = (r1, ls3)" by (cases "req_iters env rs ls2")
    obtain t where t: "r0 = Inr t" "builds (\<lambda>ans. call_mean env ans c) (bounded_call c) ls t ls2" "bounded_call c \<or> is_infinite infinite_attr t"
      using named_op_builds[OF _ Cons.prems(1) r0] Cons.prems(2) by (auto simp: Single)
    have "ls3 = ls1" using Cons.prems r0 r1 by (auto simp: Single)
    then obtain ps ms where pm: "r1 = Inr (ps, ms)" "parts_for env rs ls2 ps ms ls1"
      using Cons.IH[of ls2 r1] Cons.prems r1 by auto
    have r: "r = Inr (if ty = Plus then t # ps else ps, if ty = Minus then t # ms else ms)"
      using Cons.prems(3) r0 r1 t(1) pm(1) by (auto simp: Single)
    show ?thesis
    proof (cases ty)
      case Plus
      then show ?thesis using parts_plus[OF t(2) pm(2), of q] r by (simp add: Single)
    next
      case Minus
      have "dyn_definite t \<or> is_infinite infinite_attr t" using t(2,3) by (auto simp: builds_def)
      with Minus show ?thesis using parts_minus[OF t(2) pm(2), of q] r by (simp add: Single)
    next
      case UnknownType
      have "prefix ls ls2" using t(2) by (simp add: builds_def)
      with UnknownType show ?thesis using parts_skip[OF pm(2), of ls q] r by (simp add: Single)
    qed
  qed
qed

lemma build_match_builds:
  assumes "me_actor_id env = Some a" "list_all (req_ok env) rs" "list_ex takes_away rs \<Longrightarrow> list_ex bounds rs"
    "build_match env rs ls = (r, ls1)"
  shows "\<exists>t. r = Inr t \<and> builds (\<lambda>ans. req_mean env ans rs) (list_ex bounds rs) ls t ls1"
proof -
  obtain r0 where r0: "req_iters env rs ls = (r0, ls1)" using assms(4) by (auto simp: build_match_def split: prod.splits)
  obtain ps ms where pm: "r0 = Inr (ps, ms)" "parts_for env rs ls ps ms ls1" using req_iters_parts[OF assms(1,2) r0] by blast
  from pm(2) obtain Ps Pb Ms Mb where p: "builds_all Ps Pb ls ps ls1" "builds_all Ms Mb ls ms ls1"
    "\<forall>ans. (\<Inter>P\<in>set Ps. P ans) = req_plus env ans rs \<and> (\<Union>M\<in>set Ms. M ans) = req_minus env ans rs"
    "list_ex id Pb = list_ex bounds rs" "ms = [] \<longleftrightarrow> \<not> list_ex takes_away rs"
    "\<forall>t\<in>set ms. dyn_definite t \<or> is_infinite infinite_attr t"
    by (rule parts_forE)
  have r: "r = (if ms = [] then Inr (dyn_inter ps) else dyn_diff (dyn_inter ps) ms)"
    using assms(1,4) r0 pm(1) by (auto simp: build_match_def)
  note i = inter_builds[OF p(1)] and m = builds_all_parts[OF p(2)]
  show ?thesis
  proof (cases "ms = []")
    case True
    then have "req_minus env ans rs = {}" for ans
      using p(3) m(8) by (metis SUP_empty length_0_conv list.set(1))
    with True r i p(3,4) show ?thesis by (simp add: req_mean_def)
  next
    case False
    obtain d where d: "dyn_diff (dyn_inter ps) ms = Inr d"
      by (auto simp: dyn_diff_def difference_init_def dyn_inter_def)
    have cond: "list_ex (is_infinite infinite_attr) ms \<or> dyn_definite (dyn_inter ps) \<and> (\<forall>v\<in>set ms. dyn_definite v)"
      using False p(4-6) assms(3) i by (auto simp: builds_def list_ex_iff)
    have f: "fresh (dyn_inter ps)" using i by (simp add: builds_def)
    note fd = fresh_diff[OF f m(1) d cond]
    have sh: "dyn_shape d = SDiff (list_ex (is_infinite infinite_attr) ms) (dyn_shape (dyn_inter ps)) (map dyn_shape ms)"
      using d by (auto simp: dyn_diff_def difference_init_def dyn_inter_def diff_shape_def)
    have it: "skel_tracks {} val (dyn_shape (dyn_inter ps))" "skel_labels (dyn_shape (dyn_inter ps)) \<subseteq> {..<length ls1}" for val
      using i by (auto simp: builds_def)
    have "skel_tracks {} val (dyn_shape d)" for val
      using it(1) m(2) unfolding sh by (simp add: list_all_iff)
    moreover have "skel_labels (dyn_shape d) \<subseteq> {..<length ls1}"
      using it(2) m(3) unfolding sh by (simp add: UN_subset_iff)
    moreover have "dyn_definite d" using d by (auto simp: dyn_diff_def difference_init_def dyn_inter_def)
    moreover have "dyn_mean (\<lambda>r. ans (full ! r)) d = req_mean env ans rs" if "prefix ls1 full" for ans full
    proof -
      have "(\<Union>v\<in>set ms. dyn_mean (\<lambda>r. ans (full ! r)) v) = (\<Union>M\<in>set Ms. M ans)"
        using image_map[OF m(6)[OF that]] by simp
      then show ?thesis using i that p(3) fd(2) by (simp add: req_mean_def builds_def)
    qed
    ultimately show ?thesis using d r False fd(1) m(7) by (auto simp: builds_def)
  qed
qed

section \<open>Collecting while answers come in\<close>

definition status_of :: "string elem list \<Rightarrow> answer" where
  "status_of es = (if es = [] then response_failed else response_ok)"

text \<open>What holds of a match at every moment; a match that has started and is not done has a timer that will try again.\<close>

definition match_core :: "rmatch \<Rightarrow> bool" where
  "match_core s \<longleftrightarrow> dyn_ok (rm_tree s) \<and> rm_last_value s = 0 \<and>
     (if rm_done s
      then dyn_ended (rm_tree s) \<and>
        (\<exists>es. set es = dyn_taken (rm_tree s) \<and> cover (set es) = dyn_den (rm_tree s) \<and> rm_placements s = final_placements s es) \<and>
        rm_calls s = (if rm_callback s then [(rm_placements s, status_of (rm_placements s))] else [])
      else set (rm_placements s) = dyn_taken (rm_tree s) \<and> rm_calls s = [])"

definition match_inv :: "rmatch \<Rightarrow> bool" where
  "match_inv s \<longleftrightarrow> match_core s \<and>
     (rm_wired s \<and> \<not> rm_done s \<longrightarrow> rm_timer s = Some (if 101 < rm_counter s then 0 else 200))"

definition same_match :: "rmatch \<Rightarrow> rmatch \<Rightarrow> bool" where
  "same_match s s' \<longleftrightarrow> rm_env s' = rm_env s \<and> rm_replace s' = rm_replace s \<and> rm_callback s' = rm_callback s \<and>
     rm_lookups s' = rm_lookups s \<and> (dyn_definite (rm_tree s) \<longrightarrow> dyn_definite (rm_tree s'))"

lemma same_match_refl [simp]: "same_match s s"
  by (simp add: same_match_def)

lemma same_match_trans: "same_match s t \<Longrightarrow> same_match t u \<Longrightarrow> same_match s u"
  by (simp add: same_match_def)

lemma final_placements_same [simp]:
  "final_placements (s\<lparr>rm_timer := t\<rparr>) es = final_placements s es"
  "final_placements (s\<lparr>rm_wired := w\<rparr>) es = final_placements s es"
  "final_placements (s\<lparr>rm_tree := v\<rparr>) es = final_placements s es"
  by (simp_all add: final_placements_def)

lemma match_core_same [simp]:
  "match_core (s\<lparr>rm_timer := t\<rparr>) = match_core s" "match_core (s\<lparr>rm_wired := w\<rparr>) = match_core s"
  by (simp_all add: match_core_def)

lemma collect_good:
  assumes "match_core s"
  shows "\<exists>s'. collect_placements pick s = Some s' \<and> match_inv s' \<and> dyn_shape (rm_tree s') = dyn_shape (rm_tree s) \<and>
    same_match s s' \<and> rm_wired s' = rm_wired s \<and> (rm_done s \<or> dyn_ended (rm_tree s) \<longrightarrow> rm_done s')"
proof (cases "rm_done s")
  case True
  then show ?thesis using assms
    by (auto simp: collect_placements_def match_inv_def match_core_def final_placements_def same_match_def Let_def)
next
  case False
  then have t: "dyn_ok (rm_tree s)" "set (rm_placements s) = dyn_taken (rm_tree s)" "rm_calls s = []"
    "rm_last_value s = 0"
    using assms by (auto simp: match_core_def)
  obtain out es v where o: "take_nodes (dyn_next pick) (rm_placements s) (rm_tree s) = Some (out, es, v)"
    and v: "dyn_ok v" "dyn_den v = dyn_den (rm_tree s)" "dyn_shape v = dyn_shape (rm_tree s)" "set es = dyn_taken v"
      "dyn_definite (rm_tree s) \<longrightarrow> dyn_definite v"
    and e: "out = Paused \<and> \<not> dyn_ended (rm_tree s) \<or> out = Stopped \<and> dyn_ended v \<and> cover (dyn_taken v) = dyn_den v"
    using dyn.take_nodes_good[OF t(1,2), of pick] by blast
  from e show ?thesis
  proof
    assume "out = Paused \<and> \<not> dyn_ended (rm_tree s)"
    with False o v t show ?thesis
      by (auto simp: collect_placements_def match_inv_def match_core_def same_match_def retry_delay_def Let_def)
  next
    assume "out = Stopped \<and> dyn_ended v \<and> cover (dyn_taken v) = dyn_den v"
    with False o v t show ?thesis
      by (auto simp: collect_placements_def match_inv_def match_core_def same_match_def status_of_def final_placements_def Let_def)
  qed
qed

lemma change_list_good:
  assumes "match_inv s" "list_grows f"
  shows "\<exists>s'. change_list pick r f s = Some s' \<and> match_inv s' \<and> same_match s s' \<and> rm_wired s' = rm_wired s \<and>
    dyn_shape (rm_tree s') = (if skel_open r (dyn_shape (rm_tree s)) then dyn_shape (dyn_update r f (rm_tree s)) else dyn_shape (rm_tree s))"
proof (cases "skel_open r (dyn_shape (rm_tree s))")
  case True
  let ?s = "s\<lparr>rm_tree := dyn_update r f (rm_tree s)\<rparr>"
  have g: "grown (rm_tree s) (dyn_update r f (rm_tree s))"
    using dyn_update_grown[OF assms(2)] assms(1) by (simp add: match_inv_def match_core_def)
  then have c: "match_core ?s" using assms(1)
    by (auto simp: match_inv_def match_core_def grown_def split: if_splits)
  have sm: "same_match s ?s" using g by (simp add: same_match_def grown_def)
  show ?thesis
  proof (cases "rm_wired s")
    case w: True
    obtain s' where s': "collect_placements pick ?s = Some s'" "match_inv s'" "dyn_shape (rm_tree s') = dyn_shape (rm_tree ?s)"
      "same_match ?s s'" "rm_wired s' = rm_wired ?s"
      using collect_good[OF c, of pick] by blast
    then show ?thesis using True w same_match_trans[OF sm s'(4)] by (simp add: change_list_def)
  next
    case False
    then show ?thesis using True c sm by (simp add: change_list_def match_inv_def)
  qed
qed (use assms in \<open>simp add: change_list_def\<close>)

text \<open>An answer as a set.\<close>

definition answer_set :: "string list option \<Rightarrow> string set" where
  "answer_set v = (case v of None \<Rightarrow> {} | Some vs \<Rightarrow> set vs)"

lemma answer_list_good:
  assumes "match_inv s" "skel_tracks A val (dyn_shape (rm_tree s))" "answer_set v = val r"
  shows "\<exists>s'. answer_list pick r v s = Some s' \<and> match_inv s' \<and> same_match s s' \<and> rm_wired s' = rm_wired s \<and>
    skel_tracks (insert r A) val (dyn_shape (rm_tree s')) \<and> same_skel (dyn_shape (rm_tree s)) (dyn_shape (rm_tree s'))"
proof -
  have fin: "\<exists>s'. change_list pick r (\<lambda>l. snd (list_final l)) s1 = Some s' \<and> match_inv s' \<and> same_match s1 s' \<and> rm_wired s' = rm_wired s1 \<and>
    dyn_shape (rm_tree s') = skel_final r (dyn_shape (rm_tree s1))"
    if "match_inv s1" "skel_plain (dyn_shape (rm_tree s1))" for s1
    using change_list_good[OF that(1) list_grows_final, of pick r] shape_final[OF that(2), of r] closed_same(2)[of r "dyn_shape (rm_tree s1)"]
    by auto
  have plain: "skel_plain (dyn_shape (rm_tree s))" using tracks_plain[OF assms(2)] .
  show ?thesis
  proof (cases v)
    case None
    then show ?thesis using fin[OF assms(1) plain] assms(3) tracks_final[OF assms(2), of r]
      by (auto simp: answer_list_def answer_set_def)
  next
    case (Some vs)
    have "Infinity \<notin> set (map Elem vs)" by auto
    from change_list_good[OF assms(1) list_grows_extend[OF this], of pick r] shape_extend[OF plain, of r "map Elem vs"]
      closed_same(1)[of r "dyn_shape (rm_tree s)" "map Elem vs"]
    obtain s1 where s1: "change_list pick r (\<lambda>l. snd (list_extend (map Elem vs) l)) s = Some s1" "match_inv s1" "same_match s s1"
      "rm_wired s1 = rm_wired s" "dyn_shape (rm_tree s1) = skel_extend r (map Elem vs) (dyn_shape (rm_tree s))"
      by auto
    have "skel_plain (dyn_shape (rm_tree s1))" using plain s1(5) by simp
    from fin[OF s1(2) this] obtain s' where s': "change_list pick r (\<lambda>l. snd (list_final l)) s1 = Some s'" "match_inv s'" "same_match s1 s'"
      "rm_wired s' = rm_wired s1" "dyn_shape (rm_tree s') = skel_final r (dyn_shape (rm_tree s1))" by blast
    have "cover (set (map Elem vs)) = val r" using assms(3) Some by (auto simp: cover_def answer_set_def)
    with tracks_answer[OF assms(2) this] s1 s' Some same_match_trans[OF s1(3) s'(3)] show ?thesis
      by (simp add: answer_list_def)
  qed
qed

lemma match_step_good:
  assumes "match_inv s" "skel_tracks A val (dyn_shape (rm_tree s))" "\<forall>r v. ev = Answered r v \<longrightarrow> answer_set v = val r"
  shows "\<exists>s'. match_step pick ev s = Some s' \<and> match_inv s' \<and> same_match s s' \<and>
    rm_wired s' = (rm_wired s \<or> ev = Started) \<and>
    skel_tracks (A \<union> {r. \<exists>v. ev = Answered r v}) val (dyn_shape (rm_tree s')) \<and>
    same_skel (dyn_shape (rm_tree s)) (dyn_shape (rm_tree s')) \<and>
    (ev = TimerFired \<and> rm_wired s \<and> dyn_ended (rm_tree s) \<longrightarrow> rm_done s')"
proof (cases ev)
  case Started
  have "match_core (s\<lparr>rm_wired := True\<rparr>)" using assms(1) by (simp add: match_inv_def)
  then obtain s' where s': "collect_placements pick (s\<lparr>rm_wired := True\<rparr>) = Some s'" "match_inv s'"
      "dyn_shape (rm_tree s') = dyn_shape (rm_tree s)" "same_match (s\<lparr>rm_wired := True\<rparr>) s'" "rm_wired s'"
    using collect_good[of "s\<lparr>rm_wired := True\<rparr>" pick] by auto
  then show ?thesis using assms Started
    by (cases "rm_wired s") (simp_all add: same_match_def)
next
  case (Answered r v)
  have "A \<union> {q. \<exists>w. Answered r v = Answered q w} = insert r A" by auto
  with Answered show ?thesis using answer_list_good[OF assms(1,2), of v r pick] assms(3) by simp
next
  case TimerFired
  have c: "match_core (s\<lparr>rm_timer := None\<rparr>)" using assms(1) by (simp add: match_inv_def)
  show ?thesis
  proof (cases "rm_timer s")
    case None
    then have "rm_wired s \<longrightarrow> rm_done s" using assms(1) by (simp add: match_inv_def)
    with None assms TimerFired show ?thesis by simp
  next
    case (Some d)
    obtain s' where "collect_placements pick (s\<lparr>rm_timer := None\<rparr>) = Some s'" "match_inv s'"
      "dyn_shape (rm_tree s') = dyn_shape (rm_tree s)" "same_match (s\<lparr>rm_timer := None\<rparr>) s'" "rm_wired s' = rm_wired s"
      "rm_done s \<or> dyn_ended (rm_tree s) \<longrightarrow> rm_done s'"
      using collect_good[OF c, of pick] by auto
    with Some assms TimerFired show ?thesis by (simp add: same_match_def)
  qed
qed

lemma match_run_good:
  assumes "match_inv s" "skel_tracks A val (dyn_shape (rm_tree s))" "\<forall>r v. Answered r v \<in> set evs \<longrightarrow> answer_set v = val r"
  shows "\<exists>s'. match_run pick evs s = Some s' \<and> match_inv s' \<and> same_match s s' \<and>
    rm_wired s' = (rm_wired s \<or> Started \<in> set evs) \<and>
    skel_tracks (A \<union> {r. \<exists>v. Answered r v \<in> set evs}) val (dyn_shape (rm_tree s')) \<and>
    same_skel (dyn_shape (rm_tree s)) (dyn_shape (rm_tree s'))"
  using assms
proof (induction evs arbitrary: s A)
  case (Cons ev evs)
  obtain s1 where s1: "match_step pick ev s = Some s1" "match_inv s1" "same_match s s1" "rm_wired s1 = (rm_wired s \<or> ev = Started)"
    "skel_tracks (A \<union> {r. \<exists>v. ev = Answered r v}) val (dyn_shape (rm_tree s1))"
    "same_skel (dyn_shape (rm_tree s)) (dyn_shape (rm_tree s1))"
    using match_step_good[OF Cons.prems(1,2), of ev pick] Cons.prems(3) by auto
  obtain s2 where s2: "match_run pick evs s1 = Some s2" "match_inv s2" "same_match s1 s2" "rm_wired s2 = (rm_wired s1 \<or> Started \<in> set evs)"
    "skel_tracks (A \<union> {r. \<exists>v. ev = Answered r v} \<union> {r. \<exists>v. Answered r v \<in> set evs}) val (dyn_shape (rm_tree s2))"
    "same_skel (dyn_shape (rm_tree s1)) (dyn_shape (rm_tree s2))"
    using Cons.IH[OF s1(2,5)] Cons.prems(3) by auto
  have "A \<union> {r. \<exists>v. ev = Answered r v} \<union> {r. \<exists>v. Answered r v \<in> set evs} = A \<union> {r. \<exists>v. Answered r v \<in> set (ev # evs)}" by auto
  with s1 s2 same_match_trans[OF s1(3) s2(3)] show ?case by (intro exI[of _ s2]) (auto intro: same_skel_trans)
qed simp

lemma match_run_append: "match_run pick (evs @ fs) s = Option.bind (match_run pick evs s) (match_run pick fs)"
  by (induction evs arbitrary: s) (auto split: bind_splits)

text \<open>The match that has just been built.\<close>

lemma match_build_good:
  assumes "me_actor_id env = Some a" "list_all (req_ok env) reqs" "list_ex takes_away reqs \<Longrightarrow> list_ex bounds reqs"
    "match_build (Some reqs) (match_init env replace True) = (r, s)"
  shows "r = Inr True \<and> match_inv s \<and> \<not> rm_wired s \<and> rm_callback s \<and> rm_env s = env \<and> rm_replace s = replace
    \<and> builds (\<lambda>ans. req_mean env ans reqs) (list_ex bounds reqs) [] (rm_tree s) (rm_lookups s)"
proof -
  obtain r0 ls where b: "build_match env reqs [] = (r0, ls)" by (cases "build_match env reqs []")
  obtain t where t: "r0 = Inr t" "builds (\<lambda>ans. req_mean env ans reqs) (list_ex bounds reqs) [] t ls"
    using build_match_builds[OF assms(1-3) b] by blast
  have "r = Inr True" "s = (match_init env replace True)\<lparr>rm_lookups := ls, rm_tree := t\<rparr>"
    using assms(4) b t(1) by (auto simp: match_build_def match_init_def)
  then show ?thesis using t(2)
    by (auto simp: match_inv_def match_core_def match_init_def builds_def fresh_def)
qed

text \<open>What the callback has got from a match that is done.\<close>

lemma done_calls:
  assumes "match_inv s" "rm_done s" "rm_callback s" "dyn_definite (rm_tree s)"
  shows "\<exists>P st. rm_calls s = [(P, st)] \<and> set P = Elem ` dyn_den (rm_tree s) \<and> (answer_true st \<longleftrightarrow> dyn_den (rm_tree s) \<noteq> {})"
proof -
  obtain es where es: "set es = dyn_taken (rm_tree s)" "cover (set es) = dyn_den (rm_tree s)" "rm_placements s = final_placements s es"
    using assms(1,2) by (auto simp: match_inv_def match_core_def)
  have "dyn_ok (rm_tree s)" using assms(1) by (simp add: match_inv_def match_core_def)
  then have no: "Infinity \<notin> set es" using assms(4) es(1) dyn.definite_taken by blast
  have "e \<in> set es \<longleftrightarrow> e \<in> Elem ` dyn_den (rm_tree s)" for e
    unfolding es(2)[symmetric] using no by (cases e) (auto simp: cover_def)
  then have set: "set es = Elem ` dyn_den (rm_tree s)" by blast
  have "rm_placements s = es" using es(3) no by (simp add: final_placements_def)
  then have "rm_calls s = [(es, status_of es)]" using assms(1-3) by (simp add: match_inv_def match_core_def)
  with set show ?thesis by (auto simp: status_of_def)
qed

text \<open>The steps of a match with any answers.\<close>

lemma match_step_total:
  assumes "match_inv s"
  shows "\<exists>s'. match_step pick ev s = Some s' \<and> match_inv s' \<and> same_match s s' \<and> rm_wired s' = (rm_wired s \<or> ev = Started)"
proof (cases ev)
  case Started
  then show ?thesis using assms collect_good[of "s\<lparr>rm_wired := True\<rparr>" pick]
    by (cases "rm_wired s") (auto simp: match_inv_def same_match_def)
next
  case (Answered r v)
  have ext: "\<exists>s'. (case v of None \<Rightarrow> Some s | Some vs \<Rightarrow> change_list pick r (\<lambda>l. snd (list_extend (map Elem vs) l)) s) = Some s'
      \<and> match_inv s' \<and> same_match s s' \<and> rm_wired s' = rm_wired s"
  proof (cases v)
    case (Some vs)
    have "list_grows (\<lambda>l. snd (list_extend (map Elem vs) l))" by (rule list_grows_extend) auto
    from change_list_good[OF assms this, of pick r] Some show ?thesis by auto
  qed (use assms in simp)
  then obtain s1 where s1: "(case v of None \<Rightarrow> Some s | Some vs \<Rightarrow> change_list pick r (\<lambda>l. snd (list_extend (map Elem vs) l)) s) = Some s1"
    "match_inv s1" "same_match s s1" "rm_wired s1 = rm_wired s" by blast
  from change_list_good[OF s1(2) list_grows_final, of pick r] obtain s2 where
    "change_list pick r (\<lambda>l. snd (list_final l)) s1 = Some s2" "match_inv s2" "same_match s1 s2" "rm_wired s2 = rm_wired s1" by blast
  then show ?thesis using s1 Answered by (auto simp: answer_list_def intro: same_match_trans)
next
  case TimerFired
  then show ?thesis using assms collect_good[of "s\<lparr>rm_timer := None\<rparr>" pick]
    by (cases "rm_timer s") (auto simp: match_inv_def same_match_def)
qed

lemma match_run_total:
  "match_inv s \<Longrightarrow> \<exists>s'. match_run pick evs s = Some s' \<and> match_inv s' \<and> same_match s s' \<and> rm_wired s' = (rm_wired s \<or> Started \<in> set evs)"
proof (induction evs arbitrary: s)
  case (Cons ev evs)
  obtain s1 where s1: "match_step pick ev s = Some s1" "match_inv s1" "same_match s s1" "rm_wired s1 = (rm_wired s \<or> ev = Started)"
    using match_step_total[OF Cons.prems, of pick ev] by blast
  from Cons.IH[OF s1(2)] s1 show ?case by (auto intro: same_match_trans)
qed simp

end
