(* ===== verification/Requirement_Properties.thy ===== *)
theory Requirement_Properties
  imports Requirement_Lemmas
begin

text \<open>
  What requirement matching promises: when all lookups have been answered the callback is called once, with the nodes that
  satisfy all requirements; matching returns at every event; and where the code falls short: requirements of type - only, and retries
  without delay.
\<close>

text \<open>
  C31: Asking a tree of dynamic iterables is safe, when no Difference in it takes from, or takes away, something that
  may be infinite (the constructor accepts such arguments; C38 shows what happens then).  A call of next on a tree of
  lists, plain iterators, infinite elements, unions, intersections and differences in that sense, fresh or in
  any state that calls of next and additions lead to, always returns, leaves a
  well-formed tree of this kind that stands for the same set, and lets no exception through; an element it gives belongs to
  the set the tree stands for with what has been filled in, or says that this set is everything; and it stops only when
  the elements given so far are all of that set.\<close>
theorem tree_next_sound:
  assumes "dyn_ok t"
  shows "\<exists>out t'. dyn_next pick t = Some (out, t') \<and> dyn_ok t' \<and> dyn_den t' = dyn_den t
    \<and> (\<forall>e. out \<noteq> Raised e) \<and> (\<forall>a. out = Next (Elem a) \<longrightarrow> a \<in> dyn_den t) \<and> (out = Next Infinity \<longrightarrow> dyn_den t = UNIV)
    \<and> (out = Stopped \<longrightarrow> cover (dyn_taken t) = dyn_den t)"
  using assms
proof (cases rule: dyn.next_cases[where pick = pick])
  case (Next e t')
  then show ?thesis using dyn.taken_den[of t'] dyn.taken_infinity[of t'] by (intro exI[of _ "Next e"] exI[of _ t']) simp
qed auto

text \<open>
  C20: An actor is placed where all its requirements hold.  If the requirements can be evaluated and one of
  them bounds the placements, then whatever the order in which the storage answers the lookups, before or after the matching starts and
  mixed with retries, the callback is called exactly once, at the latest when the timer fires after the last answer: with
  the nodes that satisfy every requirement of type + and every group, and none of type -, for the sets the lookups were
  answered with, and with a good status exactly if there are such nodes.\<close>
theorem placement_right:
  assumes "me_actor_id env = Some a" "list_all (req_ok env) reqs" "list_ex bounds reqs"
    and "match_build (Some reqs) (match_init env replace True) = (Inr True, s0)"
    and "Started \<in> set evs" "\<forall>r v. Answered r v \<in> set evs \<longrightarrow> answer_set v = ans (rm_lookups s0 ! r)"
    and "\<forall>r<length (rm_lookups s0). \<exists>v. Answered r v \<in> set evs"
  shows "\<exists>s P st. match_run pick (evs @ [TimerFired]) s0 = Some s \<and> rm_calls s = [(P, st)]
    \<and> set P = Elem ` req_mean env ans reqs \<and> (answer_true st \<longleftrightarrow> req_mean env ans reqs \<noteq> {})"
proof -
  have "list_ex takes_away reqs \<Longrightarrow> list_ex bounds reqs" using assms(3) .
  note b = match_build_good[OF assms(1,2) this assms(4)]
  let ?val = "\<lambda>r. ans (rm_lookups s0 ! r)" and ?A = "{r. \<exists>v. Answered r v \<in> set evs}"
  have b0: "match_inv s0" "builds (\<lambda>ans. req_mean env ans reqs) True [] (rm_tree s0) (rm_lookups s0)"
    using b assms(3) by simp_all
  then have tr: "skel_tracks {} ?val (dyn_shape (rm_tree s0))" and lab: "skel_labels (dyn_shape (rm_tree s0)) \<subseteq> {..<length (rm_lookups s0)}"
    and mean: "dyn_mean ?val (rm_tree s0) = req_mean env ans reqs" and def: "dyn_definite (rm_tree s0)"
    by (auto simp: builds_def)
  obtain s1 where s1: "match_run pick evs s0 = Some s1" "match_inv s1" "same_match s0 s1" "rm_wired s1"
    "skel_tracks ?A ?val (dyn_shape (rm_tree s1))" "same_skel (dyn_shape (rm_tree s0)) (dyn_shape (rm_tree s1))"
    using match_run_good[OF b0(1) tr assms(6), of pick] assms(5) by auto
  have "skel_labels (dyn_shape (rm_tree s1)) \<subseteq> ?A"
    using lab s1(6) assms(7) by (auto simp: same_skel_def)
  then have "skel_answered ?val (dyn_shape (rm_tree s1))" using tracks_answered[OF s1(5)] by blast
  then have ended: "dyn_ended (rm_tree s1)" by (rule answered_ended)
  obtain s2 where s2: "match_step pick TimerFired s1 = Some s2" "match_inv s2" "same_match s1 s2"
    "same_skel (dyn_shape (rm_tree s1)) (dyn_shape (rm_tree s2))" "skel_tracks ?A ?val (dyn_shape (rm_tree s2))" "rm_done s2"
    using match_step_good[OF s1(2,5), of TimerFired pick] s1(4) ended by auto
  have "skel_answered ?val (dyn_shape (rm_tree s2))"
    using tracks_answered[OF s2(5)] s2(4) \<open>skel_labels (dyn_shape (rm_tree s1)) \<subseteq> ?A\<close> by (simp add: same_skel_def)
  then have "dyn_den (rm_tree s2) = dyn_mean ?val (rm_tree s2)" by (rule answered_den)
  then have den2: "dyn_den (rm_tree s2) = req_mean env ans reqs"
    using mean s1(6) s2(4) by (simp add: same_skel_def)
  have "rm_callback s2" "dyn_definite (rm_tree s2)" using b s1(3) s2(3) def by (auto simp: same_match_def)
  from done_calls[OF s2(2,6) this] den2 show ?thesis using match_run_append s1(1) s2(1) by simp
qed

text \<open>
  C21: Matching never stalls and never reports twice.  For requirements as above, whatever answers come for whatever
  requests and in whatever order, every event returns; the callback has been called at most once, exactly when the match is done; a match
  that has been started and is not done has a timer that will try again.\<close>
theorem matching_never_stalls:
  assumes "me_actor_id env = Some a" "list_all (req_ok env) reqs" "list_ex takes_away reqs \<longrightarrow> list_ex bounds reqs"
    and "match_build (Some reqs) (match_init env replace True) = (Inr True, s0)"
  shows "\<exists>s. match_run pick evs s0 = Some s \<and> length (rm_calls s) = (if rm_done s then 1 else 0)
    \<and> (Started \<in> set evs \<and> \<not> rm_done s \<longrightarrow> rm_timer s \<noteq> None)"
proof -
  have b: "match_inv s0" "rm_callback s0"
    using match_build_good[OF assms(1,2) _ assms(4)] assms(3) by auto
  obtain s where s: "match_run pick evs s0 = Some s" "match_inv s" "same_match s0 s" "rm_wired s = (rm_wired s0 \<or> Started \<in> set evs)"
    using match_run_total[OF b(1)] by blast
  then show ?thesis using b(2) by (auto simp: match_inv_def match_core_def same_match_def)
qed

text \<open>Runs of the loops on one element.\<close>

lemma take_once:
  "nxt v = Some (Next e, v1) \<Longrightarrow> nxt v1 = Some (Stopped, v2) \<Longrightarrow> take_nodes nxt es v = Some (Stopped, List.insert e es, v2)"
  by (subst take_nodes.simps, simp, subst take_nodes.simps, simp)

lemma diff_draw_one:
  "nxt v = Some (Next e, v1) \<Longrightarrow> nxt v1 = Some (Stopped, v2) \<Longrightarrow> diff_draw nxt es v = Some (Stopped, List.insert e es, v2)"
  by (subst diff_draw.simps, simp, subst diff_draw.simps, simp)

lemma inter_none: "inter_next nxt pick (Inter (DynOps False False) [] [] [] False) = Some (Next Infinity, Inter (DynOps True True) [] [] [] False)"
  "inter_next nxt pick (Inter (DynOps True True) [] [] [] False) = Some (Stopped, Inter (DynOps True True) [] [] [] False)"
  by (simp add: inter_next_def dynops_next_def inter_op_def inter_loop.simps, simp add: inter_next_def dynops_next_def)

text \<open>
  C38: Requirements that only take nodes away take none away.  An actor that must only not be
  on the current node may be placed on every node, the current one included: the intersection of no iterables gives an infinite element,
  which a difference passes on, and which is replaced by all known nodes and the current one.\<close>
theorem only_minus_ignored:
  assumes "me_actor_id env = Some a"
  shows "\<exists>s0 s. match_build (Some [Single CurrentNode Minus]) (match_init env True True) = (Inr True, s0)
    \<and> match_run pick [Started] s0 = Some s \<and> rm_calls s = [(known_nodes env, response_ok)]
    \<and> Elem (me_node_id env) \<in> set (known_nodes env)"
proof -
  let ?l = "\<lambda>i. DynList None (DList [Elem (me_node_id env)] True i None)"
  let ?i = "\<lambda>b. DynInter (Inter (DynOps b b) [] [] [] False)"
  let ?d = "\<lambda>b i f es. DynDiff (Diff (DynOps False False) (?i b) [(?l i, f)] False es)"
  let ?es = "[Infinity, Elem (me_node_id env)]"
  have l: "dyn_step (Suc n) pick (?l 0) = Some (Next (Elem (me_node_id env)), ?l (Suc 0))"
      "dyn_step (Suc n) pick (?l (Suc 0)) = Some (Stopped, ?l (Suc 0))" for n
    by (simp_all add: list_op_def)
  have i: "dyn_step (Suc n) pick (?i False) = Some (Next Infinity, ?i True)" "dyn_step (Suc n) pick (?i True) = Some (Stopped, ?i True)" for n
    by (simp_all add: inter_none)
  have f: "diff_op (dyn_step (Suc n) pick) (Diff (DynOps False False) (?i False) [(?l (Suc 0), True)] False [Elem (me_node_id env)])
     = Some (Next Infinity, Diff (DynOps False False) (?i True) [(?l (Suc 0), True)] False ?es)"
    for n by (subst diff_op.simps, subst diff_filter.simps) (simp add: i seen_def del: dyn_step.simps)
  have d1: "diff_op (dyn_step (Suc n) pick) (Diff (DynOps False False) (?i False) [(?l 0, False)] False [])
     = Some (Next Infinity, Diff (DynOps False False) (?i True) [(?l (Suc 0), True)] False ?es)" for n
    by (subst diff_op.simps) (simp add: diff_draw_one[OF l] f del: dyn_step.simps)
  have d2: "diff_op (dyn_step (Suc n) pick) (Diff (DynOps False False) (?i True) [(?l (Suc 0), True)] False ?es)
     = Some (Stopped, Diff (DynOps False False) (?i True) [(?l (Suc 0), True)] False ?es)" for n
    by (subst diff_op.simps, subst diff_filter.simps) (simp add: i del: dyn_step.simps)
  have n1: "dyn_next pick (?d False 0 False []) = Some (Next Infinity, ?d True (Suc 0) True ?es)"
    and n2: "dyn_next pick (?d True (Suc 0) True ?es) = Some (Stopped, ?d True (Suc 0) True ?es)"
    using d1 d2 by (simp_all add: dyn_next_def diff_next_def dynops_next_def)
  have b: "match_build (Some [Single CurrentNode Minus]) (match_init env True True)
     = (Inr True, (match_init env True True)\<lparr>rm_tree := ?d False 0 False []\<rparr>)"
    using assms
    by (simp add: match_build_def match_init_def build_match_def named_op_def current_node_def dyn_diff_def difference_init_def
        dyn_inter_def inter_init_def dynops_init_def is_infinite_def opt_default_def list_final_def list_init_def)
  show ?thesis
    by (intro exI conjI, rule b)
       (auto simp: match_init_def collect_placements_def take_once[OF n1 n2] final_placements_def known_nodes_def Let_def)
qed

text \<open>
  C39: Retries become a busy loop.  As long as a started match is not done, its timer fires after 200
  milliseconds while it has collected at most 101 times, and without any delay from then on.\<close>
theorem retries_become_busy:
  assumes "me_actor_id env = Some a" "list_all (req_ok env) reqs" "list_ex takes_away reqs \<longrightarrow> list_ex bounds reqs"
    and "match_build (Some reqs) (match_init env replace True) = (Inr True, s0)"
    and "match_run pick evs s0 = Some s" "Started \<in> set evs" "\<not> rm_done s"
  shows "rm_timer s = Some (if 101 < rm_counter s then 0 else 200)"
proof -
  have b: "match_inv s0" using match_build_good[OF assms(1,2) _ assms(4)] assms(3) by auto
  then show ?thesis using match_run_total[OF b, of pick evs] assms(5-7) by (auto simp: match_inv_def)
qed

section \<open>Examples\<close>

text \<open>An actor on node \<open>n1\<close> needs two capabilities and a node other than its own.\<close>

definition sample_env :: match_env where
  "sample_env = \<lparr>me_str_of = (\<lambda>_. []), me_node_id = ''n1'', me_links = Some [''n2''], me_actor_id = Some ''a''\<rparr>"

definition sample_reqs :: "requirement list" where
  "sample_reqs = [Single (ActorReqsMatch [''io'', ''gpio'']) Plus, Single CurrentNode Minus]"

definition sample_match :: rmatch where
  "sample_match = snd (match_build (Some sample_reqs) (match_init sample_env False True))"

definition sample_events :: "match_event list" where
  "sample_events = [Answered 1 (Some [''n1'', ''n2'']), Started, TimerFired, Answered 0 (Some [''n3'', ''n2'', ''n1''])]"

definition sample_answer :: "lookup \<Rightarrow> string set" where
  "sample_answer l = (if l = LookIndex [''node/capabilities/io''] then {''n3'', ''n2'', ''n1''} else {''n1'', ''n2''})"

lemma sample_build:
  "match_build (Some sample_reqs) (match_init sample_env False True) = (Inr True, sample_match)"
  "rm_lookups sample_match = [LookIndex [''node/capabilities/io''], LookIndex [''node/capabilities/gpio'']]"
proof -
  have "fst (match_build (Some sample_reqs) (match_init sample_env False True)) = Inr True" by code_simp
  then show "match_build (Some sample_reqs) (match_init sample_env False True) = (Inr True, sample_match)"
    unfolding sample_match_def by (metis prod.collapse)
  show "rm_lookups sample_match = [LookIndex [''node/capabilities/io''], LookIndex [''node/capabilities/gpio'']]" by code_simp
qed

lemma sample_facts:
  "me_actor_id sample_env = Some ''a''" "list_all (req_ok sample_env) sample_reqs" "list_ex bounds sample_reqs"
  "Started \<in> set sample_events"
  by (simp_all add: sample_env_def sample_reqs_def sample_events_def)

lemma sample_answers:
  "\<forall>r v. Answered r v \<in> set sample_events \<longrightarrow> answer_set v = sample_answer (rm_lookups sample_match ! r)"
  "\<forall>r<length (rm_lookups sample_match). \<exists>v. Answered r v \<in> set sample_events"
  unfolding sample_build(2) by (auto simp: sample_events_def answer_set_def sample_answer_def less_Suc_eq)

lemma placement_right_witness:
  "\<exists>s P st. match_run (\<lambda>_. 0) (sample_events @ [TimerFired]) sample_match = Some s \<and> rm_calls s = [(P, st)]
    \<and> set P = Elem ` {''n2''} \<and> answer_true st"
proof -
  have "req_mean sample_env sample_answer sample_reqs = {''n2''}"
    by (auto simp: req_mean_def sample_reqs_def sample_answer_def sample_env_def iter_levels_def index_strings_def required_capability_def
        root_levels_def numeral_2_eq_2)
  with placement_right[OF sample_facts(1-3) sample_build(1) sample_facts(4) sample_answers, of "\<lambda>_. 0"] show ?thesis by simp
qed

lemma matching_never_stalls_witness:
  "\<exists>s. match_run (\<lambda>_. 0) [Started, TimerFired] sample_match = Some s \<and> length (rm_calls s) = 0 \<and> rm_timer s \<noteq> None"
proof -
  have "map_option rm_done (match_run (\<lambda>_. 0) [Started, TimerFired] sample_match) = Some False" by code_simp
  with matching_never_stalls[OF sample_facts(1,2) _ sample_build(1), of "\<lambda>_. 0" "[Started, TimerFired]"] sample_facts(3)
  show ?thesis by auto
qed

lemma only_minus_ignored_witness:
  "\<exists>s0 s. match_build (Some [Single CurrentNode Minus]) (match_init sample_env True True) = (Inr True, s0)
    \<and> match_run (\<lambda>_. 0) [Started] s0 = Some s \<and> rm_calls s = [([Elem ''n2'', Elem ''n1''], response_ok)]"
  using only_minus_ignored[of sample_env "''a''" "\<lambda>_. 0"] by (simp add: sample_env_def known_nodes_def)

lemma retries_become_busy_witness:
  "\<exists>s. match_run (\<lambda>_. 0) (Started # replicate 101 TimerFired) sample_match = Some s \<and> rm_timer s = Some 0"
proof -
  let ?evs = "Started # replicate 101 TimerFired"
  have "map_option (\<lambda>s. (rm_done s, rm_counter s)) (match_run (\<lambda>_. 0) ?evs sample_match) = Some (False, 102)" by code_simp
  then obtain s where s: "match_run (\<lambda>_. 0) ?evs sample_match = Some s" "\<not> rm_done s" "rm_counter s = 102" by auto
  have "Started \<in> set ?evs" by simp
  from retries_become_busy[OF sample_facts(1,2) _ sample_build(1) s(1) this s(2)] sample_facts(3) s(1,3) show ?thesis by simp
qed

lemma tree_next_sound_witness:
  "\<exists>out t'. dyn_next (\<lambda>_. 0) (dyn_inter [dyn_list [Elem (1::nat), Elem 2], dyn_list [Elem 2]]) = Some (out, t') \<and> dyn_ok t'"
proof -
  have "fresh (dyn_inter [dyn_list [Elem (1::nat), Elem 2], dyn_list [Elem 2]])"
    by (rule fresh_inter) (simp add: dyn_list_def fresh_list)
  then have "dyn_ok (dyn_inter [dyn_list [Elem (1::nat), Elem 2], dyn_list [Elem 2]])" by (simp add: fresh_def)
  from tree_next_sound[OF this, of "\<lambda>_. 0"] show ?thesis by blast
qed

end
