(* ===== verification/Codegen_Tree.thy ===== *)
theory Codegen_Tree
  imports Calvin_Token
begin

text \<open>
  The syntax tree of CalvinScript (csparser/astnode.py) as the code generator (csparser/codegen.py) works on it.
  A node is a value with its children inside, except for what the passes share and change in place: a
  \<open>Value\<close> node, which several arguments may refer to after constants have been replaced, and the list of children of
  a port, which a port and its shallow clones have in common.  Both live in a heap under an address.  A link names its ports in the order outport,
  inport.  Positions in the source text, tags of ports, doc strings and the statements of deployment rules are left out.
\<close>

section \<open>Nodes\<close>

text \<open>An argument is a \<open>Value\<close> node or an \<open>Id\<close> node; a \<open>NamedArg\<close> is a name with an argument.\<close>

datatype arg = Val nat | Ident string

type_synonym named_arg = "string \<times> arg"

datatype port_property =
  PortProperty (pp_actor: "string option") (pp_port: string) (pp_direction: "string option") (pp_args: "named_arg list")

text \<open>The number of a port is the address of its list of children; the ports that are leaves have none.\<close>

datatype cs_port =
    InPort string string nat
  | OutPort string string nat
  | InternalInPort string nat
  | InternalOutPort string nat
  | Void
  | ImplicitPort arg "string option"
  | TransformedPort cs_port arg "string option"
  | PortList "cs_port list"

text \<open>
  Metadata of an actor or component type.  The definition of a component is the block of the component of that name in
  the same tree; the actor store, which reads its files, holds actors only.
\<close>

datatype actor_kind =
    ActorType (input_properties: "(string \<times> (string \<times> pyval) list) list") (output_properties: "(string \<times> (string \<times> pyval) list) list")
  | ComponentType

record metadata =
  md_ns :: string
  md_name :: string
  md_kind :: actor_kind
  md_inputs :: "string list"
  md_outputs :: "string list"
  md_mandatory :: "string list"
  md_optional :: "string list"

text \<open>\<open>None\<close> as the metadata of an assignment: none yet; \<open>Some None\<close>: the type is not known.\<close>

datatype node =
    Assignment (as_ident: string) (as_type: string) (as_args: "named_arg list") (as_metadata: "metadata option option")
  | Link cs_port cs_port
  | Property port_property
  | Constant string arg
  | Block string "(string \<times> arg) list" "node list"
  | Component string "string list" "string list" "string list" "node list"

text \<open>The root is a node that is nothing but its children.\<close>

type_synonym tree = "node list"

fun is_block :: "node \<Rightarrow> bool" where
  "is_block (Block ns args body) \<longleftrightarrow> True"
| "is_block _ \<longleftrightarrow> False"

fun is_component :: "node \<Rightarrow> bool" where
  "is_component (Component n as is os body) \<longleftrightarrow> True"
| "is_component _ \<longleftrightarrow> False"

fun is_assignment :: "node \<Rightarrow> bool" where
  "is_assignment (Assignment i t as m) \<longleftrightarrow> True"
| "is_assignment _ \<longleftrightarrow> False"

section \<open>Heap\<close>

record heap =
  hp_next :: nat
  hp_vals :: "nat \<Rightarrow> pyval"
  hp_kids :: "nat \<Rightarrow> port_property list"

definition new_value :: "pyval \<Rightarrow> heap \<Rightarrow> arg \<times> heap" where
  "new_value v h = (Val (hp_next h), h\<lparr>hp_next := Suc (hp_next h), hp_vals := (hp_vals h)(hp_next h := v)\<rparr>)"

definition new_kids :: "heap \<Rightarrow> nat \<times> heap" where
  "new_kids h = (hp_next h, h\<lparr>hp_next := Suc (hp_next h), hp_kids := (hp_kids h)(hp_next h := [])\<rparr>)"

definition add_kids :: "nat \<Rightarrow> port_property list \<Rightarrow> heap \<Rightarrow> heap" where
  "add_kids k ps h = h\<lparr>hp_kids := (hp_kids h)(k := hp_kids h k @ ps)\<rparr>"

definition clear_kids :: "nat \<Rightarrow> heap \<Rightarrow> heap" where
  "clear_kids k h = h\<lparr>hp_kids := (hp_kids h)(k := [])\<rparr>"

definition set_value :: "nat \<Rightarrow> pyval \<Rightarrow> heap \<Rightarrow> heap" where
  "set_value a v h = h\<lparr>hp_vals := (hp_vals h)(a := v)\<rparr>"

section \<open>Ports\<close>

text \<open>
  The attributes \<open>actor\<close> and \<open>port\<close>, as far as they are used: an internal port has the empty string as its actor, nodes
  that are no ports have none.
\<close>

fun port_actor :: "cs_port \<Rightarrow> string" where
  "port_actor (InPort a p k) = a"
| "port_actor (OutPort a p k) = a"
| "port_actor _ = []"

fun port_name :: "cs_port \<Rightarrow> string" where
  "port_name (InPort a p k) = p"
| "port_name (OutPort a p k) = p"
| "port_name (InternalInPort p k) = p"
| "port_name (InternalOutPort p k) = p"
| "port_name _ = []"

text \<open>The ports that a query finds in the links of a block, by kind, actor and name; internal ports by their name.\<close>

fun match_in :: "string \<Rightarrow> string \<Rightarrow> cs_port \<Rightarrow> bool" where
  "match_in a p (InPort a' p' k) \<longleftrightarrow> a' = a \<and> p' = p"
| "match_in a p _ \<longleftrightarrow> False"

fun match_out :: "string \<Rightarrow> string \<Rightarrow> cs_port \<Rightarrow> bool" where
  "match_out a p (OutPort a' p' k) \<longleftrightarrow> a' = a \<and> p' = p"
| "match_out a p _ \<longleftrightarrow> False"

fun match_internal_in :: "string \<Rightarrow> cs_port \<Rightarrow> bool" where
  "match_internal_in p (InternalInPort p' k) \<longleftrightarrow> p' = p"
| "match_internal_in p _ \<longleftrightarrow> False"

fun match_internal_out :: "string \<Rightarrow> cs_port \<Rightarrow> bool" where
  "match_internal_out p (InternalOutPort p' k) \<longleftrightarrow> p' = p"
| "match_internal_out p _ \<longleftrightarrow> False"

text \<open>The ports of the links of a block, in the order a query visits them.\<close>

fun link_ports :: "node list \<Rightarrow> cs_port list" where
  "link_ports [] = []"
| "link_ports (Link src dst # ns) = src # dst # link_ports ns"
| "link_ports (_ # ns) = link_ports ns"

fun port_kids :: "cs_port \<Rightarrow> nat" where
  "port_kids (InPort a p k) = k"
| "port_kids (OutPort a p k) = k"
| "port_kids (InternalInPort p k) = k"
| "port_kids (InternalOutPort p k) = k"
| "port_kids _ = 0"

section \<open>Issues\<close>

datatype issue = Error string | Warning string

definition error_count :: "issue list \<Rightarrow> nat" where
  "error_count is = length (filter (\<lambda>i. case i of Error r \<Rightarrow> True | Warning r \<Rightarrow> False) is)"

lemma error_count_simps [simp]:
  "error_count [] = 0" "error_count (Error r # is) = Suc (error_count is)" "error_count (Warning r # is) = error_count is"
  "error_count (is @ js) = error_count is + error_count js"
  by (simp_all add: error_count_def)

lemma error_count_zero: "error_count is = 0 \<longleftrightarrow> (\<forall>r. Error r \<notin> set is)"
  by (auto simp: error_count_def filter_empty_conv split: issue.splits)

text \<open>A name in quotes, as the texts of issues have it.\<close>

definition quoted :: "string \<Rightarrow> string" where
  "quoted s = CHR 0x27 # s @ [CHR 0x27]"

text \<open>Decimal numbers, for the names that are made unique with a counter.\<close>

fun decimal :: "nat \<Rightarrow> string" where
  "decimal n = (if n < 10 then [char_of (48 + n)] else decimal (n div 10) @ [char_of (48 + n mod 10)])"

declare decimal.simps [simp del]

definition make_unique :: "string \<Rightarrow> nat \<Rightarrow> string \<times> nat" where
  "make_unique name c = (''_'' @ name @ ''_'' @ decimal (Suc c), Suc c)"

end
