(* ===== verification/Codegen_Rewrite.thy ===== *)
theory Codegen_Rewrite
  imports Codegen_Tree
begin

text \<open>
  The passes of the code generator that rewrite single links: values used as outports, lists of inports, transformed inports
  and void ports become actors and plain links.  They share the traversal of the tree: a visitor replaces the link it visits or
  deletes it, and what it adds to the block comes after all children the block had, which are the only ones visited.
\<close>

section \<open>Traversal\<close>

type_synonym 's link_visitor = "cs_port \<Rightarrow> cs_port \<Rightarrow> 's \<Rightarrow> node list \<times> node list \<times> 's"

text \<open>The children as they are left in place, what is added, and the state of the visitor.\<close>

fun rewrite_links :: "'s link_visitor \<Rightarrow> node list \<Rightarrow> 's \<Rightarrow> node list \<times> node list \<times> 's" where
  "rewrite_links f [] s = ([], [], s)"
| "rewrite_links f (Link src dst # ns) s =
     (let (here, new, s1) = f src dst s; (ns', news, s2) = rewrite_links f ns s1 in (here @ ns', new @ news, s2))"
| "rewrite_links f (Block nsp args body # ns) s =
     (let (body', new, s1) = rewrite_links f body s; (ns', news, s2) = rewrite_links f ns s1
      in (Block nsp args (body' @ new) # ns', news, s2))"
| "rewrite_links f (Component n as is os body # ns) s =
     (let (body', new, s1) = rewrite_links f body s; (ns', news, s2) = rewrite_links f ns s1
      in (Component n as is os (body' @ new) # ns', news, s2))"
| "rewrite_links f (n # ns) s = (let (ns', news, s1) = rewrite_links f ns s in (n # ns', news, s1))"

definition rewrite_tree :: "'s link_visitor \<Rightarrow> tree \<Rightarrow> 's \<Rightarrow> tree \<times> 's" where
  "rewrite_tree f t s = (let (t', new, s1) = rewrite_links f t s in (t' @ new, s1))"

section \<open>Implicit outports\<close>

text \<open>A value or identifier as an outport becomes a constant actor, with the label as its name.\<close>

definition unique_or_label :: "string \<Rightarrow> string option \<Rightarrow> nat \<Rightarrow> string \<times> nat" where
  "unique_or_label name label c = (case label of Some l \<Rightarrow> (l, c) | None \<Rightarrow> make_unique name c)"

fun implicit_outport :: "(nat \<times> heap) link_visitor" where
  "implicit_outport (ImplicitPort a label) dst (c, h) =
     (let (name, c1) = unique_or_label ''literal_const'' label c; (k, h1) = new_kids h
      in ([Link (OutPort name ''token'' k) dst], [Assignment name ''std.Constant'' [(''data'', a)] None], (c1, h1)))"
| "implicit_outport src dst s = ([Link src dst], [], s)"

definition substitute_implicit_outports :: "tree \<Rightarrow> heap \<Rightarrow> tree \<times> heap" where
  "substitute_implicit_outports t h = (let (t', c, h') = rewrite_tree implicit_outport t (0, h) in (t', h'))"

section \<open>Port lists\<close>

text \<open>One link per inport; the clones of the outport share its list of children.\<close>

fun portlist_links :: "unit link_visitor" where
  "portlist_links src (PortList ps) s = ([], map (Link src) ps, s)"
| "portlist_links src dst s = ([Link src dst], [], s)"

definition expand_portlists :: "tree \<Rightarrow> tree" where
  "expand_portlists t = fst (rewrite_tree portlist_links t ())"

section \<open>Transformed inports\<close>

fun implicit_inport :: "(nat \<times> heap) link_visitor" where
  "implicit_inport src (TransformedPort p v label) (c, h) =
     (let (name, c1) = unique_or_label ''transform'' label c; (ko, h1) = new_kids h; (ki, h2) = new_kids h1
      in ([Link src (InPort name ''in'' ki)],
          [Assignment name ''std.Constantify'' [(''constant'', v)] None, Link (OutPort name ''out'' ko) p], (c1, h2)))"
| "implicit_inport src dst s = ([Link src dst], [], s)"

definition substitute_implicit_inports :: "tree \<Rightarrow> heap \<Rightarrow> tree \<times> heap" where
  "substitute_implicit_inports t h = (let (t', c, h') = rewrite_tree implicit_inport t (0, h) in (t', h'))"

section \<open>Void ports\<close>

text \<open>The outport is visited first; what is printed of the inport is what it is before it is visited.\<close>

fun void_outport :: "cs_port \<Rightarrow> cs_port \<Rightarrow> nat \<times> issue list \<times> heap \<Rightarrow> cs_port \<times> node list \<times> nat \<times> issue list \<times> heap" where
  "void_outport Void dst (c, iss, h) =
     (let (name, c1) = make_unique ''void'' c; (k, h1) = new_kids h
      in (OutPort name ''void'' k, [Assignment name ''flow.Void'' [] None], c1,
          iss @ [Warning (''Using '' @ quoted ''void'' @ '' as input to '' @ quoted (port_actor dst @ ''.'' @ port_name dst))], h1))"
| "void_outport src dst s = (src, [], s)"

fun void_inport :: "cs_port \<Rightarrow> nat \<times> issue list \<times> heap \<Rightarrow> cs_port \<times> node list \<times> nat \<times> issue list \<times> heap" where
  "void_inport Void (c, iss, h) =
     (let (name, c1) = make_unique ''void'' c; (k, h1) = new_kids h
      in (InPort name ''void'' k, [Assignment name ''flow.Terminator'' [] None], c1, iss, h1))"
| "void_inport dst s = (dst, [], s)"

definition void_ports :: "(nat \<times> issue list \<times> heap) link_visitor" where
  "void_ports src dst s =
     (let (src', new1, s1) = void_outport src dst s; (dst', new2, s2) = void_inport dst s1
      in ([Link src' dst'], new1 @ new2, s2))"

definition substitute_voidports :: "tree \<Rightarrow> heap \<Rightarrow> tree \<times> issue list \<times> heap" where
  "substitute_voidports t h = (let (t', c, r) = rewrite_tree void_ports t (0, [], h) in (t', r))"

section \<open>All four\<close>

definition desugar :: "tree \<Rightarrow> heap \<Rightarrow> tree \<times> issue list \<times> heap" where
  "desugar t h =
     (let (t1, h1) = substitute_implicit_outports t h; (t2, h2) = substitute_implicit_inports (expand_portlists t1) h1
      in substitute_voidports t2 h2)"

end
