(* ===== verification/Codegen_Check.thy ===== *)
theory Codegen_Check
  imports Codegen_Rewrite Calvin_Prelude
begin

text \<open>
  The end of the first phase of the code generator: constants are replaced by their values, and the
  consistency of the script is checked.  The actor store is a parameter that gives the metadata of an actor
  type, or none; where the program iterates over a set or a dictionary the order of the lists is used.
\<close>

section \<open>Constants\<close>

fun constants :: "tree \<Rightarrow> (string \<times> arg) list" where
  "constants [] = []"
| "constants (Constant c a # ns) = (c, a) # constants ns"
| "constants (_ # ns) = constants ns"

definition defined_constants :: "tree \<Rightarrow> (string, arg) dict" where
  "defined_constants t = fold (\<lambda>(c, a) d. case a of Val v \<Rightarrow> dput c a d | Ident i \<Rightarrow> d) (constants t) []"

definition unresolved_constants :: "tree \<Rightarrow> (string \<times> string) list" where
  "unresolved_constants t = concat (map (\<lambda>(c, a). case a of Val v \<Rightarrow> [] | Ident i \<Rightarrow> [(c, i)]) (constants t))"

text \<open>One round over the unresolved constants: the dictionary, those that remain, whether any was resolved.\<close>

fun resolve_round ::
  "(string \<times> string) list \<Rightarrow> (string, arg) dict \<Rightarrow> (string, arg) dict \<times> (string \<times> string) list \<times> bool" where
  "resolve_round [] d = (d, [], False)"
| "resolve_round ((c, i) # us) d =
     (case dget d i of
        Some a \<Rightarrow> (let (d', us', b) = resolve_round us (dput c a d) in (d', us', True))
      | None \<Rightarrow> (let (d', us', b) = resolve_round us d in (d', (c, i) # us', b)))"

lemma resolve_round_length:
  "resolve_round us d = (d', us', b) \<Longrightarrow> length us' \<le> length us \<and> (b \<longrightarrow> length us' < length us)"
  by (induction us d arbitrary: d' us' b rule: resolve_round.induct) (fastforce split: option.splits prod.splits)+

function resolve_constants ::
  "(string \<times> string) list \<Rightarrow> (string, arg) dict \<Rightarrow> (string, arg) dict \<times> (string \<times> string) list" where
  "resolve_constants us d =
     (let (d', us', did_replace) = resolve_round us d in if did_replace then resolve_constants us' d' else (d', us'))"
  by pat_completeness auto
termination
  by (relation "measure (\<lambda>(us, d). length us)") (auto dest: resolve_round_length[OF sym])

declare resolve_constants.simps [simp del]

definition constant_issue :: "string list \<Rightarrow> string \<times> string \<Rightarrow> issue" where
  "constant_issue names u =
     Error (if snd u \<in> set names then ''Constant '' @ quoted (fst u) @ '' has a circular reference''
            else ''Constant '' @ quoted (snd u) @ '' is undefined'')"

fun replace_arg :: "(string, arg) dict \<Rightarrow> named_arg \<Rightarrow> named_arg" where
  "replace_arg d (n, Val v) = (n, Val v)"
| "replace_arg d (n, Ident i) = (n, case dget d i of Some a \<Rightarrow> a | None \<Rightarrow> Ident i)"

definition replace_property_args :: "(string, arg) dict \<Rightarrow> port_property \<Rightarrow> port_property" where
  "replace_property_args d p = PortProperty (pp_actor p) (pp_port p) (pp_direction p) (map (replace_arg d) (pp_args p))"

fun replace_args :: "(string, arg) dict \<Rightarrow> node \<Rightarrow> node" where
  "replace_args d (Assignment i t as m) = Assignment i t (map (replace_arg d) as) m"
| "replace_args d (Property p) = Property (replace_property_args d p)"
| "replace_args d (Block nsp args body) = Block nsp args (map (replace_args d) body)"
| "replace_args d (Component n as is os body) = Component n as is os (map (replace_args d) body)"
| "replace_args d (Link src dst) = Link src dst"
| "replace_args d (Constant c a) = Constant c a"

definition replace_constants :: "tree \<Rightarrow> tree \<times> issue list" where
  "replace_constants t =
     (let us = unresolved_constants t; (d, left) = resolve_constants us (defined_constants t)
      in (map (replace_args d) t, map (constant_issue (map fst us)) left))"

section \<open>Looking up types\<close>

definition is_local_component :: "string \<Rightarrow> bool" where
  "is_local_component ty \<longleftrightarrow> CHR ''.'' \<notin> set ty"

text \<open>The first component of the name.\<close>

fun find_component :: "tree \<Rightarrow> string \<Rightarrow> node option" where
  "find_component [] n = None"
| "find_component (Component c as is os body # ns) n = (if c = n then Some (Component c as is os body) else find_component ns n)"
| "find_component (_ # ns) n = find_component ns n"

fun component_metadata :: "node \<Rightarrow> metadata option" where
  "component_metadata (Component c as is os body) =
     Some \<lparr>md_ns = ''local'', md_name = c, md_kind = ComponentType, md_inputs = is, md_outputs = os, md_mandatory = as, md_optional = []\<rparr>"
| "component_metadata _ = None"

definition lookup_type :: "(string \<Rightarrow> metadata option) \<Rightarrow> tree \<Rightarrow> string \<Rightarrow> metadata option \<times> issue list" where
  "lookup_type store t ty =
     (if is_local_component ty
      then (case find_component t ty of
              None \<Rightarrow> (None, [Error (''Missing local component definition: '' @ quoted ty)])
            | Some c \<Rightarrow> (component_metadata c, []))
      else (case store ty of
              None \<Rightarrow> (None, [Warning (''Not validating actor type: '' @ quoted ty)])
            | Some m \<Rightarrow> (Some m, [])))"

section \<open>Consistency\<close>

text \<open>
  \<open>given_keys\<close> are the keys of a dictionary, so no name is ever found twice among them: duplicated
  arguments are not reported.
\<close>

definition check_arguments :: "metadata \<Rightarrow> named_arg list \<Rightarrow> issue list" where
  "check_arguments m as =
     (let given = remdups (map fst as); known = md_mandatory m @ md_optional m
      in map (\<lambda>x. Error (''Duplicated argument: '' @ quoted x)) (filter (\<lambda>x. 1 < count_list given x) given) @
         map (\<lambda>x. Error (''Missing argument: '' @ quoted x)) (filter (\<lambda>x. x \<notin> set given) (remdups (md_mandatory m))) @
         map (\<lambda>x. Error (''Excess argument: '' @ quoted x)) (filter (\<lambda>x. x \<notin> set known) given) @
         map (\<lambda>x. Warning (''Using default value for implicit parameter '' @ quoted x))
           (filter (\<lambda>x. x \<notin> set given) (remdups (md_optional m))))"

definition describe :: "metadata \<Rightarrow> string \<Rightarrow> string" where
  "describe m i =
     (case md_kind m of ActorType ips ops \<Rightarrow> ''Actor '' | ComponentType \<Rightarrow> ''Component '') @ i @ '' ('' @ md_ns m @ ''.'' @ md_name m @ '')''"

text \<open>An internal port is never found for an actor: its actor is the empty string.\<close>

definition check_connections :: "node list \<Rightarrow> string \<Rightarrow> metadata \<Rightarrow> issue list" where
  "check_connections body i m =
     map (\<lambda>p. Error (describe m i @ '' is missing connection to inport '' @ quoted p))
       (filter (\<lambda>p. \<not> list_ex (match_in i p) (link_ports body)) (md_inputs m)) @
     map (\<lambda>p. Error (describe m i @ '' is missing connection to outport '' @ quoted p))
       (filter (\<lambda>p. \<not> list_ex (match_out i p) (link_ports body)) (md_outputs m))"

text \<open>The assignments of a block get their metadata; links and properties are checked afterwards.\<close>

fun check_assignment :: "(string \<Rightarrow> metadata option) \<Rightarrow> tree \<Rightarrow> node list \<Rightarrow> node \<Rightarrow> node \<times> issue list" where
  "check_assignment store t body (Assignment i ty as m) =
     (let (md, iss) = lookup_type store t ty
      in (Assignment i ty as (Some md),
          iss @ (case md of None \<Rightarrow> [] | Some d \<Rightarrow> check_arguments d as @ check_connections body i d)))"
| "check_assignment store t body n = (n, [])"

fun find_assignment :: "node list \<Rightarrow> string \<Rightarrow> metadata option option option" where
  "find_assignment [] a = None"
| "find_assignment (Assignment i ty as m # ns) a = (if i = a then Some m else find_assignment ns a)"
| "find_assignment (_ # ns) a = find_assignment ns a"

definition check_port :: "node list \<Rightarrow> bool \<Rightarrow> string \<Rightarrow> string \<Rightarrow> issue list" where
  "check_port body inward a p =
     (case find_assignment body a of
        None \<Rightarrow> [Error (''Undefined actor: '' @ quoted a)]
      | Some (Some (Some m)) \<Rightarrow>
          if p \<in> set (if inward then md_inputs m else md_outputs m) then []
          else [Error (describe m a @ '' has no '' @ (if inward then ''in'' else ''out'') @ ''port '' @ quoted p)]
      | _ \<Rightarrow> [])"

text \<open>The component a block defines: its name, inports and outports.\<close>

type_synonym hull = "(string \<times> string list \<times> string list) option"

definition check_internal :: "hull \<Rightarrow> bool \<Rightarrow> string \<Rightarrow> issue list" where
  "check_internal c inward p =
     (case c of
        None \<Rightarrow> [Error (''Internal port '' @ quoted (CHR ''.'' # p) @ '' outside component definition'')]
      | Some (n, ins, outs) \<Rightarrow>
          if inward then (if p \<in> set outs then [] else [Error (''Component '' @ n @ '' has no outport '' @ quoted p)])
          else (if p \<in> set ins then [] else [Error (''Component '' @ n @ '' has no inport '' @ quoted p)]))"

fun check_end :: "node list \<Rightarrow> hull \<Rightarrow> cs_port \<Rightarrow> issue list" where
  "check_end body c (InPort a p k) = check_port body True a p"
| "check_end body c (OutPort a p k) = check_port body False a p"
| "check_end body c (InternalInPort p k) = check_internal c True p"
| "check_end body c (InternalOutPort p k) = check_internal c False p"
| "check_end body c _ = []"

fun check_link :: "node list \<Rightarrow> hull \<Rightarrow> node \<Rightarrow> issue list" where
  "check_link body c (Link (InternalOutPort p k) (InternalInPort q l)) = [Error ''Component inport connected directly to outport.'']"
| "check_link body c (Link src dst) = check_end body c src @ check_end body c dst"
| "check_link body c n = []"

fun check_property_statement :: "node list \<Rightarrow> node \<Rightarrow> issue list" where
  "check_property_statement body (Property p) =
     (let ps = link_ports body;
          ins = filter (case pp_actor p of None \<Rightarrow> match_internal_in (pp_port p) | Some a \<Rightarrow> match_in a (pp_port p)) ps;
          outs = filter (case pp_actor p of None \<Rightarrow> match_internal_out (pp_port p) | Some a \<Rightarrow> match_out a (pp_port p)) ps
      in if ins = [] \<and> outs = [] then [Error ''No such port.'']
         else if length ins = 1 \<and> length outs = 1 \<and> pp_direction p \<notin> {Some ''in'', Some ''out''}
         then [Error ''Port property need direction since ambigious names''] else [])"
| "check_property_statement body n = []"

definition redeclared :: "node list \<Rightarrow> issue list" where
  "redeclared body =
     (let ids = map as_ident (filter is_assignment body)
      in map (\<lambda>x. Error (''Instance identifier '' @ quoted x @ '' redeclared'')) (filter (\<lambda>x. 1 < count_list ids x) ids))"

definition check_block :: "(string \<Rightarrow> metadata option) \<Rightarrow> tree \<Rightarrow> hull \<Rightarrow> node list \<Rightarrow> node list \<times> issue list" where
  "check_block store t c body =
     (let rs = map (check_assignment store t body) body; body' = map fst rs
      in (body', redeclared body @ concat (map snd rs) @ concat (map (check_link body' c) body') @
                 concat (map (check_property_statement body') body')))"

fun node_args :: "node \<Rightarrow> named_arg list" where
  "node_args (Assignment i ty as m) = as"
| "node_args (Property p) = pp_args p"
| "node_args _ = []"

definition check_hull :: "string \<Rightarrow> string list \<Rightarrow> string list \<Rightarrow> string list \<Rightarrow> node list \<Rightarrow> issue list" where
  "check_hull n as ins outs body =
     map (\<lambda>a. Error (''Unused argument: '' @ quoted a)) (filter (\<lambda>a. Ident a \<notin> snd ` set (concat (map node_args body))) as) @
     map (\<lambda>p. Error (''Component '' @ n @ '' is missing connection to outport '' @ quoted p))
       (filter (\<lambda>p. \<not> list_ex (match_internal_in p) (link_ports body)) outs) @
     map (\<lambda>p. Error (''Component '' @ n @ '' is missing connection to inport '' @ quoted p))
       (filter (\<lambda>p. \<not> list_ex (match_internal_out p) (link_ports body)) ins)"

fun check_top :: "(string \<Rightarrow> metadata option) \<Rightarrow> tree \<Rightarrow> node \<Rightarrow> node \<times> issue list" where
  "check_top store t (Component n as ins outs body) =
     (let (body', iss) = check_block store t (Some (n, ins, outs)) body
      in (Component n as ins outs body', check_hull n as ins outs body @ iss))"
| "check_top store t (Block nsp args body) = (let (body', iss) = check_block store t None body in (Block nsp args body', iss))"
| "check_top store t n = (n, [])"

definition consistency_check :: "(string \<Rightarrow> metadata option) \<Rightarrow> tree \<Rightarrow> tree \<times> issue list" where
  "consistency_check store t = (let rs = map (check_top store t) t in (map fst rs, concat (map snd rs)))"

section \<open>Phase 1\<close>

definition phase1 :: "(string \<Rightarrow> metadata option) \<Rightarrow> tree \<Rightarrow> heap \<Rightarrow> tree \<times> issue list \<times> heap" where
  "phase1 store t h =
     (let (t1, iss1, h1) = desugar t h; (t2, iss2) = replace_constants t1; (t3, iss3) = consistency_check store t2
      in (t3, iss1 @ iss2 @ iss3, h1))"

end
