(* ===== verification/Codegen_Expand.thy ===== *)
theory Codegen_Expand
  imports Codegen_Check
begin

text \<open>
  Expansion of components: an assignment whose type is a component is replaced by a deep copy of the
  component's block, with the identifier of the assignment as its namespace and the given arguments as its dictionary.  The
  expansion of a component that contains itself does not end.
\<close>

section \<open>Deep copies\<close>

text \<open>
  A deep copy keeps what nodes share inside it and shares nothing with its original: every address is moved beyond those in
  use, where the heap is repeated.
\<close>

fun shift_arg :: "nat \<Rightarrow> arg \<Rightarrow> arg" where
  "shift_arg n (Val a) = Val (n + a)"
| "shift_arg n (Ident i) = Ident i"

definition shift_property :: "nat \<Rightarrow> port_property \<Rightarrow> port_property" where
  "shift_property n p = PortProperty (pp_actor p) (pp_port p) (pp_direction p) (map (map_prod id (shift_arg n)) (pp_args p))"

fun shift_port :: "nat \<Rightarrow> cs_port \<Rightarrow> cs_port" where
  "shift_port n (InPort a p k) = InPort a p (n + k)"
| "shift_port n (OutPort a p k) = OutPort a p (n + k)"
| "shift_port n (InternalInPort p k) = InternalInPort p (n + k)"
| "shift_port n (InternalOutPort p k) = InternalOutPort p (n + k)"
| "shift_port n Void = Void"
| "shift_port n (ImplicitPort a l) = ImplicitPort (shift_arg n a) l"
| "shift_port n (TransformedPort p a l) = TransformedPort (shift_port n p) (shift_arg n a) l"
| "shift_port n (PortList ps) = PortList (map (shift_port n) ps)"

fun shift_node :: "nat \<Rightarrow> node \<Rightarrow> node" where
  "shift_node n (Assignment i t as m) = Assignment i t (map (map_prod id (shift_arg n)) as) m"
| "shift_node n (Link src dst) = Link (shift_port n src) (shift_port n dst)"
| "shift_node n (Property p) = Property (shift_property n p)"
| "shift_node n (Constant c a) = Constant c (shift_arg n a)"
| "shift_node n (Block nsp args body) = Block nsp (map (map_prod id (shift_arg n)) args) (map (shift_node n) body)"
| "shift_node n (Component c as is os body) = Component c as is os (map (shift_node n) body)"

definition copy_heap :: "heap \<Rightarrow> heap" where
  "copy_heap h =
     (let n = hp_next h
      in h\<lparr>hp_next := n + n,
           hp_vals := (\<lambda>a. if a < n then hp_vals h a else hp_vals h (a - n)),
           hp_kids := (\<lambda>k. if k < n then hp_kids h k else map (shift_property n) (hp_kids h (k - n)))\<rparr>)"

definition clone_body :: "node list \<Rightarrow> heap \<Rightarrow> node list \<times> heap" where
  "clone_body body h = (map (shift_node (hp_next h)) body, copy_heap h)"

section \<open>Expander\<close>

definition args_dict :: "named_arg list \<Rightarrow> (string, arg) dict" where
  "args_dict as = fold (\<lambda>(n, a). dput n a) as []"

definition expand_type ::
  "(string \<Rightarrow> metadata option) \<Rightarrow> tree \<Rightarrow> string \<Rightarrow> metadata option option \<Rightarrow> metadata option \<times> issue list" where
  "expand_type store defs ty m = (case m of None \<Rightarrow> lookup_type store defs ty | Some md \<Rightarrow> (md, []))"

text \<open>The body of the component that an assignment is an instance of, if it is one.\<close>

definition instance_body :: "tree \<Rightarrow> metadata option \<Rightarrow> node list option" where
  "instance_body defs md =
     (case md of
        None \<Rightarrow> None
      | Some d \<Rightarrow>
          (case md_kind d of
             ActorType ips ops \<Rightarrow> None
           | ComponentType \<Rightarrow> (case find_component defs (md_name d) of Some (Component c as is os body) \<Rightarrow> Some body | _ \<Rightarrow> None)))"

definition unknown_type :: "bool \<Rightarrow> string \<Rightarrow> metadata option \<Rightarrow> issue list" where
  "unknown_type verify ty md = (if md = None \<and> verify then [Error (''Unknown actor type: '' @ quoted ty)] else [])"

text \<open>\<open>defs\<close> is the tree in which definitions are found: a definition that has been visited before is expanded already.\<close>

partial_function (option) expand ::
  "(string \<Rightarrow> metadata option) \<Rightarrow> bool \<Rightarrow> tree \<Rightarrow> node list \<Rightarrow> heap \<Rightarrow> (node list \<times> issue list \<times> heap) option" where
  "expand store verify defs nodes h =
     (case nodes of
        [] \<Rightarrow> Some ([], [], h)
      | n # ns \<Rightarrow>
          Option.bind
            (case n of
               Assignment i ty as m \<Rightarrow>
                 (let (md, iss) = expand_type store defs ty m
                  in case instance_body defs md of
                       None \<Rightarrow> Some (Assignment i ty as (Some md), iss @ unknown_type verify ty md, h)
                     | Some body \<Rightarrow>
                         (let (body', h1) = clone_body body h
                          in Option.bind (expand store verify defs body' h1) (\<lambda>(b, iss1, h2).
                               Some (Block i (args_dict as) b, iss @ iss1, h2))))
             | Block nsp args body \<Rightarrow>
                 Option.bind (expand store verify defs body h) (\<lambda>(b, iss1, h2). Some (Block nsp args b, iss1, h2))
             | Component c as is os body \<Rightarrow>
                 Option.bind (expand store verify defs body h) (\<lambda>(b, iss1, h2). Some (Component c as is os b, iss1, h2))
             | _ \<Rightarrow> Some (n, [], h))
            (\<lambda>(n', iss1, h1).
               Option.bind (expand store verify defs ns h1) (\<lambda>(ns', iss2, h2). Some (n' # ns', iss1 @ iss2, h2))))"

text \<open>The expansion of a single node, \<open>rec\<close> expanding what is inside.\<close>

definition expand_head ::
  "(node list \<Rightarrow> heap \<Rightarrow> (node list \<times> issue list \<times> heap) option) \<Rightarrow> (string \<Rightarrow> metadata option) \<Rightarrow> bool \<Rightarrow> tree \<Rightarrow>
   node \<Rightarrow> heap \<Rightarrow> (node \<times> issue list \<times> heap) option" where
  "expand_head rec store verify defs n h =
    (case n of
      Assignment i ty as m \<Rightarrow>
        (let (md, iss) = expand_type store defs ty m
         in case instance_body defs md of
              None \<Rightarrow> Some (Assignment i ty as (Some md), iss @ unknown_type verify ty md, h)
            | Some body \<Rightarrow>
                (let (body', h1) = clone_body body h
                 in Option.bind (rec body' h1) (\<lambda>(b, iss1, h2).
                      Some (Block i (args_dict as) b, iss @ iss1, h2))))
    | Block nsp args body \<Rightarrow>
        Option.bind (rec body h) (\<lambda>(b, iss1, h2). Some (Block nsp args b, iss1, h2))
    | Component c as is os body \<Rightarrow>
        Option.bind (rec body h) (\<lambda>(b, iss1, h2). Some (Component c as is os b, iss1, h2))
    | _ \<Rightarrow> Some (n, [], h))"

lemma expand_simps [simp, code]:
  "expand store verify defs [] h = Some ([], [], h)"
  "expand store verify defs (n # ns) h =
     Option.bind (expand_head (expand store verify defs) store verify defs n h) (\<lambda>(n', iss1, h1).
       Option.bind (expand store verify defs ns h1) (\<lambda>(ns', iss2, h2). Some (n' # ns', iss1 @ iss2, h2)))"
  by (simp_all add: expand.simps[of store verify defs "[]"] expand.simps[of store verify defs "n # ns"] expand_head_def)

fun expand_root ::
  "(string \<Rightarrow> metadata option) \<Rightarrow> bool \<Rightarrow> tree \<Rightarrow> tree \<Rightarrow> heap \<Rightarrow> (tree \<times> issue list \<times> heap) option" where
  "expand_root store verify visited [] h = Some (visited, [], h)"
| "expand_root store verify visited (n # rest) h =
     Option.bind (expand store verify (visited @ n # rest) [n] h) (\<lambda>(ns, iss, h1).
       Option.bind (expand_root store verify (visited @ ns) rest h1) (\<lambda>(t, iss1, h2). Some (t, iss @ iss1, h2)))"

definition expand_components ::
  "(string \<Rightarrow> metadata option) \<Rightarrow> bool \<Rightarrow> tree \<Rightarrow> heap \<Rightarrow> (tree \<times> issue list \<times> heap) option" where
  "expand_components store verify t h =
     map_option (map_prod (filter (Not \<circ> is_component)) id) (expand_root store verify [] t h)"

end
