(* ===== verification/Codegen_Flatten.thy ===== *)
theory Codegen_Flatten
  imports Codegen_Expand
begin

text \<open>
  Port properties are collected into the ports they are about, and the blocks of the expanded components are flattened into
  the block of the program.
\<close>

section \<open>Collecting port properties\<close>

text \<open>
  A statement moves into the first port it names; without such a port it is dropped.  Of the ports with the
  asked direction, or any, inports come first.
\<close>

definition property_ports :: "node list \<Rightarrow> port_property \<Rightarrow> cs_port list" where
  "property_ports body p =
     (let ps = link_ports body; dir = pp_direction p
      in (if dir = None \<or> dir = Some [] \<or> dir = Some ''in''
          then filter (case pp_actor p of None \<Rightarrow> match_internal_in (pp_port p) | Some a \<Rightarrow> match_in a (pp_port p)) ps else []) @
         (if dir = None \<or> dir = Some [] \<or> dir = Some ''out''
          then filter (case pp_actor p of None \<Rightarrow> match_internal_out (pp_port p) | Some a \<Rightarrow> match_out a (pp_port p)) ps else []))"

fun new_args :: "(string \<times> pyval) list \<Rightarrow> heap \<Rightarrow> named_arg list \<times> heap" where
  "new_args [] h = ([], h)"
| "new_args ((n, v) # ps) h = (let (a, h1) = new_value v h; (as, h2) = new_args ps h1 in ((n, a) # as, h2))"

text \<open>The properties an actor type declares for its ports, for the first link at each port.\<close>

definition declare_property :: "string \<Rightarrow> string \<Rightarrow> string \<Rightarrow> (string \<times> pyval) list \<Rightarrow> cs_port list \<Rightarrow> heap \<Rightarrow> heap" where
  "declare_property a p dir props ports h =
     (case ports of
        [] \<Rightarrow> h
      | q # qs \<Rightarrow> (let (as, h1) = new_args props h in add_kids (port_kids q) [PortProperty (Some a) p (Some dir) as] h1))"

definition declared_properties :: "node list \<Rightarrow> string \<Rightarrow> metadata \<Rightarrow> heap \<Rightarrow> heap" where
  "declared_properties body a m h =
     (case md_kind m of
        ComponentType \<Rightarrow> h
      | ActorType ips ops \<Rightarrow>
          fold (\<lambda>(p, props). declare_property a p ''out'' props (filter (match_out a p) (link_ports body))) ops
            (fold (\<lambda>(p, props). declare_property a p ''in'' props (filter (match_in a p) (link_ports body))) ips h))"

text \<open>
  The visitor also passes the properties that are in a port by then; each is taken out and put back, which leaves the list as
  it was.
\<close>

fun collect_properties :: "node list \<Rightarrow> node list \<Rightarrow> heap \<Rightarrow> node list \<times> heap" where
  "collect_properties body [] h = ([], h)"
| "collect_properties body (Property p # ns) h =
     collect_properties body ns (case property_ports body p of [] \<Rightarrow> h | q # qs \<Rightarrow> add_kids (port_kids q) [p] h)"
| "collect_properties body (Assignment i ty as m # ns) h =
     (let h1 = (case m of Some (Some md) \<Rightarrow> declared_properties body i md h | _ \<Rightarrow> h);
          (ns', h2) = collect_properties body ns h1
      in (Assignment i ty as m # ns', h2))"
| "collect_properties body (Block nsp args b # ns) h =
     (let (b', h1) = collect_properties b b h; (ns', h2) = collect_properties body ns h1 in (Block nsp args b' # ns', h2))"
| "collect_properties body (n # ns) h = (let (ns', h1) = collect_properties body ns h in (n # ns', h1))"

definition collect_port_properties :: "tree \<Rightarrow> heap \<Rightarrow> tree \<times> heap" where
  "collect_port_properties t h = collect_properties t t h"

section \<open>Flattening\<close>

definition qualify :: "string \<Rightarrow> string \<Rightarrow> string" where
  "qualify nsp a = (if a = [] then nsp else nsp @ '':'' @ a)"

fun promote_port :: "string \<Rightarrow> cs_port \<Rightarrow> cs_port" where
  "promote_port nsp (InPort a p k) = InPort (qualify nsp a) p k"
| "promote_port nsp (OutPort a p k) = OutPort (qualify nsp a) p k"
| "promote_port nsp q = q"

text \<open>
  The links of the block around carry a mark when they have been consumed: they are deleted after all children of the inner
  block have been visited, and found until then.  A link to the port of the hull from outside and one from the port of the hull to the inside
  are joined, and so for outports; what the two ends at the hull have as properties goes to the other ends.
\<close>

definition relinked :: "cs_port \<Rightarrow> cs_port \<Rightarrow> cs_port \<Rightarrow> cs_port \<Rightarrow> heap \<Rightarrow> heap" where
  "relinked l0 l1 l2 l3 h =
     (let h1 = add_kids (port_kids l0) (hp_kids h (port_kids l2)) h in add_kids (port_kids l3) (hp_kids h1 (port_kids l1)) h1)"

fun relink_inport ::
  "string \<Rightarrow> cs_port \<Rightarrow> cs_port \<Rightarrow> (node \<times> bool) list \<Rightarrow> heap \<Rightarrow> node list \<times> (node \<times> bool) list \<times> heap" where
  "relink_inport nsp l2 l3 [] h = ([], [], h)"
| "relink_inport nsp l2 l3 ((Link l0 l1, used) # bs) h =
     (if match_in nsp (port_name l2) l1
      then (let (new, bs', h1) = relink_inport nsp l2 l3 bs (relinked l0 l1 l2 l3 h) in (Link l0 l3 # new, (Link l0 l1, True) # bs', h1))
      else (let (new, bs', h1) = relink_inport nsp l2 l3 bs h in (new, (Link l0 l1, used) # bs', h1)))"
| "relink_inport nsp l2 l3 (b # bs) h = (let (new, bs', h1) = relink_inport nsp l2 l3 bs h in (new, b # bs', h1))"

fun relink_outport ::
  "string \<Rightarrow> cs_port \<Rightarrow> cs_port \<Rightarrow> (node \<times> bool) list \<Rightarrow> heap \<Rightarrow> node list \<times> (node \<times> bool) list \<times> heap" where
  "relink_outport nsp l0 l1 [] h = ([], [], h)"
| "relink_outport nsp l0 l1 ((Link l2 l3, used) # bs) h =
     (if match_out nsp (port_name l1) l2
      then (let (new, bs', h1) = relink_outport nsp l0 l1 bs (relinked l0 l1 l2 l3 h) in (Link l0 l3 # new, (Link l2 l3, True) # bs', h1))
      else (let (new, bs', h1) = relink_outport nsp l0 l1 bs h in (new, (Link l2 l3, used) # bs', h1)))"
| "relink_outport nsp l0 l1 (b # bs) h = (let (new, bs', h1) = relink_outport nsp l0 l1 bs h in (new, b # bs', h1))"

text \<open>A link of the inner block: what is kept of it, the new links, the links around it, the heap.\<close>

definition absorb_link ::
  "string \<Rightarrow> cs_port \<Rightarrow> cs_port \<Rightarrow> (node \<times> bool) list \<Rightarrow> heap \<Rightarrow> node list \<times> node list \<times> (node \<times> bool) list \<times> heap" where
  "absorb_link nsp src dst bs h =
     (let src' = promote_port nsp src; dst' = promote_port nsp dst;
          (new1, bs1, h1) = (case src of InternalOutPort p k \<Rightarrow> relink_inport nsp src dst' bs h | _ \<Rightarrow> ([], bs, h));
          (new2, bs2, h2) = (case dst of InternalInPort p k \<Rightarrow> relink_outport nsp src' dst bs1 h1 | _ \<Rightarrow> ([], bs1, h1))
      in (if new1 @ new2 = [] then [Link src' dst'] else [], new1 @ new2, bs2, h2))"

fun absorb_children ::
  "string \<Rightarrow> (string, arg) dict \<Rightarrow> node list \<Rightarrow> (node \<times> bool) list \<Rightarrow> heap \<Rightarrow> node list \<times> node list \<times> (node \<times> bool) list \<times> heap" where
  "absorb_children nsp args [] bs h = ([], [], bs, h)"
| "absorb_children nsp args (Assignment i ty as m # cs) bs h =
     (let (kept, new, bs', h') = absorb_children nsp args cs bs h
      in (Assignment (nsp @ '':'' @ i) ty (map (replace_arg args) as) m # kept, new, bs', h'))"
| "absorb_children nsp args (Link src dst # cs) bs h =
     (let (kept1, new1, bs1, h1) = absorb_link nsp src dst bs h; (kept2, new2, bs2, h2) = absorb_children nsp args cs bs1 h1
      in (kept1 @ kept2, new1 @ new2, bs2, h2))"
| "absorb_children nsp args (Property p # cs) bs h =
     (let (kept, new, bs', h') = absorb_children nsp args cs bs h in (Property (replace_property_args args p) # kept, new, bs', h'))"
| "absorb_children nsp args (c # cs) bs h =
     (let (kept, new, bs', h') = absorb_children nsp args cs bs h in (c # kept, new, bs', h'))"

text \<open>The children of the block around when an inner block, its own blocks flattened, has gone.\<close>

definition absorb :: "string \<Rightarrow> (string, arg) dict \<Rightarrow> node list \<Rightarrow> node list \<Rightarrow> heap \<Rightarrow> node list \<times> heap" where
  "absorb nsp args cs bs h =
     (let (kept, new, bs', h') = absorb_children nsp args cs (map (\<lambda>b. (b, False)) bs) h
      in (map fst (filter (Not \<circ> snd) bs') @ kept @ new, h'))"

text \<open>The blocks among the children, one after the other; \<open>bs\<close> are the children that are no blocks.\<close>

fun flatten_blocks :: "node list \<Rightarrow> node list \<Rightarrow> heap \<Rightarrow> node list \<times> heap" where
  "flatten_blocks [] bs h = (bs, h)"
| "flatten_blocks (Block nsp args body # ns) bs h =
     (let (cs, h1) = flatten_blocks body (filter (Not \<circ> is_block) body) h; (bs', h2) = absorb nsp args cs bs h1
      in flatten_blocks ns bs' h2)"
| "flatten_blocks (n # ns) bs h = flatten_blocks ns bs h"

definition flatten :: "tree \<Rightarrow> heap \<Rightarrow> tree \<times> heap" where
  "flatten t h = flatten_blocks t (filter (Not \<circ> is_block) t) h"

end
