(* ===== verification/Codegen_Wiring.thy ===== *)
theory Codegen_Wiring
  imports Codegen_Flatten
begin

text \<open>
  What a script with nested blocks means: which outport of which actor is wired to which inport.  The meaning is defined without
  flattening: a link to a port of a block is one to every actor port the inside of the block connects with it.  Flattening is
  proved to keep it.
\<close>

section \<open>Wiring\<close>

text \<open>An end of a wire is a port of an actor (or of a block with that name) or a port of the hull of the block itself.\<close>

datatype wire_end = Actor string string | Hull string

type_synonym wires = "(wire_end \<times> wire_end) set"

fun wire_source :: "cs_port \<Rightarrow> wire_end option" where
  "wire_source (OutPort a p k) = Some (Actor a p)"
| "wire_source (InternalOutPort p k) = Some (Hull p)"
| "wire_source q = None"

fun wire_target :: "cs_port \<Rightarrow> wire_end option" where
  "wire_target (InPort a p k) = Some (Actor a p)"
| "wire_target (InternalInPort p k) = Some (Hull p)"
| "wire_target q = None"

fun plain_link :: "node \<Rightarrow> bool" where
  "plain_link (Link src dst) \<longleftrightarrow> wire_source src \<noteq> None \<and> wire_target dst \<noteq> None"
| "plain_link n \<longleftrightarrow> True"

text \<open>The links of a block, blocks inside it not looked into.\<close>

definition link_ends :: "node list \<Rightarrow> wires" where
  "link_ends ns = {(s, t). \<exists>src dst. Link src dst \<in> set ns \<and> wire_source src = Some s \<and> wire_target dst = Some t}"

definition qualify_end :: "string \<Rightarrow> string \<times> string \<Rightarrow> wire_end" where
  "qualify_end nsp ap = Actor (qualify nsp (fst ap)) (snd ap)"

text \<open>The actor ports behind an outport or inport, for the wirings \<open>bw\<close> of the blocks.\<close>

definition sources :: "(string \<times> wires) list \<Rightarrow> wire_end \<Rightarrow> wire_end set" where
  "sources bw s =
     (case s of
        Hull p \<Rightarrow> {Hull p}
      | Actor a p \<Rightarrow> (case map_of bw a of None \<Rightarrow> {Actor a p} | Some W \<Rightarrow> {qualify_end a (b, q) |b q. (Actor b q, Hull p) \<in> W}))"

definition targets :: "(string \<times> wires) list \<Rightarrow> wire_end \<Rightarrow> wire_end set" where
  "targets bw t =
     (case t of
        Hull p \<Rightarrow> {Hull p}
      | Actor a p \<Rightarrow> (case map_of bw a of None \<Rightarrow> {Actor a p} | Some W \<Rightarrow> {qualify_end a (b, q) |b q. (Hull p, Actor b q) \<in> W}))"

definition qualify_wires :: "string \<Rightarrow> wires \<Rightarrow> wires" where
  "qualify_wires nsp W = {(qualify_end nsp (a, p), qualify_end nsp (b, q)) |a p b q. (Actor a p, Actor b q) \<in> W}"

definition lift :: "(string \<times> wires) list \<Rightarrow> wires \<Rightarrow> wires" where
  "lift bw L = (\<Union>(s, t)\<in>L. sources bw s \<times> targets bw t)"

definition resolve :: "(string \<times> wires) list \<Rightarrow> wires \<Rightarrow> wires" where
  "resolve bw L = lift bw L \<union> (\<Union>(nsp, W)\<in>set bw. qualify_wires nsp W)"

fun block_wires :: "node list \<Rightarrow> (string \<times> wires) list" where
  "block_wires [] = []"
| "block_wires (Block nsp args body # ns) = (nsp, resolve (block_wires body) (link_ends body)) # block_wires ns"
| "block_wires (n # ns) = block_wires ns"

definition wiring :: "node list \<Rightarrow> wires" where
  "wiring ns = resolve (block_wires ns) (link_ends ns)"

text \<open>The actors with their qualified names, types and metadata.\<close>

fun instances :: "node list \<Rightarrow> (string \<times> string \<times> metadata option option) list" where
  "instances [] = []"
| "instances (Assignment i ty as m # ns) = (i, ty, m) # instances ns"
| "instances (Block nsp args body # ns) = map (\<lambda>(i, x). (nsp @ '':'' @ i, x)) (instances body) @ instances ns"
| "instances (n # ns) = instances ns"

section \<open>Sound scripts\<close>

text \<open>
  The ports of the hull of a block are used inside exactly if they are outside; no link goes through a block from hull to hull,
  and none from a block directly to itself.
\<close>

definition fits :: "string \<Rightarrow> wires \<Rightarrow> wires \<Rightarrow> bool" where
  "fits nsp W L \<longleftrightarrow>
     (\<forall>p. (\<exists>s. (s, Actor nsp p) \<in> L) \<longleftrightarrow> (\<exists>t. (Hull p, t) \<in> W)) \<and>
     (\<forall>p. (\<exists>t. (Actor nsp p, t) \<in> L) \<longleftrightarrow> (\<exists>s. (s, Hull p) \<in> W)) \<and>
     (\<forall>p q. (Hull p, Hull q) \<notin> W) \<and> (\<forall>p q. (Actor nsp p, Actor nsp q) \<notin> L)"

fun block_names :: "node list \<Rightarrow> string list" where
  "block_names [] = []"
| "block_names (Block nsp args body # ns) = nsp # block_names ns"
| "block_names (n # ns) = block_names ns"

fun sound_blocks :: "node list \<Rightarrow> wires \<Rightarrow> bool" where
  "sound_blocks [] L \<longleftrightarrow> True"
| "sound_blocks (Block nsp args body # ns) L \<longleftrightarrow>
     CHR '':'' \<notin> set nsp \<and> nsp \<notin> set (block_names ns) \<and> fits nsp (link_ends body) L \<and>
     list_all plain_link body \<and> sound_blocks body (link_ends body) \<and> sound_blocks ns L"
| "sound_blocks (n # ns) L \<longleftrightarrow> sound_blocks ns L"

definition sound_tree :: "node list \<Rightarrow> bool" where
  "sound_tree t \<longleftrightarrow> list_all plain_link t \<and> sound_blocks t (link_ends t)"

section \<open>Absorbing a block\<close>

lemma link_ends_simps [simp]:
  "link_ends [] = {}"
  "link_ends (ns @ ms) = link_ends ns \<union> link_ends ms"
  by (auto simp: link_ends_def)

lemma link_ends_Cons: "link_ends (n # ns) = link_ends [n] \<union> link_ends ns"
  by (auto simp: link_ends_def)

lemma link_ends_other [simp]:
  "link_ends (Assignment i ty as m # ns) = link_ends ns" "link_ends (Property p # ns) = link_ends ns"
  "link_ends (Constant c a # ns) = link_ends ns" "link_ends (Block nsp args body # ns) = link_ends ns"
  "link_ends (Component c xs is os body # ns) = link_ends ns"
  by (auto simp: link_ends_def)

lemma link_ends_nonblocks [simp]: "link_ends (filter (Not \<circ> is_block) ns) = link_ends ns"
  unfolding link_ends_def by (auto split: node.splits)

text \<open>What a step of the absorption makes of a link of the inner block, given the links around it.\<close>

definition joined_in :: "string \<Rightarrow> cs_port \<Rightarrow> cs_port \<Rightarrow> node list \<Rightarrow> node list" where
  "joined_in nsp l2 l3 bs =
     concat (map (\<lambda>b. case b of Link l0 l1 \<Rightarrow> if match_in nsp (port_name l2) l1 then [Link l0 l3] else [] | _ \<Rightarrow> []) bs)"

definition joined_out :: "string \<Rightarrow> cs_port \<Rightarrow> cs_port \<Rightarrow> node list \<Rightarrow> node list" where
  "joined_out nsp l0 l1 bs =
     concat (map (\<lambda>b. case b of Link l2 l3 \<Rightarrow> if match_out nsp (port_name l1) l2 then [Link l0 l3] else [] | _ \<Rightarrow> []) bs)"

definition uses_in :: "string \<Rightarrow> string \<Rightarrow> node \<Rightarrow> bool" where
  "uses_in nsp p b = (case b of Link l0 l1 \<Rightarrow> match_in nsp p l1 | _ \<Rightarrow> False)"

definition uses_out :: "string \<Rightarrow> string \<Rightarrow> node \<Rightarrow> bool" where
  "uses_out nsp p b = (case b of Link l2 l3 \<Rightarrow> match_out nsp p l2 | _ \<Rightarrow> False)"

lemma relink_inport_spec:
  "relink_inport nsp l2 l3 bs h = (new, bs', h') \<Longrightarrow>
     new = joined_in nsp l2 l3 (map fst bs) \<and> bs' = map (\<lambda>(b, used). (b, used \<or> uses_in nsp (port_name l2) b)) bs"
  by (induction nsp l2 l3 bs h arbitrary: new bs' h' rule: relink_inport.induct)
     (auto simp: joined_in_def uses_in_def Let_def split: prod.splits if_splits)

lemma relink_outport_spec:
  "relink_outport nsp l0 l1 bs h = (new, bs', h') \<Longrightarrow>
     new = joined_out nsp l0 l1 (map fst bs) \<and> bs' = map (\<lambda>(b, used). (b, used \<or> uses_out nsp (port_name l1) b)) bs"
  by (induction nsp l0 l1 bs h arbitrary: new bs' h' rule: relink_outport.induct)
     (auto simp: joined_out_def uses_out_def Let_def split: prod.splits if_splits)

text \<open>Whether a link of the inner block uses a link around it.\<close>

fun uses :: "string \<Rightarrow> node \<Rightarrow> node \<Rightarrow> bool" where
  "uses nsp (Link src dst) b \<longleftrightarrow>
     (\<exists>p k. src = InternalOutPort p k \<and> uses_in nsp p b) \<or> (\<exists>p k. dst = InternalInPort p k \<and> uses_out nsp p b)"
| "uses nsp n b \<longleftrightarrow> False"

fun joins :: "string \<Rightarrow> node list \<Rightarrow> node \<Rightarrow> node list" where
  "joins nsp bs (Link src dst) =
     (case src of InternalOutPort p k \<Rightarrow> joined_in nsp src (promote_port nsp dst) bs | _ \<Rightarrow> []) @
     (case dst of InternalInPort p k \<Rightarrow> joined_out nsp (promote_port nsp src) dst bs | _ \<Rightarrow> [])"
| "joins nsp bs n = []"

fun keeps :: "string \<Rightarrow> node list \<Rightarrow> node \<Rightarrow> node list" where
  "keeps nsp bs (Link src dst) =
     (if joins nsp bs (Link src dst) = [] then [Link (promote_port nsp src) (promote_port nsp dst)] else [])"
| "keeps nsp bs n = []"

lemma absorb_link_spec:
  assumes "absorb_link nsp src dst bs h = (kept, new, bs', h')"
  shows "kept = keeps nsp (map fst bs) (Link src dst)" "new = joins nsp (map fst bs) (Link src dst)"
    "bs' = map (\<lambda>(b, used). (b, used \<or> uses nsp (Link src dst) b)) bs"
proof -
  let ?src' = "promote_port nsp src" and ?dst' = "promote_port nsp dst"
  obtain new1 bs1 h1 where 1: "(case src of InternalOutPort p k \<Rightarrow> relink_inport nsp src ?dst' bs h | _ \<Rightarrow> ([], bs, h)) = (new1, bs1, h1)"
    by (metis prod_cases3)
  obtain new2 bs2 h2 where 2: "(case dst of InternalInPort p k \<Rightarrow> relink_outport nsp ?src' dst bs1 h1 | _ \<Rightarrow> ([], bs1, h1)) = (new2, bs2, h2)"
    by (metis prod_cases3)
  have s1: "new1 = (case src of InternalOutPort p k \<Rightarrow> joined_in nsp src ?dst' (map fst bs) | _ \<Rightarrow> [])"
    "bs1 = map (\<lambda>(b, used). (b, used \<or> (\<exists>p k. src = InternalOutPort p k \<and> uses_in nsp p b))) bs"
    using 1 by (cases src; auto dest: relink_inport_spec simp: case_prod_beta)+
  have f1: "map fst bs1 = map fst bs" unfolding s1 by (simp add: case_prod_beta)
  have s2: "new2 = (case dst of InternalInPort p k \<Rightarrow> joined_out nsp ?src' dst (map fst bs) | _ \<Rightarrow> [])"
    "bs2 = map (\<lambda>(b, used). (b, used \<or> (\<exists>p k. dst = InternalInPort p k \<and> uses_out nsp p b))) bs1"
    using 2 f1 by (cases dst; auto dest: relink_outport_spec simp: case_prod_beta)+
  have "(if new1 @ new2 = [] then [Link ?src' ?dst'] else [], new1 @ new2, bs2, h2) = (kept, new, bs', h')"
    using assms unfolding absorb_link_def Let_def 1 prod.case 2 .
  then have r: "kept = (if new1 @ new2 = [] then [Link ?src' ?dst'] else [])" "new = new1 @ new2" "bs' = bs2"
    unfolding prod.inject by - (elim conjE, erule sym)+
  show "new = joins nsp (map fst bs) (Link src dst)" using r s1(1) s2(1) by simp
  then show "kept = keeps nsp (map fst bs) (Link src dst)" using r by simp
  show "bs' = map (\<lambda>(b, used). (b, used \<or> uses nsp (Link src dst) b)) bs"
    unfolding r(3) s2(2) s1(2) by (auto simp: case_prod_beta)
qed

lemma absorb_children_spec:
  "absorb_children nsp args cs bs h = (kept, new, bs', h') \<Longrightarrow>
     link_ends kept = link_ends (concat (map (keeps nsp (map fst bs)) cs)) \<and>
     new = concat (map (joins nsp (map fst bs)) cs) \<and>
     bs' = map (\<lambda>(b, used). (b, used \<or> list_ex (\<lambda>c. uses nsp c b) cs)) bs"
proof (induction nsp args cs bs h arbitrary: kept new bs' h' rule: absorb_children.induct)
  case (3 nsp args src dst cs bs h)
  obtain k1 n1 bs1 h1 where 1: "absorb_link nsp src dst bs h = (k1, n1, bs1, h1)" by (metis prod_cases4)
  obtain k2 n2 bs2 h2 where 2: "absorb_children nsp args cs bs1 h1 = (k2, n2, bs2, h2)" by (metis prod_cases4)
  note l = absorb_link_spec[OF 1]
  have f: "map fst bs1 = map fst bs" unfolding l(3) by (simp add: case_prod_beta)
  have "link_ends k2 = link_ends (concat (map (keeps nsp (map fst bs)) cs)) \<and> n2 = concat (map (joins nsp (map fst bs)) cs) \<and>
     bs2 = map (\<lambda>(b, used). (b, used \<or> list_ex (\<lambda>c. uses nsp c b) cs)) bs1"
    using 3(1)[OF 1[symmetric] refl refl refl 2] f by simp
  moreover have "kept = k1 @ k2" "new = n1 @ n2" "bs' = bs2" using 3(2) 1 2 by simp_all
  ultimately show ?case using l by (auto simp: case_prod_beta simp del: keeps.simps joins.simps uses.simps)
qed (clarsimp split: prod.splits simp del: joins.simps(1) keeps.simps(1) uses.simps(1))+

lemma match_in_target: "match_in nsp p q \<longleftrightarrow> wire_target q = Some (Actor nsp p)"
  by (cases q) auto

lemma match_out_source: "match_out nsp p q \<longleftrightarrow> wire_source q = Some (Actor nsp p)"
  by (cases q) auto

lemma plain_links:
  "list_all plain_link ns \<Longrightarrow> Link src dst \<in> set ns \<Longrightarrow> \<exists>s t. wire_source src = Some s \<and> wire_target dst = Some t \<and> (s, t) \<in> link_ends ns"
  by (fastforce simp: list_all_iff link_ends_def)

lemma link_endsE:
  assumes "(s, t) \<in> link_ends ns"
  obtains src dst where "Link src dst \<in> set ns" "wire_source src = Some s" "wire_target dst = Some t"
  using assms by (auto simp: link_ends_def)

lemma link_ends_concat: "link_ends (concat xss) = (\<Union>xs\<in>set xss. link_ends xs)"
  by (induction xss) auto

lemma joined_in_set:
  "Link l0 l3' \<in> set (joined_in nsp l2 l3 bs) \<longleftrightarrow> l3' = l3 \<and> (\<exists>l1. Link l0 l1 \<in> set bs \<and> wire_target l1 = Some (Actor nsp (port_name l2)))"
  by (auto simp: joined_in_def match_in_target split: node.splits if_splits)

lemma joined_out_set:
  "Link l0' l3 \<in> set (joined_out nsp l0 l1 bs) \<longleftrightarrow> l0' = l0 \<and> (\<exists>l2. Link l2 l3 \<in> set bs \<and> wire_source l2 = Some (Actor nsp (port_name l1)))"
  by (auto simp: joined_out_def match_out_source split: node.splits if_splits)

lemma joined_in_ends:
  "link_ends (joined_in nsp (InternalOutPort p k) l3 bs) = {(s, t). (s, Actor nsp p) \<in> link_ends bs \<and> wire_target l3 = Some t}"
  by (auto simp: link_ends_def joined_in_set)

lemma joined_out_ends:
  "link_ends (joined_out nsp l0 (InternalInPort p k) bs) = {(s, t). (Actor nsp p, t) \<in> link_ends bs \<and> wire_source l0 = Some s}"
  by (auto simp: link_ends_def joined_out_set)

lemma promote_ends:
  "wire_source (promote_port nsp q) = map_option (\<lambda>e. case e of Actor a p \<Rightarrow> qualify_end nsp (a, p) | Hull p \<Rightarrow> Hull p) (wire_source q)"
  "wire_target (promote_port nsp q) = map_option (\<lambda>e. case e of Actor a p \<Rightarrow> qualify_end nsp (a, p) | Hull p \<Rightarrow> Hull p) (wire_target q)"
  by (cases q; simp add: qualify_end_def)+

lemma joined_only_links: "b \<in> set (joined_in nsp l2 l3 bs) \<union> set (joined_out nsp l0 l1 bs) \<Longrightarrow> \<exists>s t. b = Link s t"
  by (auto simp: joined_in_def joined_out_def split: node.splits if_splits)

lemma joined_in_nil: "joined_in nsp (InternalOutPort p k) l3 bs = [] \<longleftrightarrow> (\<forall>b\<in>set bs. \<not> uses_in nsp p b)"
  by (auto simp: joined_in_def uses_in_def split: node.splits)

lemma joined_out_nil: "joined_out nsp l0 (InternalInPort p k) bs = [] \<longleftrightarrow> (\<forall>b\<in>set bs. \<not> uses_out nsp p b)"
  by (auto simp: joined_out_def uses_out_def split: node.splits)

lemma uses_in_iff: "uses_in nsp p b \<longleftrightarrow> (\<exists>src dst. b = Link src dst \<and> wire_target dst = Some (Actor nsp p))"
  by (auto simp: uses_in_def match_in_target split: node.splits)

lemma uses_out_iff: "uses_out nsp p b \<longleftrightarrow> (\<exists>src dst. b = Link src dst \<and> wire_source src = Some (Actor nsp p))"
  by (auto simp: uses_out_def match_out_source split: node.splits)

lemma plain_uses:
  assumes "list_all plain_link bs"
  shows "(\<exists>b\<in>set bs. uses_in nsp p b) \<longleftrightarrow> (\<exists>s. (s, Actor nsp p) \<in> link_ends bs)"
    "(\<exists>b\<in>set bs. uses_out nsp p b) \<longleftrightarrow> (\<exists>t. (Actor nsp p, t) \<in> link_ends bs)"
  using assms by (fastforce simp: uses_in_iff uses_out_iff link_ends_def list_all_iff)+

lemma joins_ends:
  "link_ends (joins nsp bs (Link src dst)) =
     {(s, t). (\<exists>p. wire_source src = Some (Hull p) \<and> (s, Actor nsp p) \<in> link_ends bs \<and> wire_target (promote_port nsp dst) = Some t) \<or>
              (\<exists>p. wire_target dst = Some (Hull p) \<and> (Actor nsp p, t) \<in> link_ends bs \<and> wire_source (promote_port nsp src) = Some s)}"
  by (cases src; cases dst) (auto simp: joined_in_ends joined_out_ends)

lemma joins_nil:
  assumes "list_all plain_link bs"
  shows "joins nsp bs (Link src dst) = [] \<longleftrightarrow>
     (\<forall>p. wire_source src = Some (Hull p) \<longrightarrow> (\<forall>s. (s, Actor nsp p) \<notin> link_ends bs)) \<and>
     (\<forall>p. wire_target dst = Some (Hull p) \<longrightarrow> (\<forall>t. (Actor nsp p, t) \<notin> link_ends bs))"
proof -
  have "(\<forall>b\<in>set bs. \<not> uses_in nsp p b) \<longleftrightarrow> (\<forall>s. (s, Actor nsp p) \<notin> link_ends bs)"
    "(\<forall>b\<in>set bs. \<not> uses_out nsp p b) \<longleftrightarrow> (\<forall>t. (Actor nsp p, t) \<notin> link_ends bs)" for p
    using plain_uses[OF assms] by blast+
  then show ?thesis by (cases src; cases dst) (simp_all add: joined_in_nil joined_out_nil)
qed

lemma keeps_ends:
  assumes "list_all plain_link bs" "fits nsp W (link_ends bs)" "wire_source src = Some s0" "wire_target dst = Some t0" "(s0, t0) \<in> W"
  shows "link_ends (keeps nsp bs (Link src dst)) =
     {(qualify_end nsp (a, p), qualify_end nsp (b, q)) |a p b q. s0 = Actor a p \<and> t0 = Actor b q}"
proof (cases "joins nsp bs (Link src dst) = []")
  case True
  then have "\<forall>p s. s0 = Hull p \<longrightarrow> (s, Actor nsp p) \<notin> link_ends bs" "\<forall>p t. t0 = Hull p \<longrightarrow> (Actor nsp p, t) \<notin> link_ends bs"
    unfolding joins_nil[OF assms(1)] using assms(3,4) by auto
  moreover have "\<forall>p. s0 = Hull p \<longrightarrow> (\<exists>s. (s, Actor nsp p) \<in> link_ends bs)" "\<forall>p. t0 = Hull p \<longrightarrow> (\<exists>t. (Actor nsp p, t) \<in> link_ends bs)"
    using assms(2,5) unfolding fits_def by blast+
  ultimately have "\<And>p. s0 \<noteq> Hull p" "\<And>p. t0 \<noteq> Hull p" by blast+
  then obtain a p b q where "s0 = Actor a p" "t0 = Actor b q" by (cases s0; cases t0) auto
  then show ?thesis using True assms(3,4) by (auto simp: link_ends_def promote_ends)
next
  case False
  then have "(\<exists>p. s0 = Hull p) \<or> (\<exists>p. t0 = Hull p)"
    unfolding joins_nil[OF assms(1)] using assms(3,4) by auto
  then show ?thesis using False by (auto simp: link_ends_def)
qed

lemma absorb_spec:
  assumes "absorb nsp args cs bs h = (bs', h')"
  shows "link_ends bs' = link_ends (filter (\<lambda>b. \<not> list_ex (\<lambda>c. uses nsp c b) cs) bs) \<union>
      link_ends (concat (map (keeps nsp bs) cs)) \<union> link_ends (concat (map (joins nsp bs) cs))"
proof -
  obtain kept new bs1 h1 where 1: "absorb_children nsp args cs (map (\<lambda>b. (b, False)) bs) h = (kept, new, bs1, h1)"
    by (metis prod_cases4)
  have "map fst (map (\<lambda>b. (b, False)) bs) = bs" by (induction bs) auto
  with absorb_children_spec[OF 1] have s: "link_ends kept = link_ends (concat (map (keeps nsp bs) cs))"
    "new = concat (map (joins nsp bs) cs)" "bs1 = map (\<lambda>(b, used). (b, used \<or> list_ex (\<lambda>c. uses nsp c b) cs)) (map (\<lambda>b. (b, False)) bs)"
    by simp_all
  have "map fst (filter (Not \<circ> snd) bs1) = filter (\<lambda>b. \<not> list_ex (\<lambda>c. uses nsp c b) cs) bs"
    unfolding s(3) by (induction bs) auto
  then show ?thesis using assms s(1,2) by (auto simp: absorb_def 1)
qed

lemma hull_source: "wire_source q = Some (Hull p) \<longleftrightarrow> (\<exists>k. q = InternalOutPort p k)"
  by (cases q) auto

lemma hull_target: "wire_target q = Some (Hull p) \<longleftrightarrow> (\<exists>k. q = InternalInPort p k)"
  by (cases q) auto

lemma uses_link:
  "uses nsp (Link s d) (Link src dst) \<longleftrightarrow>
     (\<exists>p. wire_source s = Some (Hull p) \<and> wire_target dst = Some (Actor nsp p)) \<or>
     (\<exists>p. wire_target d = Some (Hull p) \<and> wire_source src = Some (Actor nsp p))"
  by (auto simp: uses_in_iff uses_out_iff hull_source hull_target)

lemma uses_only_links: "uses nsp c b \<Longrightarrow> \<exists>s d. c = Link s d"
  by (cases c) auto

lemma uses_any:
  assumes "list_all plain_link cs"
  shows "list_ex (\<lambda>c. uses nsp c (Link src dst)) cs \<longleftrightarrow>
      (\<exists>p t. wire_target dst = Some (Actor nsp p) \<and> (Hull p, t) \<in> link_ends cs) \<or>
      (\<exists>p s. wire_source src = Some (Actor nsp p) \<and> (s, Hull p) \<in> link_ends cs)" (is "?l \<longleftrightarrow> ?r")
proof
  assume ?l
  then obtain s d where c: "Link s d \<in> set cs" "uses nsp (Link s d) (Link src dst)"
    by (metis list_ex_iff uses_only_links)
  with plain_links[OF assms c(1)] c(2)[unfolded uses_link] show ?r by auto
next
  assume ?r
  then obtain s d where "Link s d \<in> set cs" "uses nsp (Link s d) (Link src dst)"
    by (auto simp: link_ends_def simp del: uses.simps) (use uses_link in blast)+
  then show ?l by (metis list_ex_iff)
qed

lemma keeps_link:
  assumes "w \<in> link_ends (keeps nsp bs c)"
  obtains src dst where "c = Link src dst"
  using assms by (cases c) auto

lemma joins_link:
  assumes "w \<in> link_ends (joins nsp bs c)"
  obtains src dst where "c = Link src dst"
  using assms by (cases c) auto

text \<open>The links of the block around when an inner block that fits has gone.\<close>

definition absorbed :: "string \<Rightarrow> wires \<Rightarrow> wires \<Rightarrow> wires" where
  "absorbed nsp W L =
     {(s, t). (s, t) \<in> L \<and> (\<forall>p. s \<noteq> Actor nsp p) \<and> (\<forall>p. t \<noteq> Actor nsp p)} \<union>
     qualify_wires nsp W \<union>
     {(s, qualify_end nsp (b, q)) |s p b q. (s, Actor nsp p) \<in> L \<and> (Hull p, Actor b q) \<in> W} \<union>
     {(qualify_end nsp (a, p), t) |a p q t. (Actor a p, Hull q) \<in> W \<and> (Actor nsp q, t) \<in> L}"

lemma absorb_ends:
  assumes "absorb nsp args cs bs h = (bs', h')" "list_all plain_link cs" "list_all plain_link bs"
    and "fits nsp (link_ends cs) (link_ends bs)"
  shows "link_ends bs' = absorbed nsp (link_ends cs) (link_ends bs)"
proof -
  let ?W = "link_ends cs" and ?L = "link_ends bs"
  have plain: "\<exists>s t. wire_source src = Some s \<and> wire_target dst = Some t \<and> (s, t) \<in> ?W" if "Link src dst \<in> set cs" for src dst
    using plain_links[OF assms(2) that] .
  have used: "list_ex (\<lambda>c. uses nsp c (Link src dst)) cs \<longleftrightarrow> (\<exists>p. t = Actor nsp p) \<or> (\<exists>p. s = Actor nsp p)"
    if "Link src dst \<in> set bs" "wire_source src = Some s" "wire_target dst = Some t" for src dst s t
  proof -
    have "(s, t) \<in> ?L" using that by (auto simp: link_ends_def)
    then have "(\<exists>p t'. t = Actor nsp p \<and> (Hull p, t') \<in> ?W) \<longleftrightarrow> (\<exists>p. t = Actor nsp p)"
      "(\<exists>p s'. s = Actor nsp p \<and> (s', Hull p) \<in> ?W) \<longleftrightarrow> (\<exists>p. s = Actor nsp p)"
      using assms(4) unfolding fits_def by blast+
    then show ?thesis unfolding uses_any[OF assms(2)] that by simp
  qed
  have "(s, t) \<in> link_ends (filter (\<lambda>b. \<not> list_ex (\<lambda>c. uses nsp c b) cs) bs) \<longleftrightarrow>
      (s, t) \<in> ?L \<and> (\<forall>p. s \<noteq> Actor nsp p) \<and> (\<forall>p. t \<noteq> Actor nsp p)" for s t
  proof -
    have "(s, t) \<in> link_ends (filter (\<lambda>b. \<not> list_ex (\<lambda>c. uses nsp c b) cs) bs) \<longleftrightarrow>
        (\<exists>src dst. Link src dst \<in> set bs \<and> wire_source src = Some s \<and> wire_target dst = Some t \<and>
          \<not> list_ex (\<lambda>c. uses nsp c (Link src dst)) cs)" by (auto simp: link_ends_def)
    also have "\<dots> \<longleftrightarrow> (s, t) \<in> ?L \<and> (\<forall>p. s \<noteq> Actor nsp p) \<and> (\<forall>p. t \<noteq> Actor nsp p)"
      using used[of _ _ s t] by (auto simp: link_ends_def) blast
    finally show ?thesis .
  qed
  then have "link_ends (filter (\<lambda>b. \<not> list_ex (\<lambda>c. uses nsp c b) cs) bs) =
      {(s, t). (s, t) \<in> ?L \<and> (\<forall>p. s \<noteq> Actor nsp p) \<and> (\<forall>p. t \<noteq> Actor nsp p)}" by auto
  moreover have "link_ends (concat (map (keeps nsp bs) cs)) = qualify_wires nsp ?W" (is "?K = ?R")
  proof
    show "?K \<subseteq> ?R"
    proof
      fix w assume "w \<in> ?K"
      then obtain c where c: "c \<in> set cs" "w \<in> link_ends (keeps nsp bs c)" unfolding link_ends_concat by (auto simp del: keeps.simps)
      obtain src dst where "c = Link src dst" using c(2) by (rule keeps_link)
      with c have k: "Link src dst \<in> set cs" "w \<in> link_ends (keeps nsp bs (Link src dst))" by simp_all
      with plain[OF k(1)] keeps_ends[OF assms(3,4)] show "w \<in> ?R" unfolding qualify_wires_def by blast
    qed
    show "?R \<subseteq> ?K"
      unfolding qualify_wires_def
    proof clarify
      fix a p b q assume w: "(Actor a p, Actor b q) \<in> ?W"
      then obtain src dst where k: "Link src dst \<in> set cs" "wire_source src = Some (Actor a p)" "wire_target dst = Some (Actor b q)"
        by (rule link_endsE)
      have "(qualify_end nsp (a, p), qualify_end nsp (b, q)) \<in> link_ends (keeps nsp bs (Link src dst))"
        using keeps_ends[OF assms(3,4) k(2,3) w] by blast
      with k(1) show "(qualify_end nsp (a, p), qualify_end nsp (b, q)) \<in> ?K" unfolding link_ends_concat by force
    qed
  qed
  moreover have "link_ends (concat (map (joins nsp bs) cs)) =
      {(s, qualify_end nsp (b, q)) |s p b q. (s, Actor nsp p) \<in> ?L \<and> (Hull p, Actor b q) \<in> ?W} \<union>
      {(qualify_end nsp (a, p), t) |a p q t. (Actor a p, Hull q) \<in> ?W \<and> (Actor nsp q, t) \<in> ?L}" (is "?J = ?A \<union> ?B")
  proof
    have hull: "(Hull p, Hull q) \<notin> ?W" for p q using assms(4) by (auto simp: fits_def)
    show "?J \<subseteq> ?A \<union> ?B"
    proof
      fix w assume "w \<in> ?J"
      then obtain c where c: "c \<in> set cs" "w \<in> link_ends (joins nsp bs c)" unfolding link_ends_concat by (auto simp del: joins.simps)
      obtain src dst where "c = Link src dst" using c(2) by (rule joins_link)
      with c have k: "Link src dst \<in> set cs" "w \<in> link_ends (joins nsp bs (Link src dst))" by simp_all
      from plain[OF k(1)] obtain s t where st: "wire_source src = Some s" "wire_target dst = Some t" "(s, t) \<in> ?W" by blast
      with k(2) hull show "w \<in> ?A \<union> ?B" unfolding joins_ends by (cases s; cases t) (auto simp: promote_ends)
    qed
    have j: "w \<in> link_ends (joins nsp bs (Link src dst)) \<Longrightarrow> Link src dst \<in> set cs \<Longrightarrow> w \<in> ?J" for w src dst
      unfolding link_ends_concat by force
    show "?A \<union> ?B \<subseteq> ?J"
    proof (clarify, elim UnE)
      fix s t assume "(s, t) \<in> ?A"
      then obtain p b q where w: "t = qualify_end nsp (b, q)" "(s, Actor nsp p) \<in> ?L" "(Hull p, Actor b q) \<in> ?W" by blast
      from w(3) obtain src dst where k: "Link src dst \<in> set cs" "wire_source src = Some (Hull p)" "wire_target dst = Some (Actor b q)"
        by (rule link_endsE)
      show "(s, t) \<in> ?J" by (rule j[OF _ k(1)]) (use k w in \<open>auto simp: joins_ends promote_ends simp del: joins.simps\<close>)
    next
      fix s t assume "(s, t) \<in> ?B"
      then obtain a p q where w: "s = qualify_end nsp (a, p)" "(Actor a p, Hull q) \<in> ?W" "(Actor nsp q, t) \<in> ?L" by blast
      from w(2) obtain src dst where k: "Link src dst \<in> set cs" "wire_source src = Some (Actor a p)" "wire_target dst = Some (Hull q)"
        by (rule link_endsE)
      show "(s, t) \<in> ?J" by (rule j[OF _ k(1)]) (use k w in \<open>auto simp: joins_ends promote_ends simp del: joins.simps\<close>)
    qed
  qed
  ultimately show ?thesis unfolding absorb_spec[OF assms(1)] absorbed_def by (simp add: Un_assoc)
qed

section \<open>Flattening keeps the wiring\<close>

lemma lift_union: "lift bw (A \<union> B) = lift bw A \<union> lift bw B"
  by (simp add: lift_def)

lemma qualify_colon: "qualify nsp a = nsp \<or> CHR '':'' \<in> set (qualify nsp a)"
  by (simp add: qualify_def)

lemma sources_qualified:
  assumes "nsp \<notin> fst ` set bw" "\<forall>n\<in>fst ` set bw. CHR '':'' \<notin> set n"
  shows "sources bw (qualify_end nsp x) = {qualify_end nsp x}" "targets bw (qualify_end nsp x) = {qualify_end nsp x}"
proof -
  have "map_of bw (qualify nsp (fst x)) = None"
    using assms qualify_colon[of nsp "fst x"] by (metis map_of_eq_None_iff)
  then show "sources bw (qualify_end nsp x) = {qualify_end nsp x}" "targets bw (qualify_end nsp x) = {qualify_end nsp x}"
    by (simp_all add: sources_def targets_def qualify_end_def)
qed

lemma sources_Cons:
  "sources ((nsp, W) # bw) (Actor nsp p) = {qualify_end nsp (b, q) |b q. (Actor b q, Hull p) \<in> W}"
  "targets ((nsp, W) # bw) (Actor nsp p) = {qualify_end nsp (b, q) |b q. (Hull p, Actor b q) \<in> W}"
  "(\<forall>p. s \<noteq> Actor nsp p) \<Longrightarrow> sources ((nsp, W) # bw) s = sources bw s"
  "(\<forall>p. s \<noteq> Actor nsp p) \<Longrightarrow> targets ((nsp, W) # bw) s = targets bw s"
  by (auto simp: sources_def targets_def split: wire_end.splits)

lemma resolve_absorbed:
  assumes "nsp \<notin> fst ` set bw" "\<forall>n\<in>fst ` set bw. CHR '':'' \<notin> set n" "fits nsp W L"
  shows "resolve ((nsp, W) # bw) L = resolve bw (absorbed nsp W L)"
proof -
  note q = sources_qualified[OF assms(1,2)]
  let ?L1 = "{(s, t). (s, t) \<in> L \<and> (\<forall>p. s \<noteq> Actor nsp p) \<and> (\<forall>p. t \<noteq> Actor nsp p)}"
  let ?L2 = "{(s, t). (s, t) \<in> L \<and> (\<exists>p. t = Actor nsp p)}" and ?L3 = "{(s, t). (s, t) \<in> L \<and> (\<exists>p. s = Actor nsp p)}"
  have nofeed: "(Actor nsp p, Actor nsp q) \<notin> L" for p q using assms(3) by (simp add: fits_def)
  have L: "L = ?L1 \<union> ?L2 \<union> ?L3" by auto
  have 1: "lift ((nsp, W) # bw) ?L1 = lift bw ?L1"
    unfolding lift_def by (intro SUP_cong) (auto simp: sources_Cons)
  have 2: "lift ((nsp, W) # bw) ?L2 = lift bw {(s, qualify_end nsp (b, q)) |s p b q. (s, Actor nsp p) \<in> L \<and> (Hull p, Actor b q) \<in> W}"
    (is "_ = lift bw ?A")
  proof -
    have s: "sources ((nsp, W) # bw) s = sources bw s" if "(s, Actor nsp p) \<in> L" for s p
      using nofeed that by (intro sources_Cons(3)) auto
    show ?thesis
    proof
      show "lift ((nsp, W) # bw) ?L2 \<subseteq> lift bw ?A"
        using s by (fastforce simp: lift_def sources_Cons q)
      show "lift bw ?A \<subseteq> lift ((nsp, W) # bw) ?L2"
        using s by (fastforce simp: lift_def sources_Cons q)
    qed
  qed
  have 3: "lift ((nsp, W) # bw) ?L3 = lift bw {(qualify_end nsp (a, p), t) |a p q t. (Actor a p, Hull q) \<in> W \<and> (Actor nsp q, t) \<in> L}"
    (is "_ = lift bw ?B")
  proof -
    have s: "targets ((nsp, W) # bw) t = targets bw t" if "(Actor nsp p, t) \<in> L" for t p
      using nofeed that by (intro sources_Cons(4)) auto
    show ?thesis
    proof
      show "lift ((nsp, W) # bw) ?L3 \<subseteq> lift bw ?B"
        using s by (fastforce simp: lift_def sources_Cons q)
      show "lift bw ?B \<subseteq> lift ((nsp, W) # bw) ?L3"
        using s by (fastforce simp: lift_def sources_Cons q)
    qed
  qed
  have 4: "lift bw (qualify_wires nsp W) = qualify_wires nsp W"
    by (fastforce simp: lift_def q qualify_wires_def)
  have "lift ((nsp, W) # bw) L = lift ((nsp, W) # bw) (?L1 \<union> ?L2 \<union> ?L3)" using L by (rule arg_cong)
  also have "\<dots> = lift bw ?L1 \<union> lift bw ?A \<union> lift bw ?B" by (simp only: lift_union 1 2 3)
  finally have l: "lift ((nsp, W) # bw) L = lift bw ?L1 \<union> lift bw ?A \<union> lift bw ?B" .
  have "lift bw (absorbed nsp W L) = lift bw ?L1 \<union> qualify_wires nsp W \<union> lift bw ?A \<union> lift bw ?B"
    unfolding absorbed_def by (simp only: lift_union 4)
  then show ?thesis unfolding resolve_def l by auto
qed

lemma absorb_plain:
  assumes "absorb nsp args cs bs h = (bs', h')" "list_all plain_link cs" "list_all plain_link bs"
  shows "list_all plain_link bs'"
proof -
  have join: "list_all plain_link (joins m xs (Link src dst)) \<and> list_all plain_link (keeps m xs (Link src dst))"
    if "list_all plain_link xs" "plain_link (Link src dst)" for m xs src dst
  proof -
    have "plain_link b" if "b \<in> set (joins m xs (Link src dst))" for b
    proof -
      from that obtain l0 l3 where "b = Link l0 l3" using joined_only_links by (cases src; cases dst) fastforce+
      then show ?thesis using \<open>plain_link (Link src dst)\<close> \<open>list_all plain_link xs\<close> that
        by (cases src; cases dst) (auto simp: joined_in_set joined_out_set list_all_iff)
    qed
    then show ?thesis using that(2) by (auto simp: list_all_iff promote_ends simp del: joins.simps)
  qed
  have "absorb_children nsp args cs bs1 h = (kept, new, bs2, h2) \<Longrightarrow> list_all plain_link cs \<Longrightarrow> list_all plain_link (map fst bs1) \<Longrightarrow>
     list_all plain_link kept \<and> list_all plain_link new \<and> map fst bs2 = map fst bs1" for bs1 h kept new bs2 h2
  proof (induction nsp args cs bs1 h arbitrary: kept new bs2 h2 rule: absorb_children.induct)
    case (3 nsp args src dst cs bs h)
    obtain k1 n1 bs1 h1 where 1: "absorb_link nsp src dst bs h = (k1, n1, bs1, h1)" by (metis prod_cases4)
    obtain k2 n2 bs2' h2' where 2: "absorb_children nsp args cs bs1 h1 = (k2, n2, bs2', h2')" by (metis prod_cases4)
    note l = absorb_link_spec[OF 1]
    have f: "map fst bs1 = map fst bs" unfolding l(3) by (simp add: case_prod_beta)
    have "list_all plain_link k2 \<and> list_all plain_link n2 \<and> map fst bs2' = map fst bs1"
      using 3(1)[OF 1[symmetric] refl refl refl 2] 3(3,4) f by simp
    moreover have j: "list_all plain_link (joins nsp (map fst bs) (Link src dst)) \<and> list_all plain_link (keeps nsp (map fst bs) (Link src dst))"
      by (rule join) (use 3(3,4) in simp_all)
    moreover have "list_all plain_link k1" unfolding l(1) using j by (rule conjunct2)
    moreover have "list_all plain_link n1" unfolding l(2) using j by (rule conjunct1)
    moreover have "kept = k1 @ k2" "new = n1 @ n2" "bs2 = bs2'" using 3(2) 1 2 by simp_all
    ultimately show ?case using f by (simp del: joins.simps keeps.simps)
  qed (clarsimp split: prod.splits)+
  moreover obtain kept new bs2 h2 where a: "absorb_children nsp args cs (map (\<lambda>b. (b, False)) bs) h = (kept, new, bs2, h2)"
    by (metis prod_cases4)
  moreover have "map fst (map (\<lambda>b. (b, False)) bs) = bs" by (induction bs) auto
  ultimately have k: "list_all plain_link kept \<and> list_all plain_link new \<and> map fst bs2 = bs" using assms(2,3) by metis
  then have "list_all plain_link (map fst (filter (Not \<circ> snd) bs2))"
    using assms(3) by (fastforce simp: list_all_iff)
  then show ?thesis using assms(1) k by (auto simp: absorb_def a)
qed

lemma block_wires_names: "map fst (block_wires ns) = block_names ns"
  by (induction ns rule: block_names.induct) auto

lemma hull_sources: "Hull p \<in> sources bw s \<longleftrightarrow> s = Hull p" "Hull p \<in> targets bw s \<longleftrightarrow> s = Hull p"
  by (auto simp: sources_def targets_def qualify_end_def split: wire_end.splits option.splits)

lemma no_hull_inside: "(Hull p, t) \<notin> qualify_wires nsp W" "(s, Hull p) \<notin> qualify_wires nsp W"
  by (auto simp: qualify_wires_def qualify_end_def)

lemma resolve_hull:
  "(Hull p, t) \<in> resolve bw L \<longleftrightarrow> (\<exists>t0. (Hull p, t0) \<in> L \<and> t \<in> targets bw t0)"
  "(s, Hull p) \<in> resolve bw L \<longleftrightarrow> (\<exists>s0. (s0, Hull p) \<in> L \<and> s \<in> sources bw s0)"
  by (auto simp: resolve_def lift_def no_hull_inside hull_sources split: prod.splits)

lemma fits_resolve:
  assumes "\<forall>(n, W)\<in>set bw. fits n W L0" "fits nsp L0 L"
  shows "fits nsp (resolve bw L0) L"
proof -
  have "targets bw t \<noteq> {}" if st: "(s, t) \<in> L0" for s t
  proof (cases t)
    case (Actor a p)
    show ?thesis
    proof (cases "map_of bw a")
      case (Some W)
      then have f: "fits a W L0" using assms(1) by (auto dest: map_of_SomeD)
      then obtain t' where "(Hull p, t') \<in> W" using st Actor unfolding fits_def by blast
      moreover from this f have "t' \<noteq> Hull q" for q unfolding fits_def by blast
      ultimately show ?thesis using Some Actor by (cases t') (auto simp: targets_def)
    qed (simp add: targets_def Actor)
  qed (simp add: targets_def)
  moreover have "sources bw s \<noteq> {}" if st: "(s, t) \<in> L0" for s t
  proof (cases s)
    case (Actor a p)
    show ?thesis
    proof (cases "map_of bw a")
      case (Some W)
      then have f: "fits a W L0" using assms(1) by (auto dest: map_of_SomeD)
      then obtain s' where "(s', Hull p) \<in> W" using st Actor unfolding fits_def by blast
      moreover from this f have "s' \<noteq> Hull q" for q unfolding fits_def by blast
      ultimately show ?thesis using Some Actor by (cases s') (auto simp: sources_def)
    qed (simp add: sources_def Actor)
  qed (simp add: sources_def)
  ultimately have "(\<exists>t. (Hull p, t) \<in> resolve bw L0) \<longleftrightarrow> (\<exists>t. (Hull p, t) \<in> L0)"
    "(\<exists>s. (s, Hull p) \<in> resolve bw L0) \<longleftrightarrow> (\<exists>s. (s, Hull p) \<in> L0)" for p
    unfolding resolve_hull by blast+
  moreover have "(Hull p, Hull q) \<notin> resolve bw L0" for p q
    using assms(2) unfolding resolve_hull hull_sources fits_def by blast
  ultimately show ?thesis using assms(2) unfolding fits_def by simp
qed

lemma qualify_not_name: "CHR '':'' \<notin> set n \<Longrightarrow> n \<noteq> nsp \<Longrightarrow> qualify_end nsp x \<noteq> Actor n p"
  using qualify_colon[of nsp "fst x"] by (auto simp: qualify_end_def)

lemma fits_absorbed:
  assumes "fits nsp W L" "fits n V L" "CHR '':'' \<notin> set n" "n \<noteq> nsp"
  shows "fits n V (absorbed nsp W L)"
proof -
  note q = qualify_not_name[OF assms(3,4)] qualify_not_name[OF assms(3,4), symmetric]
  have actor: "\<exists>a r. s = Actor a r" if "(s, Hull p) \<in> W" for s p using assms(1) that by (cases s) (auto simp: fits_def)
  have actor': "\<exists>a r. t = Actor a r" if "(Hull p, t) \<in> W" for t p using assms(1) that by (cases t) (auto simp: fits_def)
  have into: "(s, Actor n p) \<in> absorbed nsp W L \<Longrightarrow> (s, Actor n p) \<in> L \<and> (\<forall>r. s \<noteq> Actor nsp r) \<or> (\<exists>r. (Actor nsp r, Actor n p) \<in> L \<and> (\<exists>x. s = qualify_end nsp x))"
    for s p
    unfolding absorbed_def qualify_wires_def using q by blast
  have out: "(Actor n p, t) \<in> absorbed nsp W L \<Longrightarrow> (Actor n p, t) \<in> L \<or> (\<exists>r. (Actor n p, Actor nsp r) \<in> L)" for t p
    unfolding absorbed_def qualify_wires_def using q by blast
  have "(\<exists>s. (s, Actor n p) \<in> absorbed nsp W L) \<longleftrightarrow> (\<exists>s. (s, Actor n p) \<in> L)" for p
  proof
    show "\<exists>s. (s, Actor n p) \<in> absorbed nsp W L \<Longrightarrow> \<exists>s. (s, Actor n p) \<in> L"
      using into by blast
    assume "\<exists>s. (s, Actor n p) \<in> L"
    then obtain s where s: "(s, Actor n p) \<in> L" ..
    show "\<exists>s. (s, Actor n p) \<in> absorbed nsp W L"
    proof (cases "\<exists>r. s = Actor nsp r")
      case True
      then obtain r where r: "s = Actor nsp r" ..
      then obtain s' where "(s', Hull r) \<in> W" using s assms(1) unfolding fits_def by blast
      moreover from actor[OF this] obtain a b where "s' = Actor a b" by blast
      ultimately have "(qualify_end nsp (a, b), Actor n p) \<in> absorbed nsp W L" using s r unfolding absorbed_def by blast
      then show ?thesis ..
    next
      case False
      with s assms(4) show ?thesis by (auto simp: absorbed_def)
    qed
  qed
  moreover have "(\<exists>t. (Actor n p, t) \<in> absorbed nsp W L) \<longleftrightarrow> (\<exists>t. (Actor n p, t) \<in> L)" for p
  proof
    show "\<exists>t. (Actor n p, t) \<in> absorbed nsp W L \<Longrightarrow> \<exists>t. (Actor n p, t) \<in> L"
      using out by blast
    assume "\<exists>t. (Actor n p, t) \<in> L"
    then obtain t where t: "(Actor n p, t) \<in> L" ..
    show "\<exists>t. (Actor n p, t) \<in> absorbed nsp W L"
    proof (cases "\<exists>r. t = Actor nsp r")
      case True
      then obtain r where r: "t = Actor nsp r" ..
      then obtain t' where "(Hull r, t') \<in> W" using t assms(1) unfolding fits_def by blast
      moreover from actor'[OF this] obtain a b where "t' = Actor a b" by blast
      ultimately have "(Actor n p, qualify_end nsp (a, b)) \<in> absorbed nsp W L" using t r unfolding absorbed_def by blast
      then show ?thesis ..
    next
      case False
      with t assms(4) show ?thesis by (auto simp: absorbed_def)
    qed
  qed
  moreover have "(Actor n p, Actor n r) \<notin> absorbed nsp W L" for p r
    using assms(2) into[of "Actor n p" r] q unfolding fits_def by blast
  ultimately show ?thesis using assms(2) unfolding fits_def by simp
qed

text \<open>Soundness, with the inner blocks taken for the wirings they stand for.\<close>

fun well_blocks :: "node list \<Rightarrow> bool" where
  "well_blocks [] \<longleftrightarrow> True"
| "well_blocks (Block nsp args body # ns) \<longleftrightarrow>
     CHR '':'' \<notin> set nsp \<and> nsp \<notin> set (block_names ns) \<and> list_all plain_link body \<and> well_blocks body \<and>
     (\<forall>(n, W)\<in>set (block_wires body). fits n W (link_ends body)) \<and> well_blocks ns"
| "well_blocks (n # ns) \<longleftrightarrow> well_blocks ns"

lemma sound_well: "sound_blocks ns L \<Longrightarrow> well_blocks ns \<and> (\<forall>(n, W)\<in>set (block_wires ns). fits n W L)"
proof (induction ns L rule: sound_blocks.induct)
  case (2 nsp args body ns L)
  then show ?case using fits_resolve[of "block_wires body" "link_ends body" nsp L] by simp
qed auto

lemma well_names: "well_blocks ns \<Longrightarrow> n \<in> set (block_names ns) \<Longrightarrow> CHR '':'' \<notin> set n"
  by (induction ns rule: well_blocks.induct) auto

lemma flatten_blocks_wiring:
  assumes "flatten_blocks ns bs h = (bs', h')" "well_blocks ns" "list_all plain_link bs"
    and "\<forall>(n, W)\<in>set (block_wires ns). fits n W (link_ends bs)"
  shows "link_ends bs' = resolve (block_wires ns) (link_ends bs)" "list_all plain_link bs'"
  using assms
proof (induction ns bs h arbitrary: bs' h' rule: flatten_blocks.induct)
  case (1 bs h)
  {
    case 1
    have "sources [] s = {s}" "targets [] s = {s}" for s by (auto simp: sources_def targets_def split: wire_end.splits)
    then show ?case using 1 by (auto simp: resolve_def lift_def)
  next
    case 2
    then show ?case by simp
  }
next
  case (2 nsp args body ns bs h)
  obtain cs h1 where 1: "flatten_blocks body (filter (Not \<circ> is_block) body) h = (cs, h1)" by (cases "flatten_blocks body (filter (Not \<circ> is_block) body) h")
  obtain bs1 h2 where a: "absorb nsp args cs bs h1 = (bs1, h2)" by (cases "absorb nsp args cs bs h1")
  let ?W = "resolve (block_wires body) (link_ends body)"
  {
    fix bs' h'
    assume p: "flatten_blocks (Block nsp args body # ns) bs h = (bs', h')" "well_blocks (Block nsp args body # ns)"
      "list_all plain_link bs" "\<forall>(n, W)\<in>set (block_wires (Block nsp args body # ns)). fits n W (link_ends bs)"
    have plain: "list_all plain_link (filter (Not \<circ> is_block) body)" using p(2) by (auto simp: list_all_iff)
    have cs: "link_ends cs = ?W" "list_all plain_link cs" using 2(1,2)[OF 1] p(2) plain by simp_all
    have fit: "fits nsp ?W (link_ends bs)" using p(4) by simp
    have b1: "link_ends bs1 = absorbed nsp ?W (link_ends bs)" "list_all plain_link bs1"
      using absorb_ends[OF a cs(2) p(3)] absorb_plain[OF a cs(2) p(3)] fit cs(1) by simp_all
    have names: "n \<in> set (block_names ns)" if "(n, W) \<in> set (block_wires ns)" for n W
      using that block_wires_names[of ns] by (metis image_set in_set_zipE zip_map_fst_snd)
    have "fits n W (link_ends bs1)" if "(n, W) \<in> set (block_wires ns)" for n W
    proof -
      have "CHR '':'' \<notin> set n" "n \<noteq> nsp" using names[OF that] p(2) well_names by auto
      moreover have "fits n W (link_ends bs)" using p(4) that by auto
      ultimately show ?thesis using fits_absorbed[OF fit] unfolding b1(1) by simp
    qed
    then have all: "\<forall>(n, W)\<in>set (block_wires ns). fits n W (link_ends bs1)" by auto
    have f: "flatten_blocks ns bs1 h2 = (bs', h')" using p(1) 1 a by simp
    have w: "well_blocks ns" using p(2) by simp
    have r: "link_ends bs' = resolve (block_wires ns) (link_ends bs1)" "list_all plain_link bs'"
      using 2(3,4)[OF 1[symmetric] refl a[symmetric] refl f w b1(2) all] by simp_all
    have fst_names: "fst ` set (block_wires ns) = set (block_names ns)" using block_wires_names[of ns] by (metis set_map)
    have "resolve ((nsp, ?W) # block_wires ns) (link_ends bs) = resolve (block_wires ns) (link_ends bs1)"
      unfolding b1(1) by (rule resolve_absorbed) (use p(2) fit fst_names well_names[OF w] in auto)
    with r have "link_ends bs' = resolve (block_wires (Block nsp args body # ns)) (link_ends bs)" "list_all plain_link bs'" by simp_all
  }
  note goal = this
  {
    case 1
    from goal(1)[OF 1] show ?case .
  next
    case 2
    from goal(2)[OF 2] show ?case .
  }
qed auto

text \<open>The actors are kept as well, under their qualified names, and no block remains.\<close>

lemma instances_append [simp]: "instances (xs @ ys) = instances xs @ instances ys"
  by (induction xs rule: instances.induct) auto

lemma instances_links: "(\<forall>b\<in>set bs. \<exists>s t. b = Link s t) \<Longrightarrow> instances bs = []"
  by (induction bs) auto

lemma only_links: "(\<forall>b\<in>set bs. \<exists>s t. b = Link s t) \<Longrightarrow> list_all (Not \<circ> is_block) bs"
  by (fastforce simp: list_all_iff)

lemma absorb_children_instances:
  "absorb_children nsp args cs bs h = (kept, new, bs', h') \<Longrightarrow> list_all (Not \<circ> is_block) cs \<Longrightarrow>
     instances kept = map (\<lambda>(i, x). (nsp @ '':'' @ i, x)) (instances cs) \<and> instances new = [] \<and>
     list_all (Not \<circ> is_block) kept \<and> list_all (Not \<circ> is_block) new"
proof (induction nsp args cs bs h arbitrary: kept new bs' h' rule: absorb_children.induct)
  case (3 nsp args src dst cs bs h)
  obtain k1 n1 bs1 h1 where 1: "absorb_link nsp src dst bs h = (k1, n1, bs1, h1)" by (metis prod_cases4)
  obtain k2 n2 bs2 h2 where 2: "absorb_children nsp args cs bs1 h1 = (k2, n2, bs2, h2)" by (metis prod_cases4)
  note l = absorb_link_spec[OF 1]
  have "\<exists>s t. b = Link s t" if "b \<in> set n1" for b
    using that joined_only_links unfolding l(2) by (cases src; cases dst) fastforce+
  moreover have "\<exists>s t. b = Link s t" if "b \<in> set k1" for b
    using that unfolding l(1) by (auto simp del: joins.simps split: if_splits)
  ultimately have "instances k1 = [] \<and> list_all (Not \<circ> is_block) k1" "instances n1 = [] \<and> list_all (Not \<circ> is_block) n1"
    by (simp_all add: instances_links only_links)
  moreover have "kept = k1 @ k2" "new = n1 @ n2" "bs' = bs2" using 3(2) 1 2 by simp_all
  ultimately show ?case using 3(1)[OF 1[symmetric] refl refl refl 2] 3(3) by (simp add: o_def)
qed (clarsimp split: prod.splits)+

lemma absorb_instances:
  assumes "absorb nsp args cs bs h = (bs', h')" "list_all (Not \<circ> is_block) cs" "list_all (Not \<circ> is_block) bs"
  shows "instances bs' = instances bs @ map (\<lambda>(i, x). (nsp @ '':'' @ i, x)) (instances cs)" "list_all (Not \<circ> is_block) bs'"
proof -
  obtain kept new bs1 h1 where 1: "absorb_children nsp args cs (map (\<lambda>b. (b, False)) bs) h = (kept, new, bs1, h1)"
    by (metis prod_cases4)
  have s: "instances kept = map (\<lambda>(i, x). (nsp @ '':'' @ i, x)) (instances cs)" "instances new = []"
    "list_all (Not \<circ> is_block) kept" "list_all (Not \<circ> is_block) new"
    using absorb_children_instances[OF 1 assms(2)] by simp_all
  have b1: "bs1 = map (\<lambda>b. (b, list_ex (\<lambda>c. uses nsp c b) cs)) bs"
    using absorb_children_spec[OF 1] by simp
  have link: "\<exists>s t. b = Link s t" if "list_ex (\<lambda>c. uses nsp c b) cs" for b
  proof -
    from that obtain c where "uses nsp c b" by (auto simp: list_ex_iff)
    then show ?thesis by (cases c) (auto simp: uses_in_iff uses_out_iff)
  qed
  have filt: "instances (map fst (filter (Not \<circ> snd) (map (\<lambda>b. (b, P b)) xs))) = instances xs"
    if "\<And>b. P b \<Longrightarrow> \<exists>s t. b = Link s t" "list_all (Not \<circ> is_block) xs" for P xs
    using that(2)
  proof (induction xs)
    case (Cons x xs)
    have cons: "instances (x # ys) = instances [x] @ instances ys" for ys
      using instances_append[of "[x]" ys] by simp
    show ?case
    proof (cases "P x")
      case True
      then have "instances [x] = []" using that(1) by (intro instances_links) simp
      with True Cons cons[of xs] show ?thesis by simp
    next
      case False
      with Cons cons[of xs] cons[of "map fst (filter (Not \<circ> snd) (map (\<lambda>b. (b, P b)) xs))"] show ?thesis by (simp add: o_def)
    qed
  qed simp
  have i: "instances (map fst (filter (Not \<circ> snd) bs1)) = instances bs"
    unfolding b1 by (rule filt[of "\<lambda>b. list_ex (\<lambda>c. uses nsp c b) cs" bs, OF link assms(3)])
  have n: "list_all (Not \<circ> is_block) (map fst (filter (Not \<circ> snd) bs1))" unfolding b1 using assms(3) by (auto simp: list_all_iff)
  have b: "bs' = map fst (filter (Not \<circ> snd) bs1) @ kept @ new" using assms(1) by (simp add: absorb_def 1)
  show "instances bs' = instances bs @ map (\<lambda>(i, x). (nsp @ '':'' @ i, x)) (instances cs)" unfolding b by (simp add: i s)
  show "list_all (Not \<circ> is_block) bs'" unfolding b using n s by simp
qed

lemma instances_split: "set (instances ns) = set (instances (filter is_block ns)) \<union> set (instances (filter (Not \<circ> is_block) ns))"
  by (induction ns rule: instances.induct) auto

lemma flatten_blocks_instances:
  "flatten_blocks ns bs h = (bs', h') \<Longrightarrow> list_all (Not \<circ> is_block) bs \<Longrightarrow>
     set (instances bs') = set (instances (filter is_block ns)) \<union> set (instances bs) \<and> list_all (Not \<circ> is_block) bs'"
proof (induction ns bs h arbitrary: bs' h' rule: flatten_blocks.induct)
  case (2 nsp args body ns bs h)
  obtain cs h1 where 1: "flatten_blocks body (filter (Not \<circ> is_block) body) h = (cs, h1)" by (cases "flatten_blocks body (filter (Not \<circ> is_block) body) h")
  obtain bs1 h2 where a: "absorb nsp args cs bs h1 = (bs1, h2)" by (cases "absorb nsp args cs bs h1")
  have cs: "set (instances cs) = set (instances body)" "list_all (Not \<circ> is_block) cs"
    using 2(1)[OF 1] instances_split[of body] by (auto simp: list_all_iff)
  note i = absorb_instances[OF a cs(2) 2(4)]
  show ?case using 2(2)[OF 1[symmetric] refl a[symmetric] refl _ i(2)] 2(3) 1 a i(1) cs(1) by auto
qed auto

lemma flatten_wiring:
  assumes "sound_tree t"
  shows "link_ends (fst (flatten t h)) = wiring t"
proof -
  have w: "well_blocks t" "\<forall>(n, W)\<in>set (block_wires t). fits n W (link_ends (filter (Not \<circ> is_block) t))"
    "list_all plain_link (filter (Not \<circ> is_block) t)"
    using assms sound_well[of t "link_ends t"] by (auto simp: sound_tree_def list_all_iff)
  show ?thesis
    using flatten_blocks_wiring(1)[of t "filter (Not \<circ> is_block) t" h, OF _ w(1,3,2)]
    by (cases "flatten_blocks t (filter (Not \<circ> is_block) t) h") (simp add: flatten_def wiring_def)
qed

lemma flatten_instances: "set (instances (fst (flatten t h))) = set (instances t)" "list_all (Not \<circ> is_block) (fst (flatten t h))"
proof -
  obtain bs' h' where "flatten_blocks t (filter (Not \<circ> is_block) t) h = (bs', h')" by (cases "flatten_blocks t (filter (Not \<circ> is_block) t) h")
  with flatten_blocks_instances[OF this] instances_split[of t]
  show "set (instances (fst (flatten t h))) = set (instances t)" "list_all (Not \<circ> is_block) (fst (flatten t h))"
    by (auto simp: flatten_def list_all_iff)
qed

lemma link_ends_link:
  "link_ends (Link src dst # ns) =
     (case wire_source src of None \<Rightarrow> {} | Some s \<Rightarrow> (case wire_target dst of None \<Rightarrow> {} | Some t \<Rightarrow> {(s, t)})) \<union> link_ends ns"
  by (auto simp: link_ends_def split: option.splits)

end
