(* ===== verification/Codegen_Emit.thy ===== *)
theory Codegen_Emit
  imports Codegen_Flatten
begin

text \<open>
  The end of the code generator: the properties of each port of the flattened script are brought together, merged and checked
  (csparser/port_property_syntax.py), and the deployable description of the application is made.  Signatures of actors,
  which are hash values, are a parameter.  Dictionaries keep the order in which keys were inserted.
\<close>

section \<open>Coalescing\<close>

text \<open>Per port: the arguments of its properties and the number of its links.\<close>

type_synonym port_key = "string \<times> string \<times> string"
type_synonym coalesced = "(port_key, named_arg list \<times> nat) dict"

definition count_link :: "port_key \<Rightarrow> coalesced \<Rightarrow> coalesced" where
  "count_link key d = (let (as, n) = opt_default ([], 0) (dget d key) in dput key (as, Suc n) d)"

definition coalesce_port :: "port_key \<Rightarrow> nat \<Rightarrow> coalesced \<times> heap \<Rightarrow> coalesced \<times> heap" where
  "coalesce_port key k s =
     (let (d, h) = s; (as, n) = opt_default ([], 0) (dget d key)
      in if hp_kids h k = [] then (d, h) else (dput key (as @ concat (map pp_args (hp_kids h k)), n) d, clear_kids k h))"

definition in_key :: "cs_port \<Rightarrow> port_key" where
  "in_key q = (port_actor q, port_name q, ''in'')"

definition out_key :: "cs_port \<Rightarrow> port_key" where
  "out_key q = (port_actor q, port_name q, ''out'')"

fun coalesce_links :: "node list \<Rightarrow> coalesced \<times> heap \<Rightarrow> coalesced \<times> heap" where
  "coalesce_links [] s = s"
| "coalesce_links (Link src dst # ns) (d, h) =
     coalesce_links ns
       (coalesce_port (in_key dst) (port_kids dst)
         (coalesce_port (out_key src) (port_kids src) (count_link (out_key src) (count_link (in_key dst) d), h)))"
| "coalesce_links (_ # ns) s = coalesce_links ns s"

fun coalesced_nodes :: "coalesced \<Rightarrow> heap \<Rightarrow> node list \<times> heap" where
  "coalesced_nodes [] h = ([], h)"
| "coalesced_nodes (((a, p, dir), as, n) # d) h =
     (let (v, h1) = new_value (PInt (int n)) h; (ns, h2) = coalesced_nodes d h1
      in (Property (PortProperty (Some a) p (Some dir) (as @ [(''nbr_peers'', v)])) # ns, h2))"

definition coalesce_properties :: "tree \<Rightarrow> heap \<Rightarrow> tree \<times> heap" where
  "coalesce_properties t h = (let (d, h1) = coalesce_links t ([], h); (ps, h2) = coalesced_nodes d h1 in (t @ ps, h2))"

section \<open>Merging\<close>

fun arg_value :: "heap \<Rightarrow> arg \<Rightarrow> (nat \<times> pyval) res" where
  "arg_value h (Val a) = Inr (a, hp_vals h a)"
| "arg_value h (Ident i) = Inl (AttributeError ''value'')"

fun value_list :: "pyval \<Rightarrow> pyval list" where
  "value_list (PList vs) = vs"
| "value_list v = [v]"

fun is_scalar :: "pyval \<Rightarrow> bool" where
  "is_scalar (PList vs) \<longleftrightarrow> False"
| "is_scalar v \<longleftrightarrow> True"

text \<open>The value of the left argument is changed in place; \<open>n\<close> is the number of arguments that are merged.\<close>

definition merge_two :: "nat \<Rightarrow> arg \<Rightarrow> arg \<Rightarrow> heap \<Rightarrow> (issue list, heap) out" where
  "merge_two n left right h =
     (case arg_value h left of
        Inl e \<Rightarrow> (Inl e, h)
      | Inr (a, lval) \<Rightarrow>
          (case arg_value h right of
             Inl e \<Rightarrow> (Inl e, h)
           | Inr (b, rval) \<Rightarrow>
               if lval = rval \<or> is_scalar lval \<and> is_scalar rval then (Inr [], h)
               else (let merged = filter (\<lambda>v. v \<in> set (value_list rval)) (value_list lval)
                     in (Inr (if merged = [] then replicate n (Error ''Can't handle conflicting properties without common alternatives'') else []),
                         set_value a (PList merged) h))))"

fun merge_all :: "nat \<Rightarrow> arg \<Rightarrow> arg list \<Rightarrow> heap \<Rightarrow> (issue list, heap) out" where
  "merge_all n left [] h = (Inr [], h)"
| "merge_all n left (r # rs) h =
     and_then (merge_two n left r h) (\<lambda>iss h1. and_then (merge_all n left rs h1) (\<lambda>iss1 h2. (Inr (iss @ iss1), h2)))"

text \<open>The names of the arguments, in order; those with several arguments move to the end.\<close>

fun merge_names :: "string list \<Rightarrow> named_arg list \<Rightarrow> heap \<Rightarrow> (named_arg list \<times> issue list, heap) out" where
  "merge_names [] as h = (Inr (as, []), h)"
| "merge_names (x # xs) as h =
     (case map snd (filter (\<lambda>a. fst a = x) as) of
        left # r # rs \<Rightarrow>
          and_then (merge_all (Suc (Suc (length rs))) left (r # rs) h) (\<lambda>iss h1.
            and_then (merge_names xs (filter (\<lambda>a. fst a \<noteq> x) as @ [(x, left)]) h1) (\<lambda>(as', iss1) h2. (Inr (as', iss @ iss1), h2)))
      | _ \<Rightarrow> merge_names xs as h)"

fun merge_properties :: "tree \<Rightarrow> heap \<Rightarrow> (tree \<times> issue list, heap) out" where
  "merge_properties [] h = (Inr ([], []), h)"
| "merge_properties (Property p # ns) h =
     and_then (merge_names (remdups (map fst (pp_args p))) (pp_args p) h) (\<lambda>(as, iss) h1.
       and_then (merge_properties ns h1) (\<lambda>(ns', iss1) h2.
         (Inr (Property (PortProperty (pp_actor p) (pp_port p) (pp_direction p) as) # ns', iss @ iss1), h2)))"
| "merge_properties (n # ns) h = and_then (merge_properties ns h) (\<lambda>(ns', iss) h1. (Inr (n # ns', iss), h1))"

section \<open>Checking\<close>

text \<open>The table of port properties: for a category its values with direction and \<open>multipeer\<close>.\<close>

datatype property_type = NameType | CategoryType "(string \<times> string \<times> bool) list" | ScalarType | StringType

definition port_property_data :: "(string \<times> property_type) list" where
  "port_property_data =
     [(''name'', NameType),
      (''routing'', CategoryType
         [(''default'', ''out'', False), (''fanout'', ''out'', False), (''round-robin'', ''out'', False), (''random'', ''out'', False),
          (''balanced'', ''out'', False), (''dispatch-ordered'', ''out'', True), (''dispatch-mapped'', ''out'', True),
          (''collect-unordered'', ''in'', True), (''collect-tagged'', ''in'', True), (''collect-all-tagged'', ''in'', True),
          (''collect-any-tagged'', ''in'', True)]),
      (''queue_length'', ScalarType),
      (''nbr_peers'', ScalarType),
      (''tag'', StringType),
      (''test1'', CategoryType (map (\<lambda>v. (v, ''inout'', False))
         [''dummy'', ''dummy1'', ''dummy2'', ''dummyx'', ''dummyy'', ''dummyz'', ''dummyi''])),
      (''test2'', CategoryType (map (\<lambda>v. (v, ''inout'', False))
         [''dummy'', ''dummy1'', ''dummy2'', ''dummyx'', ''dummyy'', ''dummyz'', ''dummyi'']))]"

definition allows :: "string \<Rightarrow> string option \<Rightarrow> bool" where
  "allows allowed dir \<longleftrightarrow> allowed = ''inout'' \<or> dir = Some allowed"

text \<open>Lists and dictionaries are no keys of a dictionary.\<close>

fun no_key :: "pyval \<Rightarrow> bool" where
  "no_key (PList vs) \<longleftrightarrow> True"
| "no_key (PDict d) \<longleftrightarrow> True"
| "no_key v \<longleftrightarrow> False"

fun category_entry :: "(string \<times> string \<times> bool) list \<Rightarrow> pyval \<Rightarrow> (string \<times> bool) option" where
  "category_entry vs (PStr s) = map_of vs s"
| "category_entry vs v = None"

definition routing_values :: "(string \<times> string \<times> bool) list" where
  "routing_values = (case map_of port_property_data ''routing'' of Some (CategoryType vs) \<Rightarrow> vs | _ \<Rightarrow> [])"

fun separate :: "'a \<Rightarrow> 'a list \<Rightarrow> 'a list" where
  "separate sep (x # y # ys) = x # sep # separate sep (y # ys)"
| "separate sep xs = xs"

text \<open>
  A port with several links needs a routing for that.  The query for the name finds the first argument called
  \<open>routing\<close>, or one whose argument is that identifier.
\<close>

fun has_multipeer :: "pyval list \<Rightarrow> bool res" where
  "has_multipeer [] = Inr False"
| "has_multipeer (v # vs) =
     (if no_key v then Inl TypeError
      else case category_entry routing_values v of
             None \<Rightarrow> Inl KeyError
           | Some (dir, m) \<Rightarrow> map_sum id (\<lambda>b. m \<or> b) (has_multipeer vs))"

definition check_routing :: "port_property \<Rightarrow> heap \<Rightarrow> issue list res" where
  "check_routing p h =
     (let missing = Error (''Input port '' @ opt_default [] (pp_actor p) @ ''.'' @ pp_port p @ '' with multiple connections must have a routing port property.'')
      in case filter (\<lambda>(n, a). n = ''routing'' \<or> a = Ident ''routing'') (pp_args p) of
           [] \<Rightarrow> Inr [missing]
         | (n, a) # as \<Rightarrow>
             (case arg_value h a of
                Inl e \<Rightarrow> Inl e
              | Inr (_, v) \<Rightarrow> map_sum id (\<lambda>b. if b then [] else [missing]) (has_multipeer (value_list v))))"

definition number_above_one :: "pyval \<Rightarrow> bool" where
  "number_above_one v = (case v of PInt n \<Rightarrow> 1 < n | _ \<Rightarrow> False)"

definition check_value :: "port_property \<Rightarrow> string \<Rightarrow> property_type \<Rightarrow> heap \<Rightarrow> pyval \<Rightarrow> issue list res" where
  "check_value p name ty h v =
     (case ty of
        CategoryType vs \<Rightarrow>
          if no_key v then Inl TypeError
          else (case category_entry vs v of
                  None \<Rightarrow> Inr [Error (''Port property '' @ name @ '' can only have values '' @ concat (separate '', '' (map fst vs)))]
                | Some (dir, m) \<Rightarrow>
                    Inr (if allows dir (pp_direction p) then [] else [Error (''Port property '' @ name @ '' is only for '' @ dir @ '' ports'')]))
      | ScalarType \<Rightarrow>
          (case v of
             PInt n \<Rightarrow> if name = ''nbr_peers'' \<and> number_above_one v \<and> pp_direction p = Some ''in'' then check_routing p h else Inr []
           | PBool b \<Rightarrow> Inr []
           | _ \<Rightarrow> Inr [Error (''Port property '' @ name @ '' can only have scalar values'')])
      | StringType \<Rightarrow> Inr (case v of PStr s \<Rightarrow> [] | _ \<Rightarrow> [Error (''Port property '' @ name @ '' can only have string values'')])
      | NameType \<Rightarrow> Inr [])"

fun each_issue :: "('a \<Rightarrow> issue list res) \<Rightarrow> 'a list \<Rightarrow> issue list res" where
  "each_issue f [] = Inr []"
| "each_issue f (x # xs) =
     (case f x of Inl e \<Rightarrow> Inl e | Inr iss \<Rightarrow> map_sum id (\<lambda>iss1. iss @ iss1) (each_issue f xs))"

definition check_argument :: "port_property \<Rightarrow> heap \<Rightarrow> named_arg \<Rightarrow> issue list res" where
  "check_argument p h a =
     (case arg_value h (snd a) of
        Inl e \<Rightarrow> Inl e
      | Inr (_, v) \<Rightarrow>
          (case map_of port_property_data (fst a) of
             None \<Rightarrow> Inr [Error (''Port property '' @ fst a @ '' is unknown'')]
           | Some ty \<Rightarrow> each_issue (check_value p (fst a) ty h) (value_list v)))"

fun check_node_properties :: "heap \<Rightarrow> node \<Rightarrow> issue list res" where
  "check_node_properties h (Property p) = each_issue (check_argument p h) (pp_args p)"
| "check_node_properties h n = Inr []"

definition check_properties :: "tree \<Rightarrow> heap \<Rightarrow> issue list res" where
  "check_properties t h = each_issue (check_node_properties h) t"

section \<open>The deployable application\<close>

record deployed_actor =
  ai_type :: string
  ai_args :: "(string, pyval) dict"
  ai_signature :: string

record deployable =
  app_name :: string
  app_actors :: "(string, deployed_actor) dict"
  app_connections :: "(string, string list) dict"
  app_port_properties :: "(string, (string \<times> string option \<times> (string, pyval) dict) list) dict"
  app_valid :: bool

fun arguments :: "heap \<Rightarrow> named_arg list \<Rightarrow> (string, pyval) dict \<Rightarrow> (string, pyval) dict \<times> issue list" where
  "arguments h [] d = (d, [])"
| "arguments h ((n, Val a) # as) d = arguments h as (dput n (hp_vals h a) d)"
| "arguments h ((n, Ident i) # as) d =
     (let (d', iss) = arguments h as d in (d', Error (''Undefined identifier: '' @ quoted i) # iss))"

definition port_text :: "cs_port \<Rightarrow> string" where
  "port_text q = port_actor q @ ''.'' @ port_name q"

definition append_to :: "'k \<Rightarrow> 'v \<Rightarrow> ('k, 'v list) dict \<Rightarrow> ('k, 'v list) dict" where
  "append_to k v d = dput k (opt_default [] (dget d k) @ [v]) d"

fun emit_node ::
  "(string \<Rightarrow> string list \<Rightarrow> string list \<Rightarrow> string) \<Rightarrow> heap \<Rightarrow> node \<Rightarrow> deployable \<times> issue list \<Rightarrow> deployable \<times> issue list" where
  "emit_node sign h (Assignment i ty as m) (app, iss) =
     (case m of
        Some (Some md) \<Rightarrow>
          (let (args, new) = arguments h as []
           in (app\<lparr>app_actors :=
                 dput i \<lparr>ai_type = ty, ai_args = args, ai_signature = sign ty (md_inputs md) (md_outputs md)\<rparr> (app_actors app)\<rparr>, iss @ new))
      | _ \<Rightarrow> (app, iss))"
| "emit_node sign h (Link src dst) (app, iss) =
     (app\<lparr>app_connections := append_to (port_text src) (port_text dst) (app_connections app)\<rparr>, iss)"
| "emit_node sign h (Property p) (app, iss) =
     (let (args, new) = arguments h (pp_args p) []
      in (app\<lparr>app_port_properties := append_to (opt_default ''None'' (pp_actor p)) (pp_port p, pp_direction p, args) (app_port_properties app)\<rparr>,
          iss @ new))"
| "emit_node sign h n s = s"

definition generate_app_info ::
  "(string \<Rightarrow> string list \<Rightarrow> string list \<Rightarrow> string) \<Rightarrow> string \<Rightarrow> tree \<Rightarrow> heap \<Rightarrow> deployable \<times> issue list" where
  "generate_app_info sign name t h =
     fold (emit_node sign h) t
       (\<lparr>app_name = name, app_actors = [], app_connections = [], app_port_properties = [], app_valid = True\<rparr>, [])"

section \<open>The code generator\<close>

text \<open>The block of the program gets the name of the script as its namespace.\<close>

fun name_program :: "string \<Rightarrow> tree \<Rightarrow> tree" where
  "name_program name [] = []"
| "name_program name (Block nsp args body # ns) =
     (if nsp = ''__scriptname__'' then Block name args body # ns else Block nsp args body # name_program name ns)"
| "name_program name (n # ns) = n # name_program name ns"

definition phase2 ::
  "(string \<Rightarrow> metadata option) \<Rightarrow> bool \<Rightarrow> tree \<Rightarrow> heap \<Rightarrow> (tree \<times> issue list, heap) out option" where
  "phase2 store verify t h =
     Option.bind (expand_components store verify t h) (\<lambda>(t1, iss1, h1).
       let (t2, h2) = collect_port_properties t1 h1; (t3, h3) = flatten t2 h2; (t4, h4) = coalesce_properties t3 h3
       in Some (and_then (merge_properties t4 h4) (\<lambda>(t5, iss2) h5.
            case check_properties t5 h5 of Inl e \<Rightarrow> (Inl e, h5) | Inr iss3 \<Rightarrow> (Inr (t5, iss1 @ iss2 @ iss3), h5))))"

definition generate_code ::
  "(string \<Rightarrow> metadata option) \<Rightarrow> (string \<Rightarrow> string list \<Rightarrow> string list \<Rightarrow> string) \<Rightarrow> bool \<Rightarrow> string \<Rightarrow> tree \<Rightarrow> heap \<Rightarrow>
   (deployable \<times> issue list) res option" where
  "generate_code store sign verify name t h =
     (let (t1, iss1, h1) = phase1 store (name_program name t) h
      in map_option (\<lambda>r. case r of
             (Inl e, h2) \<Rightarrow> Inl e
           | (Inr (t2, iss2), h2) \<Rightarrow>
               (let (app, iss3) = generate_app_info sign name t2 h2; iss = iss1 @ iss2 @ iss3
                in Inr (app\<lparr>app_valid := (error_count iss = 0)\<rparr>, iss)))
           (phase2 store verify t1 h1))"

end
