(* ===== verification/Codegen_Sound.thy ===== *)
theory Codegen_Sound
  imports Codegen_Wiring Codegen_Emit
begin

text \<open>
  From the source to flattened scripts: a script of the grammar becomes one of plain links, a script without errors in the consistency
  check is one whose blocks fit after expansion, and what is emitted are the links of the flattened script.
\<close>

section \<open>Scripts\<close>

definition proper_name :: "string \<Rightarrow> bool" where
  "proper_name i \<longleftrightarrow> i \<noteq> [] \<and> CHR '':'' \<notin> set i \<and> CHR ''.'' \<notin> set i"

text \<open>
  The statements of a block whose links satisfy \<open>Q\<close>: no metadata yet, identifiers without a colon or a dot.
\<close>

fun stmt :: "(cs_port \<Rightarrow> cs_port \<Rightarrow> bool) \<Rightarrow> node \<Rightarrow> bool" where
  "stmt Q (Assignment i ty as m) \<longleftrightarrow> proper_name i \<and> m = None"
| "stmt Q (Link src dst) \<longleftrightarrow> Q src dst"
| "stmt Q (Property p) \<longleftrightarrow> True"
| "stmt Q n \<longleftrightarrow> False"

fun top_stmt :: "(cs_port \<Rightarrow> cs_port \<Rightarrow> bool) \<Rightarrow> node \<Rightarrow> bool" where
  "top_stmt Q (Constant c a) \<longleftrightarrow> True"
| "top_stmt Q (Component n as is os body) \<longleftrightarrow> list_all (stmt Q) body"
| "top_stmt Q (Block nsp args body) \<longleftrightarrow> proper_name nsp \<and> list_all (stmt Q) body"
| "top_stmt Q n \<longleftrightarrow> False"

text \<open>Links as the grammar has them, and after each of the passes.\<close>

definition clean_label :: "string option \<Rightarrow> bool" where
  "clean_label l \<longleftrightarrow> (case l of None \<Rightarrow> True | Some n \<Rightarrow> proper_name n)"

fun real_source :: "cs_port \<Rightarrow> bool" where
  "real_source (OutPort a p k) \<longleftrightarrow> True"
| "real_source (InternalOutPort p k) \<longleftrightarrow> True"
| "real_source Void \<longleftrightarrow> True"
| "real_source q \<longleftrightarrow> False"

fun source_port :: "cs_port \<Rightarrow> bool" where
  "source_port (ImplicitPort a l) \<longleftrightarrow> clean_label l"
| "source_port q \<longleftrightarrow> real_source q"

fun real_target :: "cs_port \<Rightarrow> bool" where
  "real_target (InPort a p k) \<longleftrightarrow> True"
| "real_target (InternalInPort p k) \<longleftrightarrow> True"
| "real_target Void \<longleftrightarrow> True"
| "real_target q \<longleftrightarrow> False"

fun single_target :: "cs_port \<Rightarrow> bool" where
  "single_target (TransformedPort q v l) \<longleftrightarrow> real_target q \<and> clean_label l"
| "single_target q \<longleftrightarrow> real_target q"

fun target_port :: "cs_port \<Rightarrow> bool" where
  "target_port (PortList ps) \<longleftrightarrow> list_all single_target ps"
| "target_port q \<longleftrightarrow> single_target q"

definition script :: "tree \<Rightarrow> bool" where
  "script t \<longleftrightarrow> list_all (top_stmt (\<lambda>src dst. source_port src \<and> target_port dst)) t"

definition plain :: "cs_port \<Rightarrow> cs_port \<Rightarrow> bool" where
  "plain src dst \<longleftrightarrow> wire_source src \<noteq> None \<and> wire_target dst \<noteq> None"

section \<open>Desugaring\<close>

definition turns :: "'s link_visitor \<Rightarrow> (cs_port \<Rightarrow> cs_port \<Rightarrow> bool) \<Rightarrow> (cs_port \<Rightarrow> cs_port \<Rightarrow> bool) \<Rightarrow> bool" where
  "turns f Q R \<longleftrightarrow> (\<forall>src dst s here new s1. Q src dst \<longrightarrow> f src dst s = (here, new, s1) \<longrightarrow> list_all (stmt R) (here @ new))"

lemma rewrite_links_stmt:
  "rewrite_links f ns s = (ns', new, s') \<Longrightarrow> turns f Q R \<Longrightarrow> list_all (stmt Q) ns \<Longrightarrow> list_all (stmt R) (ns' @ new)"
proof (induction f ns s arbitrary: ns' new s' rule: rewrite_links.induct)
  case (2 f src dst ns s)
  obtain here new1 s1 where 1: "f src dst s = (here, new1, s1)" by (metis prod_cases3)
  obtain ns2 new2 s2 where r: "rewrite_links f ns s1 = (ns2, new2, s2)" by (metis prod_cases3)
  have "list_all (stmt R) (here @ new1)" using 2(3,4) 1 unfolding turns_def by force
  moreover have "list_all (stmt R) (ns2 @ new2)" using 2(1)[OF 1[symmetric] refl refl r] 2(3,4) by simp
  ultimately show ?case using 2(2) 1 r by auto
qed (auto split: prod.splits)

lemma rewrite_links_top:
  "rewrite_links f t s = (t', new, s') \<Longrightarrow> turns f Q R \<Longrightarrow> list_all (top_stmt Q) t \<Longrightarrow>
     list_all (top_stmt R) t' \<and> new = [] \<and> block_names t' = block_names t"
proof (induction t arbitrary: s t' new s')
  case (Cons n t)
  show ?case
  proof (cases n)
    case (Component c xs ins outs body)
    obtain b1 n1 s1 where 1: "rewrite_links f body s = (b1, n1, s1)" by (metis prod_cases3)
    have "list_all (stmt R) (b1 @ n1)" using rewrite_links_stmt[OF 1 Cons(3)] Cons(4) Component by simp
    then show ?thesis using Cons(1)[OF _ Cons(3)] Cons(2,4) Component 1 by (auto split: prod.splits)
  next
    case (Block nsp args body)
    obtain b1 n1 s1 where 1: "rewrite_links f body s = (b1, n1, s1)" by (metis prod_cases3)
    have "list_all (stmt R) (b1 @ n1)" using rewrite_links_stmt[OF 1 Cons(3)] Cons(4) Block by simp
    then show ?thesis using Cons(1)[OF _ Cons(3)] Cons(2,4) Block 1 by (auto split: prod.splits)
  qed (use Cons in \<open>auto split: prod.splits\<close>)
qed simp

lemma rewrite_tree_top:
  assumes "rewrite_tree f t s = (t', s')" "turns f Q R" "list_all (top_stmt Q) t"
  shows "list_all (top_stmt R) t'" "block_names t' = block_names t"
proof -
  obtain t1 new s1 where 1: "rewrite_links f t s = (t1, new, s1)" by (metis prod_cases3)
  with rewrite_links_top[OF 1 assms(2,3)] assms(1) show "list_all (top_stmt R) t'" "block_names t' = block_names t"
    by (auto simp: rewrite_tree_def)
qed

lemma decimal_clean: "set (decimal n) \<subseteq> set ''0123456789''"
proof (induction n rule: decimal.induct)
  case (1 n)
  have "list_all (\<lambda>d. char_of (48 + d :: nat) \<in> set ''0123456789'') [0..<10]" by code_simp
  then have "char_of (48 + d :: nat) \<in> set ''0123456789''" if "d < 10" for d using that by (simp add: list_all_iff)
  from this[of n] this[of "n mod 10"] 1 show ?case by (subst decimal.simps) auto
qed

lemma decimal_free: "CHR '':'' \<notin> set (decimal n)" "CHR ''.'' \<notin> set (decimal n)"
  using decimal_clean[of n] by (auto dest!: subsetD)

lemma unique_or_label_clean:
  assumes "unique_or_label name l c = (n, c')" "clean_label l" "proper_name name"
  shows "proper_name n"
  using assms by (auto simp: proper_name_def unique_or_label_def make_unique_def clean_label_def decimal_free split: option.splits)

lemma turns_implicit_outport:
  "turns implicit_outport (\<lambda>src dst. source_port src \<and> target_port dst) (\<lambda>src dst. real_source src \<and> target_port dst)"
  unfolding turns_def
proof clarify
  fix src dst c h here new s1
  assume "source_port src" "target_port dst" "implicit_outport src dst (c, h) = (here, new, s1)"
  then show "list_all (stmt (\<lambda>src dst. real_source src \<and> target_port dst)) (here @ new)"
    by (cases src) (auto simp: Let_def proper_name_def[of "''literal_const''"] dest: unique_or_label_clean split: prod.splits)
qed

lemma turns_portlist:
  "turns portlist_links (\<lambda>src dst. real_source src \<and> target_port dst) (\<lambda>src dst. real_source src \<and> single_target dst)"
  unfolding turns_def
proof clarify
  fix src dst and s :: unit and here new s1
  assume "real_source src" "target_port dst" "portlist_links src dst s = (here, new, s1)"
  then show "list_all (stmt (\<lambda>src dst. real_source src \<and> single_target dst)) (here @ new)"
    by (cases dst) (auto simp: list_all_iff)
qed

lemma turns_implicit_inport:
  "turns implicit_inport (\<lambda>src dst. real_source src \<and> single_target dst) (\<lambda>src dst. real_source src \<and> real_target dst)"
  unfolding turns_def
proof clarify
  fix src dst c h here new s1
  assume "real_source src" "single_target dst" "implicit_inport src dst (c, h) = (here, new, s1)"
  then show "list_all (stmt (\<lambda>src dst. real_source src \<and> real_target dst)) (here @ new)"
    by (cases dst) (auto simp: Let_def proper_name_def[of "''transform''"] dest: unique_or_label_clean split: prod.splits)
qed

lemma make_unique_void: "make_unique ''void'' c = (n, c') \<Longrightarrow> proper_name n"
  by (auto simp: proper_name_def make_unique_def decimal_free)

lemma turns_void: "turns void_ports (\<lambda>src dst. real_source src \<and> real_target dst) plain"
  unfolding turns_def
proof clarify
  fix src dst c iss h here new s1
  assume "real_source src" "real_target dst" "void_ports src dst (c, iss, h) = (here, new, s1)"
  then show "list_all (stmt plain) (here @ new)"
    by (cases src; cases dst) (auto simp: void_ports_def plain_def dest: make_unique_void split: prod.splits)
qed

text \<open>After desugaring every link is one between ports.\<close>

lemma desugar_plain:
  assumes "script t" "desugar t h = (t', iss, h')"
  shows "list_all (top_stmt plain) t' \<and> block_names t' = block_names t"
proof -
  obtain t1 h1 where 1: "substitute_implicit_outports t h = (t1, h1)" by (cases "substitute_implicit_outports t h")
  obtain t2 h2 where 2: "substitute_implicit_inports (expand_portlists t1) h1 = (t2, h2)"
    by (cases "substitute_implicit_inports (expand_portlists t1) h1")
  have 3: "substitute_voidports t2 h2 = (t', iss, h')" using assms(2) by (simp add: desugar_def 1 2)
  have "list_all (top_stmt (\<lambda>src dst. real_source src \<and> target_port dst)) t1 \<and> block_names t1 = block_names t"
    using 1 assms(1) rewrite_tree_top[OF _ turns_implicit_outport]
    by (auto simp: substitute_implicit_outports_def script_def split: prod.splits)
  then have "list_all (top_stmt (\<lambda>src dst. real_source src \<and> single_target dst)) (expand_portlists t1) \<and> block_names (expand_portlists t1) = block_names t"
    using rewrite_tree_top[OF _ turns_portlist] by (cases "rewrite_tree portlist_links t1 ()") (auto simp: expand_portlists_def)
  then have "list_all (top_stmt (\<lambda>src dst. real_source src \<and> real_target dst)) t2 \<and> block_names t2 = block_names t"
    using 2 rewrite_tree_top[OF _ turns_implicit_inport] by (auto simp: substitute_implicit_inports_def split: prod.splits)
  then show ?thesis
    using 3 rewrite_tree_top[OF _ turns_void] by (auto simp: substitute_voidports_def split: prod.splits)
qed

text \<open>Naming the program.\<close>

lemma name_program_script: "script t \<Longrightarrow> proper_name name \<Longrightarrow> script (name_program name t)"
proof (induction name t rule: name_program.induct)
  case (2 name nsp args body ns)
  then show ?case by (auto simp: script_def)
qed (auto simp: script_def)

lemma name_program_blocks: "block_names t = [''__scriptname__''] \<Longrightarrow> block_names (name_program name t) = [name]"
  by (induction name t rule: name_program.induct) auto

end
