(* ===== verification/Codegen_Checked.thy ===== *)
theory Codegen_Checked
  imports Codegen_Sound
begin

text \<open>
  What a script in which the consistency check finds no errors has, if no instance of a component is linked directly to itself: its links
  lead to declared actors and components, and the ports of each component are used outside as they are inside.
\<close>

section \<open>Checked scripts\<close>

definition hull_ok :: "string list \<Rightarrow> string list \<Rightarrow> wires \<Rightarrow> bool" where
  "hull_ok ins outs W \<longleftrightarrow>
     (\<forall>p. p \<in> set ins \<longleftrightarrow> (\<exists>t. (Hull p, t) \<in> W)) \<and> (\<forall>p. p \<in> set outs \<longleftrightarrow> (\<exists>s. (s, Hull p) \<in> W)) \<and> (\<forall>p q. (Hull p, Hull q) \<notin> W)"

definition instance_ok :: "string \<Rightarrow> metadata \<Rightarrow> wires \<Rightarrow> bool" where
  "instance_ok i d L \<longleftrightarrow>
     (\<forall>p. p \<in> set (md_inputs d) \<longleftrightarrow> (\<exists>s. (s, Actor i p) \<in> L)) \<and> (\<forall>p. p \<in> set (md_outputs d) \<longleftrightarrow> (\<exists>t. (Actor i p, t) \<in> L))"

definition feeds_itself :: "string \<Rightarrow> wires \<Rightarrow> bool" where
  "feeds_itself i L \<longleftrightarrow> (\<exists>p q. (Actor i p, Actor i q) \<in> L)"

lemma fits_instance:
  "hull_ok ins outs W \<Longrightarrow> instance_ok i d L \<Longrightarrow> \<not> feeds_itself i L \<Longrightarrow> md_inputs d = ins \<Longrightarrow> md_outputs d = outs \<Longrightarrow> fits i W L"
  by (auto simp: fits_def hull_ok_def instance_ok_def feeds_itself_def)

text \<open>The component that an assignment is an instance of, as the metadata say.\<close>

definition component_of :: "metadata option option \<Rightarrow> metadata option" where
  "component_of m = (case m of Some (Some d) \<Rightarrow> if md_kind d = ComponentType then Some d else None | _ \<Rightarrow> None)"

lemma component_of_iff: "component_of m = Some d \<longleftrightarrow> m = Some (Some d) \<and> md_kind d = ComponentType"
  by (auto simp: component_of_def split: option.splits)

fun names :: "node list \<Rightarrow> string list" where
  "names [] = []"
| "names (Assignment i ty as m # ns) = i # names ns"
| "names (Block nsp args body # ns) = nsp # names ns"
| "names (n # ns) = names ns"

text \<open>Links lead to the ports of declared actors and blocks, or to the hull.\<close>

definition closed :: "string list \<Rightarrow> wires \<Rightarrow> bool" where
  "closed xs L \<longleftrightarrow> (\<forall>s t a p. (s, t) \<in> L \<longrightarrow> s = Actor a p \<or> t = Actor a p \<longrightarrow> a \<in> set xs)"

text \<open>The inports and outports of the components are given by \<open>sg\<close>.\<close>

definition fits_type ::
  "(string \<Rightarrow> metadata option) \<Rightarrow> (string \<Rightarrow> (string list \<times> string list) option) \<Rightarrow> wires \<Rightarrow> string \<Rightarrow> string \<Rightarrow> metadata option option \<Rightarrow> bool" where
  "fits_type store sg L i ty m \<longleftrightarrow>
     proper_name i \<and> m \<noteq> None \<and>
     (\<forall>d. m = Some (Some d) \<longrightarrow> instance_ok i d L \<and>
        (if md_kind d = ComponentType then sg (md_name d) = Some (md_inputs d, md_outputs d) \<and> \<not> feeds_itself i L else store ty = Some d))"

fun good :: "(string \<Rightarrow> metadata option) \<Rightarrow> (string \<Rightarrow> (string list \<times> string list) option) \<Rightarrow> node list \<Rightarrow> wires \<Rightarrow> bool" where
  "good store sg [] L \<longleftrightarrow> True"
| "good store sg (Assignment i ty as m # ns) L \<longleftrightarrow> i \<notin> set (names ns) \<and> fits_type store sg L i ty m \<and> good store sg ns L"
| "good store sg (Block nsp args body # ns) L \<longleftrightarrow>
     proper_name nsp \<and> nsp \<notin> set (names ns) \<and> fits nsp (link_ends body) L \<and> list_all plain_link body \<and>
     closed (names body) (link_ends body) \<and> good store sg body (link_ends body) \<and> good store sg ns L"
| "good store sg (Component c xs ins outs body # ns) L \<longleftrightarrow> False"
| "good store sg (n # ns) L \<longleftrightarrow> good store sg ns L"

definition good_body :: "(string \<Rightarrow> metadata option) \<Rightarrow> (string \<Rightarrow> (string list \<times> string list) option) \<Rightarrow> node list \<Rightarrow> bool" where
  "good_body store sg body \<longleftrightarrow> list_all plain_link body \<and> closed (names body) (link_ends body) \<and> good store sg body (link_ends body)"

text \<open>Names, inports and outports of the components of a tree.\<close>

fun component_sigs :: "tree \<Rightarrow> (string \<times> string list \<times> string list) list" where
  "component_sigs [] = []"
| "component_sigs (Component c xs ins outs body # ns) = (c, ins, outs) # component_sigs ns"
| "component_sigs (n # ns) = component_sigs ns"

fun good_top :: "(string \<Rightarrow> metadata option) \<Rightarrow> (string \<Rightarrow> (string list \<times> string list) option) \<Rightarrow> node \<Rightarrow> bool" where
  "good_top store sg (Constant c a) \<longleftrightarrow> True"
| "good_top store sg (Component c xs ins outs body) \<longleftrightarrow> hull_ok ins outs (link_ends body) \<and> good_body store sg body"
| "good_top store sg (Block nsp args body) \<longleftrightarrow>
     proper_name nsp \<and> (\<forall>p t. (Hull p, t) \<notin> link_ends body) \<and> (\<forall>p s. (s, Hull p) \<notin> link_ends body) \<and> good_body store sg body"
| "good_top store sg n \<longleftrightarrow> False"

text \<open>The actor store holds actors, and no instance of a component is linked to itself.\<close>

definition actors_only :: "(string \<Rightarrow> metadata option) \<Rightarrow> bool" where
  "actors_only store \<longleftrightarrow> (\<forall>ty d. store ty = Some d \<longrightarrow> md_kind d \<noteq> ComponentType)"

fun feeds_back :: "wires \<Rightarrow> node \<Rightarrow> bool" where
  "feeds_back L (Assignment i ty as m) \<longleftrightarrow> is_local_component ty \<and> feeds_itself i L"
| "feeds_back L n \<longleftrightarrow> False"

fun no_feedback :: "node \<Rightarrow> bool" where
  "no_feedback (Component c xs ins outs body) \<longleftrightarrow> \<not> list_ex (feeds_back (link_ends body)) body"
| "no_feedback (Block nsp args body) \<longleftrightarrow> \<not> list_ex (feeds_back (link_ends body)) body"
| "no_feedback n \<longleftrightarrow> True"

definition clear :: "issue list \<Rightarrow> bool" where
  "clear iss \<longleftrightarrow> error_count iss = 0"

lemma clear_iff: "clear iss \<longleftrightarrow> (\<forall>r. Error r \<notin> set iss)"
  by (simp add: clear_def error_count_zero)

lemma clear_simps [simp]:
  "clear []" "clear (Error r # iss) = False" "clear (Warning r # iss) = clear iss" "clear (xs @ ys) = (clear xs \<and> clear ys)"
  by (auto simp: clear_iff)

lemma clear_concat: "clear (concat xss) \<longleftrightarrow> (\<forall>xs\<in>set xss. clear xs)"
  by (auto simp: clear_iff)

lemma clear_errors [simp]: "clear (map (\<lambda>x. Error (f x)) xs) \<longleftrightarrow> xs = []"
  by (cases xs) auto

section \<open>Ports of plain links\<close>

lemma link_ports_set: "q \<in> set (link_ports body) \<longleftrightarrow> (\<exists>src dst. Link src dst \<in> set body \<and> (q = src \<or> q = dst))"
  by (induction body rule: link_ports.induct) auto

lemma match_internal: "match_internal_in p q \<longleftrightarrow> wire_target q = Some (Hull p)" "match_internal_out p q \<longleftrightarrow> wire_source q = Some (Hull p)"
  by (cases q; auto)+

lemma source_no_target: "wire_source q = Some s \<Longrightarrow> wire_target q = None" "wire_target q = Some t \<Longrightarrow> wire_source q = None"
  by (cases q; auto)+

lemma target_found:
  assumes "list_all plain_link body"
  shows "(\<exists>q\<in>set (link_ports body). wire_target q = Some e) \<longleftrightarrow> (\<exists>s. (s, e) \<in> link_ends body)"
    "(\<exists>q\<in>set (link_ports body). wire_source q = Some e) \<longleftrightarrow> (\<exists>t. (e, t) \<in> link_ends body)"
proof -
  have p: "\<exists>s t. wire_source src = Some s \<and> wire_target dst = Some t \<and> (s, t) \<in> link_ends body" if "Link src dst \<in> set body" for src dst
    using plain_links[OF assms that] .
  show "(\<exists>q\<in>set (link_ports body). wire_target q = Some e) \<longleftrightarrow> (\<exists>s. (s, e) \<in> link_ends body)" (is "?l \<longleftrightarrow> ?r")
  proof
    assume ?l
    then obtain src dst where "Link src dst \<in> set body" "wire_target src = Some e \<or> wire_target dst = Some e"
      by (auto simp: link_ports_set)
    with p[OF this(1)] source_no_target show ?r by force
  next
    assume ?r
    then obtain src dst where "Link src dst \<in> set body" "wire_target dst = Some e" by (auto elim: link_endsE)
    then show ?l using link_ports_set by blast
  qed
  show "(\<exists>q\<in>set (link_ports body). wire_source q = Some e) \<longleftrightarrow> (\<exists>t. (e, t) \<in> link_ends body)" (is "?l \<longleftrightarrow> ?r")
  proof
    assume ?l
    then obtain src dst where "Link src dst \<in> set body" "wire_source src = Some e \<or> wire_source dst = Some e"
      by (auto simp: link_ports_set)
    with p[OF this(1)] source_no_target show ?r by force
  next
    assume ?r
    then obtain src dst where "Link src dst \<in> set body" "wire_source src = Some e" by (auto elim: link_endsE)
    then show ?l using link_ports_set by blast
  qed
qed

lemma port_found:
  assumes "list_all plain_link body"
  shows "list_ex (match_in i p) (link_ports body) \<longleftrightarrow> (\<exists>s. (s, Actor i p) \<in> link_ends body)"
    "list_ex (match_out i p) (link_ports body) \<longleftrightarrow> (\<exists>t. (Actor i p, t) \<in> link_ends body)"
    "list_ex (match_internal_in p) (link_ports body) \<longleftrightarrow> (\<exists>s. (s, Hull p) \<in> link_ends body)"
    "list_ex (match_internal_out p) (link_ports body) \<longleftrightarrow> (\<exists>t. (Hull p, t) \<in> link_ends body)"
  using target_found[OF assms] by (simp_all add: list_ex_iff match_in_target match_out_source match_internal)

section \<open>Names\<close>

lemma count_list_distinct: "filter (\<lambda>x. 1 < count_list xs x) xs = [] \<longleftrightarrow> distinct xs"
proof
  have c: "distinct xs \<Longrightarrow> count_list xs x \<le> 1" for x by (induction xs) auto
  assume "distinct xs"
  from c[OF this] show "filter (\<lambda>x. 1 < count_list xs x) xs = []" by (simp add: filter_empty_conv not_less)
next
  assume f: "filter (\<lambda>x. 1 < count_list xs x) xs = []"
  show "distinct xs"
  proof (rule ccontr)
    assume "\<not> distinct xs"
    then obtain as b bs cs where x: "xs = as @ b # bs @ b # cs" using not_distinct_decomp by force
    then have "1 < count_list xs b" "b \<in> set xs" by simp_all
    then show False using f by (auto simp: filter_empty_conv)
  qed
qed

lemma stmt_plain: "list_all (stmt plain) body \<Longrightarrow> list_all plain_link body"
proof (induction body)
  case (Cons n body)
  then show ?case by (cases n) (auto simp: plain_def)
qed simp

lemma stmt_names: "list_all (stmt Q) body \<Longrightarrow> names body = map as_ident (filter is_assignment body)"
  by (induction body rule: names.induct) auto

lemma assignment_name: "Assignment i ty as m \<in> set ns \<Longrightarrow> i \<in> set (names ns)"
  by (induction ns rule: names.induct) auto

lemma find_assignment_distinct:
  "distinct (names body) \<Longrightarrow> Assignment i ty as m \<in> set body \<Longrightarrow> find_assignment body i = Some m"
  by (induction body rule: names.induct) (auto dest: assignment_name)

lemma find_assignment_name: "find_assignment body i = Some m \<Longrightarrow> i \<in> set (names body)"
  by (induction body rule: names.induct) (auto split: if_splits)

lemma good_flat:
  assumes "distinct (names ns)" "list_all (\<lambda>n. \<not> is_block n \<and> \<not> is_component n) ns"
    "\<And>i ty as m. Assignment i ty as m \<in> set ns \<Longrightarrow> fits_type store sg L i ty m"
  shows "good store sg ns L"
  using assms
proof (induction ns)
  case (Cons n ns)
  have "good store sg ns L" using Cons.prems by (intro Cons.IH) (cases n; auto)+
  with Cons.prems show ?case by (cases n) auto
qed simp

section \<open>The consistency check\<close>

lemma check_assignment_ends: "link_ends (map (\<lambda>n. fst (check_assignment store t b n)) body) = link_ends body"
proof (induction body)
  case (Cons n body)
  then show ?case by (cases n) (auto simp: split_def Let_def link_ends_link)
qed simp

lemma check_assignment_names: "names (map (\<lambda>n. fst (check_assignment store t b n)) body) = names body"
  by (induction body rule: names.induct) (auto simp: split_def Let_def)

lemma check_assignment_plain: "list_all plain_link (map (\<lambda>n. fst (check_assignment store t b n)) body) = list_all plain_link body"
  by (induction body rule: names.induct) (auto simp: split_def Let_def)

lemma check_assignment_flat:
  "list_all (stmt Q) body \<Longrightarrow> list_all (\<lambda>n. \<not> is_block n \<and> \<not> is_component n) (map (\<lambda>n. fst (check_assignment store t b n)) body)"
  by (induction body rule: names.induct) (auto simp: split_def Let_def)

lemma check_assignment_inv: "fst (check_assignment store t b n0) = Assignment i ty as m \<Longrightarrow> \<exists>m0. n0 = Assignment i ty as m0"
  by (cases n0) (auto simp: split_def Let_def)

lemma check_link_clear:
  assumes "clear (check_link body c (Link src dst))"
  shows "clear (check_end body c src)" "clear (check_end body c dst)" "wire_source src = Some (Hull p) \<Longrightarrow> wire_target dst \<noteq> Some (Hull q)"
  using assms by (cases src; cases dst; auto)+

lemma check_port_clear:
  assumes "clear (check_port body inward a p)"
  shows "a \<in> set (names body)"
    "find_assignment body a = Some (Some (Some d)) \<Longrightarrow> p \<in> set (if inward then md_inputs d else md_outputs d)"
  using assms by (auto simp: check_port_def dest: find_assignment_name split: option.splits if_splits)

lemma lookup_component:
  assumes "lookup_type store t ty = (Some d, iss)" "md_kind d = ComponentType" "actors_only store"
  shows "is_local_component ty \<and> map_of (component_sigs t) (md_name d) = Some (md_inputs d, md_outputs d)"
proof -
  have f: "find_component t ty = Some c \<Longrightarrow> component_metadata c = Some d \<Longrightarrow>
      md_name d = ty \<and> map_of (component_sigs t) (md_name d) = Some (md_inputs d, md_outputs d)" for c
    by (induction t ty rule: find_component.induct) (cases d; auto split: if_splits)+
  show ?thesis using assms f by (auto simp: lookup_type_def actors_only_def split: if_splits option.splits)
qed

lemma lookup_store:
  assumes "lookup_type store t ty = (Some d, iss)" "md_kind d \<noteq> ComponentType"
  shows "store ty = Some d"
proof -
  have "component_metadata c = Some d \<Longrightarrow> md_kind d = ComponentType" for c by (cases c) auto
  then show ?thesis using assms by (auto simp: lookup_type_def split: if_splits option.splits)
qed

lemma checked_block:
  assumes "check_block store t c body = (body', iss)" "clear iss"
  shows "body' = map (\<lambda>n. fst (check_assignment store t body n)) body" "clear (redeclared body)"
    "\<And>n. n \<in> set body \<Longrightarrow> clear (snd (check_assignment store t body n))" "\<And>n. n \<in> set body' \<Longrightarrow> clear (check_link body' c n)"
  using assms by (auto simp: check_block_def Let_def clear_concat comp_def)

lemma checked_ends:
  assumes "(s, e) \<in> link_ends body'" "\<And>n. n \<in> set body' \<Longrightarrow> clear (check_link body' c n)"
  shows "\<And>a p. s = Actor a p \<Longrightarrow> clear (check_port body' False a p)" "\<And>a p. e = Actor a p \<Longrightarrow> clear (check_port body' True a p)"
    "\<And>p. s = Hull p \<Longrightarrow> clear (check_internal c False p)" "\<And>p. e = Hull p \<Longrightarrow> clear (check_internal c True p)"
    "\<And>p q. s = Hull p \<Longrightarrow> e \<noteq> Hull q"
proof -
  obtain src dst where l: "Link src dst \<in> set body'" "wire_source src = Some s" "wire_target dst = Some e"
    using assms(1) by (auto elim: link_endsE)
  note cl = check_link_clear[OF assms(2)[OF l(1)]]
  show "clear (check_port body' False a p)" if "s = Actor a p" for a p using cl(1) l(2) that by (cases src) auto
  show "clear (check_port body' True a p)" if "e = Actor a p" for a p using cl(2) l(3) that by (cases dst) auto
  show "clear (check_internal c False p)" if "s = Hull p" for p using cl(1) l(2) that by (cases src) auto
  show "clear (check_internal c True p)" if "e = Hull p" for p using cl(2) l(3) that by (cases dst) auto
  show "e \<noteq> Hull q" if "s = Hull p" for p q using cl(3) l that by auto
qed

lemma check_block_good:
  assumes c: "check_block store t c body = (body', iss)" "clear iss" and s: "list_all (stmt plain) body" and a: "actors_only store"
    and f: "\<not> list_ex (feeds_back (link_ends body')) body'"
  shows "good_body store (map_of (component_sigs t)) body'"
proof -
  note ch = checked_block[OF c]
  have ends: "link_ends body' = link_ends body" and names: "names body' = names body" and plain: "list_all plain_link body'"
    using stmt_plain[OF s] by (simp_all add: ch(1) check_assignment_ends check_assignment_names check_assignment_plain)
  have d: "distinct (names body')"
    using ch(2) unfolding names stmt_names[OF s] redeclared_def Let_def clear_errors count_list_distinct .
  have typed: "fits_type store (map_of (component_sigs t)) (link_ends body') i ty m" if n: "Assignment i ty as m \<in> set body'" for i ty as m
  proof -
    obtain n0 where n0: "n0 \<in> set body" "fst (check_assignment store t body n0) = Assignment i ty as m" using n ch(1) by auto
    then obtain m0 where "n0 = Assignment i ty as m0" using check_assignment_inv by blast
    moreover from this have "proper_name i" using n0(1) s by (auto simp: list_all_iff)
    ultimately obtain md iss1 where l: "lookup_type store t ty = (md, iss1)" "m = Some md" "proper_name i"
        "\<And>d. md = Some d \<Longrightarrow> clear (check_connections body i d)"
      using n0(2) ch(3)[OF n0(1)] by (cases "lookup_type store t ty") (auto simp: Let_def split: option.splits)
    have "instance_ok i d (link_ends body') \<and>
        (if md_kind d = ComponentType then is_local_component ty \<and> map_of (component_sigs t) (md_name d) = Some (md_inputs d, md_outputs d)
         else store ty = Some d)"
      if md: "md = Some d" for d
    proof -
      have fa: "find_assignment body' i = Some (Some (Some d))" using find_assignment_distinct[OF d n] l(2) md by simp
      have "instance_ok i d (link_ends body')"
        using l(4)[OF md] checked_ends(1,2)[OF _ ch(4)] check_port_clear(2)[OF _ fa]
        unfolding instance_ok_def ends check_connections_def
        by (fastforce simp: port_found[OF stmt_plain[OF s]] filter_empty_conv)
      with lookup_component[of store t ty d iss1] lookup_store[of store t ty d iss1] l(1) md a show ?thesis by simp
    qed
    moreover have "\<not> feeds_back (link_ends body') (Assignment i ty as m)" using f n unfolding list_ex_iff by blast
    ultimately show ?thesis using l(2,3) by (auto simp: fits_type_def)
  qed
  have "closed (names body') (link_ends body')"
    unfolding closed_def
  proof (intro allI impI)
    fix x e a p
    assume e: "(x, e) \<in> link_ends body'" and "x = Actor a p \<or> e = Actor a p"
    from this(2) show "a \<in> set (names body')"
      by (elim disjE) (rule check_port_clear(1)[OF checked_ends(1)[OF e ch(4)]] check_port_clear(1)[OF checked_ends(2)[OF e ch(4)]]; assumption)+
  qed
  moreover have "good store (map_of (component_sigs t)) body' (link_ends body')"
    using typed check_assignment_flat[OF s] ch(1) by (intro good_flat[OF d]) auto
  ultimately show ?thesis using plain by (simp add: good_body_def)
qed

lemma check_top_good:
  assumes c: "check_top store t n = (n', iss)" "clear iss" and s: "top_stmt plain n" and a: "actors_only store" and f: "no_feedback n'"
  shows "good_top store (map_of (component_sigs t)) n'"
proof (cases n)
  case (Component name as ins outs body)
  obtain body' iss1 where b: "check_block store t (Some (name, ins, outs)) body = (body', iss1)"
    by (cases "check_block store t (Some (name, ins, outs)) body")
  then have n': "n' = Component name as ins outs body'" "clear iss1" "clear (check_hull name as ins outs body)" using c Component by auto
  have st: "list_all (stmt plain) body" using s Component by simp
  note ch = checked_block[OF b n'(2)]
  have ends: "link_ends body' = link_ends body" by (simp add: ch(1) check_assignment_ends)
  have i: "p \<in> set ins" if "(Hull p, e) \<in> link_ends body'" for p e
    using checked_ends(3)[OF that ch(4)] by (auto simp: check_internal_def split: if_splits)
  have o: "p \<in> set outs" if "(e, Hull p) \<in> link_ends body'" for p e
    using checked_ends(4)[OF that ch(4)] by (auto simp: check_internal_def split: if_splits)
  have io: "(Hull p, Hull q) \<notin> link_ends body'" for p q
    using checked_ends(5)[OF _ ch(4)] by blast
  have "hull_ok ins outs (link_ends body')"
    using n'(3) i o io unfolding hull_ok_def ends check_hull_def
    by (fastforce simp: port_found[OF stmt_plain[OF st]] filter_empty_conv)
  with check_block_good[OF b n'(2) st a] f n' show ?thesis by simp
next
  case (Block nsp args body)
  obtain body' iss1 where b: "check_block store t None body = (body', iss1)" by (cases "check_block store t None body")
  then have n': "n' = Block nsp args body'" "clear iss1" using c Block by auto
  have st: "list_all (stmt plain) body" "proper_name nsp" using s Block by auto
  note ch = checked_block[OF b n'(2)]
  have "(Hull p, e) \<notin> link_ends body'" "(e, Hull p) \<notin> link_ends body'" for p e
    using checked_ends(3)[OF _ ch(4) refl] checked_ends(4)[OF _ ch(4) refl] by (auto simp: check_internal_def)
  with check_block_good[OF b n'(2) st(1) a] f n' st(2) show ?thesis by simp
qed (use c s in auto)

lemma check_top_sigs: "component_sigs (map (\<lambda>n. fst (check_top store t n)) ns) = component_sigs ns"
proof (induction ns)
  case (Cons n ns)
  then show ?case by (cases n) (auto split: prod.splits)
qed simp

lemma consistency_good:
  assumes c: "consistency_check store t = (t', iss)" "clear iss" and s: "list_all (top_stmt plain) t" and a: "actors_only store"
    and f: "list_all no_feedback t'"
  shows "list_all (good_top store (map_of (component_sigs t'))) t'"
proof -
  have t': "t' = map (\<lambda>n. fst (check_top store t n)) t" and cl: "n \<in> set t \<Longrightarrow> clear (snd (check_top store t n))" for n
    using c by (auto simp: consistency_check_def Let_def clear_concat comp_def)
  have sg: "component_sigs t' = component_sigs t" by (simp add: t' check_top_sigs)
  show ?thesis
    unfolding list_all_iff
  proof
    fix n' assume "n' \<in> set t'"
    then obtain n where n: "n \<in> set t" "n' = fst (check_top store t n)" by (auto simp: t')
    show "good_top store (map_of (component_sigs t')) n'"
      using check_top_good[of store t n n' "snd (check_top store t n)"] n cl[OF n(1)] s f \<open>n' \<in> set t'\<close> a
      by (auto simp: list_all_iff sg)
  qed
qed

lemma replace_args_stmt: "stmt Q n \<Longrightarrow> stmt Q (replace_args d n)"
  by (cases n) auto

lemma replace_args_top: "top_stmt Q n \<Longrightarrow> top_stmt Q (replace_args d n)"
  by (cases n) (auto simp: list_all_iff intro: replace_args_stmt)

lemma replace_args_blocks: "block_names (map (replace_args d) t) = block_names t"
  by (induction t rule: block_names.induct) auto

lemma check_top_blocks: "block_names (map (\<lambda>n. fst (check_top store t n)) ns) = block_names ns"
  by (induction ns rule: block_names.induct) (auto split: prod.splits)

text \<open>The first phase.\<close>

lemma phase1_good:
  assumes p: "phase1 store t h = (t1, iss, h1)" "clear iss" and s: "script t" and a: "actors_only store" and f: "list_all no_feedback t1"
  shows "list_all (good_top store (map_of (component_sigs t1))) t1" "block_names t1 = block_names t"
proof -
  obtain t2 iss2 h2 where 2: "desugar t h = (t2, iss2, h2)" by (metis prod_cases3)
  obtain t3 iss3 where 3: "replace_constants t2 = (t3, iss3)" by (cases "replace_constants t2")
  obtain t4 iss4 where 4: "consistency_check store t3 = (t4, iss4)" by (cases "consistency_check store t3")
  have e: "t1 = t4" "clear iss4" using p by (auto simp: phase1_def 2 3 4)
  have 5: "list_all (top_stmt plain) t3" "block_names t3 = block_names t"
    using desugar_plain[OF s 2] 3 replace_args_top[of plain] replace_args_blocks
    by (auto simp: replace_constants_def Let_def list_all_iff split: prod.splits)
  with consistency_good[OF 4 e(2) _ a] f e(1) show "list_all (good_top store (map_of (component_sigs t1))) t1" by simp
  have "t4 = map (\<lambda>n. fst (check_top store t3 n)) t3" using 4 by (auto simp: consistency_check_def Let_def)
  then show "block_names t1 = block_names t" using e(1) 5(2) by (simp add: check_top_blocks)
qed

end
