(* ===== verification/Codegen_Expanded.thy ===== *)
theory Codegen_Expanded
  imports Codegen_Checked
begin

text \<open>
  Expansion of a checked script: the instances of components become blocks that fit their surroundings, so that the blocks of the
  expanded script are sound and no instance of a component is left.
\<close>

section \<open>Deep copies\<close>

lemma shift_ends [simp]: "wire_source (shift_port n q) = wire_source q" "wire_target (shift_port n q) = wire_target q"
  by (cases q; simp)+

lemma shift_link_ends [simp]: "link_ends (map (shift_node n) ns) = link_ends ns"
proof (induction ns)
  case (Cons m ns)
  then show ?case by (cases m) (auto simp: link_ends_link split: option.splits)
qed simp

lemma shift_names [simp]: "names (map (shift_node n) ns) = names ns"
  by (induction ns rule: names.induct) auto

lemma shift_plain [simp]: "list_all plain_link (map (shift_node n) ns) = list_all plain_link ns"
  by (induction ns rule: names.induct) auto

lemma shift_good [simp]: "good store sg (map (shift_node n) ns) L = good store sg ns L"
  by (induction store sg ns L rule: good.induct) auto

section \<open>Expansion\<close>

definition defs_ok :: "(string \<Rightarrow> metadata option) \<Rightarrow> (string \<Rightarrow> (string list \<times> string list) option) \<Rightarrow> tree \<Rightarrow> bool" where
  "defs_ok store sg defs \<longleftrightarrow>
     (\<forall>c ins outs. sg c = Some (ins, outs) \<longrightarrow>
        (\<exists>as body. find_component defs c = Some (Component c as ins outs body) \<and> hull_ok ins outs (link_ends body) \<and> good_body store sg body))"

text \<open>No instance of a component is left.\<close>

fun expanded :: "node list \<Rightarrow> bool" where
  "expanded [] \<longleftrightarrow> True"
| "expanded (Assignment i ty as m # ns) \<longleftrightarrow> m \<noteq> None \<and> component_of m = None \<and> expanded ns"
| "expanded (Block nsp args body # ns) \<longleftrightarrow> expanded body \<and> expanded ns"
| "expanded (n # ns) \<longleftrightarrow> expanded ns"

text \<open>What a pass over a list of nodes keeps when it does not touch the links.\<close>

definition same_shape :: "node list \<Rightarrow> node list \<Rightarrow> bool" where
  "same_shape ns ms \<longleftrightarrow> link_ends ns = link_ends ms \<and> names ns = names ms \<and> list_all plain_link ns = list_all plain_link ms"

lemma same_shape_refl [simp]: "same_shape ns ns"
  by (simp add: same_shape_def)

lemma same_shape_Cons: "same_shape [n] [m] \<Longrightarrow> same_shape ns ms \<Longrightarrow> same_shape (n # ns) (m # ms)"
  unfolding same_shape_def using link_ends_Cons[of n ns] link_ends_Cons[of m ms] by (cases n; cases m) auto

lemma instance_body_component:
  assumes "defs_ok store sg defs" "fits_type store sg L i ty (Some md)"
  shows "instance_body defs md = None \<Longrightarrow> component_of (Some md) = None"
    "instance_body defs md = Some body \<Longrightarrow>
       \<exists>d. component_of (Some md) = Some d \<and> hull_ok (md_inputs d) (md_outputs d) (link_ends body) \<and> good_body store sg body"
proof -
  have f: "\<exists>as body. instance_body defs md = Some body \<and> hull_ok (md_inputs d) (md_outputs d) (link_ends body) \<and> good_body store sg body"
    if d: "component_of (Some md) = Some d" for d
  proof -
    have "md = Some d" "md_kind d = ComponentType" using d by (auto simp: component_of_def split: option.splits if_splits)
    with assms d show ?thesis by (fastforce simp: fits_type_def defs_ok_def instance_body_def)
  qed
  show "component_of (Some md) = None" if "instance_body defs md = None"
    using f that by (cases "component_of (Some md)") auto
  show "\<exists>d. component_of (Some md) = Some d \<and> hull_ok (md_inputs d) (md_outputs d) (link_ends body) \<and> good_body store sg body"
    if b: "instance_body defs md = Some body"
  proof -
    obtain d where "md = Some d" "md_kind d = ComponentType"
      using b by (auto simp: instance_body_def split: option.splits actor_kind.splits)
    then have d: "component_of (Some md) = Some d" by (simp add: component_of_def)
    with f[OF d] b show ?thesis by auto
  qed
qed

lemma good_block:
  assumes "fits_type store sg L i ty (Some md)" "component_of (Some md) = Some d" "hull_ok (md_inputs d) (md_outputs d) (link_ends body)"
    "good_body store sg body" "same_shape b body" "good store sg b (link_ends body)" "i \<notin> set (names ns)" "good store sg ns L"
  shows "good store sg (Block i args b # ns) L"
  using assms fits_instance[of "md_inputs d" "md_outputs d" "link_ends body" i d L]
  by (auto simp: fits_type_def component_of_iff good_body_def same_shape_def)

text \<open>Induction on a successful expansion.\<close>

lemma expand_induct [consumes 1, case_names Nil Cons]:
  assumes e: "expand store verify defs nodes h = Some r"
    and nil: "\<And>h. P [] h ([], [], h)"
    and cons: "\<And>rec n ns h n' iss1 h1 ns' iss2 h2. (\<And>nodes h r. rec nodes h = Some r \<Longrightarrow> P nodes h r) \<Longrightarrow>
      expand_head rec store verify defs n h = Some (n', iss1, h1) \<Longrightarrow> rec ns h1 = Some (ns', iss2, h2) \<Longrightarrow>
      P (n # ns) h (n' # ns', iss1 @ iss2, h2)"
  shows "P nodes h r"
proof -
  let ?P = "\<lambda>s v d nodes h r. s = store \<longrightarrow> v = verify \<longrightarrow> d = defs \<longrightarrow> P nodes h r"
  have "?P store verify defs nodes h r"
    using e
  proof (rule expand.raw_induct[where P = ?P, rotated])
    fix expand :: "(string \<Rightarrow> metadata option) \<Rightarrow> bool \<Rightarrow> tree \<Rightarrow> node list \<Rightarrow> heap \<Rightarrow> (node list \<times> issue list \<times> heap) option"
      and s v d nodes h r
    assume IH: "\<And>s v d nodes h r. expand s v d nodes h = Some r \<Longrightarrow> ?P s v d nodes h r"
    assume step: "(case nodes of
            [] \<Rightarrow> Some ([], [], h)
          | n # ns \<Rightarrow>
              Option.bind
                (case n of
                   Assignment i ty as m \<Rightarrow>
                     (let (md, iss) = expand_type s d ty m
                      in case instance_body d md of
                           None \<Rightarrow> Some (Assignment i ty as (Some md), iss @ unknown_type v ty md, h)
                         | Some body \<Rightarrow>
                             (let (body', h1) = clone_body body h
                              in Option.bind (expand s v d body' h1) (\<lambda>(b, iss1, h2).
                                   Some (Block i (args_dict as) b, iss @ iss1, h2))))
                 | Block nsp args body \<Rightarrow>
                     Option.bind (expand s v d body h) (\<lambda>(b, iss1, h2). Some (Block nsp args b, iss1, h2))
                 | Component c as is os body \<Rightarrow>
                     Option.bind (expand s v d body h) (\<lambda>(b, iss1, h2). Some (Component c as is os b, iss1, h2))
                 | _ \<Rightarrow> Some (n, [], h))
                (\<lambda>(n', iss1, h1).
                   Option.bind (expand s v d ns h1) (\<lambda>(ns', iss2, h2). Some (n' # ns', iss1 @ iss2, h2)))) = Some r"
    show "?P s v d nodes h r"
    proof (intro impI)
      assume eq: "s = store" "v = verify" "d = defs"
      show "P nodes h r"
      proof (cases nodes)
        case Nil
        then show ?thesis using step nil by auto
      next
        case (Cons n ns)
        obtain n' iss1 h1 ns' iss2 h2 where
          head: "expand_head (expand s v d) s v d n h = Some (n', iss1, h1)"
          and tail: "expand s v d ns h1 = Some (ns', iss2, h2)" and r: "r = (n' # ns', iss1 @ iss2, h2)"
          using step Cons by (auto simp: bind_eq_Some_conv expand_head_def)
        have rec: "P nodes h r" if "expand s v d nodes h = Some r" for nodes h r using IH[OF that] eq by simp
        show ?thesis unfolding r Cons by (rule cons[OF rec head[unfolded eq] tail[unfolded eq]]) (simp_all add: eq)
      qed
    qed
  qed
  then show ?thesis by simp
qed

lemma expand_head_good:
  assumes head: "expand_head rec store verify defs n h = Some (n', iss, h1)"
    and IH: "\<And>nodes h r L. rec nodes h = Some r \<Longrightarrow> good store sg nodes L \<Longrightarrow> good store sg (fst r) L \<and> expanded (fst r) \<and> same_shape (fst r) nodes"
    and defs: "defs_ok store sg defs" and good: "good store sg (n # ns) L" and t: "good store sg ns' L" "expanded ns'" "same_shape ns' ns"
  shows "good store sg (n' # ns') L \<and> expanded (n' # ns') \<and> same_shape [n'] [n]"
proof -
  have names: "names ns' = names ns" using t(3) by (simp add: same_shape_def)
  note head = head[unfolded expand_head_def]
  show ?thesis
  proof (cases n)
    case (Assignment i ty as m)
    then obtain md where m: "m = Some md" "fits_type store sg L i ty (Some md)" "i \<notin> set (names ns)"
      using good by (auto simp: fits_type_def)
    have ty: "expand_type store defs ty m = (md, [])" by (simp add: expand_type_def m)
    show ?thesis
    proof (cases "instance_body defs md")
      case None
      then have "n' = n" using head by (simp add: Assignment ty m(1) expand_type_def)
      moreover have "component_of (Some md) = None" using instance_body_component(1)[OF defs m(2)] None by simp
      ultimately show ?thesis using Assignment m t names by simp
    next
      case (Some body)
      then obtain d where d: "component_of (Some md) = Some d" "hull_ok (md_inputs d) (md_outputs d) (link_ends body)" "good_body store sg body"
        using instance_body_component(2)[OF defs m(2)] by blast
      obtain b iss0 where b: "rec (map (shift_node (hp_next h)) body) (copy_heap h) = Some (b, iss0, h1)"
          "n' = Block i (args_dict as) b"
        using head Some by (auto simp: Assignment ty clone_body_def bind_eq_Some_conv)
      have "good store sg (map (shift_node (hp_next h)) body) (link_ends body)" using d(3) by (simp add: good_body_def)
      with IH[OF b(1)] have x: "good store sg b (link_ends body)" "expanded b" "same_shape b body"
        by (auto simp: same_shape_def)
      show ?thesis
        using good_block[OF m(2) d x(3,1), of ns' "args_dict as"] x(2) b(2) m(3) t names by (simp add: Assignment same_shape_def)
    qed
  next
    case (Block nsp args body)
    then obtain b where b: "rec body h = Some (b, iss, h1)" "n' = Block nsp args b"
      using head by (auto simp: bind_eq_Some_conv)
    have gb: "good store sg body (link_ends body)" using good Block by simp
    with IH[OF b(1) gb] b(2) good Block t names show ?thesis by (auto simp: same_shape_def)
  next
    case (Component c as ins outs body)
    then show ?thesis using good by simp
  qed (use head good t in auto)
qed

definition expand_keeps :: "(string \<Rightarrow> metadata option) \<Rightarrow> tree \<Rightarrow> node list \<Rightarrow> node list \<Rightarrow> bool" where
  "expand_keeps store defs nodes nodes' \<longleftrightarrow>
     (\<forall>sg L. defs_ok store sg defs \<longrightarrow> good store sg nodes L \<longrightarrow> good store sg nodes' L \<and> expanded nodes' \<and> same_shape nodes' nodes)"

lemma expand_good: "expand store verify defs nodes h = Some r \<Longrightarrow> expand_keeps store defs nodes (fst r)"
proof (induction rule: expand_induct)
  case (Cons rec n ns h n' iss1 h1 ns' iss2 h2)
  show ?case
    unfolding expand_keeps_def
  proof (intro allI impI)
    fix sg L
    assume defs: "defs_ok store sg defs" and good: "good store sg (n # ns) L"
    have IH: "good store sg (fst r) L \<and> expanded (fst r) \<and> same_shape (fst r) nodes"
      if "rec nodes h = Some r" "good store sg nodes L" for nodes h r L
      using Cons(1)[OF that(1)] defs that(2) by (auto simp: expand_keeps_def)
    have "good store sg ns L" using good by (cases n) auto
    with IH[OF Cons(3)] have t: "good store sg ns' L" "expanded ns'" "same_shape ns' ns" by auto
    from expand_head_good[OF Cons(2) IH defs good t] same_shape_Cons t(3)
    show "good store sg (fst (n' # ns', iss1 @ iss2, h2)) L \<and> expanded (fst (n' # ns', iss1 @ iss2, h2)) \<and>
        same_shape (fst (n' # ns', iss1 @ iss2, h2)) (n # ns)" by simp
  qed
qed (simp add: expand_keeps_def)

section \<open>Known types\<close>

text \<open>All types are known, also in blocks.\<close>

fun known :: "node list \<Rightarrow> bool" where
  "known [] \<longleftrightarrow> True"
| "known (Assignment i ty as m # ns) \<longleftrightarrow> (\<exists>d. m = Some (Some d)) \<and> known ns"
| "known (Block nsp args body # ns) \<longleftrightarrow> known body \<and> known ns"
| "known (Component c xs ins outs body # ns) \<longleftrightarrow> known body \<and> known ns"
| "known (n # ns) \<longleftrightarrow> known ns"

lemma known_append [simp]: "known (xs @ ys) \<longleftrightarrow> known xs \<and> known ys"
  by (induction xs rule: known.induct) auto

definition clear_known :: "(node list \<times> issue list \<times> heap) \<Rightarrow> bool" where
  "clear_known r \<longleftrightarrow> (clear (fst (snd r)) \<longrightarrow> known (fst r))"

lemma expand_head_known:
  assumes head: "expand_head rec store True defs n h = Some (n', iss, h1)" "clear iss"
    and IH: "\<And>nodes h r. rec nodes h = Some r \<Longrightarrow> clear_known r"
  shows "known [n']"
proof (cases n)
  case (Assignment i ty as m)
  obtain md iss1 where ty: "expand_type store defs ty m = (md, iss1)" by (cases "expand_type store defs ty m")
  show ?thesis
  proof (cases "instance_body defs md")
    case None
    with head ty show ?thesis by (cases md) (auto simp: expand_head_def Assignment unknown_type_def)
  next
    case (Some body)
    with head ty show ?thesis
      by (auto simp: expand_head_def Assignment clone_body_def bind_eq_Some_conv clear_known_def dest!: IH)
  qed
qed (use head in \<open>auto simp: expand_head_def bind_eq_Some_conv clear_known_def dest!: IH\<close>)

lemma expand_known: "expand store True defs nodes h = Some r \<Longrightarrow> clear_known r"
proof (induction rule: expand_induct)
  case (Cons rec n ns h n' iss1 h1 ns' iss2 h2)
  have "known ([n'] @ ns')" if "clear iss1" "clear iss2"
    using expand_head_known[OF Cons(2) that(1) Cons(1)] Cons(1)[OF Cons(3)] that(2) unfolding known_append by (auto simp: clear_known_def)
  then show ?case by (simp add: clear_known_def)
qed (simp add: clear_known_def)

section \<open>Trees\<close>

lemma component_sigs_append [simp]: "component_sigs (xs @ ys) = component_sigs xs @ component_sigs ys"
  by (induction xs rule: component_sigs.induct) auto

lemma block_names_append [simp]: "block_names (xs @ ys) = block_names xs @ block_names ys"
  by (induction xs rule: block_names.induct) auto

lemma expanded_append [simp]: "expanded (xs @ ys) \<longleftrightarrow> expanded xs \<and> expanded ys"
  by (induction xs rule: expanded.induct) auto

lemma good_tree_defs:
  assumes "list_all (good_top store sg) t" "sg = map_of (component_sigs t)"
  shows "defs_ok store sg t"
proof -
  have "map_of (component_sigs t) c = Some (ins, outs) \<Longrightarrow>
      \<exists>as body. find_component t c = Some (Component c as ins outs body) \<and> hull_ok ins outs (link_ends body) \<and> good_body store sg body" for c ins outs
    using assms(1) by (induction t rule: component_sigs.induct) (auto split: if_splits)
  then show ?thesis using assms(2) by (simp add: defs_ok_def)
qed

lemma good_body_same: "good_body store sg body \<Longrightarrow> good store sg b (link_ends body) \<Longrightarrow> same_shape b body \<Longrightarrow> good_body store sg b"
  by (simp add: good_body_def same_shape_def)

lemma expand_top_good:
  assumes e: "expand store verify defs [n] h = Some (ns, iss, h1)" and d: "defs_ok store sg defs" and g: "good_top store sg n"
  shows "\<exists>n'. ns = [n'] \<and> good_top store sg n' \<and> expanded [n'] \<and> component_sigs [n'] = component_sigs [n] \<and> block_names [n'] = block_names [n]"
proof -
  have body: "good_body store sg b \<and> expanded b \<and> link_ends b = link_ends body"
    if "expand store verify defs body h = Some (b, i, h2)" "good_body store sg body" for body h b i h2
    using expand_good[OF that(1)] d that(2) by (auto simp: expand_keeps_def good_body_def same_shape_def)
  show ?thesis
    using e g by (cases n) (auto simp: expand_head_def bind_eq_Some_conv dest: body)
qed

lemma expand_root_good:
  assumes "expand_root store verify visited rest h = Some (t, iss, h1)" "sg = map_of (component_sigs (visited @ rest))"
    "list_all (good_top store sg) (visited @ rest)" "expanded visited"
  shows "list_all (good_top store sg) t \<and> expanded t \<and> block_names t = block_names (visited @ rest)"
  using assms
proof (induction store verify visited rest h arbitrary: t iss h1 rule: expand_root.induct)
  case (2 store verify visited n rest h)
  then obtain ns iss1 h2 iss2 where e: "expand store verify (visited @ n # rest) [n] h = Some (ns, iss1, h2)"
      and r: "expand_root store verify (visited @ ns) rest h2 = Some (t, iss2, h1)"
    by (auto simp: bind_eq_Some_conv)
  have d: "defs_ok store sg (visited @ n # rest)" using good_tree_defs 2(4,3) by blast
  obtain n' where n': "ns = [n']" "good_top store sg n'" "expanded [n']" "component_sigs [n'] = component_sigs [n]" "block_names [n'] = block_names [n]"
    using expand_top_good[OF e d] 2(4) by auto
  have sg: "sg = map_of (component_sigs ((visited @ ns) @ rest))"
    using 2(3) n'(1,4) component_sigs_append[of "[n]" rest] component_sigs_append[of "[n']" rest] by simp
  have "block_names (n' # rest) = block_names (n # rest)"
    using n'(5) block_names_append[of "[n]" rest] block_names_append[of "[n']" rest] by simp
  moreover have "list_all (good_top store sg) ((visited @ ns) @ rest)" "expanded (visited @ ns)" using 2(4,5) n'(1,2,3) by auto
  ultimately show ?case using "2.IH"[OF e[unfolded n'(1)] refl refl, of t iss2 h1] r sg n'(1) by simp
qed auto

lemma good_sound: "good store sg ns L \<Longrightarrow> sound_blocks ns L"
proof (induction store sg ns L rule: good.induct)
  case (3 store sg nsp args body ns L)
  have "set (block_names ns) \<subseteq> set (names ns)" by (induction ns rule: names.induct) auto
  with 3 show ?case by (auto simp: proper_name_def)
qed auto

text \<open>An expanded script without components.\<close>

definition tidy :: "(string \<Rightarrow> metadata option) \<Rightarrow> tree \<Rightarrow> bool" where
  "tidy store t \<longleftrightarrow> (\<exists>sg. list_all (good_top store sg) t) \<and> expanded t \<and> list_all (Not \<circ> is_component) t \<and> distinct (block_names t)"

lemma good_top_ends: "list_all (good_top store sg) t \<Longrightarrow> link_ends t = {} \<and> list_all plain_link t"
proof (induction t)
  case (Cons n t)
  then show ?case by (cases n) auto
qed simp

lemma tidy_sound:
  assumes "tidy store t"
  shows "sound_tree t"
proof -
  obtain sg where sg: "list_all (good_top store sg) t" "list_all (Not \<circ> is_component) t" "distinct (block_names t)" using assms by (auto simp: tidy_def)
  have "sound_blocks t {}"
    using sg
  proof (induction t)
    case (Cons n t)
    then show ?case by (cases n) (auto simp: fits_def good_body_def proper_name_def dest: good_sound)
  qed simp
  with good_top_ends[OF sg(1)] show ?thesis by (simp add: sound_tree_def)
qed

lemma expand_components_tidy:
  assumes e: "expand_components store verify t h = Some (t1, iss, h1)" and g: "list_all (good_top store (map_of (component_sigs t))) t"
    and d: "distinct (block_names t)"
  shows "tidy store t1"
proof -
  obtain t0 where r: "expand_root store verify [] t h = Some (t0, iss, h1)" "t1 = filter (Not \<circ> is_component) t0"
    using e by (auto simp: expand_components_def)
  have k: "list_all (good_top store (map_of (component_sigs t))) t0 \<and> expanded t0 \<and> block_names t0 = block_names t"
    using expand_root_good[OF r(1)] g by auto
  have "expanded t0 \<Longrightarrow> expanded (filter (Not \<circ> is_component) t0)" by (induction t0 rule: expanded.induct) auto
  moreover have "block_names (filter (Not \<circ> is_component) t0) = block_names t0" by (induction t0 rule: block_names.induct) auto
  ultimately show ?thesis using k d r(2) by (auto simp: tidy_def list_all_iff)
qed

lemma expand_root_known:
  "expand_root store True visited rest h = Some (t, iss, h1) \<Longrightarrow> clear iss \<Longrightarrow> known visited \<Longrightarrow> known t"
proof (induction store "True" visited rest h arbitrary: t iss h1 rule: expand_root.induct)
  case (2 store visited n rest h)
  then obtain ns iss1 h2 iss2 where e: "expand store True (visited @ n # rest) [n] h = Some (ns, iss1, h2)"
      and r: "expand_root store True (visited @ ns) rest h2 = Some (t, iss2, h1)" and i: "iss = iss1 @ iss2"
    by (auto simp: bind_eq_Some_conv)
  have "known ns" using expand_known[OF e] 2(3) i by (simp add: clear_known_def)
  with "2.hyps"[OF e refl refl r] 2(3,4) i show ?case by simp
qed simp

lemma expand_components_known:
  assumes "expand_components store True t h = Some (t1, iss, h1)" "clear iss"
  shows "known t1"
proof -
  obtain t0 where r: "expand_root store True [] t h = Some (t0, iss, h1)" "t1 = filter (Not \<circ> is_component) t0"
    using assms(1) by (auto simp: expand_components_def)
  have "known t0 \<Longrightarrow> known (filter (Not \<circ> is_component) t0)" by (induction t0 rule: known.induct) auto
  then show ?thesis using expand_root_known[OF r(1) assms(2)] r(2) by simp
qed

end
