(* ===== verification/Codegen_Served.thy ===== *)
theory Codegen_Served
  imports Codegen_Expanded
begin

text \<open>
  In the wiring of an expanded script every port of every actor is connected, no matter how deep in blocks the actor is, and
  nothing else is.
\<close>

section \<open>One level\<close>

text \<open>The wirings \<open>bw\<close> of the blocks of a level with the links \<open>L\<close>.\<close>

definition level :: "(string \<times> wires) list \<Rightarrow> wires \<Rightarrow> bool" where
  "level bw L \<longleftrightarrow>
     distinct (map fst bw) \<and>
     (\<forall>(n, W)\<in>set bw. proper_name n \<and> fits n W L \<and> (\<forall>s t a p. (s, t) \<in> W \<longrightarrow> s = Actor a p \<or> t = Actor a p \<longrightarrow> a \<noteq> [])) \<and>
     (\<forall>s t a p. (s, t) \<in> L \<longrightarrow> s = Actor a p \<or> t = Actor a p \<longrightarrow> proper_name a)"

text \<open>Outports and inports change their roles when all wires are turned round.\<close>

definition turned :: "(string \<times> wires) list \<Rightarrow> (string \<times> wires) list" where
  "turned bw = map (\<lambda>(n, W). (n, W\<inverse>)) bw"

lemma turned_map_of: "map_of (turned bw) a = map_option converse (map_of bw a)"
  by (induction bw) (auto simp: turned_def)

lemma turned_set: "(n, W) \<in> set (turned bw) \<longleftrightarrow> (n, W\<inverse>) \<in> set bw"
  by (auto simp: turned_def image_iff split: prod.splits)

lemma turned_ends: "sources (turned bw) s = targets bw s" "targets (turned bw) s = sources bw s"
  by (auto simp: sources_def targets_def turned_map_of split: wire_end.splits option.splits)

lemma turned_resolve: "resolve (turned bw) (L\<inverse>) = (resolve bw L)\<inverse>"
proof -
  have "lift (turned bw) (L\<inverse>) = (lift bw L)\<inverse>" by (auto simp: lift_def turned_ends)
  moreover have "qualify_wires n (W\<inverse>) = (qualify_wires n W)\<inverse>" for n W by (auto simp: qualify_wires_def)
  then have "(\<Union>(n, W)\<in>set (turned bw). qualify_wires n W) = (\<Union>(n, W)\<in>set bw. qualify_wires n W)\<inverse>"
    by (simp add: turned_def split_def converse_UNION)
  ultimately show ?thesis by (auto simp: resolve_def)
qed

lemma fits_converse: "fits n (W\<inverse>) (L\<inverse>) \<longleftrightarrow> fits n W L"
  by (auto simp: fits_def)

lemma turned_level: "level bw L \<Longrightarrow> level (turned bw) (L\<inverse>)"
  unfolding level_def by (auto simp: turned_set comp_def turned_def fits_converse split_def) 

lemma level_block:
  assumes "level bw L" "(n, W) \<in> set bw"
  shows "map_of bw n = Some W" "proper_name n" "fits n W L" "(s, t) \<in> W \<Longrightarrow> s = Actor a p \<or> t = Actor a p \<Longrightarrow> a \<noteq> []"
proof -
  show "map_of bw n = Some W" using assms by (simp add: level_def)
  show "proper_name n" "fits n W L" "(s, t) \<in> W \<Longrightarrow> s = Actor a p \<or> t = Actor a p \<Longrightarrow> a \<noteq> []"
    using assms unfolding level_def by blast+
qed

lemma level_name: "level bw L \<Longrightarrow> (s, t) \<in> L \<Longrightarrow> s = Actor a p \<or> t = Actor a p \<Longrightarrow> proper_name a"
  unfolding level_def by blast

lemma sources_nonempty:
  assumes l: "level bw L" "(s, t) \<in> L"
  shows "\<exists>x. x \<in> sources bw s"
proof (cases s)
  case (Actor a p)
  show ?thesis
  proof (cases "map_of bw a")
    case (Some W)
    have f: "fits a W L" using level_block(3)[OF l(1)] Some map_of_SomeD by fastforce
    then obtain s' where "(s', Hull p) \<in> W" using l(2) Actor unfolding fits_def by blast
    moreover from this obtain b q where "s' = Actor b q" using f unfolding fits_def by (cases s') auto
    ultimately show ?thesis using Actor Some by (auto simp: sources_def)
  qed (simp add: Actor sources_def)
qed (simp add: sources_def)

lemma qualify_inside: "j \<noteq> [] \<Longrightarrow> qualify_end n (j, p) = Actor (n @ '':'' @ j) p"
  by (simp add: qualify_end_def qualify_def)

lemma target_origin:
  assumes l: "level bw L" and e: "(s, Actor a p) \<in> resolve bw L"
  shows "map_of bw a = None \<and> (\<exists>s'. (s', Actor a p) \<in> L) \<or>
    (\<exists>n W j s'. (n, W) \<in> set bw \<and> a = n @ '':'' @ j \<and> (s', Actor j p) \<in> W)"
proof -
  from e consider s0 t0 where "(s0, t0) \<in> L" "Actor a p \<in> targets bw t0"
    | n W b q j r where "(n, W) \<in> set bw" "(Actor b q, Actor j r) \<in> W" "Actor a p = qualify_end n (j, r)"
    by (auto simp: resolve_def lift_def qualify_wires_def)
  then show ?thesis
  proof cases
    case 1
    then obtain a' p' where t0: "t0 = Actor a' p'" by (cases t0) (auto simp: targets_def)
    show ?thesis
    proof (cases "map_of bw a'")
      case None
      with 1 t0 show ?thesis by (auto simp: targets_def)
    next
      case (Some W)
      then obtain j r where j: "(Hull p', Actor j r) \<in> W" "Actor a p = qualify_end a' (j, r)" using 1 t0 by (auto simp: targets_def)
      have a': "(a', W) \<in> set bw" using Some by (rule map_of_SomeD)
      moreover have "j \<noteq> []" using level_block(4)[OF l a' j(1)] by blast
      ultimately show ?thesis using j by (auto simp: qualify_inside)
    qed
  next
    case 2
    moreover have "j \<noteq> []" using level_block(4)[OF l 2(1,2)] by blast
    ultimately show ?thesis by (auto simp: qualify_inside)
  qed
qed

lemma target_local: "level bw L \<Longrightarrow> map_of bw a = None \<Longrightarrow> (s', Actor a p) \<in> L \<Longrightarrow> \<exists>s. (s, Actor a p) \<in> resolve bw L"
  using sources_nonempty[of bw L s' "Actor a p"] by (fastforce simp: resolve_def lift_def targets_def)

lemma target_inside:
  assumes l: "level bw L" and n: "(n, W) \<in> set bw" and s: "(s', Actor j p) \<in> W"
  shows "\<exists>s. (s, Actor (n @ '':'' @ j) p) \<in> resolve bw L"
proof -
  have j: "qualify_end n (j, p) = Actor (n @ '':'' @ j) p" using level_block(4)[OF l n s, of j p] by (simp add: qualify_inside)
  show ?thesis
  proof (cases s')
    case (Actor b q)
    then have "(qualify_end n (b, q), qualify_end n (j, p)) \<in> qualify_wires n W" using s by (auto simp: qualify_wires_def)
    then show ?thesis using n j by (auto simp: resolve_def)
  next
    case (Hull q)
    then obtain s0 where s0: "(s0, Actor n q) \<in> L" using level_block(3)[OF l n] s unfolding fits_def by blast
    obtain x where x: "x \<in> sources bw s0" using sources_nonempty[OF l s0] by blast
    have "qualify_end n (j, p) \<in> targets bw (Actor n q)" using level_block(1)[OF l n] s Hull by (auto simp: targets_def)
    with s0 x have "(x, qualify_end n (j, p)) \<in> lift bw L" by (auto simp: lift_def)
    then show ?thesis unfolding j resolve_def by blast
  qed
qed

text \<open>Both directions.\<close>

lemma source_origin:
  assumes l: "level bw L" and e: "(Actor a p, t) \<in> resolve bw L"
  shows "map_of bw a = None \<and> (\<exists>t'. (Actor a p, t') \<in> L) \<or>
    (\<exists>n W j t'. (n, W) \<in> set bw \<and> a = n @ '':'' @ j \<and> (Actor j p, t') \<in> W)"
proof -
  have "(t, Actor a p) \<in> resolve (turned bw) (L\<inverse>)" using e by (simp add: turned_resolve)
  from target_origin[OF turned_level[OF l] this] show ?thesis
    by (auto simp: turned_map_of turned_set) (metis converse_converse converse_iff)
qed

lemma source_local: "level bw L \<Longrightarrow> map_of bw a = None \<Longrightarrow> (Actor a p, t') \<in> L \<Longrightarrow> \<exists>t. (Actor a p, t) \<in> resolve bw L"
  using target_local[OF turned_level, of bw L a t' p] by (simp add: turned_resolve turned_map_of)

lemma source_inside:
  assumes "level bw L" "(n, W) \<in> set bw" "(Actor j p, t') \<in> W"
  shows "\<exists>t. (Actor (n @ '':'' @ j) p, t) \<in> resolve bw L"
  using target_inside[OF turned_level[OF assms(1)], of n "W\<inverse>" t' j p] assms(2,3) by (simp add: turned_resolve turned_set)

lemma wire_origin:
  assumes "level bw L" "(s, t) \<in> resolve bw L" "s = Actor a p \<or> t = Actor a p"
  obtains s' t' where "map_of bw a = None" "(s', t') \<in> L" "s' = Actor a p \<or> t' = Actor a p"
    | n W j s' t' where "(n, W) \<in> set bw" "a = n @ '':'' @ j" "(s', t') \<in> W" "s' = Actor j p \<or> t' = Actor j p"
  using assms(3)
proof
  assume "s = Actor a p"
  with source_origin[OF assms(1), of a p t] assms(2) that show thesis by blast
next
  assume "t = Actor a p"
  with target_origin[OF assms(1), of s a p] assms(2) that show thesis by blast
qed

lemma closedD: "closed xs L \<Longrightarrow> (s, t) \<in> L \<Longrightarrow> s = Actor a p \<or> t = Actor a p \<Longrightarrow> a \<in> set xs"
  unfolding closed_def by blast

lemma name_split: "proper_name n \<Longrightarrow> proper_name n' \<Longrightarrow> n @ '':'' @ j = n' @ '':'' @ j' \<Longrightarrow> n = n' \<and> j = j'"
proof (induction n arbitrary: n')
  case Nil
  then show ?case by (simp add: proper_name_def)
next
  case (Cons c n)
  show ?case
  proof (cases n')
    case Nil
    with Cons(3) show ?thesis by (simp add: proper_name_def)
  next
    case (Cons c' m)
    have c: "c \<noteq> CHR '':''" "c' \<noteq> CHR '':''" using Cons.prems Cons by (auto simp: proper_name_def)
    have "n = [] \<longleftrightarrow> m = []" using Cons.prems Cons by (cases n; cases m) (auto simp: proper_name_def)
    then show ?thesis using Cons.prems Cons Cons.IH[of m] by (cases "n = []") (auto simp: proper_name_def)
  qed
qed

text \<open>A port of an actor in a block is connected exactly if it is inside; one of an actor beside the blocks exactly if it is by the links.\<close>

lemma instance_local:
  assumes l: "level bw L" and a: "map_of bw i = None" "proper_name i" and ok: "instance_ok i d L"
  shows "instance_ok i d (resolve bw L)"
proof -
  have i: "i \<noteq> n @ '':'' @ j" for n j using a(2) by (auto simp: proper_name_def)
  have "(\<exists>s. (s, Actor i p) \<in> resolve bw L) \<longleftrightarrow> (\<exists>s. (s, Actor i p) \<in> L)" for p
    using target_origin[OF l] target_local[OF l a(1)] i by blast
  moreover have "(\<exists>t. (Actor i p, t) \<in> resolve bw L) \<longleftrightarrow> (\<exists>t. (Actor i p, t) \<in> L)" for p
    using source_origin[OF l] source_local[OF l a(1)] i by blast
  ultimately show ?thesis using ok by (simp add: instance_ok_def)
qed

lemma instance_inside:
  assumes l: "level bw L" and n: "(n, W) \<in> set bw" and ok: "instance_ok j d W"
  shows "instance_ok (n @ '':'' @ j) d (resolve bw L)"
proof -
  have only: "n' = n \<and> W' = W \<and> j' = j" if "(n', W') \<in> set bw" "n @ '':'' @ j = n' @ '':'' @ j'" for n' W' j'
    using level_block(1,2)[OF l n] level_block(1,2)[OF l that(1)] name_split[OF _ _ that(2)] by auto
  have out: "\<not> ((s, Actor (n @ '':'' @ j) p) \<in> L \<or> (Actor (n @ '':'' @ j) p, s) \<in> L)" for s p
    using level_name[OF l] by (fastforce simp: proper_name_def)
  have "(\<exists>s. (s, Actor (n @ '':'' @ j) p) \<in> resolve bw L) \<longleftrightarrow> (\<exists>s. (s, Actor j p) \<in> W)" for p
    using target_origin[OF l, of _ "n @ '':'' @ j" p] target_inside[OF l n, of _ j p] only out by blast
  moreover have "(\<exists>t. (Actor (n @ '':'' @ j) p, t) \<in> resolve bw L) \<longleftrightarrow> (\<exists>t. (Actor j p, t) \<in> W)" for p
    using source_origin[OF l, of "n @ '':'' @ j" p] source_inside[OF l n, of j p] only out by blast
  ultimately show ?thesis using ok by (simp add: instance_ok_def)
qed

section \<open>All levels\<close>

text \<open>The actors with their qualified names, types and metadata.\<close>

fun actors_of :: "node list \<Rightarrow> (string \<times> string \<times> metadata) list" where
  "actors_of [] = []"
| "actors_of (Assignment i ty as m # ns) = (case m of Some (Some d) \<Rightarrow> [(i, ty, d)] | _ \<Rightarrow> []) @ actors_of ns"
| "actors_of (Block nsp args body # ns) = map (\<lambda>(i, x). (nsp @ '':'' @ i, x)) (actors_of body) @ actors_of ns"
| "actors_of (n # ns) = actors_of ns"

lemma actors_of_set:
  "(i, ty, d) \<in> set (actors_of ns) \<longleftrightarrow>
     (\<exists>as. Assignment i ty as (Some (Some d)) \<in> set ns) \<or>
     (\<exists>n args body j. Block n args body \<in> set ns \<and> i = n @ '':'' @ j \<and> (j, ty, d) \<in> set (actors_of body))"
proof (induction ns)
  case (Cons n ns)
  show ?case
  proof (cases n)
    case (Block nsp args body)
    have "(i, ty, d) \<in> set (actors_of (n # ns)) \<longleftrightarrow>
        (\<exists>j. i = nsp @ '':'' @ j \<and> (j, ty, d) \<in> set (actors_of body)) \<or> (i, ty, d) \<in> set (actors_of ns)"
      unfolding Block by (force simp: image_iff)
    then show ?thesis unfolding Cons.IH unfolding Block by (simp del: actors_of.simps) blast
  qed (auto simp: Cons.IH split: option.splits)
qed simp

lemma actors_here: "Assignment i ty as (Some (Some d)) \<in> set ns \<Longrightarrow> (i, ty, d) \<in> set (actors_of ns)"
  using actors_of_set[of i ty d ns] by blast

lemma actors_inside: "Block n args body \<in> set ns \<Longrightarrow> (j, ty, d) \<in> set (actors_of body) \<Longrightarrow> (n @ '':'' @ j, ty, d) \<in> set (actors_of ns)"
  using actors_of_set[of "n @ '':'' @ j" ty d ns] by blast

lemma block_wires_set: "(n, W) \<in> set (block_wires ns) \<longleftrightarrow> (\<exists>args body. Block n args body \<in> set ns \<and> W = wiring body)"
  by (induction ns rule: block_wires.induct) (auto simp: wiring_def)

text \<open>All ports of the actors are connected, and what is connected is a port of them.\<close>

definition served :: "(string \<Rightarrow> metadata option) \<Rightarrow> (string \<times> string \<times> metadata) list \<Rightarrow> wires \<Rightarrow> bool" where
  "served store xs W \<longleftrightarrow>
     closed (map fst xs) W \<and> (\<forall>(i, ty, d)\<in>set xs. instance_ok i d W \<and> store ty = Some d \<and> i \<noteq> [] \<and> CHR ''.'' \<notin> set i)"

lemma good_names: "good store sg ns L \<Longrightarrow> distinct (names ns) \<and> (\<forall>a\<in>set (names ns). proper_name a)"
  by (induction store sg ns L rule: good.induct) (auto simp: fits_type_def)

lemma good_assignment: "good store sg ns L \<Longrightarrow> Assignment i ty as m \<in> set ns \<Longrightarrow> fits_type store sg L i ty m \<and> i \<notin> set (block_names ns)"
proof (induction store sg ns L rule: good.induct)
  case (2 store sg j ty' as' m' ns L)
  have "set (block_names ns) \<subseteq> set (names ns)" by (induction ns rule: names.induct) auto
  with 2 show ?case by auto
next
  case (3 store sg nsp args body ns L)
  then show ?case by (auto dest: assignment_name)
qed auto

lemma expanded_assignment: "expanded ns \<Longrightarrow> Assignment i ty as m \<in> set ns \<Longrightarrow> component_of m = None"
  by (induction ns rule: expanded.induct) auto

lemma known_assignment: "known ns \<Longrightarrow> Assignment i ty as m \<in> set ns \<Longrightarrow> \<exists>d. m = Some (Some d)"
  by (induction ns rule: known.induct) auto

lemma name_of: "a \<in> set (names ns) \<Longrightarrow> a \<notin> set (block_names ns) \<Longrightarrow> \<exists>ty as m. Assignment a ty as m \<in> set ns"
  by (induction ns rule: names.induct) auto

lemma block_wires_block: "map_of (block_wires ns) a = None \<longleftrightarrow> a \<notin> set (block_names ns)"
  by (metis block_wires_names map_of_eq_None_iff set_map)

lemma good_level:
  assumes g: "good store sg ns L" and c: "closed (names ns) L"
    and IH: "\<And>n args body. Block n args body \<in> set ns \<Longrightarrow> served store (actors_of body) (wiring body)"
  shows "level (block_wires ns) L"
  unfolding level_def
proof (intro conjI ballI allI impI)
  have "distinct (names ns) \<Longrightarrow> distinct (block_names ns)"
  proof (induction ns rule: names.induct)
    case (3 nsp args body ns)
    have "set (block_names ns) \<subseteq> set (names ns)" by (induction ns rule: names.induct) auto
    with 3 show ?case by auto
  qed auto
  then show "distinct (map fst (block_wires ns))" using good_names[OF g] by (simp add: block_wires_names)
  fix s t a p
  show "proper_name a" if "(s, t) \<in> L" "s = Actor a p \<or> t = Actor a p"
    using that c good_names[OF g] unfolding closed_def by blast
next
  fix x
  assume x: "x \<in> set (block_wires ns)"
  obtain n W where "x = (n, W)" by (cases x)
  then obtain args body where b: "x = (n, wiring body)" "Block n args body \<in> set ns" using x by (auto simp: block_wires_set)
  have "n \<in> set (names ns)" using b(2) by (induction ns rule: names.induct) auto
  then have "proper_name n" using good_names[OF g] by blast
  moreover have "fits n (wiring body) L" using sound_well[OF good_sound[OF g]] x b(1) by auto
  moreover have "a \<noteq> []" if "(s, t) \<in> wiring body" "s = Actor a p \<or> t = Actor a p" for s t a p
    using IH[OF b(2)] that unfolding served_def closed_def by fastforce
  ultimately show "case x of (n, W) \<Rightarrow> proper_name n \<and> fits n W L \<and> (\<forall>s t a p. (s, t) \<in> W \<longrightarrow> s = Actor a p \<or> t = Actor a p \<longrightarrow> a \<noteq> [])"
    using b(1) by blast
qed

lemma served_level:
  assumes g: "good store sg ns (link_ends ns)" and c: "closed (names ns) (link_ends ns)" and e: "expanded ns" "known ns"
    and IH: "\<And>n args body. Block n args body \<in> set ns \<Longrightarrow> served store (actors_of body) (wiring body)"
  shows "served store (actors_of ns) (wiring ns)"
proof -
  have l: "level (block_wires ns) (link_ends ns)" by (rule good_level[OF g c]) (rule IH)
  have loc: "instance_ok i d (wiring ns) \<and> store ty = Some d \<and> i \<noteq> [] \<and> CHR ''.'' \<notin> set i" if "Assignment i ty as (Some (Some d)) \<in> set ns" for i ty as d
  proof -
    have "fits_type store sg (link_ends ns) i ty (Some (Some d))" "i \<notin> set (block_names ns)" using good_assignment[OF g that] by auto
    moreover have "md_kind d \<noteq> ComponentType" using expanded_assignment[OF e(1) that] by (simp add: component_of_def split: if_splits)
    ultimately show ?thesis
      using instance_local[OF l, of i d] by (auto simp: fits_type_def wiring_def block_wires_block proper_name_def)
  qed
  have ins: "instance_ok (n @ '':'' @ j) d (wiring ns) \<and> store ty = Some d \<and> CHR ''.'' \<notin> set (n @ '':'' @ j)"
    if "Block n args body \<in> set ns" "(j, ty, d) \<in> set (actors_of body)" for n args body j ty d
    using instance_inside[OF l, of n "wiring body" j d] IH[OF that(1)] that block_wires_set[of n "wiring body" ns] level_block(2)[OF l, of n "wiring body"]
    by (fastforce simp: served_def wiring_def proper_name_def)
  have here: "a \<in> fst ` set (actors_of ns)" if h: "map_of (block_wires ns) a = None" "a \<in> set (names ns)" for a
  proof -
    obtain ty as m where a: "Assignment a ty as m \<in> set ns" using name_of h unfolding block_wires_block by blast
    with known_assignment[OF e(2)] obtain d where "m = Some (Some d)" by blast
    with a have "(a, ty, d) \<in> set (actors_of ns)" by (simp add: actors_here)
    then show ?thesis by force
  qed
  have inside: "n @ '':'' @ j \<in> fst ` set (actors_of ns)" if h: "(n, W) \<in> set (block_wires ns)" "(s, t) \<in> W" "s = Actor j p \<or> t = Actor j p" for n W j s t p
  proof -
    obtain args body where b: "Block n args body \<in> set ns" "W = wiring body" using h(1) by (auto simp: block_wires_set)
    have "j \<in> set (map fst (actors_of body))" using IH[OF b(1)] h(2,3) closedD unfolding served_def b(2) by blast
    then obtain ty d where "(j, ty, d) \<in> set (actors_of body)" by auto
    with b(1) have "(n @ '':'' @ j, ty, d) \<in> set (actors_of ns)" by (rule actors_inside)
    then show ?thesis by force
  qed
  have "closed (map fst (actors_of ns)) (wiring ns)"
    unfolding closed_def
  proof (intro allI impI)
    fix s t a p
    assume st: "(s, t) \<in> wiring ns" "s = Actor a p \<or> t = Actor a p"
    from wire_origin[OF l st[unfolded wiring_def]] show "a \<in> set (map fst (actors_of ns))"
    proof cases
      case 1
      from here[OF 1(1) closedD[OF c 1(2,3)]] show ?thesis by simp
    next
      case 2
      from inside[OF 2(1,3,4)] 2(2) show ?thesis by simp
    qed
  qed
  moreover have "instance_ok i d (wiring ns) \<and> store ty = Some d \<and> i \<noteq> [] \<and> CHR ''.'' \<notin> set i" if "(i, ty, d) \<in> set (actors_of ns)" for i ty d
    using actors_of_set[of i ty d ns] that loc ins by blast
  ultimately show ?thesis unfolding served_def by blast
qed

lemma served_blocks: "good store sg ns L \<Longrightarrow> expanded ns \<Longrightarrow> known ns \<Longrightarrow> Block n args body \<in> set ns \<Longrightarrow> served store (actors_of body) (wiring body)"
proof (induction store sg ns L arbitrary: n args body rule: good.induct)
  case (3 store sg nsp args' body' ns L)
  have "served store (actors_of body') (wiring body')"
    using 3 by (intro served_level[of store sg body']) auto
  with 3 show ?case by auto
qed auto

theorem tidy_served:
  assumes "tidy store t" "known t"
  shows "served store (actors_of t) (wiring t)"
proof -
  obtain sg where t: "list_all (good_top store sg) t" "expanded t" "list_all (Not \<circ> is_component) t" "distinct (block_names t)"
    using assms(1) by (auto simp: tidy_def)
  have names: "names t = block_names t" using t(1) by (induction t rule: names.induct) auto
  have "good store sg t {}"
    using t(1,3,4) unfolding names[symmetric]
  proof (induction t)
    case (Cons n t)
    then show ?case by (cases n) (auto simp: fits_def good_body_def)
  qed simp
  then show ?thesis using good_top_ends[OF t(1)] t(2) assms(2)
    by (intro served_level[of store sg t] served_blocks[of store sg t "{}"]) (auto simp: closed_def)
qed

end
