(* ===== verification/Codegen_Deployed.thy ===== *)
theory Codegen_Deployed
  imports Codegen_Served
begin

text \<open>
  From the expanded script to the application: collecting port properties and flattening keep wiring and actors, and the
  application lists them.
\<close>

section \<open>Collecting port properties\<close>

definition same_meaning :: "node list \<Rightarrow> node list \<Rightarrow> bool" where
  "same_meaning ns ms \<longleftrightarrow>
     link_ends ns = link_ends ms \<and> block_wires ns = block_wires ms \<and> block_names ns = block_names ms \<and>
     (\<forall>L. sound_blocks ns L = sound_blocks ms L) \<and> list_all plain_link ns = list_all plain_link ms \<and> instances ns = instances ms"

lemma same_meaning_Cons: "same_meaning [n] [m] \<Longrightarrow> same_meaning ns ms \<Longrightarrow> same_meaning (n # ns) (m # ms)"
  unfolding same_meaning_def using link_ends_Cons[of n ns] link_ends_Cons[of m ms] by (cases n; cases m) auto

lemma collect_properties_meaning: "collect_properties body ns h = (ns', h') \<Longrightarrow> same_meaning ns' ns"
proof (induction body ns h arbitrary: ns' h' rule: collect_properties.induct)
  case (1 body h)
  then show ?case by (simp add: same_meaning_def)
next
  case (2 body p ns h)
  then show ?case by (auto simp: same_meaning_def)
next
  case (3 body i ty as m ns h)
  then show ?case by (auto simp: Let_def same_meaning_def split: prod.splits)
next
  case (4 body nsp args b ns h)
  obtain b' h1 where b: "collect_properties b b h = (b', h1)" by (cases "collect_properties b b h")
  obtain ms h2 where n: "collect_properties body ns h1 = (ms, h2)" by (cases "collect_properties body ns h1")
  have "same_meaning b' b" "same_meaning ms ns" using 4(1)[OF b] 4(2)[OF b[symmetric] refl n] by auto
  then show ?case using 4(3) b n by (auto simp: same_meaning_def)
qed (auto split: prod.splits intro!: same_meaning_Cons simp: same_meaning_def link_ends_link)

lemma collect_meaning: "same_meaning (fst (collect_port_properties t h)) t"
  using collect_properties_meaning[of t t h] by (cases "collect_properties t t h") (auto simp: collect_port_properties_def)

lemma same_meaning_sound: "same_meaning ns ms \<Longrightarrow> sound_tree ns = sound_tree ms \<and> wiring ns = wiring ms"
  by (auto simp: same_meaning_def sound_tree_def wiring_def)

section \<open>Flattening\<close>

lemma flatten_plain:
  assumes "sound_tree t"
  shows "list_all plain_link (fst (flatten t h))"
proof -
  have w: "well_blocks t" "\<forall>(n, W)\<in>set (block_wires t). fits n W (link_ends (filter (Not \<circ> is_block) t))"
    "list_all plain_link (filter (Not \<circ> is_block) t)"
    using assms sound_well[of t "link_ends t"] by (auto simp: sound_tree_def list_all_iff)
  show ?thesis
    using flatten_blocks_wiring(2)[of t "filter (Not \<circ> is_block) t" h, OF _ w(1,3,2)]
    by (cases "flatten_blocks t (filter (Not \<circ> is_block) t) h") (simp add: flatten_def)
qed

lemma known_instances: "known ns \<Longrightarrow> (i, ty, m) \<in> set (instances ns) \<Longrightarrow> \<exists>d. m = Some (Some d)"
  by (induction ns arbitrary: i rule: known.induct) auto

lemma actors_instances: "(i, ty, d) \<in> set (actors_of ns) \<longleftrightarrow> (i, ty, Some (Some d)) \<in> set (instances ns)"
proof (induction ns arbitrary: i rule: actors_of.induct)
  case (3 nsp args body ns)
  have "(i, ty, d) \<in> (\<lambda>(i, x). (nsp @ '':'' @ i, x)) ` set (actors_of body) \<longleftrightarrow>
      (i, ty, Some (Some d)) \<in> (\<lambda>(i, x). (nsp @ '':'' @ i, x)) ` set (instances body)"
    using 3(1) by (force simp: image_iff)
  then show ?case using 3(2) by simp
qed (auto split: option.splits)

lemma flat_instances:
  assumes "list_all (Not \<circ> is_block) ns"
  shows "(i, ty, m) \<in> set (instances ns) \<longleftrightarrow> (\<exists>as. Assignment i ty as m \<in> set ns)"
  using assms by (induction ns rule: instances.induct) auto

section \<open>Emission\<close>

text \<open>Coalescing and merging change port properties only.\<close>

fun no_property :: "node \<Rightarrow> bool" where
  "no_property (Property p) \<longleftrightarrow> False"
| "no_property n \<longleftrightarrow> True"

lemma coalesced_properties: "coalesced_nodes d h = (ns, h') \<Longrightarrow> filter no_property ns = []"
  by (induction d h arbitrary: ns h' rule: coalesced_nodes.induct) (auto split: prod.splits)

lemma coalesce_keeps: "coalesce_properties t h = (t', h') \<Longrightarrow> filter no_property t' = filter no_property t"
  by (auto simp: coalesce_properties_def Let_def dest: coalesced_properties split: prod.splits)

lemma merge_keeps: "merge_properties t h = (Inr (t', iss), h') \<Longrightarrow> filter no_property t' = filter no_property t"
proof (induction t h arbitrary: t' iss h' rule: merge_properties.induct)
  case (2 p ns h)
  then show ?case by (auto simp: and_then_def split: prod.splits sum.splits)
qed (auto simp: and_then_def split: prod.splits sum.splits)

lemma filter_no_property: "Assignment i ty as m \<in> set t \<longleftrightarrow> Assignment i ty as m \<in> set (filter no_property t)"
  "Link src dst \<in> set t \<longleftrightarrow> Link src dst \<in> set (filter no_property t)"
  by auto

text \<open>The connections and actors of an application.\<close>

definition connected :: "deployable \<Rightarrow> string \<Rightarrow> string \<Rightarrow> bool" where
  "connected app k v \<longleftrightarrow> (\<exists>vs. dget (app_connections app) k = Some vs \<and> v \<in> set vs)"

definition is_actor :: "deployable \<Rightarrow> string \<Rightarrow> string \<Rightarrow> bool" where
  "is_actor app i ty \<longleftrightarrow> (\<exists>a. dget (app_actors app) i = Some a \<and> ai_type a = ty)"

lemma connected_append:
  "connected (app\<lparr>app_connections := append_to k' v' (app_connections app)\<rparr>) k v \<longleftrightarrow> connected app k v \<or> k = k' \<and> v = v'"
  by (cases "dget (app_connections app) k'") (auto simp: connected_def append_to_def opt_default_def)

lemma same_connections [simp]:
  "connected (app\<lparr>app_actors := x\<rparr>) k v = connected app k v" "connected (app\<lparr>app_port_properties := y\<rparr>) k v = connected app k v"
  "is_actor (app\<lparr>app_connections := z\<rparr>) i ty = is_actor app i ty" "is_actor (app\<lparr>app_port_properties := y\<rparr>) i ty = is_actor app i ty"
  "connected (app\<lparr>app_valid := b\<rparr>) k v = connected app k v" "is_actor (app\<lparr>app_valid := b\<rparr>) = is_actor app"
  by (simp_all add: connected_def is_actor_def fun_eq_iff)

lemma is_actor_put:
  "is_actor (app\<lparr>app_actors := dput j a (app_actors app)\<rparr>) i ty \<longleftrightarrow> (if i = j then ai_type a = ty else is_actor app i ty)"
  by (simp add: is_actor_def)

definition typed_node :: "node \<Rightarrow> bool" where
  "typed_node n \<longleftrightarrow> (\<forall>i ty as m. n = Assignment i ty as m \<longrightarrow> (\<exists>d. m = Some (Some d)))"

lemma emit_connected:
  "connected (fst (emit_node sign h n s)) k v \<longleftrightarrow> connected (fst s) k v \<or> (\<exists>src dst. n = Link src dst \<and> k = port_text src \<and> v = port_text dst)"
  by (cases s; cases n) (auto simp: connected_append Let_def split: prod.splits option.splits)

lemma emit_actor:
  assumes "typed_node n"
  shows "is_actor (fst (emit_node sign h n s)) i ty \<longleftrightarrow>
    (\<exists>as m. n = Assignment i ty as m) \<or> is_actor (fst s) i ty \<and> (\<forall>ty as m. n \<noteq> Assignment i ty as m)"
  using assms by (cases s; cases n) (auto simp: typed_node_def is_actor_put Let_def split: prod.splits option.splits)

lemma emitted_connections:
  "connected (fst (fold (emit_node sign h) t s)) k v \<longleftrightarrow>
     connected (fst s) k v \<or> (\<exists>src dst. Link src dst \<in> set t \<and> k = port_text src \<and> v = port_text dst)"
proof (induction t arbitrary: s)
  case (Cons n t)
  show ?case unfolding fold.simps o_apply Cons.IH emit_connected by auto
qed simp

lemma emitted_actors:
  assumes "list_all typed_node t"
  shows "is_actor (fst (fold (emit_node sign h) t s)) i ty \<Longrightarrow> is_actor (fst s) i ty \<or> (\<exists>as m. Assignment i ty as m \<in> set t)"
    "is_actor (fst s) i ty \<or> Assignment i ty as m \<in> set t \<Longrightarrow> \<exists>ty. is_actor (fst (fold (emit_node sign h) t s)) i ty"
  using assms
proof (induction t arbitrary: s ty as m)
  case (Cons n t)
  {
    case 1
    then have "is_actor (fst (emit_node sign h n s)) i ty \<or> (\<exists>as m. Assignment i ty as m \<in> set t)" using Cons.IH(1) by simp
    then show ?case using 1 by (auto simp: emit_actor)
  next
    case 2
    then have "(\<exists>ty. is_actor (fst (emit_node sign h n s)) i ty) \<or> Assignment i ty as m \<in> set t"
      by (cases n) (auto simp: emit_actor)
    then obtain ty' where "is_actor (fst (emit_node sign h n s)) i ty' \<or> Assignment i ty' as m \<in> set t" by auto
    from Cons.IH(2)[OF this] 2(2) show ?case by simp
  }
qed auto

section \<open>From script to application\<close>

definition at_port :: "string \<Rightarrow> string \<Rightarrow> string" where
  "at_port a p = a @ ''.'' @ p"

lemma at_port_inj: "CHR ''.'' \<notin> set a \<Longrightarrow> CHR ''.'' \<notin> set b \<Longrightarrow> at_port a p = at_port b q \<longleftrightarrow> a = b \<and> p = q"
proof (induction a arbitrary: b)
  case Nil
  then show ?case by (cases b) (auto simp: at_port_def)
next
  case (Cons c a)
  then show ?case by (cases b) (auto simp: at_port_def)
qed

lemma wiring_actors:
  assumes "tidy store t" "(s, e) \<in> wiring t"
  shows "\<exists>a p b q. s = Actor a p \<and> e = Actor b q"
proof -
  have "link_ends t = {}" using assms(1) good_top_ends by (auto simp: tidy_def)
  then show ?thesis using assms(2) by (auto simp: wiring_def resolve_def lift_def qualify_wires_def qualify_end_def)
qed

lemma port_text_source: "wire_source q = Some (Actor a p) \<Longrightarrow> port_text q = at_port a p"
  by (cases q) (auto simp: port_text_def at_port_def)

lemma port_text_target: "wire_target q = Some (Actor a p) \<Longrightarrow> port_text q = at_port a p"
  by (cases q) (auto simp: port_text_def at_port_def)

text \<open>What follows the expansion.\<close>

definition emitted_from :: "deployable \<Rightarrow> tree \<Rightarrow> bool" where
  "emitted_from app t \<longleftrightarrow>
     (\<forall>k v. connected app k v \<longleftrightarrow> (\<exists>a p b q. (Actor a p, Actor b q) \<in> wiring t \<and> k = at_port a p \<and> v = at_port b q)) \<and>
     (\<forall>i ty. is_actor app i ty \<longrightarrow> (\<exists>d. (i, ty, d) \<in> set (actors_of t))) \<and>
     (\<forall>i ty d. (i, ty, d) \<in> set (actors_of t) \<longrightarrow> (\<exists>ty. is_actor app i ty))"

lemma phase2_emits:
  assumes t: "tidy store t1" "known t1"
    and p: "collect_port_properties t1 h1 = (t2, h2)" "flatten t2 h2 = (t3, h3)" "coalesce_properties t3 h3 = (t4, h4)"
      "merge_properties t4 h4 = (Inr (t5, iss), h5)"
  shows "emitted_from (fst (generate_app_info sign name t5 h)) t1"
proof -
  have m: "same_meaning t2 t1" using collect_meaning[of t1 h1] p(1) by simp
  have snd: "sound_tree t2" "wiring t2 = wiring t1" using same_meaning_sound[OF m] tidy_sound[OF t(1)] by auto
  have t3: "link_ends t3 = wiring t1" "list_all plain_link t3" "set (instances t3) = set (instances t1)" "list_all (Not \<circ> is_block) t3"
    using flatten_wiring[OF snd(1), of h2] flatten_plain[OF snd(1), of h2] flatten_instances[of t2 h2] snd(2) m p(2) by (auto simp: same_meaning_def)
  have same: "filter no_property t5 = filter no_property t3" using coalesce_keeps[OF p(3)] merge_keeps[OF p(4)] by simp
  have assigned: "(\<exists>as. Assignment i ty as m \<in> set t5) \<longleftrightarrow> (i, ty, m) \<in> set (instances t1)" for i ty m
    using filter_no_property(1) same flat_instances[OF t3(4), of i ty m] t3(3) by metis
  have "\<exists>d. m = Some (Some d)" if "Assignment i ty as m \<in> set t5" for i ty as m
    using known_instances[OF t(2)] assigned that by blast
  then have typed: "list_all typed_node t5" by (auto simp: list_all_iff typed_node_def)
  have linked: "Link src dst \<in> set t5 \<longleftrightarrow> Link src dst \<in> set t3" for src dst using filter_no_property(2) same by metis
  have conn: "(\<exists>src dst. Link src dst \<in> set t5 \<and> k = port_text src \<and> v = port_text dst) \<longleftrightarrow>
      (\<exists>a p b q. (Actor a p, Actor b q) \<in> wiring t1 \<and> k = at_port a p \<and> v = at_port b q)" for k v
  proof
    assume "\<exists>src dst. Link src dst \<in> set t5 \<and> k = port_text src \<and> v = port_text dst"
    then obtain src dst where l: "Link src dst \<in> set t3" "k = port_text src" "v = port_text dst" unfolding linked by blast
    obtain s e where "wire_source src = Some s" "wire_target dst = Some e" "(s, e) \<in> wiring t1" using plain_links[OF t3(2) l(1)] t3(1) by auto
    with wiring_actors[OF t(1)] l show "\<exists>a p b q. (Actor a p, Actor b q) \<in> wiring t1 \<and> k = at_port a p \<and> v = at_port b q"
      by (metis port_text_source port_text_target)
  next
    assume "\<exists>a p b q. (Actor a p, Actor b q) \<in> wiring t1 \<and> k = at_port a p \<and> v = at_port b q"
    then obtain a p b q where w: "(Actor a p, Actor b q) \<in> link_ends t3" "k = at_port a p" "v = at_port b q" unfolding t3(1) by blast
    obtain src dst where "Link src dst \<in> set t3" "wire_source src = Some (Actor a p)" "wire_target dst = Some (Actor b q)"
      using w(1) by (rule link_endsE)
    then show "\<exists>src dst. Link src dst \<in> set t5 \<and> k = port_text src \<and> v = port_text dst"
      unfolding linked w using port_text_source port_text_target by metis
  qed
  let ?s0 = "(\<lparr>app_name = name, app_actors = [], app_connections = [], app_port_properties = [], app_valid = True\<rparr>, [])"
  have none: "\<not> connected (fst ?s0) k v" "\<not> is_actor (fst ?s0) i ty" for k v i ty by (simp_all add: connected_def is_actor_def)
  show ?thesis
    unfolding emitted_from_def generate_app_info_def
  proof (intro conjI allI impI)
    fix k v
    show "connected (fst (fold (emit_node sign h) t5 ?s0)) k v \<longleftrightarrow> (\<exists>a p b q. (Actor a p, Actor b q) \<in> wiring t1 \<and> k = at_port a p \<and> v = at_port b q)"
      unfolding emitted_connections conn using none(1) by blast
  next
    fix i ty
    assume "is_actor (fst (fold (emit_node sign h) t5 ?s0)) i ty"
    with emitted_actors(1)[OF typed] none(2) obtain as m where a: "Assignment i ty as m \<in> set t5" by blast
    with assigned known_instances[OF t(2)] show "\<exists>d. (i, ty, d) \<in> set (actors_of t1)" unfolding actors_instances by blast
  next
    fix i ty d
    assume "(i, ty, d) \<in> set (actors_of t1)"
    then obtain as where "Assignment i ty as (Some (Some d)) \<in> set t5" using assigned unfolding actors_instances by blast
    with emitted_actors(2)[OF typed] show "\<exists>ty. is_actor (fst (fold (emit_node sign h) t5 ?s0)) i ty" by blast
  qed
qed

section \<open>The application\<close>

text \<open>
  A script without errors, in which no instance of a component is linked to itself; \<open>h\<close> is the heap of the parser.
\<close>

lemma generated:
  assumes s: "script t" "block_names t = [''__scriptname__'']" "proper_name name" and a: "actors_only store"
    and p: "phase1 store (name_program name t) h = (t1, iss1, h1)" and f: "list_all no_feedback t1"
    and g: "generate_code store sign True name t h = Some (Inr (app, iss))" and v: "app_valid app"
  obtains t2 iss2 h2 where "expand_components store True t1 h1 = Some (t2, iss2, h2)" "tidy store t2" "known t2" "emitted_from app t2"
proof -
  obtain r where r: "phase2 store True t1 h1 = Some r" using g by (auto simp: generate_code_def p)
  obtain t2 iss2 h2 where e: "expand_components store True t1 h1 = Some (t2, iss2, h2)"
    using r by (auto simp: phase2_def bind_eq_Some_conv)
  obtain t3 h3 where 3: "collect_port_properties t2 h2 = (t3, h3)" by (cases "collect_port_properties t2 h2")
  obtain t4 h4 where 4: "flatten t3 h3 = (t4, h4)" by (cases "flatten t3 h3")
  obtain t5 h5 where 5: "coalesce_properties t4 h4 = (t5, h5)" by (cases "coalesce_properties t4 h4")
  obtain m h6 where 6: "merge_properties t5 h5 = (m, h6)" by (cases "merge_properties t5 h5")
  obtain t6 iss6 where m: "m = Inr (t6, iss6)"
    using g by (cases m) (auto simp: generate_code_def p phase2_def e 3 4 5 6 and_then_def)
  obtain iss7 where 7: "check_properties t6 h6 = Inr iss7"
    using g by (cases "check_properties t6 h6") (auto simp: generate_code_def p phase2_def e 3 4 5 6 m and_then_def)
  obtain app0 iss8 where 8: "generate_app_info sign name t6 h6 = (app0, iss8)" by (cases "generate_app_info sign name t6 h6")
  have app: "app = app0\<lparr>app_valid := error_count iss = 0\<rparr>" "iss = iss1 @ (iss2 @ iss6 @ iss7) @ iss8"
    using g by (auto simp: generate_code_def p phase2_def e 3 4 5 6 7 8 m and_then_def)
  have clear: "clear iss1" "clear iss2" using v app by (auto simp: clear_def)
  have s': "script (name_program name t)" "block_names (name_program name t) = [name]"
    using name_program_script[OF s(1,3)] name_program_blocks[OF s(2)] by auto
  note good = phase1_good[OF p clear(1) s'(1) a f]
  have tidy: "tidy store t2" "known t2"
    using expand_components_tidy[OF e good(1)] expand_components_known[OF e clear(2)] good(2) s'(2) by auto
  have "emitted_from app0 t2" using phase2_emits[OF tidy 3 4 5 6[unfolded m], of sign name h6] 8 by simp
  then have "emitted_from app t2" unfolding app(1) emitted_from_def by simp
  with e tidy show thesis by (rule that)
qed

text \<open>What is emitted of a script whose actors are all served.\<close>

lemma deployed_closed:
  assumes e: "emitted_from app t" and s: "served store (actors_of t) (wiring t)" and c: "connected app k v"
  shows "\<exists>i p j q ty ty'. k = at_port i p \<and> v = at_port j q \<and> is_actor app i ty \<and> is_actor app j ty'"
proof -
  obtain i p j q where w: "(Actor i p, Actor j q) \<in> wiring t" "k = at_port i p" "v = at_port j q"
    using e c unfolding emitted_from_def by blast
  have cl: "closed (map fst (actors_of t)) (wiring t)" using s unfolding served_def by blast
  have "\<exists>ty. is_actor app a ty" if a: "a \<in> set (map fst (actors_of t))" for a
  proof -
    obtain ty d where "(a, ty, d) \<in> set (actors_of t)" using a by auto
    then show ?thesis using e unfolding emitted_from_def by blast
  qed
  with closedD[OF cl w(1), of i p] closedD[OF cl w(1), of j q] w(2,3) show ?thesis by blast
qed

lemma deployed_complete:
  assumes t: "tidy store t" "known t" and e: "emitted_from app t" and s: "served store (actors_of t) (wiring t)" and a: "is_actor app i ty"
  shows "\<exists>d. store ty = Some d \<and> (\<forall>p. p \<in> set (md_inputs d) \<longleftrightarrow> (\<exists>k. connected app k (at_port i p)))
    \<and> (\<forall>p. p \<in> set (md_outputs d) \<longleftrightarrow> (\<exists>v. connected app (at_port i p) v))"
proof -
  obtain d where d: "(i, ty, d) \<in> set (actors_of t)" using e a unfolding emitted_from_def by blast
  have dot: "CHR ''.'' \<notin> set b" if "b \<in> set (map fst (actors_of t))" for b using that s unfolding served_def by auto
  have ends: "CHR ''.'' \<notin> set b" if "(x, y) \<in> wiring t" "x = Actor b q \<or> y = Actor b q" for x y b q
    using s that closedD dot unfolding served_def by blast
  have i: "instance_ok i d (wiring t)" "store ty = Some d" "CHR ''.'' \<notin> set i" using s d unfolding served_def by auto
  have "(\<exists>k. connected app k (at_port i p)) \<longleftrightarrow> (\<exists>x. (x, Actor i p) \<in> wiring t)" for p
  proof
    assume "\<exists>k. connected app k (at_port i p)"
    then obtain a r b q where w: "(Actor a r, Actor b q) \<in> wiring t" "at_port i p = at_port b q" using e unfolding emitted_from_def by blast
    then have "b = i" "q = p" using at_port_inj[OF i(3) ends[OF w(1)], of b q p q] by auto
    with w show "\<exists>x. (x, Actor i p) \<in> wiring t" by blast
  next
    assume "\<exists>x. (x, Actor i p) \<in> wiring t"
    then obtain a r where "(Actor a r, Actor i p) \<in> wiring t" using wiring_actors[OF t(1)] by blast
    then show "\<exists>k. connected app k (at_port i p)" using e unfolding emitted_from_def by blast
  qed
  moreover have "(\<exists>v. connected app (at_port i p) v) \<longleftrightarrow> (\<exists>y. (Actor i p, y) \<in> wiring t)" for p
  proof
    assume "\<exists>v. connected app (at_port i p) v"
    then obtain a r b q where w: "(Actor a r, Actor b q) \<in> wiring t" "at_port i p = at_port a r" using e unfolding emitted_from_def by blast
    then have "a = i" "r = p" using at_port_inj[OF i(3) ends[OF w(1)], of a r p r] by auto
    with w show "\<exists>y. (Actor i p, y) \<in> wiring t" by blast
  next
    assume "\<exists>y. (Actor i p, y) \<in> wiring t"
    then obtain b q where "(Actor i p, Actor b q) \<in> wiring t" using wiring_actors[OF t(1)] by blast
    then show "\<exists>v. connected app (at_port i p) v" using e unfolding emitted_from_def by blast
  qed
  ultimately show ?thesis using i(1,2) unfolding instance_ok_def by auto
qed

end
