(* ===== verification/Codegen_Recursion.thy ===== *)
theory Codegen_Recursion
  imports Codegen_Expanded
begin

text \<open>
  When the expansion of components ends: a component with an instance of itself is expanded for ever, and a script whose components
  can be ranked, so that each contains instances of lower ones only, is always expanded.
\<close>

section \<open>Components inside components\<close>

text \<open>The local types a block has instances of.\<close>

definition local_types :: "node list \<Rightarrow> string set" where
  "local_types ns = {ty. is_local_component ty \<and> (\<exists>i as m. Assignment i ty as m \<in> set ns)}"

fun contents :: "node \<Rightarrow> string option \<times> string set" where
  "contents (Component c xs ins outs body) = (Some c, local_types body)"
| "contents (Block nsp args body) = (None, local_types body)"
| "contents n = (None, {})"

lemma local_types_simps [simp]:
  "local_types [] = {}" "local_types (xs @ ys) = local_types xs \<union> local_types ys"
  by (auto simp: local_types_def)

lemma local_types_node [simp]:
  "local_types (Assignment i ty as m # ns) = (if is_local_component ty then insert ty (local_types ns) else local_types ns)"
  "local_types (Link src dst # ns) = local_types ns" "local_types (Property p # ns) = local_types ns"
  "local_types (Constant c a # ns) = local_types ns" "local_types (Block nsp args body # ns) = local_types ns"
  "local_types (Component c xs ins outs body # ns) = local_types ns"
  by (auto simp: local_types_def)

text \<open>The rewriting of links adds actors of the library only.\<close>

definition adds_actors :: "'s link_visitor \<Rightarrow> bool" where
  "adds_actors f \<longleftrightarrow> (\<forall>src dst s here new s1. f src dst s = (here, new, s1) \<longrightarrow> local_types (here @ new) = {})"

lemma rewrite_links_types:
  "rewrite_links f ns s = (ns', new, s') \<Longrightarrow> adds_actors f \<Longrightarrow> list_all (stmt Q) ns \<Longrightarrow> local_types (ns' @ new) = local_types ns"
proof (induction ns arbitrary: ns' new s s')
  case (Cons n ns)
  show ?case
  proof (cases n)
    case (Link src dst)
    obtain here new1 s1 where 1: "f src dst s = (here, new1, s1)" by (metis prod_cases3)
    obtain ns2 new2 s2 where 2: "rewrite_links f ns s1 = (ns2, new2, s2)" by (metis prod_cases3)
    have n: "ns' = here @ ns2" "new = new1 @ new2" using Cons.prems(1) 1 2 Link by simp_all
    have "local_types (here @ new1) = {}" using Cons.prems(2) 1 unfolding adds_actors_def by blast
    moreover have "local_types (ns2 @ new2) = local_types ns" using Cons.IH[OF 2 Cons.prems(2)] Cons.prems(3) by simp
    ultimately show ?thesis by (simp add: n Link)
  next
    case (Assignment i ty as m)
    obtain ns2 new2 s2 where 2: "rewrite_links f ns s = (ns2, new2, s2)" by (metis prod_cases3)
    have n: "ns' = Assignment i ty as m # ns2" "new = new2" using Cons.prems(1) 2 Assignment by simp_all
    have "local_types (ns2 @ new2) = local_types ns" using Cons.IH[OF 2 Cons.prems(2)] Cons.prems(3) by simp
    then show ?thesis by (simp add: n Assignment)
  next
    case (Property p)
    obtain ns2 new2 s2 where 2: "rewrite_links f ns s = (ns2, new2, s2)" by (metis prod_cases3)
    have n: "ns' = Property p # ns2" "new = new2" using Cons.prems(1) 2 Property by simp_all
    have "local_types (ns2 @ new2) = local_types ns" using Cons.IH[OF 2 Cons.prems(2)] Cons.prems(3) by simp
    then show ?thesis by (simp add: n Property)
  qed (use Cons.prems(3) in simp_all)
qed simp

lemma rewrite_tree_contents:
  assumes "rewrite_tree f t s = (t', s')" "adds_actors f" "list_all (top_stmt Q) t"
  shows "map contents t' = map contents t"
proof -
  have "rewrite_links f t s = (t1, new, s1) \<Longrightarrow> list_all (top_stmt Q) t \<Longrightarrow> map contents t1 = map contents t \<and> new = []" for t1 new s1 s
  proof (induction t arbitrary: s t1 new s1)
    case (Cons n t)
    show ?case
    proof (cases n)
      case (Component c xs ins outs body)
      obtain b1 n1 s1 where 1: "rewrite_links f body s = (b1, n1, s1)" by (metis prod_cases3)
      with rewrite_links_types[OF 1 assms(2)] Cons show ?thesis by (auto simp: Component split: prod.splits)
    next
      case (Block nsp args body)
      obtain b1 n1 s1 where 1: "rewrite_links f body s = (b1, n1, s1)" by (metis prod_cases3)
      with rewrite_links_types[OF 1 assms(2)] Cons show ?thesis by (auto simp: Block split: prod.splits)
    qed (use Cons in \<open>auto split: prod.splits\<close>)
  qed simp
  then show ?thesis using assms(1,3) by (cases "rewrite_links f t s") (auto simp: rewrite_tree_def)
qed

lemma library_types [simp]:
  "\<not> is_local_component ''std.Constant''" "\<not> is_local_component ''std.Constantify''" "\<not> is_local_component ''flow.Void''"
  "\<not> is_local_component ''flow.Terminator''"
  by (simp_all add: is_local_component_def)

lemma local_types_links [simp]: "local_types (map (Link src) ps) = {}"
  by (auto simp: local_types_def)

lemma adds_actors_passes: "adds_actors implicit_outport" "adds_actors portlist_links" "adds_actors implicit_inport" "adds_actors void_ports"
proof -
  show "adds_actors implicit_outport"
    unfolding adds_actors_def
  proof (intro allI impI)
    fix src dst s here new s1
    assume "implicit_outport src dst s = (here, new, s1)"
    then show "local_types (here @ new) = {}"
      by (cases src; cases s) (auto split: prod.splits)
  qed
  show "adds_actors portlist_links"
    unfolding adds_actors_def
  proof (intro allI impI)
    fix src dst and s :: unit and here new s1
    assume "portlist_links src dst s = (here, new, s1)"
    then show "local_types (here @ new) = {}" by (cases dst) auto
  qed
  show "adds_actors implicit_inport"
    unfolding adds_actors_def
  proof (intro allI impI)
    fix src dst s here new s1
    assume "implicit_inport src dst s = (here, new, s1)"
    then show "local_types (here @ new) = {}"
      by (cases dst; cases s) (auto split: prod.splits)
  qed
  show "adds_actors void_ports"
    unfolding adds_actors_def
  proof (intro allI impI)
    fix src dst s here new s1
    assume "void_ports src dst s = (here, new, s1)"
    then show "local_types (here @ new) = {}"
      by (cases src; cases dst; cases s) (auto simp: void_ports_def split: prod.splits)
  qed
qed

lemma desugar_contents:
  assumes "script t" "desugar t h = (t', iss, h')"
  shows "map contents t' = map contents t"
proof -
  obtain t1 h1 where 1: "substitute_implicit_outports t h = (t1, h1)" by (cases "substitute_implicit_outports t h")
  obtain t2 h2 where 2: "substitute_implicit_inports (expand_portlists t1) h1 = (t2, h2)"
    by (cases "substitute_implicit_inports (expand_portlists t1) h1")
  have 3: "substitute_voidports t2 h2 = (t', iss, h')" using assms(2) by (simp add: desugar_def 1 2)
  obtain c1 where r1: "rewrite_tree implicit_outport t (0, h) = (t1, c1, h1)"
    using 1 by (auto simp: substitute_implicit_outports_def split: prod.splits)
  obtain c2 where r2: "rewrite_tree portlist_links t1 () = (expand_portlists t1, c2)"
    by (cases "rewrite_tree portlist_links t1 ()") (simp add: expand_portlists_def)
  obtain c3 where r3: "rewrite_tree implicit_inport (expand_portlists t1) (0, h1) = (t2, c3, h2)"
    using 2 by (auto simp: substitute_implicit_inports_def split: prod.splits)
  obtain c4 where r4: "rewrite_tree void_ports t2 (0, [], h2) = (t', c4, iss, h')"
    using 3 by (auto simp: substitute_voidports_def split: prod.splits)
  note s1 = rewrite_tree_top(1)[OF r1 turns_implicit_outport assms(1)[unfolded script_def]]
  note s2 = rewrite_tree_top(1)[OF r2 turns_portlist s1]
  note s3 = rewrite_tree_top(1)[OF r3 turns_implicit_inport s2]
  show ?thesis
    using rewrite_tree_contents[OF r1 adds_actors_passes(1) assms(1)[unfolded script_def]] rewrite_tree_contents[OF r2 adds_actors_passes(2) s1]
      rewrite_tree_contents[OF r3 adds_actors_passes(3) s2] rewrite_tree_contents[OF r4 adds_actors_passes(4) s3] by simp
qed

lemma replace_args_types: "local_types (map (replace_args d) ns) = local_types ns"
proof (induction ns)
  case (Cons n ns)
  then show ?case by (cases n) auto
qed simp

lemma replace_args_contents: "map contents (map (replace_args d) t) = map contents t"
proof (induction t)
  case (Cons n t)
  then show ?case by (cases n) (auto simp: replace_args_types)
qed simp

lemma check_assignment_types: "local_types (map (\<lambda>n. fst (check_assignment store t b n)) ns) = local_types ns"
proof (induction ns)
  case (Cons n ns)
  then show ?case by (cases n) (auto simp: split_def Let_def)
qed simp

lemma check_block_body: "fst (check_block store t c body) = map (\<lambda>n. fst (check_assignment store t body n)) body"
  by (simp add: check_block_def Let_def comp_def)

lemma check_top_contents: "map contents (map (\<lambda>n. fst (check_top store t n)) ns) = map contents ns"
proof (induction ns)
  case (Cons n ns)
  then show ?case
    by (cases n) (auto simp: split_def check_block_body check_assignment_types)
qed simp

text \<open>After the check the assignments of every body have the metadata that the lookup of their type gives.\<close>

fun body_of :: "node \<Rightarrow> node list" where
  "body_of (Component c xs ins outs body) = body"
| "body_of (Block nsp args body) = body"
| "body_of n = []"

lemma check_top_types:
  assumes "Assignment i ty as m \<in> set (body_of (fst (check_top store t n)))"
  shows "m = Some (fst (lookup_type store t ty))"
proof -
  have "m = Some (fst (lookup_type store t ty))" if a: "Assignment i ty as m \<in> set (map (\<lambda>n. fst (check_assignment store t b n)) body)" for body b
  proof -
    obtain n0 where n0: "n0 \<in> set body" "fst (check_assignment store t b n0) = Assignment i ty as m" using a by auto
    from n0(2) show ?thesis by (cases n0) (auto simp: split_def Let_def)
  qed
  then show ?thesis using assms by (cases n) (auto simp: split_def check_block_body)
qed

lemma check_top_assignment: "top_stmt Q n \<Longrightarrow> \<not> is_assignment (fst (check_top store t n))"
  by (cases n) (auto simp: split_def Let_def)

lemma phase1_contents:
  assumes p: "phase1 store t h = (t1, iss, h1)" and s: "script t"
  obtains t3 where "map contents t1 = map contents t" "map contents t3 = map contents t" "t1 = map (\<lambda>n. fst (check_top store t3 n)) t3"
    "list_all (Not \<circ> is_assignment) t1" "list_all (top_stmt plain) t3"
proof -
  obtain t2 iss2 h2 where 2: "desugar t h = (t2, iss2, h2)" by (metis prod_cases3)
  obtain t3 iss3 where 3: "replace_constants t2 = (t3, iss3)" by (cases "replace_constants t2")
  have t1: "t1 = map (\<lambda>n. fst (check_top store t3 n)) t3" using p by (auto simp: phase1_def 2 3 consistency_check_def Let_def)
  obtain d where "t3 = map (replace_args d) t2" using 3 by (auto simp: replace_constants_def Let_def split: prod.splits)
  then have t3: "map contents t3 = map contents t" using desugar_contents[OF s 2] replace_args_contents[of d t2] by simp
  with check_top_contents[of store t3 t3] t1 have "map contents t1 = map contents t" by metis
  moreover have plain: "list_all (top_stmt plain) t3"
    using desugar_plain[OF s 2] replace_args_top[of plain] 3 by (auto simp: replace_constants_def Let_def list_all_iff split: prod.splits)
  then have "list_all (Not \<circ> is_assignment) t1" using check_top_assignment[of plain] unfolding t1 by (auto simp: list_all_iff)
  ultimately show thesis using t1 t3 plain that by blast
qed

lemma find_component_contents:
  assumes "map contents t' = map contents t" "find_component t c = Some (Component c xs ins outs body)"
  shows "\<exists>xs' ins' outs' body'. find_component t' c = Some (Component c xs' ins' outs' body') \<and> local_types body' = local_types body"
  using assms
proof (induction t arbitrary: t')
  case (Cons n t)
  then obtain n' t1 where t': "t' = n' # t1" "contents n' = contents n" "map contents t1 = map contents t" by (cases t') auto
  show ?case using Cons.IH[OF t'(3)] Cons.prems(2) t' by (cases n; cases n') (auto split: if_splits)
qed simp

section \<open>Recursion\<close>

lemma instance_body_iff:
  "instance_body defs (Some d) = Some body \<longleftrightarrow>
     md_kind d = ComponentType \<and> (\<exists>c xs ins outs. find_component defs (md_name d) = Some (Component c xs ins outs body))"
  by (auto simp: instance_body_def split: actor_kind.splits option.splits node.splits)

lemma find_component_name: "find_component t c = Some n \<Longrightarrow> \<exists>xs ins outs body. n = Component c xs ins outs body \<and> n \<in> set t"
  by (induction t c rule: find_component.induct) (auto split: if_splits)

lemma find_component_append:
  "find_component (xs @ ys) c = (case find_component xs c of None \<Rightarrow> find_component ys c | Some n \<Rightarrow> Some n)"
  by (induction xs c rule: find_component.induct) auto

lemma shift_assignment: "Assignment i ty as m \<in> set ns \<Longrightarrow> \<exists>as. Assignment i ty as m \<in> set (map (shift_node n) ns)"
  by (force simp: image_iff)

text \<open>A component that contains an instance of itself.\<close>

lemma expand_recursive:
  assumes "expand store verify defs nodes h = Some r"
    and d: "md_kind d = ComponentType" "find_component defs (md_name d) = Some (Component c xs ins outs body)"
    and b: "Assignment j ty' as' (Some (Some d)) \<in> set body"
  shows "Assignment i ty as (Some (Some d)) \<notin> set nodes"
  using assms(1)
proof (induction arbitrary: i ty as rule: expand_induct)
  case (Cons rec n ns h n' iss1 h1 ns' iss2 h2)
  have body: "instance_body defs (Some d) = Some body" using d by (simp add: instance_body_iff)
  have "n \<noteq> Assignment i ty as (Some (Some d))"
  proof
    assume "n = Assignment i ty as (Some (Some d))"
    with Cons(2) body obtain r where "rec (map (shift_node (hp_next h)) body) (copy_heap h) = Some r"
      by (auto simp: expand_head_def expand_type_def clone_body_def bind_eq_Some_conv)
    from Cons(1)[OF this] shift_assignment[OF b] show False by blast
  qed
  with Cons(1)[OF Cons(3)] show ?case by auto
qed simp

text \<open>The expansion of a top node keeps its kind, and the name of a component.\<close>

lemma expand_top_node:
  assumes "expand store verify defs [n] h = Some (ns, iss, h1)" "\<not> is_assignment n"
  shows "\<exists>n'. ns = [n'] \<and> component_sigs [n'] = component_sigs [n] \<and> \<not> is_assignment n'"
  using assms by (cases n) (auto simp: expand_head_def bind_eq_Some_conv)

lemma find_component_None: "find_component t c = None \<longleftrightarrow> c \<notin> fst ` set (component_sigs t)"
  by (induction t c rule: find_component.induct) auto

lemma expand_root_recursive:
  assumes "find_component rest (md_name d) = Some (Component c xs ins outs body)" "md_kind d = ComponentType"
    and "Assignment j ty' as' (Some (Some d)) \<in> set body" "find_component visited (md_name d) = None" "list_all (Not \<circ> is_assignment) rest"
  shows "expand_root store verify visited rest h = None"
  using assms(1,4,5)
proof (induction rest arbitrary: visited h)
  case (Cons n rest)
  have no: "\<not> is_assignment n" using Cons.prems(3) by simp
  show ?case
  proof (cases "expand store verify (visited @ n # rest) [n] h")
    case None
    then show ?thesis by simp
  next
    case (Some r)
    obtain ns iss h1 where r: "expand store verify (visited @ n # rest) [n] h = Some (ns, iss, h1)" using Some by (cases r) auto
    obtain n' where n': "ns = [n']" "component_sigs [n'] = component_sigs [n]" using expand_top_node[OF r no] by blast
    have found: "find_component (visited @ n # rest) (md_name d) = Some (Component c xs ins outs body)"
      using Cons.prems(1,2) by (simp add: find_component_append)
    show ?thesis
    proof (cases "find_component [n] (md_name d)")
      case None
      then have "find_component [n'] (md_name d) = None" using n'(2) by (simp add: find_component_None)
      then have "find_component (visited @ ns) (md_name d) = None" using Cons.prems(2) n'(1) by (simp add: find_component_append)
      moreover have "find_component rest (md_name d) = Some (Component c xs ins outs body)"
        using Cons.prems(1) None find_component_append[of "[n]" rest] by simp
      ultimately have "expand_root store verify (visited @ ns) rest h1 = None" using Cons.IH Cons.prems(3) by simp
      then show ?thesis using r by (simp add: bind_eq_None_conv)
    next
      case (Some n0)
      then have "n = Component c xs ins outs body"
        using Cons.prems(1) find_component_append[of "[n]" rest] by (cases n) (auto split: if_splits)
      with r obtain r1 where "expand store verify (visited @ n # rest) body h = Some r1"
        by (auto simp: expand_head_def bind_eq_Some_conv)
      from expand_recursive[OF this assms(2) found assms(3)] assms(3) show ?thesis by blast
    qed
  qed
qed simp

lemma generate_code_None: "generate_code store sign verify name t h = None \<longleftrightarrow>
    expand_components store verify (fst (phase1 store (name_program name t) h)) (snd (snd (phase1 store (name_program name t) h))) = None"
  by (simp add: generate_code_def phase2_def split_def Let_def bind_eq_None_conv)

lemma name_program_contents: "map contents (name_program name t) = map contents t"
  by (induction name t rule: name_program.induct) auto

lemma lookup_local:
  assumes "find_component t c = Some (Component c xs ins outs body)" "is_local_component c"
  shows "\<exists>d. fst (lookup_type store t c) = Some d \<and> md_kind d = ComponentType \<and> md_name d = c"
  using assms by (simp add: lookup_type_def)

lemma recursive_no_code:
  assumes s: "script t" "proper_name name" and c: "find_component t c = Some (Component c xs ins outs body)" "c \<in> local_types body"
  shows "generate_code store sign verify name t h = None"
proof -
  obtain t1 iss1 h1 where p: "phase1 store (name_program name t) h = (t1, iss1, h1)" by (metis prod_cases3)
  obtain t3 where t: "map contents t1 = map contents t" "map contents t3 = map contents t" "t1 = map (\<lambda>n. fst (check_top store t3 n)) t3"
      "list_all (Not \<circ> is_assignment) t1"
    using phase1_contents[OF p name_program_script[OF s]] unfolding name_program_contents by blast
  have l: "is_local_component c" using c(2) by (simp add: local_types_def)
  obtain xs1 ins1 outs1 b1 where 1: "find_component t1 c = Some (Component c xs1 ins1 outs1 b1)" "local_types b1 = local_types body"
    using find_component_contents[OF t(1) c(1)] by blast
  obtain xs3 ins3 outs3 b3 where 3: "find_component t3 c = Some (Component c xs3 ins3 outs3 b3)"
    using find_component_contents[OF t(2) c(1)] by blast
  have "c \<in> local_types b1" using c(2) 1(2) by simp
  then obtain i as m where a: "Assignment i c as m \<in> set b1" by (auto simp: local_types_def)
  obtain d where d: "fst (lookup_type store t3 c) = Some d" "md_kind d = ComponentType" "md_name d = c" using lookup_local[OF 3 l] by blast
  obtain n where n: "n \<in> set t3" "fst (check_top store t3 n) = Component c xs1 ins1 outs1 b1"
    using find_component_name[OF 1(1)] t(3) by auto
  have "Assignment i c as m \<in> set (body_of (fst (check_top store t3 n)))" unfolding n(2) using a by simp
  from check_top_types[OF this] have "m = Some (Some d)" using d(1) by simp
  with a have "Assignment i c as (Some (Some d)) \<in> set b1" by simp
  from expand_root_recursive[OF 1(1)[folded d(3)] d(2) this _ t(4), of "[]" store verify h1]
  have "expand_components store verify t1 h1 = None" by (simp add: expand_components_def)
  then show ?thesis unfolding generate_code_None p by simp
qed

section \<open>Ranked components\<close>

text \<open>The names of the components that are defined.\<close>

definition defined :: "tree \<Rightarrow> string set" where
  "defined t = fst ` set (component_sigs t)"

text \<open>The instances of defined components among the nodes have a rank below \<open>k\<close>.\<close>

fun ranked :: "(string \<Rightarrow> nat) \<Rightarrow> string set \<Rightarrow> nat \<Rightarrow> node list \<Rightarrow> bool" where
  "ranked rk N k [] \<longleftrightarrow> True"
| "ranked rk N k (Assignment i ty as m # ns) \<longleftrightarrow>
     (\<exists>md. m = Some md \<and> (\<forall>d. md = Some d \<longrightarrow> md_kind d = ComponentType \<longrightarrow> md_name d \<in> N \<longrightarrow> rk (md_name d) < k)) \<and> ranked rk N k ns"
| "ranked rk N k (Block nsp args body # ns) \<longleftrightarrow> ranked rk N k body \<and> ranked rk N k ns"
| "ranked rk N k (Component c xs ins outs body # ns) \<longleftrightarrow> ranked rk N k body \<and> ranked rk N k ns"
| "ranked rk N k (n # ns) \<longleftrightarrow> ranked rk N k ns"

lemma ranked_shift [simp]: "ranked rk N k (map (shift_node a) ns) = ranked rk N k ns"
  by (induction rk N k ns rule: ranked.induct) auto

lemma ranked_mono: "ranked rk N k ns \<Longrightarrow> k \<le> k' \<Longrightarrow> ranked rk N k' ns"
  by (induction rk N k ns rule: ranked.induct) (auto intro: less_le_trans)

definition ranked_defs :: "(string \<Rightarrow> nat) \<Rightarrow> tree \<Rightarrow> bool" where
  "ranked_defs rk defs \<longleftrightarrow>
     (\<forall>c xs ins outs body. find_component defs c = Some (Component c xs ins outs body) \<longrightarrow> ranked rk (defined defs) (rk c) body)"

lemma instance_body_ranked:
  assumes "ranked_defs rk defs"
    and "instance_body defs md = Some body"
  shows "\<exists>d. md = Some d \<and> md_kind d = ComponentType \<and> md_name d \<in> defined defs \<and> ranked rk (defined defs) (rk (md_name d)) body"
proof -
  obtain d where d: "md = Some d" using assms(2) by (cases md) (auto simp: instance_body_def)
  then obtain c xs ins outs where c: "md_kind d = ComponentType" "find_component defs (md_name d) = Some (Component c xs ins outs body)"
    using assms(2) by (auto simp: instance_body_iff)
  have "c = md_name d" using find_component_name[OF c(2)] by auto
  moreover have "md_name d \<in> defined defs" using c(2) find_component_None[of defs "md_name d"] by (auto simp: defined_def)
  ultimately show ?thesis using assms(1) c d unfolding ranked_defs_def by blast
qed

lemma expand_leaf:
  "\<not> is_assignment n \<Longrightarrow> \<not> is_block n \<Longrightarrow> \<not> is_component n \<Longrightarrow> \<exists>r. expand store verify defs ns h = Some r \<Longrightarrow>
     \<exists>r. expand store verify defs (n # ns) h = Some r"
  by (cases n) (force simp: expand_head_def)+

lemma expand_returns:
  assumes D: "ranked_defs rk defs"
  shows "ranked rk (defined defs) k nodes \<Longrightarrow> \<exists>r. expand store verify defs nodes h = Some r"
proof (induction k arbitrary: nodes h rule: less_induct)
  case (less k)
  have "ranked rk' N k' nodes \<Longrightarrow> rk' = rk \<Longrightarrow> N = defined defs \<Longrightarrow> k' = k \<Longrightarrow> \<exists>r. expand store verify defs nodes h = Some r" for rk' N k'
  proof (induction rk' N k' nodes arbitrary: h rule: ranked.induct)
    case (2 rk' N k' i ty as m ns)
    then obtain md where m: "m = Some md" and low: "\<And>d. md = Some d \<Longrightarrow> md_kind d = ComponentType \<Longrightarrow> md_name d \<in> defined defs \<Longrightarrow> rk (md_name d) < k"
      by auto
    have tail: "\<exists>r. expand store verify defs ns h = Some r" for h using 2 by simp
    show ?case
    proof (cases "instance_body defs md")
      case None
      obtain r where "expand store verify defs ns h = Some r" using tail by blast
      with None show ?thesis by (cases r) (simp add: expand_head_def expand_type_def m)
    next
      case (Some body)
      obtain d where d: "md = Some d" "md_kind d = ComponentType" "md_name d \<in> defined defs" "ranked rk (defined defs) (rk (md_name d)) body"
        using instance_body_ranked[OF D Some] by blast
      obtain b iss h2 where b: "expand store verify defs (map (shift_node (hp_next h)) body) (copy_heap h) = Some (b, iss, h2)"
        using less.IH[OF low[OF d(1-3)], of "map (shift_node (hp_next h)) body" "copy_heap h"] d(4) by auto
      obtain r where "expand store verify defs ns h2 = Some r" using tail by blast
      with Some b show ?thesis by (cases r) (simp add: expand_head_def expand_type_def m clone_body_def)
    qed
  next
    case (3 rk' N k' nsp args body ns)
    then obtain b iss h1 where b: "expand store verify defs body h = Some (b, iss, h1)" by force
    obtain r where "expand store verify defs ns h1 = Some r" using 3 by fastforce
    with b show ?case by (cases r) (simp add: expand_head_def)
  next
    case (4 rk' N k' c xs ins outs body ns)
    then obtain b iss h1 where b: "expand store verify defs body h = Some (b, iss, h1)" by force
    obtain r where "expand store verify defs ns h1 = Some r" using 4 by fastforce
    with b show ?case by (cases r) (simp add: expand_head_def)
  next
    case (1 rk' N k')
    then show ?case by simp
  qed (simp_all add: expand_leaf del: expand_simps split_paired_Ex)
  with less.prems show ?case by blast
qed

text \<open>No instance of a defined component is left.\<close>

lemma expand_unranked:
  assumes "expand store verify defs nodes h = Some r"
  shows "ranked rk (defined defs) 0 (fst r)"
  using assms
proof (induction rule: expand_induct)
  case (Cons rec n ns h n' iss1 h1 ns' iss2 h2)
  have tail: "ranked rk (defined defs) 0 ns'" using Cons(1)[OF Cons(3)] by simp
  have inst: "ranked rk (defined defs) 0 [Assignment i ty as (Some md)]" if "instance_body defs md = None" for i ty as md
  proof -
    have "md_name d \<notin> defined defs" if d: "md = Some d" "md_kind d = ComponentType" for d
    proof -
      have "find_component defs (md_name d) = None"
        using \<open>instance_body defs md = None\<close> d find_component_name[of defs "md_name d"] by (fastforce simp: instance_body_def split: option.splits)
      then show ?thesis by (simp add: find_component_None defined_def)
    qed
    then show ?thesis by auto
  qed
  have "ranked rk (defined defs) 0 (n' # ns')"
  proof (cases n)
    case (Assignment i ty as m)
    obtain md iss where ty: "expand_type store defs ty m = (md, iss)" by (cases "expand_type store defs ty m")
    show ?thesis
    proof (cases "instance_body defs md")
      case None
      then have "n' = Assignment i ty as (Some md)" using Cons(2) ty by (simp add: expand_head_def Assignment)
      then show ?thesis using inst[OF None, of i ty as] tail by simp
    next
      case (Some body)
      then show ?thesis using Cons(2) ty tail by (auto simp: expand_head_def Assignment clone_body_def bind_eq_Some_conv dest!: Cons(1))
    qed
  qed (use Cons(2) tail in \<open>auto simp: expand_head_def bind_eq_Some_conv dest!: Cons(1)\<close>)
  then show ?case by simp
qed simp

fun node_ranked :: "(string \<Rightarrow> nat) \<Rightarrow> string set \<Rightarrow> nat \<Rightarrow> node \<Rightarrow> bool" where
  "node_ranked rk N k (Component c xs ins outs body) \<longleftrightarrow> ranked rk N (rk c) body"
| "node_ranked rk N k n \<longleftrightarrow> ranked rk N k [n]"

lemma defined_append [simp]: "defined (xs @ ys) = defined xs \<union> defined ys"
  by (auto simp: defined_def)

lemma defined_Cons: "defined (n # ns) = defined [n] \<union> defined ns"
  using defined_append[of "[n]" ns] by simp

lemma nodes_ranked_defs: "list_all (node_ranked rk (defined t) k) t \<Longrightarrow> ranked_defs rk t"
  unfolding ranked_defs_def list_all_iff by (fastforce dest: find_component_name)

lemma expand_root_returns:
  assumes "list_all (node_ranked rk (defined (visited @ rest)) k) (visited @ rest)" "list_all (Not \<circ> is_assignment) rest"
  shows "\<exists>r. expand_root store verify visited rest h = Some r"
  using assms
proof (induction rest arbitrary: visited h)
  case (Cons n rest)
  let ?defs = "visited @ n # rest"
  obtain k' where k': "ranked rk (defined ?defs) k' [n]" using Cons.prems(1) by (cases n) auto
  obtain ns iss h1 where e: "expand store verify ?defs [n] h = Some (ns, iss, h1)"
    using expand_returns[OF nodes_ranked_defs[OF Cons.prems(1)] k', of store verify h] by auto
  obtain n' where n': "ns = [n']" "component_sigs [n'] = component_sigs [n]" "\<not> is_assignment n'"
    using expand_top_node[OF e] Cons.prems(2) by auto
  have same: "defined ((visited @ ns) @ rest) = defined ?defs"
    unfolding n'(1) defined_append defined_Cons[of n rest] using n'(2) by (simp add: defined_def Un_assoc)
  have "ranked rk (defined ?defs) 0 [n']" using expand_unranked[OF e, of rk] n'(1) by simp
  then have "node_ranked rk (defined ?defs) k n'" using n'(2) by (cases n') (auto intro: ranked_mono)
  then have "list_all (node_ranked rk (defined ((visited @ ns) @ rest)) k) ((visited @ ns) @ rest)"
    unfolding same using Cons.prems(1) n'(1) by simp
  from Cons.IH[OF this, of h1] Cons.prems(2) e show ?case by auto
qed simp

lemma ranked_flat:
  assumes "list_all (\<lambda>n. \<not> is_block n \<and> \<not> is_component n) ns"
    and "\<And>i ty as m. Assignment i ty as m \<in> set ns \<Longrightarrow>
      \<exists>md. m = Some md \<and> (\<forall>d. md = Some d \<longrightarrow> md_kind d = ComponentType \<longrightarrow> md_name d \<in> N \<longrightarrow> rk (md_name d) < k)"
  shows "ranked rk N k ns"
  using assms
proof (induction ns)
  case (Cons n ns)
  have "ranked rk N k ns"
  proof (rule Cons.IH)
    show "list_all (\<lambda>n. \<not> is_block n \<and> \<not> is_component n) ns" using Cons.prems(1) by simp
    show "\<exists>md. m = Some md \<and> (\<forall>d. md = Some d \<longrightarrow> md_kind d = ComponentType \<longrightarrow> md_name d \<in> N \<longrightarrow> rk (md_name d) < k)"
      if "Assignment i ty as m \<in> set ns" for i ty as m
      using Cons.prems(2)[of i ty as m] that by simp
  qed
  moreover have "ranked rk N k [n]"
    using Cons.prems(1) Cons.prems(2)[of "as_ident n" "as_type n" "as_args n" "as_metadata n"] by (cases n) auto
  ultimately show ?case by (cases n) auto
qed simp

text \<open>The body of a node, checked, with the local types it had before.\<close>

lemma checked_body_ranked:
  assumes s: "top_stmt plain n" and a: "actors_only store" and k: "\<And>ty. ty \<in> local_types (body_of n) \<Longrightarrow> ty \<in> N \<Longrightarrow> rk ty < k"
  shows "ranked rk N k (body_of (fst (check_top store t n)))"
proof (rule ranked_flat)
  show "list_all (\<lambda>n. \<not> is_block n \<and> \<not> is_component n) (body_of (fst (check_top store t n)))"
    using s check_assignment_flat[of plain] by (cases n) (auto simp: split_def check_block_body Let_def)
next
  fix i ty as m
  assume x: "Assignment i ty as m \<in> set (body_of (fst (check_top store t n)))"
  have types: "local_types (body_of (fst (check_top store t n))) = local_types (body_of n)"
    by (cases n) (auto simp: split_def check_block_body check_assignment_types Let_def)
  have "rk (md_name d) < k" if d: "fst (lookup_type store t ty) = Some d" "md_kind d = ComponentType" "md_name d \<in> N" for d
  proof -
    obtain iss where l: "lookup_type store t ty = (Some d, iss)" using d(1) by (cases "lookup_type store t ty") auto
    have name: "is_local_component ty" "md_name d = ty"
      using l d(2) a find_component_name[of t ty] by (auto simp: lookup_type_def actors_only_def split: if_splits option.splits)
    then have "ty \<in> local_types (body_of (fst (check_top store t n)))" using x by (auto simp: local_types_def)
    then have "ty \<in> local_types (body_of n)" unfolding types .
    then show ?thesis using k d(3) name(2) by simp
  qed
  with check_top_types[OF x] show "\<exists>md. m = Some md \<and> (\<forall>d. md = Some d \<longrightarrow> md_kind d = ComponentType \<longrightarrow> md_name d \<in> N \<longrightarrow> rk (md_name d) < k)"
    by blast
qed

text \<open>The local types of the components of a script have lower ranks than the components.\<close>

definition well_ranked :: "(string \<Rightarrow> nat) \<Rightarrow> tree \<Rightarrow> bool" where
  "well_ranked rk t \<longleftrightarrow>
     (\<forall>c xs ins outs body. Component c xs ins outs body \<in> set t \<longrightarrow> (\<forall>ty\<in>local_types body \<inter> defined t. rk ty < rk c))"

lemma contents_defined: "map contents t' = map contents t \<Longrightarrow> defined t' = defined t"
proof (induction t arbitrary: t')
  case (Cons n t)
  then obtain n' t1 where t': "t' = n' # t1" "contents n' = contents n" "map contents t1 = map contents t" by (cases t') auto
  have "defined [n'] = defined [n]" using t'(2) by (cases n; cases n') (auto simp: defined_def)
  then show ?case using Cons.IH[OF t'(3)] defined_Cons[of n t] defined_Cons[of n' t1] t'(1) by simp
qed simp

lemma ranked_returns:
  assumes s: "script t" "proper_name name" and a: "actors_only store" and rk: "well_ranked rk t"
  shows "\<exists>r. generate_code store sign verify name t h = Some r"
proof -
  obtain t1 iss1 h1 where p: "phase1 store (name_program name t) h = (t1, iss1, h1)" by (metis prod_cases3)
  obtain t3 where t: "map contents t1 = map contents t" "map contents t3 = map contents t" "t1 = map (\<lambda>n. fst (check_top store t3 n)) t3"
      "list_all (Not \<circ> is_assignment) t1" "list_all (top_stmt plain) t3"
    using phase1_contents[OF p name_program_script[OF s]] unfolding name_program_contents by blast
  have N: "defined t1 = defined t" by (rule contents_defined[OF t(1)])
  let ?K = "Suc (Max (insert 0 (rk ` defined t)))"
  have fin: "finite (rk ` defined t)" by (simp add: defined_def)
  have K: "rk ty < ?K" if "ty \<in> defined t" for ty using fin that by (simp add: less_Suc_eq_le)
  have "node_ranked rk (defined t1) ?K n1" if n1: "n1 \<in> set t1" for n1
  proof -
    obtain n3 where n3: "n3 \<in> set t3" "n1 = fst (check_top store t3 n3)" using n1 t(3) by auto
    have plain: "top_stmt plain n3" using t(5) n3(1) by (auto simp: list_all_iff)
    show ?thesis
    proof (cases n3)
      case (Component c xs ins outs body)
      have "contents n3 \<in> set (map contents t)" using t(2) n3(1) by (metis image_eqI set_map)
      then obtain n where n: "n \<in> set t" "contents n = (Some c, local_types body)" using Component by auto
      from n(2) obtain xs' ins' outs' body' where "n = Component c xs' ins' outs' body'" "local_types body' = local_types body" by (cases n) auto
      with n(1) rk have "rk ty < rk c" if "ty \<in> local_types body" "ty \<in> defined t1" for ty using that N unfolding well_ranked_def by blast
      then have "ranked rk (defined t1) (rk c) (body_of n1)"
        unfolding n3(2) by (intro checked_body_ranked[OF plain a]) (simp add: Component)
      then show ?thesis unfolding n3(2) Component by (simp add: split_def Let_def)
    next
      case (Block nsp args body)
      have "ranked rk (defined t1) ?K (body_of n1)"
        unfolding n3(2) by (intro checked_body_ranked[OF plain a]) (use K N in auto)
      then show ?thesis unfolding n3(2) Block by (simp add: split_def Let_def)
    qed (use plain n3(2) in auto)
  qed
  then have "list_all (node_ranked rk (defined ([] @ t1)) ?K) ([] @ t1)" by (simp add: list_all_iff)
  from expand_root_returns[OF this t(4), of store verify h1] obtain r where "expand_root store verify [] t1 h1 = Some r" by blast
  then have "expand_components store verify t1 h1 \<noteq> None" by (simp add: expand_components_def)
  then show ?thesis using generate_code_None[of store sign verify name t h] p by auto
qed

end
