(* ===== verification/Codegen_Properties.thy ===== *)
theory Codegen_Properties
  imports Codegen_Deployed Codegen_Recursion
begin

text \<open>
  What the code generator promises: flattening keeps the wiring of a script.
\<close>

text \<open>
  C4: Flattening keeps the meaning of a script.  If the ports of every block inside are used outside
  exactly as they are inside, no link goes through a block from port to port of its hull and none leads from a block directly to itself,
  then the flattened script connects the same ports of the same actors, under their qualified names, as the script with its blocks does, however deep they
  are nested and whatever the order of statements; it has the same actors and no block is left.\<close>
theorem flatten_keeps_wiring:
  assumes "sound_tree t"
  shows "link_ends (fst (flatten t h)) = wiring t \<and> set (instances (fst (flatten t h))) = set (instances t)
    \<and> list_all (Not \<circ> is_block) (fst (flatten t h))"
  using flatten_wiring[OF assms] flatten_instances[of t h] by blast

text \<open>
  C2: A valid application is complete and closed.  Take a compilation that verifies the actors (verify is True, the default; with
  False, which the control API's check parameter gives, an unknown actor is only a warning and its connections dangle), under an application name
  that is not empty and has no colon or dot, with an actor store that holds actors and no components.  If the code generator reports no error for the
  script, and no instance of a component in it is linked directly to itself, then every connection of the application joins two actors of it, and of every actor exactly the inports
  its type has are the target of a connection, and exactly its outports are the source of one: none is left open and none is invented, however
  components are nested and whatever lists, values, transformations and void ports the script has.\<close>
theorem valid_application_connected:
  assumes "script t" "block_names t = [''__scriptname__'']" "proper_name name" "actors_only store"
    and "list_all no_feedback (fst (phase1 store (name_program name t) h))"
    and "generate_code store sign True name t h = Some (Inr (app, iss))" "app_valid app"
  shows "(\<forall>k v. connected app k v \<longrightarrow> (\<exists>i p j q ty ty'. k = at_port i p \<and> v = at_port j q \<and> is_actor app i ty \<and> is_actor app j ty'))
    \<and> (\<forall>i ty. is_actor app i ty \<longrightarrow> (\<exists>d. store ty = Some d
          \<and> (\<forall>p. p \<in> set (md_inputs d) \<longleftrightarrow> (\<exists>k. connected app k (at_port i p)))
          \<and> (\<forall>p. p \<in> set (md_outputs d) \<longleftrightarrow> (\<exists>v. connected app (at_port i p) v))))"
proof -
  obtain t1 iss1 h1 where p: "phase1 store (name_program name t) h = (t1, iss1, h1)" by (metis prod_cases3)
  obtain t2 iss2 h2 where e: "tidy store t2" "known t2" "emitted_from app t2"
    using generated[OF assms(1-4) p _ assms(6,7)] assms(5) p by auto
  from deployed_closed[OF e(3) tidy_served[OF e(1,2)]] deployed_complete[OF e tidy_served[OF e(1,2)]]
  show ?thesis by blast
qed

text \<open>
  C3: The compiler keeps the meaning of a script: without errors, and with no instance of a component linked directly to itself, the expansion of the components
  ends, and the connections of the application are the wires of the expanded script, from outport to inport with the qualified names of the actors, no
  more and no less.\<close>
theorem application_has_script_wiring:
  assumes "script t" "block_names t = [''__scriptname__'']" "proper_name name" "actors_only store"
    and "phase1 store (name_program name t) h = (t1, iss1, h1)" "list_all no_feedback t1"
    and "generate_code store sign True name t h = Some (Inr (app, iss))" "app_valid app"
  shows "\<exists>t2 iss2 h2. expand_components store True t1 h1 = Some (t2, iss2, h2) \<and>
    (\<forall>k v. connected app k v \<longleftrightarrow> (\<exists>i p j q. (Actor i p, Actor j q) \<in> wiring t2 \<and> k = at_port i p \<and> v = at_port j q))"
  using generated[OF assms] unfolding emitted_from_def by metis

text \<open>
  C34: A component that contains an instance of itself is never compiled: whatever else the script has, the code generator does
  not return, neither with an application nor with an issue, because each instance is expanded into another one.\<close>
theorem recursive_component_never_compiles:
  assumes "script t" "proper_name name"
    and "find_component t c = Some (Component c xs ins outs body)" "c \<in> local_types body"
  shows "generate_code store sign verify name t h = None"
  using assms by (rule recursive_no_code)

text \<open>
  C33: Nested components are compiled: if the components of a script can be ranked so that each has instances of lower ones only, the code
  generator returns for every heap, with a result or with an exception.\<close>
theorem nested_components_compile:
  assumes "script t" "proper_name name" "actors_only store" "well_ranked rk t"
  shows "\<exists>r. generate_code store sign verify name t h = Some r"
  using assms by (rule ranked_returns)

section \<open>Examples\<close>

text \<open>A source, an instance of a component that passes tokens through an actor, and a sink.\<close>

definition sample_inside :: "node list" where
  "sample_inside =
     [Assignment ''a'' ''std.Identity'' [] (Some None), Link (InternalOutPort ''in'' 1) (InPort ''a'' ''token'' 2),
      Link (OutPort ''a'' ''token'' 3) (InternalInPort ''out'' 4)]"

definition sample_blocks :: tree where
  "sample_blocks =
     [Block ''app'' []
        [Assignment ''s'' ''std.Counter'' [] (Some None), Block ''f'' [] sample_inside, Assignment ''p'' ''io.Print'' [] (Some None),
         Link (OutPort ''s'' ''integer'' 5) (InPort ''f'' ''in'' 6), Link (OutPort ''f'' ''out'' 7) (InPort ''p'' ''token'' 8)]]"

definition sample_heap :: heap where
  "sample_heap = \<lparr>hp_next = 20, hp_vals = (\<lambda>_. PNone), hp_kids = (\<lambda>_. [])\<rparr>"

lemma sample_inside_ends:
  "link_ends sample_inside = {(Hull ''in'', Actor ''a'' ''token''), (Actor ''a'' ''token'', Hull ''out'')}"
  by (simp add: link_ends_link sample_inside_def insert_commute)

lemma sample_sound: "sound_tree sample_blocks"
  unfolding sample_blocks_def sound_tree_def
  by (auto simp: sample_inside_ends fits_def link_ends_link) (auto simp: sample_inside_def)

lemma flatten_keeps_wiring_witness:
  "link_ends (fst (flatten sample_blocks sample_heap)) = wiring sample_blocks
    \<and> set (instances (fst (flatten sample_blocks sample_heap))) = 
      {(''app:s'', ''std.Counter'', Some None), (''app:f:a'', ''std.Identity'', Some None), (''app:p'', ''io.Print'', Some None)}"
  using flatten_keeps_wiring[OF sample_sound, of sample_heap] by (auto simp: sample_blocks_def sample_inside_def)

definition actor_type :: "string \<Rightarrow> string list \<Rightarrow> string list \<Rightarrow> string list \<Rightarrow> metadata" where
  "actor_type n args ins outs =
     \<lparr>md_ns = ''std'', md_name = n, md_kind = ActorType [] [], md_inputs = ins, md_outputs = outs, md_mandatory = args, md_optional = []\<rparr>"

definition sample_store :: "string \<Rightarrow> metadata option" where
  "sample_store ty =
     (if ty = ''std.Constant'' then Some (actor_type ''Constant'' [''data''] [] [''token''])
      else if ty = ''std.Identity'' then Some (actor_type ''Identity'' [] [''token''] [''token''])
      else if ty = ''io.Print'' then Some (actor_type ''Print'' [] [''token''] []) else None)"

text \<open>A value flows through an instance of a component into a list of inports.\<close>

definition sample_script :: tree where
  "sample_script =
     [Component ''Pass'' [] [''in''] [''out''] 
        [Assignment ''a'' ''std.Identity'' [] None, Link (InternalOutPort ''in'' 1) (InPort ''a'' ''token'' 2),
         Link (OutPort ''a'' ''token'' 3) (InternalInPort ''out'' 4)],
      Block ''__scriptname__'' []
        [Assignment ''f'' ''Pass'' [] None, Assignment ''p'' ''io.Print'' [] None,
         Link (ImplicitPort (Val 7) None) (InPort ''f'' ''in'' 8), 
         Link (OutPort ''f'' ''out'' 9) (PortList [InPort ''p'' ''token'' 10])]]"

definition known_type :: "string \<Rightarrow> metadata option option" where
  "known_type ty = Some (sample_store ty)"

definition pass_type :: metadata where
  "pass_type = \<lparr>md_ns = ''local'', md_name = ''Pass'', md_kind = ComponentType, md_inputs = [''in''], md_outputs = [''out''],
     md_mandatory = [], md_optional = []\<rparr>"

definition pass_body :: "nat \<Rightarrow> node list" where
  "pass_body n =
     [Assignment ''a'' ''std.Identity'' [] (known_type ''std.Identity''), Link (InternalOutPort ''in'' (n + 1)) (InPort ''a'' ''token'' (n + 2)),
      Link (OutPort ''a'' ''token'' (n + 3)) (InternalInPort ''out'' (n + 4))]"

definition pass_rest :: "node list" where
  "pass_rest =
     [Assignment ''p'' ''io.Print'' [] (known_type ''io.Print''), Link (OutPort ''_literal_const_1'' ''token'' 20) (InPort ''f'' ''in'' 8),
      Assignment ''_literal_const_1'' ''std.Constant'' [(''data'', Val 7)] (known_type ''std.Constant''),
      Link (OutPort ''f'' ''out'' 9) (InPort ''p'' ''token'' 10)]"

definition pass_checked :: tree where
  "pass_checked =
     [Component ''Pass'' [] [''in''] [''out''] (pass_body 0), Block ''app'' [] (Assignment ''f'' ''Pass'' [] (Some (Some pass_type)) # pass_rest)]"

definition pass_heap :: heap where
  "pass_heap = \<lparr>hp_next = 21, hp_vals = (\<lambda>_. PNone), hp_kids = (\<lambda>_. [])\<rparr>"

lemma sample_phase1: "phase1 sample_store (name_program ''app'' sample_script) sample_heap = (pass_checked, [], pass_heap)"
proof -
  have "fst (phase1 sample_store (name_program ''app'' sample_script) sample_heap) = pass_checked" by code_simp
  moreover have "fst (snd (phase1 sample_store (name_program ''app'' sample_script) sample_heap)) = []" by code_simp
  moreover have "snd (snd (phase1 sample_store (name_program ''app'' sample_script) sample_heap)) =
      pass_heap"
    by (simp add: phase1_def split_def Let_def)
       (simp add: desugar_def substitute_implicit_outports_def substitute_implicit_inports_def substitute_voidports_def expand_portlists_def
         rewrite_tree_def sample_script_def new_kids_def unique_or_label_def make_unique_def void_ports_def sample_heap_def pass_heap_def fun_upd_idem)
  ultimately show ?thesis by (auto simp: prod_eq_iff)
qed

definition pass_expanded :: tree where
  "pass_expanded = [Block ''app'' [] (Block ''f'' [] (pass_body 21) # pass_rest)]"

lemma sample_expanded: "expand_components sample_store True pass_checked pass_heap = Some (pass_expanded, [], copy_heap pass_heap)"
  by (simp add: expand_components_def pass_checked_def pass_rest_def pass_body_def expand_head_def expand_type_def known_type_def sample_store_def
      instance_body_def actor_type_def pass_type_def clone_body_def args_dict_def unknown_type_def pass_expanded_def pass_heap_def)

lemma copy_heap_kids: "hp_kids h = (\<lambda>_. []) \<Longrightarrow> hp_kids (copy_heap h) = (\<lambda>_. [])"
  by (simp add: copy_heap_def Let_def fun_eq_iff)

lemma relinked_kids: "hp_kids h = (\<lambda>_. []) \<Longrightarrow> relinked l0 l1 l2 l3 h = h"
  by (cases h) (simp add: relinked_def add_kids_def fun_upd_idem)

lemma coalesce_no_kids: "hp_kids h = (\<lambda>_. []) \<Longrightarrow> coalesce_port key k (d, h) = (d, h)"
  by (simp add: coalesce_port_def split_def Let_def)

lemma sample_collected: "hp_kids h = (\<lambda>_. []) \<Longrightarrow> collect_port_properties pass_expanded h = (pass_expanded, h)"
  by (simp add: collect_port_properties_def pass_expanded_def pass_body_def pass_rest_def known_type_def sample_store_def actor_type_def
      declared_properties_def)

definition pass_flat :: tree where
  "pass_flat =
     [Assignment ''app:p'' ''io.Print'' [] (known_type ''io.Print''),
      Assignment ''app:_literal_const_1'' ''std.Constant'' [(''data'', Val 7)] (known_type ''std.Constant''),
      Assignment ''app:f:a'' ''std.Identity'' [] (known_type ''std.Identity''),
      Link (OutPort ''app:_literal_const_1'' ''token'' 20) (InPort ''app:f:a'' ''token'' 23),
      Link (OutPort ''app:f:a'' ''token'' 24) (InPort ''app:p'' ''token'' 10)]"

lemma sample_flat: "hp_kids h = (\<lambda>_. []) \<Longrightarrow> flatten pass_expanded h = (pass_flat, h)"
  by (simp add: flatten_def pass_expanded_def pass_body_def pass_rest_def absorb_def absorb_link_def qualify_def relinked_kids pass_flat_def)

definition pass_counted :: coalesced where
  "pass_counted =
     [((''app:f:a'', ''token'', ''in''), [], 1), ((''app:_literal_const_1'', ''token'', ''out''), [], 1),
      ((''app:p'', ''token'', ''in''), [], 1), ((''app:f:a'', ''token'', ''out''), [], 1)]"

lemma sample_counted: "hp_kids h = (\<lambda>_. []) \<Longrightarrow> coalesce_links pass_flat ([], h) = (pass_counted, h)"
  by (simp add: pass_flat_def coalesce_no_kids count_link_def in_key_def out_key_def opt_default_def dput_def pass_counted_def)

definition counted_property :: "string \<Rightarrow> string \<Rightarrow> string \<Rightarrow> nat \<Rightarrow> node" where
  "counted_property a p dir v = Property (PortProperty (Some a) p (Some dir) [(''nbr_peers'', Val v)])"

definition pass_props :: "nat \<Rightarrow> node list" where
  "pass_props n =
     [counted_property ''app:f:a'' ''token'' ''in'' n, counted_property ''app:_literal_const_1'' ''token'' ''out'' (n + 1),
      counted_property ''app:p'' ''token'' ''in'' (n + 2), counted_property ''app:f:a'' ''token'' ''out'' (n + 3)]"

lemma sample_coalesced:
  assumes "hp_kids h = (\<lambda>_. [])"
  shows "\<exists>h1. coalesce_properties pass_flat h = (pass_flat @ pass_props (hp_next h), h1) \<and> (\<forall>i<4. hp_vals h1 (hp_next h + i) = PInt 1)"
  by (simp add: coalesce_properties_def sample_counted[OF assms] pass_counted_def new_value_def pass_props_def counted_property_def
      numeral_eq_Suc less_Suc_eq)

lemma sample_merged: "merge_properties (pass_flat @ pass_props n) h = (Inr (pass_flat @ pass_props n, []), h)"
  by (simp add: pass_flat_def pass_props_def counted_property_def and_then_def)

lemma sample_proper: "\<forall>i<4. hp_vals h (n + i) = PInt 1 \<Longrightarrow> check_properties (pass_flat @ pass_props n) h = Inr []"
  by (simp add: check_properties_def pass_flat_def pass_props_def counted_property_def check_argument_def check_value_def port_property_data_def
      number_above_one_def numeral_eq_Suc less_Suc_eq all_conj_distrib)

lemma sample_phase2:
  "\<exists>h. phase2 sample_store True pass_checked pass_heap = Some (Inr (pass_flat @ pass_props 42, []), h)"
proof -
  have k: "hp_kids (copy_heap pass_heap) = (\<lambda>_. [])" "hp_next (copy_heap pass_heap) = 42"
    by (simp_all add: copy_heap_kids pass_heap_def) (simp add: copy_heap_def)
  obtain h1 where c: "coalesce_properties pass_flat (copy_heap pass_heap) = (pass_flat @ pass_props 42, h1)" "\<forall>i<4. hp_vals h1 (42 + i) = PInt 1"
    using sample_coalesced[OF k(1)] unfolding k(2) by blast
  show ?thesis
    by (simp add: phase2_def sample_expanded sample_collected[OF k(1)] sample_flat[OF k(1)] c(1) sample_merged sample_proper[OF c(2)] and_then_def)
qed

lemma sample_emitted:
  "snd (generate_app_info (\<lambda>ty ins outs. ty) ''app'' (pass_flat @ pass_props n) h) = []"
  "is_actor (fst (generate_app_info (\<lambda>ty ins outs. ty) ''app'' (pass_flat @ pass_props n) h)) ''app:f:a'' ''std.Identity''"
  by (simp_all add: generate_app_info_def pass_flat_def pass_props_def counted_property_def known_type_def sample_store_def
      actor_type_def is_actor_def)

lemma sample_generated:
  obtains app iss where "generate_code sample_store (\<lambda>ty ins outs. ty) True ''app'' sample_script sample_heap = Some (Inr (app, iss))"
    "app_valid app" "is_actor app ''app:f:a'' ''std.Identity''"
proof -
  obtain h where 2: "phase2 sample_store True pass_checked pass_heap = Some (Inr (pass_flat @ pass_props 42, []), h)"
    using sample_phase2 by blast
  obtain app iss where g: "generate_app_info (\<lambda>ty ins outs. ty) ''app'' (pass_flat @ pass_props 42) h = (app, iss)" by (metis surj_pair)
  have i: "iss = []" "is_actor app ''app:f:a'' ''std.Identity''" using sample_emitted[of 42 h] g by simp_all
  show thesis
    by (rule that[of "app\<lparr>app_valid := True\<rparr>" "[]"]) (use g i in \<open>simp_all add: generate_code_def sample_phase1 2\<close>)
qed

lemma sample_script_sound:
  "script sample_script" "block_names sample_script = [''__scriptname__'']" "proper_name ''app''" "actors_only sample_store"
  "list_all no_feedback (fst (phase1 sample_store (name_program ''app'' sample_script) sample_heap))"
proof -
  show "script sample_script" by (simp add: script_def sample_script_def proper_name_def clean_label_def)
  show "block_names sample_script = [''__scriptname__'']" by (simp add: sample_script_def)
  show "proper_name ''app''" by (simp add: proper_name_def)
  show "actors_only sample_store" by (simp add: actors_only_def sample_store_def actor_type_def)
  show "list_all no_feedback (fst (phase1 sample_store (name_program ''app'' sample_script) sample_heap))"
    by (simp add: sample_phase1 pass_checked_def pass_body_def pass_rest_def known_type_def sample_store_def feeds_itself_def link_ends_link)
qed

lemma valid_application_connected_witness:
  "\<exists>app iss k. generate_code sample_store (\<lambda>ty ins outs. ty) True ''app'' sample_script sample_heap = Some (Inr (app, iss)) \<and>
     connected app k (at_port ''app:f:a'' ''token'')"
proof -
  obtain app iss where g: "generate_code sample_store (\<lambda>ty ins outs. ty) True ''app'' sample_script sample_heap = Some (Inr (app, iss))"
    "app_valid app" "is_actor app ''app:f:a'' ''std.Identity''" by (rule sample_generated)
  note v = conjunct2[OF valid_application_connected[OF sample_script_sound g(1,2)]]
  obtain d where "sample_store ''std.Identity'' = Some d" "\<forall>p. p \<in> set (md_inputs d) \<longleftrightarrow> (\<exists>k. connected app k (at_port ''app:f:a'' p))"
    using v[rule_format, OF g(3)] by (elim exE conjE)
  then have "\<exists>k. connected app k (at_port ''app:f:a'' ''token'')" by (auto simp: sample_store_def actor_type_def)
  with g(1) show ?thesis by blast
qed

lemma application_has_script_wiring_witness:
  "\<exists>app iss. generate_code sample_store (\<lambda>ty ins outs. ty) True ''app'' sample_script sample_heap = Some (Inr (app, iss)) \<and>
     (\<forall>k v. connected app k v \<longleftrightarrow> (\<exists>i p j q. (Actor i p, Actor j q) \<in> wiring pass_expanded \<and> k = at_port i p \<and> v = at_port j q))"
proof -
  obtain app iss where g: "generate_code sample_store (\<lambda>ty ins outs. ty) True ''app'' sample_script sample_heap = Some (Inr (app, iss))"
    "app_valid app" by (rule sample_generated)
  from application_has_script_wiring[OF sample_script_sound(1-4) sample_phase1 _ g] sample_script_sound(5) sample_phase1 sample_expanded g(1)
  show ?thesis by auto
qed

text \<open>A component with an instance of itself.\<close>

definition loop_script :: tree where
  "loop_script =
     [Component ''Loop'' [] [''in''] [''out'']
        [Assignment ''l'' ''Loop'' [] None, Link (InternalOutPort ''in'' 1) (InPort ''l'' ''in'' 2),
         Link (OutPort ''l'' ''out'' 3) (InternalInPort ''out'' 4)],
      Block ''__scriptname__'' [] []]"

lemma recursive_component_never_compiles_witness:
  "generate_code sample_store (\<lambda>ty ins outs. ty) True ''app'' loop_script sample_heap = None"
proof (rule recursive_component_never_compiles)
  show "script loop_script" "proper_name ''app''" by (simp_all add: script_def loop_script_def proper_name_def)
  show "find_component loop_script ''Loop'' = Some (Component ''Loop'' [] [''in''] [''out''] (body_of (hd loop_script)))"
    by (simp add: loop_script_def)
  show "''Loop'' \<in> local_types (body_of (hd loop_script))" by (simp add: loop_script_def is_local_component_def)
qed

text \<open>A component in a component.\<close>

definition nested_script :: tree where
  "nested_script =
     [Component ''Outer'' [] [''in''] [''out'']
        [Assignment ''x'' ''Pass'' [] None, Link (InternalOutPort ''in'' 1) (InPort ''x'' ''in'' 2),
         Link (OutPort ''x'' ''out'' 3) (InternalInPort ''out'' 4)],
      Component ''Pass'' [] [''in''] [''out'']
        [Assignment ''a'' ''std.Identity'' [] None, Link (InternalOutPort ''in'' 5) (InPort ''a'' ''token'' 6),
         Link (OutPort ''a'' ''token'' 7) (InternalInPort ''out'' 8)],
      Block ''__scriptname__'' [] [Assignment ''o'' ''Outer'' [] None]]"

lemma nested_components_compile_witness:
  "\<exists>r. generate_code sample_store (\<lambda>ty ins outs. ty) True ''app'' nested_script sample_heap = Some r"
proof (rule nested_components_compile)
  show "script nested_script" "proper_name ''app''" by (simp_all add: script_def nested_script_def proper_name_def)
  show "actors_only sample_store" by (rule sample_script_sound(4))
  show "well_ranked (\<lambda>c. if c = ''Outer'' then 1 else 0) nested_script"
    by (auto simp: well_ranked_def nested_script_def defined_def is_local_component_def split: if_splits)
qed

section \<open>An instance linked to itself\<close>

definition feed_script :: tree where
  "feed_script =
     [Component ''Pass'' [] [''in''] [''out'']
        [Assignment ''a'' ''std.Identity'' [] None, Link (InternalOutPort ''in'' 1) (InPort ''a'' ''token'' 2),
         Link (OutPort ''a'' ''token'' 3) (InternalInPort ''out'' 4)],
      Block ''__scriptname__'' []
        [Assignment ''f'' ''Pass'' [] None, Link (OutPort ''f'' ''out'' 8) (InPort ''f'' ''in'' 9)]]"

definition feed_checked :: tree where
  "feed_checked =
     [Component ''Pass'' [] [''in''] [''out''] (pass_body 0),
      Block ''app'' [] [Assignment ''f'' ''Pass'' [] (Some (Some pass_type)), Link (OutPort ''f'' ''out'' 8) (InPort ''f'' ''in'' 9)]]"

lemma feed_phase1: "phase1 sample_store (name_program ''app'' feed_script) sample_heap = (feed_checked, [], sample_heap)"
proof -
  have "fst (phase1 sample_store (name_program ''app'' feed_script) sample_heap) = feed_checked" by code_simp
  moreover have "fst (snd (phase1 sample_store (name_program ''app'' feed_script) sample_heap)) = []" by code_simp
  moreover have "snd (snd (phase1 sample_store (name_program ''app'' feed_script) sample_heap)) = sample_heap"
    by (simp add: phase1_def split_def Let_def)
       (simp add: desugar_def substitute_implicit_outports_def substitute_implicit_inports_def substitute_voidports_def expand_portlists_def
         rewrite_tree_def feed_script_def void_ports_def)
  ultimately show ?thesis by (auto simp: prod_eq_iff)
qed

definition feed_expanded :: tree where
  "feed_expanded = [Block ''app'' [] [Block ''f'' [] (pass_body 20), Link (OutPort ''f'' ''out'' 8) (InPort ''f'' ''in'' 9)]]"

definition feed_flat :: tree where
  "feed_flat =
     [Assignment ''app:f:a'' ''std.Identity'' [] (known_type ''std.Identity''),
      Link (OutPort ''app:f'' ''out'' 8) (InPort ''app:f:a'' ''token'' 22), Link (OutPort ''app:f:a'' ''token'' 23) (InPort ''app:f'' ''in'' 9)]"

lemma feed_expansion: "expand_components sample_store True feed_checked sample_heap = Some (feed_expanded, [], copy_heap sample_heap)"
  by (simp add: expand_components_def feed_checked_def pass_body_def expand_head_def expand_type_def known_type_def sample_store_def
      instance_body_def actor_type_def pass_type_def clone_body_def args_dict_def unknown_type_def feed_expanded_def sample_heap_def)

lemma feed_collected: "hp_kids h = (\<lambda>_. []) \<Longrightarrow> collect_port_properties feed_expanded h = (feed_expanded, h)"
  by (simp add: collect_port_properties_def feed_expanded_def pass_body_def known_type_def sample_store_def actor_type_def declared_properties_def)

lemma feed_flattened: "hp_kids h = (\<lambda>_. []) \<Longrightarrow> flatten feed_expanded h = (feed_flat, h)"
  by (simp add: flatten_def feed_expanded_def pass_body_def absorb_def absorb_link_def qualify_def relinked_kids feed_flat_def)

definition feed_counted :: coalesced where
  "feed_counted =
     [((''app:f:a'', ''token'', ''in''), [], 1), ((''app:f'', ''out'', ''out''), [], 1), ((''app:f'', ''in'', ''in''), [], 1),
      ((''app:f:a'', ''token'', ''out''), [], 1)]"

lemma feed_counts: "hp_kids h = (\<lambda>_. []) \<Longrightarrow> coalesce_links feed_flat ([], h) = (feed_counted, h)"
  by (simp add: feed_flat_def coalesce_no_kids count_link_def in_key_def out_key_def opt_default_def dput_def feed_counted_def)

definition feed_props :: "nat \<Rightarrow> node list" where
  "feed_props n =
     [counted_property ''app:f:a'' ''token'' ''in'' n, counted_property ''app:f'' ''out'' ''out'' (n + 1),
      counted_property ''app:f'' ''in'' ''in'' (n + 2), counted_property ''app:f:a'' ''token'' ''out'' (n + 3)]"

lemma feed_coalesced:
  assumes "hp_kids h = (\<lambda>_. [])"
  shows "\<exists>h1. coalesce_properties feed_flat h = (feed_flat @ feed_props (hp_next h), h1) \<and> (\<forall>i<4. hp_vals h1 (hp_next h + i) = PInt 1)"
  by (simp add: coalesce_properties_def feed_counts[OF assms] feed_counted_def new_value_def feed_props_def counted_property_def
      numeral_eq_Suc less_Suc_eq)

lemma feed_merged: "merge_properties (feed_flat @ feed_props n) h = (Inr (feed_flat @ feed_props n, []), h)"
  by (simp add: feed_flat_def feed_props_def counted_property_def and_then_def)

lemma feed_proper: "\<forall>i<4. hp_vals h (n + i) = PInt 1 \<Longrightarrow> check_properties (feed_flat @ feed_props n) h = Inr []"
  by (simp add: check_properties_def feed_flat_def feed_props_def counted_property_def check_argument_def check_value_def port_property_data_def
      number_above_one_def numeral_eq_Suc less_Suc_eq all_conj_distrib)

lemma feed_phase2: "\<exists>h. phase2 sample_store True feed_checked sample_heap = Some (Inr (feed_flat @ feed_props 40, []), h)"
proof -
  have k: "hp_kids (copy_heap sample_heap) = (\<lambda>_. [])" "hp_next (copy_heap sample_heap) = 40"
    by (simp_all add: copy_heap_kids sample_heap_def) (simp add: copy_heap_def)
  obtain h1 where c: "coalesce_properties feed_flat (copy_heap sample_heap) = (feed_flat @ feed_props 40, h1)" "\<forall>i<4. hp_vals h1 (40 + i) = PInt 1"
    using feed_coalesced[OF k(1)] unfolding k(2) by blast
  show ?thesis
    by (simp add: phase2_def feed_expansion feed_collected[OF k(1)] feed_flattened[OF k(1)] c(1) feed_merged feed_proper[OF c(2)] and_then_def)
qed

definition feed_emitted :: "heap \<Rightarrow> deployable \<times> issue list" where
  "feed_emitted h = generate_app_info (\<lambda>ty ins outs. ty) ''app'' (feed_flat @ feed_props 40) h"

lemma feed_emission:
  "snd (feed_emitted h) = []"
  "connected (fst (feed_emitted h)) (at_port ''app:f'' ''out'') (at_port ''app:f:a'' ''token'')"
  "connected (fst (feed_emitted h)) (at_port ''app:f:a'' ''token'') (at_port ''app:f'' ''in'')"
  "\<not> is_actor (fst (feed_emitted h)) ''app:f'' ty"
proof -
  have link: "connected (fst (feed_emitted h)) (port_text src) (port_text dst)" if "Link src dst \<in> set feed_flat" for src dst
    unfolding feed_emitted_def generate_app_info_def emitted_connections using that by auto
  from link[of "OutPort ''app:f'' ''out'' 8" "InPort ''app:f:a'' ''token'' 22"] link[of "OutPort ''app:f:a'' ''token'' 23" "InPort ''app:f'' ''in'' 9"]
  show "connected (fst (feed_emitted h)) (at_port ''app:f'' ''out'') (at_port ''app:f:a'' ''token'')"
    "connected (fst (feed_emitted h)) (at_port ''app:f:a'' ''token'') (at_port ''app:f'' ''in'')"
    by (simp_all add: feed_flat_def at_port_def port_text_def)
  show "snd (feed_emitted h) = []" "\<not> is_actor (fst (feed_emitted h)) ''app:f'' ty"
    by (simp_all add: feed_emitted_def generate_app_info_def feed_flat_def feed_props_def counted_property_def known_type_def sample_store_def
        actor_type_def is_actor_def)
qed

text \<open>
  The compiler overlooks a link from an instance of a component to itself.  In this script the outport of such an instance is linked to its
  own inport; it compiles without an issue and the application is marked as valid, but two of its connections lead to and from ports of the
  instance, which is not among the actors: the link should have joined the two ports inside.\<close>
theorem self_link_left_dangling:
  "\<exists>app. generate_code sample_store (\<lambda>ty ins outs. ty) True ''app'' feed_script sample_heap = Some (Inr (app, [])) \<and> app_valid app
    \<and> connected app (at_port ''app:f'' ''out'') (at_port ''app:f:a'' ''token'')
    \<and> connected app (at_port ''app:f:a'' ''token'') (at_port ''app:f'' ''in'') \<and> (\<forall>ty. \<not> is_actor app ''app:f'' ty)"
proof -
  obtain h where 2: "phase2 sample_store True feed_checked sample_heap = Some (Inr (feed_flat @ feed_props 40, []), h)"
    using feed_phase2 by blast
  obtain app where g: "feed_emitted h = (app, [])" using feed_emission(1)[of h] by (cases "feed_emitted h") auto
  have "generate_code sample_store (\<lambda>ty ins outs. ty) True ''app'' feed_script sample_heap = Some (Inr (app\<lparr>app_valid := True\<rparr>, []))"
    using g by (simp add: generate_code_def feed_phase1 2 feed_emitted_def)
  with feed_emission(2-4)[of h] g show ?thesis by (intro exI[of _ "app\<lparr>app_valid := True\<rparr>"]) simp
qed

end
