(* ===== verification/Spec2Isabelle.thy ===== *)
theory Spec2Isabelle
  imports Scheduler_Properties Policy_Properties Node_Search Requirement_Properties Codegen_Properties
begin

text \<open>
  A verification development for Calvin (src/calvin): a runtime for applications made of actors
  that exchange tokens over ports.

  \<^bold>\<open>The program.\<close>  An actor (actor/actor.py) has inports and outports (actor/actorport.py).  Every port owns a
  queue (runtime/north/plugins/port/queue) and a list of endpoints, one per peer
  (plugins/port/endpoint).  The scheduler (runtime/north/scheduler.py) fires the actors that may run and lets
  the endpoints communicate: a local endpoint moves tokens directly between two queues, a tunnel
  endpoint sends them to another runtime in numbered messages that are acknowledged or refused.
  What an actor may do is decided by policies (runtime/north/authorization), what it is found by
  is a tree of indexed attributes (utilities/attribute_resolver.py), kept in a registry behind the
  storage of each runtime (runtime/north/storage.py).

  \<^bold>\<open>The theories.\<close>  \<open>Calvin_Prelude\<close> holds exceptions as values, results that keep the state of an object
  when an exception is raised, dictionaries as association lists and ring buffers.
  \<open>Calvin_Token\<close> models runtime/north/calvin_token.py.  \<open>Queue_Interface\<close> states the contracts
  of queues as locales: taking tokens out by sequence number, delivering them by sequence
  number, and an actor's reading and writing.  \<open>Fanout_FIFO\<close>, \<open>Fanout_Dispatch\<close> with
  \<open>Dispatch_Schedule\<close> and \<open>Dispatch_Runs\<close>, and \<open>Collect_Queues\<close> with \<open>Collect_Lemmas\<close> model fanout_fifo.py, the
  family of fanout_base.py and the family of collect_base.py and interpret the contracts on them;
  \<open>Any_Queue\<close> is the queue a port selects by its routing.  \<open>Local_Endpoint\<close> and
  \<open>Tunnel_Endpoint\<close> model local.py and tunnel.py over the contracts, \<open>Tunnel_Protocol\<close> a
  tunnelled connection as a step relation.  \<open>Actor_Port\<close>, \<open>Actor_Core\<close> and \<open>Actor_Lemmas\<close>
  model actorport.py and actor.py, \<open>Scheduler\<close> and \<open>Scheduler_Lemmas\<close> model scheduler.py and
  monitor.py.  \<open>Registry_Vocabulary\<close> states the contract of a registry and models
  storage_dict_local.py, \<open>Registry_Storage\<close> models storage.py, \<open>Storage_Protocol\<close> runs it with a registry that
  loses requests and answers, \<open>Storage_Objects\<close> holds the nodes, actors and replicas kept in it.
  \<open>Attribute_Index\<close> models attribute_resolver.py,
  \<open>Policy_Decision\<close> the policy decision point and its information point; \<open>Node_Search\<close> joins index strings
  and storage.  \<open>Dynops\<close> models dynops.py, \<open>Dynops_Contract\<close> states what a dynamic iterable promises as a
  locale that every set operation preserves, \<open>Dynops_Tree\<close> interprets it on trees of them; \<open>Requirement_Match\<close> and
  \<open>Requirement_Lemmas\<close> model requirement_matching.py and the placement requirements over such trees.

  \<^bold>\<open>The compiler.\<close>  A script becomes an application in csparser/codegen.py, whose passes are modelled in their
  order: \<open>Codegen_Tree\<close> is the syntax tree (astnode.py), \<open>Codegen_Rewrite\<close> the rewriting of links,
  \<open>Codegen_Check\<close> constants and consistency, \<open>Codegen_Expand\<close> the expansion of components,
  \<open>Codegen_Flatten\<close> port properties and flattening, \<open>Codegen_Emit\<close> the rest up to the deployable
  application.  \<open>Codegen_Wiring\<close> gives a script with blocks its meaning, which ports of which actors are connected; \<open>Codegen_Sound\<close>,
  \<open>Codegen_Checked\<close>, \<open>Codegen_Expanded\<close>, \<open>Codegen_Served\<close> and \<open>Codegen_Deployed\<close> follow a script through the passes: what
  desugaring, the check, expansion, the wiring and the emission establish for the next one; \<open>Codegen_Recursion\<close> says
  when the expansion ends.

  \<^bold>\<open>Correspondence.\<close>  The fields of a Python object are the fields of a record, with a prefix per
  class; a method is a function of the same name with that prefix, from the state to a
  result and the new state.  A result is \<open>Inl\<close> of an exception or \<open>Inr\<close> of a value;
  \<open>None\<close> is the option value.  Integers are unbounded, as in Python.  Sets whose order the
  program uses are lists.  Clocks, the random module and installed plugins are parameters.

  \<^bold>\<open>The theorems.\<close>  The theories named \<open>_Properties\<close> hold the claims, each with a concrete witness:
  every reader of a queue gets every token once and in order; dispatching and collecting queues
  route and interleave as their class promises and lose nothing on commit, cancel and exhaustion; a
  local transfer and a tunnel with lossy messages deliver exactly once and in order; a firing
  that passed its guards cannot fail; the scheduler keeps going until a task raises an exception; migrated ports keep their tokens;
  members of registry indices survive lost requests, and an update is forgotten only when the callback of a failed index update raises;
  a permit has a reason, a denial wins, several requirements must all be permitted; an index can be decoded and
  a node found by its attributes; an actor is placed where its requirements hold;
  a script without errors becomes an application in which exactly the ports of its actors are connected, as the script wires
  them.
  Several theorems show states in which the code fails (a second NACK of a bulk, a queue
  whose last reader was removed, a two-peer schedule that shrinks to one, an exception token on
  an any-tagged port, a task that raises while the next one is overdue, an index member swallowed
  by a flush).

  \<^bold>\<open>Bounds and fuel.\<close>  Loops that may run for ever are partial functions into option: the transfer loop of
  a local connection, the sending loop of a tunnel and the rounds of firing; that the first two
  end, and the third within a time limit, is proved.  The expansion of components is one as well; it ends if they can be
  ranked.  No fuel is used.

  \<^bold>\<open>Not modelled.\<close>  Of the code generator: positions in the source text, deployment rules, components read from the actor store, tags of ports, and the hash values of signatures (a parameter). The parser, the network, the distributed storage and the tools listed as not modelled in the manifest: they are bindings, I/O or orchestration by callbacks.
\<close>

section \<open>Attributes, storage and search together\<close>

text \<open>
  C30: A node is found by its attributes.  When a runtime has stored its node index, a search string
  formatted from one attribute finds the node among the members under its levels, if the
  words asked for, without the trailing empty ones, are the first words of the node's attribute; in all words no backslash
  may be directly followed by a slash, and no word of an attribute that is no resource may be the name of one.\<close>
theorem node_found_by_attributes:
  assumes "get_indexed_public (nd_attributes n) = Inr indexes" "(ty, vs) \<in> set (na_indexed (nd_attributes n))"
    and "clean_word ty" "\<forall>v\<in>set vs. clean_word (the (index_text v))"
    and "ty \<in> set resource_list \<or> (\<forall>r\<in>set resource_list. PStr r \<notin> set vs)"
    and "attr_resolver str_of ty v = Inr q"
    and "map index_text (trim_index q) = map index_text (take (length (trim_index q)) vs)"
  shows "\<exists>sq. format_index_string str_of (PDict [(PStr ty, v)]) True = Inr sq
    \<and> nd_id n \<in> local_members (fst (index_strings (IStr sq) 2)) (snd (add_node_index (\<lambda>_. True) n s))"
  using planned_under_prefix[OF assms(1-4,7) kind_of_match[OF assms(5,7)]] assms(6)
  by (simp add: format_index_string_def)

lemma node_found_by_attributes_witness:
  "\<exists>sq. format_index_string (\<lambda>v. []) (PDict [(PStr ''owner'', PDict [(PStr ''organization'', PStr ''org'')])]) True = Inr sq
    \<and> ''n1'' \<in> local_members (fst (index_strings (IStr sq) 2))
       (snd (add_node_index (\<lambda>_. True)
         (sample_node\<lparr>nd_attributes := \<lparr>na_indexed = [(''owner'', [PStr ''org'', PNone, PStr ''admin'', PNone])],
            na_public = PDict [], na_private = PDict []\<rparr>\<rparr>) (storage_init ''dht'')))"
proof -
  let ?na = "\<lparr>na_indexed = [(''owner'', [PStr ''org'', PNone, PStr ''admin'', PNone])], na_public = PDict [], na_private = PDict []\<rparr>"
  let ?n = "sample_node\<lparr>nd_attributes := ?na\<rparr>" and ?v = "PDict [(PStr ''organization'', PStr ''org'')]"
  let ?q = "[PStr ''org'', PNone, PNone, PNone]"
  have i: "get_indexed_public ?na = Inr [''/node/attribute/owner/org//admin/'']" by code_simp
  have q: "attr_resolver (\<lambda>v. []) ''owner'' ?v = Inr ?q" by code_simp
  have t: "trim_index ?q = [PStr ''org'']" by code_simp
  have id: "nd_id ?n = ''n1''" by (simp add: sample_node_def)
  have "\<exists>sq. format_index_string (\<lambda>v. []) (PDict [(PStr ''owner'', ?v)]) True = Inr sq
      \<and> nd_id ?n \<in> local_members (fst (index_strings (IStr sq) 2)) (snd (add_node_index (\<lambda>_. True) ?n (storage_init ''dht'')))"
    by (rule node_found_by_attributes[where vs = "[PStr ''org'', PNone, PStr ''admin'', PNone]" and q = ?q])
       (use i q in \<open>simp_all add: t resource_list_def\<close>)
  then show ?thesis unfolding id .
qed

end
